(* ===== verification/PC_Prelude.thy ===== *)
theory PC_Prelude
  imports Main "HOL-Library.Word" "HOL-Library.Product_Lexorder"
begin

unbundle bit_operations_syntax

text \<open>
  Shared vocabulary of the development: machine integers and their checked
  operations, the operations of a hash map on association lists, the selection
  functions of Rust iterators, byte strings, and the state-and-error computations
  in which the stateful components are written.
\<close>

named_theorems hm_simps \<open>equations of the hash-map operations\<close>
named_theorems keeps_intros \<open>invariant-preservation rules of stateful computations\<close>

section \<open>Machine integers\<close>

text \<open>
  A \<open>u64\<close> (and \<open>usize\<close>, on the 64-bit targets the program is built for) is a
  natural number below \<open>u64_limit\<close>; the checked operations of the source test the
  bound, the saturating ones clip at it.
\<close>

definition u64_limit :: nat where
  "u64_limit = 2 ^ 64"

definition u64_max :: nat where
  "u64_max = 2 ^ 64 - 1"

definition checked_add :: "nat \<Rightarrow> nat \<Rightarrow> nat option" where
  "checked_add a b = (if a + b < u64_limit then Some (a + b) else None)"

definition checked_mul :: "nat \<Rightarrow> nat \<Rightarrow> nat option" where
  "checked_mul a b = (if a * b < u64_limit then Some (a * b) else None)"

definition checked_sub :: "nat \<Rightarrow> nat \<Rightarrow> nat option" where
  "checked_sub a b = (if b \<le> a then Some (a - b) else None)"

definition saturating_add :: "nat \<Rightarrow> nat \<Rightarrow> nat" where
  "saturating_add a b = min (a + b) u64_max"

definition saturating_mul :: "nat \<Rightarrow> nat \<Rightarrow> nat" where
  "saturating_mul a b = min (a * b) u64_max"

lemma checked_add_SomeD [dest!]: "checked_add a b = Some c \<Longrightarrow> c = a + b \<and> a + b < u64_limit"
  by (auto simp: checked_add_def split: if_splits)

lemma checked_add_NoneD [dest!]: "checked_add a b = None \<Longrightarrow> u64_limit \<le> a + b"
  by (auto simp: checked_add_def split: if_splits)

lemma checked_mul_SomeD [dest!]: "checked_mul a b = Some c \<Longrightarrow> c = a * b \<and> a * b < u64_limit"
  by (auto simp: checked_mul_def split: if_splits)

lemma checked_sub_SomeD [dest!]: "checked_sub a b = Some c \<Longrightarrow> c = a - b \<and> b \<le> a"
  by (auto simp: checked_sub_def split: if_splits)

lemma checked_sub_Some [simp]: "b \<le> a \<Longrightarrow> checked_sub a b = Some (a - b)"
  by (simp add: checked_sub_def)

lemma saturating_add_le: "saturating_add a b \<le> a + b"
  by (simp add: saturating_add_def)

section \<open>Hash maps\<close>

text \<open>
  A \<open>HashMap\<close> or \<open>BTreeMap\<close> the program iterates over is an association list with
  distinct keys; \<open>get\<close> is \<^const>\<open>map_of\<close>. \<open>hm_adjust\<close> is the mutation through
  \<open>get_mut\<close>, which leaves the map alone where the key is absent.
\<close>

type_synonym ('k, 'v) hmap = "('k \<times> 'v) list"

definition hm_keys :: "('k, 'v) hmap \<Rightarrow> 'k set" where
  "hm_keys m = fst ` set m"

definition hm_wf :: "('k, 'v) hmap \<Rightarrow> bool" where
  "hm_wf m \<longleftrightarrow> distinct (map fst m)"

definition hm_remove :: "'k \<Rightarrow> ('k, 'v) hmap \<Rightarrow> ('k, 'v) hmap" where
  "hm_remove k m = filter (\<lambda>e. fst e \<noteq> k) m"

definition hm_insert :: "'k \<Rightarrow> 'v \<Rightarrow> ('k, 'v) hmap \<Rightarrow> ('k, 'v) hmap" where
  "hm_insert k v m = hm_remove k m @ [(k, v)]"

definition hm_adjust :: "'k \<Rightarrow> ('v \<Rightarrow> 'v) \<Rightarrow> ('k, 'v) hmap \<Rightarrow> ('k, 'v) hmap" where
  "hm_adjust k f m = map (\<lambda>e. if fst e = k then (fst e, f (snd e)) else e) m"

text \<open>Removal of a whole list of keys, one after the other.\<close>

definition hm_remove_all :: "'k list \<Rightarrow> ('k, 'v) hmap \<Rightarrow> ('k, 'v) hmap" where
  "hm_remove_all ks m = fold hm_remove ks m"

definition hm_count :: "('v \<Rightarrow> bool) \<Rightarrow> ('k, 'v) hmap \<Rightarrow> nat" where
  "hm_count P m = length (filter (\<lambda>e. P (snd e)) m)"

definition hm_total :: "('v \<Rightarrow> nat) \<Rightarrow> ('k, 'v) hmap \<Rightarrow> nat" where
  "hm_total f m = (\<Sum>e\<leftarrow>m. f (snd e))"

lemma hm_wf_Nil [simp]: "hm_wf []"
  by (simp add: hm_wf_def)

lemma hm_keys_Nil [simp]: "hm_keys [] = {}"
  by (simp add: hm_keys_def)

lemma hm_total_Nil [simp]: "hm_total f [] = 0"
  by (simp add: hm_total_def)

lemma hm_count_Nil [simp]: "hm_count P [] = 0"
  by (simp add: hm_count_def)

lemma hm_keys_iff: "k \<in> hm_keys m \<longleftrightarrow> (\<exists>v. map_of m k = Some v)"
  by (metis hm_keys_def domIff dom_map_of_conv_image_fst option.exhaust option.distinct(1))

lemma hm_keys_Some: "map_of m k = Some v \<Longrightarrow> k \<in> hm_keys m"
  by (auto simp: hm_keys_iff)

lemma hm_mem_iff: "hm_wf m \<Longrightarrow> (k, v) \<in> set m \<longleftrightarrow> map_of m k = Some v"
  by (simp add: hm_wf_def)

lemma hm_keys_remove [hm_simps]: "hm_keys (hm_remove k m) = hm_keys m - {k}"
  by (auto simp: hm_keys_def hm_remove_def)

lemma hm_keys_insert [hm_simps]: "hm_keys (hm_insert k v m) = insert k (hm_keys m)"
  by (auto simp: hm_keys_def hm_insert_def hm_remove_def)

lemma hm_keys_adjust [hm_simps]: "hm_keys (hm_adjust k f m) = hm_keys m"
proof -
  have "map fst (hm_adjust k f m) = map fst m"
    by (simp add: hm_adjust_def)
  then show ?thesis by (metis hm_keys_def list.set_map)
qed

lemma hm_wf_remove [hm_simps]: "hm_wf m \<Longrightarrow> hm_wf (hm_remove k m)"
  by (induction m) (auto simp: hm_wf_def hm_remove_def)

lemma hm_wf_insert [hm_simps]: "hm_wf m \<Longrightarrow> hm_wf (hm_insert k v m)"
  using hm_wf_remove [of m k] by (auto simp: hm_wf_def hm_insert_def hm_remove_def)

lemma hm_wf_adjust [hm_simps]: "hm_wf (hm_adjust k f m) = hm_wf m"
proof -
  have "map fst (hm_adjust k f m) = map fst m"
    by (simp add: hm_adjust_def)
  then show ?thesis by (simp only: hm_wf_def)
qed

lemma hm_get_remove [hm_simps]:
  "map_of (hm_remove k m) k' = (if k' = k then None else map_of m k')"
  by (induction m) (auto simp: hm_remove_def)

lemma hm_get_insert [hm_simps]:
  "map_of (hm_insert k v m) k' = (if k' = k then Some v else map_of m k')"
  by (auto simp: hm_insert_def map_add_def hm_get_remove split: option.splits)

lemma hm_get_adjust [hm_simps]:
  "map_of (hm_adjust k f m) k' = (if k' = k then map_option f (map_of m k') else map_of m k')"
  by (induction m) (auto simp: hm_adjust_def)

lemma hm_wf_remove_all [hm_simps]: "hm_wf m \<Longrightarrow> hm_wf (hm_remove_all ks m)"
  unfolding hm_remove_all_def by (induction ks arbitrary: m) (auto simp: hm_simps)

lemma hm_get_remove_all [hm_simps]:
  "map_of (hm_remove_all ks m) k = (if k \<in> set ks then None else map_of m k)"
  unfolding hm_remove_all_def by (induction ks arbitrary: m) (auto simp: hm_simps)

lemma length_hm_remove_le: "length (hm_remove k m) \<le> length m"
  by (simp add: hm_remove_def)

lemma length_hm_remove_all_le: "length (hm_remove_all ks m) \<le> length m"
  unfolding hm_remove_all_def
proof (induction ks arbitrary: m)
  case (Cons k ks)
  show ?case using Cons.IH [of "hm_remove k m"] length_hm_remove_le [of k m] by simp
qed simp

lemma hm_remove_absent: "k \<notin> hm_keys m \<Longrightarrow> hm_remove k m = m"
  by (force simp: hm_remove_def hm_keys_def filter_id_conv)

lemma length_hm_insert_le: "length (hm_insert k v m) \<le> Suc (length m)"
  using length_hm_remove_le [of k m] by (simp add: hm_insert_def)

lemma length_hm_adjust [hm_simps]: "length (hm_adjust k f m) = length m"
  by (simp add: hm_adjust_def)

lemma hm_remove_adjust: "hm_remove k (hm_adjust k f m) = hm_remove k m"
  by (induction m) (auto simp: hm_remove_def hm_adjust_def)

lemma hm_remove_adjust_other: "k \<noteq> j \<Longrightarrow> hm_remove k (hm_adjust j f m) = hm_adjust j f (hm_remove k m)"
  by (induction m) (auto simp: hm_remove_def hm_adjust_def)

text \<open>
  How counts and totals change. Each lemma isolates the contribution of one key,
  so that a ledger over the values is re-established by arithmetic.
\<close>

lemma hm_split_key:
  assumes "map_of m k = Some v" "hm_wf m"
  obtains xs ys where "m = xs @ (k, v) # ys" "k \<notin> fst ` set xs" "k \<notin> fst ` set ys"
proof -
  from assms(1) have "(k, v) \<in> set m" by (rule map_of_SomeD)
  then obtain xs ys where m: "m = xs @ (k, v) # ys" by (meson split_list)
  with assms(2) have "k \<notin> fst ` set xs" "k \<notin> fst ` set ys" by (auto simp: hm_wf_def)
  with m show ?thesis by (rule that)
qed

lemma hm_remove_split [simp]:
  "k \<notin> fst ` set xs \<Longrightarrow> k \<notin> fst ` set ys \<Longrightarrow> hm_remove k (xs @ (k, v) # ys) = xs @ ys"
proof -
  assume "k \<notin> fst ` set xs" "k \<notin> fst ` set ys"
  then have "filter (\<lambda>e. fst e \<noteq> k) xs = xs" "filter (\<lambda>e. fst e \<noteq> k) ys = ys"
    by (auto simp: filter_id_conv image_iff)
  then show ?thesis by (simp add: hm_remove_def)
qed

lemma map_adjust_absent: "k \<notin> fst ` set xs \<Longrightarrow> hm_adjust k f xs = xs"
  by (force simp: hm_adjust_def intro!: map_idI)

lemma hm_adjust_split:
  "k \<notin> fst ` set xs \<Longrightarrow> k \<notin> fst ` set ys \<Longrightarrow>
     hm_adjust k f (xs @ (k, v) # ys) = xs @ (k, f v) # ys"
  using map_adjust_absent [of k xs f] map_adjust_absent [of k ys f]
  by (simp add: hm_adjust_def)

lemma hm_total_remove:
  assumes "map_of m k = Some v" "hm_wf m"
  shows "hm_total f m = hm_total f (hm_remove k m) + f v"
  using assms by (rule hm_split_key) (simp add: hm_total_def)

lemma hm_count_remove:
  assumes "map_of m k = Some v" "hm_wf m"
  shows "hm_count P m = hm_count P (hm_remove k m) + (if P v then 1 else 0)"
  using assms by (rule hm_split_key) (simp add: hm_count_def)

lemma length_hm_remove:
  assumes "map_of m k = Some v" "hm_wf m"
  shows "length m = Suc (length (hm_remove k m))"
  using assms by (rule hm_split_key) simp

lemma hm_total_adjust:
  assumes "map_of m k = Some v" "hm_wf m"
  shows "hm_total f (hm_adjust k g m) + f v = hm_total f m + f (g v)"
  using assms by (rule hm_split_key) (simp add: hm_total_def hm_adjust_split)

lemma hm_count_adjust:
  assumes "map_of m k = Some v" "hm_wf m"
  shows "hm_count P (hm_adjust k g m) + (if P v then 1 else 0)
       = hm_count P m + (if P (g v) then 1 else 0)"
  using assms by (rule hm_split_key) (simp add: hm_count_def hm_adjust_split)

lemma hm_insert_fresh: "k \<notin> hm_keys m \<Longrightarrow> hm_insert k v m = m @ [(k, v)]"
  by (simp add: hm_insert_def hm_remove_absent)

lemma hm_total_insert_fresh: "k \<notin> hm_keys m \<Longrightarrow> hm_total f (hm_insert k v m) = hm_total f m + f v"
  by (simp add: hm_insert_fresh hm_total_def)

lemma hm_count_insert_fresh:
  "k \<notin> hm_keys m \<Longrightarrow> hm_count P (hm_insert k v m) = hm_count P m + (if P v then 1 else 0)"
  by (simp add: hm_insert_fresh hm_count_def)

lemma hm_total_ge: "map_of m k = Some v \<Longrightarrow> f v \<le> hm_total f m"
proof (induction m)
  case (Cons e m)
  then show ?case by (cases "fst e = k") (auto simp: hm_total_def)
qed simp

text \<open>A total as a sum over the keys.\<close>

lemma hm_total_sum:
  assumes "hm_wf m"
  shows "hm_total f m = (\<Sum>k\<in>hm_keys m. f (the (map_of m k)))"
  using assms
proof (induction m)
  case (Cons e m)
  obtain k v where e: "e = (k, v)" by (cases e)
  with Cons.prems have wf: "hm_wf m" "k \<notin> hm_keys m" by (auto simp: hm_wf_def hm_keys_def)
  have "(\<Sum>j\<in>hm_keys m. f (the (map_of (e # m) j))) = (\<Sum>j\<in>hm_keys m. f (the (map_of m j)))"
    using wf(2) e by (intro sum.cong) auto
  moreover have "hm_keys (e # m) = insert k (hm_keys m)" "finite (hm_keys m)" by (auto simp: e hm_keys_def)
  ultimately show ?case using Cons.IH [OF wf(1)] wf(2) e by (simp add: hm_total_def)
qed simp

lemma hm_count_pos: "map_of m k = Some v \<Longrightarrow> P v \<Longrightarrow> 0 < hm_count P m"
  by (force simp: hm_count_def filter_empty_conv dest: map_of_SomeD)

section \<open>Selection over iterators\<close>

text \<open>
  \<open>min_by_key\<close> of a Rust iterator: the first element whose key is least;
  \<open>find_map\<close>: the first element the function accepts.
\<close>

fun min_by_key :: "('a \<Rightarrow> 'b::linorder) \<Rightarrow> 'a list \<Rightarrow> 'a option" where
  "min_by_key f [] = None"
| "min_by_key f (x # xs) =
     (case min_by_key f xs of
        None \<Rightarrow> Some x
      | Some y \<Rightarrow> if f y < f x then Some y else Some x)"

fun find_map :: "('a \<Rightarrow> 'b option) \<Rightarrow> 'a list \<Rightarrow> 'b option" where
  "find_map f [] = None"
| "find_map f (x # xs) = (case f x of None \<Rightarrow> find_map f xs | Some y \<Rightarrow> Some y)"

lemma min_by_key_None [simp]: "min_by_key f xs = None \<longleftrightarrow> xs = []"
  by (cases xs) (auto split: option.splits if_splits)

lemma min_by_key_mem: "min_by_key f xs = Some x \<Longrightarrow> x \<in> set xs"
  by (induction xs arbitrary: x) (auto split: option.splits if_splits)

lemma min_by_key_le: "min_by_key f xs = Some x \<Longrightarrow> y \<in> set xs \<Longrightarrow> f x \<le> f y"
proof (induction xs arbitrary: x)
  case (Cons a xs)
  show ?case
  proof (cases "min_by_key f xs")
    case None
    with Cons.prems show ?thesis by auto
  next
    case (Some z)
    from Cons.IH [OF Some] Cons.prems Some show ?thesis
      by (auto split: if_splits)
  qed
qed simp

lemma find_map_Some: "find_map f xs = Some y \<Longrightarrow> \<exists>x \<in> set xs. f x = Some y"
  by (induction xs) (auto split: option.splits)

lemma find_map_None: "find_map f xs = None \<longleftrightarrow> (\<forall>x \<in> set xs. f x = None)"
  by (induction xs) (auto split: option.splits)

section \<open>Computations with state and errors\<close>

text \<open>
  A method with a \<open>&mut self\<close> receiver that returns \<open>Result\<close>: the receiver as it is
  left, also where the method returns early with an error, and the error or the value.
\<close>

type_synonym ('s, 'e, 'a) comp = "'s \<Rightarrow> ('e + 'a) \<times> 's"

definition ret :: "'a \<Rightarrow> ('s, 'e, 'a) comp" where
  "ret x = (\<lambda>s. (Inr x, s))"

definition fail :: "'e \<Rightarrow> ('s, 'e, 'a) comp" where
  "fail e = (\<lambda>s. (Inl e, s))"

definition bindc :: "('s, 'e, 'a) comp \<Rightarrow> ('a \<Rightarrow> ('s, 'e, 'b) comp) \<Rightarrow> ('s, 'e, 'b) comp" where
  "bindc m f = (\<lambda>s. case m s of (Inl e, t) \<Rightarrow> (Inl e, t) | (Inr x, t) \<Rightarrow> f x t)"

definition getc :: "('s \<Rightarrow> 'a) \<Rightarrow> ('s, 'e, 'a) comp" where
  "getc f = (\<lambda>s. (Inr (f s), s))"

definition modc :: "('s \<Rightarrow> 's) \<Rightarrow> ('s, 'e, unit) comp" where
  "modc f = (\<lambda>s. (Inr (), f s))"

definition ensure :: "bool \<Rightarrow> 'e \<Rightarrow> ('s, 'e, unit) comp" where
  "ensure b e = (if b then ret () else fail e)"

text \<open>\<open>match m\<close> with both arms: the error is a value, the state it left is kept.\<close>

definition catchc :: "('s, 'e, 'a) comp \<Rightarrow> ('e + 'a \<Rightarrow> ('s, 'e, 'b) comp) \<Rightarrow> ('s, 'e, 'b) comp" where
  "catchc m f = (\<lambda>s. case m s of (r, t) \<Rightarrow> f r t)"

definition lift_option :: "'e \<Rightarrow> 'a option \<Rightarrow> ('s, 'e, 'a) comp" where
  "lift_option e x = (case x of None \<Rightarrow> fail e | Some v \<Rightarrow> ret v)"

lemmas comp_defs = ret_def fail_def bindc_def getc_def modc_def ensure_def catchc_def lift_option_def

text \<open>Evaluation of the primitive steps in front of a continuation.\<close>

lemma bindc_eval [simp]:
  "bindc (ret x) g1 s1 = g1 x s1"
  "bindc (fail e2) g2 s2 = (Inl e2, s2)"
  "bindc (getc f) g3 s3 = g3 (f s3) s3"
  "bindc (modc h) g4 s4 = g4 () (h s4)"
  "bindc (ensure b e5) g5 s5 = (if b then g5 () s5 else (Inl e5, s5))"
  "bindc (lift_option e6 v) g6 s6 = (case v of None \<Rightarrow> (Inl e6, s6) | Some y \<Rightarrow> g6 y s6)"
  by (simp_all add: comp_defs split: option.splits)

lemma eval_simps [simp]:
  "ret x s1 = (Inr x, s1)"
  "fail e2 s2 = (Inl e2, s2)"
  "getc f s3 = (Inr (f s3), s3)"
  "modc h s4 = (Inr (), h s4)"
  "ensure b e5 s5 = (if b then (Inr (), s5) else (Inl e5, s5))"
  "lift_option e6 v s6 = (case v of None \<Rightarrow> (Inl e6, s6) | Some y \<Rightarrow> (Inr y, s6))"
  by (simp_all add: comp_defs split: option.splits)

lemma bindc_Inr: "m s = (Inr x, t) \<Longrightarrow> bindc m g s = g x t"
  by (simp add: bindc_def)

lemma bindc_Inl: "m s = (Inl e, t) \<Longrightarrow> bindc m g s = (Inl e, t)"
  by (simp add: bindc_def)

lemma catchc_eval: "m s = (r, t) \<Longrightarrow> catchc m g s = g r t"
  by (simp add: catchc_def)

lemma bindc_Inr_iff:
  "bindc m f s = (Inr y, t) \<longleftrightarrow> (\<exists>x u. m s = (Inr x, u) \<and> f x u = (Inr y, t))"
  by (auto simp: bindc_def split: prod.splits sum.splits)

lemma bindc_assoc: "bindc (bindc m f) g = bindc m (\<lambda>x. bindc (f x) g)"
  by (rule ext) (simp add: bindc_def split: prod.splits sum.splits)

subsection \<open>Hoare triples\<close>

text \<open>
  \<open>triple P m Q E\<close>: from a state that satisfies \<open>P\<close>, the computation ends with a value
  and a state that satisfy \<open>Q\<close>, or with an error and a state that satisfy \<open>E\<close>. It is
  total: every computation of the model returns.
\<close>

definition triple ::
  "('s \<Rightarrow> bool) \<Rightarrow> ('s, 'e, 'a) comp \<Rightarrow> ('a \<Rightarrow> 's \<Rightarrow> bool) \<Rightarrow> ('e \<Rightarrow> 's \<Rightarrow> bool) \<Rightarrow> bool" where
  "triple P m Q E \<longleftrightarrow>
     (\<forall>s. P s \<longrightarrow> (case m s of (Inl e, t) \<Rightarrow> E e t | (Inr x, t) \<Rightarrow> Q x t))"

lemma tripleI:
  assumes "\<And>s x t. P s \<Longrightarrow> m s = (Inr x, t) \<Longrightarrow> Q x t"
    and "\<And>s e t. P s \<Longrightarrow> m s = (Inl e, t) \<Longrightarrow> E e t"
  shows "triple P m Q E"
  using assms by (auto simp: triple_def split: prod.splits sum.splits)

lemma triple_Inr: "triple P m Q E \<Longrightarrow> P s \<Longrightarrow> m s = (Inr x, t) \<Longrightarrow> Q x t"
  unfolding triple_def by (drule spec [of _ s]) simp

lemma triple_Inl: "triple P m Q E \<Longrightarrow> P s \<Longrightarrow> m s = (Inl e, t) \<Longrightarrow> E e t"
  unfolding triple_def by (drule spec [of _ s]) simp

lemma triple_weaken:
  assumes "triple P m Q E" "\<And>s. P' s \<Longrightarrow> P s" "\<And>x s. Q x s \<Longrightarrow> Q' x s" "\<And>e s. E e s \<Longrightarrow> E' e s"
  shows "triple P' m Q' E'"
proof (rule tripleI)
  fix s x t assume "P' s" "m s = (Inr x, t)"
  then show "Q' x t" using assms triple_Inr by metis
next
  fix s e t assume "P' s" "m s = (Inl e, t)"
  then show "E' e t" using assms triple_Inl by metis
qed

lemma triple_ret: "(\<And>s. P s \<Longrightarrow> Q x s) \<Longrightarrow> triple P (ret x) Q E"
  by (auto simp: triple_def ret_def)

lemma triple_fail: "(\<And>s. P s \<Longrightarrow> E e s) \<Longrightarrow> triple P (fail e) Q E"
  by (auto simp: triple_def fail_def)

lemma triple_bindc:
  assumes "triple P m R E" "\<And>x. triple (R x) (f x) Q E"
  shows "triple P (bindc m f) Q E"
proof (rule tripleI)
  fix s y t assume "P s" "bindc m f s = (Inr y, t)"
  then show "Q y t" using assms by (auto simp: bindc_Inr_iff dest: triple_Inr)
next
  fix s e t assume *: "P s" "bindc m f s = (Inl e, t)"
  show "E e t"
  proof (cases "m s")
    case (Pair r u)
    show ?thesis
    proof (cases r)
      case (Inl e')
      with * Pair show ?thesis using assms(1) by (auto simp: bindc_def dest: triple_Inl)
    next
      case (Inr x)
      with * Pair have "f x u = (Inl e, t)" by (simp add: bindc_def)
      moreover from assms(1) * Pair Inr have "R x u" by (auto dest: triple_Inr)
      ultimately show ?thesis using assms(2) [of x] by (auto dest: triple_Inl)
    qed
  qed
qed

lemma triple_catchc:
  assumes "triple P m R F" "\<And>x. triple (R x) (f (Inr x)) Q E" "\<And>e. triple (F e) (f (Inl e)) Q E"
  shows "triple P (catchc m f) Q E"
proof -
  have "case catchc m f s of (Inl e, t) \<Rightarrow> E e t | (Inr x, t) \<Rightarrow> Q x t" if "P s" for s
  proof (cases "m s")
    case (Pair r u)
    show ?thesis
    proof (cases r)
      case (Inl e)
      with Pair that assms(1) have "F e u" by (auto dest: triple_Inl)
      with assms(3) [of e] Pair Inl show ?thesis by (simp add: triple_def catchc_def)
    next
      case (Inr x)
      with Pair that assms(1) have "R x u" by (auto dest: triple_Inr)
      with assms(2) [of x] Pair Inr show ?thesis by (simp add: triple_def catchc_def)
    qed
  qed
  then show ?thesis by (simp add: triple_def)
qed

text \<open>\<open>keeps I m\<close>: the computation preserves \<open>I\<close>, whether it fails or not.\<close>

definition keeps :: "('s \<Rightarrow> bool) \<Rightarrow> ('s, 'e, 'a) comp \<Rightarrow> bool" where
  "keeps I m \<longleftrightarrow> (\<forall>s. I s \<longrightarrow> I (snd (m s)))"

lemma keepsD: "keeps I m \<Longrightarrow> I s \<Longrightarrow> I (snd (m s))"
  by (simp add: keeps_def)

lemma keeps_ret [keeps_intros]: "keeps I (ret x)"
  by (simp add: keeps_def ret_def)

lemma keeps_fail [keeps_intros]: "keeps I (fail e)"
  by (simp add: keeps_def fail_def)

lemma keeps_getc [keeps_intros]: "keeps I (getc f)"
  by (simp add: keeps_def getc_def)

lemma keeps_ensure [keeps_intros]: "keeps I (ensure b e)"
  by (simp add: keeps_def ensure_def ret_def fail_def)

lemma keeps_lift_option [keeps_intros]: "keeps I (lift_option e x)"
  by (cases x) (simp_all add: keeps_def lift_option_def ret_def fail_def)

lemma keeps_modc: "(\<And>s. I s \<Longrightarrow> I (f s)) \<Longrightarrow> keeps I (modc f)"
  by (simp add: keeps_def modc_def)

lemma keeps_bindc [keeps_intros]:
  "keeps I m \<Longrightarrow> (\<And>x. keeps I (f x)) \<Longrightarrow> keeps I (bindc m f)"
  by (force simp: keeps_def bindc_def split: prod.splits sum.splits)

lemma keeps_catchc [keeps_intros]:
  "keeps I m \<Longrightarrow> (\<And>x. keeps I (f x)) \<Longrightarrow> keeps I (catchc m f)"
  by (force simp: keeps_def catchc_def split: prod.splits)

lemma keeps_if [keeps_intros]: "(b \<Longrightarrow> keeps I m) \<Longrightarrow> (\<not> b \<Longrightarrow> keeps I n) \<Longrightarrow> keeps I (if b then m else n)"
  by simp

section \<open>Results, bytes and text\<close>

text \<open>The \<open>?\<close> operator on a result without state.\<close>

definition tryr :: "'e + 'a \<Rightarrow> ('a \<Rightarrow> 'e + 'b) \<Rightarrow> 'e + 'b" where
  "tryr r f = (case r of Inl e \<Rightarrow> Inl e | Inr x \<Rightarrow> f x)"

definition map_err :: "('e \<Rightarrow> 'f) \<Rightarrow> 'e + 'a \<Rightarrow> 'f + 'a" where
  "map_err g r = (case r of Inl e \<Rightarrow> Inl (g e) | Inr x \<Rightarrow> Inr x)"

lemma tryr_simps [simp]: "tryr (Inl e) f = Inl e" "tryr (Inr x) g = g x"
  by (simp_all add: tryr_def)

lemma tryr_Inr_iff: "tryr r f = Inr y \<longleftrightarrow> (\<exists>x. r = Inr x \<and> f x = Inr y)"
  by (cases r) simp_all

type_synonym byte = "8 word"

text \<open>
  A Rust \<open>String\<close> is its UTF-8 bytes, written as characters; the byte-string literals of
  the source are \<open>ascii\<close> of their text. \<open>dec\<close> and \<open>hex2\<close> are the integer formats
  \<open>{}\<close> and \<open>{:02x}\<close>.
\<close>

definition ascii :: "string \<Rightarrow> byte list" where
  "ascii t = map (\<lambda>c. of_nat (of_char c)) t"

definition text_of :: "byte list \<Rightarrow> string" where
  "text_of b = map (\<lambda>x. char_of (unat x)) b"

definition digit :: "nat \<Rightarrow> char" where
  "digit n = (if n < 10 then char_of (48 + n) else char_of (87 + n))"

fun dec :: "nat \<Rightarrow> string" where
  "dec n = (if n < 10 then [digit n] else dec (n div 10) @ [digit (n mod 10)])"

declare dec.simps [simp del]

definition hex2 :: "byte \<Rightarrow> string" where
  "hex2 b = [digit (unat b div 16), digit (unat b mod 16)]"

definition starts_with :: "'a list \<Rightarrow> 'a list \<Rightarrow> bool" where
  "starts_with p b \<longleftrightarrow> take (length p) b = p"

text \<open>Big- and little-endian fields of at most eight bytes, as the shifts of the source compute them.\<close>

definition push8 :: "nat \<Rightarrow> byte \<Rightarrow> nat" where
  "push8 n b = (n * 256) mod u64_limit + unat b"

definition be_uint :: "byte list \<Rightarrow> nat" where
  "be_uint b = foldl push8 0 b"

definition le_uint :: "byte list \<Rightarrow> nat" where
  "le_uint b = foldl push8 0 (rev b)"

lemma push8_less: "n < 256 ^ k \<Longrightarrow> k < 8 \<Longrightarrow> push8 n b < 256 ^ Suc k"
proof -
  assume n: "n < 256 ^ k" and k: "k < 8"
  then have "(256::nat) ^ Suc k \<le> 256 ^ 8" by (intro power_increasing) auto
  moreover from n have "n * 256 + 256 \<le> 256 ^ Suc k" by simp
  ultimately have "n * 256 < u64_limit" by (simp add: u64_limit_def)
  moreover have "unat b < 256" using unsigned_less [of b, where ?'a = nat] by simp
  ultimately show ?thesis using \<open>n * 256 + 256 \<le> 256 ^ Suc k\<close> by (simp add: push8_def)
qed

lemma fold_push8_less:
  "n < 256 ^ k \<Longrightarrow> k + length b \<le> 8 \<Longrightarrow> foldl push8 n b < 256 ^ (k + length b)"
proof (induction b arbitrary: n k)
  case (Cons x b)
  then have "push8 n x < 256 ^ Suc k" by (intro push8_less) simp_all
  from Cons.IH [OF this] Cons.prems(2) show ?case by simp
qed simp

lemma be_uint_less: "length b \<le> 8 \<Longrightarrow> be_uint b < 256 ^ length b"
  using fold_push8_less [of 0 0 b] by (simp add: be_uint_def)

lemma le_uint_less: "length b \<le> 8 \<Longrightarrow> le_uint b < 256 ^ length b"
  using fold_push8_less [of 0 0 "rev b"] by (simp add: le_uint_def)

section \<open>Loops\<close>

text \<open>
  A loop whose body yields the next loop variables or the result. It carries fuel; running
  out of it is the error given, which the correctness theorems exclude.
\<close>

primrec loopc :: "nat \<Rightarrow> 'e \<Rightarrow> ('i \<Rightarrow> ('s, 'e, 'i + 'a) comp) \<Rightarrow> 'i \<Rightarrow> ('s, 'e, 'a) comp" where
  "loopc 0 e body i = fail e"
| "loopc (Suc n) e body i =
     bindc (body i) (\<lambda>r. case r of Inl j \<Rightarrow> loopc n e body j | Inr x \<Rightarrow> ret x)"

lemma loopc_numeral:
  "loopc (numeral k) e body i =
     bindc (body i) (\<lambda>r. case r of Inl j \<Rightarrow> loopc (pred_numeral k) e body j | Inr x \<Rightarrow> ret x)"
  by (simp add: numeral_eq_Suc)

text \<open>A \<open>for\<close> loop over a list with the variables it updates.\<close>

primrec forc :: "'x list \<Rightarrow> ('x \<Rightarrow> 'a \<Rightarrow> ('s, 'e, 'a) comp) \<Rightarrow> 'a \<Rightarrow> ('s, 'e, 'a) comp" where
  "forc [] body a = ret a"
| "forc (x # xs) body a = bindc (body x a) (forc xs body)"

end
