(* ===== verification/Transition_System.thy ===== *)
theory Transition_System
  imports PC_Prelude
begin

text \<open>
  Reachable states of a component and the contract under which an invariant of its
  operations is a property of every state the component can be in. The components
  interpret the locale with their own step relation.
\<close>

inductive reachable :: "('s \<Rightarrow> bool) \<Rightarrow> ('s \<Rightarrow> 's \<Rightarrow> bool) \<Rightarrow> 's \<Rightarrow> bool"
  for init :: "'s \<Rightarrow> bool" and step :: "'s \<Rightarrow> 's \<Rightarrow> bool" where
  start: "init s \<Longrightarrow> reachable init step s"
| move: "reachable init step s \<Longrightarrow> step s t \<Longrightarrow> reachable init step t"

locale inductive_invariant =
  fixes init :: "'s \<Rightarrow> bool"
    and step :: "'s \<Rightarrow> 's \<Rightarrow> bool"
    and inv :: "'s \<Rightarrow> bool"
  assumes inv_init: "init s \<Longrightarrow> inv s"
    and inv_step: "inv s \<Longrightarrow> step s t \<Longrightarrow> inv t"
begin

lemma reachable_inv: "reachable init step s \<Longrightarrow> inv s"
  by (induction rule: reachable.induct) (auto intro: inv_init inv_step)

lemma reachable_steps_inv: "inv s \<Longrightarrow> step\<^sup>*\<^sup>* s t \<Longrightarrow> inv t"
  by (rotate_tac, induction rule: rtranclp_induct) (auto intro: inv_step)

end

text \<open>A quantity that no step of a component lets decrease.\<close>

locale monotone_quantity =
  fixes step :: "'s \<Rightarrow> 's \<Rightarrow> bool"
    and inv :: "'s \<Rightarrow> bool"
    and quantity :: "'s \<Rightarrow> nat"
  assumes quantity_step: "inv s \<Longrightarrow> step s t \<Longrightarrow> quantity s \<le> quantity t"
    and quantity_inv_step: "inv s \<Longrightarrow> step s t \<Longrightarrow> inv t"
begin

lemma quantity_steps:
  assumes "step\<^sup>*\<^sup>* s t" "inv s"
  shows "quantity s \<le> quantity t"
proof -
  from assms have "inv t \<and> quantity s \<le> quantity t"
    by (induction rule: rtranclp_induct) (auto intro: quantity_inv_step order_trans quantity_step)
  then show ?thesis ..
qed

end

text \<open>
  A relation between the state before and after a computation, for the relations that
  hold between any state and itself and that compose: what a whole operation may do
  follows from what its primitive steps may do.
\<close>

definition advances :: "('s \<Rightarrow> 's \<Rightarrow> bool) \<Rightarrow> ('s, 'e, 'a) comp \<Rightarrow> bool" where
  "advances R m \<longleftrightarrow> (\<forall>s. R s (snd (m s)))"

locale state_preorder =
  fixes R :: "'s \<Rightarrow> 's \<Rightarrow> bool"
  assumes R_refl: "R s s"
    and R_trans: "R s t \<Longrightarrow> R t u \<Longrightarrow> R s u"
begin

lemma advances_pure:
  "advances R (ret x)" "advances R (fail e2)" "advances R (getc f)" "advances R (ensure b e5)"
  "advances R (lift_option e6 v)"
  by (auto simp: advances_def R_refl split: option.splits)

lemma advances_modc: "(\<And>s. R s (f s)) \<Longrightarrow> advances R (modc f)"
  by (simp add: advances_def)

lemma advances_bindc:
  assumes "advances R m" "\<And>x. advances R (g x)"
  shows "advances R (bindc m g)"
proof -
  have "R s (snd (bindc m g s))" for s
  proof (cases "m s")
    case (Pair r t)
    with assms(1) have "R s t" by (metis advances_def snd_conv)
    with assms(2) Pair show ?thesis
      by (cases r) (auto simp: bindc_def advances_def intro: R_trans)
  qed
  then show ?thesis by (simp add: advances_def)
qed

lemma advances_catchc:
  assumes "advances R m" "\<And>x. advances R (g x)"
  shows "advances R (catchc m g)"
proof -
  have "R s (snd (catchc m g s))" for s
  proof (cases "m s")
    case (Pair r t)
    with assms(1) have "R s t" by (metis advances_def snd_conv)
    with assms(2) Pair show ?thesis by (auto simp: catchc_def advances_def intro: R_trans)
  qed
  then show ?thesis by (simp add: advances_def)
qed

lemma advances_if: "advances R m \<Longrightarrow> advances R n \<Longrightarrow> advances R (if b then m else n)"
  by simp

lemma advances_option:
  "advances R m \<Longrightarrow> (\<And>x. advances R (g x)) \<Longrightarrow> advances R (case v of None \<Rightarrow> m | Some x \<Rightarrow> g x)"
  by (cases v) auto

lemmas advances_intros = advances_pure advances_bindc advances_catchc advances_if advances_option

end

end
