(* ===== verification/Preview_Scheduler.thy ===== *)
theory Preview_Scheduler
  imports Transition_System
begin

text \<open>
  The scheduler of preview work (\<open>preview/scheduler.rs\<close>): render jobs shared by the
  consumers of one key, native cache reads, and one byte and worker allowance for both.
  The \<open>AtomicBool\<close> tokens that the scheduler shares with running workers live in an
  explicit store (\<open>flags\<close>), so that a token handed out with a lease keeps its identity
  when the job later gets another one. Panics of the source (a missing map entry behind
  an index or \<open>unwrap\<close>, an unsigned subtraction below zero) are the error \<open>Panic\<close>.
\<close>

section \<open>State\<close>

datatype priority = Background | Foreground

instantiation priority :: linorder
begin

definition less_eq_priority :: "priority \<Rightarrow> priority \<Rightarrow> bool" where
  "less_eq_priority p q \<longleftrightarrow> p = Background \<or> q = Foreground"

definition less_priority :: "priority \<Rightarrow> priority \<Rightarrow> bool" where
  "less_priority p q \<longleftrightarrow> p = Background \<and> q = Foreground"

instance
  by standard (auto simp: less_eq_priority_def less_priority_def intro: priority.exhaust)

end

lemma max_priority [simp]:
  "max Background p = p" "max p Background = p" "max Foreground p = Foreground" "max p Foreground = Foreground"
  by (cases p; simp add: max_def less_eq_priority_def)+

record scheduler_limits =
  lim_requests :: nat
  lim_workers :: nat
  lim_working_bytes :: nat

datatype worker_outcome = Succeeded | Failed | Stopped

record work_lease =
  wl_id :: nat
  wl_key :: string
  wl_working_bytes :: nat
  wl_canceled :: nat

record scheduler_usage =
  us_consumers :: nat
  us_queued :: nat
  us_active :: nat
  us_reserved_bytes :: nat

record completion =
  co_consumers :: "nat list"
  co_outcome :: worker_outcome
  co_requeued :: bool
  co_superseded :: bool

record native_read_request =
  nrr_id :: nat
  nrr_preempted :: nat

record native_read =
  nr_priority :: priority
  nr_cost :: nat
  nr_lease :: "nat option"
  nr_preempted :: nat

record job =
  job_key :: string
  job_cost :: nat
  job_consumers :: "(nat, priority) hmap"
  job_running :: bool
  job_canceled :: nat
  job_preempted :: bool
  job_lease :: "nat option"

record preview_scheduler =
  limits :: scheduler_limits
  next_id :: nat
  jobs :: "(nat, job) hmap"
  job_keys :: "(string, nat) hmap"
  consumers :: "(nat, nat) hmap"
  reserved :: nat
  external :: "(nat, native_read) hmap"
  flags :: "bool list"

datatype sched_error =
    InvalidSchedulerLimits
  | PreviewRequestQueueFull
  | NativeWorkingAllowance
  | NativeReadRequestMissing
  | NativeReadAlreadyAdmitted
  | NativeReadLeaseMissing
  | NativeReadOwnerActive
  | RequestIdentityOverflow
  | InvalidPreviewKey
  | RequestExceedsWorkerAllowance
  | ConflictingResourceCost
  | StaleWorkerCompletion
  | UnknownWorkerCompletion
  | QueuedWorkCannotComplete
  | Panic

type_synonym 'a sched = "(preview_scheduler, sched_error, 'a) comp"

section \<open>Operations\<close>

definition job_priority :: "job \<Rightarrow> priority" where
  "job_priority j = fold max (map snd (job_consumers j)) Background"

definition flag_load :: "preview_scheduler \<Rightarrow> nat \<Rightarrow> bool" where
  "flag_load s a \<longleftrightarrow> a < length (flags s) \<and> flags s ! a"

definition flag_store :: "nat \<Rightarrow> bool \<Rightarrow> preview_scheduler \<Rightarrow> preview_scheduler" where
  "flag_store a b s = s\<lparr>flags := (flags s)[a := b]\<rparr>"

definition flag_new :: "nat sched" where
  "flag_new s = (Inr (length (flags s)), s\<lparr>flags := flags s @ [False]\<rparr>)"

definition new_scheduler :: "scheduler_limits \<Rightarrow> sched_error + preview_scheduler" where
  "new_scheduler l =
     (if 0 < lim_requests l \<and> lim_requests l \<le> 100000
         \<and> 0 < lim_workers l \<and> lim_workers l \<le> 16 \<and> 0 < lim_working_bytes l
      then Inr \<lparr>limits = l, next_id = 1, jobs = [], job_keys = [], consumers = [],
                reserved = 0, external = [], flags = []\<rparr>
      else Inl InvalidSchedulerLimits)"

definition serial :: "nat sched" where
  "serial s =
     (case checked_add (next_id s) 1 of
        None \<Rightarrow> (Inl RequestIdentityOverflow, s)
      | Some n \<Rightarrow> (Inr (next_id s), s\<lparr>next_id := n\<rparr>))"

definition usage :: "preview_scheduler \<Rightarrow> scheduler_usage" where
  "usage s =
     \<lparr>us_consumers = length (consumers s) + length (external s),
      us_queued = hm_count (\<lambda>j. \<not> job_running j) (jobs s) + hm_count (\<lambda>r. nr_lease r = None) (external s),
      us_active = hm_count job_running (jobs s) + hm_count (\<lambda>r. nr_lease r \<noteq> None) (external s),
      us_reserved_bytes = reserved s\<rparr>"

text \<open>\<open>std::cmp::Reverse\<close> of a priority, as a number: foreground first.\<close>

definition reverse_rank :: "priority \<Rightarrow> nat" where
  "reverse_rank p = (case p of Foreground \<Rightarrow> 0 | Background \<Rightarrow> 1)"

definition candidates :: "preview_scheduler \<Rightarrow> (priority \<times> nat \<times> bool) list" where
  "candidates s =
     map (\<lambda>(i, j). (job_priority j, i, False))
       (filter (\<lambda>(i, j). \<not> job_running j \<and> \<not> flag_load s (job_canceled j)) (jobs s))
     @ map (\<lambda>(i, r). (nr_priority r, i, True))
         (filter (\<lambda>(i, r). nr_lease r = None) (external s))"

definition front :: "preview_scheduler \<Rightarrow> (priority \<times> nat \<times> bool) option" where
  "front s = min_by_key (\<lambda>(p, i, _). (reverse_rank p, i)) (candidates s)"

text \<open>Running work a foreground request may push out: jobs, then native reads.\<close>

definition background_reads :: "preview_scheduler \<Rightarrow> nat list" where
  "background_reads s =
     map fst (filter (\<lambda>(i, r). nr_lease r \<noteq> None \<and> nr_priority r = Background) (external s))"

definition background_running :: "preview_scheduler \<Rightarrow> (nat \<times> bool) list" where
  "background_running s =
     map (\<lambda>(i, j). (i, False))
       (filter (\<lambda>(i, j). job_running j \<and> job_priority j = Background) (jobs s))
     @ map (\<lambda>i. (i, True)) (background_reads s)"

definition free_bytes :: "nat sched" where
  "free_bytes s =
     (case checked_sub (lim_working_bytes (limits s)) (reserved s) of
        None \<Rightarrow> (Inl Panic, s)
      | Some n \<Rightarrow> (Inr n, s))"

definition candidate_cost :: "nat \<Rightarrow> bool \<Rightarrow> nat sched" where
  "candidate_cost i native =
     (if native
      then bindc (getc (\<lambda>s. map_of (external s) i)) (\<lambda>r.
           bindc (lift_option Panic r) (\<lambda>r. ret (nr_cost r)))
      else bindc (getc (\<lambda>s. map_of (jobs s) i)) (\<lambda>j.
           bindc (lift_option Panic j) (\<lambda>j. ret (job_cost j))))"

definition preempt_read :: "nat \<Rightarrow> unit sched" where
  "preempt_read i =
     bindc (getc (\<lambda>s. map_of (external s) i)) (\<lambda>r.
     bindc (lift_option Panic r) (\<lambda>r.
     modc (flag_store (nr_preempted r) True)))"

definition preempt_job :: "nat \<Rightarrow> unit sched" where
  "preempt_job i =
     bindc (getc (\<lambda>s. map_of (jobs s) i)) (\<lambda>j.
     bindc (lift_option Panic j) (\<lambda>j.
     bindc (modc (\<lambda>s. s\<lparr>jobs := hm_adjust i (\<lambda>j. j\<lparr>job_preempted := True\<rparr>) (jobs s)\<rparr>)) (\<lambda>_.
     modc (flag_store (job_canceled j) True))))"

text \<open>The \<open>is_some_and\<close> test: no worker is free, or the bytes are not there.\<close>

definition pressed :: "nat \<Rightarrow> nat \<Rightarrow> bool sched" where
  "pressed active cost =
     bindc (getc limits) (\<lambda>l.
     if lim_workers l \<le> active then ret True
     else bindc free_bytes (\<lambda>free. ret (free < cost)))"

definition preempt_background :: "unit sched" where
  "preempt_background =
     bindc (getc (\<lambda>s. us_active (usage s))) (\<lambda>active.
     bindc (getc front) (\<lambda>f.
     case f of
       Some (Foreground, i, native) \<Rightarrow>
         bindc (getc (\<lambda>s. min_by_key (\<lambda>i. i) (background_reads s))) (\<lambda>victim.
         if native \<and> victim \<noteq> None then preempt_read (the victim)
         else
           bindc (candidate_cost i native) (\<lambda>cost.
           bindc (pressed active cost) (\<lambda>p.
           if p then
             bindc (getc (\<lambda>s. min_by_key fst (background_running s))) (\<lambda>v.
             case v of
               None \<Rightarrow> ret ()
             | Some (i, native) \<Rightarrow> if native then preempt_read i else preempt_job i)
           else ret ())))
     | _ \<Rightarrow> ret ()))"

definition queue_native_read :: "priority \<Rightarrow> native_read_request sched" where
  "queue_native_read p =
     bindc (getc (\<lambda>s. length (consumers s) + length (external s) < lim_requests (limits s))) (\<lambda>room.
     bindc (ensure room PreviewRequestQueueFull) (\<lambda>_.
     bindc serial (\<lambda>i.
     bindc flag_new (\<lambda>a.
     bindc (modc (\<lambda>s. s\<lparr>external := hm_insert i
              \<lparr>nr_priority = p, nr_cost = 0, nr_lease = None, nr_preempted = a\<rparr> (external s)\<rparr>)) (\<lambda>_.
     bindc preempt_background (\<lambda>_.
     ret \<lparr>nrr_id = i, nrr_preempted = a\<rparr>))))))"

definition read_cost :: "nat \<Rightarrow> unit sched" where
  "read_cost cost =
     bindc (getc (\<lambda>s. 0 < cost \<and> cost \<le> lim_working_bytes (limits s))) (\<lambda>ok.
     ensure ok NativeWorkingAllowance)"

text \<open>
  The disjunction that keeps an admission waiting: workers, bytes, or a request ahead
  of this one, evaluated from left to right.
\<close>

definition admission_blocked :: "nat \<Rightarrow> nat \<Rightarrow> bool sched" where
  "admission_blocked request cost =
     bindc (getc (\<lambda>s. lim_workers (limits s) \<le> us_active (usage s))) (\<lambda>busy.
     if busy then ret True
     else bindc free_bytes (\<lambda>free.
       if free < cost then ret True
       else bindc (getc front) (\<lambda>f.
         ret (case f of None \<Rightarrow> True | Some (_, i, native) \<Rightarrow> \<not> native \<or> i \<noteq> request))))"

definition admit_native_read :: "nat \<Rightarrow> nat \<Rightarrow> nat option sched" where
  "admit_native_read request cost =
     bindc (read_cost cost) (\<lambda>_.
     bindc (getc (\<lambda>s. map_of (external s) request)) (\<lambda>r.
     bindc (lift_option NativeReadRequestMissing r) (\<lambda>r.
     bindc (ensure (nr_lease r = None) NativeReadAlreadyAdmitted) (\<lambda>_.
     bindc (modc (\<lambda>s. s\<lparr>external := hm_adjust request (\<lambda>r. r\<lparr>nr_cost := cost\<rparr>) (external s)\<rparr>)) (\<lambda>_.
     bindc preempt_background (\<lambda>_.
     bindc (admission_blocked request cost) (\<lambda>blocked.
     if blocked then ret None
     else
       bindc serial (\<lambda>lease.
       bindc (modc (\<lambda>s. s\<lparr>external := hm_adjust request (\<lambda>r. r\<lparr>nr_lease := Some lease\<rparr>) (external s),
                          reserved := reserved s + cost\<rparr>)) (\<lambda>_.
       ret (Some lease))))))))))"

definition read_request :: "nat \<Rightarrow> nat sched" where
  "read_request lease =
     bindc (getc (\<lambda>s. find_map (\<lambda>(i, r). if nr_lease r = Some lease then Some i else None) (external s)))
       (lift_option NativeReadLeaseMissing)"

definition upgrade_native_read :: "nat \<Rightarrow> nat \<Rightarrow> bool sched" where
  "upgrade_native_read lease cost =
     bindc (read_cost cost) (\<lambda>_.
     bindc (read_request lease) (\<lambda>request.
     bindc (candidate_cost request True) (\<lambda>old.
     bindc (getc (\<lambda>s. checked_sub (reserved s) old)) (\<lambda>others.
     bindc (lift_option Panic others) (\<lambda>others.
     bindc (getc (\<lambda>s. checked_sub (lim_working_bytes (limits s)) others)) (\<lambda>free.
     bindc (lift_option Panic free) (\<lambda>free.
     if free < cost then ret False
     else
       bindc (modc (\<lambda>s. s\<lparr>reserved := others + cost,
                          external := hm_adjust request (\<lambda>r. r\<lparr>nr_cost := cost\<rparr>) (external s)\<rparr>)) (\<lambda>_.
       ret True))))))))"

text \<open>\<open>self.reserved -= bytes\<close>.\<close>

definition unreserve :: "nat \<Rightarrow> unit sched" where
  "unreserve bytes s =
     (case checked_sub (reserved s) bytes of
        None \<Rightarrow> (Inl Panic, s)
      | Some n \<Rightarrow> (Inr (), s\<lparr>reserved := n\<rparr>))"

definition requeue_native_read :: "nat \<Rightarrow> nat \<Rightarrow> unit sched" where
  "requeue_native_read lease cost =
     bindc (read_cost cost) (\<lambda>_.
     bindc (read_request lease) (\<lambda>request.
     bindc (getc (\<lambda>s. map_of (external s) request)) (\<lambda>r.
     bindc (lift_option Panic r) (\<lambda>r.
     bindc (unreserve (nr_cost r)) (\<lambda>_.
     bindc (modc (\<lambda>s. s\<lparr>external := hm_adjust request (\<lambda>r. r\<lparr>nr_lease := None, nr_cost := cost\<rparr>) (external s)\<rparr>)) (\<lambda>_.
     bindc (modc (flag_store (nr_preempted r) False)) (\<lambda>_.
     preempt_background)))))))"

definition cancel_queued_native_read :: "nat \<Rightarrow> unit sched" where
  "cancel_queued_native_read request =
     bindc (getc (\<lambda>s. map_of (external s) request)) (\<lambda>r.
     bindc (lift_option NativeReadRequestMissing r) (\<lambda>r.
     bindc (ensure (nr_lease r = None) NativeReadOwnerActive) (\<lambda>_.
     modc (\<lambda>s. s\<lparr>external := hm_remove request (external s)\<rparr>))))"

definition release_native_read :: "nat \<Rightarrow> unit sched" where
  "release_native_read lease =
     bindc (read_request lease) (\<lambda>request.
     bindc (getc (\<lambda>s. map_of (external s) request)) (\<lambda>r.
     bindc (lift_option Panic r) (\<lambda>r.
     bindc (modc (\<lambda>s. s\<lparr>external := hm_remove request (external s)\<rparr>)) (\<lambda>_.
     unreserve (nr_cost r)))))"

definition is_ascii_hexdigit :: "char \<Rightarrow> bool" where
  "is_ascii_hexdigit c \<longleftrightarrow>
     (let n = of_char c :: nat in 48 \<le> n \<and> n \<le> 57 \<or> 65 \<le> n \<and> n \<le> 70 \<or> 97 \<le> n \<and> n \<le> 102)"

text \<open>
  The owner of the key, if a request may still join it: not canceled, or canceled only
  to make room for foreground work.
\<close>

definition existing_job :: "string \<Rightarrow> nat option sched" where
  "existing_job key =
     bindc (getc (\<lambda>s. map_of (job_keys s) key)) (\<lambda>i.
     case i of
       None \<Rightarrow> ret None
     | Some i \<Rightarrow>
         bindc (getc (\<lambda>s. map_of (jobs s) i)) (\<lambda>j.
         bindc (lift_option Panic j) (\<lambda>j.
         bindc (getc (\<lambda>s. flag_load s (job_canceled j))) (\<lambda>c.
         ret (if \<not> c \<or> job_preempted j then Some i else None)))))"

definition join_job :: "nat \<Rightarrow> nat \<Rightarrow> nat \<Rightarrow> priority \<Rightarrow> nat sched" where
  "join_job i consumer cost p =
     bindc (getc (\<lambda>s. map_of (jobs s) i)) (\<lambda>j.
     bindc (lift_option Panic j) (\<lambda>j.
     bindc (ensure (job_cost j = cost) ConflictingResourceCost) (\<lambda>_.
     bindc (modc (\<lambda>s. s\<lparr>jobs := hm_adjust i
              (\<lambda>j. j\<lparr>job_consumers := hm_insert consumer p (job_consumers j)\<rparr>) (jobs s)\<rparr>)) (\<lambda>_.
     ret i))))"

definition start_job :: "string \<Rightarrow> nat \<Rightarrow> nat \<Rightarrow> priority \<Rightarrow> nat sched" where
  "start_job key consumer cost p =
     bindc serial (\<lambda>i.
     bindc (modc (\<lambda>s. s\<lparr>job_keys := hm_insert key i (job_keys s)\<rparr>)) (\<lambda>_.
     bindc flag_new (\<lambda>a.
     bindc (modc (\<lambda>s. s\<lparr>jobs := hm_insert i
              \<lparr>job_key = key, job_cost = cost, job_consumers = [(consumer, p)], job_running = False,
               job_canceled = a, job_preempted = False, job_lease = None\<rparr> (jobs s)\<rparr>)) (\<lambda>_.
     ret i))))"

definition request :: "string \<Rightarrow> nat \<Rightarrow> priority \<Rightarrow> nat sched" where
  "request key cost p =
     bindc (ensure (length key = 64 \<and> list_all is_ascii_hexdigit key) InvalidPreviewKey) (\<lambda>_.
     bindc (getc (\<lambda>s. 0 < cost \<and> cost \<le> lim_working_bytes (limits s))) (\<lambda>fits.
     bindc (ensure fits RequestExceedsWorkerAllowance) (\<lambda>_.
     bindc (getc (\<lambda>s. length (consumers s) + length (external s) < lim_requests (limits s))) (\<lambda>room.
     bindc (ensure room PreviewRequestQueueFull) (\<lambda>_.
     bindc serial (\<lambda>consumer.
     bindc (existing_job key) (\<lambda>existing.
     bindc (case existing of Some i \<Rightarrow> join_job i consumer cost p | None \<Rightarrow> start_job key consumer cost p) (\<lambda>i.
     bindc (modc (\<lambda>s. s\<lparr>consumers := hm_insert consumer i (consumers s)\<rparr>)) (\<lambda>_.
     bindc (if p = Foreground then preempt_background else ret ()) (\<lambda>_.
     ret consumer))))))))))"

definition remove_job :: "nat \<Rightarrow> job sched" where
  "remove_job i =
     bindc (getc (\<lambda>s. map_of (jobs s) i)) (\<lambda>j.
     bindc (lift_option Panic j) (\<lambda>j.
     bindc (modc (\<lambda>s. s\<lparr>jobs := hm_remove i (jobs s)\<rparr>)) (\<lambda>_.
     bindc (modc (\<lambda>s. if map_of (job_keys s) (job_key j) = Some i
                      then s\<lparr>job_keys := hm_remove (job_key j) (job_keys s)\<rparr> else s)) (\<lambda>_.
     bindc (modc (\<lambda>s. s\<lparr>consumers := hm_remove_all (map fst (job_consumers j)) (consumers s)\<rparr>)) (\<lambda>_.
     ret j)))))"

definition cancel :: "nat \<Rightarrow> bool sched" where
  "cancel consumer =
     bindc (getc (\<lambda>s. map_of (consumers s) consumer)) (\<lambda>i.
     case i of
       None \<Rightarrow> ret False
     | Some i \<Rightarrow>
         bindc (modc (\<lambda>s. s\<lparr>consumers := hm_remove consumer (consumers s)\<rparr>)) (\<lambda>_.
         bindc (getc (\<lambda>s. map_of (jobs s) i)) (\<lambda>j.
         bindc (lift_option Panic j) (\<lambda>j.
         bindc (modc (\<lambda>s. s\<lparr>jobs := hm_adjust i
                  (\<lambda>j. j\<lparr>job_consumers := hm_remove consumer (job_consumers j)\<rparr>) (jobs s)\<rparr>)) (\<lambda>_.
         bindc (if hm_remove consumer (job_consumers j) = []
                then bindc (modc (flag_store (job_canceled j) True)) (\<lambda>_.
                     if job_running j then ret () else bindc (remove_job i) (\<lambda>_. ret ()))
                else ret ()) (\<lambda>_.
         ret True))))))"

definition next_ready :: "work_lease option sched" where
  "next_ready =
     bindc preempt_background (\<lambda>_.
     bindc (getc (\<lambda>s. lim_workers (limits s) \<le> us_active (usage s))) (\<lambda>busy.
     if busy then ret None
     else bindc (getc front) (\<lambda>f.
     case f of
       Some (_, i, False) \<Rightarrow>
         bindc (candidate_cost i False) (\<lambda>cost.
         bindc free_bytes (\<lambda>free.
         if free < cost then ret None
         else
           bindc serial (\<lambda>lease.
           bindc (getc (\<lambda>s. map_of (jobs s) i)) (\<lambda>j.
           bindc (lift_option Panic j) (\<lambda>j.
           bindc (modc (\<lambda>s. s\<lparr>reserved := reserved s + job_cost j,
                    jobs := hm_adjust i (\<lambda>j. j\<lparr>job_running := True, job_lease := Some lease\<rparr>) (jobs s)\<rparr>)) (\<lambda>_.
           ret (Some \<lparr>wl_id = lease, wl_key = job_key j, wl_working_bytes = job_cost j,
                      wl_canceled = job_canceled j\<rparr>)))))))
     | _ \<Rightarrow> ret None)))"

text \<open>The two endings of a worker: back to the queue, or removed with its consumers told.\<close>

definition requeue_job :: "nat \<Rightarrow> completion sched" where
  "requeue_job i =
     bindc flag_new (\<lambda>a.
     bindc (modc (\<lambda>s. s\<lparr>jobs := hm_adjust i
              (\<lambda>j. j\<lparr>job_running := False, job_preempted := False, job_canceled := a\<rparr>) (jobs s)\<rparr>)) (\<lambda>_.
     ret \<lparr>co_consumers = [], co_outcome = Stopped, co_requeued = True, co_superseded = False\<rparr>))"

definition retire_job :: "nat \<Rightarrow> job \<Rightarrow> worker_outcome \<Rightarrow> completion sched" where
  "retire_job i j outcome =
     bindc (getc (\<lambda>s. case map_of (job_keys s) (job_key j) of None \<Rightarrow> False | Some owner \<Rightarrow> owner \<noteq> i)) (\<lambda>superseded.
     bindc (remove_job i) (\<lambda>j.
     bindc (getc (\<lambda>s. flag_load s (job_canceled j))) (\<lambda>c.
     ret \<lparr>co_consumers = map fst (job_consumers j),
          co_outcome = (if c then Stopped else outcome),
          co_requeued = False, co_superseded = superseded\<rparr>)))"

definition finished :: "nat \<Rightarrow> worker_outcome \<Rightarrow> completion sched" where
  "finished lease outcome =
     bindc (getc (\<lambda>s. find_map (\<lambda>(i, j). if job_lease j = Some lease then Some i else None) (jobs s))) (\<lambda>i.
     bindc (lift_option StaleWorkerCompletion i) (\<lambda>i.
     bindc (getc (\<lambda>s. map_of (jobs s) i)) (\<lambda>j.
     bindc (lift_option UnknownWorkerCompletion j) (\<lambda>j.
     bindc (ensure (job_running j) QueuedWorkCannotComplete) (\<lambda>_.
     bindc (modc (\<lambda>s. s\<lparr>jobs := hm_adjust i (\<lambda>j. j\<lparr>job_lease := None\<rparr>) (jobs s)\<rparr>)) (\<lambda>_.
     bindc (unreserve (job_cost j)) (\<lambda>_.
     if job_preempted j \<and> job_consumers j \<noteq> [] then requeue_job i
     else retire_job i j outcome)))))))"

end
