(* ===== verification/Scheduler_Invariant.thy ===== *)
theory Scheduler_Invariant
  imports Preview_Scheduler
begin

text \<open>
  The invariant of the preview scheduler: what its maps, its tokens and its byte ledger
  say of each other, and that every operation keeps it without panicking.
\<close>

named_theorems sched_upd \<open>preservation of the scheduler invariant by one state update\<close>

section \<open>The invariant\<close>

definition limits_ok :: "scheduler_limits \<Rightarrow> bool" where
  "limits_ok l \<longleftrightarrow> 0 < lim_requests l \<and> lim_requests l \<le> 100000
     \<and> 0 < lim_workers l \<and> lim_workers l \<le> 16 \<and> 0 < lim_working_bytes l"

definition job_ok :: "preview_scheduler \<Rightarrow> nat \<Rightarrow> job \<Rightarrow> bool" where
  "job_ok s i j \<longleftrightarrow>
     i < next_id s \<and> 0 < job_cost j \<and> job_cost j \<le> lim_working_bytes (limits s)
     \<and> hm_wf (job_consumers j)
     \<and> (\<forall>c \<in> hm_keys (job_consumers j). map_of (consumers s) c = Some i)
     \<and> (job_running j \<longleftrightarrow> job_lease j \<noteq> None)
     \<and> (\<forall>l. job_lease j = Some l \<longrightarrow> l < next_id s)
     \<and> job_canceled j < length (flags s)
     \<and> (job_consumers j = [] \<longrightarrow> flag_load s (job_canceled j) \<and> job_running j)
     \<and> (job_consumers j \<noteq> [] \<longrightarrow> map_of (job_keys s) (job_key j) = Some i
          \<and> (flag_load s (job_canceled j) \<longrightarrow> job_preempted j))
     \<and> (job_preempted j \<longrightarrow> flag_load s (job_canceled j) \<and> job_running j)"

definition nread_ok :: "preview_scheduler \<Rightarrow> nat \<Rightarrow> native_read \<Rightarrow> bool" where
  "nread_ok s i r \<longleftrightarrow>
     i < next_id s \<and> nr_preempted r < length (flags s)
     \<and> (\<forall>l. nr_lease r = Some l \<longrightarrow>
          l < next_id s \<and> 0 < nr_cost r \<and> nr_cost r \<le> lim_working_bytes (limits s))"

definition inv_maps :: "preview_scheduler \<Rightarrow> bool" where
  "inv_maps s \<longleftrightarrow> limits_ok (limits s) \<and> 0 < next_id s \<and> next_id s < u64_limit
     \<and> hm_wf (jobs s) \<and> hm_wf (external s) \<and> hm_wf (consumers s) \<and> hm_wf (job_keys s)"

definition inv_entries :: "preview_scheduler \<Rightarrow> bool" where
  "inv_entries s \<longleftrightarrow>
     (\<forall>i j. map_of (jobs s) i = Some j \<longrightarrow> job_ok s i j)
     \<and> (\<forall>i r. map_of (external s) i = Some r \<longrightarrow> nread_ok s i r)"

definition inv_links :: "preview_scheduler \<Rightarrow> bool" where
  "inv_links s \<longleftrightarrow>
     (\<forall>c i. map_of (consumers s) c = Some i \<longrightarrow>
        c < next_id s \<and> (\<exists>j. map_of (jobs s) i = Some j \<and> c \<in> hm_keys (job_consumers j)))
     \<and> (\<forall>k i. map_of (job_keys s) k = Some i \<longrightarrow> (\<exists>j. map_of (jobs s) i = Some j \<and> job_key j = k))"

text \<open>Identities are not shared: tokens, leases, and the entries of the two queues.\<close>

definition apart_jobs :: "(nat \<rightharpoonup> job) \<Rightarrow> bool" where
  "apart_jobs J \<longleftrightarrow> (\<forall>i i' j j'. J i = Some j \<longrightarrow> J i' = Some j' \<longrightarrow> i \<noteq> i' \<longrightarrow>
     job_canceled j \<noteq> job_canceled j' \<and> (job_lease j = None \<or> job_lease j \<noteq> job_lease j'))"

definition apart_reads :: "(nat \<rightharpoonup> native_read) \<Rightarrow> bool" where
  "apart_reads R \<longleftrightarrow> (\<forall>i i' r r'. R i = Some r \<longrightarrow> R i' = Some r' \<longrightarrow> i \<noteq> i' \<longrightarrow>
     nr_preempted r \<noteq> nr_preempted r' \<and> (nr_lease r = None \<or> nr_lease r \<noteq> nr_lease r'))"

definition apart_queues :: "(nat \<rightharpoonup> job) \<Rightarrow> (nat \<rightharpoonup> native_read) \<Rightarrow> bool" where
  "apart_queues J R \<longleftrightarrow> (\<forall>i i' j r. J i = Some j \<longrightarrow> R i' = Some r \<longrightarrow>
     i \<noteq> i' \<and> job_canceled j \<noteq> nr_preempted r)"

definition inv_apart :: "preview_scheduler \<Rightarrow> bool" where
  "inv_apart s \<longleftrightarrow> apart_jobs (map_of (jobs s)) \<and> apart_reads (map_of (external s))
     \<and> apart_queues (map_of (jobs s)) (map_of (external s))"

lemma apart_jobsD:
  "apart_jobs J \<Longrightarrow> J i = Some j \<Longrightarrow> J i' = Some j' \<Longrightarrow> i \<noteq> i' \<Longrightarrow>
     job_canceled j \<noteq> job_canceled j' \<and> (job_lease j = None \<or> job_lease j \<noteq> job_lease j')"
  unfolding apart_jobs_def by blast

lemma apart_readsD:
  "apart_reads R \<Longrightarrow> R i = Some r \<Longrightarrow> R i' = Some r' \<Longrightarrow> i \<noteq> i' \<Longrightarrow>
     nr_preempted r \<noteq> nr_preempted r' \<and> (nr_lease r = None \<or> nr_lease r \<noteq> nr_lease r')"
  unfolding apart_reads_def by blast

lemma apart_queuesD:
  "apart_queues J R \<Longrightarrow> J i = Some j \<Longrightarrow> R i' = Some r \<Longrightarrow> i \<noteq> i' \<and> job_canceled j \<noteq> nr_preempted r"
  unfolding apart_queues_def by blast

lemma apart_jobs_upd:
  assumes "apart_jobs J"
    and "\<And>i j'. J i = Some j' \<Longrightarrow> i \<noteq> k \<Longrightarrow>
      job_canceled j' \<noteq> job_canceled j \<and> (job_lease j = None \<or> job_lease j' \<noteq> job_lease j)"
  shows "apart_jobs (J(k \<mapsto> j))"
  unfolding apart_jobs_def
proof (intro allI impI)
  fix i i' a b
  assume "(J(k \<mapsto> j)) i = Some a" "(J(k \<mapsto> j)) i' = Some b" "i \<noteq> i'"
  then show "job_canceled a \<noteq> job_canceled b \<and> (job_lease a = None \<or> job_lease a \<noteq> job_lease b)"
    using apart_jobsD [OF assms(1), of i a i' b] assms(2) [of i a] assms(2) [of i' b]
    by (auto split: if_splits)
qed

lemma apart_reads_upd:
  assumes "apart_reads R"
    and "\<And>i r'. R i = Some r' \<Longrightarrow> i \<noteq> k \<Longrightarrow>
      nr_preempted r' \<noteq> nr_preempted r \<and> (nr_lease r = None \<or> nr_lease r' \<noteq> nr_lease r)"
  shows "apart_reads (R(k \<mapsto> r))"
  unfolding apart_reads_def
proof (intro allI impI)
  fix i i' a b
  assume "(R(k \<mapsto> r)) i = Some a" "(R(k \<mapsto> r)) i' = Some b" "i \<noteq> i'"
  then show "nr_preempted a \<noteq> nr_preempted b \<and> (nr_lease a = None \<or> nr_lease a \<noteq> nr_lease b)"
    using apart_readsD [OF assms(1), of i a i' b] assms(2) [of i a] assms(2) [of i' b]
    by (auto split: if_splits)
qed

lemma apart_queues_upd_job:
  assumes "apart_queues J R" "\<And>i r. R i = Some r \<Longrightarrow> k \<noteq> i \<and> job_canceled j \<noteq> nr_preempted r"
  shows "apart_queues (J(k \<mapsto> j)) R"
  using assms unfolding apart_queues_def by (auto split: if_splits)

lemma apart_queues_upd_read:
  assumes "apart_queues J R" "\<And>i j. J i = Some j \<Longrightarrow> i \<noteq> k \<and> job_canceled j \<noteq> nr_preempted r"
  shows "apart_queues J (R(k \<mapsto> r))"
  using assms unfolding apart_queues_def by (auto split: if_splits)

lemma apart_del:
  "apart_jobs J \<Longrightarrow> apart_jobs (J(k := None))"
  "apart_reads R \<Longrightarrow> apart_reads (R(k := None))"
  "apart_queues J R \<Longrightarrow> apart_queues (J(k := None)) R"
  "apart_queues J R \<Longrightarrow> apart_queues J (R(k := None))"
  unfolding apart_jobs_def apart_reads_def apart_queues_def by (auto split: if_splits)

text \<open>The map operations as function updates.\<close>

lemma map_of_hm_insert: "map_of (hm_insert k v m) = (map_of m)(k \<mapsto> v)"
  by (rule ext) (simp add: hm_simps)

lemma map_of_hm_remove: "map_of (hm_remove k m) = (map_of m)(k := None)"
  by (rule ext) (simp add: hm_simps)

lemma map_of_hm_adjust: "map_of m k = Some v \<Longrightarrow> map_of (hm_adjust k f m) = (map_of m)(k \<mapsto> f v)"
  by (rule ext) (simp add: hm_simps)

lemmas map_of_hm = map_of_hm_insert map_of_hm_remove map_of_hm_adjust

text \<open>Bytes held by a running job and by an admitted native read.\<close>

definition job_charge :: "job \<Rightarrow> nat" where
  "job_charge j = (if job_running j then job_cost j else 0)"

definition read_charge :: "native_read \<Rightarrow> nat" where
  "read_charge r = (if nr_lease r = None then 0 else nr_cost r)"

definition held_bytes :: "preview_scheduler \<Rightarrow> nat" where
  "held_bytes s = hm_total job_charge (jobs s) + hm_total read_charge (external s)"

definition active_workers :: "preview_scheduler \<Rightarrow> nat" where
  "active_workers s = hm_count job_running (jobs s) + hm_count (\<lambda>r. nr_lease r \<noteq> None) (external s)"

definition inv_ledger :: "preview_scheduler \<Rightarrow> bool" where
  "inv_ledger s \<longleftrightarrow> reserved s = held_bytes s
     \<and> reserved s \<le> lim_working_bytes (limits s)
     \<and> active_workers s \<le> lim_workers (limits s)
     \<and> length (consumers s) + length (external s) \<le> lim_requests (limits s)"

definition sched_inv :: "preview_scheduler \<Rightarrow> bool" where
  "sched_inv s \<longleftrightarrow> inv_maps s \<and> inv_entries s \<and> inv_links s \<and> inv_apart s \<and> inv_ledger s"

lemmas inv_defs = inv_maps_def inv_entries_def inv_links_def inv_apart_def inv_ledger_def

lemma sched_invI:
  "inv_maps s \<Longrightarrow> inv_entries s \<Longrightarrow> inv_links s \<Longrightarrow> inv_apart s \<Longrightarrow> inv_ledger s \<Longrightarrow> sched_inv s"
  by (simp add: sched_inv_def)

lemma sched_invD:
  assumes "sched_inv s"
  shows "inv_maps s" "inv_entries s" "inv_links s" "inv_apart s" "inv_ledger s"
  using assms by (simp_all add: sched_inv_def)

lemma us_active_usage [simp]: "us_active (usage s) = active_workers s"
  by (simp add: usage_def active_workers_def)

lemma inv_job: "sched_inv s \<Longrightarrow> map_of (jobs s) i = Some j \<Longrightarrow> job_ok s i j"
  by (simp add: sched_inv_def inv_entries_def)

lemma inv_read: "sched_inv s \<Longrightarrow> map_of (external s) i = Some r \<Longrightarrow> nread_ok s i r"
  by (simp add: sched_inv_def inv_entries_def)

lemma inv_wf:
  assumes "sched_inv s"
  shows "hm_wf (jobs s)" "hm_wf (external s)" "hm_wf (consumers s)" "hm_wf (job_keys s)"
  using assms by (simp_all add: sched_inv_def inv_maps_def)

section \<open>State updates that keep the invariant\<close>

lemma flag_load_store [simp]:
  "flag_load (flag_store a b s) a' = (if a' = a \<and> a < length (flags s) then b else flag_load s a')"
  by (auto simp: flag_load_def flag_store_def nth_list_update)

lemma flag_load_cong: "flags s = flags t \<Longrightarrow> flag_load s a = flag_load t a"
  by (simp add: flag_load_def)

lemma flag_load_append [simp]:
  "flag_load (s\<lparr>flags := flags s @ [False]\<rparr>) a = flag_load s a"
  by (auto simp: flag_load_def nth_append)

lemma flag_store_simps [simp]:
  "limits (flag_store a b s) = limits s" "next_id (flag_store a b s) = next_id s"
  "jobs (flag_store a b s) = jobs s" "job_keys (flag_store a b s) = job_keys s"
  "consumers (flag_store a b s) = consumers s" "reserved (flag_store a b s) = reserved s"
  "external (flag_store a b s) = external s" "length (flags (flag_store a b s)) = length (flags s)"
  by (simp_all add: flag_store_def)

text \<open>Frames: what an entry needs of the rest of the state.\<close>

lemma job_ok_frame:
  assumes "job_ok s i j" "next_id s \<le> next_id t" "limits t = limits s"
    "length (flags s) \<le> length (flags t)"
    "flag_load t (job_canceled j) = flag_load s (job_canceled j)"
    "\<And>c. c \<in> hm_keys (job_consumers j) \<Longrightarrow> map_of (consumers t) c = Some i"
    "job_consumers j \<noteq> [] \<Longrightarrow> map_of (job_keys t) (job_key j) = Some i"
  shows "job_ok t i j"
  using assms unfolding job_ok_def by (intro conjI) (auto intro: less_le_trans)

lemma nread_ok_frame:
  assumes "nread_ok s i r" "next_id s \<le> next_id t" "limits t = limits s"
    "length (flags s) \<le> length (flags t)"
  shows "nread_ok t i r"
  using assms unfolding nread_ok_def by (auto intro: less_le_trans)

lemma job_okD:
  assumes "job_ok s i j"
  shows "i < next_id s" "0 < job_cost j" "job_cost j \<le> lim_working_bytes (limits s)"
    "hm_wf (job_consumers j)"
    "c \<in> hm_keys (job_consumers j) \<Longrightarrow> map_of (consumers s) c = Some i"
    "job_running j \<longleftrightarrow> job_lease j \<noteq> None" "job_lease j = Some l \<Longrightarrow> l < next_id s"
    "job_canceled j < length (flags s)"
    "job_consumers j = [] \<Longrightarrow> flag_load s (job_canceled j) \<and> job_running j"
    "job_consumers j \<noteq> [] \<Longrightarrow> map_of (job_keys s) (job_key j) = Some i"
    "job_consumers j \<noteq> [] \<Longrightarrow> flag_load s (job_canceled j) \<Longrightarrow> job_preempted j"
    "job_preempted j \<Longrightarrow> flag_load s (job_canceled j) \<and> job_running j"
  using assms by (auto simp: job_ok_def)

subsection \<open>Tokens\<close>

text \<open>The token of a native read says nothing about jobs.\<close>

lemma inv_read_flag:
  assumes inv: "sched_inv s" and r: "map_of (external s) i = Some r"
  shows "sched_inv (flag_store (nr_preempted r) b s)"
proof -
  let ?t = "flag_store (nr_preempted r) b s"
  have apart: "job_canceled j \<noteq> nr_preempted r" if "map_of (jobs s) i' = Some j" for i' j
    using inv r that by (auto simp: sched_inv_def inv_apart_def dest: apart_queuesD)
  have "job_ok ?t i' j" if "map_of (jobs s) i' = Some j" for i' j
    by (rule job_ok_frame [OF inv_job [OF inv that]])
      (use inv_job [OF inv that] apart [OF that] in \<open>auto dest: job_okD\<close>)
  moreover have "nread_ok ?t i' r'" if "map_of (external s) i' = Some r'" for i' r'
    using inv_read [OF inv that] by (simp add: nread_ok_def)
  ultimately have "inv_entries ?t" by (simp add: inv_entries_def)
  moreover have "inv_maps ?t" "inv_links ?t" "inv_apart ?t" "inv_ledger ?t"
    using sched_invD [OF inv]
    by (simp_all add: inv_maps_def inv_links_def inv_apart_def inv_ledger_def held_bytes_def active_workers_def)
  ultimately show ?thesis by (intro sched_invI)
qed

text \<open>Preempting a running job: the mark and the token together.\<close>

definition preempted_state :: "nat \<Rightarrow> job \<Rightarrow> preview_scheduler \<Rightarrow> preview_scheduler" where
  "preempted_state i j s =
     flag_store (job_canceled j) True
       (s\<lparr>jobs := hm_adjust i (\<lambda>j. j\<lparr>job_preempted := True\<rparr>) (jobs s)\<rparr>)"

lemma hm_adjust_same:
  assumes "map_of m k = Some v" "hm_wf m" "f (g v) = f v"
  shows "hm_total f (hm_adjust k g m) = hm_total f m"
  using hm_total_adjust [OF assms(1,2), of f g] assms(3) by simp

lemma hm_count_same:
  assumes "map_of m k = Some v" "hm_wf m" "P (g v) = P v"
  shows "hm_count P (hm_adjust k g m) = hm_count P m"
  using hm_count_adjust [OF assms(1,2), of P g] assms(3) by simp

lemma inv_preempted_state:
  assumes inv: "sched_inv s" and j: "map_of (jobs s) i = Some j" and run: "job_running j"
  shows "sched_inv (preempted_state i j s)"
proof -
  let ?t = "preempted_state i j s"
  note wf = inv_wf [OF inv]
  have tok: "job_canceled j < length (flags s)" using inv_job [OF inv j] by (simp add: job_ok_def)
  have apart: "job_canceled j' \<noteq> job_canceled j" if "map_of (jobs s) i' = Some j'" "i' \<noteq> i" for i' j'
    using inv j that by (auto simp: sched_inv_def inv_apart_def dest: apart_jobsD)
  have "job_ok ?t i' j'" if "map_of (jobs ?t) i' = Some j'" for i' j'
  proof (cases "i' = i")
    case True
    with that j have "j' = j\<lparr>job_preempted := True\<rparr>" by (simp add: preempted_state_def hm_simps)
    with True inv_job [OF inv j] run tok show ?thesis
      by (simp add: job_ok_def preempted_state_def)
  next
    case False
    with that have m: "map_of (jobs s) i' = Some j'" by (simp add: preempted_state_def hm_simps)
    show ?thesis
      by (rule job_ok_frame [OF inv_job [OF inv m]])
        (use inv_job [OF inv m] apart [OF m False] in
          \<open>auto simp: preempted_state_def flag_load_def flag_store_def dest: job_okD\<close>)
  qed
  moreover have "nread_ok ?t i' r" if "map_of (external ?t) i' = Some r" for i' r
    using inv_read [OF inv, of i' r] that by (simp add: nread_ok_def preempted_state_def)
  ultimately have "inv_entries ?t" by (simp add: inv_entries_def)
  moreover have "inv_maps ?t"
    using sched_invD(1) [OF inv] by (simp add: inv_maps_def preempted_state_def hm_simps)
  moreover have "inv_links ?t"
    using sched_invD(3) [OF inv] by (force simp: inv_links_def preempted_state_def hm_simps)
  moreover have "inv_apart ?t"
    using sched_invD(4) [OF inv] j
    by (auto simp: inv_apart_def preempted_state_def map_of_hm intro!: apart_jobs_upd apart_queues_upd_job
        dest: apart_jobsD apart_queuesD)
  moreover have "inv_ledger ?t"
    using sched_invD(5) [OF inv] hm_adjust_same [OF j wf(1), of job_charge]
      hm_count_same [OF j wf(1), of job_running]
    by (simp add: inv_ledger_def preempted_state_def held_bytes_def active_workers_def job_charge_def)
  ultimately show ?thesis by (intro sched_invI)
qed


subsection \<open>Identities\<close>

lemma inv_bump:
  assumes inv: "sched_inv s" and n: "next_id s \<le> n" "n < u64_limit"
  shows "sched_inv (s\<lparr>next_id := n\<rparr>)"
proof -
  let ?t = "s\<lparr>next_id := n\<rparr>"
  have "job_ok ?t i j" if "map_of (jobs s) i = Some j" for i j
    by (rule job_ok_frame [OF inv_job [OF inv that]])
      (use inv_job [OF inv that] n in \<open>auto simp: flag_load_def dest: job_okD\<close>)
  moreover have "nread_ok ?t i r" if "map_of (external s) i = Some r" for i r
    by (rule nread_ok_frame [OF inv_read [OF inv that]]) (use n in auto)
  ultimately have "inv_entries ?t" by (simp add: inv_entries_def)
  moreover have "inv_links ?t"
    using sched_invD(3) [OF inv] n by (force simp: inv_links_def)
  moreover have "inv_maps ?t" "inv_apart ?t" "inv_ledger ?t"
    using sched_invD [OF inv] n
    by (auto simp: inv_maps_def inv_apart_def inv_ledger_def held_bytes_def active_workers_def)
  ultimately show ?thesis by (intro sched_invI)
qed

subsection \<open>Native reads\<close>

text \<open>
  One update of a native read and of the byte ledger with it: its cost and its lease
  change, its token does not.
\<close>

lemma inv_read_update:
  assumes inv: "sched_inv s" and r: "map_of (external s) i = Some r"
    and tok: "nr_preempted (f r) = nr_preempted r"
    and lease: "nr_lease (f r) = None \<or> nr_lease (f r) = nr_lease r \<or> nr_lease (f r) = Some (next_id s)"
    and n: "next_id s \<le> n" "n < u64_limit"
    and ok: "nread_ok (s\<lparr>next_id := n\<rparr>) i (f r)"
    and res: "res + read_charge r = reserved s + read_charge (f r)"
    and cap: "res \<le> lim_working_bytes (limits s)"
    and act: "nr_lease (f r) \<noteq> None \<Longrightarrow> nr_lease r = None \<Longrightarrow> active_workers s < lim_workers (limits s)"
  shows "sched_inv (s\<lparr>external := hm_adjust i f (external s), reserved := res, next_id := n\<rparr>)" (is "sched_inv ?t")
proof -
  note wf = inv_wf [OF inv] and parts = sched_invD [OF inv]
  have fresh: "nr_lease r' \<noteq> Some (next_id s)" if "map_of (external s) i' = Some r'" for i' r'
    using inv_read [OF inv that] by (auto simp: nread_ok_def)
  have "job_ok ?t i' j" if "map_of (jobs s) i' = Some j" for i' j
    by (rule job_ok_frame [OF inv_job [OF inv that]])
      (use inv_job [OF inv that] n in \<open>auto simp: flag_load_def dest: job_okD\<close>)
  moreover have "nread_ok ?t i' r'" if "map_of (external ?t) i' = Some r'" for i' r'
  proof (cases "i' = i")
    case True
    with that r have "r' = f r" by (simp add: hm_simps)
    with True ok show ?thesis by (simp add: nread_ok_def)
  next
    case False
    with that have "map_of (external s) i' = Some r'" by (simp add: hm_simps)
    from inv_read [OF inv this] show ?thesis
      by (rule nread_ok_frame) (use n in auto)
  qed
  ultimately have "inv_entries ?t" by (simp add: inv_entries_def)
  moreover have "inv_links ?t"
    using parts(3) n by (force simp: inv_links_def)
  moreover have "inv_maps ?t"
    using parts(1) n by (auto simp: inv_maps_def hm_simps)
  moreover have "inv_apart ?t"
  proof -
    have "apart_reads ((map_of (external s))(i \<mapsto> f r))"
    proof (rule apart_reads_upd)
      show "apart_reads (map_of (external s))" using parts(4) by (simp add: inv_apart_def)
      fix i' r' assume r': "map_of (external s) i' = Some r'" "i' \<noteq> i"
      from apart_readsD [OF \<open>apart_reads (map_of (external s))\<close> r'(1) r r'(2)] fresh [OF r'(1)] lease tok
      show "nr_preempted r' \<noteq> nr_preempted (f r) \<and> (nr_lease (f r) = None \<or> nr_lease r' \<noteq> nr_lease (f r))"
        by auto
    qed
    moreover have "apart_queues (map_of (jobs s)) ((map_of (external s))(i \<mapsto> f r))"
      using parts(4) r tok by (auto simp: inv_apart_def intro!: apart_queues_upd_read dest: apart_queuesD)
    ultimately show ?thesis using parts(4) r by (simp add: inv_apart_def map_of_hm)
  qed
  moreover have "inv_ledger ?t"
  proof -
    have "hm_total read_charge (hm_adjust i f (external s)) + read_charge r
        = hm_total read_charge (external s) + read_charge (f r)"
      by (rule hm_total_adjust [OF r wf(2)])
    then have "res = held_bytes ?t"
      using parts(5) res by (simp add: inv_ledger_def held_bytes_def)
    moreover have "active_workers ?t \<le> lim_workers (limits s)"
      using hm_count_adjust [OF r wf(2), of "\<lambda>r. nr_lease r \<noteq> None" f] act parts(5)
      by (auto simp: inv_ledger_def active_workers_def split: if_splits)
    ultimately show ?thesis using parts(5) cap by (simp add: inv_ledger_def hm_simps)
  qed
  ultimately show ?thesis by (intro sched_invI)
qed

lemma inv_read_insert:
  assumes inv: "sched_inv s"
    and n: "Suc (next_id s) < u64_limit"
    and room: "length (consumers s) + length (external s) < lim_requests (limits s)"
  shows "sched_inv (s\<lparr>next_id := Suc (next_id s), flags := flags s @ [False],
           external := hm_insert (next_id s)
             \<lparr>nr_priority = p, nr_cost = c, nr_lease = None, nr_preempted = length (flags s)\<rparr> (external s)\<rparr>)"
    (is "sched_inv ?t")
proof -
  note wf = inv_wf [OF inv] and parts = sched_invD [OF inv]
  let ?r = "\<lparr>nr_priority = p, nr_cost = c, nr_lease = None, nr_preempted = length (flags s)\<rparr>"
  have new: "next_id s \<notin> hm_keys (external s)"
    using inv_read [OF inv] by (force simp: hm_keys_iff nread_ok_def)
  have "job_ok ?t i j" if "map_of (jobs s) i = Some j" for i j
    by (rule job_ok_frame [OF inv_job [OF inv that]])
      (use inv_job [OF inv that] n in \<open>auto simp: flag_load_def nth_append dest: job_okD\<close>)
  moreover have "nread_ok ?t i r" if "map_of (external ?t) i = Some r" for i r
  proof (cases "i = next_id s")
    case True
    with that show ?thesis by (auto simp: hm_simps nread_ok_def)
  next
    case False
    with that have "map_of (external s) i = Some r" by (simp add: hm_simps)
    from inv_read [OF inv this] show ?thesis by (rule nread_ok_frame) auto
  qed
  ultimately have "inv_entries ?t" by (simp add: inv_entries_def)
  moreover have "inv_links ?t"
    using parts(3) by (force simp: inv_links_def)
  moreover have "inv_maps ?t"
    using parts(1) n by (auto simp: inv_maps_def hm_simps)
  moreover have "inv_apart ?t"
  proof -
    have "apart_reads ((map_of (external s))(next_id s \<mapsto> ?r))"
      using parts(4) inv_read [OF inv]
      by (intro apart_reads_upd) (force simp: inv_apart_def nread_ok_def)+
    moreover have "apart_queues (map_of (jobs s)) ((map_of (external s))(next_id s \<mapsto> ?r))"
      using parts(4) inv_job [OF inv]
      by (intro apart_queues_upd_read) (force simp: inv_apart_def job_ok_def)+
    ultimately show ?thesis using parts(4) by (simp add: inv_apart_def map_of_hm)
  qed
  moreover have "inv_ledger ?t"
    using parts(5) room hm_total_insert_fresh [OF new, of read_charge ?r]
      hm_count_insert_fresh [OF new, of "\<lambda>r. nr_lease r \<noteq> None" ?r]
    by (simp add: inv_ledger_def held_bytes_def active_workers_def read_charge_def hm_insert_fresh [OF new])
  ultimately show ?thesis by (intro sched_invI)
qed

lemma inv_read_remove:
  assumes inv: "sched_inv s" and r: "map_of (external s) i = Some r"
    and res: "res + read_charge r = reserved s"
  shows "sched_inv (s\<lparr>external := hm_remove i (external s), reserved := res\<rparr>)" (is "sched_inv ?t")
proof -
  note wf = inv_wf [OF inv] and parts = sched_invD [OF inv]
  have "job_ok ?t i' j" if "map_of (jobs s) i' = Some j" for i' j
    by (rule job_ok_frame [OF inv_job [OF inv that]])
      (use inv_job [OF inv that] in \<open>auto simp: flag_load_def dest: job_okD\<close>)
  moreover have "nread_ok ?t i' r'" if "map_of (external ?t) i' = Some r'" for i' r'
  proof -
    from that have "map_of (external s) i' = Some r'" by (simp add: hm_simps split: if_splits)
    from inv_read [OF inv this] show ?thesis by (rule nread_ok_frame) auto
  qed
  ultimately have "inv_entries ?t" by (simp add: inv_entries_def)
  moreover have "inv_links ?t" "inv_maps ?t" "inv_apart ?t"
    using parts by (auto simp: inv_links_def inv_maps_def inv_apart_def hm_simps map_of_hm apart_del)
  moreover have "inv_ledger ?t"
    using parts(5) res hm_total_remove [OF r wf(2), of read_charge] length_hm_remove [OF r wf(2)]
      hm_count_remove [OF r wf(2), of "\<lambda>r. nr_lease r \<noteq> None"]
    by (simp add: inv_ledger_def held_bytes_def active_workers_def)
  ultimately show ?thesis by (intro sched_invI)
qed

subsection \<open>Jobs\<close>

text \<open>
  One update of a job and of the ledger with it: admission, and the return to the queue
  with a fresh token. Its key and its consumers do not change.
\<close>

lemma inv_job_update:
  assumes inv: "sched_inv s" and j: "map_of (jobs s) i = Some j"
    and t: "t = s\<lparr>jobs := hm_adjust i f (jobs s), reserved := res, next_id := n, flags := fl\<rparr>"
    and n: "next_id s \<le> n" "n < u64_limit"
    and fl: "fl = flags s \<or> fl = flags s @ [False]"
    and tok: "job_canceled (f j) = job_canceled j \<or> job_canceled (f j) = length (flags s)"
    and lease: "job_lease (f j) = None \<or> job_lease (f j) = job_lease j \<or> job_lease (f j) = Some (next_id s)"
    and keep: "job_key (f j) = job_key j" "job_consumers (f j) = job_consumers j"
    and ok: "job_ok t i (f j)"
    and res: "res + job_charge j = reserved s + job_charge (f j)"
    and cap: "res \<le> lim_working_bytes (limits s)"
    and act: "job_running (f j) \<Longrightarrow> \<not> job_running j \<Longrightarrow> active_workers s < lim_workers (limits s)"
  shows "sched_inv t"
proof -
  note wf = inv_wf [OF inv] and parts = sched_invD [OF inv]
  have load: "flag_load t a = flag_load s a" for a
    using fl by (auto simp: t flag_load_def nth_append nth_Cons' less_Suc_eq split: if_splits)
  have len: "length (flags s) \<le> length (flags t)" using fl by (auto simp: t)
  have fresh: "job_lease j' \<noteq> Some (next_id s)" "job_canceled j' < length (flags s)"
    if "map_of (jobs s) i' = Some j'" for i' j'
    using job_okD [OF inv_job [OF inv that]] by auto
  have "job_ok t i' j'" if "map_of (jobs t) i' = Some j'" for i' j'
  proof (cases "i' = i")
    case True
    with that j ok show ?thesis by (simp add: t hm_simps)
  next
    case False
    with that have m: "map_of (jobs s) i' = Some j'" by (simp add: t hm_simps)
    show ?thesis
      by (rule job_ok_frame [OF inv_job [OF inv m]])
        (use job_okD [OF inv_job [OF inv m]] n load len in \<open>auto simp: t\<close>)
  qed
  moreover have "nread_ok t i' r" if "map_of (external t) i' = Some r" for i' r
    by (rule nread_ok_frame [OF inv_read [OF inv, of i' r]]) (use that n len in \<open>auto simp: t\<close>)
  ultimately have "inv_entries t" by (simp add: inv_entries_def)
  moreover have "inv_links t"
    using parts(3) n(1) keep j by (force simp: inv_links_def t hm_simps)
  moreover have "inv_maps t"
    using parts(1) n by (auto simp: inv_maps_def t hm_simps)
  moreover have "inv_apart t"
  proof -
    have "apart_jobs ((map_of (jobs s))(i \<mapsto> f j))"
    proof (rule apart_jobs_upd)
      show "apart_jobs (map_of (jobs s))" using parts(4) by (simp add: inv_apart_def)
      fix i' j' assume j': "map_of (jobs s) i' = Some j'" "i' \<noteq> i"
      from apart_jobsD [OF \<open>apart_jobs (map_of (jobs s))\<close> j'(1) j j'(2)] fresh [OF j'(1)] lease tok
      show "job_canceled j' \<noteq> job_canceled (f j) \<and> (job_lease (f j) = None \<or> job_lease j' \<noteq> job_lease (f j))"
        by auto
    qed
    moreover have "apart_queues ((map_of (jobs s))(i \<mapsto> f j)) (map_of (external s))"
    proof (rule apart_queues_upd_job)
      show "apart_queues (map_of (jobs s)) (map_of (external s))"
        using parts(4) by (simp add: inv_apart_def)
      fix i' r assume "map_of (external s) i' = Some r"
      with apart_queuesD [OF \<open>apart_queues (map_of (jobs s)) (map_of (external s))\<close> j, of i' r]
        inv_read [OF inv, of i' r] tok
      show "i \<noteq> i' \<and> job_canceled (f j) \<noteq> nr_preempted r" by (auto simp: nread_ok_def)
    qed
    ultimately show ?thesis using parts(4) j by (simp add: inv_apart_def t map_of_hm)
  qed
  moreover have "inv_ledger t"
  proof -
    have "res = held_bytes t"
      using hm_total_adjust [OF j wf(1), of job_charge f] parts(5) res
      by (simp add: t inv_ledger_def held_bytes_def)
    moreover have "active_workers t \<le> lim_workers (limits s)"
      using hm_count_adjust [OF j wf(1), of job_running f] act parts(5)
      by (auto simp: t inv_ledger_def active_workers_def split: if_splits)
    ultimately show ?thesis using parts(5) cap by (simp add: t inv_ledger_def hm_simps)
  qed
  ultimately show ?thesis by (intro sched_invI)
qed

text \<open>A consumer joins the job that owns its key.\<close>

lemma inv_join:
  assumes inv: "sched_inv s" and j: "map_of (jobs s) i = Some j"
    and own: "map_of (job_keys s) (job_key j) = Some i"
    and live: "flag_load s (job_canceled j) \<Longrightarrow> job_preempted j"
    and new: "map_of (consumers s) c = None" "c < next_id s"
    and room: "length (consumers s) + length (external s) < lim_requests (limits s)"
  shows "sched_inv (s\<lparr>jobs := hm_adjust i (\<lambda>j. j\<lparr>job_consumers := hm_insert c p (job_consumers j)\<rparr>) (jobs s),
                      consumers := hm_insert c i (consumers s)\<rparr>)" (is "sched_inv ?t")
proof -
  note wf = inv_wf [OF inv] and parts = sched_invD [OF inv]
  have load: "flag_load ?t a = flag_load s a" for a by (simp add: flag_load_def)
  have notin: "c \<notin> hm_keys (job_consumers j')" if "map_of (jobs s) i' = Some j'" for i' j'
    using job_okD(5) [OF inv_job [OF inv that], of c] new by auto
  have ne: "hm_insert c p (job_consumers j) \<noteq> []" by (simp add: hm_insert_def)
  have "job_ok ?t i' j'" if "map_of (jobs ?t) i' = Some j'" for i' j'
  proof (cases "i' = i")
    case True
    with that j have j': "j' = j\<lparr>job_consumers := hm_insert c p (job_consumers j)\<rparr>" by (simp add: hm_simps)
    note jok = job_okD [OF inv_job [OF inv j]]
    show ?thesis unfolding j' True job_ok_def
      using jok own live new ne by (auto simp: hm_simps load)
  next
    case False
    with that have m: "map_of (jobs s) i' = Some j'" by (simp add: hm_simps)
    show ?thesis
      by (rule job_ok_frame [OF inv_job [OF inv m]])
        (use job_okD [OF inv_job [OF inv m]] load notin [OF m] new in \<open>auto simp: hm_simps\<close>)
  qed
  moreover have "nread_ok ?t i' r" if "map_of (external ?t) i' = Some r" for i' r
    by (rule nread_ok_frame [OF inv_read [OF inv, of i' r]]) (use that in auto)
  ultimately have "inv_entries ?t" by (simp add: inv_entries_def)
  moreover have "inv_links ?t"
    using parts(3) j new by (force simp: inv_links_def hm_simps)
  moreover have "inv_maps ?t"
    using parts(1) by (auto simp: inv_maps_def hm_simps)
  moreover have "inv_apart ?t"
    using parts(4) j
    by (auto simp: inv_apart_def map_of_hm intro!: apart_jobs_upd apart_queues_upd_job
        dest: apart_jobsD apart_queuesD)
  moreover have "inv_ledger ?t"
    using parts(5) room hm_adjust_same [OF j wf(1), of job_charge]
      hm_count_same [OF j wf(1), of job_running] length_hm_insert_le [of c i "consumers s"]
    by (simp add: inv_ledger_def held_bytes_def active_workers_def job_charge_def)
  ultimately show ?thesis by (intro sched_invI)
qed

text \<open>
  A new job takes its key over; the former owner, if any, has no consumers left.
\<close>

lemma inv_start:
  assumes inv: "sched_inv s"
    and n: "Suc (next_id s) < u64_limit"
    and cost: "0 < cost" "cost \<le> lim_working_bytes (limits s)"
    and new: "map_of (consumers s) c = None" "c < next_id s"
    and key: "\<And>i j. map_of (jobs s) i = Some j \<Longrightarrow> job_key j = key \<Longrightarrow> job_consumers j = []"
    and room: "length (consumers s) + length (external s) < lim_requests (limits s)"
  shows "sched_inv (s\<lparr>next_id := Suc (next_id s),
           job_keys := hm_insert key (next_id s) (job_keys s), flags := flags s @ [False],
           jobs := hm_insert (next_id s)
              \<lparr>job_key = key, job_cost = cost, job_consumers = [(c, p)], job_running = False,
               job_canceled = length (flags s), job_preempted = False, job_lease = None\<rparr> (jobs s),
           consumers := hm_insert c (next_id s) (consumers s)\<rparr>)" (is "sched_inv ?t")
proof -
  note wf = inv_wf [OF inv] and parts = sched_invD [OF inv]
  let ?j = "\<lparr>job_key = key, job_cost = cost, job_consumers = [(c, p)], job_running = False,
               job_canceled = length (flags s), job_preempted = False, job_lease = None\<rparr>"
  have load: "flag_load ?t a = flag_load s a" for a by (auto simp: flag_load_def nth_append)
  have fresh: "next_id s \<notin> hm_keys (jobs s)"
    using inv_job [OF inv] by (force simp: hm_keys_iff job_ok_def)
  have notin: "c \<notin> hm_keys (job_consumers j')" if "map_of (jobs s) i' = Some j'" for i' j'
    using job_okD(5) [OF inv_job [OF inv that], of c] new by auto
  have "job_ok ?t i' j'" if "map_of (jobs ?t) i' = Some j'" for i' j'
  proof (cases "i' = next_id s")
    case True
    with that have j': "j' = ?j" by (simp add: hm_simps)
    show ?thesis unfolding j' True job_ok_def
      using cost by (auto simp: hm_simps load hm_wf_def hm_keys_def flag_load_def)
  next
    case False
    with that have m: "map_of (jobs s) i' = Some j'" by (simp add: hm_simps)
    show ?thesis
      by (rule job_ok_frame [OF inv_job [OF inv m]])
        (use job_okD [OF inv_job [OF inv m]] load notin [OF m] new key [OF m] in \<open>auto simp: hm_simps\<close>)
  qed
  moreover have "nread_ok ?t i' r" if "map_of (external ?t) i' = Some r" for i' r
    by (rule nread_ok_frame [OF inv_read [OF inv, of i' r]]) (use that in auto)
  ultimately have "inv_entries ?t" by (simp add: inv_entries_def)
  moreover have "inv_links ?t"
  proof -
    have "i' \<noteq> next_id s" if "map_of (jobs s) i' = Some j'" for i' j'
      using that fresh by (auto dest: hm_keys_Some)
    then show ?thesis using parts(3) new by (force simp: inv_links_def hm_simps hm_keys_def)
  qed
  moreover have "inv_maps ?t"
    using parts(1) n by (auto simp: inv_maps_def hm_simps)
  moreover have "inv_apart ?t"
  proof -
    have "apart_jobs ((map_of (jobs s))(next_id s \<mapsto> ?j))"
      using parts(4) inv_job [OF inv]
      by (intro apart_jobs_upd) (force simp: inv_apart_def job_ok_def)+
    moreover have "apart_queues ((map_of (jobs s))(next_id s \<mapsto> ?j)) (map_of (external s))"
      using parts(4) inv_read [OF inv]
      by (intro apart_queues_upd_job) (force simp: inv_apart_def nread_ok_def)+
    ultimately show ?thesis using parts(4) by (simp add: inv_apart_def map_of_hm)
  qed
  moreover have "inv_ledger ?t"
    using parts(5) room hm_total_insert_fresh [OF fresh, of job_charge ?j]
      hm_count_insert_fresh [OF fresh, of job_running ?j] length_hm_insert_le [of c "next_id s" "consumers s"]
    by (simp add: inv_ledger_def held_bytes_def active_workers_def job_charge_def)
  ultimately show ?thesis by (intro sched_invI)
qed

text \<open>A consumer leaves a job that keeps another one, or that is running and is now canceled.\<close>

lemma inv_leave:
  assumes inv: "sched_inv s" and j: "map_of (jobs s) i = Some j"
    and mem: "c \<in> hm_keys (job_consumers j)"
    and rest: "hm_remove c (job_consumers j) = [] \<Longrightarrow> job_running j"
    and t: "t = (if hm_remove c (job_consumers j) = [] then flag_store (job_canceled j) True else (\<lambda>s. s))
        (s\<lparr>consumers := hm_remove c (consumers s),
           jobs := hm_adjust i (\<lambda>j. j\<lparr>job_consumers := hm_remove c (job_consumers j)\<rparr>) (jobs s)\<rparr>)"
  shows "sched_inv t"
proof -
  note wf = inv_wf [OF inv] and parts = sched_invD [OF inv] and jok = job_okD [OF inv_job [OF inv j]]
  have load: "flag_load t a = (if a = job_canceled j \<and> hm_remove c (job_consumers j) = [] then True else flag_load s a)" for a
    using jok(8) by (auto simp: t flag_load_def flag_store_def)
  have fields: "next_id t = next_id s" "limits t = limits s" "external t = external s" "reserved t = reserved s"
    "job_keys t = job_keys s" "consumers t = hm_remove c (consumers s)" "length (flags t) = length (flags s)"
    "jobs t = hm_adjust i (\<lambda>j. j\<lparr>job_consumers := hm_remove c (job_consumers j)\<rparr>) (jobs s)"
    by (auto simp: t)
  have sole: "c \<notin> hm_keys (job_consumers j')" if "map_of (jobs s) i' = Some j'" "i' \<noteq> i" for i' j'
    using job_okD(5) [OF inv_job [OF inv that(1)], of c] jok(5) [OF mem] that(2) by auto
  have ne: "job_consumers j \<noteq> []" using mem by auto
  have "job_ok t i' j'" if "map_of (jobs t) i' = Some j'" for i' j'
  proof (cases "i' = i")
    case True
    with that j have j': "j' = j\<lparr>job_consumers := hm_remove c (job_consumers j)\<rparr>" by (simp add: fields hm_simps)
    show ?thesis unfolding j' True job_ok_def
      using jok ne rest by (auto simp: hm_simps load fields)
  next
    case False
    with that have m: "map_of (jobs s) i' = Some j'" by (simp add: fields hm_simps)
    have "job_canceled j' \<noteq> job_canceled j"
      using parts(4) m j False by (auto simp: inv_apart_def dest: apart_jobsD)
    then show ?thesis
      by (intro job_ok_frame [OF inv_job [OF inv m]])
        (use job_okD [OF inv_job [OF inv m]] load sole [OF m False] in \<open>auto simp: fields hm_simps\<close>)
  qed
  moreover have "nread_ok t i' r" if "map_of (external t) i' = Some r" for i' r
    by (rule nread_ok_frame [OF inv_read [OF inv, of i' r]]) (use that in \<open>auto simp: fields\<close>)
  ultimately have "inv_entries t" by (simp add: inv_entries_def)
  moreover have "inv_links t"
    using parts(3) j by (force simp: inv_links_def fields hm_simps)
  moreover have "inv_maps t"
    using parts(1) by (auto simp: inv_maps_def fields hm_simps)
  moreover have "inv_apart t"
    using parts(4) j
    by (auto simp: inv_apart_def fields map_of_hm intro!: apart_jobs_upd apart_queues_upd_job
        dest: apart_jobsD apart_queuesD)
  moreover have "inv_ledger t"
    using parts(5) hm_adjust_same [OF j wf(1), of job_charge]
      hm_count_same [OF j wf(1), of job_running] length_hm_remove_le [of c "consumers s"]
    by (simp add: inv_ledger_def held_bytes_def active_workers_def job_charge_def fields)
  ultimately show ?thesis by (intro sched_invI)
qed

text \<open>A job leaves the scheduler with its consumers and, where it owns it, its key.\<close>

lemma inv_remove:
  assumes inv: "sched_inv s" and j: "map_of (jobs s) i = Some j"
    and t: "t = s\<lparr>jobs := hm_remove i (jobs s),
        job_keys := (if map_of (job_keys s) (job_key j) = Some i
                     then hm_remove (job_key j) (job_keys s) else job_keys s),
        consumers := cs, reserved := res, flags := fl\<rparr>"
    and cs: "hm_wf cs" "length cs \<le> length (consumers s)"
      "\<And>c. map_of cs c = (if c \<in> hm_keys (job_consumers j) then None else map_of (consumers s) c)"
    and res: "res + job_charge j = reserved s"
    and fl: "length fl = length (flags s)" "\<And>a. a \<noteq> job_canceled j \<Longrightarrow> fl ! a = flags s ! a"
  shows "sched_inv t"
proof -
  note wf = inv_wf [OF inv] and parts = sched_invD [OF inv] and jok = job_okD [OF inv_job [OF inv j]]
  have load: "flag_load t a = flag_load s a" if "a \<noteq> job_canceled j" for a
    using fl that by (simp add: t flag_load_def)
  have other: "job_ok t i' j'" if m: "map_of (jobs s) i' = Some j'" and False: "i' \<noteq> i" for i' j'
  proof -
    have "job_canceled j' \<noteq> job_canceled j"
      using parts(4) m j False by (auto simp: inv_apart_def dest: apart_jobsD)
    moreover have "c \<notin> hm_keys (job_consumers j)" if "c \<in> hm_keys (job_consumers j')" for c
      using job_okD(5) [OF inv_job [OF inv m] that] jok(5) [of c] False by auto
    ultimately show ?thesis
      by (intro job_ok_frame [OF inv_job [OF inv m]])
        (use job_okD [OF inv_job [OF inv m]] load False fl cs in \<open>auto simp: t hm_simps\<close>)
  qed
  have "job_ok t i' j'" if "map_of (jobs t) i' = Some j'" for i' j'
  proof -
    from that have "map_of (jobs s) i' = Some j'" "i' \<noteq> i"
      by (simp_all add: t hm_simps split: if_splits)
    then show ?thesis by (rule other)
  qed
  moreover have "nread_ok t i' r" if "map_of (external t) i' = Some r" for i' r
    by (rule nread_ok_frame [OF inv_read [OF inv, of i' r]]) (use that fl in \<open>auto simp: t\<close>)
  ultimately have "inv_entries t" by (simp add: inv_entries_def)
  moreover have "inv_links t"
    using parts(3) j cs(3) by (force simp: inv_links_def t hm_simps)
  moreover have "inv_maps t"
    using parts(1) cs by (auto simp: inv_maps_def t hm_simps)
  moreover have "inv_apart t"
    using parts(4) by (auto simp: inv_apart_def t map_of_hm apart_del)
  moreover have "inv_ledger t"
    using parts(5) res cs(2) hm_total_remove [OF j wf(1), of job_charge]
      hm_count_remove [OF j wf(1), of job_running]
    by (simp add: inv_ledger_def held_bytes_def active_workers_def t)
  ultimately show ?thesis by (intro sched_invI)
qed

end
