(* ===== verification/Scheduler_Correct.thy ===== *)
theory Scheduler_Correct
  imports Scheduler_Invariant
begin

text \<open>
  The operations of the preview scheduler keep its invariant and never panic; the
  scheduler as a transition system; what admission, completion, cancellation and
  preemption do.
\<close>

section \<open>Preemption\<close>

text \<open>
  What pushing out background work leaves alone: the queues, the order of the front,
  the ledger. Only tokens and the preemption mark of a running job change.
\<close>

definition preempt_frame :: "preview_scheduler \<Rightarrow> preview_scheduler \<Rightarrow> bool" where
  "preempt_frame s t \<longleftrightarrow>
     limits t = limits s \<and> next_id t = next_id s \<and> job_keys t = job_keys s
     \<and> consumers t = consumers s \<and> reserved t = reserved s \<and> external t = external s
     \<and> length (flags t) = length (flags s)
     \<and> (\<forall>i. map_option (\<lambda>j. j\<lparr>job_preempted := False\<rparr>) (map_of (jobs t) i)
          = map_option (\<lambda>j. j\<lparr>job_preempted := False\<rparr>) (map_of (jobs s) i))
     \<and> active_workers t = active_workers s \<and> front t = front s"

lemma preempt_frame_refl: "preempt_frame s s"
  by (simp add: preempt_frame_def)

lemma preempt_frame_sym: "preempt_frame s t \<Longrightarrow> preempt_frame t s"
  by (simp add: preempt_frame_def)

lemma preempt_frame_job:
  assumes "preempt_frame s t" "map_of (jobs s) i = Some j"
  obtains b where "map_of (jobs t) i = Some (j\<lparr>job_preempted := b\<rparr>)"
proof -
  from assms have "map_option (\<lambda>j. j\<lparr>job_preempted := False\<rparr>) (map_of (jobs t) i)
      = Some (j\<lparr>job_preempted := False\<rparr>)"
    by (simp add: preempt_frame_def)
  then obtain j' where "map_of (jobs t) i = Some j'"
    and "j'\<lparr>job_preempted := False\<rparr> = j\<lparr>job_preempted := False\<rparr>" by auto
  moreover from this(2) have "j' = j\<lparr>job_preempted := job_preempted j'\<rparr>"
    by (cases j; cases j') simp
  ultimately show ?thesis using that by metis
qed

text \<open>The front of the queue is a waiting entry, and the candidates are exactly these.\<close>

lemma candidates_job:
  "(p, i, False) \<in> set (candidates s) \<longleftrightarrow>
     (\<exists>j. (i, j) \<in> set (jobs s) \<and> \<not> job_running j \<and> \<not> flag_load s (job_canceled j) \<and> p = job_priority j)"
  by (force simp: candidates_def)

lemma candidates_read:
  "(p, i, True) \<in> set (candidates s) \<longleftrightarrow>
     (\<exists>r. (i, r) \<in> set (external s) \<and> nr_lease r = None \<and> p = nr_priority r)"
  by (force simp: candidates_def)

lemma front_job:
  assumes inv: "sched_inv s" and f: "front s = Some (p, i, False)"
  obtains j where "map_of (jobs s) i = Some j" "\<not> job_running j"
    "\<not> flag_load s (job_canceled j)" "p = job_priority j"
proof -
  from f have "(p, i, False) \<in> set (candidates s)"
    by (auto simp: front_def dest: min_by_key_mem)
  then show ?thesis using that inv_wf(1) [OF inv] by (auto simp: candidates_job hm_mem_iff)
qed

lemma front_read:
  assumes inv: "sched_inv s" and f: "front s = Some (p, i, True)"
  obtains r where "map_of (external s) i = Some r" "nr_lease r = None" "p = nr_priority r"
proof -
  from f have "(p, i, True) \<in> set (candidates s)"
    by (auto simp: front_def dest: min_by_key_mem)
  then show ?thesis using that inv_wf(2) [OF inv] by (auto simp: candidates_read hm_mem_iff)
qed

lemma background_reads_mem:
  assumes "sched_inv s" "i \<in> set (background_reads s)"
  obtains r where "map_of (external s) i = Some r" "nr_lease r \<noteq> None" "nr_priority r = Background"
  using assms inv_wf(2) [OF assms(1)] by (auto simp: background_reads_def hm_mem_iff)

lemma background_running_job:
  assumes "sched_inv s" "(i, False) \<in> set (background_running s)"
  obtains j where "map_of (jobs s) i = Some j" "job_running j" "job_priority j = Background"
  using assms inv_wf(1) [OF assms(1)] by (auto simp: background_running_def hm_mem_iff)

lemma background_running_read:
  "(i, True) \<in> set (background_running s) \<Longrightarrow> i \<in> set (background_reads s)"
  by (auto simp: background_running_def)

text \<open>A token of running work does not reach the candidates.\<close>

lemma front_read_flag:
  assumes inv: "sched_inv s" and r: "map_of (external s) i = Some r"
  shows "front (flag_store (nr_preempted r) b s) = front s"
proof -
  have "job_canceled j \<noteq> nr_preempted r" if "(i', j) \<in> set (jobs s)" for i' j
    using that inv r inv_wf(1) [OF inv]
    by (auto simp: hm_mem_iff sched_inv_def inv_apart_def dest: apart_queuesD)
  then have "filter (\<lambda>(i, j). \<not> job_running j \<and> \<not> flag_load (flag_store (nr_preempted r) b s) (job_canceled j)) (jobs s)
      = filter (\<lambda>(i, j). \<not> job_running j \<and> \<not> flag_load s (job_canceled j)) (jobs s)"
    by (intro filter_cong) auto
  then have "candidates (flag_store (nr_preempted r) b s) = candidates s"
    by (simp only: candidates_def flag_store_simps)
  then show ?thesis by (simp add: front_def)
qed

lemma filter_hm_adjust:
  assumes "\<And>v. (k, v) \<in> set m \<Longrightarrow> \<not> P (k, v) \<and> \<not> P (k, f v)"
  shows "filter P (hm_adjust k f m) = filter P m"
  using assms by (induction m) (auto simp: hm_adjust_def)

lemma front_preempted_state:
  assumes inv: "sched_inv s" and j: "map_of (jobs s) i = Some j" and run: "job_running j"
  shows "front (preempted_state i j s) = front s"
proof -
  let ?t = "preempted_state i j s"
  let ?P = "\<lambda>s (i, j). \<not> job_running j \<and> \<not> flag_load s (job_canceled j)"
  note wf = inv_wf(1) [OF inv]
  have mem: "j' = j" if "(i, j') \<in> set (jobs s)" for j' using that j wf by (simp add: hm_mem_iff)
  have jobs_t: "jobs ?t = hm_adjust i (\<lambda>j. j\<lparr>job_preempted := True\<rparr>) (jobs s)"
    by (simp add: preempted_state_def)
  have "filter (?P ?t) (jobs ?t) = filter (?P ?t) (jobs s)"
    unfolding jobs_t by (rule filter_hm_adjust) (use mem run in auto)
  also have "\<dots> = filter (?P s) (jobs s)"
  proof (rule filter_cong [OF refl])
    fix e assume e: "e \<in> set (jobs s)"
    obtain i' j' where [simp]: "e = (i', j')" by fastforce
    show "?P ?t e = ?P s e"
    proof (cases "i' = i")
      case True
      with e mem run show ?thesis by auto
    next
      case False
      with e wf inv j have "job_canceled j' \<noteq> job_canceled j"
        by (auto simp: hm_mem_iff sched_inv_def inv_apart_def dest: apart_jobsD)
      then show ?thesis by (simp add: preempted_state_def flag_load_def flag_store_def)
    qed
  qed
  finally have "candidates ?t = candidates s"
    by (simp add: candidates_def preempted_state_def)
  then show ?thesis by (simp add: front_def)
qed

lemma preempt_read_ok:
  assumes inv: "sched_inv s" and i: "i \<in> set (background_reads s)"
  shows "\<exists>t. preempt_read i s = (Inr (), t) \<and> sched_inv t \<and> preempt_frame s t"
proof -
  obtain r where r: "map_of (external s) i = Some r" using background_reads_mem [OF inv i] by blast
  let ?t = "flag_store (nr_preempted r) True s"
  have "preempt_read i s = (Inr (), ?t)" by (simp add: preempt_read_def r)
  moreover have "preempt_frame s ?t"
    by (simp add: preempt_frame_def active_workers_def front_read_flag [OF inv r])
  ultimately show ?thesis using inv_read_flag [OF inv r] by blast
qed

lemma preempt_job_eq:
  "map_of (jobs s) i = Some j \<Longrightarrow> preempt_job i s = (Inr (), preempted_state i j s)"
  by (simp add: preempt_job_def preempted_state_def)

lemma preempt_job_ok:
  assumes inv: "sched_inv s" and j: "map_of (jobs s) i = Some j" and run: "job_running j"
  shows "\<exists>t. preempt_job i s = (Inr (), t) \<and> sched_inv t \<and> preempt_frame s t"
proof -
  have "preempt_frame s (preempted_state i j s)"
    using hm_count_same [OF j inv_wf(1) [OF inv], of job_running "\<lambda>j. j\<lparr>job_preempted := True\<rparr>"]
      front_preempted_state [OF inv j run]
    by (auto simp: preempt_frame_def active_workers_def preempted_state_def hm_simps option.map_comp o_def)
  then show ?thesis using preempt_job_eq [OF j] inv_preempted_state [OF inv j run] by blast
qed

lemma free_bytes_ok: "sched_inv s \<Longrightarrow> free_bytes s = (Inr (lim_working_bytes (limits s) - reserved s), s)"
  by (simp add: free_bytes_def sched_inv_def inv_ledger_def)

lemma bindc_candidate_cost:
  "map_of (external s) i = Some r \<Longrightarrow> bindc (candidate_cost i True) g s = g (nr_cost r) s"
  "map_of (jobs s) i = Some j \<Longrightarrow> bindc (candidate_cost i False) g s = g (job_cost j) s"
  by (simp_all add: candidate_cost_def bindc_assoc)

lemma candidate_cost_front:
  assumes inv: "sched_inv s" and f: "front s = Some (p, i, native)"
  shows "\<exists>c. candidate_cost i native s = (Inr c, s)"
proof (cases native)
  case True
  with f obtain r where "map_of (external s) i = Some r" using front_read [OF inv, of p i] by auto
  with True show ?thesis by (simp add: candidate_cost_def)
next
  case False
  with f obtain j where "map_of (jobs s) i = Some j" using front_job [OF inv, of p i] by auto
  with False show ?thesis by (simp add: candidate_cost_def)
qed

lemma pressed_ok:
  "sched_inv s \<Longrightarrow> pressed active cost s =
     (Inr (lim_workers (limits s) \<le> active \<or> lim_working_bytes (limits s) - reserved s < cost), s)"
  by (simp add: pressed_def bindc_Inr [where m = free_bytes, OF free_bytes_ok])

lemma preempt_background_ok:
  assumes inv: "sched_inv s"
  shows "\<exists>t. preempt_background s = (Inr (), t) \<and> sched_inv t \<and> preempt_frame s t"
proof (cases "front s")
  case None
  then show ?thesis using inv by (simp add: preempt_background_def preempt_frame_refl)
next
  case (Some f)
  obtain p i native where f: "front s = Some (p, i, native)" using Some by (cases f) auto
  show ?thesis
  proof (cases p)
    case Background
    then show ?thesis using inv f by (simp add: preempt_background_def preempt_frame_refl)
  next
    case Foreground
    obtain c where c: "candidate_cost i native s = (Inr c, s)" using candidate_cost_front [OF inv f] ..
    let ?v = "min_by_key (\<lambda>i. i) (background_reads s)"
    let ?w = "min_by_key fst (background_running s)"
    have victim: "\<exists>t. preempt_read (the ?v) s = (Inr (), t) \<and> sched_inv t \<and> preempt_frame s t"
      if "?v \<noteq> None" using that preempt_read_ok [OF inv] min_by_key_mem by fastforce
    have worker: "\<exists>t. (if b then preempt_read k s else preempt_job k s) = (Inr (), t) \<and> sched_inv t \<and> preempt_frame s t"
      if "?w = Some (k, b)" for k b
    proof (cases b)
      case True
      with that have "k \<in> set (background_reads s)"
        by (auto dest!: min_by_key_mem intro: background_running_read)
      with True show ?thesis using preempt_read_ok [OF inv] by simp
    next
      case False
      with that have "(k, False) \<in> set (background_running s)" by (auto dest: min_by_key_mem)
      with False show ?thesis using preempt_job_ok [OF inv] background_running_job [OF inv] by metis
    qed
    show ?thesis
    proof (cases "native \<and> ?v \<noteq> None")
      case True
      then show ?thesis using victim f Foreground by (simp add: preempt_background_def)
    next
      case False
      then show ?thesis
        using f Foreground worker inv
        by (auto simp: preempt_background_def bindc_Inr [where m = "candidate_cost i native", OF c]
            bindc_Inr [where m = "pressed _ _", OF pressed_ok [OF inv]]
            preempt_frame_refl split: option.splits if_splits simp del: min_by_key_None)
    qed
  qed
qed

section \<open>Every operation keeps the invariant and does not panic\<close>

lemma upd_order:
  "s\<lparr>next_id := n, external := e, reserved := r\<rparr> = s\<lparr>external := e, reserved := r, next_id := n\<rparr>"
  "s\<lparr>next_id := n, reserved := r, jobs := j\<rparr> = s\<lparr>jobs := j, reserved := r, next_id := n\<rparr>"
  "s\<lparr>reserved := r, external := e\<rparr> = s\<lparr>external := e, reserved := r\<rparr>"
  by (cases s; simp)+

definition safe_op :: "'a sched \<Rightarrow> preview_scheduler \<Rightarrow> bool" where
  "safe_op m s \<longleftrightarrow> (case m s of (r, t) \<Rightarrow> sched_inv t \<and> r \<noteq> Inl Panic)"

lemma safe_opI: "m s = (r, t) \<Longrightarrow> sched_inv t \<Longrightarrow> r \<noteq> Inl Panic \<Longrightarrow> safe_op m s"
  by (simp add: safe_op_def)

lemma safe_opD: "safe_op m s \<Longrightarrow> sched_inv (snd (m s)) \<and> fst (m s) \<noteq> Inl Panic"
  by (cases "m s") (simp add: safe_op_def)

lemma safe_bindc:
  assumes "\<And>x t. m s = (Inr x, t) \<Longrightarrow> safe_op (g x) t" "safe_op m s"
  shows "safe_op (bindc m g) s"
  using assms by (auto simp: safe_op_def bindc_def split: prod.splits sum.splits)

lemma safe_preempt_background: "sched_inv s \<Longrightarrow> safe_op preempt_background s"
  using preempt_background_ok [of s] by (auto simp: safe_op_def)

lemma bindc_flag_new: "bindc flag_new g s = g (length (flags s)) (s\<lparr>flags := flags s @ [False]\<rparr>)"
  by (simp add: bindc_def flag_new_def)

lemma serial_cases:
  obtains (fail) "serial s = (Inl RequestIdentityOverflow, s)" "u64_limit \<le> Suc (next_id s)"
  | (ok) "serial s = (Inr (next_id s), s\<lparr>next_id := Suc (next_id s)\<rparr>)" "Suc (next_id s) < u64_limit"
  by (cases "Suc (next_id s) < u64_limit") (auto simp: serial_def checked_add_def)

lemma read_cost_eq:
  "read_cost c s = (if 0 < c \<and> c \<le> lim_working_bytes (limits s) then (Inr (), s) else (Inl NativeWorkingAllowance, s))"
  by (simp add: read_cost_def)

lemma bindc_read_cost:
  "bindc (read_cost c) g s = (if 0 < c \<and> c \<le> lim_working_bytes (limits s) then g () s else (Inl NativeWorkingAllowance, s))"
  by (simp add: bindc_def read_cost_eq)

lemma read_request_cases [consumes 1, case_names missing found]:
  assumes inv: "sched_inv s"
  obtains (missing) "read_request l s = (Inl NativeReadLeaseMissing, s)"
      "\<And>i r. map_of (external s) i = Some r \<Longrightarrow> nr_lease r \<noteq> Some l"
  | (found) i r where "read_request l s = (Inr i, s)" "map_of (external s) i = Some r" "nr_lease r = Some l"
proof (cases "find_map (\<lambda>(i, r). if nr_lease r = Some l then Some i else None) (external s)")
  case None
  then have "nr_lease r \<noteq> Some l" if "map_of (external s) i = Some r" for i r
    using map_of_SomeD [OF that] by (fastforce simp: find_map_None split: if_splits)
  with None missing show ?thesis by (simp add: read_request_def)
next
  case (Some i)
  then obtain r where "(i, r) \<in> set (external s)" "nr_lease r = Some l"
    by (auto dest!: find_map_Some split: if_splits)
  with Some found show ?thesis using inv_wf(2) [OF inv] by (simp add: read_request_def hm_mem_iff)
qed

lemma read_charged: "sched_inv s \<Longrightarrow> map_of (external s) i = Some r \<Longrightarrow> read_charge r \<le> reserved s"
  using hm_total_ge [of "external s" i r read_charge] by (simp add: sched_inv_def inv_ledger_def held_bytes_def)

lemma job_charged: "sched_inv s \<Longrightarrow> map_of (jobs s) i = Some j \<Longrightarrow> job_charge j \<le> reserved s"
  using hm_total_ge [of "jobs s" i j job_charge] by (simp add: sched_inv_def inv_ledger_def held_bytes_def)

lemma reserved_le: "sched_inv s \<Longrightarrow> reserved s \<le> lim_working_bytes (limits s)"
  by (simp add: sched_inv_def inv_ledger_def)

lemma inv_next_id: "sched_inv s \<Longrightarrow> next_id s < u64_limit"
  by (simp add: sched_inv_def inv_maps_def)

subsection \<open>Native reads\<close>

lemma queue_native_read_safe:
  assumes inv: "sched_inv s"
  shows "safe_op (queue_native_read p) s"
proof (cases "length (consumers s) + length (external s) < lim_requests (limits s)")
  case room: True
  show ?thesis
  proof (cases rule: serial_cases [of s])
    case fail
    then show ?thesis using inv room by (simp add: safe_op_def queue_native_read_def bindc_Inl [where m = serial])
  next
    case ok
    let ?t = "s\<lparr>next_id := Suc (next_id s), flags := flags s @ [False],
           external := hm_insert (next_id s)
             \<lparr>nr_priority = p, nr_cost = 0, nr_lease = None, nr_preempted = length (flags s)\<rparr> (external s)\<rparr>"
    obtain u where "preempt_background ?t = (Inr (), u)" "sched_inv u"
      using preempt_background_ok [OF inv_read_insert [OF inv ok(2) room]] by blast
    then show ?thesis using room
      by (simp add: safe_op_def queue_native_read_def bindc_Inr [where m = serial, OF ok(1)]
          bindc_flag_new bindc_Inr [where m = preempt_background])
  qed
qed (use inv in \<open>simp add: safe_op_def queue_native_read_def\<close>)

lemma inv_set_cost:
  assumes inv: "sched_inv s" and r: "map_of (external s) i = Some r" "nr_lease r = None"
  shows "sched_inv (s\<lparr>external := hm_adjust i (\<lambda>r. r\<lparr>nr_cost := c\<rparr>) (external s)\<rparr>)"
  using inv_read_update [OF inv r(1), of "\<lambda>r. r\<lparr>nr_cost := c\<rparr>" "next_id s" "reserved s"]
    inv_read [OF inv r(1)] r(2) inv_next_id [OF inv] sched_invD(5) [OF inv]
  by (simp add: nread_ok_def read_charge_def inv_ledger_def)

text \<open>Admission of the native read at the front of the queue.\<close>

lemma admission_blocked_eq:
  assumes "sched_inv s"
  shows "admission_blocked i c s =
    (Inr (lim_workers (limits s) \<le> active_workers s \<or> lim_working_bytes (limits s) - reserved s < c
      \<or> (case front s of None \<Rightarrow> True | Some (_, k, native) \<Rightarrow> \<not> native \<or> k \<noteq> i)), s)"
  using assms by (simp add: admission_blocked_def bindc_Inr [where m = free_bytes, OF free_bytes_ok])

lemma inv_lease_read:
  assumes inv: "sched_inv s" and r: "map_of (external s) i = Some r" "nr_lease r = None" "nr_cost r = c"
    and c: "0 < c" "c \<le> lim_working_bytes (limits s) - reserved s"
    and act: "active_workers s < lim_workers (limits s)" and n: "Suc (next_id s) < u64_limit"
  shows "sched_inv (s\<lparr>next_id := Suc (next_id s),
      external := hm_adjust i (\<lambda>r. r\<lparr>nr_lease := Some (next_id s)\<rparr>) (external s), reserved := reserved s + c\<rparr>)"
proof -
  note le = reserved_le [OF inv]
  have "sched_inv (s\<lparr>external := hm_adjust i (\<lambda>r. r\<lparr>nr_lease := Some (next_id s)\<rparr>) (external s),
      reserved := reserved s + c, next_id := Suc (next_id s)\<rparr>)"
    by (rule inv_read_update [OF inv r(1)])
      (use inv_read [OF inv r(1)] r c act n le in \<open>auto simp: nread_ok_def read_charge_def\<close>)
  then show ?thesis by (simp add: upd_order)
qed

lemma admit_native_read_safe:
  assumes inv: "sched_inv s"
  shows "safe_op (admit_native_read i c) s"
proof -
  consider (cost) "\<not> (0 < c \<and> c \<le> lim_working_bytes (limits s))"
    | (missing) "0 < c" "c \<le> lim_working_bytes (limits s)" "map_of (external s) i = None"
    | (leased) r where "0 < c" "c \<le> lim_working_bytes (limits s)" "map_of (external s) i = Some r" "nr_lease r \<noteq> None"
    | (waiting) r where "0 < c" "c \<le> lim_working_bytes (limits s)" "map_of (external s) i = Some r" "nr_lease r = None"
    by (cases "map_of (external s) i") blast+
  then show ?thesis
  proof cases
    case waiting
    let ?u = "s\<lparr>external := hm_adjust i (\<lambda>r. r\<lparr>nr_cost := c\<rparr>) (external s)\<rparr>"
    obtain t where t: "preempt_background ?u = (Inr (), t)" "sched_inv t" "preempt_frame ?u t"
      using preempt_background_ok [OF inv_set_cost [OF inv waiting(3,4)]] by blast
    have r: "map_of (external t) i = Some (r\<lparr>nr_cost := c\<rparr>)"
      using t(3) waiting(3) by (simp add: preempt_frame_def hm_simps)
    have eq: "admit_native_read i c s = bindc (admission_blocked i c) (\<lambda>blocked.
        if blocked then ret None
        else bindc serial (\<lambda>lease.
          bindc (modc (\<lambda>s. s\<lparr>external := hm_adjust i (\<lambda>r. r\<lparr>nr_lease := Some lease\<rparr>) (external s),
                            reserved := reserved s + c\<rparr>)) (\<lambda>_. ret (Some lease)))) t"
      using waiting by (simp add: admit_native_read_def bindc_read_cost bindc_Inr [where m = preempt_background, OF t(1)])
    show ?thesis
    proof (cases "fst (admission_blocked i c t) = Inr True")
      case True
      then show ?thesis using eq t(2)
        by (auto simp: safe_op_def bindc_Inr [where m = "admission_blocked i c", OF admission_blocked_eq [OF t(2)]]
            admission_blocked_eq [OF t(2)])
    next
      case False
      then have nb: "admission_blocked i c t = (Inr False, t)" "active_workers t < lim_workers (limits t)"
        "c \<le> lim_working_bytes (limits t) - reserved t"
        by (auto simp: admission_blocked_eq [OF t(2)])
      show ?thesis
      proof (cases rule: serial_cases [of t])
        case fail
        then show ?thesis using eq t(2)
          by (simp add: safe_op_def bindc_Inr [where m = "admission_blocked i c", OF nb(1)] bindc_Inl [where m = serial])
      next
        case ok
        have "sched_inv (t\<lparr>next_id := Suc (next_id t),
            external := hm_adjust i (\<lambda>r. r\<lparr>nr_lease := Some (next_id t)\<rparr>) (external t), reserved := reserved t + c\<rparr>)"
          using inv_lease_read [OF t(2) r] waiting nb(2,3) ok by simp
        then show ?thesis using eq
          by (simp add: safe_op_def bindc_Inr [where m = "admission_blocked i c", OF nb(1)]
              bindc_Inr [where m = serial, OF ok(1)])
      qed
    qed
  qed (use inv in \<open>auto simp: safe_op_def admit_native_read_def bindc_read_cost\<close>)
qed

lemma upgrade_native_read_safe:
  assumes inv: "sched_inv s"
  shows "safe_op (upgrade_native_read l c) s"
proof (cases "0 < c \<and> c \<le> lim_working_bytes (limits s)")
  case cost: True
  from inv show ?thesis
  proof (cases rule: read_request_cases [where l = l])
    case missing
    then show ?thesis using inv cost
      by (simp add: safe_op_def upgrade_native_read_def bindc_read_cost bindc_Inl [where m = "read_request l"])
  next
    case (found i r)
    let ?others = "reserved s - nr_cost r"
    have held: "nr_cost r \<le> reserved s" using read_charged [OF inv found(2)] found(3) by (simp add: read_charge_def)
    have le: "?others \<le> lim_working_bytes (limits s)" using reserved_le [OF inv] by simp
    have eq: "upgrade_native_read l c s =
        (if lim_working_bytes (limits s) - ?others < c then (Inr False, s)
         else (Inr True, s\<lparr>reserved := ?others + c,
                external := hm_adjust i (\<lambda>r. r\<lparr>nr_cost := c\<rparr>) (external s)\<rparr>))"
      using cost found held le
      by (simp add: upgrade_native_read_def bindc_read_cost bindc_Inr [where m = "read_request l"]
          bindc_candidate_cost)
    have "sched_inv (s\<lparr>reserved := ?others + c, external := hm_adjust i (\<lambda>r. r\<lparr>nr_cost := c\<rparr>) (external s)\<rparr>)"
      if fits: "\<not> lim_working_bytes (limits s) - ?others < c"
    proof -
      have "?others + c \<le> lim_working_bytes (limits s)" using fits le by linarith
      then show ?thesis
        using inv_read_update [OF inv found(2), of "\<lambda>r. r\<lparr>nr_cost := c\<rparr>" "next_id s" "?others + c"]
          inv_read [OF inv found(2)] found(3) inv_next_id [OF inv] held cost
        by (simp add: nread_ok_def read_charge_def upd_order)
    qed
    with eq inv show ?thesis by (simp add: safe_op_def)
  qed
qed (use inv in \<open>auto simp: safe_op_def upgrade_native_read_def bindc_read_cost\<close>)

lemma requeue_native_read_safe:
  assumes inv: "sched_inv s"
  shows "safe_op (requeue_native_read l c) s"
proof (cases "0 < c \<and> c \<le> lim_working_bytes (limits s)")
  case cost: True
  from inv show ?thesis
  proof (cases rule: read_request_cases [where l = l])
    case missing
    then show ?thesis using inv cost
      by (simp add: safe_op_def requeue_native_read_def bindc_read_cost bindc_Inl [where m = "read_request l"])
  next
    case (found i r)
    let ?f = "\<lambda>r. r\<lparr>nr_lease := None, nr_cost := c\<rparr>"
    let ?u = "s\<lparr>reserved := reserved s - nr_cost r, external := hm_adjust i ?f (external s)\<rparr>"
    have held: "nr_cost r \<le> reserved s" using read_charged [OF inv found(2)] found(3) by (simp add: read_charge_def)
    have u: "sched_inv ?u"
      using inv_read_update [OF inv found(2), of ?f "next_id s" "reserved s - nr_cost r"]
        inv_read [OF inv found(2)] found(3) inv_next_id [OF inv] held reserved_le [OF inv]
      by (simp add: nread_ok_def read_charge_def upd_order)
    have "map_of (external ?u) i = Some (?f r)" using found(2) by (simp add: hm_simps)
    from inv_read_flag [OF u this, of False] have "sched_inv (flag_store (nr_preempted r) False ?u)" by simp
    from safe_preempt_background [OF this] show ?thesis
      using found cost held
      by (simp add: safe_op_def requeue_native_read_def bindc_read_cost bindc_Inr [where m = "read_request l"]
          bindc_def [of "unreserve _"] unreserve_def)
  qed
qed (use inv in \<open>auto simp: safe_op_def requeue_native_read_def bindc_read_cost\<close>)

lemma cancel_queued_native_read_safe:
  assumes inv: "sched_inv s"
  shows "safe_op (cancel_queued_native_read i) s"
proof (cases "map_of (external s) i")
  case (Some r)
  have "sched_inv (s\<lparr>external := hm_remove i (external s)\<rparr>)" if "nr_lease r = None"
    using inv_read_remove [OF inv Some, of "reserved s"] that by (simp add: read_charge_def)
  then show ?thesis using inv Some by (simp add: safe_op_def cancel_queued_native_read_def)
qed (use inv in \<open>simp add: safe_op_def cancel_queued_native_read_def\<close>)

lemma release_native_read_safe:
  assumes inv: "sched_inv s"
  shows "safe_op (release_native_read l) s"
  using inv
proof (cases rule: read_request_cases [where l = l])
  case missing
  then show ?thesis using inv by (simp add: safe_op_def release_native_read_def bindc_Inl [where m = "read_request l"])
next
  case (found i r)
  have held: "nr_cost r \<le> reserved s" using read_charged [OF inv found(2)] found(3) by (simp add: read_charge_def)
  have "sched_inv (s\<lparr>external := hm_remove i (external s), reserved := reserved s - nr_cost r\<rparr>)"
    using inv_read_remove [OF inv found(2), of "reserved s - nr_cost r"] held found(3) by (simp add: read_charge_def)
  then show ?thesis using found held
    by (simp add: safe_op_def release_native_read_def bindc_Inr [where m = "read_request l"] unreserve_def)
qed

subsection \<open>Render jobs\<close>

lemma existing_job_cases [consumes 1, case_names none join]:
  assumes inv: "sched_inv s"
  obtains (none) "existing_job key s = (Inr None, s)"
      "\<And>i j. map_of (jobs s) i = Some j \<Longrightarrow> job_key j = key \<Longrightarrow> job_consumers j = []"
  | (join) i j where "existing_job key s = (Inr (Some i), s)" "map_of (jobs s) i = Some j" "job_key j = key"
      "map_of (job_keys s) key = Some i" "flag_load s (job_canceled j) \<Longrightarrow> job_preempted j"
proof (cases "map_of (job_keys s) key")
  case None
  then have "job_consumers j = []" if "map_of (jobs s) i = Some j" "job_key j = key" for i j
    using job_okD(10) [OF inv_job [OF inv that(1)]] that(2) by auto
  with None none show ?thesis by (simp add: existing_job_def)
next
  case (Some i)
  then obtain j where j: "map_of (jobs s) i = Some j" "job_key j = key"
    using sched_invD(3) [OF inv] unfolding inv_links_def by blast
  note eval = existing_job_def Some j(1)
  show ?thesis
  proof (cases "\<not> flag_load s (job_canceled j) \<or> job_preempted j")
    case True
    then show ?thesis using join [of i j] Some j by (auto simp: existing_job_def)
  next
    case False
    then have "job_consumers j = []" using job_okD(11) [OF inv_job [OF inv j(1)]] by auto
    then have "job_consumers j' = []" if "map_of (jobs s) i' = Some j'" "job_key j' = key" for i' j'
      using job_okD(10) [OF inv_job [OF inv that(1)]] that Some j by (cases "i' = i") auto
    with False none show ?thesis by (simp add: eval)
  qed
qed

lemma fresh_consumer: "sched_inv s \<Longrightarrow> map_of (consumers s) (next_id s) = None"
proof (rule ccontr)
  assume "sched_inv s" "map_of (consumers s) (next_id s) \<noteq> None"
  then show False by (auto simp: sched_inv_def inv_links_def)
qed

text \<open>
  The state after a request has found its job, before foreground work is made room for.
\<close>

lemma place_consumer_safe:
  assumes inv: "sched_inv s" and n: "Suc (next_id s) < u64_limit"
    and cost: "0 < cost" "cost \<le> lim_working_bytes (limits s)"
    and room: "length (consumers s) + length (external s) < lim_requests (limits s)"
  defines "c \<equiv> next_id s" and "u \<equiv> s\<lparr>next_id := Suc (next_id s)\<rparr>"
  shows "safe_op (bindc (existing_job key) (\<lambda>existing.
     bindc (case existing of Some i \<Rightarrow> join_job i c cost p | None \<Rightarrow> start_job key c cost p) (\<lambda>i.
     modc (\<lambda>s. s\<lparr>consumers := hm_insert c i (consumers s)\<rparr>)))) u"
proof -
  have u: "sched_inv u" unfolding u_def using inv_bump [OF inv] n by simp
  have new: "map_of (consumers u) c = None" "c < next_id u"
    using fresh_consumer [OF inv] by (simp_all add: u_def c_def)
  have cost': "cost \<le> lim_working_bytes (limits u)"
    and room': "length (consumers u) + length (external u) < lim_requests (limits u)"
    using cost room by (simp_all add: u_def)
  from u show ?thesis
  proof (cases rule: existing_job_cases [where key = key])
    case none
    show ?thesis
    proof (cases rule: serial_cases [of u])
      case fail
      then show ?thesis using u
        by (simp add: safe_op_def bindc_Inr [where m = "existing_job key", OF none(1)] start_job_def
            bindc_assoc bindc_Inl [where m = serial])
    next
      case ok
      from inv_start [OF u ok(2) cost(1) cost' new none(2) room', where key = key and p = p] show ?thesis
        by (simp add: safe_op_def bindc_Inr [where m = "existing_job key", OF none(1)] start_job_def
            bindc_assoc bindc_Inr [where m = serial, OF ok(1)] bindc_flag_new)
    qed
  next
    case (join i j)
    then have own: "map_of (job_keys u) (job_key j) = Some i" by simp
    from inv_join [OF u join(2) own join(5) new room', where p = p] show ?thesis using u join(2)
      by (simp add: safe_op_def bindc_Inr [where m = "existing_job key", OF join(1)] join_job_def bindc_assoc)
  qed
qed

lemma request_safe:
  assumes inv: "sched_inv s"
  shows "safe_op (request key cost p) s"
proof (cases "(length key = 64 \<and> list_all is_ascii_hexdigit key) \<and> (0 < cost \<and> cost \<le> lim_working_bytes (limits s))
    \<and> length (consumers s) + length (external s) < lim_requests (limits s)")
  case True
  note adm = True
  show ?thesis
  proof (cases rule: serial_cases [of s])
    case fail
    then show ?thesis using inv adm by (simp add: safe_op_def request_def bindc_Inl [where m = serial])
  next
    case ok
    let ?u = "s\<lparr>next_id := Suc (next_id s)\<rparr>"
    let ?m = "bindc (existing_job key) (\<lambda>existing.
       bindc (case existing of Some i \<Rightarrow> join_job i (next_id s) cost p | None \<Rightarrow> start_job key (next_id s) cost p) (\<lambda>i.
       modc (\<lambda>t. t\<lparr>consumers := hm_insert (next_id s) i (consumers t)\<rparr>)))"
    have eq: "request key cost p s =
        bindc ?m (\<lambda>_. bindc (if p = Foreground then preempt_background else ret ()) (\<lambda>_. ret (next_id s))) ?u"
      using adm by (simp add: request_def bindc_Inr [where m = serial, OF ok(1)] bindc_assoc)
    have "safe_op (bindc ?m (\<lambda>_. bindc (if p = Foreground then preempt_background else ret ()) (\<lambda>_. ret (next_id s)))) ?u"
    proof (rule safe_bindc)
      show m: "safe_op ?m ?u" using place_consumer_safe [OF inv ok(2)] adm by simp
      fix x t assume "?m ?u = (Inr x, t)"
      with safe_opD [OF m] have t: "sched_inv t" by simp
      obtain v where "preempt_background t = (Inr (), v)" "sched_inv v"
        using preempt_background_ok [OF t] by blast
      then show "safe_op (bindc (if p = Foreground then preempt_background else ret ()) (\<lambda>_. ret (next_id s))) t"
        using t by (simp add: safe_op_def bindc_Inr [where m = preempt_background])
    qed
    then show ?thesis by (simp only: safe_op_def eq)
  qed
next
  case False
  then show ?thesis using inv by (auto simp: safe_op_def request_def)
qed

text \<open>Removal of a job, as its callers reach it.\<close>

lemma remove_job_eq:
  assumes "map_of (jobs s) i = Some j"
  shows "remove_job i s = (Inr j, s\<lparr>jobs := hm_remove i (jobs s),
    job_keys := (if map_of (job_keys s) (job_key j) = Some i then hm_remove (job_key j) (job_keys s) else job_keys s),
    consumers := hm_remove_all (map fst (job_consumers j)) (consumers s)\<rparr>)"
  using assms by (simp add: remove_job_def)

lemma cancel_safe:
  assumes inv: "sched_inv s"
  shows "safe_op (cancel c) s"
proof (cases "map_of (consumers s) c")
  case None
  then show ?thesis using inv by (simp add: safe_op_def cancel_def)
next
  case (Some i)
  then obtain j where j: "map_of (jobs s) i = Some j" and mem: "c \<in> hm_keys (job_consumers j)"
    using sched_invD(3) [OF inv] unfolding inv_links_def by blast
  note jok = job_okD [OF inv_job [OF inv j]]
  let ?rest = "hm_remove c (job_consumers j)"
  show ?thesis
  proof (cases "?rest = [] \<and> \<not> job_running j")
    case False
    then have "sched_inv ((if ?rest = [] then flag_store (job_canceled j) True else (\<lambda>s. s))
        (s\<lparr>consumers := hm_remove c (consumers s),
           jobs := hm_adjust i (\<lambda>j. j\<lparr>job_consumers := hm_remove c (job_consumers j)\<rparr>) (jobs s)\<rparr>))"
      using inv_leave [OF inv j mem] by blast
    with False Some j show ?thesis by (auto simp: safe_op_def cancel_def bindc_assoc split: if_splits)
  next
    case True
    then have keys: "hm_keys (job_consumers j) = {c}"
      using mem hm_keys_remove [of c "job_consumers j"] by auto
    let ?u = "flag_store (job_canceled j) True (s\<lparr>consumers := hm_remove c (consumers s),
           jobs := hm_adjust i (\<lambda>j. j\<lparr>job_consumers := hm_remove c (job_consumers j)\<rparr>) (jobs s)\<rparr>)"
    have ju: "map_of (jobs ?u) i = Some (j\<lparr>job_consumers := []\<rparr>)" using j True by (simp add: hm_simps)
    have "sched_inv (snd (remove_job i ?u))"
      unfolding remove_job_eq [OF ju] snd_conv
      by (rule inv_remove [OF inv j, where cs = "hm_remove c (consumers s)" and res = "reserved s"
            and fl = "(flags s)[job_canceled j := True]"])
        (use True keys inv_wf [OF inv] in
          \<open>auto simp: flag_store_def hm_remove_adjust hm_remove_all_def hm_simps job_charge_def
            length_hm_remove_le\<close>)
    then show ?thesis using Some j True ju
      by (simp add: safe_op_def cancel_def bindc_assoc bindc_Inr [where m = "remove_job i", OF remove_job_eq [OF ju]]
          remove_job_eq [OF ju])
  qed
qed

subsection \<open>Admission of render work\<close>

text \<open>The state after the job at the front has been given its worker.\<close>

definition admitted :: "nat \<Rightarrow> job \<Rightarrow> preview_scheduler \<Rightarrow> preview_scheduler" where
  "admitted i j t = t\<lparr>next_id := Suc (next_id t), reserved := reserved t + job_cost j,
     jobs := hm_adjust i (\<lambda>j. j\<lparr>job_running := True, job_lease := Some (next_id t)\<rparr>) (jobs t)\<rparr>"

definition lease_of :: "nat \<Rightarrow> job \<Rightarrow> preview_scheduler \<Rightarrow> work_lease" where
  "lease_of i j t = \<lparr>wl_id = next_id t, wl_key = job_key j, wl_working_bytes = job_cost j,
     wl_canceled = job_canceled j\<rparr>"

lemma inv_admitted:
  assumes inv: "sched_inv t" and j: "map_of (jobs t) i = Some j" "\<not> job_running j" "\<not> flag_load t (job_canceled j)"
    and act: "active_workers t < lim_workers (limits t)"
    and fits: "job_cost j \<le> lim_working_bytes (limits t) - reserved t"
    and n: "Suc (next_id t) < u64_limit"
  shows "sched_inv (admitted i j t)"
proof -
  let ?f = "\<lambda>j. j\<lparr>job_running := True, job_lease := Some (next_id t)\<rparr>"
  have eq: "admitted i j t = t\<lparr>jobs := hm_adjust i ?f (jobs t), reserved := reserved t + job_cost j,
      next_id := Suc (next_id t), flags := flags t\<rparr>"
    by (cases t) (simp add: admitted_def)
  note jok = job_okD [OF inv_job [OF inv j(1)]]
  have "job_ok (admitted i j t) i (?f j)"
    using jok j(2,3) by (auto simp: job_ok_def admitted_def flag_load_def)
  then show ?thesis
    by (intro inv_job_update [OF inv j(1) eq])
      (use j act fits n reserved_le [OF inv] in \<open>auto simp: job_charge_def\<close>)
qed

lemma next_ready_cases [consumes 1, case_names wait overflow lease]:
  assumes inv: "sched_inv s"
  obtains (wait) t where "next_ready s = (Inr None, t)" "sched_inv t" "preempt_frame s t"
      "lim_workers (limits s) \<le> active_workers s \<or> (\<nexists>p i. front s = Some (p, i, False))
       \<or> (\<exists>p i j. front s = Some (p, i, False) \<and> map_of (jobs s) i = Some j
            \<and> lim_working_bytes (limits s) - reserved s < job_cost j)"
  | (overflow) t where "next_ready s = (Inl RequestIdentityOverflow, t)" "sched_inv t"
      "u64_limit \<le> Suc (next_id s)" "preempt_frame s t"
  | (lease) i j t where "preempt_background s = (Inr (), t)" "sched_inv t" "preempt_frame s t"
      "front s = Some (job_priority j, i, False)" "map_of (jobs t) i = Some j"
      "\<not> job_running j" "\<not> flag_load t (job_canceled j)"
      "active_workers t < lim_workers (limits t)" "job_cost j \<le> lim_working_bytes (limits t) - reserved t"
      "Suc (next_id t) < u64_limit" "next_ready s = (Inr (Some (lease_of i j t)), admitted i j t)"
proof -
  obtain t where t: "preempt_background s = (Inr (), t)" "sched_inv t" "preempt_frame s t"
    using preempt_background_ok [OF inv] by blast
  note eval = next_ready_def bindc_Inr [where m = preempt_background, OF t(1)]
    bindc_Inr [where m = free_bytes, OF free_bytes_ok [OF t(2)]]
  have same: "limits t = limits s" "active_workers t = active_workers s" "front t = front s"
    "reserved t = reserved s" "next_id t = next_id s"
    using t(3) by (simp_all add: preempt_frame_def)
  show ?thesis
  proof (cases "active_workers t < lim_workers (limits t) \<and> (\<exists>p i. front t = Some (p, i, False))")
    case False
    then have "next_ready s = (Inr None, t)"
      by (auto simp: eval split: option.splits bool.splits)
    with False show ?thesis using wait [of t] t same by auto
  next
    case True
    then obtain p i where f: "front t = Some (p, i, False)" by blast
    then obtain j where j: "map_of (jobs t) i = Some j" "\<not> job_running j" "\<not> flag_load t (job_canceled j)"
      "p = job_priority j" using front_job [OF t(2)] by metis
    show ?thesis
    proof (cases "lim_working_bytes (limits t) - reserved t < job_cost j")
      case full: True
      then have "next_ready s = (Inr None, t)" using True f j by (simp add: eval bindc_candidate_cost)
      moreover obtain b where "map_of (jobs s) i = Some (j\<lparr>job_preempted := b\<rparr>)"
        using preempt_frame_job [OF preempt_frame_sym [OF t(3)] j(1)] by blast
      moreover have "front s = Some (p, i, False)" using f same by simp
      moreover have "lim_working_bytes (limits s) - reserved s < job_cost (j\<lparr>job_preempted := b\<rparr>)"
        using full same by simp
      ultimately show ?thesis using wait [of t] t by blast
    next
      case fits: False
      show ?thesis
      proof (cases rule: serial_cases [of t])
        case fail
        then have "next_ready s = (Inl RequestIdentityOverflow, t)"
          using True f j fits by (simp add: eval bindc_candidate_cost bindc_Inl [where m = serial])
        then show ?thesis using overflow [of t] fail t same by simp
      next
        case ok
        then have "next_ready s = (Inr (Some (lease_of i j t)), admitted i j t)"
          using True f j fits
          by (simp add: eval bindc_candidate_cost bindc_Inr [where m = serial, OF ok(1)] lease_of_def admitted_def)
        then show ?thesis using lease [of t j i] t True f j fits ok same by auto
      qed
    qed
  qed
qed

lemma next_ready_safe:
  assumes inv: "sched_inv s"
  shows "safe_op next_ready s"
  using inv
proof (cases rule: next_ready_cases)
  case (lease i j t)
  then show ?thesis using inv_admitted by (auto intro: safe_opI)
qed (auto intro: safe_opI)

subsection \<open>Completion\<close>

text \<open>A job back in the queue, with a token of its own, and a job gone.\<close>

definition requeued :: "nat \<Rightarrow> job \<Rightarrow> preview_scheduler \<Rightarrow> preview_scheduler" where
  "requeued i j s = s\<lparr>jobs := hm_adjust i (\<lambda>j. j\<lparr>job_lease := None, job_running := False,
       job_preempted := False, job_canceled := length (flags s)\<rparr>) (jobs s),
     reserved := reserved s - job_cost j, next_id := next_id s, flags := flags s @ [False]\<rparr>"

definition retired :: "nat \<Rightarrow> job \<Rightarrow> preview_scheduler \<Rightarrow> preview_scheduler" where
  "retired i j s = s\<lparr>jobs := hm_remove i (jobs s),
     job_keys := (if map_of (job_keys s) (job_key j) = Some i then hm_remove (job_key j) (job_keys s) else job_keys s),
     consumers := hm_remove_all (map fst (job_consumers j)) (consumers s),
     reserved := reserved s - job_cost j, flags := flags s\<rparr>"

lemma inv_requeued:
  assumes inv: "sched_inv s" and j: "map_of (jobs s) i = Some j" "job_running j" "job_consumers j \<noteq> []"
  shows "sched_inv (requeued i j s)"
proof -
  have held: "job_cost j \<le> reserved s" using job_charged [OF inv j(1)] j(2) by (simp add: job_charge_def)
  note jok = job_okD [OF inv_job [OF inv j(1)]]
  have "job_ok (requeued i j s) i (j\<lparr>job_lease := None, job_running := False, job_preempted := False,
      job_canceled := length (flags s)\<rparr>)"
    using jok j(3) by (auto simp: job_ok_def requeued_def flag_load_def)
  then show ?thesis
    by (intro inv_job_update [OF inv j(1) requeued_def])
      (use j held inv_next_id [OF inv] reserved_le [OF inv] in \<open>auto simp: job_charge_def\<close>)
qed

lemma inv_retired:
  assumes inv: "sched_inv s" and j: "map_of (jobs s) i = Some j" "job_running j"
  shows "sched_inv (retired i j s)"
proof -
  have held: "job_cost j \<le> reserved s" using job_charged [OF inv j(1)] j(2) by (simp add: job_charge_def)
  show ?thesis
    by (rule inv_remove [OF inv j(1) retired_def])
      (use inv_wf [OF inv] held j in
        \<open>auto simp: hm_simps hm_keys_def job_charge_def length_hm_remove_all_le\<close>)
qed

lemma hm_adjust_adjust: "hm_adjust k f (hm_adjust k g m) = hm_adjust k (\<lambda>v. f (g v)) m"
  by (induction m) (auto simp: hm_adjust_def)

lemma finished_cases [consumes 1, case_names stale requeue retire]:
  assumes inv: "sched_inv s"
  obtains (stale) "finished l out s = (Inl StaleWorkerCompletion, s)"
      "\<And>i j. map_of (jobs s) i = Some j \<Longrightarrow> job_lease j \<noteq> Some l"
  | (requeue) i j where "map_of (jobs s) i = Some j" "job_lease j = Some l" "job_running j"
      "job_preempted j" "job_consumers j \<noteq> []"
      "finished l out s = (Inr \<lparr>co_consumers = [], co_outcome = Stopped, co_requeued = True, co_superseded = False\<rparr>,
         requeued i j s)"
  | (retire) i j where "map_of (jobs s) i = Some j" "job_lease j = Some l" "job_running j"
      "\<not> (job_preempted j \<and> job_consumers j \<noteq> [])"
      "finished l out s = (Inr \<lparr>co_consumers = map fst (job_consumers j),
         co_outcome = (if flag_load s (job_canceled j) then Stopped else out), co_requeued = False,
         co_superseded = (map_of (job_keys s) (job_key j) \<noteq> None \<and> map_of (job_keys s) (job_key j) \<noteq> Some i)\<rparr>,
         retired i j s)"
proof (cases "find_map (\<lambda>(i, j). if job_lease j = Some l then Some i else None) (jobs s)")
  case None
  then have "job_lease j \<noteq> Some l" if "map_of (jobs s) i = Some j" for i j
    using map_of_SomeD [OF that] by (fastforce simp: find_map_None split: if_splits)
  with None stale show ?thesis by (simp add: finished_def)
next
  case (Some i)
  then obtain j where "(i, j) \<in> set (jobs s)" and l: "job_lease j = Some l"
    by (auto dest!: find_map_Some split: if_splits)
  then have j: "map_of (jobs s) i = Some j" using inv_wf(1) [OF inv] by (simp add: hm_mem_iff)
  then have run: "job_running j" using l job_okD(6) [OF inv_job [OF inv j]] by simp
  have held: "job_cost j \<le> reserved s" using job_charged [OF inv j] run by (simp add: job_charge_def)
  let ?u = "s\<lparr>jobs := hm_adjust i (\<lambda>j. j\<lparr>job_lease := None\<rparr>) (jobs s), reserved := reserved s - job_cost j\<rparr>"
  have ju: "map_of (jobs ?u) i = Some (j\<lparr>job_lease := None\<rparr>)" using j by (simp add: hm_simps)
  have eq: "finished l out s = (if job_preempted j \<and> job_consumers j \<noteq> [] then requeue_job i else retire_job i j out) ?u"
    using Some j run held by (simp add: finished_def bindc_def [of "unreserve _"] unreserve_def)
  show ?thesis
  proof (cases "job_preempted j \<and> job_consumers j \<noteq> []")
    case True
    have "requeue_job i ?u = (Inr \<lparr>co_consumers = [], co_outcome = Stopped, co_requeued = True, co_superseded = False\<rparr>,
        requeued i j s)"
      by (cases s) (simp add: requeue_job_def bindc_flag_new requeued_def hm_adjust_adjust)
    with True eq show ?thesis using requeue [OF j l run] by simp
  next
    case False
    have "snd (remove_job i ?u) = retired i j s"
      unfolding remove_job_eq [OF ju] by (cases s) (simp add: retired_def hm_remove_adjust)
    then have "retire_job i j out ?u = (Inr \<lparr>co_consumers = map fst (job_consumers j),
         co_outcome = (if flag_load s (job_canceled j) then Stopped else out), co_requeued = False,
         co_superseded = (map_of (job_keys s) (job_key j) \<noteq> None \<and> map_of (job_keys s) (job_key j) \<noteq> Some i)\<rparr>,
         retired i j s)"
      using remove_job_eq [OF ju]
      by (simp add: retire_job_def bindc_Inr [where m = "remove_job i", OF remove_job_eq [OF ju]] flag_load_def
          retired_def split: option.splits)
    moreover from False eq have "finished l out s = retire_job i j out ?u" by (simp only: if_False)
    ultimately show ?thesis by (intro retire [OF j l run False]) (rule trans)
  qed
qed

lemma finished_safe:
  assumes inv: "sched_inv s"
  shows "safe_op (finished l out) s"
  using inv
proof (cases rule: finished_cases [where l = l and out = out])
  case (requeue i j)
  then show ?thesis using inv_requeued [OF inv] by (auto intro: safe_opI)
next
  case (retire i j)
  then show ?thesis using inv_retired [OF inv] by (auto intro: safe_opI)
qed (auto intro: safe_opI inv)

section \<open>The scheduler as a transition system\<close>

text \<open>
  The service actor owns the scheduler and calls one operation at a time; a step is one
  call, with whatever arguments and whether or not it returns an error.
\<close>

definition sched_init :: "preview_scheduler \<Rightarrow> bool" where
  "sched_init s \<longleftrightarrow> (\<exists>l. new_scheduler l = Inr s)"

inductive sched_step :: "preview_scheduler \<Rightarrow> preview_scheduler \<Rightarrow> bool" where
  step_queue: "sched_step s (snd (queue_native_read p s))"
| step_admit: "sched_step s (snd (admit_native_read i c s))"
| step_upgrade: "sched_step s (snd (upgrade_native_read l c s))"
| step_requeue: "sched_step s (snd (requeue_native_read l c s))"
| step_cancel_queued: "sched_step s (snd (cancel_queued_native_read i s))"
| step_release: "sched_step s (snd (release_native_read l s))"
| step_request: "sched_step s (snd (request k c p s))"
| step_cancel: "sched_step s (snd (cancel n s))"
| step_next: "sched_step s (snd (next_ready s))"
| step_finished: "sched_step s (snd (finished l out s))"

inductive_simps sched_step_simps: "sched_step s t"

lemmas ops_safe = queue_native_read_safe admit_native_read_safe upgrade_native_read_safe
  requeue_native_read_safe cancel_queued_native_read_safe release_native_read_safe
  request_safe cancel_safe next_ready_safe finished_safe

lemma sched_init_inv: "sched_init s \<Longrightarrow> sched_inv s"
  by (auto simp: sched_init_def new_scheduler_def sched_inv_def inv_defs limits_ok_def u64_limit_def
      held_bytes_def active_workers_def apart_jobs_def apart_reads_def apart_queues_def split: if_splits)

lemma sched_step_inv: "sched_inv s \<Longrightarrow> sched_step s t \<Longrightarrow> sched_inv t"
  by (erule sched_step.cases) (use safe_opD ops_safe in metis)+

interpretation sched: inductive_invariant sched_init sched_step sched_inv
  by unfold_locales (auto intro: sched_init_inv sched_step_inv)

end
