(* ===== verification/Scheduler_Properties.thy ===== *)
theory Scheduler_Properties
  imports Scheduler_Correct
begin

text \<open>
  The properties of the preview scheduler: its allowances, its order, the identity of
  leases across whole runs, what completion and cancellation release, and progress.
\<close>

section \<open>Leases over a run\<close>

text \<open>A lease is live while a job or a native read holds it.\<close>

definition live_lease :: "preview_scheduler \<Rightarrow> nat \<Rightarrow> bool" where
  "live_lease s l \<longleftrightarrow> (\<exists>i j. map_of (jobs s) i = Some j \<and> job_lease j = Some l)
     \<or> (\<exists>i r. map_of (external s) i = Some r \<and> nr_lease r = Some l)"

text \<open>New leases are new numbers.\<close>

definition lease_fresh :: "preview_scheduler \<Rightarrow> preview_scheduler \<Rightarrow> bool" where
  "lease_fresh s t \<longleftrightarrow> next_id s \<le> next_id t \<and> (\<forall>l. live_lease t l \<longrightarrow> live_lease s l \<or> next_id s \<le> l)"

interpretation fresh: state_preorder lease_fresh
proof unfold_locales
  show "lease_fresh s s" for s by (simp add: lease_fresh_def)
  show "lease_fresh s u" if "lease_fresh s t" "lease_fresh t u" for s t u
    using that unfolding lease_fresh_def by (meson le_trans)
qed

lemma lease_fresh_frame:
  assumes "next_id s \<le> next_id t"
    and "\<And>i j. map_of (jobs t) i = Some j \<Longrightarrow> job_lease j = None \<or>
          (\<exists>j'. map_of (jobs s) i = Some j' \<and> job_lease j' = job_lease j)"
    and "\<And>i r. map_of (external t) i = Some r \<Longrightarrow> nr_lease r = None \<or>
          (\<exists>r'. map_of (external s) i = Some r' \<and> nr_lease r' = nr_lease r)"
  shows "lease_fresh s t"
  using assms unfolding lease_fresh_def live_lease_def by fastforce

lemma advances_flag_store: "advances lease_fresh (modc (flag_store a b))"
  by (rule fresh.advances_modc, rule lease_fresh_frame) auto

lemma advances_prims:
  "advances lease_fresh serial" "advances lease_fresh flag_new" "advances lease_fresh free_bytes"
  "advances lease_fresh (unreserve n)"
  by (auto simp: advances_def serial_def flag_new_def free_bytes_def unreserve_def checked_add_def
      intro!: lease_fresh_frame fresh.R_refl split: option.splits)

lemma advances_frame_modc:
  assumes "\<And>s. next_id (f s) = next_id s"
    and "\<And>s i j. map_of (jobs (f s)) i = Some j \<Longrightarrow> job_lease j = None \<or>
          (\<exists>j'. map_of (jobs s) i = Some j' \<and> job_lease j' = job_lease j)"
    and "\<And>s i r. map_of (external (f s)) i = Some r \<Longrightarrow> nr_lease r = None \<or>
          (\<exists>r'. map_of (external s) i = Some r' \<and> nr_lease r' = nr_lease r)"
  shows "advances lease_fresh (modc f)"
  by (rule fresh.advances_modc, rule lease_fresh_frame) (use assms in auto)

text \<open>A lease that an operation hands out comes straight from the counter.\<close>

lemma advances_new_lease:
  assumes "\<And>l s. next_id (f l s) = next_id s"
    and "\<And>l s i j. map_of (jobs (f l s)) i = Some j \<Longrightarrow> job_lease j \<in> {None, Some l} \<or>
          (\<exists>j'. map_of (jobs s) i = Some j' \<and> job_lease j' = job_lease j)"
    and "\<And>l s i r. map_of (external (f l s)) i = Some r \<Longrightarrow> nr_lease r \<in> {None, Some l} \<or>
          (\<exists>r'. map_of (external s) i = Some r' \<and> nr_lease r' = nr_lease r)"
  shows "advances lease_fresh (bindc serial (\<lambda>l. bindc (modc (f l)) (\<lambda>_. ret (g l))))"
proof -
  have "lease_fresh s (f (next_id s) (s\<lparr>next_id := Suc (next_id s)\<rparr>))" for s
    using assms [where l = "next_id s" and s = "s\<lparr>next_id := Suc (next_id s)\<rparr>"]
    unfolding lease_fresh_def live_lease_def by fastforce
  then show ?thesis
    by (auto simp: advances_def bindc_def [of serial] serial_def fresh.R_refl checked_add_def)
qed

lemmas adv = fresh.advances_intros advances_prims advances_flag_store

lemma advances_preempt: "advances lease_fresh preempt_background"
proof -
  have read: "advances lease_fresh (preempt_read i)" for i
    unfolding preempt_read_def by (intro adv)
  have job: "advances lease_fresh (preempt_job i)" for i
    unfolding preempt_job_def
    by (intro adv advances_frame_modc) (auto simp: hm_simps split: if_splits)
  have cost: "advances lease_fresh (candidate_cost i b)" for i b
    unfolding candidate_cost_def by (intro adv)
  have press: "advances lease_fresh (pressed a c)" for a c
    unfolding pressed_def by (intro adv)
  show ?thesis
    unfolding preempt_background_def
    by (intro adv read job cost press) (auto split: option.splits prod.splits priority.splits
        intro!: adv read job cost press)
qed

lemma advances_reads:
  "advances lease_fresh (queue_native_read p)"
  "advances lease_fresh (admit_native_read i c)"
  "advances lease_fresh (upgrade_native_read l c)"
  "advances lease_fresh (requeue_native_read l c)"
  "advances lease_fresh (cancel_queued_native_read i)"
  "advances lease_fresh (release_native_read l)"
proof -
  have cost: "advances lease_fresh (read_cost c)" for c
    unfolding read_cost_def by (intro adv)
  have request: "advances lease_fresh (read_request l)" for l
    unfolding read_request_def by (intro adv)
  have blocked: "advances lease_fresh (admission_blocked i c)" for i c
    unfolding admission_blocked_def by (intro adv)
  have candidate: "advances lease_fresh (candidate_cost i b)" for i b
    unfolding candidate_cost_def by (intro adv)
  note adv' = adv cost request blocked candidate advances_preempt
  show "advances lease_fresh (queue_native_read p)"
    unfolding queue_native_read_def
    by (intro adv' advances_frame_modc) (auto simp: hm_simps split: if_splits)
  show "advances lease_fresh (admit_native_read i c)"
    unfolding admit_native_read_def
    by (intro adv' advances_frame_modc advances_new_lease) (auto simp: hm_simps split: if_splits)
  show "advances lease_fresh (upgrade_native_read l c)"
    unfolding upgrade_native_read_def
    by (intro adv' advances_frame_modc) (auto simp: hm_simps split: if_splits)
  show "advances lease_fresh (requeue_native_read l c)"
    unfolding requeue_native_read_def
    by (intro adv' advances_frame_modc) (auto simp: hm_simps split: if_splits)
  show "advances lease_fresh (cancel_queued_native_read i)"
    unfolding cancel_queued_native_read_def
    by (intro adv' advances_frame_modc) (auto simp: hm_simps split: if_splits)
  show "advances lease_fresh (release_native_read l)"
    unfolding release_native_read_def
    by (intro adv' advances_frame_modc) (auto simp: hm_simps split: if_splits)
qed

lemma advances_jobs:
  "advances lease_fresh (request k c p)"
  "advances lease_fresh (cancel n)"
proof -
  have existing: "advances lease_fresh (existing_job k)" for k
    unfolding existing_job_def by (intro adv)
  have join: "advances lease_fresh (join_job i n c p)" for i n c p
    unfolding join_job_def
    by (intro adv advances_frame_modc) (auto simp: hm_simps split: if_splits)
  have start: "advances lease_fresh (start_job k n c p)" for k n c p
    unfolding start_job_def
    by (intro adv advances_frame_modc) (auto simp: hm_simps split: if_splits)
  have remove: "advances lease_fresh (remove_job i)" for i
    unfolding remove_job_def
    by (intro adv advances_frame_modc) (auto simp: hm_simps split: if_splits)
  show "advances lease_fresh (request k c p)"
    unfolding request_def
    by (intro adv existing join start advances_preempt advances_frame_modc) auto
  show "advances lease_fresh (cancel n)"
    unfolding cancel_def
    by (intro adv remove advances_frame_modc) (auto simp: hm_simps split: if_splits)
qed

lemma next_ready_fresh:
  assumes "sched_inv s"
  shows "lease_fresh s (snd (next_ready s))"
  using assms
proof (cases rule: next_ready_cases)
  case (wait t)
  then show ?thesis
    by (auto simp: preempt_frame_def intro!: lease_fresh_frame
        elim!: preempt_frame_job [OF preempt_frame_sym [OF wait(3)]])
next
  case (overflow t)
  then show ?thesis
    by (auto simp: preempt_frame_def intro!: lease_fresh_frame
        elim!: preempt_frame_job [OF preempt_frame_sym [OF overflow(4)]])
next
  case (lease i j t)
  have "lease_fresh s t" using advances_preempt lease(1) by (metis advances_def snd_conv)
  moreover have "lease_fresh t (admitted i j t)"
    unfolding lease_fresh_def live_lease_def
    by (auto simp: admitted_def hm_simps split: if_splits)
  ultimately show ?thesis using lease by (auto intro: fresh.R_trans)
qed

lemma finished_fresh:
  assumes "sched_inv s"
  shows "lease_fresh s (snd (finished l out s))"
  using assms
proof (cases rule: finished_cases [where l = l and out = out])
  case (requeue i j)
  then show ?thesis by (auto simp: requeued_def hm_simps intro!: lease_fresh_frame split: if_splits)
next
  case (retire i j)
  then show ?thesis by (auto simp: retired_def hm_simps intro!: lease_fresh_frame split: if_splits)
qed (auto intro: fresh.R_refl)

lemma sched_step_fresh: "sched_inv s \<Longrightarrow> sched_step s t \<Longrightarrow> lease_fresh s t"
  by (erule sched_step.cases)
    (use advances_reads advances_jobs next_ready_fresh finished_fresh in \<open>auto simp: advances_def\<close>)

interpretation identities: monotone_quantity sched_step sched_inv next_id
  by unfold_locales (auto dest: sched_step_fresh intro: sched_step_inv simp: lease_fresh_def)

lemma lease_fresh_steps:
  assumes "sched_step\<^sup>*\<^sup>* s t" "sched_inv s"
  shows "lease_fresh s t"
  using assms
proof (induction rule: rtranclp_induct)
  case (step t u)
  then have "sched_inv t" by (blast intro: sched.reachable_steps_inv)
  with step show ?case by (blast intro: fresh.R_trans sched_step_fresh)
qed (rule fresh.R_refl)

section \<open>Properties\<close>

text \<open>A run to evaluate: one background render, admitted to the only worker.\<close>

definition ex_key :: "nat \<Rightarrow> string" where
  "ex_key n = replicate 63 (CHR ''0'') @ [char_of (48 + n)]"

definition ex_limits :: scheduler_limits where
  "ex_limits = \<lparr>lim_requests = 3, lim_workers = 1, lim_working_bytes = 100\<rparr>"

definition ex_start :: preview_scheduler where
  "ex_start = \<lparr>limits = ex_limits, next_id = 1, jobs = [], job_keys = [], consumers = [],
                reserved = 0, external = [], flags = []\<rparr>"

definition ex_queued :: preview_scheduler where
  "ex_queued = snd (request (ex_key 1) 80 Background ex_start)"

definition ex_running :: preview_scheduler where
  "ex_running = snd (next_ready ex_queued)"

definition ex_pressed :: preview_scheduler where
  "ex_pressed = snd (request (ex_key 2) 60 Foreground ex_running)"

lemma ex_reachable:
  "reachable sched_init sched_step ex_start" "reachable sched_init sched_step ex_queued"
  "reachable sched_init sched_step ex_running" "reachable sched_init sched_step ex_pressed"
proof -
  have "sched_init ex_start"
    unfolding sched_init_def by (rule exI [of _ ex_limits]) (simp add: new_scheduler_def ex_limits_def ex_start_def)
  then show s: "reachable sched_init sched_step ex_start" by (rule reachable.start)
  then show q: "reachable sched_init sched_step ex_queued"
    unfolding ex_queued_def by (rule reachable.move) (rule step_request)
  then show r: "reachable sched_init sched_step ex_running"
    unfolding ex_running_def by (rule reachable.move) (rule step_next)
  then show "reachable sched_init sched_step ex_pressed"
    unfolding ex_pressed_def by (rule reachable.move) (rule step_request)
qed

lemmas sched_eval = request_def existing_job_def start_job_def join_job_def next_ready_def
  preempt_background_def pressed_def candidate_cost_def preempt_job_def preempt_read_def
  free_bytes_def serial_def flag_new_def bindc_def
  front_def candidates_def background_reads_def background_running_def usage_def
  checked_add_def checked_sub_def flag_load_def flag_store_def u64_limit_def
  hm_insert_def hm_remove_def hm_adjust_def hm_count_def reverse_rank_def job_priority_def

lemma ex_key_ok: "length (ex_key n) = 64" "n < 10 \<Longrightarrow> list_all is_ascii_hexdigit (ex_key n)"
  by (auto simp: ex_key_def is_ascii_hexdigit_def list_all_iff)

lemma ex_key_inject [simp]: "ex_key 1 \<noteq> ex_key 2" "ex_key 2 \<noteq> ex_key 1"
  by (simp_all add: ex_key_def)

lemma ex_queued_eq:
  "ex_queued = \<lparr>limits = ex_limits, next_id = 3, jobs = [(2, \<lparr>job_key = ex_key 1, job_cost = 80,
     job_consumers = [(1, Background)], job_running = False, job_canceled = 0, job_preempted = False,
     job_lease = None\<rparr>)], job_keys = [(ex_key 1, 2)], consumers = [(1, 2)],
     reserved = 0, external = [], flags = [False]\<rparr>"
  by (simp add: ex_queued_def ex_start_def ex_key_ok ex_limits_def sched_eval del: One_nat_def)

lemma next_ready_ex:
  "next_ready ex_queued = (Inr (Some \<lparr>wl_id = 3, wl_key = ex_key 1, wl_working_bytes = 80, wl_canceled = 0\<rparr>),
   \<lparr>limits = ex_limits, next_id = 4, jobs = [(2, \<lparr>job_key = ex_key 1, job_cost = 80,
     job_consumers = [(1, Background)], job_running = True, job_canceled = 0, job_preempted = False,
     job_lease = Some 3\<rparr>)], job_keys = [(ex_key 1, 2)], consumers = [(1, 2)],
     reserved = 80, external = [], flags = [False]\<rparr>)"
  by (simp add: ex_queued_eq ex_limits_def sched_eval del: One_nat_def)

lemma ex_running_eq:
  "ex_running = \<lparr>limits = ex_limits, next_id = 4, jobs = [(2, \<lparr>job_key = ex_key 1, job_cost = 80,
     job_consumers = [(1, Background)], job_running = True, job_canceled = 0, job_preempted = False,
     job_lease = Some 3\<rparr>)], job_keys = [(ex_key 1, 2)], consumers = [(1, 2)],
     reserved = 80, external = [], flags = [False]\<rparr>"
  by (simp add: ex_running_def next_ready_ex)

lemma ex_pressed_eq:
  "ex_pressed = \<lparr>limits = ex_limits, next_id = 6,
     jobs = [(2, \<lparr>job_key = ex_key 1, job_cost = 80, job_consumers = [(1, Background)], job_running = True,
              job_canceled = 0, job_preempted = True, job_lease = Some 3\<rparr>),
             (5, \<lparr>job_key = ex_key 2, job_cost = 60, job_consumers = [(4, Foreground)], job_running = False,
              job_canceled = 1, job_preempted = False, job_lease = None\<rparr>)],
     job_keys = [(ex_key 1, 2), (ex_key 2, 5)], consumers = [(1, 2), (4, 5)],
     reserved = 80, external = [], flags = [True, False]\<rparr>"
  by (simp add: ex_pressed_def ex_running_eq ex_key_ok ex_limits_def sched_eval del: One_nat_def)

text \<open>
  C1: in every state the preview scheduler can reach, the reserved bytes are exactly the
  costs of the running jobs and of the admitted native reads, they stay within the byte
  allowance, the active workers within the worker limit, and consumers and native reads
  together within the request limit.
\<close>

theorem sched_allowances:
  assumes "reachable sched_init sched_step s"
  shows "us_reserved_bytes (usage s)
      = (\<Sum>(i, j)\<leftarrow>jobs s. if job_running j then job_cost j else 0)
      + (\<Sum>(i, r)\<leftarrow>external s. if nr_lease r = None then 0 else nr_cost r)
    \<and> us_reserved_bytes (usage s) \<le> lim_working_bytes (limits s)
    \<and> us_active (usage s) \<le> lim_workers (limits s)
    \<and> us_consumers (usage s) \<le> lim_requests (limits s)"
proof -
  have inv: "inv_ledger s" using sched.reachable_inv [OF assms] by (simp add: sched_inv_def)
  have eta: "(\<lambda>(i, j). f j) = (\<lambda>e. f (snd e))" for f :: "'a \<Rightarrow> nat" by auto
  have "us_reserved_bytes (usage s)
      = (\<Sum>(i, j)\<leftarrow>jobs s. if job_running j then job_cost j else 0)
      + (\<Sum>(i, r)\<leftarrow>external s. if nr_lease r = None then 0 else nr_cost r)"
    using inv unfolding eta
    by (simp add: inv_ledger_def usage_def held_bytes_def hm_total_def job_charge_def read_charge_def)
  with inv show ?thesis by (simp add: inv_ledger_def usage_def active_workers_def)
qed

theorem sched_allowances_witness:
  "us_reserved_bytes (usage ex_running) \<le> lim_working_bytes (limits ex_running)
   \<and> us_reserved_bytes (usage ex_running) = 80"
  using sched_allowances [OF ex_reachable(3)] by (simp add: ex_running_eq usage_def)

text \<open>
  C2: in every state the preview scheduler can reach, no operation panics: no unsigned
  subtraction goes below zero and no map entry behind an index or unwrap is missing.
\<close>

theorem sched_never_panics:
  assumes "reachable sched_init sched_step s"
  shows "fst (queue_native_read p s) \<noteq> Inl Panic \<and> fst (admit_native_read i c s) \<noteq> Inl Panic
    \<and> fst (upgrade_native_read l c s) \<noteq> Inl Panic \<and> fst (requeue_native_read l c s) \<noteq> Inl Panic
    \<and> fst (cancel_queued_native_read i s) \<noteq> Inl Panic \<and> fst (release_native_read l s) \<noteq> Inl Panic
    \<and> fst (request k c p s) \<noteq> Inl Panic \<and> fst (cancel n s) \<noteq> Inl Panic
    \<and> fst (next_ready s) \<noteq> Inl Panic \<and> fst (finished l out s) \<noteq> Inl Panic"
  using sched.reachable_inv [OF assms] by (intro conjI) (simp_all add: ops_safe [THEN safe_opD])

theorem sched_never_panics_witness:
  "fst (finished 3 Succeeded ex_pressed) \<noteq> Inl Panic \<and> fst (next_ready ex_pressed) = Inr None"
proof
  show "fst (finished 3 Succeeded ex_pressed) \<noteq> Inl Panic"
    using sched_never_panics [OF ex_reachable(4)] by blast
  show "fst (next_ready ex_pressed) = Inr None"
    by (simp add: ex_pressed_eq ex_limits_def sched_eval del: One_nat_def)
qed

text \<open>
  C10: a lease that \<open>next_ready\<close> hands out is for a queued job that no waiting request
  precedes: every other candidate has a lower priority, or the same priority and a later
  number. The lease carries a new number and a token that is not set, and its bytes are
  reserved within the allowance.
\<close>

theorem next_ready_serves_front:
  assumes "reachable sched_init sched_step s" "next_ready s = (Inr (Some w), t)"
  shows "\<exists>i j. map_of (jobs s) i = Some j \<and> \<not> job_running j
    \<and> w = \<lparr>wl_id = next_id s, wl_key = job_key j, wl_working_bytes = job_cost j, wl_canceled = job_canceled j\<rparr>
    \<and> \<not> flag_load t (wl_canceled w)
    \<and> reserved t = reserved s + job_cost j \<and> reserved t \<le> lim_working_bytes (limits t)
    \<and> (\<forall>(p, i', native) \<in> set (candidates s).
         p < job_priority j \<or> p = job_priority j \<and> i \<le> i')"
  using sched.reachable_inv [OF assms(1)]
proof (cases rule: next_ready_cases)
  case (lease i j u)
  from preempt_frame_job [OF preempt_frame_sym [OF lease(3)] lease(5)]
  obtain b where j: "map_of (jobs s) i = Some (j\<lparr>job_preempted := b\<rparr>)" .
  have w: "w = lease_of i j u" and t: "t = admitted i j u" using lease(11) assms(2) by auto
  have "sched_inv t" unfolding t using inv_admitted lease by blast
  have prio: "job_priority (j\<lparr>job_preempted := b\<rparr>) = job_priority j" by (simp add: job_priority_def)
  have order: "p < job_priority j \<or> p = job_priority j \<and> i \<le> i'"
    if "(p, i', native) \<in> set (candidates s)" for p i' native
  proof -
    have "(reverse_rank (job_priority j), i) \<le> (reverse_rank p, i')"
      using min_by_key_le [OF lease(4) [unfolded front_def] that] by simp
    then show ?thesis
      by (cases p; cases "job_priority j") (auto simp: reverse_rank_def less_priority_def)
  qed
  show ?thesis
  proof (intro exI [of _ i] exI [of _ "j\<lparr>job_preempted := b\<rparr>"] conjI)
    show "reserved t \<le> lim_working_bytes (limits t)" using reserved_le [OF \<open>sched_inv t\<close>] .
    show "\<not> flag_load t (wl_canceled w)" using lease(7) by (simp add: w t lease_of_def admitted_def flag_load_def)
    show "\<forall>(p, i', native) \<in> set (candidates s).
        p < job_priority (j\<lparr>job_preempted := b\<rparr>) \<or> p = job_priority (j\<lparr>job_preempted := b\<rparr>) \<and> i \<le> i'"
      using order prio by auto
  qed (use j lease in \<open>auto simp: w t lease_of_def admitted_def preempt_frame_def\<close>)
qed (use assms(2) in auto)

theorem next_ready_serves_front_witness:
  "\<exists>w i j. fst (next_ready ex_queued) = Inr (Some w) \<and> map_of (jobs ex_queued) i = Some j
     \<and> wl_key w = job_key j \<and> wl_id w = 3"
proof -
  from next_ready_serves_front [OF ex_reachable(2) next_ready_ex]
  show ?thesis unfolding next_ready_ex by auto
qed

text \<open>
  C8: once a lease is over it stays over. After any further operations, in any order, a
  late completion or a late release under that number is refused and changes nothing, so
  it cannot free the reservation of a successor.
\<close>

theorem retired_lease_stays_retired:
  assumes "reachable sched_init sched_step s" "l < next_id s" "\<not> live_lease s l"
    and "sched_step\<^sup>*\<^sup>* s t"
  shows "finished l out t = (Inl StaleWorkerCompletion, t)
    \<and> release_native_read l t = (Inl NativeReadLeaseMissing, t)"
proof -
  have inv: "sched_inv s" using sched.reachable_inv [OF assms(1)] .
  have inv_t: "sched_inv t" using sched.reachable_steps_inv [OF inv assms(4)] .
  have dead: "\<not> live_lease t l"
    using lease_fresh_steps [OF assms(4) inv] assms(2,3) by (auto simp: lease_fresh_def)
  have "finished l out t = (Inl StaleWorkerCompletion, t)"
    using inv_t by (cases rule: finished_cases [where l = l and out = out]) (use dead in \<open>auto simp: live_lease_def\<close>)
  moreover have "release_native_read l t = (Inl NativeReadLeaseMissing, t)"
    using inv_t
  proof (cases rule: read_request_cases [where l = l])
    case missing
    then show ?thesis by (simp add: release_native_read_def bindc_Inl [where m = "read_request l"])
  qed (use dead in \<open>auto simp: live_lease_def\<close>)
  ultimately show ?thesis ..
qed

theorem retired_lease_stays_retired_witness:
  "finished 2 Succeeded ex_pressed = (Inl StaleWorkerCompletion, ex_pressed)"
proof -
  have "(2::nat) < next_id ex_running" "\<not> live_lease ex_running 2"
    by (auto simp: ex_running_eq live_lease_def split: if_splits)
  moreover have "sched_step\<^sup>*\<^sup>* ex_running ex_pressed"
    unfolding ex_pressed_def by (intro r_into_rtranclp step_request)
  ultimately show ?thesis using retired_lease_stays_retired [OF ex_reachable(3)] by blast
qed

text \<open>
  C12: a completion the scheduler accepts frees exactly the bytes of the job that held the
  lease, and ends the lease. The job returns to the queue if and only if it was preempted and
  still has consumers: then nothing is delivered, and it keeps its consumers under a token that
  is not set. Any other job is removed, and exactly its consumers are reported and forgotten,
  with the outcome of the worker, or with \<open>Stopped\<close> when the job's token was set.
\<close>

theorem finished_releases:
  assumes "reachable sched_init sched_step s" "finished l out s = (Inr c, t)"
  shows "\<exists>i j. map_of (jobs s) i = Some j \<and> job_lease j = Some l
    \<and> reserved s = reserved t + job_cost j
    \<and> (\<forall>i' j'. map_of (jobs t) i' = Some j' \<longrightarrow> job_lease j' \<noteq> Some l)
    \<and> (co_requeued c \<longleftrightarrow> job_preempted j \<and> job_consumers j \<noteq> [])
    \<and> (if job_preempted j \<and> job_consumers j \<noteq> []
       then co_consumers c = [] \<and> co_outcome c = Stopped \<and> consumers t = consumers s
          \<and> (\<exists>j'. map_of (jobs t) i = Some j' \<and> \<not> job_running j' \<and> job_consumers j' = job_consumers j
               \<and> \<not> flag_load t (job_canceled j') \<and> job_canceled j' \<noteq> job_canceled j)
       else map_of (jobs t) i = None \<and> set (co_consumers c) = hm_keys (job_consumers j)
          \<and> co_outcome c = (if flag_load s (job_canceled j) then Stopped else out)
          \<and> (co_superseded c \<longleftrightarrow> (\<exists>i'. map_of (job_keys s) (job_key j) = Some i' \<and> i' \<noteq> i))
          \<and> (\<forall>n. map_of (consumers t) n = (if n \<in> set (co_consumers c) then None else map_of (consumers s) n)))"
proof -
  have inv: "sched_inv s" using sched.reachable_inv [OF assms(1)] .
  have uniq: "i' = i" if "map_of (jobs s) i = Some j" "job_lease j = Some l"
    "map_of (jobs s) i' = Some j'" "job_lease j' = Some l" for i i' j j'
    using sched_invD(4) [OF inv] that by (auto simp: inv_apart_def dest: apart_jobsD)
  from inv show ?thesis
  proof (cases rule: finished_cases [where l = l and out = out])
    case stale
    then show ?thesis using assms(2) by simp
  next
    case (requeue i j)
    let ?j = "j\<lparr>job_lease := None, job_running := False, job_preempted := False, job_canceled := length (flags s)\<rparr>"
    have c: "co_requeued c" "co_consumers c = []" "co_outcome c = Stopped" and t: "t = requeued i j s"
      using requeue(6) assms(2) by auto
    have held: "job_cost j \<le> reserved s"
      using job_charged [OF inv requeue(1)] requeue(3) by (simp add: job_charge_def)
    have tok: "job_canceled j < length (flags s)" using job_okD(8) [OF inv_job [OF inv requeue(1)]] .
    have lookup: "map_of (jobs t) i' = (if i' = i then Some ?j else map_of (jobs s) i')" for i'
      using requeue(1) by (simp add: t requeued_def hm_simps)
    have "job_lease j' \<noteq> Some l" if "map_of (jobs t) i' = Some j'" for i' j'
      using that uniq [OF requeue(1,2), of i' j'] by (auto simp: lookup split: if_splits)
    moreover have "reserved s = reserved t + job_cost j" "consumers t = consumers s"
      "\<not> flag_load t (length (flags s))"
      using held by (simp_all add: t requeued_def flag_load_def)
    ultimately show ?thesis
      using requeue(1,2,4,5) c tok lookup by (intro exI [of _ i] exI [of _ j]) simp
  next
    case (retire i j)
    have c: "\<not> co_requeued c" "co_consumers c = map fst (job_consumers j)"
      "co_outcome c = (if flag_load s (job_canceled j) then Stopped else out)"
      "co_superseded c \<longleftrightarrow> (\<exists>i'. map_of (job_keys s) (job_key j) = Some i' \<and> i' \<noteq> i)" and t: "t = retired i j s"
      using retire(5) assms(2) by auto
    have held: "job_cost j \<le> reserved s"
      using job_charged [OF inv retire(1)] retire(3) by (simp add: job_charge_def)
    have lookup: "map_of (jobs t) i' = (if i' = i then None else map_of (jobs s) i')" for i'
      by (simp add: t retired_def hm_simps)
    have "job_lease j' \<noteq> Some l" if "map_of (jobs t) i' = Some j'" for i' j'
      using that uniq [OF retire(1,2), of i' j'] by (auto simp: lookup split: if_splits)
    moreover have "reserved s = reserved t + job_cost j"
      "map_of (consumers t) n = (if n \<in> fst ` set (job_consumers j) then None else map_of (consumers s) n)" for n
      using held by (simp_all add: t retired_def hm_simps)
    ultimately show ?thesis
      using retire(1,2,4) c lookup by (intro exI [of _ i] exI [of _ j]) (simp add: hm_keys_def)
  qed
qed

lemma ex_finished:
  "finished 3 Succeeded ex_pressed =
     (Inr \<lparr>co_consumers = [], co_outcome = Stopped, co_requeued = True, co_superseded = False\<rparr>,
      snd (finished 3 Succeeded ex_pressed))"
  "finished 3 Succeeded ex_running =
     (Inr \<lparr>co_consumers = [1], co_outcome = Succeeded, co_requeued = False, co_superseded = False\<rparr>,
      snd (finished 3 Succeeded ex_running))"
  by (simp_all add: ex_pressed_eq ex_running_eq finished_def requeue_job_def retire_job_def remove_job_def unreserve_def
      sched_eval flag_load_def del: One_nat_def)

theorem finished_releases_witness:
  "reserved ex_pressed = reserved (snd (finished 3 Succeeded ex_pressed)) + 80
   \<and> map_of (jobs (snd (finished 3 Succeeded ex_running))) 2 = None"
proof
  obtain i j where "map_of (jobs ex_pressed) i = Some j" "job_lease j = Some 3"
    "reserved ex_pressed = reserved (snd (finished 3 Succeeded ex_pressed)) + job_cost j"
    using finished_releases [OF ex_reachable(4) ex_finished(1)] by (elim exE conjE) (rule that)
  then show "reserved ex_pressed = reserved (snd (finished 3 Succeeded ex_pressed)) + 80"
    by (auto simp: ex_pressed_eq split: if_splits)
next
  obtain i j where j: "map_of (jobs ex_running) i = Some j"
    and "\<not> (job_preempted j \<and> job_consumers j \<noteq> [])
      \<longrightarrow> map_of (jobs (snd (finished 3 Succeeded ex_running))) i = None"
    using finished_releases [OF ex_reachable(3) ex_finished(2)]
    by (elim exE conjE) (rule that, assumption, simp)
  then show "map_of (jobs (snd (finished 3 Succeeded ex_running))) 2 = None"
    by (simp add: ex_running_eq split: if_splits) (auto split: if_splits)
qed

text \<open>
  C21: requests for the same preview share one job: in every reachable state at most one
  job of a key has consumers, that job owns the key, and every registered consumer is in
  the job it is registered with.
\<close>

theorem one_live_job_per_key:
  assumes "reachable sched_init sched_step s"
    and "map_of (jobs s) i = Some j" "job_consumers j \<noteq> []"
  shows "map_of (job_keys s) (job_key j) = Some i
    \<and> (\<forall>i' j'. map_of (jobs s) i' = Some j' \<and> job_key j' = job_key j \<and> job_consumers j' \<noteq> [] \<longrightarrow> i' = i)
    \<and> (\<forall>n i'. map_of (consumers s) n = Some i' \<longleftrightarrow>
         (\<exists>j'. map_of (jobs s) i' = Some j' \<and> n \<in> hm_keys (job_consumers j')))"
proof -
  have inv: "sched_inv s" using sched.reachable_inv [OF assms(1)] .
  have own: "map_of (job_keys s) (job_key j') = Some i'"
    if "map_of (jobs s) i' = Some j'" "job_consumers j' \<noteq> []" for i' j'
    using job_okD(10) [OF inv_job [OF inv that(1)] that(2)] .
  have "i' = i" if "map_of (jobs s) i' = Some j'" "job_key j' = job_key j" "job_consumers j' \<noteq> []" for i' j'
    using own [OF assms(2,3)] own [OF that(1,3)] that(2) by simp
  moreover have "map_of (consumers s) n = Some i' \<longleftrightarrow>
      (\<exists>j'. map_of (jobs s) i' = Some j' \<and> n \<in> hm_keys (job_consumers j'))" for n i'
    using sched_invD(3) [OF inv] job_okD(5) [OF inv_job [OF inv]] unfolding inv_links_def by blast
  ultimately show ?thesis using own [OF assms(2,3)] by blast
qed

theorem one_live_job_per_key_witness:
  "map_of (job_keys ex_pressed) (ex_key 2) = Some 5"
  using one_live_job_per_key [OF ex_reachable(4), of 5] by (simp add: ex_pressed_eq del: One_nat_def)

text \<open>What a cancellation leaves: the job without the consumer, or no job.\<close>

definition left :: "nat \<Rightarrow> nat \<Rightarrow> job \<Rightarrow> preview_scheduler \<Rightarrow> preview_scheduler" where
  "left n i j s = (if hm_remove n (job_consumers j) = [] then flag_store (job_canceled j) True else (\<lambda>s. s))
     (s\<lparr>consumers := hm_remove n (consumers s),
        jobs := hm_adjust i (\<lambda>j. j\<lparr>job_consumers := hm_remove n (job_consumers j)\<rparr>) (jobs s)\<rparr>)"

definition dropped :: "nat \<Rightarrow> nat \<Rightarrow> job \<Rightarrow> preview_scheduler \<Rightarrow> preview_scheduler" where
  "dropped n i j s = s\<lparr>consumers := hm_remove n (consumers s), jobs := hm_remove i (jobs s),
     flags := (flags s)[job_canceled j := True],
     job_keys := (if map_of (job_keys s) (job_key j) = Some i
                  then hm_remove (job_key j) (job_keys s) else job_keys s)\<rparr>"

lemma cancel_eq:
  assumes n: "map_of (consumers s) n = Some i" and j: "map_of (jobs s) i = Some j"
  shows "cancel n s = (Inr True,
    if hm_remove n (job_consumers j) = [] \<and> \<not> job_running j then dropped n i j s else left n i j s)"
proof (cases "hm_remove n (job_consumers j) = [] \<and> \<not> job_running j")
  case True
  let ?u = "left n i j s"
  have ju: "map_of (jobs ?u) i = Some (j\<lparr>job_consumers := []\<rparr>)" using j True by (simp add: left_def hm_simps)
  have "snd (remove_job i ?u) = dropped n i j s"
    unfolding remove_job_eq [OF ju] using True
    by (cases s) (simp add: dropped_def left_def flag_store_def hm_remove_adjust hm_remove_all_def)
  then have rem: "remove_job i ?u = (Inr (j\<lparr>job_consumers := []\<rparr>), dropped n i j s)"
    using remove_job_eq [OF ju] by simp
  show ?thesis using True n j rem
    by (simp add: cancel_def left_def bindc_def)
next
  case False
  then show ?thesis using n j by (auto simp: cancel_def bindc_assoc left_def)
qed

text \<open>
  Cancelling a consumer removes that registration only and reserves or frees no bytes.
  The token of the job is set exactly when its last consumer left (or it was set before);
  a running job stays, with its lease, until its worker has exited.
\<close>

theorem cancel_last_consumer:
  assumes "reachable sched_init sched_step s" "map_of (consumers s) n = Some i"
  shows "\<exists>j. map_of (jobs s) i = Some j \<and> fst (cancel n s) = Inr True
    \<and> reserved (snd (cancel n s)) = reserved s
    \<and> map_of (consumers (snd (cancel n s))) = (map_of (consumers s))(n := None)
    \<and> (flag_load (snd (cancel n s)) (job_canceled j) \<longleftrightarrow>
         flag_load s (job_canceled j) \<or> hm_keys (job_consumers j) = {n})
    \<and> (map_of (jobs (snd (cancel n s))) i =
         (if hm_keys (job_consumers j) = {n} \<and> \<not> job_running j then None
          else Some (j\<lparr>job_consumers := hm_remove n (job_consumers j)\<rparr>)))"
proof -
  have inv: "sched_inv s" using sched.reachable_inv [OF assms(1)] .
  obtain j where j: "map_of (jobs s) i = Some j" and mem: "n \<in> hm_keys (job_consumers j)"
    using sched_invD(3) [OF inv] assms(2) unfolding inv_links_def by blast
  have tok: "job_canceled j < length (flags s)" using job_okD(8) [OF inv_job [OF inv j]] .
  have empty: "hm_remove n (job_consumers j) = [] \<longleftrightarrow> hm_keys (job_consumers j) = {n}"
    using mem by (force simp: hm_remove_def hm_keys_def filter_empty_conv)
  show ?thesis
  proof (cases "hm_keys (job_consumers j) = {n} \<and> \<not> job_running j")
    case True
    then have "cancel n s = (Inr True, dropped n i j s)" using cancel_eq [OF assms(2) j] empty by simp
    with True j tok show ?thesis
      by (intro exI [of _ j]) (simp add: dropped_def hm_simps map_of_hm flag_load_def)
  next
    case False
    then have "cancel n s = (Inr True, left n i j s)" using cancel_eq [OF assms(2) j] empty by auto
    with False j tok empty show ?thesis
      by (intro exI [of _ j]) (auto simp: left_def hm_simps map_of_hm flag_load_def flag_store_def)
  qed
qed

theorem cancel_last_consumer_witness:
  "fst (cancel 1 ex_running) = Inr True \<and> reserved (snd (cancel 1 ex_running)) = 80"
proof -
  have "map_of (consumers ex_running) 1 = Some 2" by (simp add: ex_running_eq)
  from cancel_last_consumer [OF ex_reachable(3) this] show ?thesis by (auto simp: ex_running_eq)
qed

text \<open>
  When a foreground render is next and no worker is free for it, exactly one piece of
  running background work is told to stop, the one with the oldest number; nothing is
  released for it, no other token changes, and the queue keeps its order.
\<close>

theorem foreground_preempts_oldest:
  assumes "reachable sched_init sched_step s" "front s = Some (Foreground, i, False)"
    and "lim_workers (limits s) \<le> us_active (usage s)"
    and "min_by_key fst (background_running s) = Some (k, False)"
  shows "\<exists>j t. map_of (jobs s) k = Some j \<and> job_running j \<and> job_priority j = Background
    \<and> preempt_background s = (Inr (), t)
    \<and> (\<forall>a. flag_load t a \<longleftrightarrow> flag_load s a \<or> a = job_canceled j)
    \<and> map_of (jobs t) = (map_of (jobs s))(k \<mapsto> j\<lparr>job_preempted := True\<rparr>)
    \<and> usage t = usage s \<and> front t = front s
    \<and> (\<forall>(k', native) \<in> set (background_running s). k \<le> k')"
proof -
  have inv: "sched_inv s" using sched.reachable_inv [OF assms(1)] .
  obtain j where j: "map_of (jobs s) k = Some j" "job_running j" "job_priority j = Background"
    using background_running_job [OF inv min_by_key_mem [OF assms(4)]] by blast
  have tok: "job_canceled j < length (flags s)" using job_okD(8) [OF inv_job [OF inv j(1)]] .
  obtain c where c: "candidate_cost i False s = (Inr c, s)" using candidate_cost_front [OF inv assms(2)] ..
  have eq: "preempt_background s = (Inr (), preempted_state k j s)"
    using assms(2-4) preempt_job_eq [OF j(1)]
    by (simp add: preempt_background_def bindc_Inr [where m = "candidate_cost i False", OF c]
        bindc_Inr [where m = "pressed _ _", OF pressed_ok [OF inv]])
  have "usage (preempted_state k j s) = usage s"
    using hm_count_same [OF j(1) inv_wf(1) [OF inv], of job_running "\<lambda>j. j\<lparr>job_preempted := True\<rparr>"]
      hm_count_same [OF j(1) inv_wf(1) [OF inv], of "\<lambda>j. \<not> job_running j" "\<lambda>j. j\<lparr>job_preempted := True\<rparr>"]
    by (simp add: usage_def preempted_state_def)
  moreover have "\<forall>(k', native) \<in> set (background_running s). k \<le> k'"
    using min_by_key_le [OF assms(4)] by fastforce
  ultimately show ?thesis
    using j eq tok front_preempted_state [OF inv j(1,2)]
    by (intro exI [of _ j] exI [of _ "preempted_state k j s"])
      (auto simp: preempted_state_def map_of_hm flag_load_def flag_store_def nth_list_update)
qed

theorem foreground_preempts_oldest_witness:
  "\<exists>t. preempt_background ex_pressed = (Inr (), t) \<and> usage t = usage ex_pressed \<and> flag_load t 0"
proof -
  have "front ex_pressed = Some (Foreground, 5, False)"
    by (simp add: ex_pressed_eq front_def candidates_def flag_load_def reverse_rank_def job_priority_def)
  moreover have "lim_workers (limits ex_pressed) \<le> us_active (usage ex_pressed)"
    by (simp add: ex_pressed_eq ex_limits_def usage_def hm_count_def)
  moreover have "min_by_key fst (background_running ex_pressed) = Some (2, False)"
    by (simp add: ex_pressed_eq background_running_def background_reads_def job_priority_def)
  ultimately show ?thesis
    using foreground_preempts_oldest [OF ex_reachable(4), of 5 2] by (auto simp: ex_pressed_eq)
qed

text \<open>
  C17: an idle scheduler makes progress. With no active worker, whatever waits at the front
  is admitted by the next call: a render by \<open>next_ready\<close>, a native read by
  \<open>admit_native_read\<close> with any cost within the allowance, as long as request numbers last.
\<close>

theorem idle_scheduler_progress:
  assumes "reachable sched_init sched_step s" "us_active (usage s) = 0"
    and "Suc (next_id s) < u64_limit" "front s = Some (p, i, native)"
  shows "if native
    then 0 < c \<and> c \<le> lim_working_bytes (limits s) \<longrightarrow> (\<exists>t. admit_native_read i c s = (Inr (Some (next_id s)), t))
    else \<exists>w t. next_ready s = (Inr (Some w), t) \<and> wl_id w = next_id s"
proof -
  have inv: "sched_inv s" using sched.reachable_inv [OF assms(1)] .
  have idle: "hm_total job_charge (jobs s) = 0" "hm_total read_charge (external s) = 0"
  proof -
    have "hm_count job_running (jobs s) = 0" "hm_count (\<lambda>r. nr_lease r \<noteq> None) (external s) = 0"
      using assms(2) by (simp_all add: usage_def)
    then show "hm_total job_charge (jobs s) = 0" "hm_total read_charge (external s) = 0"
      by (auto simp: hm_count_def hm_total_def filter_empty_conv job_charge_def read_charge_def)
  qed
  then have res: "reserved s = 0" using sched_invD(5) [OF inv] by (simp add: inv_ledger_def held_bytes_def)
  have workers: "0 < lim_workers (limits s)" using sched_invD(1) [OF inv] by (simp add: inv_maps_def limits_ok_def)
  show ?thesis
  proof (cases native)
    case False
    with assms(4) have f: "front s = Some (p, i, False)" by simp
    obtain j where j: "map_of (jobs s) i = Some j" using front_job [OF inv f] by blast
    from inv have "\<exists>w t. next_ready s = (Inr (Some w), t) \<and> wl_id w = next_id s"
    proof (cases rule: next_ready_cases)
      case (wait t)
      then show ?thesis using f j workers assms(2) res job_okD(3) [OF inv_job [OF inv j]] by auto
    next
      case (overflow t)
      then show ?thesis using assms(3) by simp
    next
      case (lease i' j' t)
      then show ?thesis by (simp add: lease_of_def preempt_frame_def)
    qed
    with False show ?thesis by simp
  next
    case True
    have "\<exists>t. admit_native_read i c s = (Inr (Some (next_id s)), t)" if cost: "0 < c" "c \<le> lim_working_bytes (limits s)"
    proof -
      obtain r where r: "map_of (external s) i = Some r" "nr_lease r = None"
        using front_read [OF inv, of p i] assms(4) True by auto
      let ?u = "s\<lparr>external := hm_adjust i (\<lambda>r. r\<lparr>nr_cost := c\<rparr>) (external s)\<rparr>"
      obtain t where t: "preempt_background ?u = (Inr (), t)" "sched_inv t" "preempt_frame ?u t"
        using preempt_background_ok [OF inv_set_cost [OF inv r]] by blast
      have cand: "candidates ?u = candidates s"
        by (auto simp: candidates_def hm_adjust_def filter_map comp_def flag_load_def split: prod.splits
            intro!: arg_cong [where f = "\<lambda>xs. _ @ xs"] map_cong filter_cong)
      have act: "active_workers ?u = 0"
        using assms(2) hm_count_same [OF r(1) inv_wf(2) [OF inv], of "\<lambda>r. nr_lease r \<noteq> None" "\<lambda>r. r\<lparr>nr_cost := c\<rparr>"]
        by (simp add: active_workers_def)
      have "admission_blocked i c t = (Inr False, t)"
        using t(3) act cost workers res assms(4) True cand
        by (simp add: admission_blocked_eq [OF t(2)] preempt_frame_def front_def)
      moreover have "serial t = (Inr (next_id s), t\<lparr>next_id := Suc (next_id s)\<rparr>)"
        using t(3) assms(3) by (simp add: serial_def checked_add_def preempt_frame_def)
      ultimately show ?thesis
        using cost r t(1)
        by (simp add: admit_native_read_def bindc_read_cost bindc_def [of preempt_background]
            bindc_def [of "admission_blocked i c"] bindc_def [of serial])
    qed
    with True show ?thesis by simp
  qed
qed

theorem idle_scheduler_progress_witness:
  "\<exists>w t. next_ready ex_queued = (Inr (Some w), t) \<and> wl_id w = 3"
proof -
  have "us_active (usage ex_queued) = 0" "Suc (next_id ex_queued) < u64_limit"
    "front ex_queued = Some (Background, 2, False)"
    by (simp_all add: ex_queued_eq usage_def hm_count_def u64_limit_def front_def candidates_def
        flag_load_def job_priority_def)
  from idle_scheduler_progress [OF ex_reachable(2) this] show ?thesis by (simp add: ex_queued_eq)
qed

end
