(* ===== verification/Byte_Budget.thy ===== *)
theory Byte_Budget
  imports Transition_System
begin

text \<open>
  The byte allowances of \<open>preview/memory.rs\<close>: a shared pool (\<open>ByteBudget\<close>, an
  \<open>Arc<Mutex<BudgetState>>\<close>) and the reservations drawn from it. The heap holds the
  pools by identity and the live reservations by identity; dropping a reservation removes
  it. Each operation takes the pool's lock once, so a concurrent execution is a sequence of
  these operations. A subtraction or addition that would overflow, and the \<open>expect\<close> of
  \<open>grow_exact\<close>, is a \<open>Panic\<close> result.
\<close>

record budget_state =
  limit :: nat
  used :: nat

record byte_reservation =
  budget :: nat
  bytes :: nat

record byte_limit =
  required :: nat
  available :: nat

record heap =
  pools :: "(nat, budget_state) hmap"
  reservations :: "(nat, byte_reservation) hmap"
  next_pool :: nat
  next_reservation :: nat

datatype budget_panic =
    UsedAboveLimit
  | UsedOverflow
  | UsedUnderflow
  | ReservationAboveLimit
  | Dangling

datatype budget_error =
    ZeroMemoryAllowance
  | ByteLimit byte_limit
  | DifferentPools
  | TransferOverflow
  | GrowByShrinking
  | Panic budget_panic

type_synonym ('z, 'a) budget_comp = "('z heap_scheme, budget_error, 'a) comp"

section \<open>Operations\<close>

definition lock_pool :: "nat \<Rightarrow> ('z, budget_state) budget_comp" where
  "lock_pool p = bindc (getc (\<lambda>h. map_of (pools h) p)) (lift_option (Panic Dangling))"

definition load_reservation :: "nat \<Rightarrow> ('z, byte_reservation) budget_comp" where
  "load_reservation r = bindc (getc (\<lambda>h. map_of (reservations h) r)) (lift_option (Panic Dangling))"

definition store_used :: "nat \<Rightarrow> nat \<Rightarrow> ('z, unit) budget_comp" where
  "store_used p n = modc (pools_update (hm_adjust p (used_update (\<lambda>_. n))))"

definition store_bytes :: "nat \<Rightarrow> nat \<Rightarrow> ('z, unit) budget_comp" where
  "store_bytes r n = modc (reservations_update (hm_adjust r (bytes_update (\<lambda>_. n))))"

definition new_reservation :: "nat \<Rightarrow> nat \<Rightarrow> ('z, nat) budget_comp" where
  "new_reservation p n =
     bindc (getc next_reservation) (\<lambda>r.
     bindc (modc (\<lambda>h. h\<lparr>reservations := hm_insert r \<lparr>budget = p, bytes = n\<rparr> (reservations h),
                         next_reservation := Suc r\<rparr>)) (\<lambda>_.
     ret r))"

definition budget_new :: "nat \<Rightarrow> ('z, nat) budget_comp" where
  "budget_new l =
     bindc (ensure (l > 0) ZeroMemoryAllowance) (\<lambda>_.
     bindc (getc next_pool) (\<lambda>p.
     bindc (modc (\<lambda>h. h\<lparr>pools := hm_insert p \<lparr>limit = l, used = 0\<rparr> (pools h), next_pool := Suc p\<rparr>)) (\<lambda>_.
     ret p)))"

definition budget_used :: "nat \<Rightarrow> ('z, nat) budget_comp" where
  "budget_used p = bindc (lock_pool p) (\<lambda>st. ret (used st))"

definition reserve_exact :: "nat \<Rightarrow> nat \<Rightarrow> ('z, nat) budget_comp" where
  "reserve_exact p n =
     bindc (lock_pool p) (\<lambda>st.
     bindc (lift_option (Panic UsedAboveLimit) (checked_sub (limit st) (used st))) (\<lambda>avail.
     if n > avail then fail (ByteLimit \<lparr>required = n, available = avail\<rparr>)
     else
       bindc (lift_option (Panic UsedOverflow) (checked_add (used st) n)) (\<lambda>u.
       bindc (store_used p u) (\<lambda>_.
       new_reservation p n))))"

definition try_reserve :: "nat \<Rightarrow> nat \<Rightarrow> ('z, nat option) budget_comp" where
  "try_reserve p n =
     catchc (reserve_exact p n) (\<lambda>r.
       case r of
         Inr i \<Rightarrow> ret (Some i)
       | Inl (Panic b) \<Rightarrow> fail (Panic b)
       | Inl _ \<Rightarrow> ret None)"

definition snapshot :: "nat \<Rightarrow> ('z, nat \<times> nat) budget_comp" where
  "snapshot p = bindc (lock_pool p) (\<lambda>st. ret (limit st, used st))"

definition same_pool :: "nat \<Rightarrow> nat \<Rightarrow> bool" where
  "same_pool p q \<longleftrightarrow> p = q"

definition reservation_bytes :: "nat \<Rightarrow> ('z, nat) budget_comp" where
  "reservation_bytes r = bindc (load_reservation r) (\<lambda>v. ret (bytes v))"

definition reservation_same_pool :: "nat \<Rightarrow> nat \<Rightarrow> ('z, bool) budget_comp" where
  "reservation_same_pool r p = bindc (load_reservation r) (\<lambda>v. ret (same_pool (budget v) p))"

text \<open>\<open>Drop\<close>: the bytes go back to the pool and the reservation is gone.\<close>

definition drop_reservation :: "nat \<Rightarrow> ('z, unit) budget_comp" where
  "drop_reservation r =
     bindc (load_reservation r) (\<lambda>v.
     bindc (lock_pool (budget v)) (\<lambda>st.
     bindc (lift_option (Panic UsedUnderflow) (checked_sub (used st) (bytes v))) (\<lambda>u.
     bindc (store_used (budget v) u) (\<lambda>_.
     modc (reservations_update (hm_remove r))))))"

definition split_exact :: "nat \<Rightarrow> nat \<Rightarrow> ('z, nat) budget_comp" where
  "split_exact r n =
     bindc (load_reservation r) (\<lambda>v.
     if n > bytes v then fail (ByteLimit \<lparr>required = n, available = bytes v\<rparr>)
     else
       bindc (store_bytes r (bytes v - n)) (\<lambda>_.
       new_reservation (budget v) n))"

text \<open>
  The argument is owned by the call: an early return drops it with its bytes, the last
  line drops it empty.
\<close>

definition merge_transferred :: "nat \<Rightarrow> nat \<Rightarrow> ('z, unit) budget_comp" where
  "merge_transferred r other =
     bindc (load_reservation r) (\<lambda>v.
     bindc (load_reservation other) (\<lambda>w.
     if budget v \<noteq> budget w
     then bindc (drop_reservation other) (\<lambda>_. fail DifferentPools)
     else
       case checked_add (bytes v) (bytes w) of
         None \<Rightarrow> bindc (drop_reservation other) (\<lambda>_. fail TransferOverflow)
       | Some transferred \<Rightarrow>
           bindc (store_bytes r transferred) (\<lambda>_.
           bindc (store_bytes other 0) (\<lambda>_.
           drop_reservation other))))"

definition grow_exact :: "nat \<Rightarrow> nat \<Rightarrow> ('z, unit) budget_comp" where
  "grow_exact r n =
     bindc (load_reservation r) (\<lambda>v.
     bindc (lock_pool (budget v)) (\<lambda>st.
     bindc (lift_option (Panic UsedAboveLimit) (checked_sub (limit st) (used st))) (\<lambda>avail.
     if n > avail then fail (ByteLimit \<lparr>required = n, available = avail\<rparr>)
     else
       bindc (lift_option (Panic ReservationAboveLimit) (checked_add (bytes v) n)) (\<lambda>retained.
       bindc (lift_option (Panic UsedOverflow) (checked_add (used st) n)) (\<lambda>u.
       bindc (store_used (budget v) u) (\<lambda>_.
       store_bytes r retained))))))"

definition shrink :: "nat \<Rightarrow> nat \<Rightarrow> ('z, unit) budget_comp" where
  "shrink r n =
     bindc (load_reservation r) (\<lambda>v.
     bindc (ensure (n \<le> bytes v) GrowByShrinking) (\<lambda>_.
     bindc (lock_pool (budget v)) (\<lambda>st.
     bindc (lift_option (Panic UsedUnderflow) (checked_sub (used st) (bytes v - n))) (\<lambda>u.
     bindc (store_used (budget v) u) (\<lambda>_.
     store_bytes r n)))))"

section \<open>Invariant\<close>

text \<open>What the live reservations of a pool add up to.\<close>

definition charge :: "nat \<Rightarrow> (nat, byte_reservation) hmap \<Rightarrow> nat" where
  "charge p rs = hm_total (\<lambda>v. if budget v = p then bytes v else 0) rs"

definition pool_ok :: "(nat, byte_reservation) hmap \<Rightarrow> nat \<Rightarrow> budget_state \<Rightarrow> bool" where
  "pool_ok rs p st \<longleftrightarrow> used st = charge p rs \<and> used st \<le> limit st \<and> limit st < u64_limit"

definition heap_inv :: "'z heap_scheme \<Rightarrow> bool" where
  "heap_inv h \<longleftrightarrow>
     hm_wf (pools h) \<and> hm_wf (reservations h) \<and>
     (\<forall>p \<in> hm_keys (pools h). p < next_pool h) \<and>
     (\<forall>r \<in> hm_keys (reservations h). r < next_reservation h) \<and>
     (\<forall>r v. map_of (reservations h) r = Some v \<longrightarrow> budget v \<in> hm_keys (pools h)) \<and>
     (\<forall>p st. map_of (pools h) p = Some st \<longrightarrow> pool_ok (reservations h) p st)"

lemma heap_invD:
  assumes "heap_inv h"
  shows "hm_wf (pools h)" "hm_wf (reservations h)"
    "p \<in> hm_keys (pools h) \<Longrightarrow> p < next_pool h"
    "r \<in> hm_keys (reservations h) \<Longrightarrow> r < next_reservation h"
    "map_of (reservations h) r = Some v \<Longrightarrow> budget v \<in> hm_keys (pools h)"
    "map_of (pools h) p = Some st \<Longrightarrow> used st = charge p (reservations h)"
    "map_of (pools h) p = Some st \<Longrightarrow> used st \<le> limit st"
    "map_of (pools h) p = Some st \<Longrightarrow> limit st < u64_limit"
  using assms unfolding heap_inv_def pool_ok_def by blast+

lemma fresh_reservation: "heap_inv h \<Longrightarrow> next_reservation h \<notin> hm_keys (reservations h)"
  by (auto simp: heap_inv_def)

lemma fresh_pool: "heap_inv h \<Longrightarrow> next_pool h \<notin> hm_keys (pools h)"
  by (auto simp: heap_inv_def)

text \<open>How the charge of each pool follows the three changes of the reservation table.\<close>

lemma charge_insert:
  "r \<notin> hm_keys rs \<Longrightarrow> charge q (hm_insert r \<lparr>budget = p, bytes = n\<rparr> rs) = charge q rs + (if p = q then n else 0)"
  by (simp add: charge_def hm_total_insert_fresh)

lemma charge_remove:
  "map_of rs r = Some v \<Longrightarrow> hm_wf rs \<Longrightarrow>
     charge q (hm_remove r rs) = charge q rs - (if budget v = q then bytes v else 0)"
  using hm_total_remove [of rs r v "\<lambda>v. if budget v = q then bytes v else 0"]
  by (simp add: charge_def)

lemma charge_adjust:
  "map_of rs r = Some v \<Longrightarrow> hm_wf rs \<Longrightarrow>
     charge q (hm_adjust r (bytes_update (\<lambda>_. n)) rs)
       = charge q rs + (if budget v = q then n else 0) - (if budget v = q then bytes v else 0)"
  using hm_total_adjust [of rs r v "\<lambda>v. if budget v = q then bytes v else 0" "bytes_update (\<lambda>_. n)"]
  by (cases "budget v = q") (simp_all add: charge_def)

lemma charge_ge: "map_of rs r = Some v \<Longrightarrow> bytes v \<le> charge (budget v) rs"
  using hm_total_ge [of rs r v "\<lambda>w. if budget w = budget v then bytes w else 0"]
  by (simp add: charge_def)

lemma charge_two_ge:
  assumes "map_of rs r = Some v" "map_of rs s = Some w" "r \<noteq> s" "budget v = budget w" "hm_wf rs"
  shows "bytes v + bytes w \<le> charge (budget v) rs"
proof -
  have "map_of (hm_remove r rs) s = Some w" using assms by (simp add: hm_simps)
  from charge_ge [OF this] charge_remove [OF assms(1,5), of "budget v"] charge_ge [OF assms(1)] assms(4)
  show ?thesis by simp
qed

text \<open>
  One change of a pool's \<open>used\<close> count together with one change of the reservation table:
  the invariant is kept when the charge of that pool moves to the new count and no other
  charge moves.
\<close>

definition recharged ::
  "nat \<Rightarrow> nat \<Rightarrow> (nat, byte_reservation) hmap \<Rightarrow> nat \<Rightarrow> 'z heap_scheme \<Rightarrow> 'z heap_scheme" where
  "recharged p n rs k h =
     h\<lparr>pools := hm_adjust p (used_update (\<lambda>_. n)) (pools h), reservations := rs, next_reservation := k\<rparr>"

lemma recharged_simps [simp]:
  "map_of (pools (recharged p n rs k h)) q
     = (if q = p then map_option (used_update (\<lambda>_. n)) (map_of (pools h) q) else map_of (pools h) q)"
  "hm_keys (pools (recharged p n rs k h)) = hm_keys (pools h)"
  "reservations (recharged p n rs k h) = rs"
  "next_reservation (recharged p n rs k h) = k"
  "next_pool (recharged p n rs k h) = next_pool h"
  "heap.more (recharged p n rs k h) = heap.more h"
  by (simp_all add: recharged_def hm_simps)

lemma heap_inv_recharged:
  assumes inv: "heap_inv h" and p: "map_of (pools h) p = Some st"
    and n: "n \<le> limit st" "charge p rs = n"
    and other: "\<And>q. q \<noteq> p \<Longrightarrow> charge q rs = charge q (reservations h)"
    and rs: "hm_wf rs" "\<And>r. r \<in> hm_keys rs \<Longrightarrow> r < k"
      "\<And>r v. map_of rs r = Some v \<Longrightarrow> budget v \<in> hm_keys (pools h)"
  shows "heap_inv (recharged p n rs k h)"
proof -
  have "pool_ok rs q st'" if q: "map_of (pools (recharged p n rs k h)) q = Some st'" for q st'
  proof (cases "q = p")
    case True
    with q p have "st' = st\<lparr>used := n\<rparr>" by simp
    with True n heap_invD(8) [OF inv p] show ?thesis by (simp add: pool_ok_def)
  next
    case False
    with q have "map_of (pools h) q = Some st'" by simp
    from heap_invD(6-8) [OF inv this] other [OF False] show ?thesis by (simp add: pool_ok_def)
  qed
  moreover have "hm_wf (pools (recharged p n rs k h))"
    using heap_invD(1) [OF inv] by (simp add: recharged_def hm_simps)
  ultimately show ?thesis
    using rs heap_invD(3) [OF inv] by (simp add: heap_inv_def del: recharged_simps(1))
qed

lemma adjust_used_id:
  "map_of ps p = Some st \<Longrightarrow> hm_wf ps \<Longrightarrow> hm_adjust p (used_update (\<lambda>_. used st)) ps = ps"
  by (erule (1) hm_split_key) (simp add: hm_adjust_split)

section \<open>What each operation does\<close>

text \<open>
  Under the invariant, and for handles that exist, each operation has one outcome per
  branch of the source and none of the panics.
\<close>

lemma reserve_exact_eq:
  assumes "heap_inv h" "map_of (pools h) p = Some st"
  shows "reserve_exact p n h =
    (if n \<le> limit st - used st
     then (Inr (next_reservation h),
           recharged p (used st + n)
             (hm_insert (next_reservation h) \<lparr>budget = p, bytes = n\<rparr> (reservations h))
             (Suc (next_reservation h)) h)
     else (Inl (ByteLimit \<lparr>required = n, available = limit st - used st\<rparr>), h))"
proof -
  from heap_invD(7,8) [OF assms] have "n \<le> limit st - used st \<Longrightarrow> checked_add (used st) n = Some (used st + n)"
    by (simp add: checked_add_def)
  with heap_invD(7) [OF assms] assms(2) show ?thesis
    by (simp add: reserve_exact_def lock_pool_def bindc_assoc store_used_def new_reservation_def recharged_def)
qed

lemma reserve_exact_inv:
  assumes "heap_inv h" "map_of (pools h) p = Some st" "n \<le> limit st - used st"
  shows "heap_inv (recharged p (used st + n)
             (hm_insert (next_reservation h) \<lparr>budget = p, bytes = n\<rparr> (reservations h))
             (Suc (next_reservation h)) h)"
proof (rule heap_inv_recharged [OF assms(1,2)])
  note fresh = fresh_reservation [OF assms(1)]
  show "used st + n \<le> limit st" using assms heap_invD(7) [OF assms(1,2)] by simp
  show "charge p (hm_insert (next_reservation h) \<lparr>budget = p, bytes = n\<rparr> (reservations h)) = used st + n"
    using heap_invD(6) [OF assms(1,2)] by (simp add: charge_insert [OF fresh])
  show "charge q (hm_insert (next_reservation h) \<lparr>budget = p, bytes = n\<rparr> (reservations h))
      = charge q (reservations h)" if "q \<noteq> p" for q
    using that by (simp add: charge_insert [OF fresh])
  show "hm_wf (hm_insert (next_reservation h) \<lparr>budget = p, bytes = n\<rparr> (reservations h))"
    using heap_invD(2) [OF assms(1)] by (rule hm_wf_insert)
  show "r < Suc (next_reservation h)"
    if "r \<in> hm_keys (hm_insert (next_reservation h) \<lparr>budget = p, bytes = n\<rparr> (reservations h))" for r
    using that heap_invD(4) [OF assms(1), of r] by (auto simp: hm_simps)
  show "budget v \<in> hm_keys (pools h)"
    if "map_of (hm_insert (next_reservation h) \<lparr>budget = p, bytes = n\<rparr> (reservations h)) r = Some v" for r v
    using that assms(2) heap_invD(5) [OF assms(1), of r v]
    by (auto simp: hm_simps hm_keys_Some split: if_splits)
qed

lemma reservation_pool:
  assumes "heap_inv h" "map_of (reservations h) r = Some v"
  obtains st where "map_of (pools h) (budget v) = Some st" "bytes v \<le> used st" "used st \<le> limit st"
proof -
  from heap_invD(5) [OF assms] obtain st where st: "map_of (pools h) (budget v) = Some st"
    by (auto simp: hm_keys_iff)
  with charge_ge [OF assms(2)] heap_invD(6,7) [OF assms(1) st] show ?thesis by (intro that [OF st]) simp_all
qed

lemma drop_reservation_eq:
  assumes "heap_inv h" "map_of (reservations h) r = Some v" "map_of (pools h) (budget v) = Some st"
  shows "drop_reservation r h =
    (Inr (), recharged (budget v) (used st - bytes v) (hm_remove r (reservations h)) (next_reservation h) h)"
proof -
  have "bytes v \<le> used st"
    using assms by (auto elim: reservation_pool)
  with assms(2,3) show ?thesis
    by (simp add: drop_reservation_def load_reservation_def lock_pool_def bindc_assoc store_used_def recharged_def)
qed

lemma drop_reservation_inv:
  assumes "heap_inv h" "map_of (reservations h) r = Some v" "map_of (pools h) (budget v) = Some st"
  shows "heap_inv (recharged (budget v) (used st - bytes v) (hm_remove r (reservations h)) (next_reservation h) h)"
proof (rule heap_inv_recharged [OF assms(1,3)])
  note wf = heap_invD(2) [OF assms(1)]
  show "used st - bytes v \<le> limit st" using heap_invD(7) [OF assms(1,3)] by simp
  show "charge (budget v) (hm_remove r (reservations h)) = used st - bytes v"
    using heap_invD(6) [OF assms(1,3)] by (simp add: charge_remove [OF assms(2) wf])
  show "charge q (hm_remove r (reservations h)) = charge q (reservations h)" if "q \<noteq> budget v" for q
    using that by (simp add: charge_remove [OF assms(2) wf])
  show "hm_wf (hm_remove r (reservations h))" using wf by (rule hm_wf_remove)
  show "i < next_reservation h" if "i \<in> hm_keys (hm_remove r (reservations h))" for i
    using that heap_invD(4) [OF assms(1), of i] by (simp add: hm_simps)
  show "budget w \<in> hm_keys (pools h)" if "map_of (hm_remove r (reservations h)) i = Some w" for i w
    using that heap_invD(5) [OF assms(1), of i w] by (simp add: hm_simps split: if_splits)
qed

text \<open>Growing and shrinking: the reservation and the pool's count move by the same amount.\<close>

lemma resize_inv:
  assumes "heap_inv h" "map_of (reservations h) r = Some v" "map_of (pools h) (budget v) = Some st"
    and n: "used st + n - bytes v \<le> limit st"
  shows "heap_inv (recharged (budget v) (used st + n - bytes v)
           (hm_adjust r (bytes_update (\<lambda>_. n)) (reservations h)) (next_reservation h) h)"
proof (rule heap_inv_recharged [OF assms(1,3)])
  note wf = heap_invD(2) [OF assms(1)]
  show "used st + n - bytes v \<le> limit st" by (rule n)
  show "charge (budget v) (hm_adjust r (bytes_update (\<lambda>_. n)) (reservations h)) = used st + n - bytes v"
    using heap_invD(6) [OF assms(1,3)] by (simp add: charge_adjust [OF assms(2) wf])
  show "charge q (hm_adjust r (bytes_update (\<lambda>_. n)) (reservations h)) = charge q (reservations h)"
    if "q \<noteq> budget v" for q
    using that by (simp add: charge_adjust [OF assms(2) wf])
  show "hm_wf (hm_adjust r (bytes_update (\<lambda>_. n)) (reservations h))" using wf by (simp add: hm_simps)
  show "i < next_reservation h" if "i \<in> hm_keys (hm_adjust r (bytes_update (\<lambda>_. n)) (reservations h))" for i
    using that heap_invD(4) [OF assms(1), of i] by (simp add: hm_simps)
  show "budget w \<in> hm_keys (pools h)"
    if "map_of (hm_adjust r (bytes_update (\<lambda>_. n)) (reservations h)) i = Some w" for i w
    using that heap_invD(5) [OF assms(1), of i] by (auto simp: hm_simps split: if_splits)
qed

lemma grow_exact_eq:
  assumes "heap_inv h" "map_of (reservations h) r = Some v" "map_of (pools h) (budget v) = Some st"
  shows "grow_exact r n h =
    (if n \<le> limit st - used st
     then (Inr (), recharged (budget v) (used st + (bytes v + n) - bytes v)
             (hm_adjust r (bytes_update (\<lambda>_. bytes v + n)) (reservations h)) (next_reservation h) h)
     else (Inl (ByteLimit \<lparr>required = n, available = limit st - used st\<rparr>), h))"
proof -
  obtain "bytes v \<le> used st" "used st \<le> limit st" "limit st < u64_limit"
    using assms heap_invD(8) [OF assms(1,3)] by (auto elim: reservation_pool)
  then have "n \<le> limit st - used st \<Longrightarrow> checked_add (used st) n = Some (used st + n)"
    "n \<le> limit st - used st \<Longrightarrow> checked_add (bytes v) n = Some (bytes v + n)"
    by (simp_all add: checked_add_def)
  with assms(2,3) \<open>used st \<le> limit st\<close> show ?thesis
    by (simp add: grow_exact_def load_reservation_def lock_pool_def bindc_assoc store_used_def
        store_bytes_def recharged_def)
qed

lemma shrink_eq:
  assumes "heap_inv h" "map_of (reservations h) r = Some v" "map_of (pools h) (budget v) = Some st"
  shows "shrink r n h =
    (if n \<le> bytes v
     then (Inr (), recharged (budget v) (used st + n - bytes v)
             (hm_adjust r (bytes_update (\<lambda>_. n)) (reservations h)) (next_reservation h) h)
     else (Inl GrowByShrinking, h))"
proof -
  obtain "bytes v \<le> used st" using assms by (auto elim: reservation_pool)
  then have "n \<le> bytes v \<Longrightarrow> checked_sub (used st) (bytes v - n) = Some (used st + n - bytes v)"
    by (simp add: checked_sub_def)
  with assms(2,3) show ?thesis
    by (simp add: shrink_def load_reservation_def lock_pool_def bindc_assoc store_used_def
        store_bytes_def recharged_def)
qed

lemma split_exact_eq:
  assumes "heap_inv h" "map_of (reservations h) r = Some v" "map_of (pools h) (budget v) = Some st"
  shows "split_exact r n h =
    (if n \<le> bytes v
     then (Inr (next_reservation h),
           recharged (budget v) (used st)
             (hm_insert (next_reservation h) \<lparr>budget = budget v, bytes = n\<rparr>
                (hm_adjust r (bytes_update (\<lambda>_. bytes v - n)) (reservations h)))
             (Suc (next_reservation h)) h)
     else (Inl (ByteLimit \<lparr>required = n, available = bytes v\<rparr>), h))"
  using assms(2) adjust_used_id [OF assms(3) heap_invD(1) [OF assms(1)]]
  by (simp add: split_exact_def load_reservation_def bindc_assoc store_bytes_def new_reservation_def
      recharged_def)

lemma split_exact_inv:
  assumes "heap_inv h" "map_of (reservations h) r = Some v" "map_of (pools h) (budget v) = Some st"
    and n: "n \<le> bytes v"
  defines "rs \<equiv> hm_insert (next_reservation h) \<lparr>budget = budget v, bytes = n\<rparr>
                (hm_adjust r (bytes_update (\<lambda>_. bytes v - n)) (reservations h))"
  shows "heap_inv (recharged (budget v) (used st) rs (Suc (next_reservation h)) h)"
proof (rule heap_inv_recharged [OF assms(1,3)])
  note wf = heap_invD(2) [OF assms(1)]
  have charge: "charge q rs = charge q (reservations h)" for q
    using fresh_reservation [OF assms(1)] n charge_ge [OF assms(2)]
    by (auto simp: rs_def charge_insert charge_adjust [OF assms(2) wf] hm_simps)
  show "used st \<le> limit st" using heap_invD(7) [OF assms(1,3)] .
  show "charge (budget v) rs = used st"
    using heap_invD(6) [OF assms(1,3)] by (simp add: charge)
  show "charge q rs = charge q (reservations h)" for q by (rule charge)
  show "hm_wf rs" using wf by (simp add: rs_def hm_simps)
  show "i < Suc (next_reservation h)" if "i \<in> hm_keys rs" for i
    using that heap_invD(4) [OF assms(1), of i] by (auto simp: rs_def hm_simps)
  show "budget w \<in> hm_keys (pools h)" if "map_of rs i = Some w" for i w
    using that heap_invD(5) [OF assms(1), of i] assms(3)
    by (auto simp: rs_def hm_simps hm_keys_Some split: if_splits)
qed

lemma drop_empty_reservation:
  assumes "map_of (reservations h) r = Some v" "map_of (pools h) (budget v) = Some st" "bytes v = 0"
  shows "drop_reservation r h =
    (Inr (), recharged (budget v) (used st) (hm_remove r (reservations h)) (next_reservation h) h)"
  using assms
  by (simp add: drop_reservation_def load_reservation_def lock_pool_def bindc_assoc store_used_def recharged_def)

lemma merge_transferred_eq:
  assumes "heap_inv h" "map_of (reservations h) r = Some v" "map_of (reservations h) i = Some w" "r \<noteq> i"
    and st: "map_of (pools h) (budget w) = Some st"
  shows "merge_transferred r i h =
    (if budget v = budget w
     then (Inr (), recharged (budget w) (used st)
             (hm_adjust r (bytes_update (\<lambda>_. bytes v + bytes w)) (hm_remove i (reservations h)))
             (next_reservation h) h)
     else (Inl DifferentPools,
           recharged (budget w) (used st - bytes w) (hm_remove i (reservations h)) (next_reservation h) h))"
proof (cases "budget v = budget w")
  case False
  with assms show ?thesis
    by (simp add: merge_transferred_def load_reservation_def bindc_assoc
        bindc_Inr [where m = "drop_reservation i", OF drop_reservation_eq [OF assms(1,3) st]])
next
  case True
  have "bytes v + bytes w \<le> charge (budget v) (reservations h)"
    using assms(2-4) True heap_invD(2) [OF assms(1)] by (rule charge_two_ge)
  with heap_invD(6-8) [OF assms(1) st] True have sum: "bytes v + bytes w < u64_limit" by simp
  let ?h = "reservations_update (hm_adjust i (bytes_update (\<lambda>_. 0))
               \<circ> hm_adjust r (bytes_update (\<lambda>_. bytes v + bytes w))) h"
  have "drop_reservation i ?h = (Inr (), recharged (budget w) (used st)
             (hm_adjust r (bytes_update (\<lambda>_. bytes v + bytes w)) (hm_remove i (reservations h)))
             (next_reservation h) h)"
    using assms(3,4) st
    by (subst drop_empty_reservation [where v = "w\<lparr>bytes := 0\<rparr>" and st = st])
       (auto simp: hm_simps hm_remove_adjust hm_remove_adjust_other recharged_def)
  with assms(2,3) True sum show ?thesis
    by (simp add: merge_transferred_def load_reservation_def bindc_assoc store_bytes_def
        checked_add_def)
qed

lemma merge_transferred_inv:
  assumes "heap_inv h" "map_of (reservations h) r = Some v" "map_of (reservations h) i = Some w" "r \<noteq> i"
    and st: "map_of (pools h) (budget w) = Some st" and eq: "budget v = budget w"
  defines "rs \<equiv> hm_adjust r (bytes_update (\<lambda>_. bytes v + bytes w)) (hm_remove i (reservations h))"
  shows "heap_inv (recharged (budget w) (used st) rs (next_reservation h) h)"
proof (rule heap_inv_recharged [OF assms(1) st])
  note wf = heap_invD(2) [OF assms(1)]
  have r: "map_of (hm_remove i (reservations h)) r = Some v" using assms(2,4) by (simp add: hm_simps)
  have charge: "charge q rs = charge q (reservations h)" for q
    using eq charge_two_ge [OF assms(2,3,4) eq wf]
    by (auto simp: rs_def charge_adjust [OF r hm_wf_remove [OF wf]] charge_remove [OF assms(3) wf])
  show "used st \<le> limit st" using heap_invD(7) [OF assms(1) st] .
  show "charge (budget w) rs = used st"
    using heap_invD(6) [OF assms(1) st] by (simp add: charge)
  show "charge q rs = charge q (reservations h)" for q by (rule charge)
  show "hm_wf rs" using wf by (simp add: rs_def hm_simps)
  show "j < next_reservation h" if "j \<in> hm_keys rs" for j
    using that heap_invD(4) [OF assms(1), of j] by (auto simp: rs_def hm_simps)
  show "budget u \<in> hm_keys (pools h)" if "map_of rs j = Some u" for j u
    using that heap_invD(5) [OF assms(1), of j] by (auto simp: rs_def hm_simps split: if_splits)
qed

lemma budget_new_inv:
  assumes "heap_inv h" "0 < l" "l < u64_limit"
  shows "heap_inv (h\<lparr>pools := hm_insert (next_pool h) \<lparr>limit = l, used = 0\<rparr> (pools h), next_pool := Suc (next_pool h)\<rparr>)"
proof -
  let ?p = "next_pool h"
  have "charge ?p (reservations h) = 0"
  proof -
    have "budget v \<noteq> ?p" if "(r, v) \<in> set (reservations h)" for r v
      using that heap_invD(2,5) [OF assms(1)] fresh_pool [OF assms(1)] by (metis hm_mem_iff)
    then show ?thesis by (force simp: charge_def hm_total_def)
  qed
  with assms(3) have "pool_ok (reservations h) ?p \<lparr>limit = l, used = 0\<rparr>" by (simp add: pool_ok_def)
  with assms(1) show ?thesis
    by (auto simp: heap_inv_def hm_simps less_Suc_eq split: if_splits)
qed

end
