(* ===== verification/Budget_Refinement.thy ===== *)
theory Budget_Refinement
  imports Byte_Budget "HOL-Library.Multiset"
begin

text \<open>
  The abstract account of a byte pool: a multiset of grants under a capacity. Every
  operation on the heap is, for each pool, a step of that account or leaves it alone; what
  the account promises therefore holds of the pools the program shares.
\<close>

section \<open>The account\<close>

inductive ledger_step :: "nat \<Rightarrow> nat multiset \<Rightarrow> nat multiset \<Rightarrow> bool" for capacity :: nat where
  grant: "sum_mset M + n \<le> capacity \<Longrightarrow> ledger_step capacity M (add_mset n M)"
| release: "ledger_step capacity (add_mset n M) M"
| divide: "n \<le> a \<Longrightarrow> ledger_step capacity (add_mset a M) (add_mset n (add_mset (a - n) M))"
| join: "ledger_step capacity (add_mset a (add_mset b M)) (add_mset (a + b) M)"
| enlarge: "sum_mset (add_mset a M) + n \<le> capacity \<Longrightarrow> ledger_step capacity (add_mset a M) (add_mset (a + n) M)"
| reduce: "n \<le> a \<Longrightarrow> ledger_step capacity (add_mset a M) (add_mset n M)"

lemma ledger_step_within: "ledger_step c M N \<Longrightarrow> sum_mset M \<le> c \<Longrightarrow> sum_mset N \<le> c"
  by (induction rule: ledger_step.induct) auto

section \<open>The grants of a pool\<close>

definition grants :: "nat \<Rightarrow> (nat, byte_reservation) hmap \<Rightarrow> nat multiset" where
  "grants p rs = image_mset (\<lambda>e. bytes (snd e)) (filter_mset (\<lambda>e. budget (snd e) = p) (mset rs))"

lemma sum_grants: "sum_mset (grants p rs) = charge p rs"
  by (induction rs) (auto simp: grants_def charge_def hm_total_def)

lemma grants_insert:
  "r \<notin> hm_keys rs \<Longrightarrow>
     grants q (hm_insert r \<lparr>budget = p, bytes = n\<rparr> rs) = (if p = q then add_mset n (grants q rs) else grants q rs)"
  by (simp add: grants_def hm_insert_fresh)

lemma grants_split:
  assumes "map_of rs r = Some v" "hm_wf rs"
  shows "grants q rs = (if budget v = q then add_mset (bytes v) (grants q (hm_remove r rs))
                        else grants q (hm_remove r rs))"
  using assms by (rule hm_split_key) (simp add: grants_def)

lemma grants_adjust:
  assumes "map_of rs r = Some v" "hm_wf rs"
  shows "grants q (hm_adjust r (bytes_update (\<lambda>_. n)) rs)
       = (if budget v = q then add_mset n (grants q (hm_remove r rs)) else grants q (hm_remove r rs))"
  using assms by (rule hm_split_key) (simp add: grants_def hm_adjust_split)

section \<open>Steps of the heap\<close>

text \<open>
  A call through handles its caller owns, with arguments of type \<open>u64\<close>; the label is the
  error of the call, if it failed.
\<close>

definition error_of :: "'e + 'a \<Rightarrow> 'e option" where
  "error_of r = (case r of Inl e \<Rightarrow> Some e | Inr _ \<Rightarrow> None)"

lemma error_of_simps [simp]: "error_of (Inl e) = Some e" "error_of (Inr x) = None"
  by (simp_all add: error_of_def)

inductive budget_call :: "'z heap_scheme \<Rightarrow> budget_error option \<Rightarrow> 'z heap_scheme \<Rightarrow> bool" where
  call_new: "n < u64_limit \<Longrightarrow> budget_new n h = (r, t) \<Longrightarrow> budget_call h (error_of r) t"
| call_reserve: "p \<in> hm_keys (pools h) \<Longrightarrow> n < u64_limit \<Longrightarrow> reserve_exact p n h = (r, t) \<Longrightarrow>
    budget_call h (error_of r) t"
| call_drop: "i \<in> hm_keys (reservations h) \<Longrightarrow> drop_reservation i h = (d, t) \<Longrightarrow> budget_call h (error_of d) t"
| call_split: "i \<in> hm_keys (reservations h) \<Longrightarrow> n < u64_limit \<Longrightarrow> split_exact i n h = (r, t) \<Longrightarrow>
    budget_call h (error_of r) t"
| call_merge: "i \<in> hm_keys (reservations h) \<Longrightarrow> j \<in> hm_keys (reservations h) \<Longrightarrow> i \<noteq> j \<Longrightarrow>
    merge_transferred i j h = (d, t) \<Longrightarrow> budget_call h (error_of d) t"
| call_grow: "i \<in> hm_keys (reservations h) \<Longrightarrow> n < u64_limit \<Longrightarrow> grow_exact i n h = (d, t) \<Longrightarrow>
    budget_call h (error_of d) t"
| call_shrink: "i \<in> hm_keys (reservations h) \<Longrightarrow> n < u64_limit \<Longrightarrow> shrink i n h = (d, t) \<Longrightarrow>
    budget_call h (error_of d) t"

definition is_panic :: "budget_error option \<Rightarrow> bool" where
  "is_panic e = (case e of Some (Panic _) \<Rightarrow> True | _ \<Rightarrow> False)"

lemma is_panic_simps [simp]:
  "\<not> is_panic None" "is_panic (Some (Panic b))" "\<not> is_panic (Some ZeroMemoryAllowance)"
  "\<not> is_panic (Some (ByteLimit l))" "\<not> is_panic (Some DifferentPools)" "\<not> is_panic (Some GrowByShrinking)"
  by (simp_all add: is_panic_def)

text \<open>
  What a call keeps: the invariant, every pool with its limit, and, for each pool, the
  account.
\<close>

definition accounts_step :: "'z heap_scheme \<Rightarrow> 'z heap_scheme \<Rightarrow> bool" where
  "accounts_step h t \<longleftrightarrow>
     (\<forall>p st. map_of (pools h) p = Some st \<longrightarrow>
        (\<exists>st'. map_of (pools t) p = Some st' \<and> limit st' = limit st) \<and>
        (ledger_step (limit st) (grants p (reservations h)) (grants p (reservations t)) \<or>
         grants p (reservations t) = grants p (reservations h)))"

definition good_call :: "'z heap_scheme \<Rightarrow> budget_error option \<Rightarrow> 'z heap_scheme \<Rightarrow> bool" where
  "good_call h e t \<longleftrightarrow> heap_inv t \<and> \<not> is_panic e \<and> accounts_step h t"

lemma accounts_refl [simp]: "accounts_step h h"
  by (simp add: accounts_step_def)

lemma good_refl: "heap_inv h \<Longrightarrow> \<not> is_panic e \<Longrightarrow> good_call h e h"
  by (simp add: good_call_def)

text \<open>A change confined to one pool is an account step when it is one for that pool.\<close>

lemma accounts_recharged:
  assumes "map_of (pools h) p = Some st"
    and "ledger_step (limit st) (grants p (reservations h)) (grants p rs) \<or> grants p rs = grants p (reservations h)"
    and "\<And>q. q \<noteq> p \<Longrightarrow> grants q rs = grants q (reservations h)"
  shows "accounts_step h (recharged p n rs k h)"
  using assms by (auto simp: accounts_step_def)

lemma good_reserve:
  assumes "heap_inv h" "p \<in> hm_keys (pools h)" "reserve_exact p n h = (r, t)"
  shows "good_call h (error_of r) t"
proof -
  from assms(2) obtain st where st: "map_of (pools h) p = Some st" by (auto simp: hm_keys_iff)
  show ?thesis
  proof (cases "n \<le> limit st - used st")
    case True
    have "ledger_step (limit st) (grants p (reservations h)) (add_mset n (grants p (reservations h)))"
      using True heap_invD(6,7) [OF assms(1) st] by (intro ledger_step.grant) (simp add: sum_grants)
    with True assms(3) reserve_exact_inv [OF assms(1) st True] show ?thesis
      by (auto simp: reserve_exact_eq [OF assms(1) st] good_call_def
          grants_insert [OF fresh_reservation [OF assms(1)]] intro!: accounts_recharged [OF st])
  next
    case False
    with assms(1,3) show ?thesis by (auto simp: reserve_exact_eq [OF assms(1) st] intro: good_refl)
  qed
qed

lemma good_drop:
  assumes "heap_inv h" "i \<in> hm_keys (reservations h)" "drop_reservation i h = (d, t)"
  shows "good_call h (error_of d) t"
proof -
  from assms(2) obtain v where v: "map_of (reservations h) i = Some v" by (auto simp: hm_keys_iff)
  obtain st where st: "map_of (pools h) (budget v) = Some st" using reservation_pool [OF assms(1) v] .
  show ?thesis
    using assms(3) drop_reservation_inv [OF assms(1) v st] grants_split [OF v heap_invD(2) [OF assms(1)]]
    by (auto simp: drop_reservation_eq [OF assms(1) v st] good_call_def
        intro!: accounts_recharged [OF st] ledger_step.release)
qed

lemma good_split:
  assumes "heap_inv h" "i \<in> hm_keys (reservations h)" "split_exact i n h = (r, t)"
  shows "good_call h (error_of r) t"
proof -
  from assms(2) obtain v where v: "map_of (reservations h) i = Some v" by (auto simp: hm_keys_iff)
  obtain st where st: "map_of (pools h) (budget v) = Some st" using reservation_pool [OF assms(1) v] .
  note wf = heap_invD(2) [OF assms(1)]
  show ?thesis
  proof (cases "n \<le> bytes v")
    case True
    let ?rs = "hm_insert (next_reservation h) \<lparr>budget = budget v, bytes = n\<rparr>
                (hm_adjust i (bytes_update (\<lambda>_. bytes v - n)) (reservations h))"
    have fresh: "next_reservation h \<notin> hm_keys (hm_adjust i (bytes_update (\<lambda>_. bytes v - n)) (reservations h))"
      using fresh_reservation [OF assms(1)] by (simp add: hm_simps)
    have "accounts_step h (recharged (budget v) (used st) ?rs (Suc (next_reservation h)) h)"
      using True
      by (intro accounts_recharged [OF st])
         (auto simp: grants_insert [OF fresh] grants_adjust [OF v wf] grants_split [OF v wf]
           intro!: ledger_step.divide)
    with True assms(3) split_exact_inv [OF assms(1) v st True] show ?thesis
      by (auto simp: split_exact_eq [OF assms(1) v st] good_call_def)
  next
    case False
    with assms(1,3) show ?thesis by (auto simp: split_exact_eq [OF assms(1) v st] intro: good_refl)
  qed
qed

lemma good_grow:
  assumes "heap_inv h" "i \<in> hm_keys (reservations h)" "grow_exact i n h = (d, t)"
  shows "good_call h (error_of d) t"
proof -
  from assms(2) obtain v where v: "map_of (reservations h) i = Some v" by (auto simp: hm_keys_iff)
  obtain st where st: "map_of (pools h) (budget v) = Some st" using reservation_pool [OF assms(1) v] .
  note wf = heap_invD(2) [OF assms(1)]
  show ?thesis
  proof (cases "n \<le> limit st - used st")
    case True
    have room: "used st + (bytes v + n) - bytes v \<le> limit st" using True heap_invD(7) [OF assms(1) st] by simp
    have "sum_mset (add_mset (bytes v) (grants (budget v) (hm_remove i (reservations h)))) + n \<le> limit st"
      using room heap_invD(6) [OF assms(1) st] sum_grants [of "budget v" "reservations h"]
        grants_split [OF v wf, of "budget v"] by simp
    then have "accounts_step h (recharged (budget v) (used st + (bytes v + n) - bytes v)
        (hm_adjust i (bytes_update (\<lambda>_. bytes v + n)) (reservations h)) (next_reservation h) h)"
      by (intro accounts_recharged [OF st])
         (auto simp: grants_adjust [OF v wf] grants_split [OF v wf] intro!: ledger_step.enlarge)
    with True assms(3) resize_inv [OF assms(1) v st room] show ?thesis
      by (auto simp: grow_exact_eq [OF assms(1) v st] good_call_def)
  next
    case False
    with assms(1,3) show ?thesis by (auto simp: grow_exact_eq [OF assms(1) v st] intro: good_refl)
  qed
qed

lemma good_shrink:
  assumes "heap_inv h" "i \<in> hm_keys (reservations h)" "shrink i n h = (d, t)"
  shows "good_call h (error_of d) t"
proof -
  from assms(2) obtain v where v: "map_of (reservations h) i = Some v" by (auto simp: hm_keys_iff)
  obtain st where st: "map_of (pools h) (budget v) = Some st" using reservation_pool [OF assms(1) v] .
  note wf = heap_invD(2) [OF assms(1)]
  show ?thesis
  proof (cases "n \<le> bytes v")
    case True
    have room: "used st + n - bytes v \<le> limit st" using True heap_invD(7) [OF assms(1) st] by simp
    have "accounts_step h (recharged (budget v) (used st + n - bytes v)
        (hm_adjust i (bytes_update (\<lambda>_. n)) (reservations h)) (next_reservation h) h)"
      using True by (intro accounts_recharged [OF st])
         (auto simp: grants_adjust [OF v wf] grants_split [OF v wf] intro!: ledger_step.reduce)
    with True assms(3) resize_inv [OF assms(1) v st room] show ?thesis
      by (auto simp: shrink_eq [OF assms(1) v st] good_call_def)
  next
    case False
    with assms(1,3) show ?thesis by (auto simp: shrink_eq [OF assms(1) v st] intro: good_refl)
  qed
qed

lemma good_merge:
  assumes "heap_inv h" "i \<in> hm_keys (reservations h)" "j \<in> hm_keys (reservations h)" "i \<noteq> j"
    and "merge_transferred i j h = (d, t)"
  shows "good_call h (error_of d) t"
proof -
  from assms(2,3) obtain v w where v: "map_of (reservations h) i = Some v"
    and w: "map_of (reservations h) j = Some w" by (auto simp: hm_keys_iff)
  obtain st where st: "map_of (pools h) (budget w) = Some st" using reservation_pool [OF assms(1) w] .
  note wf = heap_invD(2) [OF assms(1)]
  show ?thesis
  proof (cases "budget v = budget w")
    case True
    let ?rs = "hm_adjust i (bytes_update (\<lambda>_. bytes v + bytes w)) (hm_remove j (reservations h))"
    have v': "map_of (hm_remove j (reservations h)) i = Some v" using v assms(4) by (simp add: hm_simps)
    note g = grants_split [OF w wf] grants_split [OF v' hm_wf_remove [OF wf]]
      grants_adjust [OF v' hm_wf_remove [OF wf]]
    have "ledger_step (limit st) (add_mset (bytes v) (add_mset (bytes w) M)) (add_mset (bytes v + bytes w) M)" for M
      by (rule ledger_step.join)
    then have "accounts_step h (recharged (budget w) (used st) ?rs (next_reservation h) h)"
      using True by (intro accounts_recharged [OF st]) (auto simp: g add_mset_commute)
    with True assms(5) merge_transferred_inv [OF assms(1) v w assms(4) st True] show ?thesis
      by (auto simp: merge_transferred_eq [OF assms(1) v w assms(4) st] good_call_def)
  next
    case False
    with assms(5) drop_reservation_inv [OF assms(1) w st] grants_split [OF w wf] show ?thesis
      by (auto simp: merge_transferred_eq [OF assms(1) v w assms(4) st] good_call_def
          intro!: accounts_recharged [OF st] ledger_step.release)
  qed
qed

lemma good_new:
  assumes "heap_inv h" "n < u64_limit" "budget_new n h = (r, t)"
  shows "good_call h (error_of r) t"
proof (cases "n = 0")
  case False
  with assms(3) have t: "r = Inr (next_pool h)"
    "t = h\<lparr>pools := hm_insert (next_pool h) \<lparr>limit = n, used = 0\<rparr> (pools h), next_pool := Suc (next_pool h)\<rparr>"
    by (simp_all add: budget_new_def)
  have "p \<noteq> next_pool h" if "map_of (pools h) p = Some st" for p st
    using that fresh_pool [OF assms(1)] by (auto dest: hm_keys_Some)
  with t(2) have "accounts_step h t" by (auto simp: accounts_step_def hm_simps)
  with t budget_new_inv [OF assms(1) _ assms(2)] False show ?thesis by (simp add: good_call_def)
qed (use assms in \<open>auto simp: budget_new_def intro: good_refl\<close>)

lemma budget_call_good: "heap_inv h \<Longrightarrow> budget_call h e t \<Longrightarrow> good_call h e t"
  by (erule budget_call.cases)
     (auto intro: good_new good_reserve good_drop good_split good_merge good_grow good_shrink)

section \<open>Reachable heaps\<close>

definition heap_init :: "heap \<Rightarrow> bool" where
  "heap_init h \<longleftrightarrow> h = \<lparr>pools = [], reservations = [], next_pool = 0, next_reservation = 0\<rparr>"

definition budget_step :: "'z heap_scheme \<Rightarrow> 'z heap_scheme \<Rightarrow> bool" where
  "budget_step h t \<longleftrightarrow> (\<exists>e. budget_call h e t)"

lemma heap_init_inv: "heap_init h \<Longrightarrow> heap_inv h"
  by (simp add: heap_init_def heap_inv_def)

lemma budget_step_inv: "heap_inv h \<Longrightarrow> budget_step h t \<Longrightarrow> heap_inv t"
  using budget_call_good by (auto simp: budget_step_def good_call_def)

interpretation byte_heap: inductive_invariant heap_init budget_step heap_inv
  by unfold_locales (fact heap_init_inv, fact budget_step_inv)

section \<open>Properties\<close>

text \<open>Two pools, one of them with two grants.\<close>

definition ex_heap0 :: heap where
  "ex_heap0 = \<lparr>pools = [], reservations = [], next_pool = 0, next_reservation = 0\<rparr>"

definition ex_heap1 :: heap where
  "ex_heap1 = snd (budget_new 100 ex_heap0)"

definition ex_heap2 :: heap where
  "ex_heap2 = snd (reserve_exact 0 60 ex_heap1)"

definition ex_heap3 :: heap where
  "ex_heap3 = snd (split_exact 0 25 ex_heap2)"

lemmas budget_eval = budget_new_def reserve_exact_def lock_pool_def load_reservation_def bindc_assoc
  store_used_def store_bytes_def new_reservation_def split_exact_def merge_transferred_def
  grow_exact_def shrink_def drop_reservation_def try_reserve_def catchc_def checked_add_def checked_sub_def
  u64_limit_def hm_insert_def hm_remove_def hm_adjust_def

lemma ex_heap1_eq:
  "ex_heap1 = \<lparr>pools = [(0, \<lparr>limit = 100, used = 0\<rparr>)], reservations = [], next_pool = 1, next_reservation = 0\<rparr>"
  by (simp add: ex_heap1_def ex_heap0_def budget_eval)

lemma ex_heap2_eq:
  "ex_heap2 = \<lparr>pools = [(0, \<lparr>limit = 100, used = 60\<rparr>)], reservations = [(0, \<lparr>budget = 0, bytes = 60\<rparr>)],
               next_pool = 1, next_reservation = 1\<rparr>"
  by (simp add: ex_heap2_def ex_heap1_eq budget_eval)

lemma ex_heap3_eq:
  "ex_heap3 = \<lparr>pools = [(0, \<lparr>limit = 100, used = 60\<rparr>)],
               reservations = [(0, \<lparr>budget = 0, bytes = 35\<rparr>), (1, \<lparr>budget = 0, bytes = 25\<rparr>)],
               next_pool = 1, next_reservation = 2\<rparr>"
  by (simp add: ex_heap3_def ex_heap2_eq budget_eval)

lemma ex_calls:
  "budget_call ex_heap0 None ex_heap1" "budget_call ex_heap1 None ex_heap2"
  "budget_call ex_heap2 None ex_heap3"
proof -
  have "budget_new 100 ex_heap0 = (Inr 0, ex_heap1)"
    by (simp add: ex_heap1_def ex_heap0_def budget_eval)
  then show "budget_call ex_heap0 None ex_heap1"
    using call_new [of 100 ex_heap0] by (simp add: u64_limit_def)
  have "reserve_exact 0 60 ex_heap1 = (Inr 0, ex_heap2)"
    by (simp add: ex_heap2_eq ex_heap1_eq budget_eval)
  then show "budget_call ex_heap1 None ex_heap2"
    using call_reserve [of 0 ex_heap1 60] by (simp add: u64_limit_def ex_heap1_eq hm_keys_def)
  have "split_exact 0 25 ex_heap2 = (Inr 1, ex_heap3)"
    by (simp add: ex_heap3_eq ex_heap2_eq budget_eval)
  then show "budget_call ex_heap2 None ex_heap3"
    using call_split [of 0 ex_heap2 25] by (simp add: u64_limit_def ex_heap2_eq hm_keys_def)
qed

lemma ex_heap_reachable: "reachable heap_init budget_step ex_heap3"
proof -
  have "reachable heap_init budget_step ex_heap0"
    by (rule reachable.start) (simp add: heap_init_def ex_heap0_def)
  moreover have "budget_step ex_heap0 ex_heap1" "budget_step ex_heap1 ex_heap2" "budget_step ex_heap2 ex_heap3"
    using ex_calls by (auto simp: budget_step_def)
  ultimately show ?thesis by (meson reachable.move)
qed

text \<open>
  C30: in every state the program can reach, the \<open>used\<close> count of a pool is exactly the sum
  of the live reservations drawn from it, and it is within the pool's limit.
\<close>

theorem budget_exact_and_bounded:
  assumes "reachable heap_init budget_step h" "map_of (pools h) p = Some st"
  shows "used st = (\<Sum>(r, v)\<leftarrow>reservations h. if budget v = p then bytes v else 0)
       \<and> used st \<le> limit st"
  using heap_invD(6,7) [OF byte_heap.reachable_inv [OF assms(1)] assms(2)]
  by (simp add: charge_def hm_total_def case_prod_unfold)

theorem budget_exact_and_bounded_witness:
  "(35::nat) + 25 = 60 \<and> map_of (pools ex_heap3) 0 = Some \<lparr>limit = 100, used = 60\<rparr>"
  using budget_exact_and_bounded [OF ex_heap_reachable, of 0 "\<lparr>limit = 100, used = 60\<rparr>"]
  by (simp add: ex_heap3_eq)

text \<open>
  C29: every call through owned handles refines the account of each pool: it grants within
  the capacity, releases, divides, joins, enlarges within the capacity or reduces a grant,
  or changes nothing; limits never change, and no call panics.
\<close>

theorem budget_refines_account:
  assumes "reachable heap_init budget_step h" "budget_call h e t" "map_of (pools h) p = Some st"
  shows "(ledger_step (limit st) (grants p (reservations h)) (grants p (reservations t))
           \<or> grants p (reservations t) = grants p (reservations h))
       \<and> map_option limit (map_of (pools t) p) = Some (limit st) \<and> \<not> is_panic e"
  using budget_call_good [OF byte_heap.reachable_inv [OF assms(1)] assms(2)] assms(3)
  by (auto simp: good_call_def accounts_step_def)

theorem budget_refines_account_witness:
  "ledger_step 100 {#35, 25#} {#60#} \<or> {#60::nat#} = {#35, 25#}"
proof -
  let ?t = "snd (merge_transferred 0 1 ex_heap3)"
  have m: "merge_transferred 0 1 ex_heap3 = (Inr (), ?t)"
    "?t = \<lparr>pools = [(0, \<lparr>limit = 100, used = 60\<rparr>)], reservations = [(0, \<lparr>budget = 0, bytes = 60\<rparr>)],
           next_pool = 1, next_reservation = 2\<rparr>"
    by (simp_all add: ex_heap3_eq budget_eval)
  have "budget_call ex_heap3 None ?t"
    using call_merge [of 0 ex_heap3 1, OF _ _ _ m(1)] by (simp add: ex_heap3_eq hm_keys_def)
  from budget_refines_account [OF ex_heap_reachable this, of 0 "\<lparr>limit = 100, used = 60\<rparr>"]
  show ?thesis unfolding m(2) by (simp add: ex_heap3_eq grants_def)
qed

text \<open>
  A subgrant split off a reservation and merged back leaves every pool, every other
  reservation and the divided reservation as they were.
\<close>

theorem split_merge_roundtrip:
  assumes "reachable heap_init budget_step h" "map_of (reservations h) r = Some v" "n \<le> bytes v"
  shows "\<exists>i u t. split_exact r n h = (Inr i, u) \<and> merge_transferred r i u = (Inr (), t)
       \<and> pools t = pools h \<and> map_of (reservations t) = map_of (reservations h)"
proof -
  from assms(1) have inv: "heap_inv h" by (rule byte_heap.reachable_inv)
  obtain st where st: "map_of (pools h) (budget v) = Some st" using reservation_pool [OF inv assms(2)] .
  let ?i = "next_reservation h"
  let ?u = "snd (split_exact r n h)"
  have u: "split_exact r n h = (Inr ?i, ?u)" "heap_inv ?u"
    using assms(3) split_exact_inv [OF inv assms(2) st] by (simp_all add: split_exact_eq [OF inv assms(2) st])
  have fresh: "?i \<noteq> r" "map_of (reservations h) ?i = None"
    using fresh_reservation [OF inv] assms(2) by (auto simp: hm_keys_iff)
  have ur: "map_of (reservations ?u) r = Some (v\<lparr>bytes := bytes v - n\<rparr>)"
    "map_of (reservations ?u) ?i = Some \<lparr>budget = budget v, bytes = n\<rparr>"
    "map_of (pools ?u) (budget v) = Some st" "pools ?u = pools h"
    using assms(2,3) fresh st
    by (simp_all add: split_exact_eq [OF inv assms(2) st] hm_simps recharged_def
        adjust_used_id [OF st heap_invD(1) [OF inv]])
  let ?t = "snd (merge_transferred r ?i ?u)"
  have m: "merge_transferred r ?i ?u = (Inr (), recharged (budget v) (used st)
      (hm_adjust r (bytes_update (\<lambda>_. bytes v)) (hm_remove ?i (reservations ?u))) (next_reservation ?u) ?u)"
    using merge_transferred_eq [OF u(2) ur(1,2) _ ] fresh(1) ur(3) assms(3) by simp
  have pools: "pools ?t = pools h"
    using ur(4) by (simp add: m recharged_def adjust_used_id [OF st heap_invD(1) [OF inv]])
  have "reservations ?t = hm_adjust r (bytes_update (\<lambda>_. bytes v)) (hm_remove ?i (reservations ?u))"
    by (simp add: m)
  then have "map_of (reservations ?t) = map_of (reservations h)"
    using assms(2,3) fresh by (auto simp: split_exact_eq [OF inv assms(2) st] hm_simps fun_eq_iff)
  moreover from m have "merge_transferred r ?i ?u = (Inr (), ?t)" by simp
  ultimately show ?thesis using u(1) pools by blast
qed

theorem split_merge_roundtrip_witness:
  "\<exists>i u t. split_exact 0 10 ex_heap3 = (Inr i, u) \<and> merge_transferred 0 i u = (Inr (), t)
       \<and> pools t = pools ex_heap3 \<and> map_of (reservations t) = map_of (reservations ex_heap3)"
  by (rule split_merge_roundtrip [OF ex_heap_reachable, of 0 "\<lparr>budget = 0, bytes = 35\<rparr>"])
     (simp_all add: ex_heap3_eq)

end
