(* ===== verification/Preview_Codec.thy ===== *)
theory Preview_Codec
  imports Byte_Budget
begin

text \<open>
  The preview codec of \<open>preview/codec.rs\<close> around its backends: prepared pixels, the
  checks of encoded input, header dimensions, decoding and encoding, and the classification
  of backend failures. The \<open>image\<close> crate and the native AVIF and WebP code are functions of
  a \<open>codec_backend\<close> argument. The errors of the decoded cache are values of the same type.
\<close>

datatype codec = Jpeg | Webp | Avif

record codec_settings =
  codec :: codec
  quality :: nat

record prepared_rgb =
  width :: nat
  height :: nat
  pixels :: "byte list"

datatype decode_status = Unsupported | Corrupt | ResourceLimit | Io

datatype image_format = JpegFormat | WebPFormat | OtherFormat

text \<open>
  The error values of the backends that the classification distinguishes; the last
  constructor of each stands for the variants it does not name.
\<close>

datatype webp_error =
    MemoryLimitExceeded | ImageTooLarge
  | RiffSignatureInvalid | WebpSignatureInvalid | ChunkMissing | ChunkHeaderInvalid
  | InvalidAlphaPreprocessing | InvalidCompressionMethod | AlphaChunkSizeMismatch
  | FrameOutsideImage | LosslessSignatureInvalid | VersionNumberInvalid | InvalidColorCacheBits
  | HuffmanError | BitStreamError | TransformError | Vp8MagicInvalid | NotEnoughInitData
  | ColorSpaceInvalid | LumaPredictionModeInvalid | IntraPredictionModeInvalid
  | ChromaPredictionModeInvalid | InconsistentImageSizes | InvalidChunkSize
  | OtherWebp

datatype jpeg_error =
    IllegalMagicBytes | HuffmanDecode | ZeroError | DqtError | SosError | SofError | MCUError
  | ExhaustedData | LargeDimensions
  | OtherJpeg

datatype backend_source = WebpSource webp_error | JpegSource jpeg_error | OtherSource

datatype image_error =
    Decoding "backend_source option"
  | UnsupportedImage
  | Limits
  | OtherImage

datatype preview_error =
    QualityOutside
  | Canceled
  | NativeMessage string
  | NativePreviewOutputLimit
  | EncodedPreviewLimit
  | DecodeError decode_status string
  | ImageFailure image_error
  | PreviewDimensionLimit
  | Rgb8LengthMismatch
  | NativeDimensions
  | RgbByteOverflow
  | DecodedEntryLimit
  | LruExceedsAllowance
  | LruClockOverflow
  | DecodedKeyLength
  | DecodedBudgetExceeded
  | DecodedReservationIdentity
  | InvalidDecodedDimensions
  | HeaderDimensionsMismatch
  | DimensionsMismatch
  | CachedBytesPanic
  | MissingEntryPanic
  | UnreachablePanic
  | Budget budget_error

record native_buffer =
  data :: "byte list option"
  out_width :: nat
  out_height :: nat
  message :: string

record image_limits =
  max_image_width :: nat
  max_image_height :: nat
  max_alloc :: nat

text \<open>
  The code outside the repository's Rust: each native entry point fills a buffer and
  returns a status, the functions of the \<open>image\<close> crate return its error or a value.
\<close>

record codec_backend =
  avif_dimensions :: "byte list \<Rightarrow> native_buffer \<times> int"
  avif_decode :: "byte list \<Rightarrow> native_buffer \<times> int"
  avif_encode :: "prepared_rgb \<Rightarrow> nat \<Rightarrow> native_buffer \<times> int"
  webp_encode :: "prepared_rgb \<Rightarrow> nat \<Rightarrow> bool \<Rightarrow> native_buffer \<times> int"
  jpeg_encode :: "prepared_rgb \<Rightarrow> nat \<Rightarrow> image_error + byte list"
  guess_format :: "byte list \<Rightarrow> image_error + image_format"
  into_dimensions :: "byte list \<Rightarrow> image_format \<Rightarrow> image_error + nat \<times> nat"
  image_decode :: "byte list \<Rightarrow> image_format \<Rightarrow> image_limits \<Rightarrow> image_error + nat \<times> nat \<times> byte list"
  error_text :: "image_error \<Rightarrow> string"

definition MAX_EDGE :: nat where
  "MAX_EDGE = 8192"

definition MAX_ENCODED :: nat where
  "MAX_ENCODED = 256 * 1024 * 1024"

definition extension :: "codec \<Rightarrow> string" where
  "extension c = (case c of Jpeg \<Rightarrow> ''jpg'' | Webp \<Rightarrow> ''webp'' | Avif \<Rightarrow> ''avif'')"

definition validate :: "codec_settings \<Rightarrow> preview_error + unit" where
  "validate s = (if 1 \<le> quality s \<and> quality s \<le> 100 then Inr () else Inl QualityOutside)"

definition prepared_new :: "nat \<Rightarrow> nat \<Rightarrow> byte list \<Rightarrow> preview_error + prepared_rgb" where
  "prepared_new w h px =
     (if \<not> (w > 0 \<and> h > 0 \<and> w \<le> MAX_EDGE \<and> h \<le> MAX_EDGE) then Inl PreviewDimensionLimit
      else if length px \<noteq> w * h * 3 then Inl Rgb8LengthMismatch
      else Inr \<lparr>width = w, height = h, pixels = px\<rparr>)"

definition byte_len :: "prepared_rgb \<Rightarrow> nat" where
  "byte_len p = length (pixels p)"

definition rgb_bytes :: "nat \<Rightarrow> nat \<Rightarrow> preview_error + nat" where
  "rgb_bytes w h =
     (if \<not> (1 \<le> w \<and> w \<le> 8192 \<and> 1 \<le> h \<and> h \<le> 8192) then Inl NativeDimensions
      else case Option.bind (checked_mul w h) (\<lambda>p. checked_mul p 3) of
             None \<Rightarrow> Inl RgbByteOverflow
           | Some n \<Rightarrow> Inr n)"

definition encoded_input :: "byte list \<Rightarrow> preview_error + unit" where
  "encoded_input b =
     (if b = [] then Inl (DecodeError Corrupt ''empty encoded preview'')
      else if length b > MAX_ENCODED then Inl (DecodeError ResourceLimit ''encoded preview limit'')
      else Inr ())"

definition backend_decode_status :: "backend_source \<Rightarrow> decode_status option" where
  "backend_decode_status src =
     (case src of
        WebpSource e \<Rightarrow>
          (case e of
             MemoryLimitExceeded \<Rightarrow> Some ResourceLimit
           | ImageTooLarge \<Rightarrow> Some ResourceLimit
           | OtherWebp \<Rightarrow> None
           | _ \<Rightarrow> Some Corrupt)
      | JpegSource e \<Rightarrow>
          (case e of
             LargeDimensions \<Rightarrow> Some ResourceLimit
           | OtherJpeg \<Rightarrow> None
           | _ \<Rightarrow> Some Corrupt)
      | OtherSource \<Rightarrow> None)"

definition image_decode_error :: "codec_backend \<Rightarrow> image_error \<Rightarrow> preview_error" where
  "image_decode_error be e =
     (case (case e of
              Decoding inner \<Rightarrow> Option.bind inner backend_decode_status
            | UnsupportedImage \<Rightarrow> Some Corrupt
            | Limits \<Rightarrow> Some ResourceLimit
            | OtherImage \<Rightarrow> None) of
        Some status \<Rightarrow> DecodeError status (error_text be e)
      | None \<Rightarrow> ImageFailure e)"

definition native_result :: "native_buffer \<Rightarrow> int \<Rightarrow> preview_error + byte list" where
  "native_result buf status =
     (if status \<noteq> 0 then Inl (NativeMessage (message buf))
      else case data buf of
             None \<Rightarrow> Inl NativePreviewOutputLimit
           | Some d \<Rightarrow> if length d > 0 \<and> length d \<le> MAX_ENCODED then Inr d else Inl NativePreviewOutputLimit)"

definition native_decode_status :: "native_buffer \<Rightarrow> int \<Rightarrow> preview_error + unit" where
  "native_decode_status buf status =
     (if status = 0 then Inr ()
      else if status = 2 then Inl (DecodeError Corrupt (message buf))
      else if status = 3 then Inl (DecodeError ResourceLimit (message buf))
      else Inl (NativeMessage (message buf)))"

definition image_format_of :: "codec \<Rightarrow> preview_error + image_format" where
  "image_format_of c = (case c of Jpeg \<Rightarrow> Inr JpegFormat | Webp \<Rightarrow> Inr WebPFormat | Avif \<Rightarrow> Inl UnreachablePanic)"

definition encoded_dimensions :: "codec_backend \<Rightarrow> byte list \<Rightarrow> codec \<Rightarrow> preview_error + nat \<times> nat" where
  "encoded_dimensions be b c =
     tryr (encoded_input b) (\<lambda>_.
     tryr (if c = Avif
           then let (buf, status) = avif_dimensions be b in
                tryr (native_decode_status buf status) (\<lambda>_. Inr (out_width buf, out_height buf))
           else tryr (image_format_of c) (\<lambda>format.
                tryr (map_err (image_decode_error be) (guess_format be b)) (\<lambda>guessed.
                if guessed \<noteq> format then Inl (DecodeError Corrupt ''preview codec mismatch'')
                else map_err (image_decode_error be) (into_dimensions be b format)))) (\<lambda>(w, h).
     if w = 0 \<or> h = 0 \<or> w > MAX_EDGE \<or> h > MAX_EDGE
     then Inl (DecodeError Corrupt ''preview dimension limit'')
     else Inr (w, h)))"

definition decode :: "codec_backend \<Rightarrow> byte list \<Rightarrow> codec \<Rightarrow> preview_error + prepared_rgb" where
  "decode be b c =
     tryr (encoded_input b) (\<lambda>_.
     if c = Avif
     then let (buf, status) = avif_decode be b in
          tryr (native_decode_status buf status) (\<lambda>_.
          tryr (native_result buf status) (\<lambda>px.
          prepared_new (out_width buf) (out_height buf) px))
     else tryr (image_format_of c) (\<lambda>format.
          tryr (map_err (image_decode_error be) (guess_format be b)) (\<lambda>guessed.
          if guessed \<noteq> format then Inl (DecodeError Corrupt ''preview codec mismatch'')
          else tryr (map_err (image_decode_error be)
                 (image_decode be b format
                    \<lparr>max_image_width = MAX_EDGE, max_image_height = MAX_EDGE, max_alloc = MAX_ENCODED\<rparr>))
               (\<lambda>(w, h, px). prepared_new w h px))))"

text \<open>
  The cancellation flag is a shared atomic, loaded before the work, polled inside the
  native WebP encoder and loaded after it: \<open>cancel i\<close> is what the \<open>i\<close>-th of the two loads
  of \<open>encode\<close> sees, \<open>polled\<close> whether the encoder saw it set.
\<close>

definition check_cancel :: "(nat \<Rightarrow> bool) option \<Rightarrow> nat \<Rightarrow> preview_error + unit" where
  "check_cancel cancel i = (case cancel of Some f \<Rightarrow> if f i then Inl Canceled else Inr () | None \<Rightarrow> Inr ())"

definition encode ::
  "codec_backend \<Rightarrow> prepared_rgb \<Rightarrow> codec_settings \<Rightarrow> (nat \<Rightarrow> bool) option \<Rightarrow> bool \<Rightarrow> preview_error + byte list" where
  "encode be rgb settings cancel polled =
     tryr (validate settings) (\<lambda>_.
     tryr (check_cancel cancel 0) (\<lambda>_.
     tryr (case codec settings of
             Jpeg \<Rightarrow> map_err ImageFailure (jpeg_encode be rgb (quality settings))
           | Webp \<Rightarrow> (let (buf, status) = webp_encode be rgb (quality settings) polled in native_result buf status)
           | Avif \<Rightarrow> (let (buf, status) = avif_encode be rgb (quality settings) in native_result buf status)) (\<lambda>b.
     tryr (check_cancel cancel 1) (\<lambda>_.
     if length b \<le> MAX_ENCODED then Inr b else Inl EncodedPreviewLimit))))"

section \<open>Prepared pixels\<close>

definition rgb_ok :: "prepared_rgb \<Rightarrow> bool" where
  "rgb_ok p \<longleftrightarrow> 0 < width p \<and> width p \<le> MAX_EDGE \<and> 0 < height p \<and> height p \<le> MAX_EDGE
     \<and> length (pixels p) = width p * height p * 3"

lemma prepared_new_ok: "prepared_new w h px = Inr p \<Longrightarrow> rgb_ok p"
  by (auto simp: prepared_new_def rgb_ok_def split: if_splits)

lemma decode_ok: "decode be b c = Inr p \<Longrightarrow> rgb_ok p"
  by (auto simp: decode_def tryr_Inr_iff Let_def split: if_splits prod.splits dest: prepared_new_ok)

lemma rgb_bytes_eq:
  assumes "1 \<le> w" "w \<le> 8192" "1 \<le> h" "h \<le> 8192"
  shows "rgb_bytes w h = Inr (w * h * 3)"
proof -
  have "w * h \<le> 8192 * 8192" using assms by (intro mult_le_mono) auto
  then have "w * h < u64_limit" "w * h * 3 < u64_limit" by (simp_all add: u64_limit_def)
  with assms show ?thesis by (simp add: rgb_bytes_def checked_mul_def)
qed

end
