(* ===== verification/Decoded_Cache.thy ===== *)
theory Decoded_Cache
  imports Preview_Codec
begin

text \<open>
  The decoded cache of \<open>preview/memory.rs\<close>. The state is the heap of byte pools extended
  with the shared pages (\<open>Arc<RetainedPixels>\<close>, each with its strong count and the
  reservation it owns) and the fields of \<open>DecodedCache\<close>. A page is freed, and its bytes go
  back to the pool, when the last reference is dropped: by eviction, or by the consumer
  that held it longest.
\<close>

record retained_pixels =
  page :: prepared_rgb
  reservation :: nat
  strong :: nat

record cache_world = heap +
  retained :: "(nat, retained_pixels) hmap"
  next_page :: nat
  hits :: nat
  misses :: nat
  cache_budget :: nat
  cache_limit :: nat
  max_entries :: nat
  cached_bytes :: nat
  clock :: nat
  entries :: "(string, nat \<times> nat) hmap"

type_synonym 'a cache_comp = "(cache_world, preview_error, 'a) comp"

text \<open>A call into the byte budget, its errors passed on.\<close>

definition on_heap :: "(cache_world, budget_error, 'a) comp \<Rightarrow> 'a cache_comp" where
  "on_heap m = (\<lambda>s. case m s of (Inl e, t) \<Rightarrow> (Inl (Budget e), t) | (Inr x, t) \<Rightarrow> (Inr x, t))"

definition pure_result :: "preview_error + 'a \<Rightarrow> 'a cache_comp" where
  "pure_result r = (case r of Inl e \<Rightarrow> fail e | Inr x \<Rightarrow> ret x)"

lemma pure_result_simps [simp]: "pure_result (Inl e) = fail e" "pure_result (Inr x) = ret x"
  by (simp_all add: pure_result_def)

section \<open>Shared pages\<close>

definition arc_new :: "prepared_rgb \<Rightarrow> nat \<Rightarrow> nat cache_comp" where
  "arc_new p r =
     bindc (getc next_page) (\<lambda>a.
     bindc (modc (\<lambda>s. s\<lparr>retained := hm_insert a \<lparr>page = p, reservation = r, strong = 1\<rparr> (retained s),
                         next_page := Suc a\<rparr>)) (\<lambda>_.
     ret a))"

definition arc_clone :: "nat \<Rightarrow> unit cache_comp" where
  "arc_clone a = modc (retained_update (hm_adjust a (strong_update Suc)))"

definition arc_drop :: "nat \<Rightarrow> unit cache_comp" where
  "arc_drop a =
     bindc (getc (\<lambda>s. map_of (retained s) a)) (\<lambda>found.
     bindc (lift_option MissingEntryPanic found) (\<lambda>x.
     if strong x \<le> 1
     then bindc (modc (retained_update (hm_remove a))) (\<lambda>_. on_heap (drop_reservation (reservation x)))
     else modc (retained_update (hm_adjust a (strong_update (\<lambda>n. n - 1))))))"

definition page_len :: "cache_world \<Rightarrow> nat \<Rightarrow> nat" where
  "page_len s a = (case map_of (retained s) a of Some x \<Rightarrow> byte_len (page x) | None \<Rightarrow> 0)"

section \<open>Operations\<close>

definition cache_new :: "nat \<Rightarrow> nat \<Rightarrow> nat \<Rightarrow> unit cache_comp" where
  "cache_new cache_bytes total_live_bytes most =
     bindc (ensure (most > 0 \<and> most \<le> 100000) DecodedEntryLimit) (\<lambda>_.
     bindc (ensure (cache_bytes \<le> total_live_bytes) LruExceedsAllowance) (\<lambda>_.
     bindc (on_heap (budget_new total_live_bytes)) (\<lambda>p.
     modc (\<lambda>s. s\<lparr>hits := 0, misses := 0, cache_budget := p, cache_limit := cache_bytes,
                  max_entries := most, cached_bytes := 0, clock := 0, entries := []\<rparr>))))"

definition live_bytes :: "nat cache_comp" where
  "live_bytes = bindc (getc cache_budget) (\<lambda>p. on_heap (budget_used p))"

definition access_counts :: "cache_world \<Rightarrow> nat \<times> nat" where
  "access_counts s = (hits s, misses s)"

definition tick :: "nat cache_comp" where
  "tick =
     bindc (getc clock) (\<lambda>c.
     bindc (lift_option LruClockOverflow (checked_add c 1)) (\<lambda>n.
     bindc (modc (clock_update (\<lambda>_. n))) (\<lambda>_.
     ret n)))"

definition get :: "string \<Rightarrow> nat option cache_comp" where
  "get key =
     bindc tick (\<lambda>now.
     bindc (getc (\<lambda>s. map_of (entries s) key)) (\<lambda>found.
     case found of
       None \<Rightarrow> ret None
     | Some (a, _) \<Rightarrow>
         bindc (modc (entries_update (hm_adjust key (\<lambda>(b, _). (b, now))))) (\<lambda>_.
         bindc (arc_clone a) (\<lambda>_.
         ret (Some a)))))"

definition uncharge :: "nat \<Rightarrow> unit cache_comp" where
  "uncharge n =
     bindc (getc cached_bytes) (\<lambda>c.
     bindc (lift_option CachedBytesPanic (checked_sub c n)) (\<lambda>d.
     modc (cached_bytes_update (\<lambda>_. d))))"

definition remove_entry :: "string \<Rightarrow> nat \<Rightarrow> unit cache_comp" where
  "remove_entry key a =
     bindc (modc (entries_update (hm_remove key))) (\<lambda>_.
     bindc (getc (\<lambda>s. page_len s a)) (\<lambda>n.
     bindc (uncharge n) (\<lambda>_.
     arc_drop a)))"

definition evict_one :: "bool cache_comp" where
  "evict_one =
     bindc (getc (\<lambda>s. min_by_key (\<lambda>(_, _, now). now) (entries s))) (\<lambda>found.
     case found of
       None \<Rightarrow> ret False
     | Some (key, a, _) \<Rightarrow> bindc (remove_entry key a) (\<lambda>_. ret True))"

fun drop_all :: "nat list \<Rightarrow> unit cache_comp" where
  "drop_all [] = ret ()"
| "drop_all (a # as) = bindc (arc_drop a) (\<lambda>_. drop_all as)"

definition clear :: "unit cache_comp" where
  "clear =
     bindc (getc (\<lambda>s. map (fst \<circ> snd) (entries s))) (\<lambda>as.
     bindc (modc (entries_update (\<lambda>_. []))) (\<lambda>_.
     bindc (drop_all as) (\<lambda>_.
     modc (cached_bytes_update (\<lambda>_. 0)))))"

definition managed_lookup :: "string \<Rightarrow> nat option cache_comp" where
  "managed_lookup key =
     bindc (ensure (key \<noteq> [] \<and> length key \<le> 64) DecodedKeyLength) (\<lambda>_.
     bindc (get key) (\<lambda>found.
     bindc (if found \<noteq> None then modc (hits_update (\<lambda>n. saturating_add n 1))
            else modc (misses_update (\<lambda>n. saturating_add n 1))) (\<lambda>_.
     ret found)))"

text \<open>The two loops around \<open>evict_one\<close>; each round that continues removes an entry.\<close>

interpretation same_entries: state_preorder "\<lambda>s t :: cache_world. entries t = entries s"
  by unfold_locales auto

lemma snd_on_heap [simp]: "snd (on_heap m s) = snd (m s)"
  by (simp add: on_heap_def split: prod.splits sum.splits)

lemma advances_on_heap: "advances R m \<Longrightarrow> advances R (on_heap m)"
  by (simp add: advances_def snd_on_heap)

lemma try_reserve_entries: "advances (\<lambda>s t :: cache_world. entries t = entries s) (try_reserve p n)"
  unfolding try_reserve_def reserve_exact_def lock_pool_def store_used_def new_reservation_def
  by (auto intro!: same_entries.advances_intros same_entries.advances_modc split: sum.splits budget_error.splits)

lemma arc_drop_entries: "advances (\<lambda>s t. entries t = entries s) (arc_drop a)"
  unfolding arc_drop_def drop_reservation_def load_reservation_def lock_pool_def store_used_def
  by (auto intro!: same_entries.advances_intros same_entries.advances_modc advances_on_heap)

lemma uncharge_entries: "advances (\<lambda>s t. entries t = entries s) (uncharge n)"
  unfolding uncharge_def by (auto intro!: same_entries.advances_intros same_entries.advances_modc)

lemma advances_eval: "advances R m \<Longrightarrow> m s = (r, t) \<Longrightarrow> R s t"
  by (metis advances_def snd_conv)

lemma evict_one_shrinks:
  assumes "evict_one s = (Inr True, t)"
  shows "length (entries t) < length (entries s)"
proof (cases "min_by_key (\<lambda>(_, _, now). now) (entries s)")
  case None
  with assms show ?thesis by (simp add: evict_one_def)
next
  case (Some e)
  obtain key a now where e: "e = (key, a, now)" by (cases e) auto
  from assms Some e have "entries t = hm_remove key (entries s)"
    by (auto simp: evict_one_def remove_entry_def bindc_Inr_iff
        dest!: advances_eval [OF uncharge_entries] advances_eval [OF arc_drop_entries])
  moreover have "(key, a, now) \<in> set (entries s)" using min_by_key_mem [OF Some] e by simp
  then have "length (hm_remove key (entries s)) < length (entries s)"
    unfolding hm_remove_def by (intro length_filter_less) auto
  ultimately show ?thesis by simp
qed

function reserve_or_evict :: "nat \<Rightarrow> nat cache_comp" where
  "reserve_or_evict n s =
     (case on_heap (try_reserve (cache_budget s) n) s of
        (Inl e, t) \<Rightarrow> (Inl e, t)
      | (Inr (Some r), t) \<Rightarrow> (Inr r, t)
      | (Inr None, t) \<Rightarrow>
          (case evict_one t of
             (Inl e, u) \<Rightarrow> (Inl e, u)
           | (Inr False, u) \<Rightarrow> (Inl DecodedBudgetExceeded, u)
           | (Inr True, u) \<Rightarrow> reserve_or_evict n u))"
  by pat_completeness auto

termination
  by (relation "measure (\<lambda>(n, s). length (entries s))")
     (auto dest!: evict_one_shrinks [OF sym] advances_eval [OF advances_on_heap [OF try_reserve_entries] sym])

function make_room :: "nat \<Rightarrow> unit cache_comp" where
  "make_room n s =
     (if cached_bytes s > cache_limit s - n \<or> length (entries s) \<ge> max_entries s
      then (case evict_one s of
              (Inl e, t) \<Rightarrow> (Inl e, t)
            | (Inr False, t) \<Rightarrow> (Inr (), t)
            | (Inr True, t) \<Rightarrow> make_room n t)
      else (Inr (), s))"
  by pat_completeness auto

termination
  by (relation "measure (\<lambda>(n, s). length (entries s))") (auto dest!: evict_one_shrinks [OF sym])

declare reserve_or_evict.simps [simp del] make_room.simps [simp del]

definition reserve_rgb :: "nat \<Rightarrow> nat \<Rightarrow> nat cache_comp" where
  "reserve_rgb w h = bindc (pure_result (rgb_bytes w h)) reserve_or_evict"

definition charge_cache :: "nat \<Rightarrow> unit cache_comp" where
  "charge_cache n =
     bindc (getc cached_bytes) (\<lambda>c.
     bindc (lift_option CachedBytesPanic (checked_add c n)) (\<lambda>d.
     modc (cached_bytes_update (\<lambda>_. d))))"

text \<open>
  The tail shared by \<open>commit_rgb\<close> and \<open>decode\<close>: make room, take a tick (an overflow
  drops the new page and is returned), enter the page. \<open>commit_rgb\<close> first removes the
  entry its key may still have, whose page is then dropped; in \<open>decode\<close> the insertion
  itself would replace it.
\<close>

definition tick_or_drop :: "nat \<Rightarrow> nat cache_comp" where
  "tick_or_drop a =
     catchc tick (\<lambda>r. case r of Inl e \<Rightarrow> bindc (arc_drop a) (\<lambda>_. fail e) | Inr now \<Rightarrow> ret now)"

definition insert_entry :: "string \<Rightarrow> nat \<Rightarrow> nat \<Rightarrow> unit cache_comp" where
  "insert_entry key a now =
     bindc (arc_clone a) (\<lambda>_.
     bindc (getc (\<lambda>s. map_of (entries s) key)) (\<lambda>old.
     bindc (modc (entries_update (hm_insert key (a, now)))) (\<lambda>_.
     case old of Some (b, _) \<Rightarrow> arc_drop b | None \<Rightarrow> ret ())))"

definition remove_old :: "string \<Rightarrow> unit cache_comp" where
  "remove_old key =
     bindc (getc (\<lambda>s. map_of (entries s) key)) (\<lambda>old.
     case old of Some (b, _) \<Rightarrow> remove_entry key b | None \<Rightarrow> ret ())"

definition commit_rgb :: "string \<Rightarrow> prepared_rgb \<Rightarrow> nat \<Rightarrow> nat cache_comp" where
  "commit_rgb key p r =
     bindc (on_heap (load_reservation r)) (\<lambda>v.
     bindc (getc cache_budget) (\<lambda>pool.
     if \<not> (bytes v = byte_len p \<and> budget v = pool)
     then bindc (on_heap (drop_reservation r)) (\<lambda>_. fail DecodedReservationIdentity)
     else
       bindc (arc_new p r) (\<lambda>a.
       bindc (getc cache_limit) (\<lambda>l.
       if byte_len p \<le> l
       then
         bindc (make_room (byte_len p)) (\<lambda>_.
         bindc (tick_or_drop a) (\<lambda>now.
         bindc (remove_old key) (\<lambda>_.
         bindc (charge_cache (byte_len p)) (\<lambda>_.
         bindc (insert_entry key a now) (\<lambda>_.
         ret a)))))
       else ret a))))"

text \<open>\<open>DecodedCache::decode\<close>; an early return after the reservation drops it.\<close>

definition decode_reserved ::
  "codec_backend \<Rightarrow> byte list \<Rightarrow> codec \<Rightarrow> nat \<Rightarrow> nat \<Rightarrow> nat \<Rightarrow> prepared_rgb cache_comp" where
  "decode_reserved be encoded c w h r =
     (case decode be encoded c of
        Inl e \<Rightarrow> bindc (on_heap (drop_reservation r)) (\<lambda>_. fail e)
      | Inr p \<Rightarrow>
          if width p = w \<and> height p = h then ret p
          else bindc (on_heap (drop_reservation r)) (\<lambda>_. fail DimensionsMismatch))"

definition cache_decode ::
  "codec_backend \<Rightarrow> string \<Rightarrow> byte list \<Rightarrow> codec \<Rightarrow> nat \<Rightarrow> nat \<Rightarrow> nat cache_comp" where
  "cache_decode be key encoded c w h =
     bindc (ensure (key \<noteq> [] \<and> length key \<le> 64) DecodedKeyLength) (\<lambda>_.
     bindc (get key) (\<lambda>found.
     case found of
       Some a \<Rightarrow> bindc (modc (hits_update (\<lambda>n. saturating_add n 1))) (\<lambda>_. ret a)
     | None \<Rightarrow>
         bindc (modc (misses_update (\<lambda>n. saturating_add n 1))) (\<lambda>_.
         bindc (ensure (w > 0 \<and> h > 0 \<and> w \<le> 8192 \<and> h \<le> 8192) InvalidDecodedDimensions) (\<lambda>_.
         bindc (pure_result (encoded_dimensions be encoded c)) (\<lambda>dims.
         bindc (ensure (dims = (w, h)) HeaderDimensionsMismatch) (\<lambda>_.
         bindc (reserve_or_evict (w * h * 3)) (\<lambda>r.
         bindc (decode_reserved be encoded c w h r) (\<lambda>p.
         bindc (arc_new p r) (\<lambda>a.
         bindc (getc cache_limit) (\<lambda>l.
         if w * h * 3 \<le> l
         then
           bindc (make_room (w * h * 3)) (\<lambda>_.
           bindc (tick_or_drop a) (\<lambda>now.
           bindc (charge_cache (w * h * 3)) (\<lambda>_.
           bindc (insert_entry key a now) (\<lambda>_.
           ret a))))
         else ret a))))))))))"

end
