(* ===== verification/Cache_Correct.thy ===== *)
theory Cache_Correct
  imports Decoded_Cache
begin

text \<open>
  The invariant of the decoded cache and what each of its operations does to it. The
  invariant ties the three accounts together: the pool's charge, the pages with their
  strong counts and reservations, and the entries of the LRU.
\<close>

section \<open>Invariant\<close>

text \<open>How many entries refer to a page, and the bytes of the pages entered.\<close>

definition refs :: "nat \<Rightarrow> (string, nat \<times> nat) hmap \<Rightarrow> nat" where
  "refs a es = hm_count (\<lambda>v. fst v = a) es"

definition entered_bytes :: "cache_world \<Rightarrow> nat" where
  "entered_bytes s = hm_total (\<lambda>v. page_len s (fst v)) (entries s)"

definition page_ok :: "cache_world \<Rightarrow> nat \<Rightarrow> retained_pixels \<Rightarrow> bool" where
  "page_ok s a x \<longleftrightarrow>
     map_of (reservations s) (reservation x) = Some \<lparr>budget = cache_budget s, bytes = byte_len (page x)\<rparr> \<and>
     refs a (entries s) \<le> strong x \<and> 0 < strong x"

definition pages_inv :: "cache_world \<Rightarrow> bool" where
  "pages_inv s \<longleftrightarrow>
     hm_wf (retained s) \<and>
     (\<forall>a \<in> hm_keys (retained s). a < next_page s) \<and>
     (\<forall>a x. map_of (retained s) a = Some x \<longrightarrow> page_ok s a x) \<and>
     (\<forall>a b x y. map_of (retained s) a = Some x \<longrightarrow> map_of (retained s) b = Some y \<longrightarrow>
        reservation x = reservation y \<longrightarrow> a = b)"

definition entries_inv :: "cache_world \<Rightarrow> bool" where
  "entries_inv s \<longleftrightarrow>
     hm_wf (entries s) \<and>
     (\<forall>k a now. map_of (entries s) k = Some (a, now) \<longrightarrow> a \<in> hm_keys (retained s) \<and> now \<le> clock s) \<and>
     cached_bytes s = entered_bytes s \<and> cached_bytes s \<le> cache_limit s \<and>
     length (entries s) \<le> max_entries s"

definition config_inv :: "cache_world \<Rightarrow> bool" where
  "config_inv s \<longleftrightarrow>
     0 < max_entries s \<and> cache_limit s < u64_limit \<and> clock s < u64_limit \<and>
     (\<exists>st. map_of (pools s) (cache_budget s) = Some st \<and> cache_limit s \<le> limit st)"

definition cache_inv :: "cache_world \<Rightarrow> bool" where
  "cache_inv s \<longleftrightarrow> heap_inv s \<and> config_inv s \<and> pages_inv s \<and> entries_inv s"

lemma cache_invD:
  assumes "cache_inv s"
  shows "heap_inv s" "config_inv s" "pages_inv s" "entries_inv s"
  using assms by (simp_all add: cache_inv_def)

lemma pagesD:
  assumes "pages_inv s"
  shows "hm_wf (retained s)"
    "a \<in> hm_keys (retained s) \<Longrightarrow> a < next_page s"
    "map_of (retained s) a = Some x \<Longrightarrow>
       map_of (reservations s) (reservation x) = Some \<lparr>budget = cache_budget s, bytes = byte_len (page x)\<rparr>"
    "map_of (retained s) a = Some x \<Longrightarrow> refs a (entries s) \<le> strong x"
    "map_of (retained s) a = Some x \<Longrightarrow> 0 < strong x"
    "map_of (retained s) a = Some x \<Longrightarrow> map_of (retained s) b = Some y \<Longrightarrow> reservation x = reservation y \<Longrightarrow> a = b"
  using assms unfolding pages_inv_def page_ok_def by blast+

lemma entriesD:
  assumes "entries_inv s"
  shows "hm_wf (entries s)"
    "map_of (entries s) k = Some (a, now) \<Longrightarrow> a \<in> hm_keys (retained s)"
    "map_of (entries s) k = Some (a, now) \<Longrightarrow> now \<le> clock s"
    "cached_bytes s = entered_bytes s" "cached_bytes s \<le> cache_limit s"
    "length (entries s) \<le> max_entries s"
  using assms unfolding entries_inv_def by blast+

lemma entry_page:
  "cache_inv s \<Longrightarrow> map_of (entries s) k = Some (a, now) \<Longrightarrow> \<exists>x. map_of (retained s) a = Some x"
  using entriesD(2) [OF cache_invD(4)] by (auto simp: hm_keys_iff [symmetric])

lemma refs_simps [simp]:
  "refs a [] = 0"
  by (simp add: refs_def)

lemma refs_zero: "\<not> (\<exists>k now. map_of es k = Some (a, now)) \<Longrightarrow> hm_wf es \<Longrightarrow> refs a es = 0"
  by (force simp: refs_def hm_count_def filter_empty_conv hm_mem_iff)

lemma refs_remove:
  "map_of es k = Some (b, now) \<Longrightarrow> hm_wf es \<Longrightarrow> refs a es = refs a (hm_remove k es) + (if a = b then 1 else 0)"
  using hm_count_remove [of es k "(b, now)" "\<lambda>v. fst v = a"] by (auto simp: refs_def)

lemma refs_adjust:
  "map_of es k = Some (b, now) \<Longrightarrow> hm_wf es \<Longrightarrow> refs a (hm_adjust k (\<lambda>(c, _). (c, n)) es) = refs a es"
  using hm_count_adjust [of es k "(b, now)" "\<lambda>v. fst v = a" "\<lambda>(c, _). (c, n)"] by (auto simp: refs_def split: if_splits)

lemma refs_insert:
  "k \<notin> hm_keys es \<Longrightarrow> refs a (hm_insert k (b, now) es) = refs a es + (if b = a then 1 else 0)"
  by (simp add: refs_def hm_count_insert_fresh)

lemma hm_total_cong: "(\<And>k v. (k, v) \<in> set m \<Longrightarrow> f v = g v) \<Longrightarrow> hm_total f m = hm_total g m"
  by (auto simp: hm_total_def intro!: arg_cong [where f = sum_list] map_cong)

section \<open>Dropping a reference\<close>

text \<open>
  A reference beyond those of the entries can be dropped: the count goes down, and with the
  last one the page and its reservation are gone, its bytes back in the pool.
\<close>

lemma recharged_world [simp]:
  "retained (recharged p n rs k s) = retained s" "next_page (recharged p n rs k s) = next_page s"
  "cache_budget (recharged p n rs k s) = cache_budget s" "cache_limit (recharged p n rs k s) = cache_limit s"
  "max_entries (recharged p n rs k s) = max_entries s" "cached_bytes (recharged p n rs k s) = cached_bytes s"
  "clock (recharged p n rs k s) = clock s" "entries (recharged p n rs k s) = entries s"
  "hits (recharged p n rs k s) = hits s" "misses (recharged p n rs k s) = misses s"
  by (simp_all add: recharged_def)

lemma recharged_page_len [simp]: "page_len (recharged p n rs k s) = page_len s"
  by (simp add: page_len_def fun_eq_iff)

lemma config_recharged [simp]: "config_inv (recharged p n rs k s) = config_inv s"
  by (auto simp: config_inv_def)

lemma entries_recharged [simp]: "entries_inv (recharged p n rs k s) = entries_inv s"
  by (simp add: entries_inv_def entered_bytes_def)

lemma heap_retained [simp]:
  "heap_inv (retained_update f s) = heap_inv s" "heap_inv (entries_update g s) = heap_inv s"
  "heap_inv (clock_update h s) = heap_inv s" "heap_inv (cached_bytes_update h s) = heap_inv s"
  "heap_inv (hits_update h s) = heap_inv s" "heap_inv (misses_update h s) = heap_inv s"
  "heap_inv (next_page_update h s) = heap_inv s"
  by (simp_all add: heap_inv_def)

lemma on_heap_Inr: "m s = (Inr x, t) \<Longrightarrow> on_heap m s = (Inr x, t)"
  by (simp add: on_heap_def)

lemma page_pool:
  assumes "cache_inv s" "map_of (retained s) a = Some x"
  obtains st where "map_of (pools s) (cache_budget s) = Some st" "byte_len (page x) \<le> used st"
proof -
  note r = pagesD(3) [OF cache_invD(3) [OF assms(1)] assms(2)]
  show ?thesis using reservation_pool [OF cache_invD(1) [OF assms(1)] r] that by auto
qed

lemma arc_drop_last:
  assumes "cache_inv s" "map_of (retained s) a = Some x" "strong x = 1"
    and "map_of (pools s) (cache_budget s) = Some st"
  shows "arc_drop a s = (Inr (), recharged (cache_budget s) (used st - byte_len (page x))
      (hm_remove (reservation x) (reservations s)) (next_reservation s) (retained_update (hm_remove a) s))"
proof -
  let ?s = "retained_update (hm_remove a) s"
  have "drop_reservation (reservation x) ?s = (Inr (), recharged (cache_budget s) (used st - byte_len (page x))
      (hm_remove (reservation x) (reservations s)) (next_reservation s) ?s)"
    using assms(4) cache_invD(1) [OF assms(1)] pagesD(3) [OF cache_invD(3) [OF assms(1)] assms(2)]
    by (subst drop_reservation_eq) auto
  with assms(2,3) show ?thesis
    by (simp add: arc_drop_def on_heap_Inr)
qed

lemma page_len_keys: "page_len s a = 0 \<or> a \<in> hm_keys (retained s)"
  by (auto simp: page_len_def hm_keys_iff split: option.splits)

lemma refs_none:
  assumes "entries_inv s" "refs a (entries s) = 0" "(k, v) \<in> set (entries s)"
  shows "fst v \<noteq> a"
  using assms(2,3) by (force simp: refs_def hm_count_def filter_empty_conv)

lemma entered_bytes_cong:
  assumes "entries t = entries s" "\<And>k b now. (k, b, now) \<in> set (entries s) \<Longrightarrow> page_len t b = page_len s b"
  shows "entered_bytes t = entered_bytes s"
  using assms by (auto simp: entered_bytes_def intro!: hm_total_cong)

lemma arc_drop_last_inv:
  assumes inv: "cache_inv s" and x: "map_of (retained s) a = Some x" "strong x = 1"
    and st: "map_of (pools s) (cache_budget s) = Some st" and held: "refs a (entries s) = 0"
  defines "t \<equiv> recharged (cache_budget s) (used st - byte_len (page x))
      (hm_remove (reservation x) (reservations s)) (next_reservation s) (retained_update (hm_remove a) s)"
  shows "cache_inv t"
  unfolding cache_inv_def
proof (intro conjI)
  note I = cache_invD [OF inv]
  note r = pagesD(3) [OF I(3) x(1)]
  show "heap_inv t"
    using drop_reservation_inv [of "retained_update (hm_remove a) s" "reservation x"] r st I(1)
    by (force simp: t_def)
  show "config_inv t" using I(2) by (simp add: t_def) (simp add: config_inv_def)
  have "page_ok t b y" if b: "map_of (retained t) b = Some y" for b y
  proof -
    from b have y: "map_of (retained s) b = Some y" and ne: "b \<noteq> a"
      by (auto simp: t_def hm_simps split: if_splits)
    with pagesD(6) [OF I(3) x(1) y] have "reservation y \<noteq> reservation x" by auto
    with pagesD(3-5) [OF I(3) y] show ?thesis by (simp add: t_def page_ok_def hm_simps)
  qed
  with I(3) show "pages_inv t"
    by (auto simp: pages_inv_def t_def hm_simps split: if_splits)
  have others: "b \<noteq> a" if "(k, b, now) \<in> set (entries s)" for k b now
    using refs_none [OF I(4) held that] by simp
  then have "entered_bytes t = entered_bytes s"
    by (intro entered_bytes_cong) (auto simp: t_def page_len_def hm_simps)
  moreover have "b \<noteq> a" if "map_of (entries s) k = Some (b, now)" for k b now
    using that others entriesD(1) [OF I(4)] by (auto dest: map_of_SomeD)
  ultimately show "entries_inv t"
    using I(4) by (auto simp: entries_inv_def t_def hm_simps)
qed

text \<open>The pool as the cache sees it, and what no operation of the cache changes.\<close>

definition live :: "cache_world \<Rightarrow> nat" where
  "live s = (case map_of (pools s) (cache_budget s) of Some st \<Rightarrow> used st | None \<Rightarrow> 0)"

definition capacity :: "cache_world \<Rightarrow> nat" where
  "capacity s = (case map_of (pools s) (cache_budget s) of Some st \<Rightarrow> limit st | None \<Rightarrow> 0)"

definition same_config :: "cache_world \<Rightarrow> cache_world \<Rightarrow> bool" where
  "same_config s t \<longleftrightarrow>
     cache_limit t = cache_limit s \<and> max_entries t = max_entries s \<and>
     cache_budget t = cache_budget s \<and> capacity t = capacity s"

lemma same_config_refl [simp]: "same_config s s"
  by (simp add: same_config_def)

lemma same_config_trans: "same_config s t \<Longrightarrow> same_config t u \<Longrightarrow> same_config s u"
  by (simp add: same_config_def)

lemma pool_simps [simp]:
  "live (retained_update f s) = live s" "live (entries_update g s) = live s"
  "live (clock_update h s) = live s" "live (cached_bytes_update h s) = live s"
  "live (hits_update h s) = live s" "live (misses_update h s) = live s"
  "live (next_page_update h s) = live s"
  "capacity (retained_update f s) = capacity s" "capacity (entries_update g s) = capacity s"
  "capacity (clock_update h s) = capacity s" "capacity (cached_bytes_update h s) = capacity s"
  "capacity (hits_update h s) = capacity s" "capacity (misses_update h s) = capacity s"
  "capacity (next_page_update h s) = capacity s"
  by (simp_all add: live_def capacity_def)

lemma live_le_capacity: "cache_inv s \<Longrightarrow> live s \<le> capacity s"
  using heap_invD(7) [OF cache_invD(1)] by (auto simp: live_def capacity_def split: option.splits)

lemma pages_inv_frame:
  assumes "pages_inv s" "retained t = retained s" "next_page t = next_page s" "reservations t = reservations s"
    "cache_budget t = cache_budget s" "\<And>a. refs a (entries t) \<le> refs a (entries s)"
  shows "pages_inv t"
proof -
  have "page_ok t a x" if "map_of (retained s) a = Some x" for a x
    using pagesD(3-5) [OF assms(1) that] assms(4,5) order_trans [OF assms(6)] by (simp add: page_ok_def)
  with assms(1-3) show ?thesis by (auto simp: pages_inv_def)
qed

lemma set_strong_inv:
  assumes inv: "cache_inv s" and x: "map_of (retained s) a = Some x"
    and n: "refs a (entries s) \<le> n" "0 < n"
  shows "cache_inv (retained_update (hm_adjust a (strong_update (\<lambda>_. n))) s)" (is "cache_inv ?t")
  unfolding cache_inv_def
proof (intro conjI)
  note I = cache_invD [OF inv]
  show "heap_inv ?t" using I(1) by simp
  show "config_inv ?t" using I(2) by (simp add: config_inv_def)
  have "page_ok ?t b y" if "map_of (retained ?t) b = Some y" for b y
    using that x n pagesD(3-5) [OF I(3)] by (force simp: hm_simps page_ok_def split: if_splits)
  moreover have orig: "\<exists>y'. map_of (retained s) b = Some y' \<and> reservation y' = reservation y"
    if "map_of (retained ?t) b = Some y" for b y
    using that by (auto simp: hm_simps split: if_splits)
  have "c = b"
    if "map_of (retained ?t) b = Some y" "map_of (retained ?t) c = Some z" "reservation y = reservation z" for b c y z
    using orig [OF that(1)] orig [OF that(2)] that(3) pagesD(6) [OF I(3)] by metis
  ultimately show "pages_inv ?t"
    using I(3) unfolding pages_inv_def by (simp add: hm_keys_adjust hm_wf_adjust)
  have "page_len ?t b = page_len s b" for b
    using x by (auto simp: page_len_def hm_simps split: option.splits)
  then have "entered_bytes ?t = entered_bytes s" by (intro entered_bytes_cong) auto
  with I(4) show "entries_inv ?t" by (auto simp: entries_inv_def hm_simps)
qed

lemma hm_adjust_cong:
  "map_of m k = Some v \<Longrightarrow> f v = g v \<Longrightarrow> hm_wf m \<Longrightarrow> hm_adjust k f m = hm_adjust k g m"
  by (erule (1) hm_split_key) (simp add: hm_adjust_split)

lemma strong_adjust:
  assumes "map_of (retained s) a = Some x" "hm_wf (retained s)"
  shows "retained_update (hm_adjust a (strong_update f)) s
       = retained_update (hm_adjust a (strong_update (\<lambda>_. f (strong x)))) s"
  using hm_adjust_cong [OF assms(1) _ assms(2), of "strong_update f" "strong_update (\<lambda>_. f (strong x))"]
  by (cases s) (simp add: retained_pixels.surjective)

definition same_lru :: "cache_world \<Rightarrow> cache_world \<Rightarrow> bool" where
  "same_lru s t \<longleftrightarrow> entries t = entries s \<and> clock t = clock s \<and> cached_bytes t = cached_bytes s
     \<and> hits t = hits s \<and> misses t = misses s"

text \<open>A dropped reference: every other page is as it was.\<close>

lemma arc_drop_ok:
  assumes inv: "cache_inv s" and x: "map_of (retained s) a = Some x" and held: "refs a (entries s) < strong x"
  obtains t where "arc_drop a s = (Inr (), t)" "cache_inv t" "same_config s t" "same_lru s t"
    "\<And>b. b \<noteq> a \<Longrightarrow> map_of (retained t) b = map_of (retained s) b"
    "map_of (retained t) a = (if strong x = 1 then None else Some (x\<lparr>strong := strong x - 1\<rparr>))"
    "live t = (if strong x = 1 then live s - byte_len (page x) else live s)"
proof -
  note I = cache_invD [OF inv]
  obtain st where st: "map_of (pools s) (cache_budget s) = Some st" using page_pool [OF inv x] .
  show ?thesis
  proof (cases "strong x = 1")
    case True
    with held have "refs a (entries s) = 0" by simp
    note d = arc_drop_last [OF inv x True st] arc_drop_last_inv [OF inv x True st this]
    show ?thesis
      using True st by (intro that [OF d]) (auto simp: same_config_def same_lru_def live_def capacity_def hm_simps)
  next
    case False
    let ?t = "retained_update (hm_adjust a (strong_update (\<lambda>n. n - 1))) s"
    have d: "arc_drop a s = (Inr (), ?t)"
      using x False pagesD(5) [OF I(3) x] by (simp add: arc_drop_def)
    have "cache_inv ?t"
      using held False pagesD(5) [OF I(3) x]
      by (subst strong_adjust [OF x pagesD(1) [OF I(3)]]) (rule set_strong_inv [OF inv x], simp_all)
    then show ?thesis
      using x False by (intro that [OF d]) (simp_all add: same_config_def same_lru_def hm_simps)
  qed
qed

section \<open>Consumers\<close>

text \<open>
  The references to a page that are not entries of the LRU belong to consumers. Eviction
  leaves them and the pages they refer to alone.
\<close>

definition outside :: "cache_world \<Rightarrow> nat \<Rightarrow> nat" where
  "outside s a = (case map_of (retained s) a of None \<Rightarrow> 0 | Some x \<Rightarrow> strong x - refs a (entries s))"

definition keeps_consumers :: "cache_world \<Rightarrow> cache_world \<Rightarrow> bool" where
  "keeps_consumers s t \<longleftrightarrow>
     (\<forall>a. outside t a = outside s a) \<and>
     (\<forall>a. 0 < outside s a \<longrightarrow> map_option page (map_of (retained t) a) = map_option page (map_of (retained s) a))"

interpretation consumers: state_preorder keeps_consumers
  by unfold_locales (simp_all add: keeps_consumers_def)

lemma outside_pos: "0 < outside s a \<longleftrightarrow> (\<exists>x. map_of (retained s) a = Some x \<and> refs a (entries s) < strong x)"
  by (auto simp: outside_def split: option.splits)

section \<open>Eviction\<close>

lemma entered_remove:
  assumes "map_of (entries s) k = Some (a, now)" "hm_wf (entries s)"
  shows "hm_total (\<lambda>v. page_len s (fst v)) (hm_remove k (entries s)) = entered_bytes s - page_len s a"
    "page_len s a \<le> entered_bytes s"
  using hm_total_remove [OF assms, of "\<lambda>v. page_len s (fst v)"] by (simp_all add: entered_bytes_def)

lemma unlink_inv:
  assumes inv: "cache_inv s" and e: "map_of (entries s) k = Some (a, now)"
  shows "cache_inv (cached_bytes_update (\<lambda>_. cached_bytes s - page_len s a) (entries_update (hm_remove k) s))"
    (is "cache_inv ?t")
  unfolding cache_inv_def
proof (intro conjI)
  note I = cache_invD [OF inv]
  note wf = entriesD(1) [OF I(4)]
  show "heap_inv ?t" using I(1) by simp
  show "config_inv ?t" using I(2) by (simp add: config_inv_def)
  show "pages_inv ?t"
    using refs_remove [OF e wf] by (intro pages_inv_frame [OF I(3)]) simp_all
  have "page_len ?t = page_len s" by (simp add: page_len_def fun_eq_iff)
  then have "entered_bytes ?t = cached_bytes ?t"
    using entered_remove(1) [OF e wf] entriesD(4) [OF I(4)] by (simp add: entered_bytes_def)
  then show "entries_inv ?t"
    using I(4) length_hm_remove_le [of k "entries s"]
    by (auto simp: entries_inv_def hm_simps split: if_splits)
qed

lemma remove_entry_ok:
  assumes inv: "cache_inv s" and e: "map_of (entries s) k = Some (a, now)"
    and x: "map_of (retained s) a = Some x"
  obtains t where "remove_entry k a s = (Inr (), t)" "cache_inv t" "same_config s t" "keeps_consumers s t"
    "entries t = hm_remove k (entries s)" "clock t = clock s" "hits t = hits s" "misses t = misses s"
    "cached_bytes t = cached_bytes s - byte_len (page x)"
    "live t = (if strong x = 1 then live s - byte_len (page x) else live s)"
proof -
  note I = cache_invD [OF inv]
  note wf = entriesD(1) [OF I(4)]
  let ?u = "cached_bytes_update (\<lambda>_. cached_bytes s - page_len s a) (entries_update (hm_remove k) s)"
  have len: "page_len s a = byte_len (page x)" using x by (simp add: page_len_def)
  have r: "refs a (entries s) = Suc (refs a (entries ?u))"
    using refs_remove [OF e wf, of a] by simp
  have "page_len s a \<le> cached_bytes s" using entered_remove(2) [OF e wf] entriesD(4) [OF I(4)] by simp
  then have step: "remove_entry k a s = arc_drop a ?u"
    by (simp add: remove_entry_def uncharge_def bindc_assoc page_len_def [of "entries_update (hm_remove k) s"]
        page_len_def [of s, symmetric])
  obtain t where t: "arc_drop a ?u = (Inr (), t)" "cache_inv t" "same_config ?u t" "same_lru ?u t"
    "\<And>b. b \<noteq> a \<Longrightarrow> map_of (retained t) b = map_of (retained ?u) b"
    "map_of (retained t) a = (if strong x = 1 then None else Some (x\<lparr>strong := strong x - 1\<rparr>))"
    "live t = (if strong x = 1 then live ?u - byte_len (page x) else live ?u)"
    using arc_drop_ok [OF unlink_inv [OF inv e], of a x] x r pagesD(4) [OF I(3) x] by (auto simp del: One_nat_def)
  have "outside t b = outside s b" for b
    using t(4,5,6) x r refs_remove [OF e wf, of b] pagesD(4) [OF I(3) x]
    by (cases "b = a") (auto simp: outside_def same_lru_def split: option.splits)
  moreover have "map_option page (map_of (retained t) b) = map_option page (map_of (retained s) b)"
    if "0 < outside s b" for b
    using that t(5,6) x r by (cases "b = a") (auto simp: outside_def)
  ultimately have "keeps_consumers s t" by (simp add: keeps_consumers_def)
  with t step len show ?thesis
    by (intro that [of t]) (simp_all add: same_config_def same_lru_def)
qed

text \<open>
  \<open>evict_one\<close> removes the entry with the smallest tick; its bytes come free exactly when
  no consumer holds the page.
\<close>

lemma evict_one_empty: "entries s = [] \<Longrightarrow> evict_one s = (Inr False, s)"
  by (simp add: evict_one_def)

lemma evict_one_ok:
  assumes inv: "cache_inv s" and ne: "entries s \<noteq> []"
  obtains k a now x t where "evict_one s = (Inr True, t)" "map_of (entries s) k = Some (a, now)"
    "\<And>k' a' now'. map_of (entries s) k' = Some (a', now') \<Longrightarrow> now \<le> now'"
    "map_of (retained s) a = Some x"
    "cache_inv t" "same_config s t" "keeps_consumers s t"
    "entries t = hm_remove k (entries s)" "clock t = clock s" "hits t = hits s" "misses t = misses s"
    "cached_bytes t = cached_bytes s - byte_len (page x)"
    "live t = (if strong x = 1 then live s - byte_len (page x) else live s)"
proof -
  note I = cache_invD [OF inv]
  from ne obtain e where e: "min_by_key (\<lambda>(_, _, now). now) (entries s) = Some e"
    by (cases "min_by_key (\<lambda>(_, _, now). now) (entries s)") auto
  obtain k a now where k: "e = (k, a, now)" by (cases e) auto
  have m: "map_of (entries s) k = Some (a, now)"
    using min_by_key_mem [OF e] k hm_mem_iff [OF entriesD(1) [OF I(4)]] by blast
  obtain x where x: "map_of (retained s) a = Some x" using entry_page [OF inv m] by blast
  have le: "now \<le> now'" if "map_of (entries s) k' = Some (a', now')" for k' a' now'
    using min_by_key_le [OF e map_of_SomeD [OF that]] k by simp
  obtain t where t: "remove_entry k a s = (Inr (), t)" "cache_inv t" "same_config s t" "keeps_consumers s t"
    "entries t = hm_remove k (entries s)" "clock t = clock s" "hits t = hits s" "misses t = misses s"
    "cached_bytes t = cached_bytes s - byte_len (page x)"
    "live t = (if strong x = 1 then live s - byte_len (page x) else live s)"
    by (rule remove_entry_ok [OF inv m x])
  have "evict_one s = (Inr True, t)"
    using e k t(1) by (simp add: evict_one_def bindc_Inr [where m = "remove_entry k a"])
  then show ?thesis by (rule that [OF _ m _ x t(2-10)]) (rule le)
qed

section \<open>Reserving\<close>

text \<open>A reservation its holder has not yet turned into a page.\<close>

definition loose :: "cache_world \<Rightarrow> nat \<Rightarrow> byte_reservation \<Rightarrow> bool" where
  "loose s r v \<longleftrightarrow> map_of (reservations s) r = Some v \<and> (\<forall>a x. map_of (retained s) a = Some x \<longrightarrow> reservation x \<noteq> r)"

lemma cache_pool:
  assumes "cache_inv s"
  obtains st where "map_of (pools s) (cache_budget s) = Some st" "live s = used st" "capacity s = limit st"
    "cache_limit s \<le> limit st" "limit st < u64_limit" "used st \<le> limit st"
proof -
  from cache_invD(2) [OF assms] obtain st where st: "map_of (pools s) (cache_budget s) = Some st"
    "cache_limit s \<le> limit st" by (auto simp: config_inv_def)
  with heap_invD(7,8) [OF cache_invD(1) [OF assms] st(1)] show ?thesis
    by (intro that [OF st(1)]) (simp_all add: live_def capacity_def)
qed

lemma page_reservation_old:
  assumes "cache_inv s" "map_of (retained s) a = Some x"
  shows "reservation x < next_reservation s"
  using pagesD(3) [OF cache_invD(3) [OF assms(1)] assms(2)] heap_invD(4) [OF cache_invD(1) [OF assms(1)]]
  by (blast intro: hm_keys_Some)

lemma try_reserve_world:
  assumes inv: "cache_inv s"
  obtains (granted) t where "live s + n \<le> capacity s"
    "on_heap (try_reserve (cache_budget s) n) s = (Inr (Some (next_reservation s)), t)"
    "cache_inv t" "same_config s t" "same_lru s t" "retained t = retained s"
    "loose t (next_reservation s) \<lparr>budget = cache_budget s, bytes = n\<rparr>" "live t = live s + n"
  | (refused) "capacity s < live s + n" "on_heap (try_reserve (cache_budget s) n) s = (Inr None, s)"
proof -
  note I = cache_invD [OF inv]
  obtain st where st: "map_of (pools s) (cache_budget s) = Some st" "live s = used st" "capacity s = limit st"
    "cache_limit s \<le> limit st" "limit st < u64_limit" "used st \<le> limit st" using cache_pool [OF inv] .
  let ?r = "next_reservation s"
  let ?rs = "hm_insert ?r \<lparr>budget = cache_budget s, bytes = n\<rparr> (reservations s)"
  let ?t = "recharged (cache_budget s) (used st + n) ?rs (Suc ?r) s"
  show ?thesis
  proof (cases "n \<le> limit st - used st")
    case True
    have call: "on_heap (try_reserve (cache_budget s) n) s = (Inr (Some ?r), ?t)"
      using True by (simp add: on_heap_def try_reserve_def catchc_def reserve_exact_eq [OF I(1) st(1)])
    have old: "reservation x \<noteq> ?r" if "map_of (retained s) a = Some x" for a x
      using page_reservation_old [OF inv that] by simp
    have "pages_inv ?t"
      using I(3) old by (auto simp: pages_inv_def page_ok_def hm_simps)
    then have "cache_inv ?t"
      using I reserve_exact_inv [OF I(1) st(1) True] by (simp add: cache_inv_def)
    then show ?thesis
      using call True st old
      by (intro granted [of ?t]) (auto simp: same_config_def same_lru_def live_def capacity_def loose_def hm_simps)
  next
    case False
    then show ?thesis
      using st by (intro refused)
        (simp_all add: on_heap_def try_reserve_def catchc_def reserve_exact_eq [OF I(1) st(1)])
  qed
qed

lemma same_config_sym: "same_config s t \<Longrightarrow> same_config t s"
  by (simp add: same_config_def)

text \<open>
  The loop grants the bytes, or ends with nothing left to evict and still no room. In
  both cases the consumers keep what they hold.
\<close>

lemma reserve_or_evict_ok:
  assumes "cache_inv s"
  shows "\<exists>t. cache_inv t \<and> same_config s t \<and> keeps_consumers s t \<and> clock t = clock s
     \<and> hits t = hits s \<and> misses t = misses s \<and>
     (\<exists>ks. entries t = hm_remove_all ks (entries s)) \<and>
     ((\<exists>r. reserve_or_evict n s = (Inr r, t) \<and> loose t r \<lparr>budget = cache_budget s, bytes = n\<rparr>) \<or>
      (reserve_or_evict n s = (Inl DecodedBudgetExceeded, t) \<and> entries t = [] \<and> capacity t < live t + n))"
  using assms
proof (induction "length (entries s)" arbitrary: s rule: less_induct)
  case less
  from less.prems show ?case
  proof (cases rule: try_reserve_world [where n = n])
    case (granted t)
    have "keeps_consumers s t"
      using granted(5,6) by (auto simp: keeps_consumers_def outside_def same_lru_def split: option.splits)
    moreover have "\<exists>ks. entries t = hm_remove_all ks (entries s)"
      using granted(5) by (intro exI [of _ "[]"]) (simp add: same_lru_def hm_remove_all_def)
    ultimately show ?thesis
      using granted by (intro exI [of _ t]) (auto simp: reserve_or_evict.simps [of n s] same_lru_def)
  next
    case refused
    show ?thesis
    proof (cases "entries s = []")
      case True
      then show ?thesis
        using refused less.prems
        by (intro exI [of _ s])
           (auto simp: reserve_or_evict.simps [of n s] evict_one_empty consumers.R_refl hm_remove_all_def intro!: exI [of _ "[]"])
    next
      case False
      obtain k a now x u where u: "evict_one s = (Inr True, u)" "cache_inv u" "same_config s u"
        "keeps_consumers s u" "entries u = hm_remove k (entries s)" "clock u = clock s"
        "hits u = hits s" "misses u = misses s"
        using evict_one_ok [OF less.prems False] by metis
      have "length (entries u) < length (entries s)" by (rule evict_one_shrinks [OF u(1)])
      from less.hyps [OF this u(2)] obtain t ks where t: "cache_inv t" "same_config u t" "keeps_consumers u t"
        "clock t = clock u" "hits t = hits u" "misses t = misses u" "entries t = hm_remove_all ks (entries u)"
        "(\<exists>r. reserve_or_evict n u = (Inr r, t) \<and> loose t r \<lparr>budget = cache_budget u, bytes = n\<rparr>) \<or>
          (reserve_or_evict n u = (Inl DecodedBudgetExceeded, t) \<and> entries t = [] \<and> capacity t < live t + n)"
        by blast
      have "reserve_or_evict n s = reserve_or_evict n u"
        using refused(2) u(1) by (simp add: reserve_or_evict.simps [of n s])
      moreover have "entries t = hm_remove_all (k # ks) (entries s)"
        using t(7) u(5) by (simp add: hm_remove_all_def)
      moreover have "same_config s t" "keeps_consumers s t"
        using u(3,4) t(2,3) by (auto intro: same_config_trans consumers.R_trans)
      moreover have "cache_budget u = cache_budget s" using u(3) by (simp add: same_config_def)
      ultimately show ?thesis
        using t u by (intro exI [of _ t]) auto
    qed
  qed
qed

text \<open>After \<open>make_room\<close> the new page fits the LRU.\<close>

lemma make_room_ok:
  assumes "cache_inv s" "n \<le> cache_limit s"
  shows "\<exists>t. make_room n s = (Inr (), t) \<and> cache_inv t \<and> same_config s t \<and> keeps_consumers s t
     \<and> clock t = clock s \<and> hits t = hits s \<and> misses t = misses s
     \<and> cached_bytes t \<le> cache_limit s - n \<and> length (entries t) < max_entries s
     \<and> (\<exists>ks. entries t = hm_remove_all ks (entries s))"
  using assms
proof (induction "length (entries s)" arbitrary: s rule: less_induct)
  case less
  show ?case
  proof (cases "cached_bytes s > cache_limit s - n \<or> length (entries s) \<ge> max_entries s")
    case False
    then show ?thesis
      using less.prems
      by (intro exI [of _ s]) (auto simp: make_room.simps [of n s] consumers.R_refl hm_remove_all_def intro!: exI [of _ "[]"])
  next
    case True
    have ne: "entries s \<noteq> []"
      using True entriesD(4) [OF cache_invD(4) [OF less.prems(1)]] cache_invD(2) [OF less.prems(1)]
      by (auto simp: entered_bytes_def config_inv_def)
    obtain k a now x u where u: "evict_one s = (Inr True, u)" "cache_inv u" "same_config s u"
      "keeps_consumers s u" "entries u = hm_remove k (entries s)" "clock u = clock s"
      "hits u = hits s" "misses u = misses s"
      using evict_one_ok [OF less.prems(1) ne] by metis
    have "length (entries u) < length (entries s)" by (rule evict_one_shrinks [OF u(1)])
    from less.hyps [OF this u(2)] u(3) less.prems(2) obtain t ks where t:
      "make_room n u = (Inr (), t)" "cache_inv t" "same_config u t" "keeps_consumers u t"
      "clock t = clock u" "hits t = hits u" "misses t = misses u"
      "cached_bytes t \<le> cache_limit u - n" "length (entries t) < max_entries u"
      "entries t = hm_remove_all ks (entries u)" by (auto simp: same_config_def)
    have "make_room n s = make_room n u"
      using True u(1) by (simp add: make_room.simps [of n s])
    moreover have "entries t = hm_remove_all (k # ks) (entries s)"
      using t(10) u(5) by (simp add: hm_remove_all_def)
    moreover have "same_config s t" "keeps_consumers s t"
      using u(3,4) t(3,4) by (auto intro: same_config_trans consumers.R_trans)
    ultimately show ?thesis
      using t u by (intro exI [of _ t]) (auto simp: same_config_def)
  qed
qed

section \<open>Entering a page\<close>

lemma tick_eq:
  "tick s = (if clock s + 1 < u64_limit then (Inr (clock s + 1), clock_update (\<lambda>_. clock s + 1) s)
             else (Inl LruClockOverflow, s))"
  by (simp add: tick_def checked_add_def)

lemma tick_inv:
  assumes "cache_inv s" "clock s \<le> n" "n < u64_limit"
  shows "cache_inv (clock_update (\<lambda>_. n) s)" (is "cache_inv ?t")
proof -
  note I = cache_invD [OF assms(1)]
  have "page_len ?t = page_len s" by (simp add: page_len_def fun_eq_iff)
  then have "entered_bytes ?t = entered_bytes s" by (simp add: entered_bytes_def)
  moreover have "now \<le> n" if "map_of (entries s) k = Some (a, now)" for k a now
    using entriesD(3) [OF I(4) that] assms(2) by simp
  ultimately have "entries_inv ?t" using I(4) by (simp add: entries_inv_def)
  moreover have "pages_inv ?t" by (rule pages_inv_frame [OF I(3)]) simp_all
  ultimately show ?thesis using I(1,2) assms(3) by (simp add: cache_inv_def config_inv_def)
qed

lemma clone_inv:
  assumes "cache_inv s" "map_of (retained s) a = Some x"
  shows "cache_inv (retained_update (hm_adjust a (strong_update Suc)) s)"
  using pagesD(1,4,5) [OF cache_invD(3) [OF assms(1)]] assms(2)
  by (subst strong_adjust [OF assms(2)]) (auto intro!: set_strong_inv [OF assms] le_SucI)

lemma touch_inv:
  assumes inv: "cache_inv s" and e: "map_of (entries s) k = Some (a, old)" and now: "now \<le> clock s"
  shows "cache_inv (entries_update (hm_adjust k (\<lambda>(b, _). (b, now))) s)" (is "cache_inv ?t")
  unfolding cache_inv_def
proof (intro conjI)
  note I = cache_invD [OF inv]
  note wf = entriesD(1) [OF I(4)]
  show "heap_inv ?t" using I(1) by simp
  show "config_inv ?t" using I(2) by (simp add: config_inv_def)
  show "pages_inv ?t" using refs_adjust [OF e wf] by (intro pages_inv_frame [OF I(3)]) simp_all
  have "page_len ?t = page_len s" by (simp add: page_len_def fun_eq_iff)
  then have "entered_bytes ?t = entered_bytes s"
    using hm_total_adjust [OF e wf, of "\<lambda>v. page_len s (fst v)" "\<lambda>(b, _). (b, now)"]
    by (simp add: entered_bytes_def)
  then show "entries_inv ?t"
    using I(4) e now by (auto simp: entries_inv_def hm_simps split: if_splits)
qed

lemma link_inv:
  assumes inv: "cache_inv s" and k: "k \<notin> hm_keys (entries s)" and x: "map_of (retained s) a = Some x"
    and free: "refs a (entries s) < strong x" and now: "now \<le> clock s"
    and room: "cached_bytes s + byte_len (page x) \<le> cache_limit s" "length (entries s) < max_entries s"
  shows "cache_inv (entries_update (hm_insert k (a, now))
           (cached_bytes_update (\<lambda>_. cached_bytes s + byte_len (page x)) s))" (is "cache_inv ?t")
  unfolding cache_inv_def
proof (intro conjI)
  note I = cache_invD [OF inv]
  show "heap_inv ?t" using I(1) by simp
  show "config_inv ?t" using I(2) by (simp add: config_inv_def)
  have "page_ok ?t b y" if "map_of (retained s) b = Some y" for b y
    using that pagesD(3-5) [OF I(3) that] free x by (auto simp: page_ok_def refs_insert [OF k])
  with I(3) show "pages_inv ?t" by (auto simp: pages_inv_def)
  have "page_len ?t = page_len s" by (simp add: page_len_def fun_eq_iff)
  then have "entered_bytes ?t = entered_bytes s + byte_len (page x)"
    using x by (simp add: entered_bytes_def hm_total_insert_fresh [OF k]) (simp add: page_len_def)
  then show "entries_inv ?t"
    using I(4) x now room length_hm_insert_le [of k "(a, now)" "entries s"]
    by (auto simp: entries_inv_def hm_simps hm_keys_Some split: if_splits)
qed

lemma update_commute:
  "retained_update f (cached_bytes_update g s) = cached_bytes_update g (retained_update f s)"
  "cached_bytes_update h (entries_update e s) = entries_update e (cached_bytes_update h s)"
  by (cases s, simp)+

lemma arc_new_ok:
  assumes inv: "cache_inv s" and r: "loose s r \<lparr>budget = cache_budget s, bytes = byte_len p\<rparr>"
  obtains t where "arc_new p r s = (Inr (next_page s), t)" "cache_inv t" "same_config s t" "same_lru s t"
    "map_of (retained t) (next_page s) = Some \<lparr>page = p, reservation = r, strong = 1\<rparr>"
    "\<And>b. b \<noteq> next_page s \<Longrightarrow> map_of (retained t) b = map_of (retained s) b"
    "refs (next_page s) (entries t) = 0" "live t = live s"
proof -
  note I = cache_invD [OF inv]
  let ?a = "next_page s"
  let ?t = "s\<lparr>retained := hm_insert ?a \<lparr>page = p, reservation = r, strong = 1\<rparr> (retained s), next_page := Suc ?a\<rparr>"
  have fresh: "?a \<notin> hm_keys (retained s)" using pagesD(2) [OF I(3)] by auto
  then have none: "b \<noteq> ?a" if "map_of (entries s) k = Some (b, now)" for k b now
    using entriesD(2) [OF I(4) that] by auto
  then have refs: "refs ?a (entries s) = 0" using refs_zero entriesD(1) [OF I(4)] by metis
  have call: "arc_new p r s = (Inr ?a, ?t)" by (simp add: arc_new_def)
  have "page_ok ?t b y" if "map_of (retained ?t) b = Some y" for b y
    using that r refs pagesD(3-5) [OF I(3), of b] by (auto simp: page_ok_def loose_def hm_simps split: if_splits)
  moreover have owned: "reservation y \<noteq> r" if "map_of (retained s) b = Some y" for b y
    using that r by (simp add: loose_def)
  have "b = c"
    if "map_of (retained ?t) b = Some y" "map_of (retained ?t) c = Some z" "reservation y = reservation z" for b c y z
    using that pagesD(6) [OF I(3), of b y c z] owned [of b y] owned [of c z]
    by (auto simp: hm_simps split: if_splits)
  ultimately have pages: "pages_inv ?t"
    using pagesD(1,2) [OF I(3)] unfolding pages_inv_def by (auto simp: hm_keys_insert hm_wf_insert less_Suc_eq)
  have "entered_bytes ?t = entered_bytes s"
    using none entriesD(1) [OF I(4)]
    by (intro entered_bytes_cong) (auto simp: page_len_def hm_simps hm_mem_iff)
  then have "entries_inv ?t" using I(4) by (auto simp: entries_inv_def hm_simps)
  with pages have "cache_inv ?t"
    using I(1,2) by (simp add: cache_inv_def) (simp add: config_inv_def)
  then show ?thesis
    using refs by (intro that [OF call]) (simp_all add: same_config_def same_lru_def hm_simps)
qed

text \<open>
  What every public operation guarantees when it returns: the invariant and the
  configuration.
\<close>

definition settled :: "cache_world \<Rightarrow> cache_world \<Rightarrow> bool" where
  "settled s t \<longleftrightarrow> cache_inv t \<and> same_config s t"

lemma settled_trans: "settled s t \<Longrightarrow> settled t u \<Longrightarrow> settled s u"
  by (auto simp: settled_def intro: same_config_trans)

lemma get_ok:
  assumes inv: "cache_inv s"
  obtains (overflow) "get k s = (Inl LruClockOverflow, s)" "u64_limit \<le> clock s + 1"
  | (miss) t where "get k s = (Inr None, t)" "map_of (entries s) k = None"
      "t = clock_update (\<lambda>_. clock s + 1) s" "settled s t"
  | (hit) t a old where "get k s = (Inr (Some a), t)" "map_of (entries s) k = Some (a, old)"
      "entries t = hm_adjust k (\<lambda>(b, _). (b, clock s + 1)) (entries s)" "clock t = clock s + 1" "settled s t"
      "retained t = hm_adjust a (strong_update Suc) (retained s)" "live t = live s"
proof (cases "clock s + 1 < u64_limit")
  case False
  then show ?thesis by (intro overflow) (simp_all add: get_def tick_eq bindc_def [of tick])
next
  case True
  let ?u = "clock_update (\<lambda>_. clock s + 1) s"
  have u: "tick s = (Inr (clock s + 1), ?u)" "cache_inv ?u"
    using True tick_inv [OF inv] by (simp_all add: tick_eq)
  show ?thesis
  proof (cases "map_of (entries s) k")
    case None
    with u show ?thesis
      by (intro miss [of ?u]) (simp_all add: get_def bindc_Inr [where m = tick] settled_def same_config_def)
  next
    case (Some e)
    obtain a old where e: "e = (a, old)" by (cases e)
    let ?v = "entries_update (hm_adjust k (\<lambda>(b, _). (b, clock s + 1))) ?u"
    let ?t = "retained_update (hm_adjust a (strong_update Suc)) ?v"
    have "cache_inv ?v" using Some e by (intro touch_inv [OF u(2)]) simp_all
    moreover obtain x where "map_of (retained s) a = Some x"
      using entry_page [OF inv] Some e by blast
    ultimately have "cache_inv ?t" by (intro clone_inv) simp_all
    with u Some e show ?thesis
      by (intro hit [of a ?t old])
         (simp_all add: get_def bindc_Inr [where m = tick] arc_clone_def settled_def same_config_def)
  qed
qed

lemma remove_old_ok:
  assumes inv: "cache_inv s"
  obtains t where "remove_old k s = (Inr (), t)" "settled s t" "keeps_consumers s t"
    "k \<notin> hm_keys (entries t)" "clock t = clock s" "cached_bytes t \<le> cached_bytes s"
    "length (entries t) \<le> length (entries s)" "live t \<le> live s" "entries t = hm_remove k (entries s)"
proof (cases "map_of (entries s) k")
  case None
  then have "k \<notin> hm_keys (entries s)" by (simp add: hm_keys_iff)
  with None inv show ?thesis
    by (intro that [of s]) (simp_all add: remove_old_def settled_def consumers.R_refl hm_remove_absent)
next
  case (Some e)
  obtain a now where e: "e = (a, now)" by (cases e)
  from entry_page [OF inv] Some e obtain x where x: "map_of (retained s) a = Some x" by blast
  obtain t where t: "remove_entry k a s = (Inr (), t)" "cache_inv t" "same_config s t" "keeps_consumers s t"
    "entries t = hm_remove k (entries s)" "clock t = clock s"
    "cached_bytes t = cached_bytes s - byte_len (page x)"
    "live t = (if strong x = 1 then live s - byte_len (page x) else live s)"
    using remove_entry_ok [OF inv _ x] Some e by metis
  with Some e show ?thesis
    by (intro that [of t])
       (auto simp: remove_old_def settled_def hm_simps intro: length_hm_remove_le)
qed

lemma insert_entry_ok:
  assumes inv: "cache_inv s" and k: "k \<notin> hm_keys (entries s)" and x: "map_of (retained s) a = Some x"
    and now: "now \<le> clock s" and n: "n = byte_len (page x)"
    and room: "cached_bytes s + n \<le> cache_limit s" "length (entries s) < max_entries s"
  obtains t where "bindc (charge_cache n) (\<lambda>_. insert_entry k a now) s = (Inr (), t)" "settled s t"
    "entries t = hm_insert k (a, now) (entries s)" "clock t = clock s" "live t = live s"
    "retained t = hm_adjust a (strong_update Suc) (retained s)"
proof -
  note I = cache_invD [OF inv]
  let ?u = "retained_update (hm_adjust a (strong_update Suc)) s"
  let ?t = "entries_update (hm_insert k (a, now)) (cached_bytes_update (\<lambda>_. cached_bytes s + n) ?u)"
  from k have none: "map_of (entries s) k = None" by (cases "map_of (entries s) k") (auto simp: hm_keys_iff)
  have fits: "cached_bytes s + n < u64_limit" using room(1) I(2) by (auto simp: config_inv_def)
  have "cache_inv ?t"
    using link_inv [OF clone_inv [OF inv x], of k a "x\<lparr>strong := Suc (strong x)\<rparr>" now] k x now n room
      pagesD(4) [OF I(3) x]
    by (simp add: hm_simps)
  then show ?thesis
    using fits none
    by (intro that [of ?t])
       (simp_all add: charge_cache_def bindc_assoc checked_add_def insert_entry_def arc_clone_def
         update_commute settled_def same_config_def)
qed

text \<open>
  The tail of \<open>commit_rgb\<close> and \<open>decode\<close>: the page is entered under the key with a new
  tick, or the clock is exhausted and the new page is dropped again.
\<close>

definition store_tail :: "string \<Rightarrow> nat \<Rightarrow> nat \<Rightarrow> nat cache_comp" where
  "store_tail k a n =
     bindc (make_room n) (\<lambda>_.
     bindc (tick_or_drop a) (\<lambda>now.
     bindc (remove_old k) (\<lambda>_.
     bindc (charge_cache n) (\<lambda>_.
     bindc (insert_entry k a now) (\<lambda>_.
     ret a)))))"

lemma keeps_consumers_page:
  assumes "keeps_consumers s t" "map_of (retained s) a = Some x" "refs a (entries s) < strong x"
  obtains x' where "map_of (retained t) a = Some x'" "page x' = page x" "refs a (entries t) < strong x'"
    "strong x' - refs a (entries t) = strong x - refs a (entries s)"
proof -
  from assms have "0 < outside s a" "outside t a = outside s a"
    "map_option page (map_of (retained t) a) = map_option page (map_of (retained s) a)"
    by (auto simp: outside_pos keeps_consumers_def)
  with assms(2) that show ?thesis by (auto simp: outside_def)
qed

lemma store_tail_ok:
  assumes inv: "cache_inv s" and x: "map_of (retained s) a = Some x" "refs a (entries s) < strong x"
    and n: "n = byte_len (page x)" "n \<le> cache_limit s"
  obtains (overflow) t where "store_tail k a n s = (Inl LruClockOverflow, t)" "settled s t" "u64_limit \<le> clock s + 1"
  | (stored) t x' where "store_tail k a n s = (Inr a, t)" "settled s t"
      "map_of (entries t) k = Some (a, clock s + 1)" "clock t = clock s + 1"
      "map_of (retained t) a = Some x'" "page x' = page x"
proof -
  from make_room_ok [OF inv n(2)] obtain u where u: "make_room n s = (Inr (), u)" "cache_inv u"
    "same_config s u" "keeps_consumers s u" "clock u = clock s" "cached_bytes u \<le> cache_limit s - n"
    "length (entries u) < max_entries s" by blast
  obtain y where y: "map_of (retained u) a = Some y" "page y = page x" "refs a (entries u) < strong y"
    using keeps_consumers_page [OF u(4) x] by blast
  show ?thesis
  proof (cases "clock s + 1 < u64_limit")
    case False
    then have "tick u = (Inl LruClockOverflow, u)" using u(5) by (simp add: tick_eq)
    moreover obtain t where t: "arc_drop a u = (Inr (), t)" "cache_inv t" "same_config u t"
      using arc_drop_ok [OF u(2) y(1,3)] by blast
    ultimately have "tick_or_drop a u = (Inl LruClockOverflow, t)"
      by (simp add: tick_or_drop_def catchc_def bindc_Inr [where m = "arc_drop a"])
    then have "store_tail k a n s = (Inl LruClockOverflow, t)"
      by (simp add: store_tail_def bindc_Inr [where m = "make_room n", OF u(1)] bindc_Inl [where m = "tick_or_drop a"])
    then show ?thesis
      using False t u(3) by (intro overflow) (auto simp: settled_def intro: same_config_trans)
  next
    case True
    let ?v = "clock_update (\<lambda>_. clock s + 1) u"
    have v: "tick_or_drop a u = (Inr (clock s + 1), ?v)" "cache_inv ?v"
      using True u(5) tick_inv [OF u(2), of "clock s + 1"] by (simp_all add: tick_or_drop_def catchc_def tick_eq)
    obtain w where w: "remove_old k ?v = (Inr (), w)" "settled ?v w" "keeps_consumers ?v w"
      "k \<notin> hm_keys (entries w)" "clock w = clock s + 1" "cached_bytes w \<le> cached_bytes u"
      "length (entries w) \<le> length (entries u)"
      by (rule remove_old_ok [OF v(2), of k]) simp
    obtain z where z: "map_of (retained w) a = Some z" "page z = page x"
      using keeps_consumers_page [OF w(3), of a y] y by auto
    have cfg: "cache_inv w" "cache_limit w = cache_limit s" "max_entries w = max_entries s" "same_config s w"
      using w(2) u(3) by (auto simp: settled_def same_config_def)
    have fits: "clock s + 1 \<le> clock w" "n = byte_len (page z)" "cached_bytes w + n \<le> cache_limit w"
      "length (entries w) < max_entries w"
      using z(2) n u(6,7) w(5-7) cfg(2,3) by simp_all
    obtain t where t: "bindc (charge_cache n) (\<lambda>_. insert_entry k a (clock s + 1)) w = (Inr (), t)" "settled w t"
      "entries t = hm_insert k (a, clock s + 1) (entries w)" "clock t = clock w"
      "retained t = hm_adjust a (strong_update Suc) (retained w)"
      by (rule insert_entry_ok [OF cfg(1) w(4) z(1) fits])
    have "store_tail k a n s = bindc (bindc (charge_cache n) (\<lambda>_. insert_entry k a (clock s + 1))) (\<lambda>_. ret a) w"
      by (simp add: store_tail_def bindc_Inr [where m = "make_room n", OF u(1)]
          bindc_Inr [where m = "tick_or_drop a", OF v(1)] bindc_Inr [where m = "remove_old k", OF w(1)] bindc_assoc
          del: One_nat_def)
    also have "\<dots> = (Inr a, t)" by (subst bindc_Inr [where m = "bindc _ _", OF t(1)]) simp
    finally show ?thesis
      using t w(5) z cfg(4)
      by (intro stored [of t "strong_update Suc z"]) (auto simp: hm_simps settled_def intro: same_config_trans)
  qed
qed

section \<open>Public operations\<close>

lemma drop_loose_ok:
  assumes inv: "cache_inv s" and r: "loose s r v"
  obtains t where "on_heap (drop_reservation r) s = (Inr (), t)" "settled s t" "same_lru s t" "retained t = retained s"
proof -
  note I = cache_invD [OF inv]
  from r have v: "map_of (reservations s) r = Some v" by (simp add: loose_def)
  obtain st where st: "map_of (pools s) (budget v) = Some st" using reservation_pool [OF I(1) v] .
  let ?t = "recharged (budget v) (used st - bytes v) (hm_remove r (reservations s)) (next_reservation s) s"
  have call: "on_heap (drop_reservation r) s = (Inr (), ?t)"
    by (rule on_heap_Inr) (rule drop_reservation_eq [OF I(1) v st])
  have "pages_inv ?t"
    using I(3) r by (auto simp: pages_inv_def page_ok_def loose_def hm_simps)
  with I drop_reservation_inv [OF I(1) v st] have "cache_inv ?t" by (simp add: cache_inv_def)
  moreover have "same_config s ?t" using st by (auto simp: same_config_def capacity_def split: option.splits)
  ultimately show ?thesis using call by (intro that [of ?t]) (simp_all add: settled_def same_lru_def)
qed

lemma commit_rgb_cases:
  assumes inv: "cache_inv s" and r: "loose s r v"
  obtains (mismatch) t where "commit_rgb k p r s = (Inl DecodedReservationIdentity, t)" "settled s t"
      "\<not> (bytes v = byte_len p \<and> budget v = cache_budget s)"
  | (overflow) t where "commit_rgb k p r s = (Inl LruClockOverflow, t)" "settled s t" "u64_limit \<le> clock s + 1"
  | (uncached) t where "commit_rgb k p r s = (Inr (next_page s), t)" "settled s t" "cache_limit s < byte_len p"
      "map_option page (map_of (retained t) (next_page s)) = Some p"
  | (cached) t where "commit_rgb k p r s = (Inr (next_page s), t)" "settled s t" "byte_len p \<le> cache_limit s"
      "map_of (entries t) k = Some (next_page s, clock s + 1)" "clock t = clock s + 1"
      "map_option page (map_of (retained t) (next_page s)) = Some p"
proof -
  from r have v: "map_of (reservations s) r = Some v" by (simp add: loose_def)
  have load: "on_heap (load_reservation r) s = (Inr v, s)" using v by (simp add: on_heap_def load_reservation_def)
  show ?thesis
  proof (cases "bytes v = byte_len p \<and> budget v = cache_budget s")
    case False
    obtain t where t: "on_heap (drop_reservation r) s = (Inr (), t)" "settled s t" using drop_loose_ok [OF inv r] .
    have "commit_rgb k p r s = (Inl DecodedReservationIdentity, t)"
      using False by (auto simp: commit_rgb_def bindc_Inr [where m = "on_heap (load_reservation r)", OF load]
          bindc_Inr [where m = "on_heap (drop_reservation r)", OF t(1)])
    from mismatch [OF this t(2) False] show ?thesis .
  next
    case True
    then have "v = \<lparr>budget = cache_budget s, bytes = byte_len p\<rparr>" by simp
    with r obtain u where u: "arc_new p r s = (Inr (next_page s), u)" "cache_inv u" "same_config s u" "same_lru s u"
      "map_of (retained u) (next_page s) = Some \<lparr>page = p, reservation = r, strong = 1\<rparr>"
      "refs (next_page s) (entries u) = 0" using arc_new_ok [OF inv] by metis
    have cfg: "cache_limit u = cache_limit s" "clock u = clock s"
      using u(3,4) by (simp_all add: same_config_def same_lru_def)
    have run: "commit_rgb k p r s =
        (if byte_len p \<le> cache_limit s then store_tail k (next_page s) (byte_len p) u else (Inr (next_page s), u))"
      using True cfg by (simp add: commit_rgb_def bindc_Inr [where m = "on_heap (load_reservation r)", OF load]
          bindc_Inr [where m = "arc_new p r", OF u(1)] store_tail_def)
    show ?thesis
    proof (cases "byte_len p \<le> cache_limit s")
      case fits: True
      have settled: "settled s t" if "settled u t" for t
        using that u(3) by (auto simp: settled_def intro: same_config_trans)
      have n: "byte_len p = byte_len (page \<lparr>page = p, reservation = r, strong = 1\<rparr>)" "byte_len p \<le> cache_limit u"
        "refs (next_page s) (entries u) < strong \<lparr>page = p, reservation = r, strong = 1\<rparr>"
        using fits cfg u(6) by simp_all
      show ?thesis
      proof (cases rule: store_tail_ok [OF u(2,5) n(3,1,2), of k, case_names over stored])
        case (over t)
        with run fits settled cfg show ?thesis by (intro overflow [of t]) simp_all
      next
        case (stored t x')
        with run fits settled cfg show ?thesis by (intro cached [of t]) simp_all
      qed
    next
      case False
      with run u show ?thesis by (intro uncached [of u]) (simp_all add: settled_def)
    qed
  qed
qed

text \<open>
  Outcomes: what an operation may return in a state that satisfies the invariant, with the
  panics excluded.
\<close>

definition panic_error :: "preview_error \<Rightarrow> bool" where
  "panic_error e = (case e of
      CachedBytesPanic \<Rightarrow> True | MissingEntryPanic \<Rightarrow> True | UnreachablePanic \<Rightarrow> True
    | Budget (Panic _) \<Rightarrow> True | _ \<Rightarrow> False)"

definition panics :: "preview_error + 'a \<Rightarrow> bool" where
  "panics r = (case r of Inl e \<Rightarrow> panic_error e | Inr _ \<Rightarrow> False)"

lemma panics_simps [simp]: "panics (Inl e) = panic_error e" "\<not> panics (Inr x)"
  by (simp_all add: panics_def)

definition fine :: "cache_world \<Rightarrow> (preview_error + 'a) \<times> cache_world \<Rightarrow> bool" where
  "fine s out \<longleftrightarrow> settled s (snd out) \<and> \<not> panics (fst out)"

lemma fineI: "m = (r, t) \<Longrightarrow> settled s t \<Longrightarrow> \<not> panics r \<Longrightarrow> fine s m"
  by (simp add: fine_def)

lemma settled_refl: "cache_inv s \<Longrightarrow> settled s s"
  by (simp add: settled_def)

lemma counter_settled:
  assumes "cache_inv s"
  shows "settled s (hits_update f s)" "settled s (misses_update g s)"
proof -
  have "page_len (hits_update f s) = page_len s" "page_len (misses_update g s) = page_len s"
    by (simp_all add: page_len_def fun_eq_iff)
  with assms show "settled s (hits_update f s)" "settled s (misses_update g s)"
    by (simp_all add: settled_def same_config_def cache_inv_def config_inv_def pages_inv_def page_ok_def
        entries_inv_def entered_bytes_def)
qed

lemma get_fine: "cache_inv s \<Longrightarrow> fine s (get k s)"
  by (cases rule: get_ok [where k = k]) (auto intro!: fineI simp: settled_refl panic_error_def)

lemma managed_lookup_fine:
  assumes "cache_inv s"
  shows "fine s (managed_lookup k s)"
proof (cases "k \<noteq> [] \<and> length k \<le> 64")
  case False
  with assms show ?thesis by (auto simp: managed_lookup_def fine_def settled_refl panic_error_def)
next
  case True
  obtain r t where g: "get k s = (r, t)" by (cases "get k s")
  have t: "settled s t" "\<not> panics r" using get_fine [OF assms, of k] g by (simp_all add: fine_def)
  then have "settled s (hits_update f t)" "settled s (misses_update f t)" for f
    using counter_settled by (auto simp: settled_def intro: same_config_trans)
  with True g t show ?thesis
    by (cases r) (auto simp: managed_lookup_def fine_def bindc_def [of "get k"] panic_error_def)
qed

lemma reserve_or_evict_fine: "cache_inv s \<Longrightarrow> fine s (reserve_or_evict n s)"
  using reserve_or_evict_ok [of s n] by (auto simp: fine_def settled_def panic_error_def)

lemma rgb_bytes_no_panic: "rgb_bytes w h = Inl e \<Longrightarrow> \<not> panic_error e"
  by (auto simp: rgb_bytes_def panic_error_def split: if_splits option.splits)

lemma reserve_rgb_fine:
  assumes "cache_inv s"
  shows "fine s (reserve_rgb w h s)"
proof (cases "rgb_bytes w h")
  case (Inl e)
  with assms rgb_bytes_no_panic [OF Inl] show ?thesis by (simp add: reserve_rgb_def fine_def settled_refl)
qed (simp add: assms reserve_rgb_def reserve_or_evict_fine)

lemma commit_rgb_fine: "cache_inv s \<Longrightarrow> loose s r v \<Longrightarrow> fine s (commit_rgb k p r s)"
  by (cases rule: commit_rgb_cases [where k = k and p = p]) (auto intro!: fineI simp: panic_error_def)

lemma image_decode_no_panic: "\<not> panic_error (image_decode_error be e)"
  by (auto simp: image_decode_error_def panic_error_def split: option.splits image_error.splits)

lemma encoded_no_panic:
  "encoded_input b = Inl e1 \<Longrightarrow> \<not> panic_error e1"
  "native_decode_status buf st = Inl e2 \<Longrightarrow> \<not> panic_error e2"
  "native_result buf st = Inl e3 \<Longrightarrow> \<not> panic_error e3"
  "prepared_new w h px = Inl e4 \<Longrightarrow> \<not> panic_error e4"
  by (auto simp: panic_error_def encoded_input_def native_decode_status_def native_result_def prepared_new_def
      split: if_splits option.splits)

lemma map_err_no_panic: "map_err (image_decode_error be) r = Inl e \<Longrightarrow> \<not> panic_error e"
  using image_decode_no_panic [of be] by (cases r) (auto simp: map_err_def)

lemma tryr_Inl_iff: "tryr r f = Inl e \<longleftrightarrow> r = Inl e \<or> (\<exists>x. r = Inr x \<and> f x = Inl e)"
  by (cases r) simp_all

lemma image_format_of_simps [simp]:
  "c \<noteq> Avif \<Longrightarrow> image_format_of c = Inr (case c of Jpeg \<Rightarrow> JpegFormat | _ \<Rightarrow> WebPFormat)"
  by (cases c) (simp_all add: image_format_of_def)

lemma mismatch_no_panic: "\<not> panic_error (DecodeError st msg)"
  by (simp add: panic_error_def)

lemma encoded_dimensions_no_panic: "encoded_dimensions be b c = Inl e \<Longrightarrow> \<not> panic_error e"
  by (auto simp: encoded_dimensions_def tryr_Inl_iff Let_def mismatch_no_panic split: if_splits prod.splits
      dest: encoded_no_panic map_err_no_panic)

lemma decode_no_panic: "decode be b c = Inl e \<Longrightarrow> \<not> panic_error e"
  by (auto simp: decode_def tryr_Inl_iff Let_def mismatch_no_panic split: if_splits prod.splits
      dest: encoded_no_panic map_err_no_panic)

text \<open>
  In \<open>decode\<close> the key is absent when the page is entered, so its tail is the tail of
  \<open>commit_rgb\<close>.
\<close>

definition decode_tail :: "string \<Rightarrow> nat \<Rightarrow> nat \<Rightarrow> nat cache_comp" where
  "decode_tail k a n =
     bindc (make_room n) (\<lambda>_.
     bindc (tick_or_drop a) (\<lambda>now.
     bindc (charge_cache n) (\<lambda>_.
     bindc (insert_entry k a now) (\<lambda>_.
     ret a))))"

lemma decode_tail_eq:
  assumes inv: "cache_inv s" and n: "n \<le> cache_limit s" and k: "map_of (entries s) k = None"
    and x: "map_of (retained s) a = Some x" "refs a (entries s) < strong x"
  shows "decode_tail k a n s = store_tail k a n s"
proof -
  from make_room_ok [OF inv n] obtain u ks where u: "make_room n s = (Inr (), u)" "cache_inv u"
    "keeps_consumers s u" "entries u = hm_remove_all ks (entries s)" by blast
  obtain y where y: "map_of (retained u) a = Some y" "refs a (entries u) < strong y"
    using keeps_consumers_page [OF u(3) x] by blast
  have none: "map_of (entries u) k = None" using u(4) k by (simp add: hm_simps)
  show ?thesis
  proof (cases "clock u + 1 < u64_limit")
    case True
    then have "tick_or_drop a u = (Inr (clock u + 1), clock_update (\<lambda>_. clock u + 1) u)"
      by (simp add: tick_or_drop_def catchc_def tick_eq)
    then show ?thesis
      using none by (simp add: decode_tail_def store_tail_def bindc_Inr [where m = "make_room n", OF u(1)]
          bindc_Inr [where m = "tick_or_drop a"] remove_old_def bindc_assoc)
  next
    case False
    obtain t where "arc_drop a u = (Inr (), t)" using arc_drop_ok [OF u(2) y] by blast
    with False have "tick_or_drop a u = (Inl LruClockOverflow, t)"
      by (simp add: tick_or_drop_def catchc_def tick_eq bindc_Inr [where m = "arc_drop a"])
    then show ?thesis
      by (simp add: decode_tail_def store_tail_def bindc_Inr [where m = "make_room n", OF u(1)]
          bindc_Inl [where m = "tick_or_drop a"])
  qed
qed

lemma store_fine:
  assumes "cache_inv s" "map_of (retained s) a = Some x" "refs a (entries s) < strong x"
    "n = byte_len (page x)" "n \<le> cache_limit s"
  shows "fine s (store_tail k a n s)"
  by (cases rule: store_tail_ok [OF assms, of k, case_names over stored]) (auto intro!: fineI simp: panic_error_def)

lemma fine_trans: "settled s t \<Longrightarrow> fine t m \<Longrightarrow> fine s m"
  by (auto simp: fine_def intro: settled_trans)

lemma decode_page_fine:
  assumes inv: "cache_inv s" and k: "map_of (entries s) k = None"
    and r: "loose s r \<lparr>budget = cache_budget s, bytes = w * h * 3\<rparr>"
  shows "fine s (bindc (decode_reserved be b c w h r) (\<lambda>p. bindc (arc_new p r) (\<lambda>a. bindc (getc cache_limit) (\<lambda>l.
           if w * h * 3 \<le> l then decode_tail k a (w * h * 3) else ret a))) s)" (is "fine s (?run s)")
proof -
  obtain t where t: "on_heap (drop_reservation r) s = (Inr (), t)" "settled s t" using drop_loose_ok [OF inv r] .
  note drop = bindc_Inr [where m = "on_heap (drop_reservation r)", OF t(1)]
  show ?thesis
  proof (cases "decode be b c")
    case (Inl e)
    with t decode_no_panic [OF Inl] show ?thesis
      by (auto simp: decode_reserved_def drop bindc_assoc fine_def)
  next
    case (Inr p)
    show ?thesis
    proof (cases "width p = w \<and> height p = h")
      case False
      with Inr t show ?thesis by (auto simp: decode_reserved_def drop bindc_assoc fine_def panic_error_def)
    next
      case True
      then have len: "byte_len p = w * h * 3" using decode_ok [OF Inr] by (simp add: rgb_ok_def byte_len_def)
      obtain u where u: "arc_new p r s = (Inr (next_page s), u)" "cache_inv u" "same_config s u" "same_lru s u"
        "map_of (retained u) (next_page s) = Some \<lparr>page = p, reservation = r, strong = 1\<rparr>"
        "refs (next_page s) (entries u) = 0" using arc_new_ok [OF inv] r len by metis
      have run: "?run s = (if w * h * 3 \<le> cache_limit u then decode_tail k (next_page s) (w * h * 3) u
          else (Inr (next_page s), u))"
      proof -
        have "decode_reserved be b c w h r = ret p" using True Inr by (simp add: decode_reserved_def)
        then show ?thesis
          by (simp only: bindc_eval(1,3) bindc_Inr [where m = "arc_new p r", OF u(1)]) simp
      qed
      have settled: "settled s u" using u(2,3) by (simp add: settled_def)
      show ?thesis
      proof (cases "w * h * 3 \<le> cache_limit u")
        case fits: True
        have n: "refs (next_page s) (entries u) < strong \<lparr>page = p, reservation = r, strong = 1\<rparr>"
          "w * h * 3 = byte_len (page \<lparr>page = p, reservation = r, strong = 1\<rparr>)"
          "map_of (entries u) k = None"
          using u(4,6) len k by (simp_all add: same_lru_def)
        have "?run s = store_tail k (next_page s) (w * h * 3) u"
          using run fits decode_tail_eq [OF u(2) fits n(3) u(5) n(1)] by simp
        with fine_trans [OF settled store_fine [OF u(2,5) n(1,2) fits]] show ?thesis by (simp only:)
      next
        case False
        show ?thesis
          using settled by (simp only: run False if_False fine_def fst_conv snd_conv panics_simps simp_thms)
      qed
    qed
  qed
qed

lemma cache_decode_fine:
  assumes inv: "cache_inv s"
  shows "fine s (cache_decode be k b c w h s)"
proof (cases "k \<noteq> [] \<and> length k \<le> 64")
  case False
  with inv show ?thesis by (auto simp: cache_decode_def fine_def settled_refl panic_error_def)
next
  case True
  show ?thesis
  proof (cases rule: get_ok [OF inv, of k, case_names over miss hit])
    case over
    with True inv show ?thesis
      by (simp add: cache_decode_def bindc_Inl [where m = "get k"] fine_def settled_refl panic_error_def)
  next
    case (hit t a old)
    then have "settled s (hits_update (\<lambda>n. saturating_add n 1) t)"
      using counter_settled(1) [of t] by (auto simp: settled_def intro: same_config_trans)
    with True hit(1) show ?thesis
      by (simp add: cache_decode_def bindc_Inr [where m = "get k"] fine_def panic_error_def)
  next
    case (miss t)
    let ?u = "misses_update (\<lambda>n. saturating_add n 1) t"
    have u: "settled s ?u" "cache_inv ?u"
      using miss(4) counter_settled(2) [of t] by (auto simp: settled_def intro: same_config_trans)
    have k: "map_of (entries ?u) k = None" using miss(2,3) by simp
    have refused: "fine s (Inl e, ?u)" if "\<not> panic_error e" for e using u that by (simp add: fine_def)
    show ?thesis
    proof (cases "(w > 0 \<and> h > 0 \<and> w \<le> 8192 \<and> h \<le> 8192) \<and> encoded_dimensions be b c = Inr (w, h)")
      case False
      then consider (dims) "\<not> (w > 0 \<and> h > 0 \<and> w \<le> 8192 \<and> h \<le> 8192)"
        | (header) e where "w > 0 \<and> h > 0 \<and> w \<le> 8192 \<and> h \<le> 8192" "encoded_dimensions be b c = Inl e"
        | (other) d where "w > 0 \<and> h > 0 \<and> w \<le> 8192 \<and> h \<le> 8192" "encoded_dimensions be b c = Inr d" "d \<noteq> (w, h)"
        by (cases "encoded_dimensions be b c") blast+
      then have "\<exists>e. cache_decode be k b c w h s = (Inl e, ?u) \<and> \<not> panic_error e"
      proof cases
        case dims
        then have "ensure (w > 0 \<and> h > 0 \<and> w \<le> 8192 \<and> h \<le> 8192) InvalidDecodedDimensions
          = (fail InvalidDecodedDimensions :: unit cache_comp)" by (simp only: ensure_def if_False simp_thms)
        with True miss(1) show ?thesis
          by (simp only: cache_decode_def bindc_Inr [where m = "get k"] bindc_eval) (simp add: panic_error_def)
      next
        case (header e)
        with True miss(1) encoded_dimensions_no_panic [OF header(2)] show ?thesis
          by (simp add: cache_decode_def bindc_Inr [where m = "get k"])
      next
        case (other d)
        with True miss(1) show ?thesis
          by (simp add: cache_decode_def bindc_Inr [where m = "get k"] panic_error_def)
      qed
      with refused show ?thesis by auto
    next
      case ok: True
      from reserve_or_evict_ok [OF u(2), of "w * h * 3"] obtain v ks where v: "cache_inv v" "same_config ?u v"
        "entries v = hm_remove_all ks (entries ?u)"
        "(\<exists>r. reserve_or_evict (w * h * 3) ?u = (Inr r, v) \<and> loose v r \<lparr>budget = cache_budget ?u, bytes = w * h * 3\<rparr>) \<or>
          reserve_or_evict (w * h * 3) ?u = (Inl DecodedBudgetExceeded, v)" by blast
      have settled: "settled s v" using u v(1,2) by (auto simp: settled_def intro: same_config_trans)
      have key: "map_of (entries v) k = None" using v(3) k by (simp add: hm_simps)
      have pool: "cache_budget v = cache_budget ?u" using v(2) by (simp add: same_config_def)
      have run: "cache_decode be k b c w h s = bindc (reserve_or_evict (w * h * 3)) (\<lambda>r.
          bindc (decode_reserved be b c w h r) (\<lambda>p. bindc (arc_new p r) (\<lambda>a. bindc (getc cache_limit) (\<lambda>l.
           if w * h * 3 \<le> l then decode_tail k a (w * h * 3) else ret a)))) ?u"
        unfolding decode_tail_def using True ok miss(1)
        by (simp add: cache_decode_def bindc_Inr [where m = "get k"])
      from v(4) show ?thesis
      proof (elim disjE exE conjE)
        fix r assume r: "reserve_or_evict (w * h * 3) ?u = (Inr r, v)"
          "loose v r \<lparr>budget = cache_budget ?u, bytes = w * h * 3\<rparr>"
        with decode_page_fine [OF v(1) key, of r w h be b c] pool show ?thesis
          unfolding run by (simp add: bindc_Inr [where m = "reserve_or_evict (w * h * 3)"] fine_trans [OF settled])
      next
        assume "reserve_or_evict (w * h * 3) ?u = (Inl DecodedBudgetExceeded, v)"
        with settled show ?thesis
          unfolding run by (simp add: bindc_Inl [where m = "reserve_or_evict (w * h * 3)"] fine_def panic_error_def)
      qed
    qed
  qed
qed

end
