(* ===== verification/Cache_Properties.thy ===== *)
theory Cache_Properties
  imports Cache_Correct
begin

text \<open>
  Every state the decoded cache can reach, through its own operations and through
  consumers that clone and release the pages and reservations they hold, and the
  properties of these states.
\<close>

section \<open>Clearing\<close>

lemma arc_drop_cached:
  "arc_drop a (cached_bytes_update f s) = apsnd (cached_bytes_update f) (arc_drop a s)"
  by (cases s) (auto simp: arc_drop_def on_heap_def drop_reservation_def load_reservation_def lock_pool_def store_used_def
      comp_defs split: option.splits)

lemma drop_all_cached:
  "drop_all as (cached_bytes_update f s) = apsnd (cached_bytes_update f) (drop_all as s)"
proof (induction as arbitrary: s)
  case (Cons a as)
  obtain r t where "arc_drop a s = (r, t)" by (cases "arc_drop a s")
  with Cons.IH show ?case
    by (cases r) (auto simp: bindc_def arc_drop_cached)
qed simp

lemma drop_all_ok:
  assumes "cache_inv s" "entries s = []"
    "\<And>a x. map_of (retained s) a = Some x \<Longrightarrow> count_list as a \<le> strong x"
    "\<And>a. a \<in> set as \<Longrightarrow> a \<in> hm_keys (retained s)"
  shows "\<exists>t. drop_all as s = (Inr (), t) \<and> settled s t"
  using assms
proof (induction as arbitrary: s)
  case (Cons a as)
  obtain x where x: "map_of (retained s) a = Some x" using Cons.prems(4) [of a] by (auto simp: hm_keys_iff)
  have pos: "refs a (entries s) < strong x" using Cons.prems(2) Cons.prems(3) [OF x] by simp
  obtain u where u: "arc_drop a s = (Inr (), u)" "cache_inv u" "same_config s u" "same_lru s u"
    "\<And>b. b \<noteq> a \<Longrightarrow> map_of (retained u) b = map_of (retained s) b"
    "map_of (retained u) a = (if strong x = 1 then None else Some (x\<lparr>strong := strong x - 1\<rparr>))"
    "live u = (if strong x = 1 then live s - byte_len (page x) else live s)"
    using arc_drop_ok [OF Cons.prems(1) x pos] by blast
  have strong: "count_list as b \<le> strong y" if "map_of (retained u) b = Some y" for b y
    using that Cons.prems(3) [of b] Cons.prems(3) [OF x] u(5,6) by (cases "b = a") (auto split: if_splits)
  have keys: "b \<in> hm_keys (retained u)" if "b \<in> set as" for b
  proof (cases "b = a")
    case True
    with that have "0 < count_list as a" by (metis count_list_0_iff gr0I)
    with True Cons.prems(3) [OF x] u(6) show ?thesis by (simp add: hm_keys_iff)
  next
    case False
    with Cons.prems(4) [of b] that u(5) [OF False] show ?thesis by (simp add: hm_keys_iff)
  qed
  have "entries u = []" using u(4) Cons.prems(2) by (simp add: same_lru_def)
  from Cons.IH [OF u(2) this strong keys] obtain t where "drop_all as u = (Inr (), t)" "settled u t" by blast
  with u show ?case
    by (intro exI [of _ t]) (auto simp: bindc_Inr [where m = "arc_drop a"] settled_def intro: same_config_trans)
qed (simp add: settled_refl)

lemma count_refs: "count_list (map (fst \<circ> snd) es) a = refs a es"
  by (induction es) (auto simp: refs_def hm_count_def)

lemma clear_ok:
  assumes inv: "cache_inv s"
  shows "\<exists>t. clear s = (Inr (), t) \<and> settled s t"
proof -
  note I = cache_invD [OF inv]
  let ?u = "cached_bytes_update (\<lambda>_. 0) (entries_update (\<lambda>_. []) s)"
  let ?as = "map (fst \<circ> snd) (entries s)"
  have "pages_inv ?u" by (rule pages_inv_frame [OF I(3)]) simp_all
  then have u: "cache_inv ?u"
    using I(1,2) by (simp add: cache_inv_def config_inv_def entries_inv_def entered_bytes_def)
  have "a \<in> hm_keys (retained s)" if "a \<in> set ?as" for a
    using that entriesD(2) [OF I(4)] hm_mem_iff [OF entriesD(1) [OF I(4)]] by fastforce
  then obtain t where t: "drop_all ?as ?u = (Inr (), t)" "settled ?u t"
    using drop_all_ok [OF u, of ?as] pagesD(4) [OF I(3)] by (auto simp: count_refs)
  then have "clear s = (Inr (), t)"
    using drop_all_cached [of ?as "\<lambda>_. 0" "entries_update (\<lambda>_. []) s"]
    by (cases "drop_all ?as (entries_update (\<lambda>_. []) s)") (auto simp: clear_def bindc_def)
  with t(2) show ?thesis by (auto simp: settled_def same_config_def)
qed

section \<open>Reachable states\<close>

definition cache_init :: "cache_world \<Rightarrow> bool" where
  "cache_init s \<longleftrightarrow> (\<exists>u cache_bytes total most.
     heap_inv u \<and> retained u = [] \<and> total < u64_limit \<and> cache_new cache_bytes total most u = (Inr (), s))"

text \<open>
  A consumer clones or drops a page it holds; a caller drops a reservation it has not
  committed, or commits it.
\<close>

inductive cache_step :: "cache_world \<Rightarrow> cache_world \<Rightarrow> bool" where
  step_get: "cache_step s (snd (get k s))"
| step_lookup: "cache_step s (snd (managed_lookup k s))"
| step_evict: "cache_step s (snd (evict_one s))"
| step_clear: "cache_step s (snd (clear s))"
| step_reserve: "cache_step s (snd (reserve_rgb w h s))"
| step_commit: "loose s r v \<Longrightarrow> cache_step s (snd (commit_rgb k p r s))"
| step_decode: "cache_step s (snd (cache_decode be k b c w h s))"
| step_clone: "0 < outside s a \<Longrightarrow> cache_step s (snd (arc_clone a s))"
| step_release: "0 < outside s a \<Longrightarrow> cache_step s (snd (arc_drop a s))"
| step_drop: "loose s r v \<Longrightarrow> cache_step s (snd (on_heap (drop_reservation r) s))"

lemma evict_one_fine: "cache_inv s \<Longrightarrow> fine s (evict_one s)"
proof (cases "entries s = []")
  case False
  assume inv: "cache_inv s"
  obtain t where "evict_one s = (Inr True, t)" "cache_inv t" "same_config s t"
    using evict_one_ok [OF inv False] by metis
  then show ?thesis by (simp add: fine_def settled_def)
qed (simp add: evict_one_empty fine_def settled_refl)

lemma clear_fine: "cache_inv s \<Longrightarrow> fine s (clear s)"
  using clear_ok [of s] by (auto simp: fine_def)

lemma arc_clone_fine:
  assumes "cache_inv s" "0 < outside s a"
  shows "fine s (arc_clone a s)"
proof -
  from assms(2) obtain x where "map_of (retained s) a = Some x" by (auto simp: outside_pos)
  from clone_inv [OF assms(1) this] show ?thesis
    by (simp add: fine_def settled_def same_config_def arc_clone_def)
qed

lemma arc_drop_fine:
  assumes "cache_inv s" "0 < outside s a"
  shows "fine s (arc_drop a s)"
proof -
  from assms(2) obtain x where x: "map_of (retained s) a = Some x" "refs a (entries s) < strong x"
    by (auto simp: outside_pos)
  obtain t where "arc_drop a s = (Inr (), t)" "cache_inv t" "same_config s t" by (rule arc_drop_ok [OF assms(1) x])
  then show ?thesis by (simp add: fine_def settled_def)
qed

lemma drop_loose_fine:
  assumes "cache_inv s" "loose s r v"
  shows "fine s (on_heap (drop_reservation r) s)"
proof -
  obtain t where "on_heap (drop_reservation r) s = (Inr (), t)" "settled s t" by (rule drop_loose_ok [OF assms])
  then show ?thesis by (simp add: fine_def)
qed

lemmas cache_fine = get_fine managed_lookup_fine evict_one_fine clear_fine reserve_rgb_fine commit_rgb_fine
  cache_decode_fine arc_clone_fine arc_drop_fine drop_loose_fine

lemma cache_step_settled: "cache_inv s \<Longrightarrow> cache_step s t \<Longrightarrow> settled s t"
  by (erule cache_step.cases) (use cache_fine in \<open>auto simp: fine_def\<close>)

lemma cache_init_inv:
  assumes "cache_init s"
  shows "cache_inv s"
proof -
  from assms obtain u c l m where u: "heap_inv u" "retained u = []" "l < u64_limit" "cache_new c l m u = (Inr (), s)"
    by (auto simp: cache_init_def)
  then have args: "0 < m" "c \<le> l" "0 < l"
    by (auto simp: cache_new_def budget_new_def on_heap_def bindc_def comp_defs split: if_splits)
  let ?p = "next_pool u"
  let ?v = "u\<lparr>pools := hm_insert ?p \<lparr>limit = l, used = 0\<rparr> (pools u), next_pool := Suc ?p\<rparr>"
  have s: "s = ?v\<lparr>hits := 0, misses := 0, cache_budget := ?p, cache_limit := c, max_entries := m,
                 cached_bytes := 0, clock := 0, entries := []\<rparr>"
    using u(4) args by (auto simp: cache_new_def budget_new_def on_heap_def bindc_def comp_defs split: if_splits)
  have "heap_inv ?v" by (rule budget_new_inv [OF u(1) args(3) u(3)])
  with u(2,3) args show ?thesis
    by (simp add: s cache_inv_def config_inv_def pages_inv_def entries_inv_def entered_bytes_def hm_simps)
       (simp add: heap_inv_def u64_limit_def)
qed

interpretation cache: inductive_invariant cache_init cache_step cache_inv
  by unfold_locales (use cache_init_inv cache_step_settled in \<open>auto simp: settled_def\<close>)

section \<open>Properties\<close>

text \<open>The bytes of the pages, and of the reservations no page owns.\<close>

definition page_bytes :: "cache_world \<Rightarrow> nat" where
  "page_bytes s = hm_total (\<lambda>x. byte_len (page x)) (retained s)"

definition loose_bytes :: "cache_world \<Rightarrow> nat" where
  "loose_bytes s = (\<Sum>(r, v)\<leftarrow>reservations s.
     if budget v = cache_budget s \<and> r \<notin> (\<lambda>e. reservation (snd e)) ` set (retained s) then bytes v else 0)"

lemma charge_pages:
  assumes inv: "cache_inv s"
  shows "charge (cache_budget s) (reservations s) = page_bytes s + loose_bytes s"
proof -
  note I = cache_invD [OF inv]
  note wf = heap_invD(2) [OF I(1)] and pwf = pagesD(1) [OF I(3)]
  let ?rs = "reservations s" and ?f = "\<lambda>v. if budget v = cache_budget s then bytes v else 0"
  let ?res = "\<lambda>a. reservation (the (map_of (retained s) a))"
  let ?owned = "?res ` hm_keys (retained s)"
  have own: "(\<lambda>e. reservation (snd e)) ` set (retained s) = ?owned"
    using pwf by (force simp: hm_keys_def image_image hm_wf_def)
  have sub: "?owned \<subseteq> hm_keys ?rs"
    using pagesD(3) [OF I(3)] by (auto simp: hm_keys_iff)
  have inj: "inj_on ?res (hm_keys (retained s))"
    using pagesD(6) [OF I(3)] by (auto simp: inj_on_def hm_keys_iff)
  have fin: "finite (hm_keys ?rs)" by (simp add: hm_keys_def)
  have "(\<Sum>r\<in>?owned. ?f (the (map_of ?rs r))) = (\<Sum>a\<in>hm_keys (retained s). ?f (the (map_of ?rs (?res a))))"
    by (rule sum.reindex [OF inj, unfolded o_def])
  also have "\<dots> = page_bytes s"
    unfolding page_bytes_def hm_total_sum [OF pwf]
    using pagesD(3) [OF I(3)] by (intro sum.cong) (auto simp: hm_keys_iff)
  finally have owned: "(\<Sum>r\<in>?owned. ?f (the (map_of ?rs r))) = page_bytes s" .
  have list: "(\<Sum>(r, v)\<leftarrow>?rs. g r v) = (\<Sum>r\<in>hm_keys ?rs. g r (the (map_of ?rs r)))" for g :: "nat \<Rightarrow> _ \<Rightarrow> nat"
  proof -
    have "(\<Sum>(r, v)\<leftarrow>?rs. g r v) = (\<Sum>e\<in>set ?rs. g (fst e) (snd e))"
      using wf by (simp add: hm_wf_def distinct_map sum_list_distinct_conv_sum_set case_prod_unfold)
    also have "\<dots> = (\<Sum>e\<in>set ?rs. g (fst e) (the (map_of ?rs (fst e))))"
      using wf by (intro sum.cong) (auto simp: hm_mem_iff)
    also have "\<dots> = (\<Sum>r\<in>fst ` set ?rs. g r (the (map_of ?rs r)))"
      using wf by (subst sum.reindex) (auto simp: hm_wf_def distinct_map)
    finally show ?thesis by (simp add: hm_keys_def)
  qed
  have "charge (cache_budget s) ?rs = (\<Sum>r\<in>hm_keys ?rs. ?f (the (map_of ?rs r)))"
    by (simp add: charge_def hm_total_sum [OF wf])
  also have "\<dots> = (\<Sum>r\<in>hm_keys ?rs - ?owned. ?f (the (map_of ?rs r))) + page_bytes s"
    using sum.subset_diff [OF sub fin, of "\<lambda>r. ?f (the (map_of ?rs r))"] owned by simp
  also have "(\<Sum>r\<in>hm_keys ?rs - ?owned. ?f (the (map_of ?rs r))) = loose_bytes s"
    unfolding loose_bytes_def list own using fin by (intro sum.mono_neutral_cong_left) auto
  finally show ?thesis by simp
qed

text \<open>
  A cache with room for one page of one pixel in the LRU and two in the allowance, after
  one page was committed, and after the consumer released it.
\<close>

definition ex_cache0 :: cache_world where
  "ex_cache0 = \<lparr>pools = [], reservations = [], next_pool = 0, next_reservation = 0, retained = [], next_page = 0,
     hits = 0, misses = 0, cache_budget = 0, cache_limit = 0, max_entries = 0, cached_bytes = 0, clock = 0, entries = []\<rparr>"

definition ex_cache1 :: cache_world where
  "ex_cache1 = snd (cache_new 3 6 2 ex_cache0)"

definition ex_cache2 :: cache_world where
  "ex_cache2 = snd (reserve_rgb 1 1 ex_cache1)"

definition ex_pixel :: prepared_rgb where
  "ex_pixel = \<lparr>width = 1, height = 1, pixels = [1, 2, 3]\<rparr>"

definition ex_cache3 :: cache_world where
  "ex_cache3 = snd (commit_rgb ''k'' ex_pixel 0 ex_cache2)"

lemmas cache_eval = cache_new_def budget_new_def on_heap_def reserve_rgb_def rgb_bytes_def checked_mul_def
  reserve_or_evict.simps try_reserve_def reserve_exact_def lock_pool_def load_reservation_def store_used_def
  new_reservation_def catchc_def bindc_assoc checked_add_def checked_sub_def u64_limit_def hm_insert_def
  hm_remove_def hm_adjust_def commit_rgb_def arc_new_def make_room.simps tick_or_drop_def tick_def remove_old_def
  charge_cache_def insert_entry_def arc_clone_def ex_pixel_def byte_len_def

lemma ex_cache1_eq:
  "ex_cache1 = \<lparr>pools = [(0, \<lparr>limit = 6, used = 0\<rparr>)], reservations = [], next_pool = 1, next_reservation = 0,
     retained = [], next_page = 0, hits = 0, misses = 0, cache_budget = 0, cache_limit = 3, max_entries = 2,
     cached_bytes = 0, clock = 0, entries = []\<rparr>"
  by (simp add: ex_cache1_def ex_cache0_def cache_eval bindc_def)

lemma ex_cache2_eq:
  "ex_cache2 = \<lparr>pools = [(0, \<lparr>limit = 6, used = 3\<rparr>)], reservations = [(0, \<lparr>budget = 0, bytes = 3\<rparr>)],
     next_pool = 1, next_reservation = 1,
     retained = [], next_page = 0, hits = 0, misses = 0, cache_budget = 0, cache_limit = 3, max_entries = 2,
     cached_bytes = 0, clock = 0, entries = []\<rparr>"
  by (simp add: ex_cache2_def ex_cache1_eq cache_eval bindc_def)

lemma ex_cache3_eq:
  "ex_cache3 = \<lparr>pools = [(0, \<lparr>limit = 6, used = 3\<rparr>)], reservations = [(0, \<lparr>budget = 0, bytes = 3\<rparr>)],
     next_pool = 1, next_reservation = 1,
     retained = [(0, \<lparr>page = ex_pixel, reservation = 0, strong = 2\<rparr>)], next_page = 1,
     hits = 0, misses = 0, cache_budget = 0, cache_limit = 3, max_entries = 2,
     cached_bytes = 3, clock = 1, entries = [(''k'', 0, 1)]\<rparr>"
  by (simp add: ex_cache3_def ex_cache2_eq cache_eval bindc_def)

lemma ex_loose: "loose ex_cache2 0 \<lparr>budget = 0, bytes = 3\<rparr>"
  by (simp add: loose_def ex_cache2_eq)

lemma ex_cache_reachable:
  "reachable cache_init cache_step ex_cache1" "reachable cache_init cache_step ex_cache2"
  "reachable cache_init cache_step ex_cache3"
proof -
  have "heap_inv ex_cache0" "retained ex_cache0 = []" by (simp_all add: heap_inv_def ex_cache0_def)
  moreover have "cache_new 3 6 2 ex_cache0 = (Inr (), ex_cache1)"
    by (simp add: ex_cache1_def ex_cache0_def cache_eval bindc_def)
  ultimately have "cache_init ex_cache1"
    unfolding cache_init_def by (intro exI [of _ ex_cache0] exI [of _ 3] exI [of _ 6] exI [of _ 2]) (simp add: u64_limit_def)
  then show 1: "reachable cache_init cache_step ex_cache1" by (rule reachable.start)
  then show 2: "reachable cache_init cache_step ex_cache2"
    unfolding ex_cache2_def by (rule reachable.move) (rule step_reserve)
  then show "reachable cache_init cache_step ex_cache3"
    unfolding ex_cache3_def by (rule reachable.move) (rule step_commit [OF ex_loose])
qed

text \<open>
  C28: in every reachable state of the decoded cache, the live bytes it reports are the
  bytes of all pages still referenced (by the LRU or by a consumer) plus the reservations
  callers have not committed, and they are within the allowance; the cached bytes are the
  sum over the entries of the LRU and within its limit, as is the number of entries.
\<close>

theorem decoded_cache_accounting:
  assumes "reachable cache_init cache_step s"
  shows "live_bytes s = (Inr (page_bytes s + loose_bytes s), s)
    \<and> page_bytes s + loose_bytes s \<le> capacity s
    \<and> cached_bytes s = (\<Sum>(k, a, now)\<leftarrow>entries s. page_len s a) \<and> cached_bytes s \<le> cache_limit s
    \<and> length (entries s) \<le> max_entries s"
proof -
  have inv: "cache_inv s" using assms by (rule cache.reachable_inv)
  note I = cache_invD [OF inv]
  obtain st where st: "map_of (pools s) (cache_budget s) = Some st" "live s = used st" "capacity s = limit st"
    "cache_limit s \<le> limit st" "limit st < u64_limit" "used st \<le> limit st" using cache_pool [OF inv] .
  have "used st = page_bytes s + loose_bytes s"
    using heap_invD(6) [OF I(1) st(1)] charge_pages [OF inv] by simp
  moreover have "live_bytes s = (Inr (used st), s)"
    using st(1) by (simp add: live_bytes_def on_heap_def budget_used_def lock_pool_def bindc_assoc)
  moreover have "cached_bytes s = (\<Sum>(k, a, now)\<leftarrow>entries s. page_len s a)"
    using entriesD(4) [OF I(4)] by (simp add: entered_bytes_def hm_total_def case_prod_unfold)
  ultimately show ?thesis using st(3,6) entriesD(5,6) [OF I(4)] by simp
qed

theorem decoded_cache_accounting_witness:
  "live_bytes ex_cache3 = (Inr 3, ex_cache3) \<and> page_bytes ex_cache3 = 3 \<and> loose_bytes ex_cache2 = 3"
proof -
  have "page_bytes ex_cache3 = 3" "loose_bytes ex_cache3 = 0" "loose_bytes ex_cache2 = 3"
    by (simp_all add: page_bytes_def loose_bytes_def ex_cache3_eq ex_cache2_eq hm_total_def ex_pixel_def byte_len_def)
  with decoded_cache_accounting [OF ex_cache_reachable(3)] show ?thesis by simp
qed

text \<open>
  No operation of the decoded cache panics in a reachable state, whatever the codec
  backend returns: no count goes below zero or overflows, no entry or page is missing, and
  the \<open>unreachable\<close> arms of the codec are not reached.
\<close>

theorem cache_never_panics:
  assumes "reachable cache_init cache_step s"
  shows "\<not> panics (fst (get k s)) \<and> \<not> panics (fst (managed_lookup k s)) \<and> \<not> panics (fst (evict_one s))
    \<and> \<not> panics (fst (clear s)) \<and> \<not> panics (fst (reserve_rgb w h s))
    \<and> \<not> panics (fst (cache_decode be k b c w h s))
    \<and> (loose s r v \<longrightarrow> \<not> panics (fst (commit_rgb k p r s)))
    \<and> (0 < outside s a \<longrightarrow> \<not> panics (fst (arc_drop a s)))"
  using cache.reachable_inv [OF assms] by (intro conjI impI) (use cache_fine in \<open>simp_all add: fine_def\<close>)

theorem cache_never_panics_witness:
  "\<not> panics (fst (commit_rgb ''k'' ex_pixel 0 ex_cache2)) \<and> \<not> panics (fst (evict_one ex_cache3))"
  using cache_never_panics [OF ex_cache_reachable(2), of _ _ _ _ _ _ 0 "\<lparr>budget = 0, bytes = 3\<rparr>"]
    cache_never_panics [OF ex_cache_reachable(3)] ex_loose by blast

text \<open>
  Eviction takes the entry used least recently. Its bytes leave the LRU at once, but
  come back to the allowance exactly when no consumer holds the page; every consumer keeps
  the references and the pixels it has.
\<close>

theorem evict_least_recent:
  assumes "reachable cache_init cache_step s" "entries s \<noteq> []"
  shows "\<exists>k a now x t. evict_one s = (Inr True, t)
    \<and> map_of (entries s) k = Some (a, now)
    \<and> (\<forall>k' a' now'. map_of (entries s) k' = Some (a', now') \<longrightarrow> now \<le> now')
    \<and> entries t = hm_remove k (entries s)
    \<and> map_of (retained s) a = Some x \<and> cached_bytes t = cached_bytes s - byte_len (page x)
    \<and> live t = (if strong x = 1 then live s - byte_len (page x) else live s)
    \<and> keeps_consumers s t"
proof -
  have inv: "cache_inv s" using assms(1) by (rule cache.reachable_inv)
  show ?thesis using evict_one_ok [OF inv assms(2)] by metis
qed

theorem evict_least_recent_witness:
  "\<exists>t. evict_one ex_cache3 = (Inr True, t) \<and> entries t = [] \<and> cached_bytes t = 0 \<and> live t = 3"
proof -
  have "entries ex_cache3 \<noteq> []" "live ex_cache3 = 3" "cached_bytes ex_cache3 = 3"
    by (simp_all add: ex_cache3_eq live_def)
  with evict_least_recent [OF ex_cache_reachable(3)] show ?thesis
    by (auto simp: ex_cache3_eq hm_remove_def ex_pixel_def byte_len_def split: if_splits)
qed

text \<open>
  C33: reserving room for a page ends, and grants exactly its bytes from the cache's own
  pool unless every entry has been evicted and the bytes held by consumers and by
  uncommitted reservations still leave no room. In both cases consumers keep their pages.
\<close>

theorem reserve_refused_only_by_consumers:
  assumes "reachable cache_init cache_step s" "1 \<le> w" "w \<le> 8192" "1 \<le> h" "h \<le> 8192"
  shows "\<exists>t. keeps_consumers s t \<and>
    ((\<exists>r. reserve_rgb w h s = (Inr r, t) \<and> loose t r \<lparr>budget = cache_budget s, bytes = w * h * 3\<rparr>) \<or>
     (reserve_rgb w h s = (Inl DecodedBudgetExceeded, t) \<and> entries t = []
        \<and> (\<forall>a \<in> hm_keys (retained t). 0 < outside t a) \<and> capacity s < page_bytes t + loose_bytes t + w * h * 3))"
proof -
  have inv: "cache_inv s" using assms(1) by (rule cache.reachable_inv)
  have call: "reserve_rgb w h s = reserve_or_evict (w * h * 3) s"
    using assms(2-5) by (simp add: reserve_rgb_def rgb_bytes_eq)
  from reserve_or_evict_ok [OF inv, of "w * h * 3"] obtain t where t: "cache_inv t" "same_config s t"
    "keeps_consumers s t"
    "(\<exists>r. reserve_or_evict (w * h * 3) s = (Inr r, t) \<and> loose t r \<lparr>budget = cache_budget s, bytes = w * h * 3\<rparr>) \<or>
      (reserve_or_evict (w * h * 3) s = (Inl DecodedBudgetExceeded, t) \<and> entries t = [] \<and> capacity t < live t + w * h * 3)"
    by blast
  obtain st where st: "map_of (pools t) (cache_budget t) = Some st" "live t = used st"
    using cache_pool [OF t(1)] by blast
  have "live t = page_bytes t + loose_bytes t"
    using heap_invD(6) [OF cache_invD(1) [OF t(1)] st(1)] st(2) charge_pages [OF t(1)] by simp
  moreover have "0 < outside t a" if "entries t = []" "a \<in> hm_keys (retained t)" for a
    using that pagesD(5) [OF cache_invD(3) [OF t(1)]] by (auto simp: hm_keys_iff outside_def)
  moreover have "capacity t = capacity s" using t(2) by (simp add: same_config_def)
  ultimately show ?thesis using t(3,4) unfolding call by (intro exI [of _ t]) auto
qed

theorem reserve_refused_only_by_consumers_witness:
  "\<exists>t. keeps_consumers ex_cache3 t \<and>
    ((\<exists>r. reserve_rgb 1 2 ex_cache3 = (Inr r, t) \<and> loose t r \<lparr>budget = 0, bytes = 6\<rparr>) \<or>
     (reserve_rgb 1 2 ex_cache3 = (Inl DecodedBudgetExceeded, t) \<and> entries t = [] \<and> 6 < page_bytes t + loose_bytes t + 6))"
proof -
  have "capacity ex_cache3 = 6" "cache_budget ex_cache3 = 0" by (simp_all add: ex_cache3_eq capacity_def)
  with reserve_refused_only_by_consumers [OF ex_cache_reachable(3), of 1 2] show ?thesis by auto
qed

text \<open>
  A page committed into the LRU is what the next lookup under its key returns, and a
  page too large for the LRU is handed out all the same; in both cases the page holds the
  committed pixels.
\<close>

theorem commit_then_lookup:
  assumes "reachable cache_init cache_step s" "loose s r \<lparr>budget = cache_budget s, bytes = byte_len p\<rparr>"
    and "k \<noteq> []" "length k \<le> 64" "clock s + 2 < u64_limit"
  shows "\<exists>t. commit_rgb k p r s = (Inr (next_page s), t)
    \<and> map_option page (map_of (retained t) (next_page s)) = Some p
    \<and> (byte_len p \<le> cache_limit s \<longrightarrow> fst (managed_lookup k t) = Inr (Some (next_page s)))"
proof -
  have inv: "cache_inv s" using assms(1) by (rule cache.reachable_inv)
  show ?thesis
  proof (cases rule: commit_rgb_cases [OF inv assms(2), of k p, case_names mismatch overflow uncached cached])
    case (cached t)
    have "cache_inv t" using cached(2) by (simp add: settled_def)
    then have "\<exists>u. get k t = (Inr (Some (next_page s)), u)"
      by (cases rule: get_ok [where k = k]) (use cached(4,5) assms(5) in auto)
    then have "fst (managed_lookup k t) = Inr (Some (next_page s))"
      using assms(3,4) by (auto simp: managed_lookup_def bindc_Inr [where m = "get k"])
    with cached show ?thesis by blast
  qed (use assms(5) in auto)
qed

theorem commit_then_lookup_witness:
  "\<exists>t. commit_rgb ''k'' ex_pixel 0 ex_cache2 = (Inr 0, t) \<and> fst (managed_lookup ''k'' t) = Inr (Some 0)"
proof -
  have "cache_budget ex_cache2 = 0" "next_page ex_cache2 = 0" "cache_limit ex_cache2 = 3" "clock ex_cache2 = 0"
    "byte_len ex_pixel = 3"
    by (simp_all add: ex_cache2_eq ex_pixel_def byte_len_def)
  with commit_then_lookup [OF ex_cache_reachable(2), of 0 ex_pixel "''k''"] ex_loose show ?thesis
    by (auto simp: u64_limit_def)
qed

end
