(* ===== verification/XMP_Parser.thy ===== *)
theory XMP_Parser
  imports Transition_System "HOL-Library.List_Lexorder" "HOL-Library.Char_ord"
begin

text \<open>
  The bounded extraction of XMP carriers of \<open>xmp_packets.rs\<close>: the data, the parser state
  with its budgets, and the operations every container format is written with. The source
  is reached through \<open>read_at\<close>, a seek and an exact read; the hash functions and the
  decompressors are functions of the environment. A failure carries its status, offset and
  message. Indexing outside a buffer, an \<open>expect\<close> that fails and an unchecked addition that
  overflows are \<open>Panicked\<close>; a loop that ran out of its fuel is \<open>OutOfFuel\<close>.
\<close>

section \<open>Data\<close>

record limits =
  max_source_bytes :: nat
  max_packet_bytes :: nat
  max_retained_bytes :: nat
  max_parse_bytes :: nat
  max_metadata_read_bytes :: nat
  max_entries :: nat
  max_packets :: nat
  max_depth :: nat

definition default_limits :: limits where
  "default_limits = \<lparr>
     max_source_bytes = 16 * 1024 * 1024 * 1024, max_packet_bytes = 16 * 1024 * 1024,
     max_retained_bytes = 64 * 1024 * 1024, max_parse_bytes = 64 * 1024 * 1024,
     max_metadata_read_bytes = 128 * 1024 * 1024, max_entries = 100000, max_packets = 1024,
     max_depth = 32\<rparr>"

datatype xstatus = Absent | Complete | Unsupported | Malformed | ResourceLimit | SourceChanged

record issue =
  issue_status :: xstatus
  issue_offset :: "nat option"
  issue_message :: string

record byte_range =
  range_offset :: nat
  range_length :: nat

datatype container =
    CatalogXmp | Sidecar | JpegMain | JpegExtended | TiffTag700 | PngItxt | PsdResource1060
  | WebpXmp | BmffMime | BmffUuid

record packet =
  packet_container :: container
  packet_bytes :: "byte list"
  packet_blake3 :: string
  packet_ranges :: "byte_range list"
  packet_group :: string
  packet_attributes :: "(string \<times> string) list"

datatype transformation =
    CatalogLengthPrefixedZlib | Identity | CarrierHeaderRemoved | ZlibDecompressed
  | GzipDecompressed | ExtentsConcatenated | JpegExtendedReassembled

record parse_input =
  input_bytes :: "byte list"
  input_blake3 :: string
  packet_indices :: "nat list"
  input_transformation :: transformation
  input_group :: string

record failure =
  fail_status :: xstatus
  fail_offset :: nat
  fail_message :: string
  fail_io :: "string option"

datatype perror = Failed failure | Panicked | OutOfFuel

text \<open>
  What the parser calls outside its own code. \<open>read_at i o n\<close> is the \<open>i\<close>-th read, of \<open>n\<close>
  bytes at \<open>o\<close>, or the text of its error; \<open>zlib_decode b n\<close> reads at most \<open>n\<close> bytes of
  the decompressed stream and also yields the compressed bytes consumed.
\<close>

record environment =
  read_at :: "nat \<Rightarrow> nat \<Rightarrow> nat \<Rightarrow> string + byte list"
  blake3 :: "byte list \<Rightarrow> string"
  md5_upper_hex :: "byte list \<Rightarrow> string"
  zlib_decode :: "byte list \<Rightarrow> nat \<Rightarrow> (byte list \<times> nat) option"
  gzip_decode :: "byte list \<Rightarrow> nat \<Rightarrow> byte list option"

record extended =
  ext_index :: nat
  ext_total :: nat
  ext_start :: nat
  ext_bytes :: "byte list"

text \<open>
  The parser. \<open>groups\<close> is the local map of \<open>jpeg\<close>, which it still reads after an error of
  its marker loop, and \<open>active\<close> and \<open>visited\<close> are the sets \<open>tiff\<close> hands down by mutable
  reference; \<open>io_calls\<close> numbers the reads.
\<close>

record parser =
  env :: environment
  io_calls :: nat
  source_length :: nat
  limits :: limits
  read_bytes :: nat
  entries :: nat
  retained :: nat
  parsed :: nat
  packets :: "packet list"
  inputs :: "parse_input list"
  issues :: "issue list"
  groups :: "(string, extended list) hmap"
  active :: "nat list"
  visited :: "nat list"

type_synonym 'a pcomp = "(parser, perror, 'a) comp"

section \<open>Failures\<close>

definition malformed :: "nat \<Rightarrow> string \<Rightarrow> failure" where
  "malformed o' msg = \<lparr>fail_status = Malformed, fail_offset = o', fail_message = msg, fail_io = None\<rparr>"

definition limited :: "nat \<Rightarrow> string \<Rightarrow> failure" where
  "limited o' msg = (malformed o' msg)\<lparr>fail_status := ResourceLimit\<rparr>"

definition unsupported :: "nat \<Rightarrow> string \<Rightarrow> failure" where
  "unsupported o' msg = (malformed o' msg)\<lparr>fail_status := Unsupported\<rparr>"

definition raise :: "failure \<Rightarrow> 'a pcomp" where
  "raise f = fail (Failed f)"

text \<open>A \<open>PResult\<close> kept as a value, and its \<open>?\<close>.\<close>

definition outcome :: "'a pcomp \<Rightarrow> (failure + 'a) pcomp" where
  "outcome m = catchc m (\<lambda>r. case r of
      Inl (Failed f) \<Rightarrow> ret (Inl f)
    | Inl e \<Rightarrow> fail e
    | Inr x \<Rightarrow> ret (Inr x))"

definition propagate :: "failure + 'a \<Rightarrow> 'a pcomp" where
  "propagate r = (case r of Inl f \<Rightarrow> raise f | Inr x \<Rightarrow> ret x)"

section \<open>Arithmetic and buffers\<close>

definition addc :: "nat \<Rightarrow> nat \<Rightarrow> nat pcomp" where
  "addc a b = lift_option Panicked (checked_add a b)"

definition mulc :: "nat \<Rightarrow> nat \<Rightarrow> nat pcomp" where
  "mulc a b = lift_option Panicked (checked_mul a b)"

definition subc :: "nat \<Rightarrow> nat \<Rightarrow> nat pcomp" where
  "subc a b = lift_option Panicked (checked_sub a b)"

definition index :: "'b list \<Rightarrow> nat \<Rightarrow> 'b pcomp" where
  "index b i = (if i < length b then ret (b ! i) else fail Panicked)"

definition window :: "byte list \<Rightarrow> nat \<Rightarrow> nat \<Rightarrow> byte list pcomp" where
  "window b i j = (if i \<le> j \<and> j \<le> length b then ret (take (j - i) (drop i b)) else fail Panicked)"

definition get_range :: "byte list \<Rightarrow> nat \<Rightarrow> nat \<Rightarrow> byte list option" where
  "get_range b i j = (if i \<le> j \<and> j \<le> length b then Some (take (j - i) (drop i b)) else None)"

definition be16 :: "byte list \<Rightarrow> nat pcomp" where
  "be16 b = bindc (window b 0 2) (\<lambda>v. ret (be_uint v))"

definition be32 :: "byte list \<Rightarrow> nat pcomp" where
  "be32 b = bindc (window b 0 4) (\<lambda>v. ret (be_uint v))"

definition le32 :: "byte list \<Rightarrow> nat pcomp" where
  "le32 b = bindc (window b 0 4) (\<lambda>v. ret (le_uint v))"

text \<open>\<open>be16(&b[i..j])\<close> and its kin.\<close>

definition be16_at :: "byte list \<Rightarrow> nat \<Rightarrow> nat \<Rightarrow> nat pcomp" where
  "be16_at b i j = bindc (window b i j) be16"

definition be32_at :: "byte list \<Rightarrow> nat \<Rightarrow> nat \<Rightarrow> nat pcomp" where
  "be32_at b i j = bindc (window b i j) be32"

definition le32_at :: "byte list \<Rightarrow> nat \<Rightarrow> nat \<Rightarrow> nat pcomp" where
  "le32_at b i j = bindc (window b i j) le32"

section \<open>Parser operations\<close>

definition parser_new :: "environment \<Rightarrow> nat \<Rightarrow> limits \<Rightarrow> parser" where
  "parser_new e len l = \<lparr>env = e, io_calls = 0, source_length = len, limits = l, read_bytes = 0,
     entries = 0, retained = 0, parsed = 0, packets = [], inputs = [], issues = [],
     groups = [], active = [], visited = []\<rparr>"

definition record_issue :: "failure \<Rightarrow> unit pcomp" where
  "record_issue f = modc (\<lambda>s. s\<lparr>issues := issues s @ [\<lparr>issue_status = fail_status f,
     issue_offset = Some (fail_offset f),
     issue_message = (case fail_io f of Some e \<Rightarrow> fail_message f @ '': '' @ e | None \<Rightarrow> fail_message f)\<rparr>]\<rparr>)"

definition tick :: "nat \<Rightarrow> unit pcomp" where
  "tick o' =
     bindc (modc (entries_update Suc)) (\<lambda>_.
     bindc (getc (\<lambda>s. entries s > max_entries (limits s))) (\<lambda>over.
     if over then raise (limited o' ''container entry limit exceeded'') else ret ()))"

definition bounds :: "nat \<Rightarrow> nat \<Rightarrow> nat \<Rightarrow> nat pcomp" where
  "bounds o' len end' =
     bindc (getc source_length) (\<lambda>total.
     case checked_add o' len of
       None \<Rightarrow> raise (malformed o' ''container offset/length exceeds source or parent'')
     | Some v \<Rightarrow>
         if v \<le> end' \<and> v \<le> total then ret v
         else raise (malformed o' ''container offset/length exceeds source or parent''))"

text \<open>\<open>seek\<close> and \<open>read_exact\<close> on the reader.\<close>

definition read_source :: "nat \<Rightarrow> nat \<Rightarrow> string \<Rightarrow> byte list pcomp" where
  "read_source o' n what = (\<lambda>s.
     (case read_at (env s) (io_calls s) o' n of
        Inl e \<Rightarrow> Inl (Failed ((malformed o' what)\<lparr>fail_io := Some e\<rparr>))
      | Inr b \<Rightarrow> Inr b,
      s\<lparr>io_calls := Suc (io_calls s)\<rparr>))"

definition read :: "nat \<Rightarrow> nat \<Rightarrow> byte list pcomp" where
  "read o' len =
     bindc (getc source_length) (\<lambda>total.
     bindc (bounds o' len total) (\<lambda>_.
     bindc (getc limits) (\<lambda>l.
     if len > max_packet_bytes l then raise (limited o' ''individual metadata read limit exceeded'')
     else
       bindc (getc read_bytes) (\<lambda>rb.
       case checked_add rb len of
         None \<Rightarrow> raise (limited o' ''read byte overflow'')
       | Some n \<Rightarrow>
           bindc (modc (read_bytes_update (\<lambda>_. n))) (\<lambda>_.
           if n > max_metadata_read_bytes l then raise (limited o' ''metadata read budget exceeded'')
           else read_source o' len ''source read failed'')))))"

definition first_offset :: "byte_range list \<Rightarrow> nat" where
  "first_offset rs = (case rs of [] \<Rightarrow> 0 | r # _ \<Rightarrow> range_offset r)"

definition add_packet ::
  "container \<Rightarrow> byte list \<Rightarrow> byte_range list \<Rightarrow> string \<Rightarrow> (string \<times> string) list \<Rightarrow> nat pcomp" where
  "add_packet c b ranges grp attributes =
     bindc (getc (\<lambda>s. length (packets s) \<ge> max_packets (limits s)
         \<or> length b > max_packet_bytes (limits s)
         \<or> length b > max_retained_bytes (limits s) - retained s)) (\<lambda>over.
     if over then raise (limited (first_offset ranges) ''retained packet budget exceeded'')
     else
       bindc (getc (\<lambda>s. length (packets s))) (\<lambda>i.
       bindc (modc (\<lambda>s. s\<lparr>retained := retained s + length b,
         packets := packets s @ [\<lparr>packet_container = c, packet_bytes = b, packet_blake3 = blake3 (env s) b,
           packet_ranges = ranges, packet_group = grp, packet_attributes = attributes\<rparr>]\<rparr>)) (\<lambda>_.
       ret i)))"

definition add_input :: "byte list \<Rightarrow> nat list \<Rightarrow> transformation \<Rightarrow> string \<Rightarrow> unit pcomp" where
  "add_input b indices t grp =
     bindc (getc (\<lambda>s. length b > max_packet_bytes (limits s)
         \<or> length b > max_parse_bytes (limits s) - parsed s)) (\<lambda>over.
     if over then raise (limited 0 ''parse input budget exceeded'')
     else
       modc (\<lambda>s. s\<lparr>parsed := parsed s + length b,
         inputs := inputs s @ [\<lparr>input_bytes = b, input_blake3 = blake3 (env s) b, packet_indices = indices,
           input_transformation = t, input_group = grp\<rparr>]\<rparr>))"

text \<open>\<open>packets[i].attributes = a\<close>, and the same through \<open>last_mut().expect(..)\<close>.\<close>

definition set_attributes :: "nat \<Rightarrow> (string \<times> string) list \<Rightarrow> unit pcomp" where
  "set_attributes i a =
     bindc (getc (\<lambda>s. i < length (packets s))) (\<lambda>present.
     if present then modc (\<lambda>s. s\<lparr>packets := (packets s)[i := (packets s ! i)\<lparr>packet_attributes := a\<rparr>]\<rparr>)
     else fail Panicked)"

definition set_last_attributes :: "(string \<times> string) list \<Rightarrow> unit pcomp" where
  "set_last_attributes a =
     bindc (getc (\<lambda>s. length (packets s))) (\<lambda>n.
     if n = 0 then fail Panicked else set_attributes (n - 1) a)"

text \<open>\<open>attrs\<close>: the pairs as a \<open>BTreeMap\<close>, in key order; the keys of each call are distinct.\<close>

definition attrs :: "(string \<times> string) list \<Rightarrow> (string \<times> string) list" where
  "attrs pairs = sort_key fst pairs"

definition the_range :: "nat \<Rightarrow> nat \<Rightarrow> byte_range list" where
  "the_range o' len = [\<lparr>range_offset = o', range_length = len\<rparr>]"

definition simple_within :: "container \<Rightarrow> nat \<Rightarrow> nat \<Rightarrow> string \<Rightarrow> nat \<Rightarrow> unit pcomp" where
  "simple_within c o' len grp end' =
     bindc (bounds o' 0 end') (\<lambda>_.
     bindc (getc source_length) (\<lambda>total.
     let available = min (min end' total - o') len in
     bindc (read o' available) (\<lambda>b.
     if available \<noteq> len then
       bindc (add_packet c b (the_range o' available) grp
                (attrs [(''declared_length'', dec len), (''incomplete'', ''true'')])) (\<lambda>_.
       raise (malformed o' ''truncated XMP payload; available source bytes retained''))
     else
       bindc (add_packet c b (the_range o' len) grp []) (\<lambda>i.
       add_input b [i] Identity grp))))"

definition simple :: "container \<Rightarrow> nat \<Rightarrow> nat \<Rightarrow> string \<Rightarrow> unit pcomp" where
  "simple c o' len grp =
     bindc (getc source_length) (\<lambda>total. simple_within c o' len grp total)"

definition sidecar :: "unit pcomp" where
  "sidecar = bindc (getc source_length) (\<lambda>total. simple Sidecar 0 total ''sidecar'')"

section \<open>Cursor over a field buffer\<close>

record slice =
  slice_bytes :: "byte list"
  slice_pos :: nat
  slice_offset :: nat

definition slice_new :: "byte list \<Rightarrow> nat \<Rightarrow> slice" where
  "slice_new b o' = \<lparr>slice_bytes = b, slice_pos = 0, slice_offset = o'\<rparr>"

definition slice_remaining :: "slice \<Rightarrow> byte list" where
  "slice_remaining c = drop (slice_pos c) (slice_bytes c)"

definition slice_take :: "nat \<Rightarrow> slice \<Rightarrow> failure + byte list \<times> slice" where
  "slice_take n c =
     (case checked_add (slice_pos c) n of
        None \<Rightarrow> Inl (malformed (slice_offset c) ''truncated metadata field'')
      | Some end' \<Rightarrow>
          if end' \<le> length (slice_bytes c)
          then Inr (take n (drop (slice_pos c) (slice_bytes c)), c\<lparr>slice_pos := end'\<rparr>)
          else Inl (malformed (slice_offset c) ''truncated metadata field''))"

definition slice_uint :: "nat \<Rightarrow> slice \<Rightarrow> failure + nat \<times> slice" where
  "slice_uint n c =
     (if n > 8 then Inl (malformed (slice_offset c) ''integer field exceeds 64 bits'')
      else tryr (slice_take n c) (\<lambda>(b, d). Inr (be_uint b, d)))"

fun position :: "('b \<Rightarrow> bool) \<Rightarrow> 'b list \<Rightarrow> nat option" where
  "position P [] = None"
| "position P (x # xs) = (if P x then Some 0 else map_option Suc (position P xs))"

definition slice_nul :: "slice \<Rightarrow> failure + byte list \<times> slice" where
  "slice_nul c =
     (case position (\<lambda>b. b = 0) (slice_remaining c) of
        None \<Rightarrow> Inl (malformed (slice_offset c) ''unterminated metadata string'')
      | Some n \<Rightarrow> tryr (slice_take n c) (\<lambda>(v, d). tryr (slice_take 1 d) (\<lambda>(_, e). Inr (v, e))))"

end
