(* ===== verification/Utf8.thy ===== *)
theory Utf8
  imports PC_Prelude
begin

text \<open>
  UTF-8 as the standard library checks it: validity, the replacement of invalid sequences,
  and the boundaries of characters, off which slicing a string panics.
\<close>

text \<open>
  \<open>String::from_utf8_lossy\<close>: each maximal invalid prefix of a sequence becomes U+FFFD.
  \<open>utf8_split\<close> yields the bytes the replacement of the first sequence consumes, or the
  valid sequence.
\<close>

definition continuation :: "byte \<Rightarrow> bool" where
  "continuation b \<longleftrightarrow> 0x80 \<le> b \<and> b \<le> 0xBF"

definition second_ok :: "byte \<Rightarrow> byte \<Rightarrow> bool" where
  "second_ok a b \<longleftrightarrow>
     (if a = 0xE0 then 0xA0 \<le> b \<and> b \<le> 0xBF
      else if a = 0xED then 0x80 \<le> b \<and> b \<le> 0x9F
      else if a = 0xF0 then 0x90 \<le> b \<and> b \<le> 0xBF
      else if a = 0xF4 then 0x80 \<le> b \<and> b \<le> 0x8F
      else continuation b)"

definition utf8_width :: "byte \<Rightarrow> nat" where
  "utf8_width a =
     (if a < 0x80 then 1
      else if 0xC2 \<le> a \<and> a \<le> 0xDF then 2
      else if 0xE0 \<le> a \<and> a \<le> 0xEF then 3
      else if 0xF0 \<le> a \<and> a \<le> 0xF4 then 4
      else 0)"

definition utf8_valid :: "byte \<Rightarrow> byte list \<Rightarrow> nat" where
  "utf8_valid a rest =
     (if utf8_width a \<le> 1 then 0
      else case rest of
        [] \<Rightarrow> 0
      | b # rest' \<Rightarrow>
          if \<not> second_ok a b then 0
          else 1 + length (takeWhile continuation (take (utf8_width a - 2) rest')))"

fun from_utf8_lossy :: "byte list \<Rightarrow> byte list" where
  "from_utf8_lossy [] = []"
| "from_utf8_lossy (a # rest) =
     (let n = utf8_valid a rest in
      if n + 1 = utf8_width a
      then a # take n rest @ from_utf8_lossy (drop n rest)
      else [0xEF, 0xBF, 0xBD] @ from_utf8_lossy (drop n rest))"

declare from_utf8_lossy.simps [simp del]

fun valid_utf8 :: "byte list \<Rightarrow> bool" where
  "valid_utf8 [] = True"
| "valid_utf8 (a # rest) =
     (let n = utf8_valid a rest in n + 1 = utf8_width a \<and> valid_utf8 (drop n rest))"

declare valid_utf8.simps [simp del]

definition char_boundary :: "byte list \<Rightarrow> nat \<Rightarrow> bool" where
  "char_boundary t i \<longleftrightarrow> i = length t \<or> i < length t \<and> \<not> continuation (t ! i)"

lemma char_boundary_length [simp]: "char_boundary t (length t)"
  by (simp add: char_boundary_def)

lemma utf8_valid_le: "utf8_valid a rest \<le> length rest"
proof (cases rest)
  case (Cons b rest')
  have "length (takeWhile continuation (take (utf8_width a - 2) rest')) \<le> length rest'"
    by (rule order_trans [OF length_takeWhile_le]) simp
  then show ?thesis using Cons by (simp add: utf8_valid_def)
qed (simp add: utf8_valid_def)

lemma utf8_width_ascii: "a < 0x80 \<Longrightarrow> utf8_width a = 1"
  by (simp add: utf8_width_def)

lemma valid_not_continuation: "valid_utf8 (a # rest) \<Longrightarrow> \<not> continuation a"
  by (auto simp: valid_utf8.simps utf8_width_def continuation_def Let_def word_le_nat_alt word_less_nat_alt split: if_splits)

lemma valid_inside_continuation:
  assumes "i < utf8_valid a rest"
  shows "continuation (rest ! i)"
proof (cases rest)
  case Nil
  with assms show ?thesis by (simp add: utf8_valid_def split: if_splits)
next
  case (Cons b rest')
  with assms have ok: "second_ok a b" and i: "i < 1 + length (takeWhile continuation (take (utf8_width a - 2) rest'))"
    by (auto simp: utf8_valid_def split: if_splits)
  show ?thesis
  proof (cases i)
    case 0
    with ok Cons show ?thesis
      by (auto simp: second_ok_def continuation_def word_le_nat_alt split: if_splits)
  next
    case (Suc j)
    let ?w = "takeWhile continuation (take (utf8_width a - 2) rest')"
    have j: "j < length ?w" using i Suc by simp
    then have "?w ! j \<in> set ?w" by (rule nth_mem)
    then have "continuation (?w ! j)" by (rule set_takeWhileD [THEN conjunct2])
    moreover have "j < length (take (utf8_width a - 2) rest')" using j length_takeWhile_le order_less_le_trans by blast
    ultimately show ?thesis using Suc Cons takeWhile_nth [OF j] by simp
  qed
qed

text \<open>After an ASCII byte of a valid string comes a boundary.\<close>

lemma ascii_next_boundary: "valid_utf8 t \<Longrightarrow> i < length t \<Longrightarrow> t ! i < 0x80 \<Longrightarrow> char_boundary t (Suc i)"
proof (induction t arbitrary: i rule: valid_utf8.induct)
  case (2 a rest)
  define n where "n = utf8_valid a rest"
  have valid: "n + 1 = utf8_width a" "valid_utf8 (drop n rest)" using 2 by (auto simp: valid_utf8.simps n_def Let_def)
  have n: "n \<le> length rest" by (simp add: n_def utf8_valid_le)
  show ?case
  proof (cases "i \<le> n")
    case True
    have "i = 0"
    proof (rule ccontr)
      assume "i \<noteq> 0"
      then have "continuation ((a # rest) ! i)" using True valid_inside_continuation [of "i - 1" a rest] by (simp add: n_def nth_Cons')
      with 2(4) show False by (simp add: continuation_def word_le_nat_alt word_less_nat_alt)
    qed
    then have "n = 0" using valid(1) 2(4) by (simp add: utf8_width_ascii)
    with \<open>i = 0\<close> valid(2) show ?thesis
      using valid_not_continuation by (cases rest) (auto simp: char_boundary_def)
  next
    case False
    have "drop n rest ! (i - Suc n) = (a # rest) ! i" using False n by (simp add: nth_Cons')
    then have "char_boundary (drop n rest) (Suc (i - Suc n))"
      by (intro 2(1)) (use 2 valid(2) False n in \<open>auto simp: n_def\<close>)
    with False n 2(3) show ?thesis by (auto simp: char_boundary_def nth_Cons' Suc_diff_Suc)
  qed
qed simp

end
