(* ===== verification/XMP_Containers.thy ===== *)
theory XMP_Containers
  imports XMP_Parser Utf8
begin

text \<open>
  The container formats of \<open>xmp_packets.rs\<close>, one definition per parser method: JPEG with
  extended packets, PNG, WebP, PSD, the TIFF family, the boxes of ISO base media files, RAF,
  and the dispatch on the first bytes. Loops carry as fuel the number of bytes they may
  advance over; directory and box recursion carries as fuel the nesting limit.
\<close>

section \<open>JPEG\<close>

definition JPEG_MAIN :: "byte list" where
  "JPEG_MAIN = ascii ''http://ns.adobe.com/xap/1.0/'' @ [0]"

definition JPEG_EXT :: "byte list" where
  "JPEG_EXT = ascii ''http://ns.adobe.com/xmp/extension/'' @ [0]"

definition is_ascii_hexdigit :: "char \<Rightarrow> bool" where
  "is_ascii_hexdigit c \<longleftrightarrow>
     (let n = of_char c :: nat in 48 \<le> n \<and> n \<le> 57 \<or> 65 \<le> n \<and> n \<le> 70 \<or> 97 \<le> n \<and> n \<le> 102)"

definition to_ascii_uppercase :: "string \<Rightarrow> string" where
  "to_ascii_uppercase t =
     map (\<lambda>c. let n = of_char c :: nat in if 97 \<le> n \<and> n \<le> 122 then char_of (n - 32) else c) t"

text \<open>The scan of one block: the position of the marker that ends the scan, or the pending \<open>FF\<close>.\<close>

fun entropy_scan :: "nat option \<Rightarrow> nat \<Rightarrow> byte list \<Rightarrow> nat + nat option" where
  "entropy_scan ff pos [] = Inr ff"
| "entropy_scan ff pos (b # bs) =
     (case ff of
        Some marker \<Rightarrow>
          if b = 0x00 \<or> b = 0x01 \<or> (0xD0 \<le> b \<and> b \<le> 0xD7) then entropy_scan None (Suc pos) bs
          else if b = 0xFF then entropy_scan ff (Suc pos) bs
          else Inl marker
      | None \<Rightarrow>
          if b = 0xFF then entropy_scan (Some pos) (Suc pos) bs
          else entropy_scan None (Suc pos) bs)"

definition entropy_block :: "nat \<Rightarrow> nat option \<times> nat \<Rightarrow> ((nat option \<times> nat) + nat) pcomp" where
  "entropy_block end' = (\<lambda>(ff, o').
     if o' < end' then
       let n = min (end' - o') 65536 in
       bindc (read_source o' n ''JPEG scan read failed'') (\<lambda>b.
       case entropy_scan ff o' b of
         Inl marker \<Rightarrow> ret (Inr marker)
       | Inr ff' \<Rightarrow> bindc (addc o' n) (\<lambda>next. ret (Inl (ff', next))))
     else raise (malformed o' ''JPEG scan has no terminating marker''))"

definition entropy_end :: "nat \<Rightarrow> nat \<Rightarrow> nat pcomp" where
  "entropy_end o' end' = loopc (Suc (end' - o')) OutOfFuel (entropy_block end') (None, o')"

definition marker_step :: "nat \<Rightarrow> nat \<Rightarrow> (nat + byte \<times> nat) pcomp" where
  "marker_step end' o' =
     bindc (bounds o' 1 end') (\<lambda>_.
     bindc (read o' 1) (\<lambda>b.
     bindc (index b 0) (\<lambda>value.
     bindc (addc o' 1) (\<lambda>next.
     if value \<noteq> 0xFF then ret (Inr (value, next)) else ret (Inl next)))))"

definition jpeg_truncated :: "nat \<Rightarrow> nat \<Rightarrow> byte \<Rightarrow> nat \<Rightarrow> nat \<Rightarrow> failure \<Rightarrow> nat pcomp" where
  "jpeg_truncated base end' marker payload len error =
     bindc (if marker = 0xE1 \<and> payload \<le> end' then
              bindc (subc end' payload) (\<lambda>n.
              bindc (read payload n) (\<lambda>b.
              bindc (ret (if starts_with JPEG_MAIN b then Some JpegMain
                          else if starts_with JPEG_EXT b then Some JpegExtended else None)) (\<lambda>container.
              case container of
                None \<Rightarrow> ret ()
              | Some c \<Rightarrow>
                  bindc (subc len 2) (\<lambda>declared.
                  bindc (add_packet c b (the_range payload n)
                    (''jpeg:'' @ dec base @ '':truncated:'' @ dec payload)
                    (attrs [(''declared_length'', dec declared), (''incomplete'', ''true'')])) (\<lambda>_.
                  ret ())))))
            else ret ()) (\<lambda>_.
     raise error)"

definition push_group :: "string \<Rightarrow> extended \<Rightarrow> unit pcomp" where
  "push_group key f = modc (\<lambda>s. s\<lparr>groups :=
     (case map_of (groups s) key of
        None \<Rightarrow> hm_insert key [f] (groups s)
      | Some fs \<Rightarrow> hm_adjust key (\<lambda>gs. gs @ [f]) (groups s))\<rparr>)"

definition jpeg_extended :: "nat \<Rightarrow> nat \<Rightarrow> nat \<Rightarrow> byte list \<Rightarrow> unit pcomp" where
  "jpeg_extended base payload len b =
     (let header = length JPEG_EXT in
      bindc (if length b \<ge> header + 32
             then bindc (window b header (header + 32)) (\<lambda>g. ret (text_of (from_utf8_lossy g)))
             else ret ''invalid-guid'') (\<lambda>grp.
      bindc (subc len 2) (\<lambda>n.
      bindc (add_packet JpegExtended b (the_range payload n) (''jpeg:'' @ dec base @ '':extended:'' @ grp) []) (\<lambda>i.
      if length b < header + 40 \<or> \<not> list_all is_ascii_hexdigit grp
      then record_issue (malformed payload ''invalid extended JPEG GUID/header'')
      else
        bindc (be32_at b (header + 32) (header + 36)) (\<lambda>total.
        bindc (be32_at b (header + 36) (header + 40)) (\<lambda>start.
        bindc (set_attributes i (attrs [(''guid'', grp), (''full_length'', dec total), (''fragment_offset'', dec start)])) (\<lambda>_.
        bindc (window b (header + 40) (length b)) (\<lambda>rest.
        push_group (to_ascii_uppercase grp)
          \<lparr>ext_index = i, ext_total = total, ext_start = start, ext_bytes = rest\<rparr>))))))))"

definition jpeg_app1 :: "nat \<Rightarrow> nat \<Rightarrow> nat \<Rightarrow> unit pcomp" where
  "jpeg_app1 base payload len =
     bindc (subc len 2) (\<lambda>n.
     bindc (read payload n) (\<lambda>b.
     if starts_with JPEG_MAIN b then
       let grp = ''jpeg:'' @ dec base @ '':main:'' @ dec payload in
       bindc (window b (length JPEG_MAIN) (length b)) (\<lambda>xml.
       bindc (add_packet JpegMain b (the_range payload n) grp []) (\<lambda>i.
       add_input xml [i] CarrierHeaderRemoved grp))
     else if starts_with JPEG_EXT b then jpeg_extended base payload len b
     else ret ()))"

text \<open>One marker of the structural loop: the next offset, or the end of the image.\<close>

definition jpeg_segment :: "nat \<Rightarrow> nat \<Rightarrow> nat \<Rightarrow> (nat + unit) pcomp" where
  "jpeg_segment base end' o' =
     (if o' < end' then
        bindc (tick o') (\<lambda>_.
        bindc (read o' 1) (\<lambda>b.
        if b \<noteq> [0xFF] then raise (malformed o' ''invalid JPEG marker boundary'')
        else
          bindc (addc o' 1) (\<lambda>first.
          bindc (loopc (Suc (Suc (end' - first))) OutOfFuel (marker_step end') first) (\<lambda>(marker, off).
          if marker = 0xD9 then ret (Inr ())
          else if marker = 0x01 \<or> (0xD0 \<le> marker \<and> marker \<le> 0xD7) then ret (Inl off)
          else if marker = 0x00 \<or> marker = 0xD8 then raise (malformed o' ''invalid JPEG marker'')
          else
            bindc (bounds off 2 end') (\<lambda>_.
            bindc (read off 2) (\<lambda>lb.
            bindc (be16 lb) (\<lambda>len.
            if len < 2 then raise (malformed off ''invalid JPEG segment length'')
            else
              bindc (addc off 2) (\<lambda>payload.
              bindc (outcome (bounds off len end')) (\<lambda>within.
              bindc (case within of Inr next \<Rightarrow> ret next
                     | Inl error \<Rightarrow> jpeg_truncated base end' marker payload len error) (\<lambda>next.
              bindc (if marker = 0xE1 then jpeg_app1 base payload len else ret ()) (\<lambda>_.
              if marker = 0xDA \<or> marker = 0xDC
              then bindc (entropy_end next end') (\<lambda>m. ret (Inl m))
              else ret (Inl next))))))))))))
      else raise (malformed o' ''JPEG missing EOI''))"

text \<open>\<open>fragments.iter().all(..)\<close> with the position it accumulates.\<close>

fun fragments_end :: "nat \<Rightarrow> nat \<Rightarrow> extended list \<Rightarrow> nat option" where
  "fragments_end whole pos [] = Some pos"
| "fragments_end whole pos (f # fs) =
     (if ext_bytes f \<noteq> [] \<and> ext_total f = whole \<and> ext_start f = pos \<and> pos + length (ext_bytes f) \<le> whole
      then fragments_end whole (pos + length (ext_bytes f)) fs
      else None)"

definition jpeg_group :: "nat \<Rightarrow> string \<times> extended list \<Rightarrow> unit \<Rightarrow> unit pcomp" where
  "jpeg_group base = (\<lambda>(guid, unsorted) _.
     let fragments = sort_key ext_start unsorted in
     bindc (index fragments 0) (\<lambda>first.
     let total = ext_total first in
     if fragments_end total 0 fragments \<noteq> Some total
     then record_issue (malformed base (''extended JPEG '' @ guid @ '': gap, overlap, duplicate, or inconsistent length''))
     else
       bindc (getc (\<lambda>s. total > max_packet_bytes (limits s))) (\<lambda>over.
       if over then record_issue (limited base ''extended JPEG reconstruction limit exceeded'')
       else
         let b = concat (map ext_bytes fragments) in
         bindc (getc (\<lambda>s. md5_upper_hex (env s) b)) (\<lambda>md5.
         if md5 \<noteq> guid then record_issue (malformed base (''extended JPEG '' @ guid @ '': MD5 mismatch''))
         else add_input b (map ext_index fragments) JpegExtendedReassembled
                (''jpeg:'' @ dec base @ '':extended:'' @ guid)))))"

definition jpeg :: "nat \<Rightarrow> nat \<Rightarrow> unit pcomp" where
  "jpeg base end' =
     bindc (read base 2) (\<lambda>soi.
     if soi \<noteq> [0xFF, 0xD8] then raise (malformed base ''invalid JPEG SOI'')
     else
       bindc (addc base 2) (\<lambda>o'.
       bindc (modc (groups_update (\<lambda>_. []))) (\<lambda>_.
       bindc (outcome (loopc (Suc (Suc (end' - o'))) OutOfFuel (jpeg_segment base end') o')) (\<lambda>result.
       bindc (getc groups) (\<lambda>gs.
       bindc (forc (sort_key fst gs) (jpeg_group base) ()) (\<lambda>_.
       propagate result))))))"

section \<open>PNG\<close>

text \<open>The reflected CRC-32 of the source, bit by bit.\<close>

definition crc_bit :: "32 word \<Rightarrow> 32 word" where
  "crc_bit crc = drop_bit 1 crc XOR (0xEDB88320 AND (0 - (crc AND 1)))"

definition crc_byte :: "32 word \<Rightarrow> byte \<Rightarrow> 32 word" where
  "crc_byte crc b = (crc_bit ^^ 8) (crc XOR ucast b)"

definition crc32 :: "byte list \<Rightarrow> 32 word" where
  "crc32 b = NOT (foldl crc_byte (NOT 0) b)"

definition png_text :: "byte list \<Rightarrow> nat \<Rightarrow> nat \<Rightarrow> (byte list \<times> transformation) pcomp" where
  "png_text b start o' =
     bindc (window b start (length b)) (\<lambda>rest.
     bindc (propagate (slice_uint 1 (slice_new rest o'))) (\<lambda>(flag, c1).
     bindc (propagate (slice_uint 1 c1)) (\<lambda>(method, c2).
     if flag > 1 \<or> method \<noteq> 0 then raise (malformed o' ''invalid XMP iTXt compression fields'')
     else
       bindc (propagate (slice_nul c2)) (\<lambda>(_, c3).
       bindc (propagate (slice_nul c3)) (\<lambda>(_, c4).
       let text = slice_remaining c4 in
       if flag = 0 then ret (text, CarrierHeaderRemoved)
       else
         bindc (getc limits) (\<lambda>l.
         bindc (addc (max_packet_bytes l) 1) (\<lambda>most.
         bindc (getc (\<lambda>s. zlib_decode (env s) text most)) (\<lambda>out.
         case out of
           None \<Rightarrow> raise (malformed o' ''invalid compressed XMP iTXt'')
         | Some (xml, consumed) \<Rightarrow>
             if length xml > max_packet_bytes l then raise (limited o' ''decompressed XMP limit exceeded'')
             else if consumed \<noteq> length text then raise (malformed o' ''trailing compressed XMP bytes'')
             else ret (xml, ZlibDecompressed)))))))))"

text \<open>
  The iTXt branch of the chunk loop: \<open>Some\<close> next offset where the source \<open>continue\<close>s at
  once (a CRC mismatch), \<open>None\<close> where the chunk is left the ordinary way.
\<close>

definition png_itxt :: "nat \<Rightarrow> nat \<Rightarrow> failure + nat \<Rightarrow> nat option pcomp" where
  "png_itxt o' len complete =
     bindc (getc source_length) (\<lambda>total.
     bindc (addc o' 8) (\<lambda>payload.
     let available = min len (total - payload) in
     bindc (read payload available) (\<lambda>b.
     let keyword_end = position (\<lambda>x. x = 0) b in
     if map_option (\<lambda>i. take i b) keyword_end = Some (ascii ''XML:com.adobe.xmp'') \<or> b = ascii ''XML:com.adobe.xmp''
     then
       let grp = ''png:itxt:'' @ dec o' in
       bindc (add_packet PngItxt b (the_range payload available) grp []) (\<lambda>i.
       case (complete, keyword_end) of
         (Inr _, Some k) \<Rightarrow>
           bindc (addc payload len) (\<lambda>crc_offset.
           bindc (read crc_offset 4) (\<lambda>cb.
           bindc (be32 cb) (\<lambda>expected.
           if unat (crc32 (ascii ''iTXt'' @ b)) \<noteq> expected
           then bindc (record_issue (malformed o' ''XMP iTXt CRC mismatch'')) (\<lambda>_.
                bindc (propagate complete) (\<lambda>next. ret (Some next)))
           else
             bindc (outcome (png_text b (k + 1) o')) (\<lambda>text.
             case text of
               Inr (xml, transform) \<Rightarrow> bindc (add_input xml [i] transform grp) (\<lambda>_. ret None)
             | Inl error \<Rightarrow> bindc (record_issue error) (\<lambda>_. ret None)))))
       | _ \<Rightarrow>
           bindc (set_attributes i (attrs [(''declared_length'', dec len), (''incomplete'', ''true'')])) (\<lambda>_.
           raise (malformed o' ''truncated XMP iTXt carrier or missing keyword terminator'')))
     else ret None)))"

text \<open>One chunk: the next offset, or (ended, offset) where the loop is left.\<close>

definition png_chunk :: "nat \<Rightarrow> (nat + bool \<times> nat) pcomp" where
  "png_chunk o' =
     bindc (getc source_length) (\<lambda>total.
     if o' < total then
       bindc (tick o') (\<lambda>_.
       bindc (read o' 8) (\<lambda>header.
       bindc (be32_at header 0 4) (\<lambda>len.
       bindc (addc len 12) (\<lambda>whole.
       bindc (outcome (bounds o' whole total)) (\<lambda>complete.
       bindc (window header 4 8) (\<lambda>kind.
       bindc (if kind = ascii ''iTXt'' then png_itxt o' len complete else ret None) (\<lambda>skip.
       case skip of
         Some next \<Rightarrow> ret (Inl next)
       | None \<Rightarrow>
           bindc (propagate complete) (\<lambda>next.
           if kind = ascii ''IEND'' then
             (if len \<noteq> 0 then raise (malformed next ''PNG IEND has payload'')
              else ret (Inr (True, next)))
           else ret (Inl next)))))))))
     else ret (Inr (False, o')))"

definition png :: "unit pcomp" where
  "png =
     bindc (getc source_length) (\<lambda>total.
     bindc (loopc (Suc total) OutOfFuel png_chunk 8) (\<lambda>(ended, o').
     if \<not> ended \<or> o' \<noteq> total then raise (malformed o' ''PNG missing IEND or trailing bytes'')
     else ret ()))"

section \<open>WebP and PSD\<close>

definition webp_chunk :: "nat \<Rightarrow> nat \<Rightarrow> (nat + unit) pcomp" where
  "webp_chunk end' o' =
     (if o' < end' then
        bindc (tick o') (\<lambda>_.
        bindc (bounds o' 8 end') (\<lambda>_.
        bindc (read o' 8) (\<lambda>header.
        bindc (le32_at header 4 8) (\<lambda>len.
        bindc (window header 0 4) (\<lambda>kind.
        bindc (addc o' 8) (\<lambda>payload.
        bindc (if kind = ascii ''XMP '' then simple_within WebpXmp payload len (''webp:'' @ dec o') end'
               else ret ()) (\<lambda>_.
        bindc (addc len (len mod 2)) (\<lambda>padded.
        bindc (bounds payload padded end') (\<lambda>next.
        ret (Inl next))))))))))
      else ret (Inr ()))"

definition webp :: "unit pcomp" where
  "webp =
     bindc (read 0 12) (\<lambda>header.
     bindc (le32_at header 4 8) (\<lambda>size.
     bindc (addc size 8) (\<lambda>declared.
     bindc (getc source_length) (\<lambda>total.
     bindc (if declared \<noteq> total then record_issue (malformed 4 ''RIFF declared size differs from source'')
            else ret ()) (\<lambda>_.
     let end' = min declared total in
     loopc (Suc end') OutOfFuel (webp_chunk end') 12)))))"

definition psd_resource :: "nat \<Rightarrow> nat \<Rightarrow> (nat + unit) pcomp" where
  "psd_resource end' o' =
     (if o' < end' then
        bindc (tick o') (\<lambda>_.
        bindc (bounds o' 7 end') (\<lambda>_.
        bindc (read o' 7) (\<lambda>header.
        bindc (window header 0 4) (\<lambda>signature.
        let standard = (signature = ascii ''8BIM'') in
        if \<not> standard \<and> signature \<noteq> ascii ''AgHg''
        then raise (malformed o' ''invalid PSD resource signature'')
        else
          bindc (index header 6) (\<lambda>nb.
          let name_length = unat nb + 1 in
          bindc (addc o' 6) (\<lambda>name.
          bindc (bounds name (name_length + name_length mod 2) end') (\<lambda>size_offset.
          bindc (bounds size_offset 4 end') (\<lambda>_.
          bindc (read size_offset 4) (\<lambda>sb.
          bindc (be32 sb) (\<lambda>len.
          bindc (addc size_offset 4) (\<lambda>payload.
          bindc (be16_at header 4 6) (\<lambda>kind.
          bindc (if standard \<and> kind = 1060
                 then simple_within PsdResource1060 payload len (''psd:'' @ dec o') end'
                 else ret ()) (\<lambda>_.
          bindc (addc len (len mod 2)) (\<lambda>padded.
          bindc (bounds payload padded end') (\<lambda>next.
          ret (Inl next))))))))))))))))
      else ret (Inr ()))"

definition psd :: "unit pcomp" where
  "psd =
     bindc (read 0 26) (\<lambda>header.
     bindc (be16_at header 4 6) (\<lambda>version.
     if version \<noteq> 1 then raise (unsupported 4 ''only PSD version 1 is supported'')
     else
       bindc (getc source_length) (\<lambda>total.
       bindc (read 26 4) (\<lambda>cb.
       bindc (be32 cb) (\<lambda>color_length.
       bindc (bounds 30 color_length total) (\<lambda>resource_start.
       bindc (read resource_start 4) (\<lambda>rb.
       bindc (be32 rb) (\<lambda>resource_length.
       bindc (addc resource_start 4) (\<lambda>o'.
       bindc (outcome (bounds o' resource_length total)) (\<lambda>within.
       bindc (case within of
                Inr end' \<Rightarrow> ret end'
              | Inl error \<Rightarrow> bindc (record_issue error) (\<lambda>_. ret total)) (\<lambda>end'.
       loopc (Suc (Suc (end' - o'))) OutOfFuel (psd_resource end') o')))))))))))"

section \<open>TIFF\<close>

record tiff =
  tiff_base :: nat
  tiff_end :: nat
  tiff_little :: bool
  tiff_big :: bool

definition tiff_uint :: "tiff \<Rightarrow> byte list \<Rightarrow> nat" where
  "tiff_uint t b = (if tiff_little t then le_uint b else be_uint b)"

definition tiff_absolute :: "tiff \<Rightarrow> nat \<Rightarrow> nat pcomp" where
  "tiff_absolute t o' =
     (case checked_add (tiff_base t) o' of
        None \<Rightarrow> raise (malformed (tiff_base t) ''TIFF relative offset overflow'')
      | Some v \<Rightarrow> if v \<le> tiff_end t then ret v
                 else raise (malformed (tiff_base t) ''TIFF relative offset overflow''))"

definition count_size :: "tiff \<Rightarrow> nat" where
  "count_size t = (if tiff_big t then 8 else 2)"

definition entry_size :: "tiff \<Rightarrow> nat" where
  "entry_size t = (if tiff_big t then 20 else 12)"

definition slot_size :: "tiff \<Rightarrow> nat" where
  "slot_size t = (if tiff_big t then 8 else 4)"

definition kind_size :: "nat \<Rightarrow> nat option" where
  "kind_size kind =
     (if kind \<in> {1, 2, 6, 7} then Some 1
      else if kind \<in> {3, 8} then Some 2
      else if kind \<in> {4, 9, 11, 13} then Some 4
      else if kind \<in> {5, 10, 12, 16, 17, 18} then Some 8
      else None)"

text \<open>\<open>chunks_exact(n)\<close>: the whole chunks, the remainder dropped.\<close>

fun chunks_exact :: "nat \<Rightarrow> 'b list \<Rightarrow> 'b list list" where
  "chunks_exact n b =
     (if n = 0 \<or> length b < n then [] else take n b # chunks_exact n (drop n b))"

declare chunks_exact.simps [simp del]

text \<open>One directory entry; the children found so far are extended by its pointers.\<close>

definition tiff_xmp_entry :: "tiff \<Rightarrow> nat \<Rightarrow> nat \<Rightarrow> nat \<Rightarrow> nat \<Rightarrow> nat \<Rightarrow> nat \<Rightarrow> nat \<Rightarrow> unit pcomp" where
  "tiff_xmp_entry t o' index' entry_offset kind n value_offset len =
     bindc (simple TiffTag700 value_offset len
       (''tiff:'' @ dec (tiff_base t) @ '':ifd:'' @ dec o' @ '':entry:'' @ dec index')) (\<lambda>_.
     bindc (set_last_attributes (attrs [(''ifd_offset'', dec o'), (''type'', dec kind), (''count'', dec n)])) (\<lambda>_.
     if kind \<notin> {1, 2, 7}
     then record_issue (malformed entry_offset ''XMP TIFF tag is not a byte/string type; raw bytes retained'')
     else ret ()))"

definition tiff_pointer_entry :: "tiff \<Rightarrow> nat \<Rightarrow> nat \<Rightarrow> nat \<Rightarrow> nat \<Rightarrow> nat \<Rightarrow> nat list \<Rightarrow> nat list pcomp" where
  "tiff_pointer_entry t entry_offset kind size' value_offset len children =
     bindc (bounds value_offset len (tiff_end t)) (\<lambda>_.
     if kind \<notin> {4, 13, 16, 18}
     then bindc (record_issue (malformed entry_offset ''invalid TIFF directory pointer type'')) (\<lambda>_. ret children)
     else
       bindc (read value_offset len) (\<lambda>values.
       ret (children @ map (tiff_uint t) (chunks_exact size' values))))"

definition tiff_entry :: "tiff \<Rightarrow> nat \<Rightarrow> nat \<Rightarrow> nat \<Rightarrow> nat list \<Rightarrow> nat list pcomp" where
  "tiff_entry t o' start index' children =
     bindc (mulc index' (entry_size t)) (\<lambda>skip.
     bindc (addc start skip) (\<lambda>entry_offset.
     bindc (tick entry_offset) (\<lambda>_.
     bindc (read entry_offset (entry_size t)) (\<lambda>entry.
     bindc (window entry 0 2) (\<lambda>tb.
     let tag = tiff_uint t tb in
     if tag \<notin> {700, 330, 34665, 34853, 40965} then ret children
     else
       bindc (window entry 2 4) (\<lambda>kb.
       let kind = tiff_uint t kb in
       bindc (window entry 4 (entry_size t - slot_size t)) (\<lambda>nb.
       let n = tiff_uint t nb in
       case kind_size kind of
         None \<Rightarrow> bindc (record_issue (malformed entry_offset ''unsupported XMP/pointer TIFF field type'')) (\<lambda>_. ret children)
       | Some size' \<Rightarrow>
           (case checked_mul n size' of
              None \<Rightarrow> raise (malformed entry_offset ''TIFF value size overflow'')
            | Some len \<Rightarrow>
                bindc (if len \<le> slot_size t
                       then bindc (addc entry_offset (entry_size t)) (\<lambda>e. subc e (slot_size t))
                       else bindc (window entry (entry_size t - slot_size t) (length entry)) (\<lambda>vb.
                            tiff_absolute t (tiff_uint t vb))) (\<lambda>value_offset.
                if tag = 700
                then bindc (tiff_xmp_entry t o' index' entry_offset kind n value_offset len) (\<lambda>_. ret children)
                else tiff_pointer_entry t entry_offset kind size' value_offset len children)))))))))"

text \<open>The entries of a directory and the offset of the next one: the directories to visit.\<close>

definition tiff_entries :: "tiff \<Rightarrow> nat \<Rightarrow> nat list pcomp" where
  "tiff_entries t o' =
     bindc (tick o') (\<lambda>_.
     bindc (bounds o' (count_size t) (tiff_end t)) (\<lambda>_.
     bindc (read o' (count_size t)) (\<lambda>cb.
     let count = tiff_uint t cb in
     bindc (getc limits) (\<lambda>l.
     if count > max_entries l then raise (limited o' ''TIFF directory entry count exceeded'')
     else
       bindc (addc o' (count_size t)) (\<lambda>start.
       case checked_mul count (entry_size t) of
         None \<Rightarrow> raise (malformed o' ''TIFF directory size overflow'')
       | Some table \<Rightarrow>
           bindc (bounds start table (tiff_end t)) (\<lambda>next_offset.
           bindc (bounds next_offset (slot_size t) (tiff_end t)) (\<lambda>_.
           bindc (forc [0..<count] (tiff_entry t o' start) []) (\<lambda>children.
           bindc (read next_offset (slot_size t)) (\<lambda>nb.
           ret (children @ [tiff_uint t nb]))))))))))"

primrec tiff_children :: "(nat \<Rightarrow> unit pcomp) \<Rightarrow> nat list \<Rightarrow> unit pcomp" where
  "tiff_children visit [] = ret ()"
| "tiff_children visit (c # cs) =
     bindc (outcome (visit c)) (\<lambda>r.
     case r of
       Inr _ \<Rightarrow> tiff_children visit cs
     | Inl error \<Rightarrow>
         bindc (record_issue error) (\<lambda>_.
         if fail_status error = ResourceLimit then ret () else tiff_children visit cs))"

primrec tiff_ifd :: "nat \<Rightarrow> tiff \<Rightarrow> nat \<Rightarrow> nat \<Rightarrow> unit pcomp" where
  "tiff_ifd 0 t relative depth = fail OutOfFuel"
| "tiff_ifd (Suc fuel) t relative depth =
     (if relative = 0 then ret ()
      else
        bindc (getc limits) (\<lambda>l.
        if depth > max_depth l then raise (limited (tiff_base t) ''TIFF directory depth exceeded'')
        else
          bindc (tiff_absolute t relative) (\<lambda>o'.
          bindc (getc active) (\<lambda>act.
          if o' \<in> set act then raise (malformed o' ''TIFF directory cycle'')
          else
            bindc (getc visited) (\<lambda>vis.
            if o' \<in> set vis then ret ()
            else
              bindc (modc (visited_update (\<lambda>v. o' # v))) (\<lambda>_.
              bindc (modc (active_update (\<lambda>a. o' # a))) (\<lambda>_.
              bindc (outcome (bindc (tiff_entries t o') (tiff_children (\<lambda>c. tiff_ifd fuel t c (depth + 1))))) (\<lambda>result.
              bindc (modc (active_update (removeAll o'))) (\<lambda>_.
              propagate result)))))))))"

definition tiff_parse :: "nat \<Rightarrow> nat \<Rightarrow> unit pcomp" where
  "tiff_parse base end' =
     bindc (read base 8) (\<lambda>header.
     bindc (window header 0 2) (\<lambda>order.
     let little = (order = ascii ''II'') in
     if \<not> little \<and> order \<noteq> ascii ''MM'' then raise (malformed base ''invalid TIFF byte order'')
     else
       let t0 = \<lparr>tiff_base = base, tiff_end = end', tiff_little = little, tiff_big = False\<rparr> in
       bindc (window header 2 4) (\<lambda>mb.
       let magic = tiff_uint t0 mb in
       let t = t0\<lparr>tiff_big := (magic = 43)\<rparr> in
       if magic \<notin> {42, 43, 85, 0x4F52, 0x5352}
       then bindc (addc base 2) (\<lambda>o'. raise (unsupported o' ''unsupported TIFF-family magic''))
       else
         bindc (if tiff_big t then
                  bindc (window header 4 6) (\<lambda>sb.
                  bindc (window header 6 8) (\<lambda>zb.
                  if tiff_uint t sb \<noteq> 8 \<or> tiff_uint t zb \<noteq> 0
                  then bindc (addc base 4) (\<lambda>o'. raise (malformed o' ''invalid BigTIFF header''))
                  else bindc (addc base 8) (\<lambda>o'. bindc (read o' 8) (\<lambda>fb. ret (tiff_uint t fb)))))
                else bindc (window header 4 8) (\<lambda>fb. ret (tiff_uint t fb))) (\<lambda>first.
         bindc (modc (\<lambda>s. s\<lparr>active := [], visited := []\<rparr>)) (\<lambda>_.
         bindc (getc limits) (\<lambda>l.
         tiff_ifd (max_depth l + 2) t first 0))))))"

section \<open>ISO base media files\<close>

record bmff_box =
  box_kind :: "byte list"
  box_start :: nat
  box_payload :: nat
  box_end :: nat

record item =
  content_type :: "byte list"
  encoding :: "byte list"
  protection :: nat
  item_name :: "byte list"

record location =
  loc_method :: nat
  loc_reference :: nat
  loc_base :: nat
  loc_extents :: "(nat \<times> nat) list"

definition XMP_UUID :: "byte list" where
  "XMP_UUID = [0xBE, 0x7A, 0xCF, 0xCB, 0x97, 0xA9, 0x42, 0xE8, 0x9C, 0x71, 0x99, 0x94, 0x91, 0xE3, 0xAF, 0xAC]"

definition box_at :: "nat \<Rightarrow> nat \<Rightarrow> bmff_box pcomp" where
  "box_at o' end' =
     bindc (tick o') (\<lambda>_.
     bindc (bounds o' 8 end') (\<lambda>_.
     bindc (read o' 8) (\<lambda>header.
     bindc (be32_at header 0 4) (\<lambda>size32.
     bindc (if size32 = 1 then
              bindc (bounds o' 16 end') (\<lambda>_.
              bindc (addc o' 8) (\<lambda>large.
              bindc (read large 8) (\<lambda>b. ret (be_uint b, 16))))
            else if size32 = 0 then bindc (subc end' o') (\<lambda>n. ret (n, 8))
            else ret (size32, 8)) (\<lambda>(size', header_length).
     if size' < header_length then raise (malformed o' ''BMFF box smaller than its header'')
     else
       bindc (bounds o' size' end') (\<lambda>next.
       bindc (window header 4 8) (\<lambda>kind.
       bindc (addc o' header_length) (\<lambda>payload.
       ret \<lparr>box_kind = kind, box_start = o', box_payload = payload, box_end = next\<rparr>))))))))"

definition boxes_step :: "nat \<Rightarrow> nat \<times> bmff_box list \<Rightarrow> (nat \<times> bmff_box list + bmff_box list) pcomp" where
  "boxes_step end' = (\<lambda>(o', found).
     if o' < end' then
       bindc (outcome (box_at o' end')) (\<lambda>r.
       case r of
         Inr entry \<Rightarrow> ret (Inl (box_end entry, found @ [entry]))
       | Inl error \<Rightarrow> bindc (record_issue error) (\<lambda>_. ret (Inr found)))
     else ret (Inr found))"

definition boxes :: "nat \<Rightarrow> nat \<Rightarrow> bmff_box list pcomp" where
  "boxes o' end' = loopc (Suc (Suc (end' - o'))) OutOfFuel (boxes_step end') (o', [])"

definition iinf_child :: "bmff_box \<Rightarrow> (nat, item) hmap \<Rightarrow> (nat, item) hmap pcomp" where
  "iinf_child child items =
     (if box_kind child \<noteq> ascii ''infe'' then raise (malformed (box_start child) ''unexpected iinf child'')
      else
        bindc (subc (box_end child) (box_payload child)) (\<lambda>n.
        bindc (read (box_payload child) n) (\<lambda>b.
        bindc (propagate (slice_uint 1 (slice_new b (box_payload child)))) (\<lambda>(version, c1).
        bindc (propagate (slice_take 3 c1)) (\<lambda>(_, c2).
        if version = 0 \<or> version = 1
        then bindc (record_issue (unsupported (box_start child) ''legacy infe version cannot establish MIME item coverage''))
               (\<lambda>_. ret items)
        else if version \<noteq> 2 \<and> version \<noteq> 3 then raise (unsupported (box_start child) ''unsupported infe version'')
        else
          bindc (propagate (slice_uint (if version = 2 then 2 else 4) c2)) (\<lambda>(id', c3).
          bindc (propagate (slice_uint 2 c3)) (\<lambda>(prot, c4).
          bindc (propagate (slice_take 4 c4)) (\<lambda>(kind, c5).
          bindc (propagate (slice_nul c5)) (\<lambda>(name, c6).
          bindc (if kind = ascii ''mime'' then
                   bindc (propagate (slice_nul c6)) (\<lambda>(ct, c7).
                   bindc (if slice_remaining c7 = [] then ret []
                          else bindc (propagate (slice_nul c7)) (\<lambda>(enc, _). ret enc)) (\<lambda>enc.
                   ret \<lparr>content_type = ct, encoding = enc, protection = prot, item_name = name\<rparr>))
                 else ret \<lparr>content_type = [], encoding = [], protection = prot, item_name = name\<rparr>) (\<lambda>item.
          if map_of items id' \<noteq> None then raise (malformed (box_start child) ''duplicate BMFF item ID'')
          else ret (hm_insert id' item items)))))))))))"

definition field_width :: "byte list \<Rightarrow> failure \<Rightarrow> nat pcomp" where
  "field_width prefix error =
     bindc (index prefix 0) (\<lambda>version.
     if version = 0 then ret 2 else if version = 1 then ret 4 else raise error)"

definition bmff_iinf :: "bmff_box \<Rightarrow> (nat, item) hmap \<Rightarrow> (nat, item) hmap pcomp" where
  "bmff_iinf entry items =
     bindc (bounds (box_payload entry) 4 (box_end entry)) (\<lambda>_.
     bindc (read (box_payload entry) 4) (\<lambda>prefix.
     bindc (field_width prefix (unsupported (box_start entry) ''unsupported iinf version'')) (\<lambda>width.
     bindc (addc (box_payload entry) 4) (\<lambda>counts.
     bindc (bounds counts width (box_end entry)) (\<lambda>_.
     bindc (read counts width) (\<lambda>cb.
     bindc (propagate (slice_uint width (slice_new cb (box_start entry)))) (\<lambda>(count, _).
     bindc (addc counts width) (\<lambda>first.
     bindc (boxes first (box_end entry)) (\<lambda>children.
     if length children \<noteq> count then raise (malformed (box_start entry) ''iinf entry count mismatch'')
     else forc children iinf_child items)))))))))"

definition iloc_extent :: "bmff_box \<Rightarrow> nat \<Rightarrow> nat \<Rightarrow> nat \<Rightarrow> nat \<Rightarrow> (nat \<times> nat) list \<times> slice \<Rightarrow> ((nat \<times> nat) list \<times> slice) pcomp" where
  "iloc_extent entry index_size offset_size length_size _ = (\<lambda>(extents, c).
     bindc (tick (box_start entry)) (\<lambda>_.
     bindc (propagate (slice_uint index_size c)) (\<lambda>(_, c1).
     bindc (propagate (slice_uint offset_size c1)) (\<lambda>(off, c2).
     bindc (propagate (slice_uint length_size c2)) (\<lambda>(len, c3).
     ret (extents @ [(off, len)], c3))))))"

definition iloc_item :: "bmff_box \<Rightarrow> nat \<Rightarrow> nat \<times> nat \<times> nat \<times> nat \<Rightarrow> nat
    \<Rightarrow> (nat, location) hmap \<times> slice \<Rightarrow> ((nat, location) hmap \<times> slice) pcomp" where
  "iloc_item entry version = (\<lambda>(offset_size, length_size, base_size, index_size) _ (locations, c).
     bindc (tick (box_start entry)) (\<lambda>_.
     bindc (propagate (slice_uint (if version < 2 then 2 else 4) c)) (\<lambda>(id', c1).
     bindc (if version > 0 then bindc (propagate (slice_uint 2 c1)) (\<lambda>(m, d). ret (m mod 16, d)) else ret (0, c1)) (\<lambda>(method, c2).
     bindc (propagate (slice_uint 2 c2)) (\<lambda>(reference, c3).
     bindc (propagate (slice_uint base_size c3)) (\<lambda>(base, c4).
     bindc (propagate (slice_uint 2 c4)) (\<lambda>(extent_count, c5).
     bindc (getc (\<lambda>s. extent_count > max_entries (limits s))) (\<lambda>over.
     if over then raise (limited (box_start entry) ''iloc extent count limit exceeded'')
     else
       bindc (forc [0..<extent_count] (iloc_extent entry index_size offset_size length_size) ([], c5)) (\<lambda>(extents, c6).
       if map_of locations id' \<noteq> None then raise (malformed (box_start entry) ''duplicate iloc item ID'')
       else ret (hm_insert id' \<lparr>loc_method = method, loc_reference = reference, loc_base = base,
                                loc_extents = extents\<rparr> locations, c6))))))))))"

definition bmff_iloc :: "bmff_box \<Rightarrow> (nat, location) hmap \<Rightarrow> (nat, location) hmap pcomp" where
  "bmff_iloc entry locations =
     bindc (subc (box_end entry) (box_payload entry)) (\<lambda>n.
     bindc (read (box_payload entry) n) (\<lambda>bytes'.
     bindc (propagate (slice_uint 1 (slice_new bytes' (box_payload entry)))) (\<lambda>(version, c1).
     bindc (propagate (slice_take 3 c1)) (\<lambda>(_, c2).
     if version > 2 then raise (unsupported (box_start entry) ''unsupported iloc version'')
     else
       bindc (propagate (slice_uint 1 c2)) (\<lambda>(a, c3).
       bindc (propagate (slice_uint 1 c3)) (\<lambda>(b, c4).
       let sizes = (a div 16, a mod 16, b div 16, if version > 0 then b mod 16 else 0) in
       if \<not> (case sizes of (i, j, k, l) \<Rightarrow> list_all (\<lambda>w. w \<in> {0, 4, 8}) [i, j, k, l])
       then raise (malformed (box_start entry) ''invalid iloc integer width'')
       else
         bindc (propagate (slice_uint (if version < 2 then 2 else 4) c4)) (\<lambda>(count, c5).
         bindc (getc (\<lambda>s. count > max_entries (limits s))) (\<lambda>over.
         if over then raise (limited (box_start entry) ''iloc item count limit exceeded'')
         else
           bindc (forc [0..<count] (iloc_item entry version sizes) (locations, c5)) (\<lambda>(locations', c6).
           if slice_remaining c6 \<noteq> [] then raise (malformed (box_start entry) ''trailing iloc fields'')
           else ret locations')))))))))"

definition associate :: "nat \<Rightarrow> nat \<Rightarrow> (nat, nat list) hmap \<Rightarrow> (nat, nat list) hmap" where
  "associate from' to' m =
     (case map_of m from' of None \<Rightarrow> hm_insert from' [to'] m | Some _ \<Rightarrow> hm_adjust from' (\<lambda>ids. ids @ [to']) m)"

definition iref_target :: "bmff_box \<Rightarrow> nat \<Rightarrow> nat \<Rightarrow> nat \<Rightarrow> (nat, nat list) hmap \<times> slice \<Rightarrow> ((nat, nat list) hmap \<times> slice) pcomp" where
  "iref_target child width from' _ = (\<lambda>(m, c).
     bindc (tick (box_start child)) (\<lambda>_.
     bindc (propagate (slice_uint width c)) (\<lambda>(to', c1).
     ret (associate from' to' m, c1))))"

definition iref_child :: "nat \<Rightarrow> bmff_box \<Rightarrow> (nat, nat list) hmap \<Rightarrow> (nat, nat list) hmap pcomp" where
  "iref_child width child m =
     (if box_kind child \<noteq> ascii ''cdsc'' then ret m
      else
        bindc (subc (box_end child) (box_payload child)) (\<lambda>n.
        bindc (read (box_payload child) n) (\<lambda>b.
        bindc (propagate (slice_uint width (slice_new b (box_payload child)))) (\<lambda>(from', c1).
        bindc (propagate (slice_uint 2 c1)) (\<lambda>(count, c2).
        bindc (forc [0..<count] (iref_target child width from') (m, c2)) (\<lambda>(m', c3).
        if slice_remaining c3 \<noteq> [] then raise (malformed (box_start child) ''trailing cdsc fields'')
        else ret m'))))))"

definition bmff_iref :: "bmff_box \<Rightarrow> (nat, nat list) hmap \<Rightarrow> (nat, nat list) hmap pcomp" where
  "bmff_iref entry m =
     bindc (bounds (box_payload entry) 4 (box_end entry)) (\<lambda>_.
     bindc (read (box_payload entry) 4) (\<lambda>prefix.
     bindc (field_width prefix (unsupported (box_start entry) ''unsupported iref version'')) (\<lambda>width.
     bindc (addc (box_payload entry) 4) (\<lambda>first.
     bindc (boxes first (box_end entry)) (\<lambda>children.
     forc children (iref_child width) m)))))"

text \<open>
  The children of a \<open>meta\<close> box: items, their locations, the references between them and the
  one data box. \<open>visit\<close> is the recursive call on an embedded \<open>uuid\<close> box.
\<close>

record meta_state =
  meta_items :: "(nat, item) hmap"
  meta_locations :: "(nat, location) hmap"
  meta_associations :: "(nat, nat list) hmap"
  meta_idat :: "bmff_box option"

definition meta_child :: "(nat \<Rightarrow> nat \<Rightarrow> unit pcomp) \<Rightarrow> bmff_box \<Rightarrow> meta_state \<Rightarrow> meta_state pcomp" where
  "meta_child visit entry m =
     (if box_kind entry = ascii ''iinf'' then
        bindc (bmff_iinf entry (meta_items m)) (\<lambda>items. ret (m\<lparr>meta_items := items\<rparr>))
      else if box_kind entry = ascii ''iloc'' then
        bindc (bmff_iloc entry (meta_locations m)) (\<lambda>locations. ret (m\<lparr>meta_locations := locations\<rparr>))
      else if box_kind entry = ascii ''iref'' then
        bindc (bmff_iref entry (meta_associations m)) (\<lambda>as. ret (m\<lparr>meta_associations := as\<rparr>))
      else if box_kind entry = ascii ''idat'' then
        (if meta_idat m \<noteq> None then raise (malformed (box_start entry) ''duplicate BMFF idat'')
         else ret (m\<lparr>meta_idat := Some entry\<rparr>))
      else if box_kind entry = ascii ''uuid'' then
        bindc (visit (box_start entry) (box_end entry)) (\<lambda>_. ret m)
      else ret m)"

fun join_comma :: "string list \<Rightarrow> string" where
  "join_comma [] = []"
| "join_comma [x] = x"
| "join_comma (x # y # ys) = x @ '','' @ join_comma (y # ys)"

definition item_attributes :: "meta_state \<Rightarrow> nat \<Rightarrow> item \<Rightarrow> location \<Rightarrow> nat \<Rightarrow> (string \<times> string) list" where
  "item_attributes m id' item location ordinal = attrs [
     (''item_id'', dec id'), (''extent'', dec ordinal),
     (''construction_method'', dec (loc_method location)),
     (''cdsc_to_item_ids'', (case map_of (meta_associations m) id' of
        Some ids \<Rightarrow> join_comma (map dec ids) | None \<Rightarrow> [])),
     (''content_type'', text_of (from_utf8_lossy (content_type item))),
     (''content_encoding'', text_of (from_utf8_lossy (encoding item))),
     (''item_name_hex'', concat (map hex2 (item_name item)))]"

definition item_extent ::
  "bmff_box \<Rightarrow> meta_state \<Rightarrow> nat \<Rightarrow> item \<Rightarrow> location \<Rightarrow> nat \<Rightarrow> nat \<Rightarrow> string
    \<Rightarrow> nat \<times> nat \<times> nat \<Rightarrow> nat list \<times> byte list \<Rightarrow> (nat list \<times> byte list) pcomp" where
  "item_extent meta m id' item location origin most grp = (\<lambda>(ordinal, relative, len) (indices, xml).
     if len = 0 then raise (unsupported (box_start meta) ''zero-length XMP item extent is not supported'')
     else
       case Option.bind (checked_add origin (loc_base location)) (\<lambda>v. checked_add v relative) of
         None \<Rightarrow> raise (malformed (box_start meta) ''XMP item extent offset overflow'')
       | Some o' \<Rightarrow>
           bindc (bounds o' len most) (\<lambda>_.
           bindc (read o' len) (\<lambda>b.
           bindc (getc (\<lambda>s. length b > max_packet_bytes (limits s) - length xml)) (\<lambda>over.
           if over then raise (limited o' ''XMP item reconstruction limit exceeded'')
           else
             bindc (add_packet BmffMime b (the_range o' len) grp (item_attributes m id' item location ordinal)) (\<lambda>i.
             ret (indices @ [i], xml @ b))))))"

text \<open>The item's parse input: the extents concatenated, or their gzip content.\<close>

definition item_input :: "bmff_box \<Rightarrow> item \<Rightarrow> string \<Rightarrow> nat list \<times> byte list \<Rightarrow> unit pcomp" where
  "item_input meta item grp = (\<lambda>(indices, xml).
     if indices = [] then raise (malformed (box_start meta) ''XMP item has no extents'')
     else if encoding item = [] then add_input xml indices ExtentsConcatenated grp
     else if encoding item = ascii ''gzip'' then
       bindc (getc limits) (\<lambda>l.
       bindc (addc (max_packet_bytes l) 1) (\<lambda>most.
       bindc (getc (\<lambda>s. gzip_decode (env s) xml most)) (\<lambda>out.
       case out of
         None \<Rightarrow> raise (malformed (box_start meta) ''invalid gzip XMP item'')
       | Some b \<Rightarrow>
           if length b > max_packet_bytes l then raise (limited (box_start meta) ''decompressed XMP item limit exceeded'')
           else add_input b indices GzipDecompressed grp)))
     else raise (unsupported (box_start meta) ''unsupported XMP item content encoding; source extents retained''))"

definition meta_item :: "bmff_box \<Rightarrow> meta_state \<Rightarrow> nat \<times> item \<Rightarrow> unit \<Rightarrow> unit pcomp" where
  "meta_item meta m = (\<lambda>(id', item) _.
     if content_type item \<noteq> ascii ''application/rdf+xml'' then ret ()
     else
       let grp = ''bmff:meta:'' @ dec (box_start meta) @ '':item:'' @ dec id' in
       case map_of (meta_locations m) id' of
         None \<Rightarrow> record_issue (malformed (box_start meta) (''XMP item '' @ dec id' @ '' has no iloc''))
       | Some location \<Rightarrow>
           if protection item \<noteq> 0 \<or> loc_reference location \<noteq> 0 \<or> loc_method location > 1
           then record_issue (unsupported (box_start meta)
             (''XMP item '' @ dec id' @
              '' uses protection, external data reference, or unsupported construction method '' @
              dec (loc_method location)))
           else if loc_method location = 1 \<and> meta_idat m = None
           then record_issue (malformed (box_start meta) ''XMP item references missing idat'')
           else
             bindc (getc source_length) (\<lambda>total.
             let (origin, most) = (case meta_idat m of
                   Some idat \<Rightarrow> if loc_method location = 1 then (box_payload idat, box_end idat) else (0, total)
                 | None \<Rightarrow> (0, total)) in
             bindc (outcome
               (bindc (forc (zip [0..<length (loc_extents location)] (loc_extents location))
                         (item_extent meta m id' item location origin most grp) ([], []))
                 (item_input meta item grp))) (\<lambda>r.
             case r of Inl error \<Rightarrow> record_issue error | Inr _ \<Rightarrow> ret ())))"

definition bmff_meta :: "(nat \<Rightarrow> nat \<Rightarrow> unit pcomp) \<Rightarrow> bmff_box \<Rightarrow> nat \<Rightarrow> unit pcomp" where
  "bmff_meta visit meta depth =
     bindc (getc limits) (\<lambda>l.
     if depth > max_depth l then raise (limited (box_start meta) ''BMFF nesting limit exceeded'')
     else
       bindc (bounds (box_payload meta) 4 (box_end meta)) (\<lambda>_.
       bindc (read (box_payload meta) 4) (\<lambda>version.
       if version \<noteq> [0, 0, 0, 0]
       then raise (unsupported (box_payload meta) ''unsupported BMFF meta version/flags'')
       else
         bindc (addc (box_payload meta) 4) (\<lambda>first.
         bindc (boxes first (box_end meta)) (\<lambda>found.
         bindc (forc found (meta_child visit)
                  \<lparr>meta_items = [], meta_locations = [], meta_associations = [], meta_idat = None\<rparr>) (\<lambda>m.
         forc (sort_key fst (meta_items m)) (meta_item meta m) ()))))))"

definition nested_kinds :: "byte list list" where
  "nested_kinds = map ascii [''moov'', ''trak'', ''mdia'', ''minf'', ''stbl'', ''udta'']"

primrec bmff :: "nat \<Rightarrow> nat \<Rightarrow> nat \<Rightarrow> nat \<Rightarrow> unit pcomp" where
  "bmff 0 start end' depth = fail OutOfFuel"
| "bmff (Suc fuel) start end' depth =
     bindc (getc limits) (\<lambda>l.
     if depth > max_depth l then raise (limited start ''BMFF nesting limit exceeded'')
     else
       bindc (boxes start end') (\<lambda>found.
       forc found (\<lambda>entry _.
         if box_kind entry = ascii ''uuid'' then
           bindc (bounds (box_payload entry) 16 (box_end entry)) (\<lambda>_.
           bindc (read (box_payload entry) 16) (\<lambda>uuid.
           if uuid = XMP_UUID then
             bindc (addc (box_payload entry) 16) (\<lambda>o'.
             bindc (subc (box_end entry) (box_payload entry)) (\<lambda>whole.
             bindc (subc whole 16) (\<lambda>len.
             simple BmffUuid o' len (''bmff:uuid:'' @ dec (box_start entry)))))
           else ret ()))
         else if box_kind entry = ascii ''meta'' then
           bindc (outcome (bmff_meta (\<lambda>s e. bmff fuel s e (depth + 2)) entry (depth + 1))) (\<lambda>r.
           case r of Inl error \<Rightarrow> record_issue error | Inr _ \<Rightarrow> ret ())
         else if box_kind entry \<in> set nested_kinds then bmff fuel (box_payload entry) (box_end entry) (depth + 1)
         else ret ()) ()))"

section \<open>Dispatch\<close>

definition raf :: "unit pcomp" where
  "raf =
     bindc (getc source_length) (\<lambda>total.
     bindc (read 0 108) (\<lambda>header.
     bindc (be32_at header 84 88) (\<lambda>o'.
     bindc (be32_at header 88 92) (\<lambda>len.
     bindc (bounds o' len total) (\<lambda>_.
     bindc (if len \<noteq> 0 then bindc (addc o' len) (\<lambda>end'. jpeg o' end') else ret ()) (\<lambda>_.
     record_issue (unsupported 0
       ''RAF embedded JPEG inspected; proprietary RAF metadata is not a documented XMP carrier'')))))))"

definition supported_brand :: "byte list \<Rightarrow> bool" where
  "supported_brand b \<longleftrightarrow> b = ascii ''avif'' \<or> b = ascii ''avis'' \<or> b = ascii ''crx ''"

definition photo_bmff :: "unit pcomp" where
  "photo_bmff =
     bindc (getc source_length) (\<lambda>total.
     bindc (box_at 0 total) (\<lambda>ftyp.
     bindc (subc (box_end ftyp) (box_payload ftyp)) (\<lambda>n.
     bindc (read (box_payload ftyp) n) (\<lambda>brands.
     if length brands < 8 \<or> (length brands - 8) mod 4 \<noteq> 0
     then raise (malformed (box_start ftyp) ''invalid BMFF file type box'')
     else
       bindc (window brands 0 4) (\<lambda>major.
       bindc (window brands 8 (length brands)) (\<lambda>compatible.
       bindc (if list_ex supported_brand (major # chunks_exact 4 compatible) then ret ()
              else record_issue (unsupported 0 ''BMFF brands outside AVIF/CR3; only declared XMP carriers inspected'')) (\<lambda>_.
       bindc (getc limits) (\<lambda>l.
       bmff (max_depth l + 2) 0 total 0))))))))"

definition PNG_SIGNATURE :: "byte list" where
  "PNG_SIGNATURE = [0x89, 0x50, 0x4E, 0x47, 0x0D, 0x0A, 0x1A, 0x0A]"

definition photo :: "unit pcomp" where
  "photo =
     bindc (getc source_length) (\<lambda>total.
     bindc (read 0 (min total 16)) (\<lambda>header.
     if starts_with [0xFF, 0xD8] header then jpeg 0 total
     else if starts_with PNG_SIGNATURE header then png
     else if starts_with (ascii ''RIFF'') header \<and> get_range header 8 12 = Some (ascii ''WEBP'') then webp
     else if starts_with (ascii ''8BPS'') header then psd
     else if starts_with (ascii ''II'') header \<or> starts_with (ascii ''MM'') header then tiff_parse 0 total
     else if starts_with (ascii ''FUJIFILMCCD-RAW '') header then raf
     else if get_range header 4 8 = Some (ascii ''ftyp'') then photo_bmff
     else if starts_with (ascii ''BM'') header
     then raise (unsupported 0 ''BMP has no supported standardized embedded XMP carrier; inspect an explicitly selected sidecar separately'')
     else raise (unsupported 0 ''unrecognized metadata container'')))"

end
