(* ===== verification/XMP_Contract.thy ===== *)
theory XMP_Contract
  imports XMP_Containers
begin

text \<open>
  The contract between the parser core and the container formats. A predicate \<open>I\<close> on
  parser states that the core operations keep is kept by every container parser, on every
  path, errors included; and under the bounds the core establishes, no container parser
  panics or runs out of fuel. The proofs are done once here, for any \<open>I\<close>.
\<close>

named_theorems safe_intros \<open>verification conditions of parser computations\<close>

section \<open>Safe computations\<close>

definition safe :: "(parser \<Rightarrow> bool) \<Rightarrow> 'a pcomp \<Rightarrow> ('a \<Rightarrow> bool) \<Rightarrow> bool" where
  "safe I m Q \<longleftrightarrow>
     (\<forall>s. I s \<longrightarrow> (case m s of
        (Inr x, t) \<Rightarrow> I t \<and> Q x
      | (Inl (Failed f), t) \<Rightarrow> I t
      | (Inl Panicked, t) \<Rightarrow> False
      | (Inl OutOfFuel, t) \<Rightarrow> False))"

lemma safeI:
  assumes "\<And>s x t. I s \<Longrightarrow> m s = (Inr x, t) \<Longrightarrow> I t \<and> Q x"
    and "\<And>s e t. I s \<Longrightarrow> m s = (Inl e, t) \<Longrightarrow> I t \<and> (\<exists>f. e = Failed f)"
  shows "safe I m Q"
  unfolding safe_def
proof (intro allI impI)
  fix s assume s: "I s"
  obtain r t where m: "m s = (r, t)" by (cases "m s")
  show "case m s of (Inr x, t) \<Rightarrow> I t \<and> Q x | (Inl (Failed f), t) \<Rightarrow> I t
      | (Inl Panicked, t) \<Rightarrow> False | (Inl OutOfFuel, t) \<Rightarrow> False"
    using assms(1) [OF s, of _ t] assms(2) [OF s, of _ t] m by (cases r) auto
qed

lemma safe_Inr: "safe I m Q \<Longrightarrow> I s \<Longrightarrow> m s = (Inr x, t) \<Longrightarrow> I t \<and> Q x"
  unfolding safe_def by (drule spec [of _ s]) simp

lemma safe_Inl: "safe I m Q \<Longrightarrow> I s \<Longrightarrow> m s = (Inl e, t) \<Longrightarrow> I t \<and> (\<exists>f. e = Failed f)"
  unfolding safe_def by (drule spec [of _ s]) (cases e; simp)

lemma safe_bind [safe_intros]:
  assumes "safe I m (\<lambda>x. safe I (f x) Q)"
  shows "safe I (bindc m f) Q"
proof (rule safeI)
  fix s y t assume s: "I s" and "bindc m f s = (Inr y, t)"
  then obtain x u where "m s = (Inr x, u)" "f x u = (Inr y, t)" by (auto simp: bindc_Inr_iff)
  with safe_Inr [OF assms s] show "I t \<and> Q y" by (blast dest: safe_Inr)
next
  fix s e t assume s: "I s" and e: "bindc m f s = (Inl e, t)"
  obtain r u where m: "m s = (r, u)" by (cases "m s")
  show "I t \<and> (\<exists>f. e = Failed f)"
  proof (cases r)
    case (Inl e')
    with m e safe_Inl [OF assms s] show ?thesis by (simp add: bindc_def)
  next
    case (Inr x)
    with m e safe_Inr [OF assms s, of x u] show ?thesis
      by (auto simp: bindc_def dest: safe_Inl)
  qed
qed

lemma safe_weaken: "safe I m Q \<Longrightarrow> (\<And>x. Q x \<Longrightarrow> Q' x) \<Longrightarrow> safe I m Q'"
  by (rule safeI) (blast dest: safe_Inr safe_Inl)+

lemma safe_ret [safe_intros]: "Q x \<Longrightarrow> safe I (ret x) Q"
  by (rule safeI) auto

lemma safe_raise [safe_intros]: "safe I (raise f) Q"
  by (rule safeI) (auto simp: raise_def)

lemma safe_if [safe_intros]:
  "(b \<Longrightarrow> safe I m Q) \<Longrightarrow> (\<not> b \<Longrightarrow> safe I n Q) \<Longrightarrow> safe I (if b then m else n) Q"
  by simp

lemma safe_let [safe_intros]: "(\<And>x. x = a \<Longrightarrow> safe I (f x) Q) \<Longrightarrow> safe I (Let a f) Q"
  by simp

lemma safe_option [safe_intros]:
  "(v = None \<Longrightarrow> safe I m Q) \<Longrightarrow> (\<And>x. v = Some x \<Longrightarrow> safe I (f x) Q) \<Longrightarrow>
     safe I (case v of None \<Rightarrow> m | Some x \<Rightarrow> f x) Q"
  by (cases v) auto

lemma safe_sum [safe_intros]:
  "(\<And>e. v = Inl e \<Longrightarrow> safe I (g e) Q) \<Longrightarrow> (\<And>x. v = Inr x \<Longrightarrow> safe I (f x) Q) \<Longrightarrow>
     safe I (case v of Inl e \<Rightarrow> g e | Inr x \<Rightarrow> f x) Q"
  by (cases v) auto

lemma safe_prod [safe_intros]:
  "(\<And>a b. p = (a, b) \<Longrightarrow> safe I (f a b) Q) \<Longrightarrow> safe I (case p of (a, b) \<Rightarrow> f a b) Q"
  by (cases p) auto

lemma safe_outcome [safe_intros]:
  assumes "safe I m (\<lambda>x. Q (Inr x))" "\<And>f. Q (Inl f)"
  shows "safe I (outcome m) Q"
proof (rule safeI)
  fix s x t assume s: "I s" and "outcome m s = (Inr x, t)"
  then show "I t \<and> Q x"
    using safe_Inr [OF assms(1) s] safe_Inl [OF assms(1) s] assms(2)
    by (cases "m s") (auto simp: outcome_def catchc_def split: sum.splits perror.splits)
next
  fix s e t assume s: "I s" and "outcome m s = (Inl e, t)"
  then show "I t \<and> (\<exists>f. e = Failed f)"
    using safe_Inl [OF assms(1) s]
    by (cases "m s") (auto simp: outcome_def catchc_def split: sum.splits perror.splits)
qed

lemma safe_propagate [safe_intros]: "(\<And>x. r = Inr x \<Longrightarrow> Q x) \<Longrightarrow> safe I (propagate r) Q"
  by (cases r) (auto simp: propagate_def intro!: safe_intros)

lemma safe_addc [safe_intros]: "a + b < u64_limit \<Longrightarrow> Q (a + b) \<Longrightarrow> safe I (addc a b) Q"
  by (rule safeI) (auto simp: addc_def checked_add_def)

lemma safe_mulc [safe_intros]: "a * b < u64_limit \<Longrightarrow> Q (a * b) \<Longrightarrow> safe I (mulc a b) Q"
  by (rule safeI) (auto simp: mulc_def checked_mul_def)

lemma safe_subc [safe_intros]: "b \<le> a \<Longrightarrow> Q (a - b) \<Longrightarrow> safe I (subc a b) Q"
  by (rule safeI) (auto simp: subc_def)

lemma safe_index [safe_intros]: "i < length b \<Longrightarrow> Q (b ! i) \<Longrightarrow> safe I (index b i) Q"
  by (rule safeI) (auto simp: index_def)

lemma safe_window [safe_intros]:
  "i \<le> j \<Longrightarrow> j \<le> length b \<Longrightarrow> (\<And>v. length v = j - i \<Longrightarrow> v = take (j - i) (drop i b) \<Longrightarrow> Q v) \<Longrightarrow> safe I (window b i j) Q"
  by (rule safeI) (auto simp: window_def)

lemma be_uint_bound: "length v = n \<Longrightarrow> n \<le> 8 \<Longrightarrow> be_uint v < 256 ^ n"
  using be_uint_less [of v] by simp

lemma le_uint_bound: "length v = n \<Longrightarrow> n \<le> 8 \<Longrightarrow> le_uint v < 256 ^ n"
  using le_uint_less [of v] by simp

lemma safe_be16 [safe_intros]: "2 \<le> length b \<Longrightarrow> (\<And>n. n < 65536 \<Longrightarrow> Q n) \<Longrightarrow> safe I (be16 b) Q"
  unfolding be16_def using be_uint_bound [where n = 2] by (intro safe_intros) auto

lemma safe_be32 [safe_intros]: "4 \<le> length b \<Longrightarrow> (\<And>n. n < 4294967296 \<Longrightarrow> Q n) \<Longrightarrow> safe I (be32 b) Q"
  unfolding be32_def using be_uint_bound [where n = 4] by (intro safe_intros) auto

lemma safe_le32 [safe_intros]: "4 \<le> length b \<Longrightarrow> (\<And>n. n < 4294967296 \<Longrightarrow> Q n) \<Longrightarrow> safe I (le32 b) Q"
  unfolding le32_def using le_uint_bound [where n = 4] by (intro safe_intros) auto

lemma safe_be16_at [safe_intros]:
  "i + 2 = j \<Longrightarrow> j \<le> length b \<Longrightarrow> (\<And>n. n < 65536 \<Longrightarrow> Q n) \<Longrightarrow> safe I (be16_at b i j) Q"
  unfolding be16_at_def by (intro safe_intros) auto

lemma safe_be32_at [safe_intros]:
  "i + 4 = j \<Longrightarrow> j \<le> length b \<Longrightarrow> (\<And>n. n < 4294967296 \<Longrightarrow> Q n) \<Longrightarrow> safe I (be32_at b i j) Q"
  unfolding be32_at_def by (intro safe_intros) auto

lemma safe_le32_at [safe_intros]:
  "i + 4 = j \<Longrightarrow> j \<le> length b \<Longrightarrow> (\<And>n. n < 4294967296 \<Longrightarrow> Q n) \<Longrightarrow> safe I (le32_at b i j) Q"
  unfolding le32_at_def by (intro safe_intros) auto

text \<open>Loops: an invariant of the loop variables and a measure below the fuel.\<close>

lemma safe_loop:
  assumes body: "\<And>i. V i \<Longrightarrow> safe I (body i) (\<lambda>r. case r of Inl j \<Rightarrow> V j \<and> m j < m i | Inr x \<Rightarrow> Q x)"
    and "V i" "m i < fuel"
  shows "safe I (loopc fuel e body i) Q"
  using assms(2,3)
proof (induction fuel arbitrary: i)
  case (Suc fuel)
  have "safe I (body i) (\<lambda>r. safe I (case r of Inl j \<Rightarrow> loopc fuel e body j | Inr x \<Rightarrow> ret x) Q)"
    using body [OF Suc.prems(1)]
  proof (rule safe_weaken)
    fix r assume "case r of Inl j \<Rightarrow> V j \<and> m j < m i | Inr x \<Rightarrow> Q x"
    with Suc.IH Suc.prems show "safe I (case r of Inl j \<Rightarrow> loopc fuel e body j | Inr x \<Rightarrow> ret x) Q"
      by (cases r) (auto intro: safe_ret)
  qed
  then show ?case by (auto intro: safe_bind)
qed simp

lemma safe_for:
  assumes "\<And>x a. x \<in> set xs \<Longrightarrow> V a \<Longrightarrow> safe I (body x a) V" "V a" "\<And>b. V b \<Longrightarrow> Q b"
  shows "safe I (forc xs body a) Q"
  using assms(1,2)
proof (induction xs arbitrary: a)
  case Nil
  then show ?case unfolding forc.simps by (intro safe_ret assms(3))
next
  case (Cons x xs)
  have "safe I (body x a) V" using Cons.prems by simp
  then have "safe I (body x a) (\<lambda>b. safe I (forc xs body b) Q)"
    by (rule safe_weaken) (use Cons in simp)
  then show ?case by (auto intro: safe_bind)
qed

lemmas safe_for_all = safe_for [where V = "\<lambda>_. True", OF _ TrueI]

text \<open>A computation started in a state of which more is known than \<open>I\<close>.\<close>

definition safe_from :: "(parser \<Rightarrow> bool) \<Rightarrow> (parser \<Rightarrow> bool) \<Rightarrow> 'a pcomp \<Rightarrow> ('a \<Rightarrow> bool) \<Rightarrow> bool" where
  "safe_from J I m Q \<longleftrightarrow> (\<forall>s. J s \<longrightarrow>
     (\<forall>x t. m s = (Inr x, t) \<longrightarrow> I t \<and> Q x) \<and> (\<forall>e t. m s = (Inl e, t) \<longrightarrow> I t \<and> (\<exists>f. e = Failed f)))"

lemma safe_from_safe: "safe I m Q \<Longrightarrow> (\<And>s. J s \<Longrightarrow> I s) \<Longrightarrow> safe_from J I m Q"
  unfolding safe_from_def by (blast dest: safe_Inr safe_Inl)

lemma safe_from_bind:
  assumes "safe J m (\<lambda>x. safe_from J I (f x) Q)" "\<And>s. J s \<Longrightarrow> I s"
  shows "safe_from J I (bindc m f) Q"
  unfolding safe_from_def
proof (intro allI impI conjI)
  fix s assume s: "J s"
  obtain r u where m: "m s = (r, u)" by (cases "m s")
  { fix y t assume "bindc m f s = (Inr y, t)"
    then obtain x where "m s = (Inr x, u)" "f x u = (Inr y, t)" using m by (auto simp: bindc_Inr_iff)
    with safe_Inr [OF assms(1) s] show "I t" "Q y" unfolding safe_from_def by blast+ }
  { fix e t assume e: "bindc m f s = (Inl e, t)"
    show "I t" "\<exists>f. e = Failed f"
      using safe_Inl [OF assms(1) s, of e t] safe_Inr [OF assms(1) s, of _ u] m e assms(2)
      by (cases r; force simp: bindc_def safe_from_def)+ }
qed

lemma safe_from_if:
  "(b \<Longrightarrow> safe_from J I m Q) \<Longrightarrow> (\<not> b \<Longrightarrow> safe_from J I n Q) \<Longrightarrow> safe_from J I (if b then m else n) Q"
  by simp

section \<open>The contract\<close>

text \<open>
  What the container parsers rely on. \<open>L\<close> and \<open>lim\<close> are the source length and the limits,
  which no operation changes; \<open>carried b o n\<close> is what is known of \<open>n\<close> bytes \<open>b\<close> that a read
  at \<open>o\<close> delivered, and the core accepts a packet only for such bytes.
\<close>

definition pushed_packet ::
  "container \<Rightarrow> byte list \<Rightarrow> byte_range list \<Rightarrow> string \<Rightarrow> (string \<times> string) list \<Rightarrow> parser \<Rightarrow> parser" where
  "pushed_packet c b ranges grp a s = s\<lparr>retained := retained s + length b,
     packets := packets s @ [\<lparr>packet_container = c, packet_bytes = b, packet_blake3 = blake3 (env s) b,
       packet_ranges = ranges, packet_group = grp, packet_attributes = a\<rparr>]\<rparr>"

definition pushed_input :: "byte list \<Rightarrow> nat list \<Rightarrow> transformation \<Rightarrow> string \<Rightarrow> parser \<Rightarrow> parser" where
  "pushed_input b indices t grp s = s\<lparr>parsed := parsed s + length b,
     inputs := inputs s @ [\<lparr>input_bytes = b, input_blake3 = blake3 (env s) b, packet_indices = indices,
       input_transformation = t, input_group = grp\<rparr>]\<rparr>"

definition groups_ok :: "(string, extended list) hmap \<Rightarrow> bool" where
  "groups_ok gs \<longleftrightarrow> (\<forall>(k, fs) \<in> set gs. fs \<noteq> [])"

locale parser_contract =
  fixes I :: "parser \<Rightarrow> bool" and L :: nat and lim :: limits
    and carried :: "byte list \<Rightarrow> nat \<Rightarrow> nat \<Rightarrow> bool"
  assumes length_fixed: "I s \<Longrightarrow> source_length s = L"
    and limits_fixed: "I s \<Longrightarrow> limits s = lim"
    and length_u64: "I s \<Longrightarrow> L < u64_limit"
    and packet_u64: "I s \<Longrightarrow> max_packet_bytes lim + 1 < u64_limit"
    and reader: "I s \<Longrightarrow> read_at (env s) i o' n = Inr b \<Longrightarrow> o' + n \<le> L \<Longrightarrow> length b = n \<and> carried b o' n"
    and keeps_issues: "I s \<Longrightarrow> I (issues_update f s)"
    and keeps_entries: "I s \<Longrightarrow> I (entries_update g s)"
    and keeps_read_bytes: "I s \<Longrightarrow> I (read_bytes_update g s)"
    and keeps_io_calls: "I s \<Longrightarrow> I (io_calls_update g s)"
    and keeps_active: "I s \<Longrightarrow> I (active_update h s)"
    and keeps_visited: "I s \<Longrightarrow> I (visited_update h s)"
    and keeps_groups: "I s \<Longrightarrow> groups_ok gs \<Longrightarrow> I (groups_update (\<lambda>_. gs) s)"
    and groups_fixed: "I s \<Longrightarrow> groups_ok (groups s)"
    and keeps_packet: "I s \<Longrightarrow> carried b o' n \<Longrightarrow> o' + n \<le> L \<Longrightarrow> length b = n \<Longrightarrow>
       length (packets s) < max_packets lim \<Longrightarrow> n \<le> max_packet_bytes lim \<Longrightarrow>
       n \<le> max_retained_bytes lim - retained s \<Longrightarrow>
       I (pushed_packet c b (the_range o' n) grp a s)"
    and keeps_input: "I s \<Longrightarrow> length b \<le> max_packet_bytes lim \<Longrightarrow> length b \<le> max_parse_bytes lim - parsed s \<Longrightarrow>
       I (pushed_input b indices t grp s)"
    and keeps_attributes: "I s \<Longrightarrow> i < length (packets s) \<Longrightarrow>
       I (s\<lparr>packets := (packets s)[i := (packets s ! i)\<lparr>packet_attributes := a\<rparr>]\<rparr>)"
begin

lemma ok_modc: "(\<And>s. I s \<Longrightarrow> I (f s)) \<Longrightarrow> Q () \<Longrightarrow> safe I (modc f) Q"
  by (rule safeI) auto

lemma ok_getc_any: "(\<And>x. Q x) \<Longrightarrow> safe I (getc f) Q"
  by (rule safeI) auto

lemma ok_length: "(L < u64_limit \<Longrightarrow> Q L) \<Longrightarrow> safe I (getc source_length) Q"
  by (rule safeI) (auto simp: length_fixed length_u64)

lemma ok_limits: "(max_packet_bytes lim + 1 < u64_limit \<Longrightarrow> Q lim) \<Longrightarrow> safe I (getc limits) Q"
  by (rule safeI) (use packet_u64 in \<open>auto simp: limits_fixed\<close>)

lemma ok_groups: "(\<And>gs. groups_ok gs \<Longrightarrow> Q gs) \<Longrightarrow> safe I (getc groups) Q"
  by (rule safeI) (auto simp: groups_fixed)

lemma ok_record: "Q () \<Longrightarrow> safe I (record_issue f) Q"
  unfolding record_issue_def by (rule ok_modc) (auto dest: keeps_issues [where f = "\<lambda>_. _"])

lemma ok_tick: "Q () \<Longrightarrow> safe I (tick o') Q"
  unfolding tick_def by (intro safe_intros ok_modc ok_getc_any keeps_entries)

lemma ok_bounds:
  assumes "\<And>v. v = o' + len \<Longrightarrow> v \<le> end' \<Longrightarrow> v \<le> L \<Longrightarrow> L < u64_limit \<Longrightarrow> Q v"
  shows "safe I (bounds o' len end') Q"
  unfolding bounds_def using assms by (intro safe_intros ok_length) (auto dest!: checked_add_SomeD)

lemma ok_read_source:
  assumes "o' + n \<le> L" "\<And>b. length b = n \<Longrightarrow> carried b o' n \<Longrightarrow> L < u64_limit \<Longrightarrow> Q b"
  shows "safe I (read_source o' n what) Q"
  by (rule safeI)
     (auto simp: read_source_def dest: reader [OF _ _ assms(1)] intro: assms(2) length_u64 keeps_io_calls [where g = "\<lambda>_. _"]
        split: sum.splits)

lemma ok_read:
  assumes "\<And>b. length b = n \<Longrightarrow> carried b o' n \<Longrightarrow> o' + n \<le> L \<Longrightarrow> n \<le> max_packet_bytes lim \<Longrightarrow> L < u64_limit \<Longrightarrow> Q b"
  shows "safe I (read o' n) Q"
  unfolding read_def
  by (intro safe_intros ok_length ok_limits ok_bounds ok_getc_any ok_modc keeps_read_bytes ok_read_source)
     (use assms in auto)

lemma ok_packet:
  assumes "carried b o' n" "o' + n \<le> L" "length b = n" "\<And>i. Q i"
  shows "safe I (add_packet c b (the_range o' n) grp a) Q"
proof (rule safeI)
  fix s x t assume s: "I s" and "add_packet c b (the_range o' n) grp a s = (Inr x, t)"
  then show "I t \<and> Q x"
    using assms keeps_packet [OF s assms(1-3), of c grp a] limits_fixed [OF s]
    by (auto simp: add_packet_def raise_def pushed_packet_def split: if_splits)
next
  fix s e t assume "I s" "add_packet c b (the_range o' n) grp a s = (Inl e, t)"
  then show "I t \<and> (\<exists>f. e = Failed f)" by (auto simp: add_packet_def raise_def split: if_splits)
qed

lemma ok_input:
  assumes "Q ()"
  shows "safe I (add_input b indices t grp) Q"
proof (rule safeI)
  fix s x u assume s: "I s" and "add_input b indices t grp s = (Inr x, u)"
  then show "I u \<and> Q x"
    using assms keeps_input [OF s, of b indices t grp] limits_fixed [OF s]
    by (auto simp: add_input_def raise_def pushed_input_def split: if_splits)
next
  fix s e u assume "I s" "add_input b indices t grp s = (Inl e, u)"
  then show "I u \<and> (\<exists>f. e = Failed f)" by (auto simp: add_input_def raise_def split: if_splits)
qed

lemmas ok_core = safe_intros ok_length ok_limits ok_groups ok_record ok_tick ok_bounds ok_read ok_packet ok_input

lemma ok_simple_within:
  assumes "Q ()"
  shows "safe I (simple_within c o' len grp end') Q"
  unfolding simple_within_def
  by (intro ok_core) (use assms in \<open>auto simp: min_def\<close>)

text \<open>The index of a packet just added, and the last packet after a carrier was retained, exist.\<close>

lemma ok_packet_then:
  assumes "carried b o' n" "o' + n \<le> L" "length b = n"
    and "\<And>i. safe_from (\<lambda>s. I s \<and> i < length (packets s)) I (f i) Q"
  shows "safe I (bindc (add_packet c b (the_range o' n) grp a) f) Q"
proof (rule safeI)
  fix s y t assume s: "I s" and "bindc (add_packet c b (the_range o' n) grp a) f s = (Inr y, t)"
  then obtain i u where p: "add_packet c b (the_range o' n) grp a s = (Inr i, u)" "f i u = (Inr y, t)"
    by (auto simp: bindc_Inr_iff)
  have "I u \<and> True" using safe_Inr [OF ok_packet [OF assms(1-3), where Q = "\<lambda>_. True"] s p(1)] by simp
  moreover have "i < length (packets u)" using p(1) by (auto simp: add_packet_def raise_def split: if_splits)
  ultimately show "I t \<and> Q y" using assms(4) [of i] p(2) unfolding safe_from_def by blast
next
  fix s e t assume s: "I s" and e: "bindc (add_packet c b (the_range o' n) grp a) f s = (Inl e, t)"
  obtain r u where m: "add_packet c b (the_range o' n) grp a s = (r, u)"
    by (cases "add_packet c b (the_range o' n) grp a s")
  have ok: "safe I (add_packet c b (the_range o' n) grp a) (\<lambda>_. True)" by (rule ok_packet [OF assms(1-3)]) simp
  show "I t \<and> (\<exists>f. e = Failed f)"
  proof (cases r)
    case (Inl e')
    with m e safe_Inl [OF ok s] show ?thesis by (simp add: bindc_def)
  next
    case (Inr i)
    then have "i < length (packets u)" using m by (auto simp: add_packet_def raise_def split: if_splits)
    moreover have "f i u = (Inl e, t)" using e m Inr by (simp add: bindc_def)
    moreover have "I u" using safe_Inr [OF ok s] m Inr by blast
    ultimately show ?thesis using assms(4) [of i] unfolding safe_from_def by blast
  qed
qed

lemma ok_set_attributes:
  assumes "safe I (f ()) Q"
  shows "safe_from (\<lambda>s. I s \<and> i < length (packets s)) I (bindc (set_attributes i a) f) Q"
proof -
  have "bindc (set_attributes i a) f s = f () (s\<lparr>packets := (packets s)[i := (packets s ! i)\<lparr>packet_attributes := a\<rparr>]\<rparr>)"
    if "i < length (packets s)" for s
    using that by (simp add: set_attributes_def bindc_assoc)
  then show ?thesis
    using keeps_attributes [of _ i a] assms unfolding safe_from_def by (auto dest: safe_Inr safe_Inl)
qed

lemma simple_within_packets: "simple_within c o' len grp end' s = (Inr x, t) \<Longrightarrow> packets t \<noteq> []"
  by (auto simp: simple_within_def bindc_Inr_iff Let_def add_packet_def add_input_def raise_def split: if_splits)

lemma ok_simple_last:
  assumes "safe I (k ()) Q"
  shows "safe I (bindc (simple c o' len grp) (\<lambda>_. bindc (set_last_attributes a) k)) Q"
proof -
  have *: "safe I (simple c o' len grp) (\<lambda>_. True)"
    unfolding simple_def by (intro ok_core ok_simple_within) simp
  have last: "bindc (set_last_attributes a) k s = k () (s\<lparr>packets := (packets s)[length (packets s) - 1 :=
      (packets s ! (length (packets s) - 1))\<lparr>packet_attributes := a\<rparr>]\<rparr>)" if "packets s \<noteq> []" for s
    using that by (simp add: set_last_attributes_def set_attributes_def bindc_assoc)
  have nonempty: "packets t \<noteq> []" if "simple c o' len grp s = (Inr x, t)" for s x t
    using that by (auto simp: simple_def bindc_Inr_iff dest: simple_within_packets)
  show ?thesis
  proof (rule safeI)
    fix s y t assume s: "I s" and run: "bindc (simple c o' len grp) (\<lambda>_. bindc (set_last_attributes a) k) s = (Inr y, t)"
    then obtain x u where u: "simple c o' len grp s = (Inr x, u)" "bindc (set_last_attributes a) k u = (Inr y, t)"
      by (auto simp: bindc_Inr_iff [where m = "simple c o' len grp"])
    then have "packets u \<noteq> []" "I u" using nonempty safe_Inr [OF * s] by blast+
    then show "I t \<and> Q y"
      using u(2) last keeps_attributes [of u "length (packets u) - 1" a] safe_Inr [OF assms] by auto
  next
    fix s e t assume s: "I s" and run: "bindc (simple c o' len grp) (\<lambda>_. bindc (set_last_attributes a) k) s = (Inl e, t)"
    obtain r u where m: "simple c o' len grp s = (r, u)" by (cases "simple c o' len grp s")
    show "I t \<and> (\<exists>f. e = Failed f)"
    proof (cases r)
      case (Inl e')
      with m run safe_Inl [OF * s] show ?thesis by (simp add: bindc_def [of "simple c o' len grp"])
    next
      case (Inr x)
      with m have "packets u \<noteq> []" "I u" using nonempty safe_Inr [OF * s] by blast+
      moreover have "bindc (set_last_attributes a) k u = (Inl e, t)"
        using run m Inr by (simp add: bindc_def [of "simple c o' len grp"])
      ultimately show ?thesis
        using last keeps_attributes [of u "length (packets u) - 1" a] safe_Inl [OF assms] by auto
    qed
  qed
qed

end

end
