(* ===== verification/XMP_Safety.thy ===== *)
theory XMP_Safety
  imports XMP_Contract
begin

text \<open>
  Every container parser keeps the contract's predicate and neither panics nor runs out of
  fuel, for any state predicate that satisfies the contract.
\<close>

section \<open>JPEG\<close>

lemma entropy_scan_ge:
  assumes "lo \<le> pos" "\<And>f. ff = Some f \<Longrightarrow> lo \<le> f"
  shows "case entropy_scan ff pos b of Inl m \<Rightarrow> lo \<le> m | Inr g \<Rightarrow> (\<forall>f. g = Some f \<longrightarrow> lo \<le> f)"
  using assms by (induction ff pos b rule: entropy_scan.induct) (auto split: option.splits if_splits)

text \<open>A box inside its parent.\<close>

definition box_ok :: "nat \<Rightarrow> bmff_box \<Rightarrow> bool" where
  "box_ok end' b \<longleftrightarrow> box_start b \<le> box_payload b \<and> box_payload b \<le> box_end b \<and> box_end b \<le> end' \<and> box_start b < box_end b"

context parser_contract
begin

lemma ok_entropy_end:
  assumes "end' \<le> L" "\<And>m. o' \<le> m \<Longrightarrow> Q m"
  shows "safe I (entropy_end o' end') Q"
  unfolding entropy_end_def
proof (rule safe_loop [where V = "\<lambda>(ff, p). o' \<le> p \<and> (\<forall>f. ff = Some f \<longrightarrow> o' \<le> f)" and m = "\<lambda>(ff, p). end' - p"])
  fix i :: "nat option \<times> nat"
  assume V: "case i of (ff, p) \<Rightarrow> o' \<le> p \<and> (\<forall>f. ff = Some f \<longrightarrow> o' \<le> f)"
  obtain ff p where i: "i = (ff, p)" by (cases i)
  have scan: "entropy_scan ff p b = Inl m \<Longrightarrow> o' \<le> m" "entropy_scan ff p b = Inr (Some g) \<Longrightarrow> o' \<le> g" for b m g
    using entropy_scan_ge [of o' p ff b] V i by (auto split: sum.splits)
  show "safe I (entropy_block end' i) (\<lambda>r. case r of
      Inl j \<Rightarrow> (case j of (ff, p) \<Rightarrow> o' \<le> p \<and> (\<forall>f. ff = Some f \<longrightarrow> o' \<le> f))
         \<and> (case j of (ff, p) \<Rightarrow> end' - p) < (case i of (ff, p) \<Rightarrow> end' - p)
    | Inr x \<Rightarrow> Q x)"
    unfolding entropy_block_def i prod.case
    by (intro ok_core ok_read_source) (use assms V i scan in \<open>auto simp: min_def\<close>)
qed auto

lemma ok_marker:
  assumes "\<And>v n. o' < n \<Longrightarrow> n \<le> end' \<Longrightarrow> n \<le> L \<Longrightarrow> Q (v, n)"
  shows "safe I (loopc (Suc (Suc (end' - o'))) OutOfFuel (marker_step end') o') Q"
proof (rule safe_loop [where V = "\<lambda>p. o' \<le> p" and m = "\<lambda>p. Suc end' - p"])
  fix p assume "o' \<le> p"
  then show "safe I (marker_step end' p) (\<lambda>r. case r of Inl j \<Rightarrow> o' \<le> j \<and> Suc end' - j < Suc end' - p | Inr x \<Rightarrow> Q x)"
    unfolding marker_step_def by (intro ok_core) (use assms in auto)
qed auto

lemma ok_jpeg_truncated: "safe I (jpeg_truncated base end' marker payload len error) Q"
  if "2 \<le> len"
  unfolding jpeg_truncated_def by (intro ok_core) (use that in auto)

lemma ok_push_group:
  assumes "Q ()"
  shows "safe I (push_group key f) Q"
  unfolding push_group_def
proof (rule ok_modc)
  fix s assume s: "I s"
  have "groups_ok (groups s)" by (rule groups_fixed [OF s])
  then have "groups_ok (case map_of (groups s) key of None \<Rightarrow> hm_insert key [f] (groups s)
      | Some fs \<Rightarrow> hm_adjust key (\<lambda>gs. gs @ [f]) (groups s))"
    by (auto simp: groups_ok_def hm_insert_def hm_remove_def hm_adjust_def split: option.splits)
  then show "I (s\<lparr>groups := (case map_of (groups s) key of None \<Rightarrow> hm_insert key [f] (groups s)
      | Some fs \<Rightarrow> hm_adjust key (\<lambda>gs. gs @ [f]) (groups s))\<rparr>)"
    by (rule keeps_groups [OF s])
qed (rule assms)

lemma ok_jpeg_extended:
  assumes "carried b payload n" "payload + n \<le> L" "length b = n" "len = n + 2" "Q ()"
  shows "safe I (jpeg_extended base payload len b) Q"
proof -
  have tail: "safe_from (\<lambda>s. I s \<and> i < length (packets s)) I
      (bindc (be32_at b (length JPEG_EXT + 32) (length JPEG_EXT + 36)) (\<lambda>total.
        bindc (be32_at b (length JPEG_EXT + 36) (length JPEG_EXT + 40)) (\<lambda>start.
        bindc (set_attributes i (attrs [(''guid'', grp), (''full_length'', dec total), (''fragment_offset'', dec start)])) (\<lambda>_.
        bindc (window b (length JPEG_EXT + 40) (length b)) (\<lambda>rest.
        push_group (to_ascii_uppercase grp)
          \<lparr>ext_index = i, ext_total = total, ext_start = start, ext_bytes = rest\<rparr>))))) Q"
    if "length JPEG_EXT + 40 \<le> length b" for i grp
    by (intro safe_from_bind safe_be32_at ok_set_attributes ok_core ok_push_group) (use that assms in auto)
  have sub: "safe I (subc len 2) R" if "R n" for R using assms(4) that by (intro ok_core) simp_all
  show ?thesis
    unfolding jpeg_extended_def Let_def
    by (intro safe_bind safe_if safe_window safe_ret sub ok_packet_then [OF assms(1-3)] safe_from_if)
       (use assms tail in \<open>auto intro!: safe_from_safe ok_record\<close>)
qed

lemma ok_jpeg_app1:
  assumes "2 \<le> len" "Q ()"
  shows "safe I (jpeg_app1 base payload len) Q"
proof -
  have pre: "length p \<le> length b" if "starts_with p b" for p b :: "byte list"
    using that by (metis starts_with_def length_take min.cobounded1)
  show ?thesis
    unfolding jpeg_app1_def by (intro ok_core ok_jpeg_extended) (use assms in \<open>auto dest: pre\<close>)
qed

lemma ok_jpeg_segment:
  assumes "end' \<le> L" "\<And>n. o' < end' \<Longrightarrow> o' < n \<Longrightarrow> Q (Inl n)" "Q (Inr ())"
  shows "safe I (jpeg_segment base end' o') Q"
  unfolding jpeg_segment_def
  by (intro ok_core ok_marker ok_jpeg_truncated ok_jpeg_app1 ok_entropy_end)
     (use assms in auto)

lemma ok_jpeg_group:
  assumes "fs \<noteq> []" "Q ()"
  shows "safe I (jpeg_group base (guid, fs) ()) Q"
  unfolding jpeg_group_def prod.case
  by (intro ok_core ok_getc_any) (use assms in auto)

lemma ok_jpeg:
  assumes "end' \<le> L" "Q ()"
  shows "safe I (jpeg base end') Q"
proof -
  have segments: "safe I (loopc (Suc (Suc (end' - o'))) OutOfFuel (jpeg_segment base end') o') R" if "R ()" for o' R
    by (rule safe_loop [where V = "\<lambda>_. True" and m = "\<lambda>p. end' - p"])
       (use assms that in \<open>auto intro!: ok_jpeg_segment\<close>)
  have nonempty: "fs \<noteq> []" if "groups_ok gs" "(k, fs) \<in> set (sort_key fst gs)" for gs k fs
    using that by (auto simp: groups_ok_def)
  have groups: "safe I (forc (sort_key fst gs) (jpeg_group base) ()) R" if "groups_ok gs" "R ()" for gs R
    by (rule safe_for_all) (use that nonempty in \<open>auto intro: ok_jpeg_group\<close>)
  show ?thesis
    unfolding jpeg_def
    by (intro ok_core ok_modc keeps_groups segments groups)
       (use assms in \<open>auto simp: groups_ok_def\<close>)
qed

section \<open>PNG, WebP and PSD\<close>

lemma ok_png_text: "safe I (png_text b start o') Q"
  if "start \<le> length b" "\<And>x. Q x"
  unfolding png_text_def
  by (intro ok_core ok_getc_any) (use that in auto)

lemma position_less: "position P b = Some k \<Longrightarrow> k < length b"
  by (induction b arbitrary: k) (auto split: if_splits)

lemma ok_png_itxt:
  assumes "\<And>next. complete = Inr next \<Longrightarrow> next = o' + (len + 12) \<and> next \<le> L" "o' + 8 \<le> L" "L < u64_limit"
    and "Q None" "\<And>next. complete = Inr next \<Longrightarrow> Q (Some next)"
  shows "safe I (png_itxt o' len complete) Q"
proof -
  have body: "safe_from (\<lambda>s. I s \<and> i < length (packets s)) I
      (case (complete, keyword_end) of
         (Inr _, Some k) \<Rightarrow>
           bindc (addc payload len) (\<lambda>crc_offset.
           bindc (read crc_offset 4) (\<lambda>cb.
           bindc (be32 cb) (\<lambda>expected.
           if unat (crc32 (ascii ''iTXt'' @ b)) \<noteq> expected
           then bindc (record_issue (malformed o' ''XMP iTXt CRC mismatch'')) (\<lambda>_.
                bindc (propagate complete) (\<lambda>next. ret (Some next)))
           else
             bindc (outcome (png_text b (k + 1) o')) (\<lambda>text.
             case text of
               Inr (xml, transform) \<Rightarrow> bindc (add_input xml [i] transform grp) (\<lambda>_. ret None)
             | Inl error \<Rightarrow> bindc (record_issue error) (\<lambda>_. ret None)))))
       | _ \<Rightarrow>
           bindc (set_attributes i (attrs [(''declared_length'', dec len), (''incomplete'', ''true'')])) (\<lambda>_.
           raise (malformed o' ''truncated XMP iTXt carrier or missing keyword terminator''))) Q"
    if p: "payload = o' + 8" and kw: "keyword_end = position (\<lambda>x. x = 0) b" for i payload keyword_end b grp
  proof -
    have "k + 1 \<le> length b" if "keyword_end = Some k" for k
      using position_less [of "\<lambda>x. x = 0" b k] that kw by auto
    then show ?thesis
      using assms p
      by (cases complete; cases keyword_end; simp only: prod.case sum.case option.case)
         (auto intro!: ok_set_attributes safe_from_safe ok_core ok_png_text)
  qed
  show ?thesis
    unfolding png_itxt_def
    by (intro ok_length safe_bind safe_addc safe_let ok_read safe_if ok_packet_then safe_ret body)
       (use assms in auto)
qed

lemma ok_png_chunk:
  assumes "\<And>n. o' < L \<Longrightarrow> o' < n \<Longrightarrow> Q (Inl n)" "\<And>x. Q (Inr x)"
  shows "safe I (png_chunk o') Q"
  unfolding png_chunk_def
  by (intro ok_core ok_png_itxt) (use assms in \<open>auto simp: u64_limit_def\<close>)

lemma ok_png:
  assumes "Q ()"
  shows "safe I png Q"
proof -
  have chunks: "safe I (loopc (Suc L) OutOfFuel png_chunk 8) R" if "\<And>x. R x" for R
    by (rule safe_loop [where V = "\<lambda>_. True" and m = "\<lambda>p. L - p"])
       (use that in \<open>auto intro!: ok_png_chunk\<close>)
  show ?thesis unfolding png_def by (intro ok_core chunks) (use assms in auto)
qed

lemma ok_webp_chunk:
  assumes "end' \<le> L" "\<And>n. o' < end' \<Longrightarrow> o' < n \<Longrightarrow> Q (Inl n)" "Q (Inr ())"
  shows "safe I (webp_chunk end' o') Q"
  unfolding webp_chunk_def
  by (intro ok_core ok_simple_within) (use assms in \<open>auto simp: u64_limit_def\<close>)

lemma ok_webp:
  assumes "Q ()"
  shows "safe I webp Q"
proof -
  have chunks: "safe I (loopc (Suc end') OutOfFuel (webp_chunk end') 12) Q" if "end' \<le> L" for end'
    by (rule safe_loop [where V = "\<lambda>_. True" and m = "\<lambda>p. end' - p"])
       (use that assms in \<open>auto intro!: ok_webp_chunk\<close>)
  show ?thesis
    unfolding webp_def by (intro ok_core chunks) (auto simp: u64_limit_def)
qed

lemma unat_byte: "unat (b :: byte) < 256"
  using unsigned_less [of b, where ?'a = nat] by simp

lemma ok_psd_resource:
  assumes "end' \<le> L" "\<And>n. o' < end' \<Longrightarrow> o' < n \<Longrightarrow> Q (Inl n)" "Q (Inr ())"
  shows "safe I (psd_resource end' o') Q"
  unfolding psd_resource_def
  by (intro ok_core ok_simple_within) (use assms in \<open>auto simp: u64_limit_def\<close>)

lemma ok_psd:
  assumes "Q ()"
  shows "safe I psd Q"
proof -
  have resources: "safe I (loopc (Suc (Suc (end' - o'))) OutOfFuel (psd_resource end') o') Q" if "end' \<le> L" for end' o'
    by (rule safe_loop [where V = "\<lambda>_. True" and m = "\<lambda>p. end' - p"])
       (use that assms in \<open>auto intro!: ok_psd_resource\<close>)
  show ?thesis
    unfolding psd_def by (intro ok_core resources) (use in auto)
qed

section \<open>TIFF\<close>

lemma ok_absolute:
  assumes "\<And>v. v \<le> tiff_end t \<Longrightarrow> Q v"
  shows "safe I (tiff_absolute t o') Q"
  unfolding tiff_absolute_def by (intro ok_core) (use assms in \<open>auto dest: checked_add_SomeD\<close>)

lemma ok_xmp_entry:
  assumes "Q ()"
  shows "safe I (tiff_xmp_entry t o' i e kind n v len) Q"
  unfolding tiff_xmp_entry_def by (intro ok_simple_last ok_core) (use assms in auto)

lemma ok_pointer_entry:
  assumes "\<And>cs. Q cs"
  shows "safe I (tiff_pointer_entry t e kind n v len cs) Q"
  unfolding tiff_pointer_entry_def by (intro ok_core) (use assms in auto)

lemma tiff_sizes: "slot_size t \<le> entry_size t" "4 \<le> entry_size t - slot_size t" "entry_size t \<le> 20" "0 < entry_size t"
  by (simp_all add: slot_size_def entry_size_def)

lemma ok_tiff_entry:
  assumes table: "checked_mul count (entry_size t) = Some table" "start + table \<le> L" "L < u64_limit" "i < count"
    and Q: "\<And>cs. Q cs"
  shows "safe I (tiff_entry t o' start i cs) Q"
proof -
  have "i * entry_size t + entry_size t \<le> count * entry_size t"
    using mult_le_mono1 [of "Suc i" count "entry_size t"] table(4) by simp
  with table have "start + i * entry_size t + entry_size t \<le> L" by auto
  then have "i * entry_size t < u64_limit" "start + i * entry_size t < u64_limit"
    "start + i * entry_size t + entry_size t < u64_limit" using table(3) by auto
  then show ?thesis
    unfolding tiff_entry_def
    by (intro ok_core ok_absolute ok_xmp_entry ok_pointer_entry) (use Q tiff_sizes [of t] in auto)
qed

lemma ok_tiff_entries:
  assumes Q: "\<And>cs. Q cs"
  shows "safe I (tiff_entries t o') Q"
proof -
  have entries: "safe I (forc [0..<count] (tiff_entry t o' start) cs) R"
    if "checked_mul count (entry_size t) = Some table" "start + table \<le> L" "L < u64_limit" "\<And>cs. R cs" for count start table cs R
    by (rule safe_for_all) (use that(4) in \<open>auto intro!: ok_tiff_entry [OF that(1-3)] simp del: upt.simps\<close>)
  have count: "count_size t \<le> 8" by (simp add: count_size_def)
  show ?thesis
    unfolding tiff_entries_def by (intro ok_core entries) (use Q count in auto)
qed

lemma ok_tiff_children:
  assumes "\<And>c. safe I (visit c) (\<lambda>_. True)" "Q ()"
  shows "safe I (tiff_children visit cs) Q"
proof (induction cs)
  case Nil
  show ?case unfolding tiff_children.simps by (rule safe_ret) (rule assms(2))
next
  case (Cons c cs)
  have "safe I (outcome (visit c)) (\<lambda>r. safe I (case r of Inr _ \<Rightarrow> tiff_children visit cs
      | Inl error \<Rightarrow> bindc (record_issue error) (\<lambda>_.
         if fail_status error = ResourceLimit then ret () else tiff_children visit cs)) Q)"
    by (rule safe_outcome [OF safe_weaken [OF assms(1)]])
       (simp only: sum.case, intro ok_core Cons.IH assms(2))+
  then show ?case unfolding tiff_children.simps by (rule safe_bind)
qed

lemma ok_tiff_ifd:
  assumes "max_depth lim + 2 \<le> fuel + depth" "depth \<le> max_depth lim + 1" "Q ()"
  shows "safe I (tiff_ifd fuel t relative depth) Q"
  using assms
proof (induction fuel arbitrary: relative depth Q)
  case (Suc fuel)
  have child: "safe I (tiff_ifd fuel t c (depth + 1)) R" if "depth \<le> max_depth lim" "R ()" for c R
    using Suc.prems(1) that by (intro Suc.IH) simp_all
  show ?case
    unfolding tiff_ifd.simps
    by (intro ok_core ok_absolute ok_getc_any ok_modc keeps_visited keeps_active ok_tiff_entries ok_tiff_children child)
       (use Suc.prems in auto)
qed simp

lemma ok_tiff:
  assumes "Q ()"
  shows "safe I (tiff_parse base end') Q"
  unfolding tiff_parse_def
  by (intro ok_core ok_modc ok_tiff_ifd) (use assms keeps_active keeps_visited in auto)

section \<open>ISO base media files\<close>

lemma ok_box_at:
  assumes "end' \<le> L" "o' < end'" "\<And>b. box_ok end' b \<Longrightarrow> box_start b = o' \<Longrightarrow> Q b"
  shows "safe I (box_at o' end') Q"
  unfolding box_at_def
  by (intro ok_core) (use assms in \<open>auto simp: box_ok_def\<close>)

lemma ok_boxes:
  assumes "end' \<le> L" "\<And>bs. \<forall>b \<in> set bs. box_ok end' b \<Longrightarrow> Q bs"
  shows "safe I (boxes o' end') Q"
  unfolding boxes_def
proof (rule safe_loop [where V = "\<lambda>(p, bs). \<forall>b \<in> set bs. box_ok end' b" and m = "\<lambda>(p, bs). end' - p"])
  fix i :: "nat \<times> bmff_box list"
  assume V: "case i of (p, bs) \<Rightarrow> \<forall>b \<in> set bs. box_ok end' b"
  obtain p bs where i: "i = (p, bs)" by (cases i)
  show "safe I (boxes_step end' i) (\<lambda>r. case r of
      Inl j \<Rightarrow> (case j of (p, bs) \<Rightarrow> \<forall>b \<in> set bs. box_ok end' b)
         \<and> (case j of (p, bs) \<Rightarrow> end' - p) < (case i of (p, bs) \<Rightarrow> end' - p)
    | Inr x \<Rightarrow> Q x)"
    unfolding boxes_step_def i prod.case
    by (intro ok_core ok_box_at) (use assms V i in \<open>auto simp: box_ok_def\<close>)
qed auto

lemma ok_iinf_child:
  assumes "box_ok e b" "\<And>m. Q m"
  shows "safe I (iinf_child b items) Q"
  unfolding iinf_child_def by (intro ok_core) (use assms in \<open>auto simp: box_ok_def\<close>)

lemma ok_field_width:
  assumes "0 < length b" "Q 2" "Q 4"
  shows "safe I (field_width b f) Q"
  unfolding field_width_def by (intro ok_core) (use assms in auto)

lemma ok_bmff_iinf:
  assumes "end' \<le> L" "box_ok end' b" "\<And>m. Q m"
  shows "safe I (bmff_iinf b items) Q"
proof -
  have children: "safe I (forc bs iinf_child items) Q" if "\<forall>c \<in> set bs. box_ok e c" for bs e
    by (rule safe_for_all) (use that assms(3) in \<open>auto intro: ok_iinf_child\<close>)
  show ?thesis
    unfolding bmff_iinf_def
    by (intro ok_core ok_field_width ok_boxes children) (use assms in \<open>auto simp: box_ok_def\<close>)
qed

lemma ok_iloc_extent: "(\<And>x. Q x) \<Longrightarrow> safe I (iloc_extent b i j k n a) Q"
  unfolding iloc_extent_def by (intro ok_core) auto

lemma ok_iloc_item:
  assumes "\<And>x. Q x"
  shows "safe I (iloc_item b v sizes n a) Q"
proof -
  have extents: "safe I (forc xs (iloc_extent b i j k) a) R" if "\<And>x. R x" for xs i j k a R
    by (rule safe_for_all) (use that in \<open>auto intro: ok_iloc_extent\<close>)
  obtain i j k l where sizes: "sizes = (i, j, k, l)" by (cases sizes)
  show ?thesis
    unfolding iloc_item_def sizes prod.case by (intro ok_core ok_getc_any extents) (use assms in auto)
qed

lemma ok_bmff_iloc:
  assumes "box_ok end' b" "\<And>m. Q m"
  shows "safe I (bmff_iloc b m) Q"
proof -
  have items: "safe I (forc xs (iloc_item b v sizes) a) R" if "\<And>x. R x" for xs v sizes a R
    by (rule safe_for_all) (use that in \<open>auto intro: ok_iloc_item\<close>)
  show ?thesis
    unfolding bmff_iloc_def by (intro ok_core ok_getc_any items) (use assms in \<open>auto simp: box_ok_def\<close>)
qed

lemma ok_iref_child:
  assumes "box_ok end' b" "\<And>m. Q m"
  shows "safe I (iref_child w b m) Q"
proof -
  have targets: "safe I (forc xs (iref_target b w f) a) R" if "\<And>x. R x" for xs f a R
    by (rule safe_for_all) (use that in \<open>auto simp: iref_target_def intro!: ok_core\<close>)
  show ?thesis
    unfolding iref_child_def by (intro ok_core targets) (use assms in \<open>auto simp: box_ok_def\<close>)
qed

lemma ok_bmff_iref:
  assumes "end' \<le> L" "box_ok end' b" "\<And>m. Q m"
  shows "safe I (bmff_iref b m) Q"
proof -
  have children: "safe I (forc bs (iref_child w) m) Q" if "\<forall>c \<in> set bs. box_ok e c" for bs e w
    by (rule safe_for_all) (use that assms(3) in \<open>auto intro: ok_iref_child\<close>)
  show ?thesis
    unfolding bmff_iref_def
    by (intro ok_core ok_field_width ok_boxes children) (use assms in \<open>auto simp: box_ok_def\<close>)
qed

lemma ok_meta_child:
  assumes "end' \<le> L" "box_ok end' b" "\<And>s e. e \<le> L \<Longrightarrow> safe I (visit s e) (\<lambda>_. True)" "\<And>m. Q m"
  shows "safe I (meta_child visit b m) Q"
  unfolding meta_child_def
  by (intro ok_core ok_bmff_iinf ok_bmff_iloc ok_bmff_iref safe_weaken [OF assms(3)])
     (use assms in \<open>auto simp: box_ok_def\<close>)

lemma ok_item_extent:
  assumes "\<And>y. Q y"
  shows "safe I (item_extent meta m id' item loc origin most grp x a) Q"
proof -
  obtain ordinal relative len where x: "x = (ordinal, relative, len)" by (cases x)
  show ?thesis
    unfolding item_extent_def x prod.case by (intro ok_core ok_getc_any) (use assms in auto)
qed

lemma ok_item_input:
  assumes "Q ()"
  shows "safe I (item_input meta item grp x) Q"
  unfolding item_input_def by (intro ok_core ok_getc_any) (use assms in auto)

lemma ok_meta_item:
  assumes "Q ()"
  shows "safe I (meta_item meta m x u) Q"
proof -
  have extents: "safe I (forc xs (item_extent meta m id' item loc origin most grp) a) R" if "\<And>y. R y"
    for xs id' item loc origin most grp a R
    by (rule safe_for_all) (use that in \<open>auto intro: ok_item_extent\<close>)
  obtain id' item where x: "x = (id', item)" by (cases x)
  show ?thesis
    unfolding meta_item_def x prod.case
    by (intro ok_core extents ok_item_input) (use assms in auto)
qed

lemma ok_bmff_meta:
  assumes "box_ok end' meta" "end' \<le> L" "Q ()"
    and "depth \<le> max_depth lim \<Longrightarrow> (\<And>s e. e \<le> L \<Longrightarrow> safe I (visit s e) (\<lambda>_. True))"
  shows "safe I (bmff_meta visit meta depth) Q"
proof -
  have children: "safe I (forc bs (meta_child visit) m) R"
    if "\<forall>c \<in> set bs. box_ok (box_end meta) c" "\<And>x. R x" "depth \<le> max_depth lim" for bs m R
    by (rule safe_for_all)
       (use that assms in \<open>auto simp: box_ok_def intro!: ok_meta_child [where end' = "box_end meta"]\<close>)
  have items: "safe I (forc xs (meta_item meta m) ()) Q" for xs m
    by (rule safe_for_all) (use assms(3) in \<open>auto intro!: ok_meta_item\<close>)
  show ?thesis
    unfolding bmff_meta_def
    by (intro ok_core ok_boxes children items) (use assms in \<open>auto simp: box_ok_def\<close>)
qed

lemma ok_bmff:
  assumes "max_depth lim + 2 \<le> fuel + depth" "depth \<le> max_depth lim + 1" "end' \<le> L" "Q ()"
  shows "safe I (bmff fuel start end' depth) Q"
  using assms
proof (induction fuel arbitrary: start end' depth Q)
  case (Suc fuel)
  have rec: "safe I (bmff fuel s e d) R" if "depth < d" "d \<le> max_depth lim + 1" "e \<le> L" "R ()" for s e d R
    using Suc.prems(1) that by (intro Suc.IH) simp_all
  have simple: "safe I (simple c o' len grp) R" if "R ()" for c o' len grp R
    unfolding simple_def by (intro ok_core ok_simple_within that)
  show ?case
    unfolding bmff.simps
    by (intro ok_core ok_boxes safe_for_all simple ok_bmff_meta rec)
       (use Suc.prems in \<open>auto simp: box_ok_def\<close>)
qed simp

section \<open>Dispatch\<close>

lemma ok_raf:
  assumes "Q ()"
  shows "safe I raf Q"
  unfolding raf_def by (intro ok_core ok_jpeg) (use assms in auto)

lemma ok_photo_bmff:
  assumes "0 < L" "Q ()"
  shows "safe I photo_bmff Q"
  unfolding photo_bmff_def
  by (intro ok_core ok_box_at ok_bmff) (use assms in \<open>auto simp: box_ok_def\<close>)

lemma ok_photo:
  assumes "Q ()"
  shows "safe I photo Q"
  unfolding photo_def
  by (intro ok_core ok_jpeg ok_png ok_webp ok_psd ok_tiff ok_raf ok_photo_bmff)
     (use assms in \<open>auto simp: get_range_def split: if_splits\<close>)

lemma ok_sidecar:
  assumes "Q ()"
  shows "safe I sidecar Q"
  unfolding sidecar_def simple_def by (intro ok_core ok_simple_within) (use assms in auto)

end

end
