(* ===== verification/XMP_Roundtrip.thy ===== *)
theory XMP_Roundtrip
  imports XMP_Contract "HOL-Library.Multiset"
begin

text \<open>
  Extraction succeeds: a carrier written the way its format asks for is found, retained
  verbatim and handed to the XML parser as the bytes that were embedded. The runs are
  computed step by step on a source that delivers its bytes.
\<close>

section \<open>A source that delivers its bytes\<close>

text \<open>A source whose bytes every read inside it delivers.\<close>

definition serves :: "byte list \<Rightarrow> environment \<Rightarrow> bool" where
  "serves src e \<longleftrightarrow> (\<forall>i o' n. o' + n \<le> length src \<longrightarrow> read_at e i o' n = Inr (take n (drop o' src)))"

text \<open>The buffer held in memory, with the decompressors refusing their input.\<close>

definition memory_env :: "byte list \<Rightarrow> environment" where
  "memory_env src = \<lparr>
     read_at = (\<lambda>_ o' n. if o' + n \<le> length src then Inr (take n (drop o' src)) else Inl ''eof''),
     blake3 = concat \<circ> map hex2, md5_upper_hex = (\<lambda>b. dec (length b)),
     zlib_decode = (\<lambda>_ _. None), gzip_decode = (\<lambda>_ _. None)\<rparr>"

lemma memory_env_serves: "serves src (memory_env src)"
  by (simp add: serves_def memory_env_def)

lemma bounds_within:
  "o' + n \<le> end' \<Longrightarrow> o' + n \<le> source_length s \<Longrightarrow> source_length s < u64_limit \<Longrightarrow> bounds o' n end' s = (Inr (o' + n), s)"
  by (simp add: bounds_def checked_add_def)

lemma read_serves:
  assumes "serves src (env s)" "source_length s = length src" "length src < u64_limit" "o' + n \<le> length src"
    "n \<le> max_packet_bytes (limits s)" "read_bytes s + n \<le> max_metadata_read_bytes (limits s)"
    "max_metadata_read_bytes (limits s) < u64_limit"
  shows "read o' n s = (Inr (take n (drop o' src)), s\<lparr>read_bytes := read_bytes s + n, io_calls := Suc (io_calls s)\<rparr>)"
  using assms
  by (simp add: read_def bindc_def bounds_within checked_add_def read_source_def serves_def)

section \<open>A JPEG file with one XMP segment\<close>

definition jpeg_with :: "byte list \<Rightarrow> byte list" where
  "jpeg_with xml = [0xFF, 0xD8, 0xFF, 0xE1, word_of_nat ((length xml + 31) div 256), word_of_nat ((length xml + 31) mod 256)]
     @ JPEG_MAIN @ xml @ [0xFF, 0xD9]"


lemma length_JPEG_MAIN: "length JPEG_MAIN = 29"
  by (simp add: JPEG_MAIN_def ascii_def)

lemma length_jpeg_with: "length (jpeg_with xml) = length xml + 37"
  by (simp add: jpeg_with_def length_JPEG_MAIN)


lemma drop_append_exact: "length a = n \<Longrightarrow> drop n (a @ b) = b"
  by simp

lemma jpeg_with_pieces:
  "take 16 (jpeg_with xml) = [0xFF, 0xD8, 0xFF, 0xE1, word_of_nat ((length xml + 31) div 256), word_of_nat ((length xml + 31) mod 256)] @ take 10 JPEG_MAIN"
  "take 2 (jpeg_with xml) = [0xFF, 0xD8]"
  "take (Suc 0) (drop 2 (jpeg_with xml)) = [0xFF]"
  "take (Suc 0) (drop 3 (jpeg_with xml)) = [0xE1]"
  "take 2 (drop 4 (jpeg_with xml)) = [word_of_nat ((length xml + 31) div 256), word_of_nat ((length xml + 31) mod 256)]"
  "take (length xml + 29) (drop 6 (jpeg_with xml)) = JPEG_MAIN @ xml"
  by (simp_all add: jpeg_with_def length_JPEG_MAIN)

lemma jpeg_with_end:
  "drop (length xml + 35) (jpeg_with xml) = [0xFF, 0xD9]"
proof -
  have "jpeg_with xml = ([0xFF, 0xD8, 0xFF, 0xE1, word_of_nat ((length xml + 31) div 256), word_of_nat ((length xml + 31) mod 256)]
     @ JPEG_MAIN @ xml) @ [0xFF, 0xD9]" by (simp add: jpeg_with_def)
  then show ?thesis by (simp only:) (rule drop_append_exact, simp add: length_JPEG_MAIN)
qed

lemma jpeg_with_end_bytes:
  "take (Suc 0) (drop (length xml + 35) (jpeg_with xml)) = [0xFF]"
  "take (Suc 0) (drop (length xml + 36) (jpeg_with xml)) = [0xD9]"
proof -
  have "drop (length xml + 36) (jpeg_with xml) = drop 1 (drop (length xml + 35) (jpeg_with xml))"
    by (simp add: add.commute)
  then show "take (Suc 0) (drop (length xml + 36) (jpeg_with xml)) = [0xD9]" by (simp add: jpeg_with_end)
qed (simp add: jpeg_with_end)

lemma be_uint_pair: "be_uint [a, b] = unat a * 256 + unat b"
  proof -
  have "unat a < 256" using unsigned_less [of a] by simp
  then show ?thesis by (simp add: be_uint_def push8_def u64_limit_def)
qed

lemma be_uint_16: "n < 65536 \<Longrightarrow> be_uint [word_of_nat (n div 256), word_of_nat (n mod 256)] = n"
  by (simp add: be_uint_pair unat_of_nat take_bit_eq_mod)

lemma loopc_step:
  "body i s = (Inr (Inl j), t) \<Longrightarrow> loopc (Suc fuel) e body i s = loopc fuel e body j t"
  "body i s = (Inr (Inr x), t) \<Longrightarrow> loopc (Suc fuel) e body i s = (Inr x, t)"
  by (simp_all add: bindc_def)

lemma starts_with_append: "starts_with p (p @ q)" by (simp add: starts_with_def)

lemma addc_ok: "a + b < u64_limit \<Longrightarrow> addc a b s = (Inr (a + b), s)"
  by (simp add: addc_def checked_add_def)
lemma subc_ok: "b \<le> a \<Longrightarrow> subc a b s = (Inr (a - b), s)"
  by (simp add: subc_def)
lemma index_ok: "i < length b \<Longrightarrow> index b i s = (Inr (b ! i), s)"
  by (simp add: index_def)
lemma window_ok: "i \<le> j \<Longrightarrow> j \<le> length b \<Longrightarrow> window b i j s = (Inr (take (j - i) (drop i b)), s)"
  by (simp add: window_def)
lemma be16_ok: "be16 [a, b] s = (Inr (be_uint [a, b]), s)"
  by (simp add: be16_def bindc_def window_ok)

lemmas run_core = bindc_def bounds_within addc_ok subc_ok index_ok window_ok be16_ok


text \<open>Two states of an extraction that have found the same, the read counters apart.\<close>

definition same_found :: "nat \<Rightarrow> parser \<Rightarrow> parser \<Rightarrow> bool" where
  "same_found n s t \<longleftrightarrow> env t = env s \<and> source_length t = source_length s \<and> limits t = limits s
     \<and> packets t = packets s \<and> inputs t = inputs s \<and> issues t = issues s \<and> groups t = groups s
     \<and> retained t = retained s \<and> parsed t = parsed s
     \<and> read_bytes t \<le> read_bytes s + n \<and> entries t \<le> entries s + n"

text \<open>A source under the default limits with room to read.\<close>

definition roomy :: "byte list \<Rightarrow> nat \<Rightarrow> parser \<Rightarrow> bool" where
  "roomy src n s \<longleftrightarrow> serves src (env s) \<and> source_length s = length src \<and> length src < 2 ^ 63 \<and> limits s = default_limits
     \<and> read_bytes s + n \<le> 2 ^ 27 \<and> entries s + n \<le> 100000"

lemma roomy_same: "roomy src (n + m) s \<Longrightarrow> same_found m s t \<Longrightarrow> roomy src n t"
  by (auto simp: roomy_def same_found_def)

lemma tick_run:
  "roomy src (Suc n) s \<Longrightarrow> \<exists>t. tick o' s = (Inr (), t) \<and> same_found 1 s t"
  by (auto simp: tick_def roomy_def default_limits_def same_found_def)

lemma read_run:
  "roomy src n s \<Longrightarrow> o' + n \<le> length src \<Longrightarrow> n \<le> 2 ^ 24 \<Longrightarrow> b = take n (drop o' src) \<Longrightarrow>
     \<exists>t. read o' n s = (Inr b, t) \<and> same_found n s t"
  by (rule exI, rule conjI, subst read_serves)
     (auto simp: roomy_def default_limits_def u64_limit_def same_found_def)


lemmas run_steps = bindc_def prod.case sum.case simp_thms if_True if_False

lemma bindc_then: "m s = (Inr x, t) \<Longrightarrow> f x t = r \<Longrightarrow> bindc m f s = r"
  by (simp add: bindc_def)

lemma marker_run:
  assumes "roomy src 1 s" "o' + 1 \<le> length src" "take 1 (drop o' src) = [m]" "m \<noteq> 0xFF"
  shows "\<exists>t. loopc (Suc fuel) e (marker_step (length src)) o' s = (Inr (m, o' + 1), t) \<and> same_found 1 s t"
proof -
  obtain t where t: "read o' 1 s = (Inr [m], t)" "same_found 1 s t" using read_run [OF assms(1,2)] assms(3) by auto
  have b: "bounds o' 1 (length src) s = (Inr (o' + 1), s)"
    using assms(1,2) by (intro bounds_within) (auto simp: roomy_def u64_limit_def)
  have a: "addc o' 1 t = (Inr (o' + 1), t)"
    using assms(1,2) by (intro addc_ok) (auto simp: roomy_def u64_limit_def)
  have i: "index [m] 0 t = (Inr m, t)" by (simp add: index_ok)
  have "marker_step (length src) o' s = (Inr (Inr (m, o' + 1)), t)"
    using \<open>m \<noteq> 0xFF\<close> by (simp only: marker_step_def run_steps b t(1) a i) simp
  then show ?thesis using t(2) by (metis loopc_step(2))
qed


lemma same_found_trans: "same_found n s t \<Longrightarrow> same_found m t u \<Longrightarrow> same_found (n + m) s u"
  by (auto simp: same_found_def)

lemma segment_start:
  assumes "roomy src 3 s" "o' + 2 \<le> length src" "take 1 (drop o' src) = [0xFF]"
    "take 1 (drop (o' + 1) src) = [m]" "m \<noteq> 0xFF"
  shows "\<exists>s1 s2 t. tick o' s = (Inr (), s1) \<and> read o' 1 s1 = (Inr [0xFF], s2) \<and> addc o' 1 s2 = (Inr (o' + 1), s2)
     \<and> loopc (Suc (Suc (length src - (o' + 1)))) OutOfFuel (marker_step (length src)) (o' + 1) s2 = (Inr (m, o' + 2), t)
     \<and> same_found 3 s t"
proof -
  obtain s1 where s1: "tick o' s = (Inr (), s1)" "same_found 1 s s1" using tick_run [of src 2 s] assms(1) by auto
  then have r1: "roomy src 2 s1" using assms(1) roomy_same [of src 2 1 s s1] by simp
  then obtain s2 where s2: "read o' 1 s1 = (Inr [0xFF], s2)" "same_found 1 s1 s2"
    using read_run [of src 1 s1 o'] assms(2,3) by (auto simp: roomy_def)
  then have r2: "roomy src 1 s2" using r1 roomy_same [of src 1 1 s1 s2] by (simp add: numeral_2_eq_2)
  have a: "addc o' 1 s2 = (Inr (o' + 1), s2)"
    using assms(1,2) by (intro addc_ok) (auto simp: roomy_def u64_limit_def)
  obtain t where t: "loopc (Suc (Suc (length src - (o' + 1)))) OutOfFuel (marker_step (length src)) (o' + 1) s2 = (Inr (m, o' + 1 + 1), t)"
    "same_found 1 s2 t"
    using marker_run [OF r2, of "o' + 1" m] assms(2,4,5) by auto
  then have "loopc (Suc (Suc (length src - (o' + 1)))) OutOfFuel (marker_step (length src)) (o' + 1) s2 = (Inr (m, o' + 2), t)"
    by (simp only: add.assoc one_add_one)
  moreover have "same_found 3 s t"
    using same_found_trans [OF same_found_trans [OF s1(2) s2(2)] t(2)] by (simp add: numeral_3_eq_3)
  ultimately show ?thesis using s1(1) s2(1) a by blast
qed

lemma eoi_run:
  assumes "roomy src 3 s" "o' + 2 \<le> length src" "take 1 (drop o' src) = [0xFF]" "take 1 (drop (o' + 1) src) = [0xD9]"
  shows "\<exists>t. jpeg_segment base (length src) o' s = (Inr (Inr ()), t) \<and> same_found 3 s t"
proof -
  obtain s1 s2 t where start: "tick o' s = (Inr (), s1)" "read o' 1 s1 = (Inr [0xFF], s2)" "addc o' 1 s2 = (Inr (o' + 1), s2)"
    "loopc (Suc (Suc (length src - (o' + 1)))) OutOfFuel (marker_step (length src)) (o' + 1) s2 = (Inr (0xD9, o' + 2), t)"
    and t: "same_found 3 s t"
    using segment_start [OF assms] by auto
  have "o' < length src" using assms(2) by simp
  then have "jpeg_segment base (length src) o' s = (Inr (Inr ()), t)"
    by (simp only: jpeg_segment_def if_True run_steps start) simp
  then show ?thesis using t by blast
qed

lemma app1_run:
  assumes room: "roomy src 70000 s" and "o' + 4 + n \<le> length src" "take 1 (drop o' src) = [0xFF]" "take 1 (drop (o' + 1) src) = [0xE1]"
    and l: "take 2 (drop (o' + 2) src) = [word_of_nat ((n + 2) div 256), word_of_nat ((n + 2) mod 256)]" "n + 2 < 65536"
    and b: "take n (drop (o' + 4) src) = JPEG_MAIN @ xml"
    and space: "packets s = []" "inputs s = []" "retained s = 0" "parsed s = 0"
  shows "\<exists>t u. jpeg_segment base (length src) o' s = (Inr (Inl (o' + 4 + n)), t)
     \<and> same_found 69000 s u
     \<and> t = pushed_input xml [0] CarrierHeaderRemoved (''jpeg:'' @ dec base @ '':main:'' @ dec (o' + 4))
         (pushed_packet JpegMain (JPEG_MAIN @ xml) (the_range (o' + 4) n) (''jpeg:'' @ dec base @ '':main:'' @ dec (o' + 4)) [] u)"
proof -
  obtain s1 s2 s3 where start: "tick o' s = (Inr (), s1)" "read o' 1 s1 = (Inr [0xFF], s2)" "addc o' 1 s2 = (Inr (o' + 1), s2)"
    "loopc (Suc (Suc (length src - (o' + 1)))) OutOfFuel (marker_step (length src)) (o' + 1) s2 = (Inr (0xE1, o' + 2), s3)"
    and s3: "same_found 3 s s3"
    using segment_start [of src s o' "0xE1"] assms by (auto simp: roomy_def)
  have r3: "roomy src 69997 s3" using room roomy_same [of src 69997 3 s s3] s3 by simp
  obtain s4 where s4: "read (o' + 2) 2 s3 = (Inr [word_of_nat ((n + 2) div 256), word_of_nat ((n + 2) mod 256)], s4)" "same_found 2 s3 s4"
    using read_run [of src 2 s3 "o' + 2"] r3 assms(2) l(1) by (auto simp: roomy_def)
  have r4: "roomy src 69995 s4" using r3 roomy_same [of src 69995 2 s3 s4] s4(2) by simp
  have small: "length src < u64_limit" using room by (simp add: roomy_def u64_limit_def)
  have len: "source_length s3 = length src" "source_length s4 = length src" using r3 r4 by (auto simp: roomy_def)
  have steps: "bounds (o' + 2) 2 (length src) s3 = (Inr (o' + 4), s3)"
    "bounds (o' + 2) (n + 2) (length src) s4 = (Inr (o' + 4 + n), s4)"
    "addc (o' + 2) 2 s4 = (Inr (o' + 4), s4)"
    "be16 [word_of_nat ((n + 2) div 256), word_of_nat ((n + 2) mod 256)] s4 = (Inr (n + 2), s4)"
    using assms(2) small len be_uint_16 [OF l(2)] by (simp_all add: bounds_within addc_ok be16_ok)
  obtain s5 where s5: "read (o' + 4) n s4 = (Inr (JPEG_MAIN @ xml), s5)" "same_found n s4 s5"
    using read_run [of src n s4 "o' + 4"] r4 assms(2) l b by (auto simp: roomy_def)
  have n: "length (JPEG_MAIN @ xml) = n" using b assms(2) by (metis add.commute length_drop length_take min.absorb2 le_diff_conv2 add_leD1 add.assoc)
  have same: "same_found 69000 s s5"
    using same_found_trans [OF same_found_trans [OF s3 s4(2)] s5(2)] l(2) by (auto simp: same_found_def)
  define grp where "grp = ''jpeg:'' @ dec base @ '':main:'' @ dec (o' + 4)"
  have s5facts: "packets s5 = []" "inputs s5 = []" "retained s5 = 0" "parsed s5 = 0" "limits s5 = default_limits"
    using same space room by (simp_all add: same_found_def roomy_def)
  define s6 where "s6 = pushed_packet JpegMain (JPEG_MAIN @ xml) (the_range (o' + 4) n) grp [] s5"
  have n16: "n \<le> 65536" "length xml \<le> 65536" using l(2) n by auto
  have p: "add_packet JpegMain (JPEG_MAIN @ xml) (the_range (o' + 4) n) grp [] s5 = (Inr 0, s6)"
    using s5facts n n16 by (simp add: add_packet_def default_limits_def pushed_packet_def s6_def)
  have i: "add_input xml [0] CarrierHeaderRemoved grp s6 = (Inr (), pushed_input xml [0] CarrierHeaderRemoved grp s6)"
    using s5facts n16 by (simp add: add_input_def default_limits_def pushed_input_def s6_def pushed_packet_def)
  have app1: "jpeg_app1 base (o' + 4) (n + 2) s4 = (Inr (), pushed_input xml [0] CarrierHeaderRemoved grp s6)"
    unfolding jpeg_app1_def Let_def grp_def [symmetric]
    by (simp add: bindc_def subc_ok s5 starts_with_append window_ok p i)
  have o: "o' < length src = True" using assms(2) by simp
  have within: "outcome (bounds (o' + 2) (n + 2) (length src)) s4 = (Inr (Inr (o' + 4 + n)), s4)"
    by (simp only: outcome_def catchc_def steps prod.case sum.case eval_simps)
  have e1: "((0xE1 :: byte) = 0xD9) = False" "((0xE1 :: byte) = 0x01) = False" "(0xE1 \<le> (0xD7 :: byte)) = False"
    "((0xE1 :: byte) = 0) = False" "((0xE1 :: byte) = 0xD8) = False" "((0xE1 :: byte) = 0xDA) = False"
    "((0xE1 :: byte) = 0xDC) = False" "(n + 2 < 2) = False" "([0xFF :: byte] = [0xFF]) = True"
    by simp_all
  have "jpeg_segment base (length src) o' s = (Inr (Inl (o' + 4 + n)), pushed_input xml [0] CarrierHeaderRemoved grp s6)"
    by (simp only: jpeg_segment_def run_steps start s4(1) steps o within e1 app1 eval_simps)
  then show ?thesis using same unfolding s6_def grp_def by blast
qed

lemma jpeg_run:
  fixes xml defines "src \<equiv> jpeg_with xml"
  assumes room: "roomy src 80000 s" and xml: "length xml \<le> 65504"
    and space: "packets s = []" "inputs s = []" "retained s = 0" "parsed s = 0"
  shows "\<exists>t u. jpeg 0 (length src) s = (Inr (), t) \<and> packets t = packets u \<and> inputs t = inputs u \<and> issues t = issues s
     \<and> u = pushed_input xml [0] CarrierHeaderRemoved ''jpeg:0:main:6''
         (pushed_packet JpegMain (JPEG_MAIN @ xml) (the_range 6 (length xml + 29)) ''jpeg:0:main:6'' [] s)"
proof -
  have len: "length src = length xml + 37" by (simp add: src_def length_jpeg_with)
  obtain s1 where s1: "read 0 2 s = (Inr [0xFF, 0xD8], s1)" "same_found 2 s s1"
    using read_run [of src 2 s 0 "[0xFF, 0xD8]"] room len by (auto simp: roomy_def src_def jpeg_with_pieces)
  define s2 where "s2 = groups_update (\<lambda>_. []) s1"
  have r2: "roomy src 79000 s2" and sp2: "packets s2 = []" "inputs s2 = []" "retained s2 = 0" "parsed s2 = 0"
    using s1(2) room space by (simp_all add: s2_def same_found_def roomy_def)
  have group_name: "''jpeg:'' @ dec 0 @ '':main:'' @ dec (2 + 4) = ''jpeg:0:main:6''" by code_simp
  obtain t u where seg: "jpeg_segment 0 (length src) 2 s2 = (Inr (Inl (length xml + 35)), t)" and u: "same_found 69000 s2 u"
    and t: "t = pushed_input xml [0] CarrierHeaderRemoved ''jpeg:0:main:6''
         (pushed_packet JpegMain (JPEG_MAIN @ xml) (the_range 6 (length xml + 29)) ''jpeg:0:main:6'' [] u)"
    using app1_run [of src s2 2 "length xml + 29" xml 0] xml sp2 len r2
    unfolding group_name [symmetric]
    by (auto simp: roomy_def src_def jpeg_with_pieces add.commute numeral_3_eq_3 [symmetric])
  have "roomy src 3 t" using u r2 roomy_same [of src 10000 69000 s2 u]
    by (auto simp: t pushed_input_def pushed_packet_def roomy_def)
  moreover have e1: "take 1 (drop (length xml + 35) src) = [0xFF]" using jpeg_with_end_bytes(1) [of xml] by (simp add: src_def)
  moreover have e2: "take 1 (drop (length xml + 35 + 1) src) = [0xD9]" using jpeg_with_end_bytes(2) [of xml] by (simp add: src_def add.commute)
  moreover have "length xml + 35 + 2 \<le> length src" using len by simp
  ultimately obtain v where seg': "jpeg_segment 0 (length src) (length xml + 35) t = (Inr (Inr ()), v)" and v: "same_found 3 t v"
    using eoi_run [of src t "length xml + 35" 0] by blast
  have loop: "loopc (Suc (Suc (length src - 2))) OutOfFuel (jpeg_segment 0 (length src)) 2 s2 = (Inr (), v)"
    using loopc_step(1) [where body = "jpeg_segment 0 (length src)", OF seg] loopc_step(2) [where body = "jpeg_segment 0 (length src)", OF seg']
    by simp
  have gv: "groups v = []" using u v by (simp add: t s2_def same_found_def pushed_input_def pushed_packet_def)
  have "jpeg 0 (length src) s = (Inr (), v)"
    unfolding jpeg_def
    using loop gv by (simp add: bindc_def s1(1) addc_ok u64_limit_def s2_def [symmetric] numeral_2_eq_2 [symmetric] outcome_def catchc_def propagate_def del: loopc.simps)
  moreover have "packets s1 = packets s" "inputs s1 = inputs s" "issues s1 = issues s" "env s1 = env s" using s1(2) by (simp_all add: same_found_def)
  ultimately show ?thesis using u v by (auto simp: t s2_def same_found_def pushed_input_def pushed_packet_def)
qed

section \<open>Round trips\<close>

text \<open>
  C38: Embedding then extracting a main XMP packet gives it back: the photo that holds the
  packet behind the Adobe signature in an APP1 segment, at any length a segment can carry,
  yields exactly that packet as parse input, with the segment's bytes and their place in the
  file as the one retained carrier, and no issue.
\<close>

theorem jpeg_main_roundtrip:
  assumes "serves (jpeg_with xml) e" "length xml \<le> 65504"
  shows "\<exists>s. photo (parser_new e (length (jpeg_with xml)) default_limits) = (Inr (), s)
     \<and> map input_bytes (inputs s) = [xml] \<and> map packet_bytes (packets s) = [JPEG_MAIN @ xml]
     \<and> map packet_ranges (packets s) = [the_range 6 (length xml + 29)] \<and> map packet_indices (inputs s) = [[0]] \<and> issues s = []"
proof -
  define src s where "src = jpeg_with xml" and "s = parser_new e (length src) default_limits"
  have len: "length src = length xml + 37" by (simp add: src_def length_jpeg_with)
  have room: "roomy src 81000 s" using assms len by (simp add: roomy_def s_def src_def parser_new_def)
  obtain s1 where s1: "read 0 16 s = (Inr (take 16 src), s1)" "same_found 16 s s1"
    using read_run [of src 16 s 0 "take 16 src"] room len by (auto simp: roomy_def)
  have "roomy src 80000 s1" using room roomy_same [of src 80000 16 s s1] s1(2) by (simp add: roomy_def)
  then obtain t u where t: "jpeg 0 (length src) s1 = (Inr (), t)" "packets t = packets u" "inputs t = inputs u" "issues t = issues s1"
     "u = pushed_input xml [0] CarrierHeaderRemoved ''jpeg:0:main:6''
         (pushed_packet JpegMain (JPEG_MAIN @ xml) (the_range 6 (length xml + 29)) ''jpeg:0:main:6'' [] s1)"
    using jpeg_run [of xml s1] assms(2) s1(2) by (auto simp: src_def same_found_def s_def parser_new_def)
  have hd: "starts_with [0xFF, 0xD8] (take 16 src)" by (simp add: src_def jpeg_with_pieces starts_with_def)
  have g: "getc source_length s = (Inr (length src), s)" by (simp add: s_def parser_new_def)
  have m: "min (length src) 16 = 16" using len by simp
  have "photo s = (Inr (), t)"
    by (simp only: photo_def run_steps g m s1(1) hd t(1))
  then show ?thesis using t s1(2) by (auto simp: s_def src_def same_found_def parser_new_def pushed_input_def pushed_packet_def)
qed

lemma jpeg_main_roundtrip_witness:
  "\<exists>s. photo (parser_new (memory_env (jpeg_with (ascii ''<x>''))) (length (jpeg_with (ascii ''<x>''))) default_limits) = (Inr (), s)
     \<and> map input_bytes (inputs s) = [ascii ''<x>'']"
  using jpeg_main_roundtrip [OF memory_env_serves, of "ascii ''<x>''"] by (auto simp: ascii_def)

text \<open>The state a sidecar's extraction ends in.\<close>

definition sidecar_result :: "environment \<Rightarrow> byte list \<Rightarrow> limits \<Rightarrow> parser" where
  "sidecar_result e src lim = (parser_new e (length src) lim)\<lparr>read_bytes := length src, io_calls := 1,
     retained := length src, parsed := length src,
     packets := [\<lparr>packet_container = Sidecar, packet_bytes = src, packet_blake3 = blake3 e src,
       packet_ranges = the_range 0 (length src), packet_group = ''sidecar'', packet_attributes = []\<rparr>],
     inputs := [\<lparr>input_bytes = src, input_blake3 = blake3 e src, packet_indices = [0],
       input_transformation = Identity, input_group = ''sidecar''\<rparr>]\<rparr>"

lemma sidecar_run:
  assumes "serves src e" "length src < u64_limit" "length src \<le> max_packet_bytes lim"
    "length src \<le> max_metadata_read_bytes lim" "max_metadata_read_bytes lim < u64_limit"
    "0 < max_packets lim" "length src \<le> max_retained_bytes lim" "length src \<le> max_parse_bytes lim"
  shows "sidecar (parser_new e (length src) lim) = (Inr (), sidecar_result e src lim)"
  using assms
  by (simp add: sidecar_def simple_def simple_within_def bindc_def bounds_within read_serves parser_new_def
      sidecar_result_def add_packet_def add_input_def Let_def)

text \<open>
  A sidecar is retained verbatim: within the limits, inspection of a sidecar keeps the
  whole source as one packet over its full range and offers the same bytes, unchanged, as the
  one parse input.
\<close>

theorem sidecar_verbatim:
  assumes "serves src e" "length src < u64_limit" "length src \<le> max_packet_bytes lim"
    "length src \<le> max_metadata_read_bytes lim" "max_metadata_read_bytes lim < u64_limit"
    "0 < max_packets lim" "length src \<le> max_retained_bytes lim" "length src \<le> max_parse_bytes lim"
  shows "\<exists>s. sidecar (parser_new e (length src) lim) = (Inr (), s) \<and> issues s = []
     \<and> packets s = [\<lparr>packet_container = Sidecar, packet_bytes = src, packet_blake3 = blake3 e src,
          packet_ranges = the_range 0 (length src), packet_group = ''sidecar'', packet_attributes = []\<rparr>]
     \<and> inputs s = [\<lparr>input_bytes = src, input_blake3 = blake3 e src, packet_indices = [0],
          input_transformation = Identity, input_group = ''sidecar''\<rparr>]"
  using sidecar_run [OF assms] by (simp add: sidecar_result_def parser_new_def)

lemma sidecar_verbatim_witness:
  "\<exists>s. sidecar (parser_new (memory_env (ascii ''<x/>'')) (length (ascii ''<x/>'')) default_limits) = (Inr (), s)
     \<and> map packet_bytes (packets s) = [ascii ''<x/>'']"
  using sidecar_verbatim [OF memory_env_serves, of "ascii ''<x/>''" default_limits]
  by (auto simp: default_limits_def u64_limit_def ascii_def)

text \<open>
  A carrier cut off by the end of its container is still evidence: the bytes that are
  there are retained over their own range, marked incomplete with the length declared, no
  parse input is derived from them, and the parse fails as malformed.
\<close>

theorem truncated_carrier_retained:
  assumes "serves src (env s)" "source_length s = length src" "length src < u64_limit"
    "o' \<le> end'" "end' \<le> length src" "end' - o' < len"
    "end' - o' \<le> max_packet_bytes (limits s)" "read_bytes s + (end' - o') \<le> max_metadata_read_bytes (limits s)"
    "max_metadata_read_bytes (limits s) < u64_limit"
    "length (packets s) < max_packets (limits s)" "end' - o' \<le> max_retained_bytes (limits s) - retained s"
  shows "\<exists>t. simple_within c o' len grp end' s =
       (Inl (Failed (malformed o' ''truncated XMP payload; available source bytes retained'')), t)
     \<and> packets t = packets s @ [\<lparr>packet_container = c, packet_bytes = take (end' - o') (drop o' src),
          packet_blake3 = blake3 (env s) (take (end' - o') (drop o' src)), packet_ranges = the_range o' (end' - o'),
          packet_group = grp, packet_attributes = [(''declared_length'', dec len), (''incomplete'', ''true'')]\<rparr>]
     \<and> inputs t = inputs s"
  using assms
  by (auto simp: simple_within_def bindc_def bounds_within read_serves add_packet_def Let_def raise_def attrs_def min_def)

lemma truncated_carrier_retained_witness:
  "\<exists>t. simple_within WebpXmp 1 9 ''w'' 3 (parser_new (memory_env [1, 2, 3]) 3 default_limits)
     = (Inl (Failed (malformed 1 ''truncated XMP payload; available source bytes retained'')), t)
     \<and> map packet_bytes (packets t) = [[2, 3]]"
  using truncated_carrier_retained [where src = "[1, 2, 3]" and s = "parser_new (memory_env [1, 2, 3]) 3 default_limits"
      and o' = 1 and end' = 3 and len = 9 and c = WebpXmp and grp = "''w''"] memory_env_serves [of "[1, 2, 3]"]
  by (auto simp: parser_new_def default_limits_def u64_limit_def)

section \<open>Extended packets\<close>

text \<open>The fragments of a packet in order: each carries the whole length and its offset.\<close>

fun extended_pieces :: "nat \<Rightarrow> nat \<Rightarrow> (nat \<times> byte list) list \<Rightarrow> extended list" where
  "extended_pieces whole pos [] = []"
| "extended_pieces whole pos ((i, b) # ps) =
     \<lparr>ext_index = i, ext_total = whole, ext_start = pos, ext_bytes = b\<rparr> # extended_pieces whole (pos + length b) ps"

definition pieces_bytes :: "(nat \<times> byte list) list \<Rightarrow> byte list" where
  "pieces_bytes ps = concat (map snd ps)"

lemma extended_pieces_maps:
  "concat (map ext_bytes (extended_pieces whole pos ps)) = pieces_bytes ps"
  "map ext_index (extended_pieces whole pos ps) = map fst ps"
  by (induction whole pos ps rule: extended_pieces.induct) (auto simp: pieces_bytes_def)

lemma extended_pieces_starts:
  "list_all (\<lambda>(i, b). b \<noteq> []) ps \<Longrightarrow>
     sorted_wrt (<) (map ext_start (extended_pieces whole pos ps))
     \<and> (\<forall>f \<in> set (extended_pieces whole pos ps). pos \<le> ext_start f)"
  by (induction whole pos ps rule: extended_pieces.induct)
     (auto simp: sorted_wrt_map, metis add_leD1 le_neq_implies_less less_add_eq_less length_greater_0_conv less_add_same_cancel1 order.strict_trans2)

lemma fragments_end_pieces:
  "list_all (\<lambda>(i, b). b \<noteq> []) ps \<Longrightarrow> pos + length (pieces_bytes ps) = whole \<Longrightarrow>
     fragments_end whole pos (extended_pieces whole pos ps) = Some whole"
  by (induction whole pos ps rule: extended_pieces.induct) (auto simp: pieces_bytes_def)

lemma sort_pieces:
  assumes "list_all (\<lambda>(i, b). b \<noteq> []) ps" "mset fs = mset (extended_pieces whole 0 ps)"
  shows "sort_key ext_start fs = extended_pieces whole 0 ps"
proof (rule sort_key_inj_key_eq)
  have starts: "sorted_wrt (<) (map ext_start (extended_pieces whole 0 ps))"
    using extended_pieces_starts [OF assms(1)] by blast
  then have "distinct (map ext_start (extended_pieces whole 0 ps))" by (simp add: strict_sorted_iff)
  then show "inj_on ext_start (set fs)"
    using assms(2) mset_eq_setD [OF assms(2)] by (simp add: distinct_map)
  show "sorted (map ext_start (extended_pieces whole 0 ps))"
    using starts by (simp add: strict_sorted_iff)
qed (use assms in simp)

text \<open>
  Extended packets survive any order of arrival: when the fragments found are those of a
  packet cut into non-empty pieces, in whatever order the segments came, and the digest of
  the whole is the GUID, the group yields one parse input with the packet's bytes and the
  segments in packet order, and no issue.
\<close>

theorem extended_reassembly:
  assumes "mset fs = mset (extended_pieces (length b) 0 ps)" "b = pieces_bytes ps" "ps \<noteq> []"
    and "list_all (\<lambda>(i, b). b \<noteq> []) ps" "md5_upper_hex (env s) b = guid"
    and "length b \<le> max_packet_bytes (limits s)" "length b \<le> max_parse_bytes (limits s) - parsed s"
  shows "jpeg_group base (guid, fs) () s =
     (Inr (), pushed_input b (map fst ps) JpegExtendedReassembled (''jpeg:'' @ dec base @ '':extended:'' @ guid) s)"
proof -
  have sort: "sort_key ext_start fs = extended_pieces (length b) 0 ps" by (rule sort_pieces) (use assms in auto)
  obtain i b1 qs where ps: "ps = (i, b1) # qs" using assms(3) by (cases ps) auto
  have "fragments_end (length b) 0 (extended_pieces (length b) 0 ps) = Some (length b)"
    by (rule fragments_end_pieces) (use assms in auto)
  moreover have "index (extended_pieces (length b) 0 ps) 0 s = (Inr \<lparr>ext_index = i, ext_total = length b, ext_start = 0, ext_bytes = b1\<rparr>, s)"
    by (simp add: ps index_def)
  moreover have "concat (map ext_bytes (extended_pieces (length b) 0 ps)) = b" using assms(2) by (simp add: extended_pieces_maps)
  ultimately show ?thesis
    using assms(5-7)
    by (simp add: jpeg_group_def sort bindc_def [of "index _ _"] Let_def extended_pieces_maps add_input_def pushed_input_def)
qed

lemma extended_reassembly_witness:
  "\<exists>s. jpeg_group 0 (''3'', [\<lparr>ext_index = 1, ext_total = 3, ext_start = 2, ext_bytes = [9]\<rparr>,
       \<lparr>ext_index = 0, ext_total = 3, ext_start = 0, ext_bytes = [7, 8]\<rparr>]) ()
         (parser_new (memory_env []) 0 default_limits) = (Inr (), s)
     \<and> map input_bytes (inputs s) = [[7, 8, 9]] \<and> map packet_indices (inputs s) = [[0, 1]]"
proof -
  have 5: "md5_upper_hex (env (parser_new (memory_env []) 0 default_limits)) [7, 8, 9] = ''3''"
    by (simp add: parser_new_def memory_env_def) code_simp
  have 1: "mset [\<lparr>ext_index = 1, ext_total = 3, ext_start = 2, ext_bytes = [9]\<rparr>,
       \<lparr>ext_index = 0, ext_total = 3, ext_start = 0, ext_bytes = [7, 8]\<rparr>]
     = mset (extended_pieces (length [7, 8, 9 :: byte]) 0 [(0, [7, 8]), (1, [9])])"
    by (simp add: numeral_2_eq_2 numeral_3_eq_3)
  have l: "length [7, 8, 9 :: byte] \<le> max_packet_bytes (limits (parser_new (memory_env []) 0 default_limits))"
    "length [7, 8, 9 :: byte] \<le> max_parse_bytes (limits (parser_new (memory_env []) 0 default_limits)) - parsed (parser_new (memory_env []) 0 default_limits)"
    by (simp_all add: parser_new_def default_limits_def)
  have 2: "[7, 8, 9] = pieces_bytes [(0, [7, 8]), (1, [9])]" "[(0, [7, 8]), (1, [9])] \<noteq> []"
    "list_all (\<lambda>(i, b). b \<noteq> []) [(0, [7, 8]), (1, [9])]"
    by (simp_all add: pieces_bytes_def)
  show ?thesis
    by (rule exI, rule conjI, rule extended_reassembly [OF 1 2 5 l])
       (simp add: pushed_input_def parser_new_def)
qed

end
