(* ===== verification/XMP_Properties.thy ===== *)
theory XMP_Properties
  imports XMP_Safety XMP_Roundtrip
begin

text \<open>
  The properties of XMP extraction. The contract of the parser core is interpreted twice on
  the model: with the budgets the limits promise, and with the provenance of every retained
  carrier. The properties of \<open>photo\<close> and \<open>sidecar\<close> follow from the container lemmas proved
  in the contract.
\<close>

section \<open>What is assumed of the reader\<close>

text \<open>
  A successful \<open>read_exact\<close> delivers exactly the bytes asked for; a source that does not
  change delivers its own bytes. Any read may fail.
\<close>

definition exact_reads :: "environment \<Rightarrow> bool" where
  "exact_reads e \<longleftrightarrow> (\<forall>i o' n b. read_at e i o' n = Inr b \<longrightarrow> length b = n)"

definition reads_of :: "byte list \<Rightarrow> environment \<Rightarrow> bool" where
  "reads_of src e \<longleftrightarrow> (\<forall>i o' n b. read_at e i o' n = Inr b \<longrightarrow> o' + n \<le> length src \<longrightarrow> b = take n (drop o' src))"

definition u64_source :: "nat \<Rightarrow> limits \<Rightarrow> bool" where
  "u64_source L lim \<longleftrightarrow> L < u64_limit \<and> max_packet_bytes lim + 1 < u64_limit"

section \<open>Budgets\<close>

definition packet_total :: "packet list \<Rightarrow> nat" where
  "packet_total ps = sum_list (map (\<lambda>p. length (packet_bytes p)) ps)"

definition input_total :: "parse_input list \<Rightarrow> nat" where
  "input_total ins = sum_list (map (\<lambda>i. length (input_bytes i)) ins)"

definition within_budgets :: "limits \<Rightarrow> parser \<Rightarrow> bool" where
  "within_budgets lim s \<longleftrightarrow>
     retained s = packet_total (packets s) \<and> retained s \<le> max_retained_bytes lim
     \<and> length (packets s) \<le> max_packets lim
     \<and> list_all (\<lambda>p. length (packet_bytes p) \<le> max_packet_bytes lim) (packets s)
     \<and> parsed s = input_total (inputs s) \<and> parsed s \<le> max_parse_bytes lim
     \<and> list_all (\<lambda>i. length (input_bytes i) \<le> max_packet_bytes lim) (inputs s)"

definition budget_inv :: "environment \<Rightarrow> nat \<Rightarrow> limits \<Rightarrow> parser \<Rightarrow> bool" where
  "budget_inv e L lim s \<longleftrightarrow>
     exact_reads e \<and> u64_source L lim \<and> env s = e \<and> source_length s = L \<and> limits s = lim
     \<and> groups_ok (groups s) \<and> within_budgets lim s"

lemma packet_total_simps [simp]:
  "packet_total [] = 0" "packet_total (ps @ [p]) = packet_total ps + length (packet_bytes p)"
  by (simp_all add: packet_total_def)

lemma input_total_simps [simp]:
  "input_total [] = 0" "input_total (is @ [i]) = input_total is + length (input_bytes i)"
  by (simp_all add: input_total_def)

lemma packet_total_update_attributes [simp]:
  "i < length ps \<Longrightarrow> packet_total (ps[i := (ps ! i)\<lparr>packet_attributes := a\<rparr>]) = packet_total ps"
  unfolding packet_total_def
  by (simp add: map_update)
     (metis (no_types, lifting) length_map list_update_id nth_map)

lemma within_budgets_new: "within_budgets lim (parser_new e L lim)"
  by (simp add: within_budgets_def parser_new_def)

lemma within_budgets_packet:
  assumes "within_budgets lim s" "length (packets s) < max_packets lim" "length b \<le> max_packet_bytes lim"
    "length b \<le> max_retained_bytes lim - retained s"
  shows "within_budgets lim (pushed_packet c b rs grp a s)"
  using assms by (auto simp: within_budgets_def pushed_packet_def)

lemma within_budgets_input:
  assumes "within_budgets lim s" "length b \<le> max_packet_bytes lim" "length b \<le> max_parse_bytes lim - parsed s"
  shows "within_budgets lim (pushed_input b indices t grp s)"
  using assms by (auto simp: within_budgets_def pushed_input_def)

lemma within_budgets_attributes:
  assumes "within_budgets lim s" "i < length (packets s)"
  shows "within_budgets lim (s\<lparr>packets := (packets s)[i := (packets s ! i)\<lparr>packet_attributes := a\<rparr>]\<rparr>)"
  using assms by (auto simp: within_budgets_def list_all_length nth_list_update)

interpretation budgets: parser_contract "budget_inv e L lim" L lim "\<lambda>b o' n. True" for e L lim
proof unfold_locales
  fix s :: parser and b :: "byte list" and c o' n grp a
  assume "budget_inv e L lim s" "length b = n" "length (packets s) < max_packets lim"
    "n \<le> max_packet_bytes lim" "n \<le> max_retained_bytes lim - retained s"
  then show "budget_inv e L lim (pushed_packet c b (the_range o' n) grp a s)"
    using within_budgets_packet [of lim s b c "the_range o' n" grp a]
    by (auto simp: budget_inv_def pushed_packet_def)
next
  fix s :: parser and b :: "byte list" and indices t grp
  assume "budget_inv e L lim s" "length b \<le> max_packet_bytes lim" "length b \<le> max_parse_bytes lim - parsed s"
  then show "budget_inv e L lim (pushed_input b indices t grp s)"
    using within_budgets_input [of lim s b indices t grp]
    by (auto simp: budget_inv_def pushed_input_def)
next
  fix s :: parser and i a
  assume "budget_inv e L lim s" "i < length (packets s)"
  then show "budget_inv e L lim (s\<lparr>packets := (packets s)[i := (packets s ! i)\<lparr>packet_attributes := a\<rparr>]\<rparr>)"
    using within_budgets_attributes [of lim s i a] by (auto simp: budget_inv_def)
qed (auto simp: budget_inv_def within_budgets_def u64_source_def exact_reads_def)

section \<open>Provenance\<close>

definition carried_from :: "byte list \<Rightarrow> byte list \<Rightarrow> nat \<Rightarrow> nat \<Rightarrow> bool" where
  "carried_from src b o' n \<longleftrightarrow> b = take n (drop o' src)"

text \<open>A packet is evidence: one range inside the source, its bytes verbatim and their digest.\<close>

definition evidence :: "(byte list \<Rightarrow> string) \<Rightarrow> byte list \<Rightarrow> packet \<Rightarrow> bool" where
  "evidence digest src p \<longleftrightarrow>
     (case packet_ranges p of
        [r] \<Rightarrow> range_offset r + range_length r \<le> length src
              \<and> packet_bytes p = take (range_length r) (drop (range_offset r) src)
              \<and> packet_blake3 p = digest (packet_bytes p)
      | _ \<Rightarrow> False)"

definition provenance_inv :: "environment \<Rightarrow> byte list \<Rightarrow> limits \<Rightarrow> parser \<Rightarrow> bool" where
  "provenance_inv e src lim s \<longleftrightarrow>
     reads_of src e \<and> u64_source (length src) lim \<and> env s = e \<and> source_length s = length src
     \<and> limits s = lim \<and> groups_ok (groups s)
     \<and> list_all (evidence (blake3 e) src) (packets s)
     \<and> list_all (\<lambda>i. input_blake3 i = blake3 e (input_bytes i)) (inputs s)"

lemma evidence_attributes [simp]: "evidence d src (p\<lparr>packet_attributes := a\<rparr>) = evidence d src p"
  by (simp add: evidence_def split: list.split)

lemma evidence_pushed:
  "o' + n \<le> length src \<Longrightarrow> carried_from src b o' n \<Longrightarrow>
     evidence d src \<lparr>packet_container = c, packet_bytes = b, packet_blake3 = d b,
       packet_ranges = the_range o' n, packet_group = grp, packet_attributes = a\<rparr>"
  by (simp add: evidence_def the_range_def carried_from_def)

interpretation provenance: parser_contract "provenance_inv e src lim" "length src" lim "carried_from src"
  for e src lim
proof unfold_locales
  fix s :: parser and b :: "byte list" and c o' n grp a
  assume "provenance_inv e src lim s" "carried_from src b o' n" "o' + n \<le> length src"
  then show "provenance_inv e src lim (pushed_packet c b (the_range o' n) grp a s)"
    using evidence_pushed [of o' n src b "blake3 e" c grp a]
    by (auto simp: provenance_inv_def pushed_packet_def)
next
  fix s :: parser and i a
  assume "provenance_inv e src lim s" "i < length (packets s)"
  then show "provenance_inv e src lim (s\<lparr>packets := (packets s)[i := (packets s ! i)\<lparr>packet_attributes := a\<rparr>]\<rparr>)"
    by (auto simp: provenance_inv_def list_all_length nth_list_update)
next
  fix s :: parser and i o' n b
  assume "provenance_inv e src lim s" "read_at (env s) i o' n = Inr b" "o' + n \<le> length src"
  then have "b = take n (drop o' src)" unfolding provenance_inv_def reads_of_def by blast
  then show "length b = n \<and> carried_from src b o' n"
    using \<open>o' + n \<le> length src\<close> by (simp add: carried_from_def)
qed (auto simp: provenance_inv_def u64_source_def pushed_input_def)

lemma budget_inv_new:
  "exact_reads e \<Longrightarrow> u64_source L lim \<Longrightarrow> budget_inv e L lim (parser_new e L lim)"
  using within_budgets_new [of lim e L] by (simp add: budget_inv_def) (simp add: parser_new_def groups_ok_def)

lemma provenance_inv_new:
  "reads_of src e \<Longrightarrow> u64_source (length src) lim \<Longrightarrow> provenance_inv e src lim (parser_new e (length src) lim)"
  by (simp add: provenance_inv_def parser_new_def groups_ok_def)

text \<open>The final state of a safe computation satisfies the invariant, whatever its result.\<close>

lemma safe_final: "safe I m Q \<Longrightarrow> I s \<Longrightarrow> I (snd (m s))"
  by (cases "fst (m s)"; cases "m s") (auto dest: safe_Inr safe_Inl)

lemma safe_result:
  "safe I m Q \<Longrightarrow> I s \<Longrightarrow> fst (m s) \<noteq> Inl Panicked \<and> fst (m s) \<noteq> Inl OutOfFuel"
  by (cases "m s") (auto dest: safe_Inl)


section \<open>A source held in memory\<close>

lemma memory_env_reads: "exact_reads (memory_env src)" "reads_of src (memory_env src)"
  by (auto simp: exact_reads_def reads_of_def memory_env_def split: if_splits)

lemma u64_default: "L < 2 ^ 64 \<Longrightarrow> u64_source L default_limits"
  by (simp add: u64_source_def default_limits_def u64_limit_def)

section \<open>Safety\<close>

text \<open>
  C3: Whatever the bytes of a source and wherever its reads fail, extraction from a photo or
  a sidecar comes to an end without a panic: every loop and every recursion over directories
  and boxes ends within its bound, no index leaves its buffer, and no unchecked addition
  overflows. The only results are success and a reported failure.
\<close>

theorem extraction_total:
  assumes "exact_reads e" "u64_source L lim"
  shows "(\<exists>r s. photo (parser_new e L lim) = (r, s) \<and> (r = Inr () \<or> (\<exists>f. r = Inl (Failed f))))
     \<and> (\<exists>r s. sidecar (parser_new e L lim) = (r, s) \<and> (r = Inr () \<or> (\<exists>f. r = Inl (Failed f))))"
proof -
  have *: "budget_inv e L lim (parser_new e L lim)" using assms by (rule budget_inv_new)
  have finish: "\<exists>r s. m (parser_new e L lim) = (r, s) \<and> (r = Inr () \<or> (\<exists>f. r = Inl (Failed f)))"
    if "safe (budget_inv e L lim) m (\<lambda>_. True)" for m :: "unit pcomp"
    using safe_Inl [OF that *] by (cases "m (parser_new e L lim)"; cases "fst (m (parser_new e L lim))") auto
  show ?thesis
    by (intro conjI finish budgets.ok_photo budgets.ok_sidecar) simp_all
qed

lemma extraction_total_witness:
  "\<exists>r s. photo (parser_new (memory_env (jpeg_with [])) 40 default_limits) = (r, s)
     \<and> (r = Inr () \<or> (\<exists>f. r = Inl (Failed f)))"
  using extraction_total [of "memory_env (jpeg_with [])" 40 default_limits] by (simp add: memory_env_reads u64_default)

text \<open>
  C11: At every end of an extraction, failed or not, the budgets of the limits hold: the
  packets retained are no more than allowed, each within the packet limit and together
  within the retention limit, and the same for the parse inputs; the counters are the sums
  of what is kept.
\<close>

theorem extraction_within_budgets:
  assumes "exact_reads e" "u64_source L lim"
  shows "within_budgets lim (snd (photo (parser_new e L lim)))
     \<and> within_budgets lim (snd (sidecar (parser_new e L lim)))"
proof -
  have *: "budget_inv e L lim (parser_new e L lim)" using assms by (rule budget_inv_new)
  have "budget_inv e L lim (snd (photo (parser_new e L lim)))"
    by (rule safe_final [OF budgets.ok_photo [where Q = "\<lambda>_. True"] *]) simp
  moreover have "budget_inv e L lim (snd (sidecar (parser_new e L lim)))"
    by (rule safe_final [OF budgets.ok_sidecar [where Q = "\<lambda>_. True"] *]) simp
  ultimately show ?thesis by (simp add: budget_inv_def)
qed

lemma extraction_within_budgets_witness:
  "within_budgets default_limits (snd (photo (parser_new (memory_env (jpeg_with [])) 40 default_limits)))"
  using extraction_within_budgets [of "memory_env (jpeg_with [])" 40 default_limits]
  by (simp add: memory_env_reads u64_default)

text \<open>
  C9: Every packet an extraction retains is evidence: it names one range inside the source,
  its bytes are the bytes of that range verbatim and its digest is theirs; every parse input
  carries the digest of its bytes. This holds on every path, also where a carrier was
  truncated or its container failed later.
\<close>

theorem extraction_provenance:
  assumes "reads_of src e" "u64_source (length src) lim"
    and "s = snd (photo (parser_new e (length src) lim)) \<or> s = snd (sidecar (parser_new e (length src) lim))"
  shows "list_all (evidence (blake3 e) src) (packets s)
     \<and> list_all (\<lambda>i. input_blake3 i = blake3 e (input_bytes i)) (inputs s)"
proof -
  have *: "provenance_inv e src lim (parser_new e (length src) lim)" using assms(1,2) by (rule provenance_inv_new)
  have "provenance_inv e src lim (snd (photo (parser_new e (length src) lim)))"
    by (rule safe_final [OF provenance.ok_photo [where Q = "\<lambda>_. True"] *]) simp
  moreover have "provenance_inv e src lim (snd (sidecar (parser_new e (length src) lim)))"
    by (rule safe_final [OF provenance.ok_sidecar [where Q = "\<lambda>_. True"] *]) simp
  ultimately have "provenance_inv e src lim s" using assms(3) by auto
  then show ?thesis by (simp add: provenance_inv_def)
qed


lemma extraction_provenance_witness:
  "list_all (evidence (concat \<circ> map hex2) (jpeg_with []))
     (packets (snd (photo (parser_new (memory_env (jpeg_with [])) (length (jpeg_with [])) default_limits))))"
  using extraction_provenance [of "jpeg_with []" "memory_env (jpeg_with [])" default_limits]
    memory_env_reads(2) [of "jpeg_with []"]
  by (simp add: u64_default length_jpeg_with) (simp add: memory_env_def comp_def)

end
