(* ===== verification/XMP_Inspect.thy ===== *)
theory XMP_Inspect
  imports XMP_Containers
begin

text \<open>
  The inspection of a file around the parser (\<open>inspect_controlled\<close> of \<open>xmp_packets.rs\<close>, as it
  is compiled for Unix): observing the path and the open file before and after, hashing the
  source, parsing, deciding whether the revision held still, and ranking the issues. The file
  system may change at any time: the \<open>i\<close>-th system call of an inspection has whatever result
  the world gives to number \<open>i\<close>. The bytes the parser reads are its environment's business,
  so \<open>metadata_bytes\<close> of the work report is not kept.
\<close>

section \<open>Observations\<close>

text \<open>
  What a metadata call yields. The time of modification is in nanoseconds from the epoch, or
  absent where the platform has none.
\<close>

record file_meta =
  is_file :: bool
  is_symlink :: bool
  file_len :: nat
  file_modified :: "int option"
  file_dev :: nat
  file_ino :: nat
  file_ctime :: int
  file_ctime_nsec :: int

record stability_stamp =
  stamp_object :: "nat \<times> nat"
  stamp_bytes :: nat
  stamp_modified :: int
  stamp_changed :: int

record source_revision =
  revision_length :: nat
  revision_blake3 :: string
  revision_modified :: "nat option"

record inspection =
  revision :: source_revision
  inspection_status :: xstatus
  inspection_packets :: "packet list"
  inspection_inputs :: "parse_input list"
  inspection_issues :: "issue list"

text \<open>
  The world: \<open>read_file i p k\<close> reads at most \<open>k\<close> bytes at position \<open>p\<close>; \<open>file_system i\<close> is the
  name field and the local flag of \<open>fstatfs\<close>; \<open>parser_env i\<close> is what the parser started
  at call \<open>i\<close> will see; \<open>cancel_flag\<close> is the shared flag, if one was given.
\<close>

record world =
  macos :: bool
  path_meta :: "nat \<Rightarrow> string + file_meta"
  open_file :: "nat \<Rightarrow> string + unit"
  handle_meta :: "nat \<Rightarrow> string + file_meta"
  file_system :: "nat \<Rightarrow> (byte list \<times> bool) option"
  seek_start :: "nat \<Rightarrow> string + unit"
  read_file :: "nat \<Rightarrow> nat \<Rightarrow> nat \<Rightarrow> string + byte list"
  parser_env :: "nat \<Rightarrow> environment"
  digest :: "byte list \<Rightarrow> string"
  cancel_flag :: "(nat \<Rightarrow> bool) option"

record inspect_state =
  calls :: nat
  file_pos :: nat
  hash_bytes :: nat
  whole_file_hash_passes :: nat
  verification :: string

definition inspect_start :: inspect_state where
  "inspect_start = \<lparr>calls = 0, file_pos = 0, hash_bytes = 0, whole_file_hash_passes = 0, verification = []\<rparr>"

datatype inspect_error = IoError string | ParserCrashed perror

type_synonym 'a icomp = "(inspect_state, inspect_error, 'a) comp"

section \<open>System calls\<close>

definition sys :: "(nat \<Rightarrow> string + 'a) \<Rightarrow> 'a icomp" where
  "sys f = (\<lambda>s. (map_err IoError (f (calls s)), s\<lparr>calls := Suc (calls s)\<rparr>))"

text \<open>\<open>.ok()\<close>.\<close>

definition okc :: "'a icomp \<Rightarrow> 'a option icomp" where
  "okc m = catchc m (\<lambda>r. case r of Inl _ \<Rightarrow> ret None | Inr x \<Rightarrow> ret (Some x))"

definition modified_ns :: "file_meta \<Rightarrow> nat option" where
  "modified_ns m = (case file_modified m of Some t \<Rightarrow> if 0 \<le> t then Some (nat t) else None | None \<Rightarrow> None)"

definition check_canceled :: "world \<Rightarrow> unit icomp" where
  "check_canceled w =
     (case cancel_flag w of
        None \<Rightarrow> ret ()
      | Some c \<Rightarrow> bindc (sys (\<lambda>i. Inr (c i))) (\<lambda>set'.
          if set' then fail (IoError ''metadata preparation canceled'') else ret ()))"

definition open_regular :: "world \<Rightarrow> file_meta \<Rightarrow> unit icomp" where
  "open_regular w expected =
     (if \<not> is_file expected \<or> is_symlink expected
      then fail (IoError ''source must be a non-symlink regular file'')
      else
        bindc (sys (open_file w)) (\<lambda>_.
        bindc (sys (handle_meta w)) (\<lambda>actual.
        if is_file actual \<and> \<not> is_symlink actual \<and> file_len actual = file_len expected
           \<and> modified_ns actual = modified_ns expected
           \<and> file_dev actual = file_dev expected \<and> file_ino actual = file_ino expected
        then ret ()
        else fail (IoError ''source changed or became non-regular while opening''))))"

definition take_stamp :: "world \<Rightarrow> stability_stamp icomp" where
  "take_stamp w =
     bindc (sys (handle_meta w)) (\<lambda>m.
     if \<not> is_file m \<or> is_symlink m then fail (IoError ''stability handle is not a regular file'')
     else
       case file_modified m of
         None \<Rightarrow> fail (IoError ''modification time unsupported'')
       | Some t \<Rightarrow> ret \<lparr>stamp_object = (file_dev m, file_ino m), stamp_bytes = file_len m, stamp_modified = t,
           stamp_changed = file_ctime m * 1000000000 + file_ctime_nsec m\<rparr>)"

definition qualified_apfs_mount :: "byte list \<Rightarrow> bool \<Rightarrow> bool" where
  "qualified_apfs_mount name local \<longleftrightarrow> local \<and> name = ascii ''apfs''"

definition qualified_unix_file :: "world \<Rightarrow> bool icomp" where
  "qualified_unix_file w =
     (if macos w then
        bindc (sys (\<lambda>i. Inr (file_system w i))) (\<lambda>info.
        case info of
          None \<Rightarrow> ret False
        | Some (name, local) \<Rightarrow>
            (case position (\<lambda>c. c = 0) name of
               None \<Rightarrow> ret False
             | Some n \<Rightarrow> ret (qualified_apfs_mount (take n name) local)))
      else ret False)"

definition open_stable :: "world \<Rightarrow> file_meta \<Rightarrow> bool \<Rightarrow> bool icomp" where
  "open_stable w expected conservative =
     bindc (open_regular w expected) (\<lambda>_.
     if conservative then ret False else qualified_unix_file w)"

section \<open>Hashing\<close>

definition counted_read :: "world \<Rightarrow> nat \<Rightarrow> byte list icomp" where
  "counted_read w k =
     bindc (check_canceled w) (\<lambda>_.
     bindc (getc file_pos) (\<lambda>p.
     bindc (sys (\<lambda>i. read_file w i p (min k 65536))) (\<lambda>b.
     bindc (modc (\<lambda>s. s\<lparr>file_pos := p + length b, hash_bytes := hash_bytes s + length b\<rparr>)) (\<lambda>_.
     ret b))))"

definition hash_block :: "world \<Rightarrow> nat \<times> byte list \<Rightarrow> (nat \<times> byte list + nat \<times> byte list) icomp" where
  "hash_block w = (\<lambda>(remaining, fed).
     if remaining \<noteq> 0 then
       bindc (counted_read w (min remaining 65536)) (\<lambda>b.
       if length b = 0 then ret (Inr (remaining, fed))
       else ret (Inl (remaining - length b, fed @ b)))
     else ret (Inr (remaining, fed)))"

definition hash_file :: "world \<Rightarrow> nat \<Rightarrow> (string \<times> bool) icomp" where
  "hash_file w len =
     bindc (sys (seek_start w)) (\<lambda>_.
     bindc (modc (file_pos_update (\<lambda>_. 0))) (\<lambda>_.
     bindc (loopc (Suc len) (ParserCrashed OutOfFuel) (hash_block w) (len, [])) (\<lambda>(remaining, fed).
     bindc (counted_read w 1) (\<lambda>extra.
     ret (digest w fed, remaining = 0 \<and> extra = [])))))"

definition hash_pass :: "world \<Rightarrow> nat \<Rightarrow> (string \<times> bool) icomp" where
  "hash_pass w len =
     bindc (modc (whole_file_hash_passes_update Suc)) (\<lambda>_. hash_file w len)"

section \<open>Inspection\<close>

text \<open>Running the parser: a failure is one more issue, what was recovered stays.\<close>

definition run_parser :: "world \<Rightarrow> limits \<Rightarrow> bool \<Rightarrow> nat \<Rightarrow> parser icomp" where
  "run_parser w lim side len = (\<lambda>s.
     let (r, p) = (if side then sidecar else photo) (parser_new (parser_env w (calls s)) len lim);
         s' = s\<lparr>calls := Suc (calls s)\<rparr> in
     case r of
       Inr _ \<Rightarrow> (Inr p, s')
     | Inl (Failed f) \<Rightarrow> (Inr (snd (record_issue f p)), s')
     | Inl e \<Rightarrow> (Inl (ParserCrashed e), s'))"

definition differs :: "stability_stamp option \<Rightarrow> stability_stamp option \<Rightarrow> bool" where
  "differs p q = (case (p, q) of (Some a, Some b) \<Rightarrow> a \<noteq> b | _ \<Rightarrow> False)"

definition stamp_if :: "bool \<Rightarrow> stability_stamp icomp \<Rightarrow> stability_stamp option icomp" where
  "stamp_if b m = (if b then okc m else ret None)"

definition path_stamp :: "world \<Rightarrow> file_meta \<Rightarrow> stability_stamp icomp" where
  "path_stamp w current = bindc (open_regular w current) (\<lambda>_. take_stamp w)"

definition status_order :: "xstatus list" where
  "status_order = [SourceChanged, ResourceLimit, Malformed, Unsupported]"

definition overall_status :: "issue list \<Rightarrow> packet list \<Rightarrow> xstatus" where
  "overall_status is ps =
     (case find (\<lambda>st. list_ex (\<lambda>i. issue_status i = st) is) status_order of
        Some st \<Rightarrow> st
      | None \<Rightarrow> if ps = [] then Absent else Complete)"

definition changed_issue :: issue where
  "changed_issue = \<lparr>issue_status = SourceChanged, issue_offset = None,
     issue_message = ''source changed during inspection; packets are not a committed revision''\<rparr>"

definition oversized :: "source_revision \<Rightarrow> inspection" where
  "oversized rv = \<lparr>revision = rv, inspection_status = ResourceLimit, inspection_packets = [], inspection_inputs = [],
     inspection_issues = [\<lparr>issue_status = ResourceLimit, issue_offset = None,
       issue_message = ''source byte limit exceeded; digest not computed''\<rparr>]\<rparr>"

definition observations_agree :: "file_meta \<Rightarrow> file_meta \<Rightarrow> file_meta \<Rightarrow> file_meta \<Rightarrow> bool" where
  "observations_agree path_before before after current \<longleftrightarrow>
     \<not> is_symlink current
     \<and> file_len path_before = file_len before \<and> modified_ns path_before = modified_ns before
     \<and> file_len before = file_len after \<and> modified_ns before = modified_ns after
     \<and> file_len current = file_len after \<and> modified_ns current = modified_ns after
     \<and> file_dev before = file_dev current \<and> file_ino before = file_ino current
     \<and> file_dev before = file_dev path_before \<and> file_ino before = file_ino path_before"

definition finish :: "source_revision \<Rightarrow> parser \<Rightarrow> bool \<Rightarrow> inspection" where
  "finish rv p same =
     (let is = issues p @ (if same then [] else [changed_issue]) in
      \<lparr>revision = rv, inspection_status = overall_status is (packets p), inspection_packets = packets p,
       inspection_inputs = inputs p, inspection_issues = is\<rparr>)"

text \<open>
  After the parse: the second observation of the source, and a second hash unless the first
  proof of stability was established; the result says whether the source held still.
\<close>

definition verify_source ::
  "world \<Rightarrow> (string \<Rightarrow> unit icomp) \<Rightarrow> bool \<Rightarrow> file_meta \<Rightarrow> file_meta \<Rightarrow> stability_stamp option
    \<Rightarrow> stability_stamp option \<Rightarrow> string \<times> bool \<Rightarrow> bool icomp" where
  "verify_source w checkpoint eligible path_before before proof' hash_stamp = (\<lambda>(initial_hash, initial_length_matches).
     bindc (stamp_if (proof' \<noteq> None) (take_stamp w)) (\<lambda>after_stamp.
     bindc (sys (path_meta w)) (\<lambda>current1.
     bindc (stamp_if (proof' \<noteq> None) (path_stamp w current1)) (\<lambda>pstamp.
     let changed1 = differs proof' hash_stamp \<or> differs proof' after_stamp \<or> differs proof' pstamp;
         established = eligible \<and> proof' \<noteq> None \<and> hash_stamp \<noteq> None \<and> after_stamp \<noteq> None \<and> pstamp \<noteq> None in
     bindc (if established
            then bindc (modc (verification_update (\<lambda>_. ''held_object_local_apfs_change_stamp''))) (\<lambda>_. ret (initial_hash, True))
            else bindc (modc (verification_update (\<lambda>_. ''conservative_full_rehash''))) (\<lambda>_.
                 hash_pass w (file_len before))) (\<lambda>(after_hash, final_length_matches).
     bindc (if established then ret () else checkpoint ''after_fallback_hash'') (\<lambda>_.
     bindc (sys (handle_meta w)) (\<lambda>after.
     bindc (sys (path_meta w)) (\<lambda>current.
     bindc (if established then ret changed1
            else
              bindc (okc (take_stamp w)) (\<lambda>final_stamp.
              bindc (okc (path_stamp w current)) (\<lambda>final_path_stamp.
              ret (changed1 \<or> differs proof' final_stamp \<or> differs proof' final_path_stamp)))) (\<lambda>changed.
     ret (\<not> changed \<and> initial_length_matches \<and> final_length_matches
       \<and> initial_hash = after_hash \<and> observations_agree path_before before after current))))))))))"

text \<open>The inspection of a source within the limit, once it is open.\<close>

definition inspect_opened ::
  "world \<Rightarrow> (string \<Rightarrow> unit icomp) \<Rightarrow> limits \<Rightarrow> bool \<Rightarrow> bool \<Rightarrow> file_meta \<Rightarrow> file_meta
    \<Rightarrow> stability_stamp option \<Rightarrow> inspection icomp" where
  "inspect_opened w checkpoint lim side eligible path_before before proof' =
     bindc (hash_pass w (file_len before)) (\<lambda>(initial_hash, initial_length_matches).
     bindc (checkpoint ''after_hash'') (\<lambda>_.
     bindc (stamp_if (proof' \<noteq> None) (take_stamp w)) (\<lambda>hash_stamp.
     bindc (run_parser w lim side (file_len before)) (\<lambda>p.
     bindc (checkpoint ''after_parse'') (\<lambda>_.
     bindc (verify_source w checkpoint eligible path_before before proof' hash_stamp
              (initial_hash, initial_length_matches)) (\<lambda>same.
     ret (finish \<lparr>revision_length = file_len before, revision_blake3 = initial_hash,
            revision_modified = modified_ns before\<rparr> p same)))))))"

definition inspect_controlled :: "world \<Rightarrow> (string \<Rightarrow> unit icomp) \<Rightarrow> limits \<Rightarrow> bool \<Rightarrow> bool \<Rightarrow> inspection icomp" where
  "inspect_controlled w checkpoint lim side conservative =
     bindc (check_canceled w) (\<lambda>_.
     bindc (sys (path_meta w)) (\<lambda>path_before.
     bindc (open_stable w path_before conservative) (\<lambda>eligible.
     bindc (sys (handle_meta w)) (\<lambda>before.
     bindc (okc (take_stamp w)) (\<lambda>proof'.
     if file_len before > max_source_bytes lim
     then
       bindc (modc (verification_update (\<lambda>_. ''not_attempted_source_limit''))) (\<lambda>_.
       ret (oversized \<lparr>revision_length = file_len before, revision_blake3 = [], revision_modified = modified_ns before\<rparr>))
     else inspect_opened w checkpoint lim side eligible path_before before proof')))))"

text \<open>The public entries: \<open>inspect\<close> and \<open>inspect_sidecar\<close>, and the cancellable one.\<close>

definition inspect_observed :: "world \<Rightarrow> limits \<Rightarrow> bool \<Rightarrow> bool \<Rightarrow> inspection icomp" where
  "inspect_observed w lim side conservative =
     inspect_controlled (w\<lparr>cancel_flag := None\<rparr>) (\<lambda>_. ret ()) lim side conservative"

definition inspect :: "world \<Rightarrow> limits \<Rightarrow> inspection icomp" where
  "inspect w lim = inspect_observed w lim False False"

definition inspect_sidecar :: "world \<Rightarrow> limits \<Rightarrow> inspection icomp" where
  "inspect_sidecar w lim = inspect_observed w lim True False"

definition inspect_cancellable :: "world \<Rightarrow> (nat \<Rightarrow> bool) \<Rightarrow> limits \<Rightarrow> bool \<Rightarrow> inspection icomp" where
  "inspect_cancellable w cancel lim side =
     (let w' = w\<lparr>cancel_flag := Some cancel\<rparr> in
      catchc (inspect_controlled w' (\<lambda>_. check_canceled w') lim side False) (\<lambda>r.
      bindc (check_canceled w') (\<lambda>_.
      case r of Inl e \<Rightarrow> fail e | Inr x \<Rightarrow> ret x)))"

end
