(* ===== verification/XMP_Inspect_Properties.thy ===== *)
theory XMP_Inspect_Properties
  imports XMP_Inspect XMP_Properties
begin

text \<open>
  The properties of an inspection. An accepted revision is bracketed by agreeing observations
  of the path and the open file; a source that does hold still is accepted, with the digest
  of its bytes and packets that are slices of them.
\<close>

section \<open>Calls only go forward\<close>

lemma sys_Inr [simp]: "sys f s = (Inr x, t) \<longleftrightarrow> f (calls s) = Inr x \<and> t = s\<lparr>calls := Suc (calls s)\<rparr>"
  by (auto simp: sys_def map_err_def split: sum.splits)

abbreviation (input) from_call :: "nat \<Rightarrow> inspect_state \<Rightarrow> bool" where
  "from_call n s \<equiv> n \<le> calls s"

lemma keeps_sys [keeps_intros]: "keeps (from_call n) (sys f)"
  by (simp add: keeps_def sys_def)

lemma keeps_okc [keeps_intros]: "keeps I m \<Longrightarrow> keeps I (okc m)"
  unfolding okc_def by (intro keeps_intros) (auto split: sum.splits intro: keeps_intros)

lemma keeps_option [keeps_intros]:
  "(v = None \<Longrightarrow> keeps I m) \<Longrightarrow> (\<And>x. v = Some x \<Longrightarrow> keeps I (f x)) \<Longrightarrow>
     keeps I (case v of None \<Rightarrow> m | Some x \<Rightarrow> f x)"
  by (cases v) auto

lemma keeps_prod [keeps_intros]: "(\<And>a b. p = (a, b) \<Longrightarrow> keeps I (f a b)) \<Longrightarrow> keeps I (case p of (a, b) \<Rightarrow> f a b)"
  by (cases p) auto

lemma keeps_let [keeps_intros]: "(\<And>x. x = a \<Longrightarrow> keeps I (f x)) \<Longrightarrow> keeps I (Let a f)"
  by simp

lemma keeps_loopc [keeps_intros]: "(\<And>i. keeps I (body i)) \<Longrightarrow> keeps I (loopc fuel e body i)"
  by (induction fuel arbitrary: i) (auto intro!: keeps_intros split: sum.splits)

lemma keeps_calls_modc [keeps_intros]:
  "keeps (from_call n) (modc (verification_update f))"
  "keeps (from_call n) (modc (whole_file_hash_passes_update g))"
  "keeps (from_call n) (modc (file_pos_update h))"
  "keeps (from_call n) (modc (\<lambda>s. s\<lparr>file_pos := p, hash_bytes := hash_bytes s + k\<rparr>))"
  by (simp_all add: keeps_def)

lemma keeps_check_canceled [keeps_intros]: "keeps (from_call n) (check_canceled w)"
  unfolding check_canceled_def by (intro keeps_intros)

lemma keeps_take_stamp [keeps_intros]: "keeps (from_call n) (take_stamp w)"
  unfolding take_stamp_def by (intro keeps_intros)

lemma keeps_open_regular [keeps_intros]: "keeps (from_call n) (open_regular w m)"
  unfolding open_regular_def by (intro keeps_intros)

lemma keeps_open_stable [keeps_intros]: "keeps (from_call n) (open_stable w m c)"
  unfolding open_stable_def qualified_unix_file_def by (intro keeps_intros)

lemma keeps_path_stamp [keeps_intros]: "keeps (from_call n) (path_stamp w m)"
  unfolding path_stamp_def by (intro keeps_intros)

lemma keeps_stamp_if [keeps_intros]: "keeps I m \<Longrightarrow> keeps I (stamp_if b m)"
  unfolding stamp_if_def by (intro keeps_intros)

lemma keeps_counted_read [keeps_intros]: "keeps (from_call n) (counted_read w k)"
  unfolding counted_read_def by (intro keeps_intros)

lemma keeps_hash_pass [keeps_intros]: "keeps (from_call n) (hash_pass w len)"
  unfolding hash_pass_def hash_file_def hash_block_def by (intro keeps_intros)

lemma keeps_run_parser [keeps_intros]: "keeps (from_call n) (run_parser w lim side len)"
  by (auto simp: keeps_def run_parser_def Let_def split: prod.splits sum.splits perror.splits)

text \<open>The calls of a step that succeeded lie before what follows.\<close>

lemma calls_le: "(\<And>n. keeps (from_call n) m) \<Longrightarrow> m s = (r, t) \<Longrightarrow> calls s \<le> calls t"
  unfolding keeps_def by (metis order_refl snd_conv)

section \<open>Hashing\<close>

definition bounded_reads :: "world \<Rightarrow> bool" where
  "bounded_reads w \<longleftrightarrow> (\<forall>i p k b. read_file w i p k = Inr b \<longrightarrow> length b \<le> k)"

lemma counted_read_length:
  "bounded_reads w \<Longrightarrow> counted_read w k s = (Inr b, t) \<Longrightarrow> length b \<le> k"
  unfolding bounded_reads_def counted_read_def
  by (auto simp: bindc_Inr_iff) (meson min.bounded_iff order_trans)

text \<open>
  What a sequence of reads delivers from position \<open>p\<close> on: each read is given by the number of
  its call and the number of bytes it asks for, and continues where the last one ended.
\<close>

fun delivered :: "world \<Rightarrow> nat \<Rightarrow> (nat \<times> nat) list \<Rightarrow> byte list option" where
  "delivered w p [] = Some []"
| "delivered w p ((i, k) # rs) =
     (case read_file w i p k of
        Inl e \<Rightarrow> None
      | Inr b \<Rightarrow> map_option (\<lambda>rest. b @ rest) (delivered w (p + length b) rs))"

text \<open>
  One pass over the file between the calls \<open>a\<close> and \<open>b\<close>: reads that deliver \<open>fed\<close> from the start,
  then a read that meets the end of the file, all numbered upwards after \<open>a\<close> and before \<open>b\<close>.
\<close>

definition one_pass :: "world \<Rightarrow> nat \<Rightarrow> nat \<Rightarrow> byte list \<Rightarrow> bool" where
  "one_pass w a b fed \<longleftrightarrow> (\<exists>rs e. delivered w 0 rs = Some fed \<and> read_file w e (length fed) 1 = Inr []
     \<and> sorted_wrt (<) (a # map fst rs @ [e, b]))"

lemma check_canceled_Inr: "check_canceled w s = (Inr u, t) \<Longrightarrow> calls s \<le> calls t \<and> file_pos t = file_pos s"
  by (auto simp: check_canceled_def bindc_Inr_iff split: option.splits if_splits)

lemma counted_read_Inr:
  assumes "counted_read w k s = (Inr b, t)"
  shows "\<exists>i. calls s \<le> i \<and> i < calls t \<and> read_file w i (file_pos s) (min k 65536) = Inr b
    \<and> file_pos t = file_pos s + length b"
  using assms unfolding counted_read_def by (auto simp: bindc_Inr_iff dest!: check_canceled_Inr)

lemma hash_loop_reads:
  assumes "bounded_reads w" "loopc fuel e (hash_block w) (remaining, fed) s = (Inr (left, out), t)"
  shows "\<exists>rs b. out = fed @ b \<and> left + length b = remaining \<and> delivered w (file_pos s) rs = Some b
    \<and> sorted_wrt (<) (map fst rs) \<and> (\<forall>i \<in> fst ` set rs. calls s \<le> i \<and> i < calls t)
    \<and> file_pos t = file_pos s + length b \<and> calls s \<le> calls t"
  using assms(2)
proof (induction fuel arbitrary: remaining fed s)
  case (Suc fuel)
  show ?case
  proof (cases "remaining = 0")
    case True
    with Suc.prems show ?thesis by (intro exI [of _ "[]"]) (simp add: hash_block_def)
  next
    case False
    with Suc.prems obtain b u where b: "counted_read w (min remaining 65536) s = (Inr b, u)"
      and next': "b \<noteq> [] \<longrightarrow> loopc fuel e (hash_block w) (remaining - length b, fed @ b) u = (Inr (left, out), t)"
      "b = [] \<longrightarrow> left = remaining \<and> out = fed \<and> t = u"
      by (auto simp: hash_block_def bindc_Inr_iff split: if_splits)
    obtain i where i: "calls s \<le> i" "i < calls u" "read_file w i (file_pos s) (min (min remaining 65536) 65536) = Inr b"
      "file_pos u = file_pos s + length b" using counted_read_Inr [OF b] by blast
    show ?thesis
    proof (cases "b = []")
      case True
      with next' i show ?thesis by (intro exI [of _ "[]"]) simp
    next
      case False
      obtain rs c where rest: "out = (fed @ b) @ c" "left + length c = remaining - length b"
        "delivered w (file_pos u) rs = Some c" "sorted_wrt (<) (map fst rs)"
        "\<forall>j \<in> fst ` set rs. calls u \<le> j \<and> j < calls t" "file_pos t = file_pos u + length c" "calls u \<le> calls t"
        using Suc.IH next'(1) False by blast
      have "length b \<le> remaining" using counted_read_length [OF assms(1) b] by simp
      with i rest show ?thesis
        by (intro exI [of _ "(i, min (min remaining 65536) 65536) # rs"] exI [of _ "b @ c"]) fastforce
    qed
  qed
qed simp

lemma hash_pass_reads:
  assumes "bounded_reads w" "hash_pass w len s = (Inr (h, ok), t)"
  shows "\<exists>fed. h = digest w fed \<and> (ok \<longrightarrow> length fed = len \<and> (\<forall>a b. a < calls s \<longrightarrow> calls t \<le> b \<longrightarrow> one_pass w a b fed))"
proof -
  obtain u left fed v extra where seek: "calls u = Suc (calls s)" "file_pos u = 0"
    and loop: "loopc (Suc len) (ParserCrashed OutOfFuel) (hash_block w) (len, []) u = (Inr (left, fed), v)"
    and probe: "counted_read w 1 v = (Inr extra, t)" and h: "h = digest w fed" "ok \<longleftrightarrow> left = 0 \<and> extra = []"
    using assms(2) unfolding hash_pass_def hash_file_def
    by (clarsimp simp: bindc_Inr_iff simp del: loopc.simps) (rule that [rotated 2], assumption, simp_all)
  obtain rs where rs: "left + length fed = len" "delivered w 0 rs = Some fed" "sorted_wrt (<) (map fst rs)"
    "\<forall>i \<in> fst ` set rs. calls u \<le> i \<and> i < calls v" "file_pos v = length fed" "calls u \<le> calls v"
    using hash_loop_reads [OF assms(1) loop] seek(2) by auto
  obtain e where e: "calls v \<le> e" "e < calls t" "read_file w e (length fed) 1 = Inr extra"
    using counted_read_Inr [OF probe] rs(5) by auto
  have "one_pass w a b fed" if "a < calls s" "calls t \<le> b" ok for a b
    unfolding one_pass_def using rs e seek(1) h(2) that
    by (intro exI [of _ rs] exI [of _ e]) (fastforce simp: sorted_wrt_append)
  with h rs(1) show ?thesis by (intro exI [of _ fed]) auto
qed

section \<open>Accepted revisions\<close>

lemma bindc_from:
  assumes "bindc m f s = (Inr y, t)" "\<And>n. keeps (from_call n) m"
  obtains x u where "m s = (Inr x, u)" "calls s \<le> calls u" "f x u = (Inr y, t)"
  using assms calls_le [OF assms(2)] by (auto simp: bindc_Inr_iff)

text \<open>The stability stamp that call \<open>i\<close> on an open file shows.\<close>

definition stamp_of :: "file_meta \<Rightarrow> stability_stamp option" where
  "stamp_of m = map_option (\<lambda>t. \<lparr>stamp_object = (file_dev m, file_ino m), stamp_bytes = file_len m, stamp_modified = t,
     stamp_changed = file_ctime m * 1000000000 + file_ctime_nsec m\<rparr>) (file_modified m)"

definition shows_stamp :: "world \<Rightarrow> stability_stamp \<Rightarrow> nat \<Rightarrow> bool" where
  "shows_stamp w x i \<longleftrightarrow> (\<exists>m. handle_meta w i = Inr m \<and> is_file m \<and> \<not> is_symlink m \<and> stamp_of m = Some x)"

lemma take_stamp_Inr:
  "take_stamp w s = (Inr x, t) \<Longrightarrow> shows_stamp w x (calls s) \<and> t = s\<lparr>calls := Suc (calls s)\<rparr>"
  by (auto simp: take_stamp_def shows_stamp_def stamp_of_def bindc_Inr_iff split: if_splits option.splits)

lemma okc_Some: "okc m s = (Inr (Some x), t) \<Longrightarrow> m s = (Inr x, t)"
  by (auto simp: okc_def catchc_def split: prod.splits sum.splits)

lemma stamp_if_Some: "stamp_if b m s = (Inr (Some x), t) \<Longrightarrow> b \<and> m s = (Inr x, t)"
  by (auto simp: stamp_if_def dest: okc_Some split: if_splits)

lemma path_stamp_Inr:
  assumes "path_stamp w m s = (Inr x, t)"
  shows "\<exists>i. calls s \<le> i \<and> i < calls t \<and> shows_stamp w x i"
proof -
  obtain u where "calls s \<le> calls u" "take_stamp w u = (Inr x, t)"
    using assms unfolding path_stamp_def by (elim bindc_from) (intro keeps_intros)
  with take_stamp_Inr show ?thesis by fastforce
qed

lemma open_stable_True: "open_stable w m c s = (Inr True, t) \<Longrightarrow> \<not> c \<and> macos w"
  by (auto simp: open_stable_def qualified_unix_file_def bindc_Inr_iff split: if_splits)

text \<open>The four stamps of a source whose second hash is left out.\<close>

definition stamps_held :: "world \<Rightarrow> stability_stamp \<Rightarrow> nat list \<Rightarrow> bool" where
  "stamps_held w x is \<longleftrightarrow> sorted_wrt (<) is \<and> list_all (shows_stamp w x) is"

lemma verify_source_True:
  assumes "bounded_reads w" "\<And>n what. keeps (from_call n) (cp what)"
    and "verify_source w cp el pb before pr hs (h, ok) s = (Inr True, t)"
  shows "ok \<and> (\<exists>i j after current. calls s \<le> i \<and> i < j \<and> j < calls t \<and> handle_meta w i = Inr after
     \<and> path_meta w j = Inr current \<and> observations_agree pb before after current
     \<and> ((\<exists>again. (\<forall>a < calls s. one_pass w a i again) \<and> length again = file_len before \<and> digest w again = h)
        \<or> el \<and> verification t = ''held_object_local_apfs_change_stamp''
          \<and> (\<exists>x k l. pr = Some x \<and> hs = Some x \<and> calls s \<le> k \<and> l < i \<and> stamps_held w x [k, l])))"
proof -
  define E where "E as ps \<longleftrightarrow> el \<and> pr \<noteq> None \<and> hs \<noteq> None \<and> as \<noteq> None \<and> ps \<noteq> None" for as ps :: "stability_stamp option"
  define D where "D as ps \<longleftrightarrow> differs pr hs \<or> differs pr as \<or> differs pr ps" for as ps
  obtain as c u1 ps u3 u4 u5 after current where
    as: "stamp_if (pr \<noteq> None) (take_stamp w) s = (Inr as, u1)" "calls s \<le> calls u1"
    and ps: "stamp_if (pr \<noteq> None) (path_stamp w c) (u1\<lparr>calls := Suc (calls u1)\<rparr>) = (Inr ps, u3)" "Suc (calls u1) \<le> calls u3"
    and second: "(if E as ps
       then bindc (modc (verification_update (\<lambda>_. ''held_object_local_apfs_change_stamp''))) (\<lambda>_. ret (h, True))
       else bindc (modc (verification_update (\<lambda>_. ''conservative_full_rehash''))) (\<lambda>_. hash_pass w (file_len before))) u3
       = (Inr (h, True), u4)" "calls u3 \<le> calls u4"
    and wait: "(if E as ps then ret () else cp ''after_fallback_hash'') u4 = (Inr (), u5)" "calls u4 \<le> calls u5"
    and seen: "handle_meta w (calls u5) = Inr after" "path_meta w (Suc (calls u5)) = Inr current" "Suc (Suc (calls u5)) \<le> calls t"
    and last: "E as ps \<longrightarrow> \<not> D as ps \<and> t = u5\<lparr>calls := Suc (Suc (calls u5))\<rparr>"
    and agree: "ok" "observations_agree pb before after current"
    using assms(3) unfolding verify_source_def Let_def prod.case E_def [symmetric] D_def [symmetric]
    apply -
    apply (erule bindc_from, intro keeps_intros assms(2))+
    apply (simp only: split_paired_all prod.case)
    apply (erule bindc_from, intro keeps_intros assms(2))+
    apply (clarsimp simp del: not_None_eq)
    apply (rule that, assumption+)
    by (simp_all split: if_splits)
  have obs: "calls s \<le> calls u5 \<and> calls u5 < Suc (calls u5) \<and> Suc (calls u5) < calls t \<and> handle_meta w (calls u5) = Inr after
      \<and> path_meta w (Suc (calls u5)) = Inr current \<and> observations_agree pb before after current"
    using as(2) ps(2) second(2) wait(2) seen agree(2) by auto
  show ?thesis
  proof (cases "E as ps")
    case True
    then obtain x y z where some: "el" "pr = Some x" "as = Some y" "ps = Some z" unfolding E_def by auto
    then have same: "hs = Some x" "y = x" "z = x" using True last by (auto simp: E_def D_def differs_def)
    have k: "shows_stamp w x (calls s)" "calls u1 = Suc (calls s)"
      using take_stamp_Inr [of w s x u1] stamp_if_Some as(1) some(3) same(2) by auto
    obtain l where l: "Suc (calls u1) \<le> l" "l < calls u3" "shows_stamp w x l"
      using path_stamp_Inr [of w c "u1\<lparr>calls := Suc (calls u1)\<rparr>" x u3] stamp_if_Some ps(1) some(4) same(3) by fastforce
    have v: "calls u4 = calls u3" "verification t = ''held_object_local_apfs_change_stamp''" "u5 = u4"
      using True second(1) wait last by auto
    then have "stamps_held w x [calls s, l]" "l < calls u5" using k l by (simp_all add: stamps_held_def)
    with obs agree(1) some same v(2) show ?thesis by blast
  next
    case False
    then have "hash_pass w (file_len before) (u3\<lparr>verification := ''conservative_full_rehash''\<rparr>) = (Inr (h, True), u4)"
      using second(1) by simp
    from hash_pass_reads [OF assms(1) this] obtain again where "h = digest w again" "length again = file_len before"
      "\<forall>a b. a < calls u3 \<longrightarrow> calls u4 \<le> b \<longrightarrow> one_pass w a b again" by auto
    moreover from this have "\<forall>a < calls s. one_pass w a (calls u5) again" using as(2) ps(2) wait(2) by auto
    ultimately show ?thesis using obs agree(1) by blast
  qed
qed

lemma status_accepted: "inspection_status (finish rv p same) \<noteq> SourceChanged \<Longrightarrow> same"
  by (auto simp: finish_def overall_status_def status_order_def changed_issue_def Let_def split: if_splits)

lemma run_parser_at:
  assumes "run_parser w lim side len s = (Inr p, t)"
  shows "fst (run_parser w lim side len (inspect_start\<lparr>calls := calls s\<rparr>)) = Inr p" "calls t = Suc (calls s)"
  using assms by (cases side; auto simp: run_parser_def Let_def split: prod.splits sum.splits perror.splits)+

lemma one_pass_less: "one_pass w a b fed \<Longrightarrow> a < b"
  by (auto simp: one_pass_def)

lemma inspect_opened_accepted:
  assumes "bounded_reads w" "\<And>n what. keeps (from_call n) (cp what)"
    and run: "inspect_opened w cp lim side el pb before pr s = (Inr r, t)" and accepted: "inspection_status r \<noteq> SourceChanged"
  shows "\<exists>q i j after current p fed. (\<forall>a < calls s. one_pass w a q fed) \<and> q < i \<and> i < j \<and> j < calls t
     \<and> handle_meta w i = Inr after \<and> path_meta w j = Inr current \<and> observations_agree pb before after current
     \<and> revision_length (revision r) = file_len before \<and> revision_blake3 (revision r) = digest w fed \<and> length fed = file_len before
     \<and> fst (run_parser w lim side (file_len before) (inspect_start\<lparr>calls := q\<rparr>)) = Inr p
     \<and> inspection_packets r = packets p \<and> inspection_inputs r = inputs p
     \<and> ((\<exists>again. one_pass w q i again \<and> length again = file_len before \<and> digest w again = digest w fed)
        \<or> el \<and> verification t = ''held_object_local_apfs_change_stamp''
          \<and> (\<exists>x m k l. pr = Some x \<and> (\<forall>a < calls s. one_pass w a m fed) \<and> m < q \<and> q < k \<and> l < i
               \<and> stamps_held w x [m, k, l]))"
proof -
  obtain h ok s1 s2 hs s3 p s4 s5 same where
    hash: "hash_pass w (file_len before) s = (Inr (h, ok), s1)" "calls s \<le> calls s1" "calls s1 \<le> calls s2"
    and stamp: "stamp_if (pr \<noteq> None) (take_stamp w) s2 = (Inr hs, s3)" "calls s2 \<le> calls s3"
    and parse: "run_parser w lim side (file_len before) s3 = (Inr p, s4)" "calls s4 \<le> calls s5"
    and verify: "verify_source w cp el pb before pr hs (h, ok) s5 = (Inr same, t)"
    and r: "r = finish \<lparr>revision_length = file_len before, revision_blake3 = h, revision_modified = modified_ns before\<rparr> p same"
    using run unfolding inspect_opened_def
    apply -
    apply (erule bindc_from, intro keeps_intros assms(2))
    apply (simp only: split_paired_all prod.case)
    apply (erule bindc_from, intro keeps_intros assms(2))+
    by (clarsimp simp: bindc_Inr_iff simp del: not_None_eq)
  have same using status_accepted accepted r by blast
  with verify have held: "verify_source w cp el pb before pr hs (h, ok) s5 = (Inr True, t)" by simp
  let ?q = "calls s3"
  note after_parse = run_parser_at [OF parse(1)]
  obtain i j after current where ok and obs: "calls s5 \<le> i" "i < j" "j < calls t" "handle_meta w i = Inr after"
    "path_meta w j = Inr current" "observations_agree pb before after current"
    and how: "(\<exists>again. (\<forall>a < calls s5. one_pass w a i again) \<and> length again = file_len before \<and> digest w again = h)
      \<or> el \<and> verification t = ''held_object_local_apfs_change_stamp''
        \<and> (\<exists>x k l. pr = Some x \<and> hs = Some x \<and> calls s5 \<le> k \<and> l < i \<and> stamps_held w x [k, l])"
    using verify_source_True [where cp = cp, OF assms(1,2) held] by blast
  obtain fed where fed: "h = digest w fed" "length fed = file_len before"
    "\<And>a b. a < calls s \<Longrightarrow> calls s1 \<le> b \<Longrightarrow> one_pass w a b fed"
    using hash_pass_reads [OF assms(1) hash(1)] \<open>ok\<close> by blast
  have q: "?q < calls s5" using after_parse(2) parse(2) by simp
  have fields: "revision_length (revision r) = file_len before" "revision_blake3 (revision r) = digest w fed"
    "inspection_packets r = packets p" "inspection_inputs r = inputs p"
    by (simp_all add: r fed(1) finish_def Let_def)
  have how': "(\<exists>again. one_pass w ?q i again \<and> length again = file_len before \<and> digest w again = digest w fed)
      \<or> el \<and> verification t = ''held_object_local_apfs_change_stamp''
        \<and> (\<exists>x m k l. pr = Some x \<and> (\<forall>a < calls s. one_pass w a m fed) \<and> m < ?q \<and> ?q < k \<and> l < i
             \<and> stamps_held w x [m, k, l])"
    using how
  proof (elim disjE exE conjE)
    fix x k l
    assume "el" "verification t = ''held_object_local_apfs_change_stamp''" and x: "pr = Some x" "hs = Some x"
      and kl: "calls s5 \<le> k" "l < i" "stamps_held w x [k, l]"
    have m: "shows_stamp w x (calls s2)" "?q = Suc (calls s2)"
      using take_stamp_Inr [of w s2 x s3] stamp_if_Some stamp(1) x(2) by auto
    then have "stamps_held w x [calls s2, k, l]" using kl q by (auto simp: stamps_held_def)
    moreover have "\<forall>a < calls s. one_pass w a (calls s2) fed" using fed(3) hash(3) by blast
    ultimately show ?thesis using \<open>el\<close> \<open>verification t = _\<close> x kl q m(2) by (metis less_le_trans lessI)
  qed (use fed(1) q in blast)
  have "\<forall>a < calls s. one_pass w a ?q fed" using fed(3) hash(3) stamp(2) by (meson order_trans)
  moreover have "?q < i" using q obs(1) by simp
  ultimately show ?thesis using obs(2-6) fields fed(2) after_parse(1) how' by blast
qed

text \<open>
  C13: a revision an inspection accepts is bracketed by observations that agree. In the order of
  the calls: the path is looked at, then the open file; then one pass of reads delivers the bytes
  \<open>fed\<close>, as many as the length says and up to the end of the file, and the revision's digest is
  theirs; then the parser runs, whose packets and inputs the inspection returns. Only then, and
  before the last two observations, either a second pass of reads delivers bytes of the same length
  and digest, or the stability stamps taken before the first pass, after it, and twice after the
  parse are one and the same - on a platform that qualifies, and never when the caller asked for
  the conservative way. Last, the open file and the path are looked at again, and all four
  observations show the same length, time of modification and file, the path no symbolic link at
  the end.
\<close>

theorem accepted_revision_bracketed:
  assumes "bounded_reads w" "\<And>n what. keeps (\<lambda>s. n \<le> calls s) (cp what)"
    and "inspect_controlled w cp lim side conservative s = (Inr r, t)"
    and "inspection_status r \<noteq> SourceChanged" "revision_length (revision r) \<le> max_source_bytes lim"
  shows "\<exists>i1 i2 q i3 i4 m1 m2 m3 m4 fed p. calls s \<le> i1 \<and> i1 < i2 \<and> one_pass w i2 q fed \<and> q < i3 \<and> i3 < i4 \<and> i4 < calls t
     \<and> path_meta w i1 = Inr m1 \<and> handle_meta w i2 = Inr m2 \<and> handle_meta w i3 = Inr m3 \<and> path_meta w i4 = Inr m4
     \<and> observations_agree m1 m2 m3 m4
     \<and> revision_length (revision r) = file_len m2 \<and> revision_blake3 (revision r) = digest w fed \<and> length fed = file_len m2
     \<and> fst (run_parser w lim side (file_len m2) (inspect_start\<lparr>calls := q\<rparr>)) = Inr p
     \<and> inspection_packets r = packets p \<and> inspection_inputs r = inputs p
     \<and> ((\<exists>again. one_pass w q i3 again \<and> length again = file_len m2 \<and> digest w again = digest w fed)
        \<or> \<not> conservative \<and> macos w \<and> verification t = ''held_object_local_apfs_change_stamp''
          \<and> (\<exists>x j1 j2 j3 j4. i2 < j1 \<and> one_pass w j1 j2 fed \<and> j2 < q \<and> q < j3 \<and> j4 < i3
               \<and> stamps_held w x [j1, j2, j3, j4]))"
proof -
  obtain m1 m2 el pr u1 u2 u3 where
    first: "calls s \<le> calls u1" "path_meta w (calls u1) = Inr m1"
    and opened: "open_stable w m1 conservative (u1\<lparr>calls := Suc (calls u1)\<rparr>) = (Inr el, u2)" "Suc (calls u1) \<le> calls u2"
    and second: "handle_meta w (calls u2) = Inr m2"
    and stamp: "okc (take_stamp w) (u2\<lparr>calls := Suc (calls u2)\<rparr>) = (Inr pr, u3)" "Suc (calls u2) \<le> calls u3"
    and rest: "(if file_len m2 > max_source_bytes lim
       then bindc (modc (verification_update (\<lambda>_. ''not_attempted_source_limit''))) (\<lambda>_.
         ret (oversized \<lparr>revision_length = file_len m2, revision_blake3 = [], revision_modified = modified_ns m2\<rparr>))
       else inspect_opened w cp lim side el m1 m2 pr) u3 = (Inr r, t)"
    using assms(3) unfolding inspect_controlled_def
    apply -
    apply (erule bindc_from, intro keeps_intros)+
    apply (simp only: sys_Inr)
    apply (elim conjE)
    apply (rule that)
    by auto
  have "\<not> file_len m2 > max_source_bytes lim"
    using rest assms(5) by (auto simp: oversized_def split: if_splits)
  with rest have "inspect_opened w cp lim side el m1 m2 pr u3 = (Inr r, t)" by simp
  from inspect_opened_accepted [OF assms(1,2) this assms(4)] obtain q i j after current p fed where
    pass: "\<forall>a < calls u3. one_pass w a q fed" and order: "q < i" "i < j" "j < calls t"
    and last: "handle_meta w i = Inr after" "path_meta w j = Inr current" "observations_agree m1 m2 after current"
    and rv: "revision_length (revision r) = file_len m2" "revision_blake3 (revision r) = digest w fed" "length fed = file_len m2"
    and parsed: "fst (run_parser w lim side (file_len m2) (inspect_start\<lparr>calls := q\<rparr>)) = Inr p"
      "inspection_packets r = packets p" "inspection_inputs r = inputs p"
    and how: "(\<exists>again. one_pass w q i again \<and> length again = file_len m2 \<and> digest w again = digest w fed)
      \<or> el \<and> verification t = ''held_object_local_apfs_change_stamp''
        \<and> (\<exists>x m k l. pr = Some x \<and> (\<forall>a < calls u3. one_pass w a m fed) \<and> m < q \<and> q < k \<and> l < i
             \<and> stamps_held w x [m, k, l])" by blast
  have "(\<exists>again. one_pass w q i again \<and> length again = file_len m2 \<and> digest w again = digest w fed)
      \<or> \<not> conservative \<and> macos w \<and> verification t = ''held_object_local_apfs_change_stamp''
        \<and> (\<exists>x j1 j2 j3 j4. calls u2 < j1 \<and> one_pass w j1 j2 fed \<and> j2 < q \<and> q < j3 \<and> j4 < i
             \<and> stamps_held w x [j1, j2, j3, j4])"
    using how
  proof (elim disjE exE conjE)
    fix x m k l
    assume "el" "verification t = ''held_object_local_apfs_change_stamp''" "pr = Some x" "m < q" "q < k" "l < i"
      and pass': "\<forall>a < calls u3. one_pass w a m fed" and held: "stamps_held w x [m, k, l]"
    have j: "shows_stamp w x (Suc (calls u2))" "calls u3 = Suc (Suc (calls u2))"
      using take_stamp_Inr okc_Some stamp(1) \<open>pr = Some x\<close> by fastforce+
    then have one: "one_pass w (Suc (calls u2)) m fed" using pass' by simp
    have "stamps_held w x [Suc (calls u2), m, k, l]"
      using held j(1) one_pass_less [OF one] by (auto simp: stamps_held_def)
    moreover have "\<not> conservative \<and> macos w" using open_stable_True [of w m1 conservative _ u2] opened(1) \<open>el\<close> by fastforce
    ultimately show ?thesis using one \<open>verification t = _\<close> \<open>m < q\<close> \<open>q < k\<close> \<open>l < i\<close> by (metis lessI)
  qed blast
  moreover have "one_pass w (calls u2) q fed" using pass stamp(2) by (simp add: Suc_le_eq)
  moreover have "calls u1 < calls u2" using opened(2) by simp
  ultimately show ?thesis using first second order last rv parsed by blast
qed

section \<open>A source that holds still\<close>

text \<open>
  The same observations at every call, and reads that deliver at least one byte until the
  end; nobody cancels. The parser's reads deliver the same bytes, any of them may still fail.
\<close>

definition holds_still :: "world \<Rightarrow> file_meta \<Rightarrow> byte list \<Rightarrow> bool" where
  "holds_still w m src \<longleftrightarrow> is_file m \<and> \<not> is_symlink m \<and> file_len m = length src \<and> cancel_flag w = None
     \<and> (\<forall>i. path_meta w i = Inr m \<and> open_file w i = Inr () \<and> handle_meta w i = Inr m \<and> seek_start w i = Inr ())
     \<and> (\<forall>i p k. \<exists>n. n \<le> k \<and> (p < length src \<longrightarrow> 0 < k \<longrightarrow> 0 < n) \<and> read_file w i p k = Inr (take n (drop p src)))"

definition parser_sees :: "world \<Rightarrow> byte list \<Rightarrow> bool" where
  "parser_sees w src \<longleftrightarrow> (\<forall>i. reads_of src (parser_env w i) \<and> blake3 (parser_env w i) = digest w)"

definition yields :: "'a icomp \<Rightarrow> ('a \<Rightarrow> bool) \<Rightarrow> bool" where
  "yields m Q \<longleftrightarrow> (\<forall>s. \<exists>x t. m s = (Inr x, t) \<and> Q x)"

lemma yields_ret: "Q x \<Longrightarrow> yields (ret x) Q"
  by (simp add: yields_def)

lemma yields_bind: "yields m (\<lambda>x. yields (f x) Q) \<Longrightarrow> yields (bindc m f) Q"
  unfolding yields_def by (metis bindc_Inr)

lemma yields_modc: "Q () \<Longrightarrow> yields (modc f) Q"
  by (simp add: yields_def)

lemma yields_sys: "(\<And>i. \<exists>x. f i = Inr x \<and> Q x) \<Longrightarrow> yields (sys f) Q"
  by (auto simp: yields_def)

lemma yields_if: "(b \<Longrightarrow> yields m Q) \<Longrightarrow> (\<not> b \<Longrightarrow> yields n Q) \<Longrightarrow> yields (if b then m else n) Q"
  by simp

lemma yields_let: "yields (f a) Q \<Longrightarrow> yields (Let a f) Q"
  by simp

lemmas yields_intros = yields_ret yields_bind yields_modc yields_let

lemma yields_okc:
  assumes "\<And>s. \<exists>r t. m s = (r, t) \<and> (case r of Inl e \<Rightarrow> v = None | Inr x \<Rightarrow> v = Some x)" "Q v"
  shows "yields (okc m) Q"
  unfolding yields_def
proof
  fix s
  from assms(1) [of s] obtain r t where "m s = (r, t)" "case r of Inl e \<Rightarrow> v = None | Inr x \<Rightarrow> v = Some x" by blast
  with assms(2) show "\<exists>x t. okc m s = (Inr x, t) \<and> Q x"
    by (cases r) (simp_all add: okc_def catchc_def)
qed

lemma still_take_stamp:
  "holds_still w m src \<Longrightarrow>
     \<exists>r t. take_stamp w s = (r, t) \<and> (case r of Inl e \<Rightarrow> stamp_of m = None | Inr x \<Rightarrow> stamp_of m = Some x)"
  by (auto simp: take_stamp_def holds_still_def sys_def map_err_def bindc_def stamp_of_def split: option.splits)

lemma still_open: "holds_still w m src \<Longrightarrow> Q () \<Longrightarrow> yields (open_regular w m) Q"
  by (auto simp: yields_def open_regular_def holds_still_def sys_def map_err_def bindc_def)

lemma still_cancel: "holds_still w m src \<Longrightarrow> Q () \<Longrightarrow> yields (check_canceled w) Q"
  by (simp add: check_canceled_def holds_still_def yields_def)

lemma still_path_meta: "holds_still w m src \<Longrightarrow> Q m \<Longrightarrow> yields (sys (path_meta w)) Q"
  by (rule yields_sys) (simp add: holds_still_def)

lemma still_handle_meta: "holds_still w m src \<Longrightarrow> Q m \<Longrightarrow> yields (sys (handle_meta w)) Q"
  by (rule yields_sys) (simp add: holds_still_def)

lemma still_path_stamp:
  assumes "holds_still w m src"
  shows "\<exists>r t. path_stamp w m s = (r, t) \<and> (case r of Inl e \<Rightarrow> stamp_of m = None | Inr x \<Rightarrow> stamp_of m = Some x)"
proof -
  obtain t where "open_regular w m s = (Inr (), t)"
    using still_open [OF assms, of "\<lambda>_. True"] unfolding yields_def by fastforce
  then show ?thesis using still_take_stamp [OF assms, of t] by (simp add: path_stamp_def bindc_Inr [where m = "open_regular w m"])
qed

lemma still_stamp: "holds_still w m src \<Longrightarrow> Q (stamp_of m) \<Longrightarrow> yields (okc (take_stamp w)) Q"
  by (rule yields_okc, rule still_take_stamp)

lemma still_pstamp: "holds_still w m src \<Longrightarrow> Q (stamp_of m) \<Longrightarrow> yields (okc (path_stamp w m)) Q"
  by (rule yields_okc, rule still_path_stamp)

lemma yields_stamp_if: "(b \<Longrightarrow> yields (okc m) Q) \<Longrightarrow> (\<not> b \<Longrightarrow> Q None) \<Longrightarrow> yields (stamp_if b m) Q"
  unfolding stamp_if_def by (simp add: yields_ret)

text \<open>The hash is fed the whole source, whatever the sizes of the reads.\<close>

lemma still_read:
  assumes "holds_still w m src" "file_pos s = p"
  shows "\<exists>n t. counted_read w k s = (Inr (take n (drop p src)), t) \<and> n \<le> k \<and> (p < length src \<longrightarrow> 0 < k \<longrightarrow> 0 < n)
     \<and> file_pos t = p + length (take n (drop p src))"
proof -
  obtain s1 where s1: "check_canceled w s = (Inr (), s1)" "file_pos s1 = p"
    using assms by (auto simp: check_canceled_def holds_still_def)
  obtain n where n: "n \<le> min k 65536" "p < length src \<longrightarrow> 0 < min k 65536 \<longrightarrow> 0 < n"
    "read_file w (calls s1) p (min k 65536) = Inr (take n (drop p src))"
    using assms(1) unfolding holds_still_def by blast
  then show ?thesis using s1
    by (intro exI [of _ n]) (auto simp: counted_read_def bindc_def sys_def map_err_def)
qed

lemma still_hash_loop:
  assumes "holds_still w m src" "p \<le> length src" "file_pos s = p" "length src - p < fuel"
  shows "\<exists>t. loopc fuel e (hash_block w) (length src - p, take p src) s = (Inr (0, src), t) \<and> file_pos t = length src"
  using assms(2-4)
proof (induction fuel arbitrary: p s)
  case (Suc fuel)
  show ?case
  proof (cases "p = length src")
    case True
    with Suc.prems show ?thesis by (simp add: hash_block_def)
  next
    case False
    then have p: "p < length src" using Suc.prems by simp
    obtain n t where n: "counted_read w (min (length src - p) 65536) s = (Inr (take n (drop p src)), t)"
      "n \<le> min (length src - p) 65536" "0 < n" "file_pos t = p + length (take n (drop p src))"
      using still_read [OF assms(1) Suc.prems(2), of "min (length src - p) 65536"] p by auto
    then have len: "length (take n (drop p src)) = n" by simp
    have "take p src @ take n (drop p src) = take (p + n) src" by (simp add: take_add)
    then have "hash_block w (length src - p, take p src) s = (Inr (Inl (length src - (p + n), take (p + n) src)), t)"
      using n(1,3) p len by (simp add: hash_block_def bindc_def)
    moreover have "\<exists>u. loopc fuel e (hash_block w) (length src - (p + n), take (p + n) src) t = (Inr (0, src), u) \<and> file_pos u = length src"
      by (rule Suc.IH) (use n len Suc.prems in auto)
    ultimately show ?thesis by (simp add: bindc_def)
  qed
qed simp

lemma still_hash_pass:
  assumes "holds_still w m src" "Q (digest w src, True)"
  shows "yields (hash_pass w (length src)) Q"
  unfolding yields_def
proof
  fix s :: inspect_state
  define s1 where "s1 = whole_file_hash_passes_update Suc s\<lparr>calls := Suc (calls s), file_pos := 0\<rparr>"
  obtain t where t: "loopc (Suc (length src)) (ParserCrashed OutOfFuel) (hash_block w) (length src, []) s1 = (Inr (0, src), t)"
    "file_pos t = length src"
    using still_hash_loop [OF assms(1), of 0 s1 "Suc (length src)"] by (auto simp: s1_def)
  obtain n u where "counted_read w 1 t = (Inr (take n (drop (length src) src)), u)"
    using still_read [OF assms(1) t(2)] by blast
  then have "hash_pass w (length src) s = (Inr (digest w src, True), u)"
    using assms(1) t(1) by (simp add: hash_pass_def hash_file_def bindc_def sys_def map_err_def holds_still_def s1_def del: loopc.simps)
  with assms(2) show "\<exists>x t. hash_pass w (length src) s = (Inr x, t) \<and> Q x" by blast
qed

lemma still_open_stable:
  assumes "holds_still w m src" "\<And>b. Q b"
  shows "yields (open_stable w m conservative) Q"
proof -
  have "yields (qualified_unix_file w) Q"
    using assms(2) by (auto simp: yields_def qualified_unix_file_def bindc_def sys_def map_err_def split: option.splits)
  then show ?thesis
    unfolding open_stable_def
    by (intro yields_bind still_open [OF assms(1)] yields_if yields_ret) (use assms in auto)
qed

lemma parser_final:
  assumes "reads_of src e" "u64_source (length src) lim"
  shows "\<exists>r p. (if side then sidecar else photo) (parser_new e (length src) lim) = (r, p)
     \<and> provenance_inv e src lim p \<and> (r = Inr () \<or> (\<exists>f. r = Inl (Failed f)))"
proof -
  let ?m = "if side then sidecar else photo"
  have new: "provenance_inv e src lim (parser_new e (length src) lim)" using assms by (rule provenance_inv_new)
  have safe: "safe (provenance_inv e src lim) ?m (\<lambda>_. True)"
    using provenance.ok_photo provenance.ok_sidecar by simp
  obtain r p where run: "?m (parser_new e (length src) lim) = (r, p)" by (cases "?m (parser_new e (length src) lim)")
  have "provenance_inv e src lim p" using safe_final [OF safe new] run by simp
  moreover have "r = Inr () \<or> (\<exists>f. r = Inl (Failed f))"
    using safe_Inl [OF safe new] run by (cases r) auto
  ultimately show ?thesis using run by blast
qed

lemma still_parser:
  assumes "parser_sees w src" "u64_source (length src) lim"
    and "\<And>i p. provenance_inv (parser_env w i) src lim p \<Longrightarrow> Q p"
  shows "yields (run_parser w lim side (length src)) Q"
  unfolding yields_def
proof
  fix s :: inspect_state
  let ?e = "parser_env w (calls s)"
  obtain r p where p: "(if side then sidecar else photo) (parser_new ?e (length src) lim) = (r, p)"
    "provenance_inv ?e src lim p" "r = Inr () \<or> (\<exists>f. r = Inl (Failed f))"
    using parser_final [OF _ assms(2), of ?e side] assms(1) unfolding parser_sees_def by blast
  have "Q p" "Q (snd (record_issue f p))" for f
    using assms(3) p(2) provenance.keeps_issues [OF p(2)] by (auto simp: record_issue_def)
  with p(1,3) show "\<exists>x t. run_parser w lim side (length src) s = (Inr x, t) \<and> Q x"
    by (auto simp: run_parser_def Let_def)
qed

lemma differs_refl [simp]: "\<not> differs v v"
  by (simp add: differs_def split: option.splits)

lemma still_verify:
  assumes "holds_still w m src" "Q True"
  shows "yields (verify_source w (\<lambda>_. ret ()) el m m (stamp_of m) (stamp_of m) (digest w src, True)) Q"
proof -
  have len: "file_len m = length src" and agree: "observations_agree m m m m"
    using assms(1) by (simp_all add: holds_still_def observations_agree_def)
  note steps = still_stamp [OF assms(1)] still_pstamp [OF assms(1)] still_path_meta [OF assms(1)]
    still_handle_meta [OF assms(1)] still_hash_pass [OF assms(1)]
  show ?thesis
    unfolding verify_source_def prod.case len
    by (intro yields_intros yields_if yields_stamp_if steps; (simp only: prod.case)?;
        (intro yields_intros yields_if yields_stamp_if steps)?; use assms(2) agree in auto)
qed

lemma still_stamp_if:
  assumes "holds_still w m src" "Q (stamp_of m)"
  shows "yields (stamp_if (stamp_of m \<noteq> None) (take_stamp w)) Q"
  by (rule yields_stamp_if) (use assms still_stamp in \<open>auto intro: still_stamp\<close>)

lemma still_inspected:
  fixes w m src
  defines "rv \<equiv> \<lparr>revision_length = length src, revision_blake3 = digest w src, revision_modified = modified_ns m\<rparr>"
  assumes still: "holds_still w m src" and size: "length src \<le> max_source_bytes lim"
    and parser: "yields (run_parser w lim side (length src)) (\<lambda>p. Q (finish rv p True))"
  shows "yields (inspect_controlled w (\<lambda>_. ret ()) lim side conservative) Q"
proof -
  have len: "file_len m = length src" using still by (simp add: holds_still_def)
  have parser': "yields (run_parser w lim side (length src)) R" if "\<And>p. Q (finish rv p True) \<Longrightarrow> R p" for R
    using parser that unfolding yields_def by blast
  note steps = still_stamp_if [OF still] still_hash_pass [OF still] still_verify [OF still] parser'
  have opened: "yields (inspect_opened w (\<lambda>_. ret ()) lim side el m m (stamp_of m)) Q" for el
    unfolding inspect_opened_def len
    by (intro yields_intros steps; (simp only: prod.case)?;
        (intro yields_intros steps)?; simp add: rv_def)
  note start = still_stamp [OF still] still_cancel [OF still] still_path_meta [OF still] still_handle_meta [OF still]
    still_open_stable [OF still]
  show ?thesis
    unfolding inspect_controlled_def
    by (intro yields_intros yields_if start opened; use len size in auto)
qed

text \<open>
  A source that holds still is accepted whole: the inspection succeeds, reports the
  length, time and digest of the very bytes of the source, adds no issue to those the parser
  met, and every packet it returns is a slice of those bytes with their digest, so the
  packets belong to the revision reported.
\<close>

theorem still_source_inspected:
  assumes "holds_still w m src" "parser_sees w src" "u64_source (length src) lim" "length src \<le> max_source_bytes lim"
  shows "\<exists>r t. inspect_controlled w (\<lambda>_. ret ()) lim side conservative s = (Inr r, t)
     \<and> revision r = \<lparr>revision_length = length src, revision_blake3 = digest w src, revision_modified = modified_ns m\<rparr>
     \<and> list_all (evidence (digest w) src) (inspection_packets r)
     \<and> (\<exists>p. r = finish (revision r) p True)"
proof -
  let ?rv = "\<lparr>revision_length = length src, revision_blake3 = digest w src, revision_modified = modified_ns m\<rparr>"
  let ?Q = "\<lambda>r. revision r = ?rv \<and> list_all (evidence (digest w) src) (inspection_packets r) \<and> (\<exists>p. r = finish (revision r) p True)"
  have "?Q (finish ?rv p True)" if "provenance_inv (parser_env w i) src lim p" for i p
    using that assms(2) by (auto simp: finish_def Let_def provenance_inv_def parser_sees_def)
  then have "yields (run_parser w lim side (length src)) (\<lambda>p. ?Q (finish ?rv p True))"
    by (rule still_parser [OF assms(2,3)])
  from still_inspected [where Q = ?Q, OF assms(1,4) this] show ?thesis unfolding yields_def by blast
qed

section \<open>A file that never changes\<close>

text \<open>The concrete world the properties are exercised on.\<close>

definition static_meta :: "byte list \<Rightarrow> file_meta" where
  "static_meta src = \<lparr>is_file = True, is_symlink = False, file_len = length src, file_modified = Some 5,
     file_dev = 1, file_ino = 2, file_ctime = 3, file_ctime_nsec = 4\<rparr>"

definition static_world :: "byte list \<Rightarrow> world" where
  "static_world src = \<lparr>macos = False, path_meta = (\<lambda>_. Inr (static_meta src)), open_file = (\<lambda>_. Inr ()),
     handle_meta = (\<lambda>_. Inr (static_meta src)), file_system = (\<lambda>_. None), seek_start = (\<lambda>_. Inr ()),
     read_file = (\<lambda>_ p k. Inr (take k (drop p src))), parser_env = (\<lambda>_. memory_env src),
     digest = concat \<circ> map hex2, cancel_flag = None\<rparr>"

lemma static_meta_simps [simp]:
  "is_file (static_meta src)" "\<not> is_symlink (static_meta src)" "file_len (static_meta src) = length src"
  "file_modified (static_meta src) = Some 5"
  by (simp_all add: static_meta_def)

lemma static_parser:
  "run_parser (static_world []) default_limits True 0 s = (Inr (sidecar_result (memory_env []) [] default_limits), s\<lparr>calls := Suc (calls s)\<rparr>)"
  using sidecar_run [OF memory_env_serves [of "[]"], of default_limits]
  by (simp add: run_parser_def static_world_def default_limits_def u64_limit_def)

lemma static_still: "holds_still (static_world src) (static_meta src) src"
  by (auto simp: holds_still_def static_world_def)

lemma static_run:
  "\<exists>r t. inspect_controlled (static_world []) (\<lambda>_. ret ()) default_limits True True inspect_start = (Inr r, t)
     \<and> inspection_status r = Complete \<and> revision_length (revision r) = 0"
proof -
  have "yields (inspect_controlled (static_world []) (\<lambda>_. ret ()) default_limits True True)
     (\<lambda>r. inspection_status r = Complete \<and> revision_length (revision r) = 0)"
  proof (rule still_inspected [OF static_still])
    show "length ([] :: byte list) \<le> max_source_bytes default_limits" by simp
    have "packets (sidecar_result (memory_env []) [] default_limits) \<noteq> []" "issues (sidecar_result (memory_env []) [] default_limits) = []"
      by (simp_all add: sidecar_result_def parser_new_def)
    then show "yields (run_parser (static_world []) default_limits True (length ([] :: byte list)))
      (\<lambda>p. inspection_status (finish \<lparr>revision_length = length ([] :: byte list), revision_blake3 = digest (static_world []) [],
           revision_modified = modified_ns (static_meta [])\<rparr> p True) = Complete
         \<and> revision_length (revision (finish \<lparr>revision_length = length ([] :: byte list), revision_blake3 = digest (static_world []) [],
           revision_modified = modified_ns (static_meta [])\<rparr> p True)) = 0)"
      by (simp add: yields_def static_parser finish_def Let_def overall_status_def status_order_def)
  qed
  then show ?thesis unfolding yields_def by blast
qed

lemma accepted_revision_bracketed_witness:
  "\<exists>i1 i2 q i3 i4. i1 < i2 \<and> one_pass (static_world []) i2 q [] \<and> one_pass (static_world []) q i3 [] \<and> i3 < i4"
proof -
  obtain r t where run: "inspect_controlled (static_world []) (\<lambda>_. ret ()) default_limits True True inspect_start = (Inr r, t)"
    "inspection_status r = Complete" "revision_length (revision r) = 0"
    using static_run by blast
  have reads: "bounded_reads (static_world [])" by (simp add: bounded_reads_def static_world_def)
  have calm: "keeps (from_call n) (ret () :: unit icomp)" for n by (rule keeps_ret)
  have "inspection_status r \<noteq> SourceChanged" "revision_length (revision r) \<le> max_source_bytes default_limits"
    using run(2,3) by simp_all
  from accepted_revision_bracketed [OF reads calm run(1) this] obtain i1 i2 q i3 i4 fed again where
    "one_pass (static_world []) i2 q fed" "one_pass (static_world []) q i3 again" "i1 < i2" "i3 < i4"
    "fed = []" "again = []"
    using run(3) by (elim exE conjE disjE) (rule that, assumption+, simp_all)
  then show ?thesis by metis
qed

lemma still_source_inspected_witness:
  "\<exists>r t. inspect_controlled (static_world [1, 2]) (\<lambda>_. ret ()) default_limits False False inspect_start = (Inr r, t)
     \<and> revision_length (revision r) = 2"
proof -
  have "parser_sees (static_world [1, 2]) [1, 2]"
    using memory_env_reads by (simp add: parser_sees_def static_world_def) (simp add: memory_env_def)
  moreover have "u64_source (length [1, 2 :: byte]) default_limits" by (rule u64_default) simp
  moreover have "length [1, 2 :: byte] \<le> max_source_bytes default_limits" by (simp add: default_limits_def)
  ultimately show ?thesis
    using still_source_inspected [OF static_still, of "[1, 2]" default_limits False False inspect_start] by fastforce
qed

end
