(* ===== verification/Lightroom_WAL.thy ===== *)
theory Lightroom_WAL
  imports XMP_Parser
begin

text \<open>
  Validation of a retained SQLite write-ahead log (\<open>lightroom/wal.rs\<close>): the header, the
  chain of frame checksums, the frames of an earlier log that are left over, and the report
  on what is committed. The file is its length as metadata gives it and the bytes that
  sequential reads deliver; both may disagree, as when the file is truncated meanwhile.
\<close>

section \<open>Data\<close>

record wal_report =
  wal_bytes :: nat
  page_size :: nat
  valid_frames :: nat
  last_commit_frame :: nat
  uncommitted_frames :: nat
  trailing_bytes :: nat
  stale_frames :: nat

datatype wal_error = WalIo string | WalInvalid string

record wal_file =
  wal_open :: "string + unit"
  wal_metadata :: "string + nat"
  wal_content :: "byte list"

text \<open>\<open>read_exact\<close> of the next bytes.\<close>

definition wal_read :: "nat \<Rightarrow> byte list \<Rightarrow> wal_error + byte list \<times> byte list" where
  "wal_read n rest =
     (if n \<le> length rest then Inr (take n rest, drop n rest) else Inl (WalIo ''failed to fill whole buffer''))"

definition ensure_wal :: "bool \<Rightarrow> string \<Rightarrow> wal_error + unit" where
  "ensure_wal b msg = (if b then Inr () else Inl (WalInvalid msg))"

section \<open>Checksums\<close>

definition be_word :: "byte list \<Rightarrow> 32 word" where
  "be_word b = word_of_nat (be_uint b)"

definition le_word :: "byte list \<Rightarrow> 32 word" where
  "le_word b = word_of_nat (le_uint b)"

definition sum_word :: "bool \<Rightarrow> byte list \<Rightarrow> 32 word" where
  "sum_word little b = (if little then le_word b else be_word b)"

text \<open>The additions of the source wrap; the chunks of eight are the whole ones.\<close>

fun wal_checksum :: "byte list \<Rightarrow> bool \<Rightarrow> 32 word \<times> 32 word \<Rightarrow> 32 word \<times> 32 word" where
  "wal_checksum b little (s0, s1) =
     (if length b < 8 then (s0, s1)
      else
        let t0 = s0 + sum_word little (take 4 b) + s1;
            t1 = s1 + sum_word little (take 4 (drop 4 b)) + t0
        in wal_checksum (drop 8 b) little (t0, t1))"

declare wal_checksum.simps [simp del]

definition slice_of :: "byte list \<Rightarrow> nat \<Rightarrow> nat \<Rightarrow> byte list" where
  "slice_of b i j = take (j - i) (drop i b)"

definition sums_at :: "byte list \<Rightarrow> nat \<Rightarrow> 32 word \<times> 32 word" where
  "sums_at b i = (be_word (slice_of b i (i + 4)), be_word (slice_of b (i + 4) (i + 8)))"

section \<open>Validation\<close>

definition is_power_of_two :: "nat \<Rightarrow> bool" where
  "is_power_of_two n \<longleftrightarrow> n \<noteq> 0 \<and> (\<exists>k \<in> set [0..<32]. n = 2 ^ k)"

record wal_scan =
  scan_sum :: "32 word \<times> 32 word"
  scan_stale :: bool
  scan_report :: wal_report
  scan_rest :: "byte list"

text \<open>One iteration of the frame loop.\<close>

definition wal_frame :: "bool \<Rightarrow> byte list \<Rightarrow> nat \<Rightarrow> wal_scan \<Rightarrow> wal_error + wal_scan" where
  "wal_frame little header frame_bytes s =
     tryr (wal_read frame_bytes (scan_rest s)) (\<lambda>(frame, rest).
     let stale = (scan_stale s \<or> slice_of frame 8 16 \<noteq> slice_of header 16 24);
         s1 = s\<lparr>scan_rest := rest, scan_stale := stale\<rparr> in
     if stale then Inr (s1\<lparr>scan_report := stale_frames_update Suc (scan_report s)\<rparr>)
     else
       tryr (ensure_wal (be_uint (slice_of frame 0 4) > 0) ''invalid WAL page number'') (\<lambda>_.
       let sum1 = wal_checksum (slice_of frame 0 8) little (scan_sum s);
           sum2 = wal_checksum (drop 24 frame) little sum1 in
       tryr (ensure_wal (sum2 = sums_at frame 16) ''WAL frame checksum mismatch'') (\<lambda>_.
       let r = valid_frames_update Suc (scan_report s);
           r' = (if be_uint (slice_of frame 4 8) > 0 then r\<lparr>last_commit_frame := valid_frames r\<rparr> else r) in
       Inr (s1\<lparr>scan_sum := sum2, scan_report := r'\<rparr>))))"

fun wal_frames :: "nat \<Rightarrow> bool \<Rightarrow> byte list \<Rightarrow> nat \<Rightarrow> wal_scan \<Rightarrow> wal_error + wal_scan" where
  "wal_frames 0 little header frame_bytes s = Inr s"
| "wal_frames (Suc n) little header frame_bytes s =
     tryr (wal_frame little header frame_bytes s) (wal_frames n little header frame_bytes)"

definition wal_empty_report :: "nat \<Rightarrow> wal_report" where
  "wal_empty_report len = \<lparr>wal_bytes = len, page_size = 0, valid_frames = 0, last_commit_frame = 0,
     uncommitted_frames = 0, trailing_bytes = 0, stale_frames = 0\<rparr>"

text \<open>The header: page size, byte order of the checksums, and the checksum after it.\<close>

definition wal_header :: "byte list \<Rightarrow> wal_error + nat \<times> bool \<times> 32 word \<times> 32 word" where
  "wal_header header =
     (let magic = be_uint (slice_of header 0 4) in
      tryr (ensure_wal (magic = 0x377f0682 \<or> magic = 0x377f0683) ''unknown WAL magic'') (\<lambda>_.
      tryr (ensure_wal (be_uint (slice_of header 4 8) = 3007000) ''unsupported WAL format'') (\<lambda>_.
      let page = be_uint (slice_of header 8 12) in
      tryr (ensure_wal (512 \<le> page \<and> page \<le> 65536 \<and> is_power_of_two page) ''invalid WAL page size'') (\<lambda>_.
      let little = (magic = 0x377f0682);
          sum = wal_checksum (slice_of header 0 24) little (0, 0) in
      tryr (ensure_wal (sum = sums_at header 24) ''WAL header checksum mismatch'') (\<lambda>_.
      Inr (page, little, sum))))))"

definition wal_validate :: "wal_file \<Rightarrow> wal_error + wal_report" where
  "wal_validate file =
     tryr (map_err WalIo (wal_open file)) (\<lambda>_.
     tryr (map_err WalIo (wal_metadata file)) (\<lambda>len.
     let result = wal_empty_report len in
     if len = 0 then Inr result
     else
       tryr (ensure_wal (32 \<le> len) ''truncated WAL header'') (\<lambda>_.
       tryr (wal_read 32 (wal_content file)) (\<lambda>(header, rest).
       tryr (wal_header header) (\<lambda>(page, little, sum).
       let frame_bytes = page + 24;
           frames = (len - 32) div frame_bytes;
           result1 = result\<lparr>page_size := page, trailing_bytes := (len - 32) mod frame_bytes\<rparr> in
       tryr (wal_frames frames little header frame_bytes
               \<lparr>scan_sum = sum, scan_stale = False, scan_report = result1, scan_rest = rest\<rparr>) (\<lambda>s.
       let r = scan_report s in
       Inr (r\<lparr>uncommitted_frames := valid_frames r - last_commit_frame r\<rparr>)))))))"

end
