(* ===== verification/WAL_Correct.thy ===== *)
theory WAL_Correct
  imports Lightroom_WAL "HOL-Library.Word"
begin

text \<open>
  A log written by the book and the validator: the writer of frames is the specification,
  and the validator accounts for every byte of what it accepts.
\<close>

section \<open>The writer\<close>

definition enc32 :: "32 word \<Rightarrow> byte list" where
  "enc32 w = [ucast (drop_bit 24 w), ucast (drop_bit 16 w), ucast (drop_bit 8 w), ucast w]"

lemma length_enc32 [simp]: "length (enc32 w) = 4"
  by (simp add: enc32_def)

lemma be_uint_4: "be_uint [a, b, c, d] = unat a * 16777216 + unat b * 65536 + unat c * 256 + unat d"
proof -
  have "unat a < 256" "unat b < 256" "unat c < 256" "unat d < 256"
    using unsigned_less [of a] unsigned_less [of b] unsigned_less [of c] unsigned_less [of d] by simp_all
  then show ?thesis by (simp add: be_uint_def push8_def u64_limit_def)
qed

lemma bytes_of_nat:
  fixes n :: nat
  assumes "n < 4294967296"
  shows "n div 16777216 mod 256 * 16777216 + n div 65536 mod 256 * 65536 + n div 256 mod 256 * 256 + n mod 256 = n"
proof -
  define a b c where "a = n div 256" and "b = a div 256" and "c = b div 256"
  have "n div 65536 = b" "n div 16777216 = c"
    using div_mult2_eq [of n 256 256] div_mult2_eq [of n 65536 256] by (simp_all add: a_def b_def c_def)
  moreover have "c < 256" using assms \<open>n div 16777216 = c\<close> by auto
  moreover have "n = 256 * a + n mod 256" "a = 256 * b + a mod 256" "b = 256 * c + b mod 256"
    by (simp_all add: a_def b_def c_def)
  ultimately show ?thesis by (simp add: a_def [symmetric])
qed

lemma be_uint_enc32 [simp]: "be_uint (enc32 w) = unat w"
proof -
  have w: "unat w < 4294967296" using unsigned_less [of w] by simp
  then have "unat w div 16777216 mod 256 = unat w div 16777216" by auto
  with bytes_of_nat [OF w] show ?thesis
    by (simp add: enc32_def be_uint_4 unsigned_ucast_eq drop_bit_eq_div take_bit_eq_mod unat_div_distrib)
qed

lemma be_word_enc32 [simp]: "be_word (enc32 w) = w"
  by (simp add: be_word_def)

text \<open>
  The frames of one log: page number, size of the database after a commit (0 for none),
  salt, the running checksum, and the page.
\<close>

record wal_entry =
  entry_page :: "32 word"
  entry_commit :: "32 word"
  entry_data :: "byte list"

definition entry_sum :: "bool \<Rightarrow> 32 word \<times> 32 word \<Rightarrow> wal_entry \<Rightarrow> 32 word \<times> 32 word" where
  "entry_sum little ck e =
     wal_checksum (entry_data e) little (wal_checksum (enc32 (entry_page e) @ enc32 (entry_commit e)) little ck)"

definition entry_bytes :: "byte list \<Rightarrow> bool \<Rightarrow> 32 word \<times> 32 word \<Rightarrow> wal_entry \<Rightarrow> byte list" where
  "entry_bytes salt little ck e =
     (let (s0, s1) = entry_sum little ck e in
      enc32 (entry_page e) @ enc32 (entry_commit e) @ salt @ enc32 s0 @ enc32 s1 @ entry_data e)"

fun write_entries :: "byte list \<Rightarrow> bool \<Rightarrow> 32 word \<times> 32 word \<Rightarrow> wal_entry list \<Rightarrow> byte list" where
  "write_entries salt little ck [] = []"
| "write_entries salt little ck (e # es) =
     entry_bytes salt little ck e @ write_entries salt little (entry_sum little ck e) es"

definition written_header :: "nat \<Rightarrow> 32 word \<Rightarrow> bool \<Rightarrow> byte list \<Rightarrow> byte list" where
  "written_header page seq little salt =
     (let start = enc32 (if little then 0x377f0682 else 0x377f0683) @ enc32 3007000 @ enc32 (word_of_nat page) @ enc32 seq @ salt;
          (s0, s1) = wal_checksum start little (0, 0)
      in start @ enc32 s0 @ enc32 s1)"

definition header_sum :: "nat \<Rightarrow> 32 word \<Rightarrow> bool \<Rightarrow> byte list \<Rightarrow> 32 word \<times> 32 word" where
  "header_sum page seq little salt =
     wal_checksum (enc32 (if little then 0x377f0682 else 0x377f0683) @ enc32 3007000 @ enc32 (word_of_nat page) @ enc32 seq @ salt)
       little (0, 0)"

text \<open>The entries up to and including the last commit.\<close>

definition committed :: "wal_entry list \<Rightarrow> nat" where
  "committed es = length (dropWhile (\<lambda>e. entry_commit e = 0) (rev es))"

definition entry_ok :: "nat \<Rightarrow> wal_entry \<Rightarrow> bool" where
  "entry_ok page e \<longleftrightarrow> entry_page e \<noteq> 0 \<and> length (entry_data e) = page"

section \<open>Slices\<close>

lemma slice_of_append_left [simp]: "length a = i \<Longrightarrow> j = i + length b \<Longrightarrow> slice_of (a @ b @ c) i j = b"
  by (simp add: slice_of_def)

lemma length_entry_bytes [simp]:
  "length salt = 8 \<Longrightarrow> entry_ok page e \<Longrightarrow> length (entry_bytes salt little ck e) = page + 24"
  by (simp add: entry_bytes_def entry_ok_def split: prod.splits)

lemma entry_fields:
  assumes "length salt = 8" "entry_sum little ck e = (s0, s1)"
  defines "b \<equiv> entry_bytes salt little ck e"
  shows "slice_of b 0 4 = enc32 (entry_page e)" "slice_of b 4 8 = enc32 (entry_commit e)"
    "slice_of b 0 8 = enc32 (entry_page e) @ enc32 (entry_commit e)" "slice_of b 8 16 = salt"
    "sums_at b 16 = (s0, s1)" "drop 24 b = entry_data e"
  using assms by (simp_all add: entry_bytes_def slice_of_def sums_at_def)

lemma wal_frame_written:
  assumes "length salt = 8" "entry_ok page e" "slice_of header 16 24 = salt" "\<not> scan_stale s"
    and "scan_rest s = entry_bytes salt little (scan_sum s) e @ rest"
  shows "wal_frame little header (page + 24) s = Inr (s\<lparr>scan_sum := entry_sum little (scan_sum s) e, scan_rest := rest,
     scan_stale := False,
     scan_report := (let r = valid_frames_update Suc (scan_report s) in
       if entry_commit e \<noteq> 0 then r\<lparr>last_commit_frame := valid_frames r\<rparr> else r)\<rparr>)"
proof -
  obtain s0 s1 where ck: "entry_sum little (scan_sum s) e = (s0, s1)" by (cases "entry_sum little (scan_sum s) e")
  note f = entry_fields [OF assms(1) ck]
  have page: "0 < unat (entry_page e)" using assms(2) by (simp add: entry_ok_def unat_gt_0)
  have commit: "0 < unat (entry_commit e) \<longleftrightarrow> entry_commit e \<noteq> 0" by (simp add: unat_gt_0)
  have sum': "wal_checksum (entry_data e) little (wal_checksum (enc32 (entry_page e) @ enc32 (entry_commit e)) little (scan_sum s)) = (s0, s1)"
    using ck by (simp add: entry_sum_def)
  show ?thesis
    unfolding wal_frame_def wal_read_def
    using assms page by (simp add: f ck sum' ensure_wal_def Let_def commit)
qed

section \<open>Runs over many frames\<close>

lemma committed_Cons:
  "committed (e # es) = (if committed es > 0 then Suc (committed es) else if entry_commit e \<noteq> 0 then 1 else 0)"
  by (induction es rule: rev_induct) (auto simp: committed_def dropWhile_append)

lemma committed_le: "committed es \<le> length es"
  by (simp add: committed_def) (metis length_dropWhile_le length_rev)

fun entries_sum :: "bool \<Rightarrow> 32 word \<times> 32 word \<Rightarrow> wal_entry list \<Rightarrow> 32 word \<times> 32 word" where
  "entries_sum little ck [] = ck"
| "entries_sum little ck (e # es) = entries_sum little (entry_sum little ck e) es"

definition after_entries :: "bool \<Rightarrow> wal_entry list \<Rightarrow> byte list \<Rightarrow> wal_scan \<Rightarrow> wal_scan" where
  "after_entries little es rest s = s\<lparr>scan_sum := entries_sum little (scan_sum s) es, scan_stale := False, scan_rest := rest,
     scan_report := (scan_report s)\<lparr>valid_frames := valid_frames (scan_report s) + length es,
       last_commit_frame := (if committed es > 0 then valid_frames (scan_report s) + committed es
                             else last_commit_frame (scan_report s))\<rparr>\<rparr>"

lemma wal_frames_written:
  assumes "length salt = 8" "list_all (entry_ok page) es" "slice_of header 16 24 = salt" "\<not> scan_stale s"
    and "scan_rest s = write_entries salt little (scan_sum s) es @ rest"
  shows "wal_frames (length es) little header (page + 24) s = Inr (after_entries little es rest s)"
  using assms(2,4,5)
proof (induction es arbitrary: s)
  case (Cons e es)
  let ?t = "s\<lparr>scan_sum := entry_sum little (scan_sum s) e, scan_rest := write_entries salt little (entry_sum little (scan_sum s) e) es @ rest,
     scan_stale := False,
     scan_report := (let r = valid_frames_update Suc (scan_report s) in
       if entry_commit e \<noteq> 0 then r\<lparr>last_commit_frame := valid_frames r\<rparr> else r)\<rparr>"
  have "wal_frame little header (page + 24) s = Inr ?t"
    by (rule wal_frame_written) (use Cons.prems assms(1,3) in auto)
  moreover have "wal_frames (length es) little header (page + 24) ?t = Inr (after_entries little es rest ?t)"
    by (rule Cons.IH) (use Cons.prems in auto)
  moreover have "after_entries little es rest ?t = after_entries little (e # es) rest s"
    by (auto simp: after_entries_def committed_Cons Let_def)
  ultimately show ?case by simp
qed (simp add: after_entries_def committed_def)

text \<open>From the first frame of another log on, every frame is left over.\<close>

lemma wal_frames_stale:
  assumes "scan_stale s" "n * (page + 24) \<le> length (scan_rest s)"
  shows "wal_frames n little header (page + 24) s = Inr (s\<lparr>scan_rest := drop (n * (page + 24)) (scan_rest s),
     scan_report := (scan_report s)\<lparr>stale_frames := stale_frames (scan_report s) + n\<rparr>\<rparr>)"
  using assms
proof (induction n arbitrary: s)
  case (Suc n)
  let ?t = "s\<lparr>scan_rest := drop (page + 24) (scan_rest s), scan_report := stale_frames_update Suc (scan_report s)\<rparr>"
  have "wal_frame little header (page + 24) s = Inr ?t"
    using Suc.prems by (simp add: wal_frame_def wal_read_def Let_def)
  moreover have "wal_frames n little header (page + 24) ?t = Inr (?t\<lparr>scan_rest := drop (n * (page + 24)) (scan_rest ?t),
     scan_report := (scan_report ?t)\<lparr>stale_frames := stale_frames (scan_report ?t) + n\<rparr>\<rparr>)"
    by (rule Suc.IH) (use Suc.prems in auto)
  ultimately show ?case by (simp add: add.commute)
qed simp

lemma wal_frames_split: "wal_frames (m + n) little header fb s = tryr (wal_frames m little header fb s) (wal_frames n little header fb)"
  by (induction m arbitrary: s) (auto simp: tryr_def split: sum.splits)

lemma wal_frames_left_over:
  assumes "\<not> scan_stale s" "n * (page + 24) \<le> length (scan_rest s)" "0 < n \<longrightarrow> slice_of (scan_rest s) 8 16 \<noteq> slice_of header 16 24"
  shows "\<exists>t. wal_frames n little header (page + 24) s = Inr t
     \<and> scan_report t = (scan_report s)\<lparr>stale_frames := stale_frames (scan_report s) + n\<rparr>"
proof (cases n)
  case (Suc k)
  let ?t = "s\<lparr>scan_rest := drop (page + 24) (scan_rest s), scan_stale := True, scan_report := stale_frames_update Suc (scan_report s)\<rparr>"
  have "slice_of (take (page + 24) (scan_rest s)) 8 16 = slice_of (scan_rest s) 8 16"
    by (simp add: slice_of_def take_drop)
  then have "wal_frame little header (page + 24) s = Inr ?t"
    using assms Suc by (simp add: wal_frame_def wal_read_def Let_def)
  moreover have "wal_frames k little header (page + 24) ?t = Inr (?t\<lparr>scan_rest := drop (k * (page + 24)) (scan_rest ?t),
     scan_report := (scan_report ?t)\<lparr>stale_frames := stale_frames (scan_report ?t) + k\<rparr>\<rparr>)"
    by (rule wal_frames_stale) (use assms Suc in auto)
  ultimately show ?thesis using Suc by simp
qed simp

section \<open>The header\<close>

definition page_ok :: "nat \<Rightarrow> bool" where
  "page_ok page \<longleftrightarrow> 512 \<le> page \<and> page \<le> 65536 \<and> is_power_of_two page"

lemma length_written_header [simp]: "length salt = 8 \<Longrightarrow> length (written_header page seq little salt) = 32"
  by (simp add: written_header_def Let_def split: prod.splits)

lemma written_header_fields:
  fixes page seq little
  assumes "length salt = 8"
  defines "b \<equiv> written_header page seq little salt"
  shows "slice_of b 0 4 = enc32 (if little then 0x377f0682 else 0x377f0683)" "slice_of b 4 8 = enc32 3007000"
    "slice_of b 8 12 = enc32 (word_of_nat page)" "slice_of b 16 24 = salt"
    "slice_of b 0 24 = enc32 (if little then 0x377f0682 else 0x377f0683) @ enc32 3007000 @ enc32 (word_of_nat page) @ enc32 seq @ salt"
    "sums_at b 24 = header_sum page seq little salt"
  using assms by (auto simp: written_header_def header_sum_def slice_of_def sums_at_def Let_def split: prod.splits)

lemma wal_header_written:
  assumes "length salt = 8" "page_ok page"
  shows "wal_header (written_header page seq little salt) = Inr (page, little, header_sum page seq little salt)"
proof -
  have "unat (word_of_nat page :: 32 word) = page"
    using assms(2) by (simp add: page_ok_def unat_of_nat take_bit_eq_mod)
  moreover have "unat (0x377f0682 :: 32 word) = 0x377f0682" "unat (0x377f0683 :: 32 word) = 0x377f0683"
    "unat (3007000 :: 32 word) = 3007000" by simp_all
  ultimately show ?thesis
    using assms(2) written_header_fields [OF assms(1), of page seq little]
    by (cases little) (simp_all add: wal_header_def ensure_wal_def page_ok_def Let_def header_sum_def)
qed

section \<open>Validation\<close>

definition wal_disk :: "byte list \<Rightarrow> wal_file" where
  "wal_disk b = \<lparr>wal_open = Inr (), wal_metadata = Inr (length b), wal_content = b\<rparr>"

lemma length_write_entries:
  "length salt = 8 \<Longrightarrow> list_all (entry_ok page) es \<Longrightarrow> length (write_entries salt little ck es) = length es * (page + 24)"
  by (induction es arbitrary: ck) auto

lemma wal_written_run:
  fixes seq little
  assumes "length salt = 8" "page_ok page" "list_all (entry_ok page) es"
    and "length old = n * (page + 24)" "0 < n \<longrightarrow> slice_of old 8 16 \<noteq> salt" "length torn < page + 24"
  defines "b \<equiv> written_header page seq little salt @ write_entries salt little (header_sum page seq little salt) es @ old @ torn"
  shows "wal_validate (wal_disk b) = Inr \<lparr>wal_bytes = length b, page_size = page, valid_frames = length es,
     last_commit_frame = committed es, uncommitted_frames = length es - committed es,
     trailing_bytes = length torn, stale_frames = n\<rparr>"
proof -
  let ?h = "written_header page seq little salt"
  let ?w = "write_entries salt little (header_sum page seq little salt) es"
  let ?r = "(wal_empty_report (length b))\<lparr>page_size := page, trailing_bytes := length torn\<rparr>"
  let ?s = "\<lparr>scan_sum = header_sum page seq little salt, scan_stale = False, scan_report = ?r, scan_rest = ?w @ old @ torn\<rparr>"
  let ?t = "after_entries little es (old @ torn) ?s"
  have len: "length b = 32 + (length es + n) * (page + 24) + length torn"
    using assms(1,4) length_write_entries [OF assms(1,3)] by (simp add: b_def algebra_simps)
  have frames: "(length b - 32) div (page + 24) = length es + n" "(length b - 32) mod (page + 24) = length torn"
    unfolding len using assms(6) by (simp_all add: div_add1_eq mod_add_eq)
  have first: "wal_frames (length es) little ?h (page + 24) ?s = Inr ?t"
    by (rule wal_frames_written) (use assms(1,3) written_header_fields(4) [OF assms(1)] in auto)
  have "slice_of (old @ torn) 8 16 = slice_of old 8 16" if "0 < n"
  proof -
    have "16 \<le> length old" using assms(4) that by (cases n) auto
    then show ?thesis by (simp add: slice_of_def)
  qed
  then obtain u where u: "wal_frames n little ?h (page + 24) ?t = Inr u"
    "scan_report u = (scan_report ?t)\<lparr>stale_frames := stale_frames (scan_report ?t) + n\<rparr>"
    using wal_frames_left_over [of ?t n page ?h little] assms(4,5) written_header_fields(4) [OF assms(1)]
    by (auto simp: after_entries_def)
  have "wal_frames (length es + n) little ?h (page + 24) ?s = Inr u"
    using first u(1) by (simp add: wal_frames_split)
  moreover have "wal_read 32 b = Inr (?h, ?w @ old @ torn)"
    using assms(1) by (simp add: wal_read_def b_def)
  moreover have "length b \<noteq> 0" "32 \<le> length b" using len by auto
  ultimately show ?thesis
    using wal_header_written [OF assms(1,2), of seq little] frames u(2) committed_le [of es]
    by (auto simp: wal_validate_def wal_disk_def ensure_wal_def Let_def after_entries_def wal_empty_report_def map_err_def)
qed

text \<open>
  C31: The validator reports what a writer wrote: for a log of any frames with the running
  checksums of the format, followed by frames left over from an earlier log under another
  salt and by the torn beginning of a further frame, the report counts the written frames as
  valid, the position of the last commit, the frames after it as uncommitted, the left-over
  frames as stale and the torn bytes as trailing.
\<close>

theorem wal_validate_written:
  fixes seq little
  assumes "length salt = 8" "page_ok page" "list_all (entry_ok page) es"
    and "length old = n * (page + 24)" "0 < n \<longrightarrow> slice_of old 8 16 \<noteq> salt" "length torn < page + 24"
  defines "b \<equiv> written_header page seq little salt @ write_entries salt little (header_sum page seq little salt) es @ old @ torn"
  shows "wal_validate (wal_disk b) = Inr \<lparr>wal_bytes = length b, page_size = page, valid_frames = length es,
     last_commit_frame = committed es, uncommitted_frames = length es - committed es,
     trailing_bytes = length torn, stale_frames = n\<rparr>"
  unfolding b_def by (rule wal_written_run) (use assms in auto)

lemma wal_frame_account:
  assumes "wal_frame little header fb s = Inr t" "last_commit_frame (scan_report s) \<le> valid_frames (scan_report s)"
  shows "wal_bytes (scan_report t) = wal_bytes (scan_report s) \<and> page_size (scan_report t) = page_size (scan_report s)
     \<and> trailing_bytes (scan_report t) = trailing_bytes (scan_report s)
     \<and> valid_frames (scan_report t) + stale_frames (scan_report t) = Suc (valid_frames (scan_report s) + stale_frames (scan_report s))
     \<and> last_commit_frame (scan_report t) \<le> valid_frames (scan_report t)"
  using assms by (auto simp: wal_frame_def tryr_Inr_iff ensure_wal_def Let_def split: if_splits)

lemma wal_frames_account:
  assumes "wal_frames n little header fb s = Inr t" "last_commit_frame (scan_report s) \<le> valid_frames (scan_report s)"
  shows "wal_bytes (scan_report t) = wal_bytes (scan_report s) \<and> page_size (scan_report t) = page_size (scan_report s)
     \<and> trailing_bytes (scan_report t) = trailing_bytes (scan_report s)
     \<and> valid_frames (scan_report t) + stale_frames (scan_report t) = valid_frames (scan_report s) + stale_frames (scan_report s) + n
     \<and> last_commit_frame (scan_report t) \<le> valid_frames (scan_report t)"
  using assms
proof (induction n arbitrary: s)
  case (Suc n)
  then obtain u where u: "wal_frame little header fb s = Inr u" "wal_frames n little header fb u = Inr t"
    by (auto simp: tryr_Inr_iff)
  from wal_frame_account [OF u(1) Suc.prems(2)] Suc.IH [OF u(2)] show ?case by simp
qed simp

text \<open>
  The report accounts for the whole file: header, valid and stale frames and trailing
  bytes add up to its length, less than a frame trails, the last commit is a valid frame and
  the frames after it are exactly the uncommitted ones. A file below a header's size is
  accepted only if it is empty.
\<close>

theorem wal_report_accounts:
  assumes "wal_validate file = Inr r"
  shows "(wal_bytes r = 0 \<and> valid_frames r = 0 \<and> stale_frames r = 0 \<and> trailing_bytes r = 0)
     \<or> (32 \<le> wal_bytes r \<and> page_ok (page_size r)
        \<and> wal_bytes r = 32 + (valid_frames r + stale_frames r) * (page_size r + 24) + trailing_bytes r
        \<and> trailing_bytes r < page_size r + 24 \<and> last_commit_frame r + uncommitted_frames r = valid_frames r)"
proof -
  obtain len where len: "wal_metadata file = Inr len"
    using assms by (auto simp: wal_validate_def map_err_def tryr_Inr_iff split: sum.splits)
  show ?thesis
  proof (cases "len = 0")
    case True
    with assms len show ?thesis by (auto simp: wal_validate_def map_err_def tryr_Inr_iff wal_empty_report_def)
  next
    case False
    then obtain header rest page little ck t where h: "32 \<le> len" "wal_header header = Inr (page, little, ck)"
      and run: "wal_frames ((len - 32) div (page + 24)) little header (page + 24)
         \<lparr>scan_sum = ck, scan_stale = False,
           scan_report = (wal_empty_report len)\<lparr>page_size := page, trailing_bytes := (len - 32) mod (page + 24)\<rparr>, scan_rest = rest\<rparr> = Inr t"
      and r: "r = (scan_report t)\<lparr>uncommitted_frames := valid_frames (scan_report t) - last_commit_frame (scan_report t)\<rparr>"
      using assms len by (auto simp: wal_validate_def map_err_def tryr_Inr_iff ensure_wal_def Let_def split: if_splits)
    have "page_ok page" using h(2) by (auto simp: wal_header_def tryr_Inr_iff ensure_wal_def Let_def page_ok_def split: if_splits)
    moreover have "(len - 32) div (page + 24) * (page + 24) + (len - 32) mod (page + 24) = len - 32"
      by (rule div_mult_mod_eq)
    ultimately show ?thesis
      using wal_frames_account [OF run] h(1) r by (auto simp: wal_empty_report_def)
  qed
qed


section \<open>A small log\<close>

definition small_entry :: wal_entry where
  "small_entry = \<lparr>entry_page = 1, entry_commit = 1, entry_data = replicate 512 0\<rparr>"

definition small_log :: "byte list" where
  "small_log = written_header 512 1 True [1, 2, 3, 4, 5, 6, 7, 8]
     @ write_entries [1, 2, 3, 4, 5, 6, 7, 8] True (header_sum 512 1 True [1, 2, 3, 4, 5, 6, 7, 8]) [small_entry] @ [] @ [9]"

lemma small_page: "page_ok 512"
proof -
  have "(9 :: nat) \<in> set [0..<32]" "(512 :: nat) = 2 ^ 9" by simp_all
  then show ?thesis unfolding page_ok_def is_power_of_two_def by (intro conjI bexI [of _ 9]) simp_all
qed

lemma small_committed: "committed [small_entry] = 1"
  by (simp add: committed_def small_entry_def)

lemma small_length: "length small_log = 569"
  by (simp add: small_log_def entry_ok_def small_entry_def length_write_entries [of _ 512])

lemma wal_validate_written_witness:
  "wal_validate (wal_disk small_log) = Inr \<lparr>wal_bytes = 569, page_size = 512, valid_frames = 1, last_commit_frame = 1,
     uncommitted_frames = 0, trailing_bytes = 1, stale_frames = 0\<rparr>"
proof -
  have "length [1, 2, 3, 4, 5, 6, 7, 8 :: byte] = 8" "list_all (entry_ok 512) [small_entry]"
    by (simp_all add: entry_ok_def small_entry_def)
  from wal_validate_written [OF this(1) small_page this(2), of "[]" 0 "[9]" 1 True] show ?thesis
    by (simp only: small_log_def [symmetric] small_length small_committed) simp
qed

lemma wal_report_accounts_witness:
  "\<exists>r. wal_validate (wal_disk small_log) = Inr r \<and> wal_bytes r = 569
     \<and> wal_bytes r = 32 + (valid_frames r + stale_frames r) * (page_size r + 24) + trailing_bytes r"
proof -
  have "length [1, 2, 3, 4, 5, 6, 7, 8 :: byte] = 8" "list_all (entry_ok 512) [small_entry]"
    by (simp_all add: entry_ok_def small_entry_def)
  from wal_written_run [OF this(1) small_page this(2), of "[]" 0 "[9]" 1 True]
  obtain r where r: "wal_validate (wal_disk small_log) = Inr r" "wal_bytes r = length small_log"
    by (simp only: small_log_def [symmetric]) auto
  from wal_report_accounts [OF r(1)] r show ?thesis by (auto simp: small_length)
qed

end
