(* ===== verification/IEEE_Floats.thy ===== *)
theory IEEE_Floats
  imports PC_Prelude Complex_Main
begin

text \<open>
  IEEE 754 values as the sources use them: not a number, the infinities, and finite values
  with their sign, so that the two zeros differ as values and compare equal. A finite value
  is a sign and a magnitude; rounding to a format takes the nearest value, ties to even.
\<close>

datatype ieee = NaN | Infinite bool | Finite bool rat

definition is_finite :: "ieee \<Rightarrow> bool" where
  "is_finite x = (case x of Finite _ _ \<Rightarrow> True | _ \<Rightarrow> False)"

definition signed :: "bool \<Rightarrow> rat \<Rightarrow> rat" where
  "signed s m = (if s then - m else m)"

definition value_of :: "ieee \<Rightarrow> rat" where
  "value_of x = (case x of Finite s m \<Rightarrow> signed s m | _ \<Rightarrow> 0)"

text \<open>Comparison with a finite constant; every comparison with a NaN is false.\<close>

definition less_const :: "ieee \<Rightarrow> rat \<Rightarrow> bool" where
  "less_const x c = (case x of NaN \<Rightarrow> False | Infinite s \<Rightarrow> s | Finite s m \<Rightarrow> signed s m < c)"

definition greater_const :: "ieee \<Rightarrow> rat \<Rightarrow> bool" where
  "greater_const x c = (case x of NaN \<Rightarrow> False | Infinite s \<Rightarrow> \<not> s | Finite s m \<Rightarrow> signed s m > c)"

definition le_const :: "ieee \<Rightarrow> rat \<Rightarrow> bool" where
  "le_const x c = (case x of NaN \<Rightarrow> False | Infinite s \<Rightarrow> s | Finite s m \<Rightarrow> signed s m \<le> c)"

definition ge_const :: "ieee \<Rightarrow> rat \<Rightarrow> bool" where
  "ge_const x c = (case x of NaN \<Rightarrow> False | Infinite s \<Rightarrow> \<not> s | Finite s m \<Rightarrow> signed s m \<ge> c)"

definition is_zero :: "ieee \<Rightarrow> bool" where
  "is_zero x = (case x of Finite _ m \<Rightarrow> m = 0 | _ \<Rightarrow> False)"

text \<open>The order of two values, as \<open>>=\<close> compares them.\<close>

definition ieee_ge :: "ieee \<Rightarrow> ieee \<Rightarrow> bool" where
  "ieee_ge x y =
     (case (x, y) of
        (Finite s m, Finite t n) \<Rightarrow> signed s m \<ge> signed t n
      | (Infinite s, Infinite t) \<Rightarrow> \<not> s \<or> t
      | (Infinite s, Finite _ _) \<Rightarrow> \<not> s
      | (Finite _ _, Infinite t) \<Rightarrow> t
      | _ \<Rightarrow> False)"

section \<open>Rounding\<close>

definition pow2 :: "int \<Rightarrow> rat" where
  "pow2 k = (if 0 \<le> k then 2 ^ nat k else 1 / 2 ^ nat (- k))"

fun bit_length :: "nat \<Rightarrow> nat" where
  "bit_length n = (if n = 0 then 0 else Suc (bit_length (n div 2)))"

declare bit_length.simps [simp del]

text \<open>The binary exponent of a positive rational.\<close>

definition ilog2 :: "rat \<Rightarrow> int" where
  "ilog2 x =
     (let (n, d) = quotient_of x; k = int (bit_length (nat n)) - int (bit_length (nat d))
      in if pow2 k \<le> x then k else k - 1)"

definition round_half_even :: "rat \<Rightarrow> int" where
  "round_half_even x =
     (let f = \<lfloor>x\<rfloor>; r = x - of_int f in
      if r < 1 / 2 then f else if r > 1 / 2 then f + 1 else if even f then f else f + 1)"

text \<open>A format: bits of the significand, exponent of the least unit, exponent of the limit.\<close>

definition round_to :: "nat \<Rightarrow> int \<Rightarrow> int \<Rightarrow> bool \<Rightarrow> rat \<Rightarrow> ieee" where
  "round_to p emin emax s m =
     (if m = 0 then Finite s 0
      else
        let e = max emin (ilog2 m - int p + 1);
            v = of_int (round_half_even (m / pow2 e)) * pow2 e
        in if pow2 emax \<le> v then Infinite s else Finite s v)"

definition to_f64 :: "bool \<Rightarrow> rat \<Rightarrow> ieee" where
  "to_f64 = round_to 53 (- 1074) 1024"

definition to_f32 :: "bool \<Rightarrow> rat \<Rightarrow> ieee" where
  "to_f32 = round_to 24 (- 149) 128"

text \<open>\<open>as f32\<close>.\<close>

definition cast_f32 :: "ieee \<Rightarrow> ieee" where
  "cast_f32 x = (case x of Finite s m \<Rightarrow> to_f32 s m | _ \<Rightarrow> x)"

section \<open>Single precision\<close>

text \<open>The value of a bit pattern.\<close>

definition f32_of_bits :: "nat \<Rightarrow> ieee" where
  "f32_of_bits w =
     (let s = (w div 2 ^ 31 = 1); e = w div 2 ^ 23 mod 2 ^ 8; m = w mod 2 ^ 23 in
      if e = 255 then (if m = 0 then Infinite s else NaN)
      else if e = 0 then Finite s (of_nat m * pow2 (-149))
      else Finite s (of_nat (2 ^ 23 + m) * pow2 (int e - 150)))"

text \<open>A sum rounds the exact sum; an exact zero is negative only if both summands are.\<close>

definition f32_add :: "ieee \<Rightarrow> ieee \<Rightarrow> ieee" where
  "f32_add x y =
     (case (x, y) of
        (Finite s m, Finite t n) \<Rightarrow>
          let v = signed s m + signed t n in
          if v = 0 then Finite (s \<and> t) 0 else to_f32 (v < 0) \<bar>v\<bar>
      | (Infinite s, Infinite t) \<Rightarrow> if s = t then Infinite s else NaN
      | (Infinite s, Finite _ _) \<Rightarrow> Infinite s
      | (Finite _ _, Infinite t) \<Rightarrow> Infinite t
      | _ \<Rightarrow> NaN)"

definition ieee_neg :: "ieee \<Rightarrow> ieee" where
  "ieee_neg x = (case x of NaN \<Rightarrow> NaN | Infinite s \<Rightarrow> Infinite (\<not> s) | Finite s m \<Rightarrow> Finite (\<not> s) m)"

definition f32_sub :: "ieee \<Rightarrow> ieee \<Rightarrow> ieee" where
  "f32_sub x y = f32_add x (ieee_neg y)"

definition f32_div :: "ieee \<Rightarrow> ieee \<Rightarrow> ieee" where
  "f32_div x y =
     (case (x, y) of
        (Finite s m, Finite t n) \<Rightarrow>
          if n = 0 then (if m = 0 then NaN else Infinite (s \<noteq> t)) else to_f32 (s \<noteq> t) (m / n)
      | (Infinite s, Finite t _) \<Rightarrow> Infinite (s \<noteq> t)
      | (Finite s _, Infinite t) \<Rightarrow> Finite (s \<noteq> t) 0
      | _ \<Rightarrow> NaN)"

text \<open>\<open>round()\<close> of a non-negative value: the nearest integer, halves upward.\<close>

definition round_nonneg :: "rat \<Rightarrow> nat" where
  "round_nonneg x = nat \<lfloor>x + 1 / 2\<rfloor>"

lemma round_nonneg_mono: "x \<le> y \<Longrightarrow> round_nonneg x \<le> round_nonneg y"
  unfolding round_nonneg_def by (intro nat_mono floor_mono) simp

lemma round_nonneg_of_nat [simp]: "round_nonneg (of_nat n) = n"
proof -
  have "\<lfloor>of_nat n + 1 / 2 :: rat\<rfloor> = int n" by (rule floor_unique) simp_all
  then show ?thesis by (simp add: round_nonneg_def)
qed

section \<open>Rounding keeps whole bounds\<close>

lemma pow2_powi: "pow2 k = 2 powi k"
  by (simp add: pow2_def power_int_def inverse_eq_divide power_one_over)

lemma pow2_pos [simp]: "0 < pow2 k"
  by (simp add: pow2_powi)

lemma pow2_of_nat: "pow2 (int k) = 2 ^ k"
  by (simp add: pow2_def)

lemma pow2_mono: "a \<le> b \<Longrightarrow> pow2 a \<le> pow2 b"
  by (simp add: pow2_powi power_int_increasing)

lemma bit_length_bounds: "0 < n \<Longrightarrow> 2 ^ (bit_length n - 1) \<le> n \<and> n < 2 ^ bit_length n \<and> 0 < bit_length n"
proof (induction n rule: bit_length.induct)
  case (1 n)
  show ?case
  proof (cases "n div 2 = 0")
    case True
    then have "n = 1" using 1(2) by (simp add: div_eq_0_iff)
    then show ?thesis by (simp add: bit_length.simps)
  next
    case False
    with 1 have ih: "2 ^ (bit_length (n div 2) - 1) \<le> n div 2" "n div 2 < 2 ^ bit_length (n div 2)"
      "0 < bit_length (n div 2)" by auto
    have len: "bit_length n = Suc (bit_length (n div 2))" using 1(2) by (simp add: bit_length.simps)
    obtain k where k: "bit_length (n div 2) = Suc k" using ih(3) gr0_conv_Suc by auto
    have "2 * (n div 2) \<le> n" "n < 2 * (n div 2) + 2" by presburger+
    then show ?thesis using ih unfolding len k by simp
  qed
qed

lemma ilog2_le:
  assumes "0 < x"
  shows "pow2 (ilog2 x) \<le> x"
proof -
  obtain n d where q: "quotient_of x = (n, d)" by (cases "quotient_of x")
  have d: "0 < d" and x: "x = of_int n / of_int d"
    using quotient_of_denom_pos [OF q] quotient_of_div [OF q] by auto
  have n: "0 < n" using assms d x by (simp add: zero_less_divide_iff)
  let ?a = "bit_length (nat n)" and ?b = "bit_length (nat d)"
  have a: "2 ^ (?a - 1) \<le> nat n" "0 < ?a" and b: "nat d < 2 ^ ?b"
    using bit_length_bounds [of "nat n"] bit_length_bounds [of "nat d"] n d by auto
  have "(2 :: rat) ^ (?a - 1) \<le> of_int n" using a(1) n by (metis of_nat_le_iff of_nat_nat of_nat_numeral of_nat_power less_imp_le of_int_of_nat_eq)
  moreover have "(of_int d :: rat) \<le> 2 ^ ?b" using b d by (metis less_imp_le of_int_of_nat_eq of_nat_le_iff of_nat_nat of_nat_numeral of_nat_power)
  ultimately have "2 ^ (?a - 1) / 2 ^ ?b \<le> x"
    unfolding x using d n by (intro frac_le) auto
  moreover have "pow2 (int ?a - int ?b - 1) = 2 ^ (?a - 1) / 2 ^ ?b"
  proof -
    have "pow2 (int ?a - int ?b - 1) = pow2 (int (?a - 1) - int ?b)" using a(2) by (simp add: algebra_simps)
    then show ?thesis by (simp add: pow2_powi power_int_diff)
  qed
  ultimately show ?thesis by (simp add: ilog2_def q Let_def)
qed

lemma round_half_even_le: "x \<le> of_int k \<Longrightarrow> round_half_even x \<le> k"
proof -
  assume le: "x \<le> of_int k"
  show ?thesis
  proof (cases "\<lfloor>x\<rfloor> < k")
    case True
    then show ?thesis by (simp add: round_half_even_def Let_def)
  next
    case False
    then have "\<lfloor>x\<rfloor> = k" using le by (metis floor_mono floor_of_int not_less order_antisym)
    then have "x = of_int k" using le by (metis of_int_floor_le order_antisym)
    then show ?thesis by (simp add: round_half_even_def)
  qed
qed

lemma round_half_even_nonneg: "0 \<le> x \<Longrightarrow> 0 \<le> round_half_even x"
  by (simp add: round_half_even_def Let_def)

text \<open>A magnitude of at most a whole number that the format holds rounds to at most that number.\<close>

lemma round_to_le:
  assumes "0 \<le> m" "m \<le> of_nat c" "c < 2 ^ p" "emin \<le> 0" "of_nat c < pow2 emax"
  shows "\<exists>v. round_to p emin emax s m = Finite s v \<and> 0 \<le> v \<and> v \<le> of_nat c"
proof (cases "m = 0")
  case True
  then show ?thesis by (simp add: round_to_def)
next
  case False
  define e where "e = max emin (ilog2 m - int p + 1)"
  have "m < 2 ^ p"
    using assms(2,3) by (metis le_less_trans of_nat_less_iff of_nat_numeral of_nat_power)
  with ilog2_le [of m] assms(1) False have "pow2 (ilog2 m) < pow2 (int p)" by (simp add: pow2_of_nat)
  then have "ilog2 m < int p" using pow2_mono [of "int p" "ilog2 m"] by linarith
  then have e: "e \<le> 0" using assms(4) by (simp add: e_def)
  have unit: "pow2 e * 2 ^ nat (- e) = 1" using e by (simp add: pow2_def)
  have "m / pow2 e \<le> of_nat c / pow2 e" using assms(2) by (simp add: divide_right_mono less_imp_le)
  also have "\<dots> = of_int (int c * 2 ^ nat (- e))" by (simp add: divide_inverse inverse_unique [OF unit])
  finally have "round_half_even (m / pow2 e) \<le> int c * 2 ^ nat (- e)" by (rule round_half_even_le)
  then have "(of_int (round_half_even (m / pow2 e)) :: rat) \<le> of_int (int c * 2 ^ nat (- e))" by (simp only: of_int_le_iff)
  then have "of_int (round_half_even (m / pow2 e)) * pow2 e \<le> of_int (int c * 2 ^ nat (- e)) * pow2 e"
    by (rule mult_right_mono) (simp add: less_imp_le)
  also have "\<dots> = of_nat c" using unit by (simp add: mult.assoc mult.commute [of "2 ^ nat (- e)"])
  finally have le: "of_int (round_half_even (m / pow2 e)) * pow2 e \<le> of_nat c" .
  moreover have "0 \<le> of_int (round_half_even (m / pow2 e)) * pow2 e"
    using assms(1) by (simp add: round_half_even_nonneg less_imp_le)
  ultimately show ?thesis
    using False assms(5) by (simp add: round_to_def Let_def e_def [symmetric])
qed

text \<open>A magnitude is not negative.\<close>

definition proper :: "ieee \<Rightarrow> bool" where
  "proper x = (case x of Finite _ m \<Rightarrow> 0 \<le> m | _ \<Rightarrow> True)"

lemma round_to_proper: "0 \<le> m \<Longrightarrow> proper (round_to p emin emax s m)"
  by (simp add: round_to_def proper_def Let_def round_half_even_nonneg less_imp_le)

lemma cast_f32_le:
  assumes "is_finite x" "proper x" "- of_nat c \<le> value_of x" "value_of x \<le> of_nat c" "c < 2 ^ 24"
  shows "is_finite (cast_f32 x) \<and> - of_nat c \<le> value_of (cast_f32 x) \<and> value_of (cast_f32 x) \<le> of_nat c"
proof -
  obtain s m where x: "x = Finite s m" "0 \<le> m" using assms(1,2) by (cases x) (auto simp: is_finite_def proper_def)
  have m: "m \<le> of_nat c" using assms(3,4) x by (auto simp: value_of_def signed_def split: if_splits)
  have "(2 :: rat) ^ 24 < pow2 128" by (simp add: pow2_def)
  then have "of_nat c < pow2 128" using assms(5)
    by (metis less_trans of_nat_less_iff of_nat_numeral of_nat_power)
  from round_to_le [OF x(2) m assms(5) _ this, of "- 149" s]
  obtain v where "to_f32 s m = Finite s v" "0 \<le> v" "v \<le> of_nat c" by (auto simp: to_f32_def)
  then show ?thesis by (auto simp: x cast_f32_def is_finite_def value_of_def signed_def)
qed

end
