(* ===== verification/Edit_Recipe.thy ===== *)
theory Edit_Recipe
  imports IEEE_Floats
begin

text \<open>
  The edit recipe (\<open>edit/recipe.rs\<close>): its settings, their validation to one canonical form,
  the crop in pixels of a source, and the copy of selected groups between recipes. The
  serializer and the digest of the canonical bytes are functions of the environment.
\<close>

section \<open>Data\<close>

record normalized_rect =
  rect_left :: ieee
  rect_top :: ieee
  rect_right :: ieee
  rect_bottom :: ieee

datatype white_balance = AsShot | TemperatureTint nat ieee

record sharpening =
  sharpen_amount :: ieee
  radius_px :: ieee

record noise_reduction =
  luminance :: ieee
  chroma :: ieee

text \<open>The one version, \<open>Recipe::V1\<close>.\<close>

record recipe =
  crop :: "normalized_rect option"
  straighten_degrees :: ieee
  exposure_ev :: ieee
  wb :: white_balance
  contrast :: ieee
  highlights :: ieee
  shadows :: ieee
  saturation :: ieee
  vibrance :: ieee
  sharpening :: sharpening
  noise_reduction :: noise_reduction

datatype adjustment_group =
  Geometry | Exposure | WhiteBalance | Tone | Color | Sharpening | NoiseReduction

datatype recipe_error = RecipeError string | RecipeOverflow

record validated_recipe =
  vrecipe :: recipe
  canonical :: "byte list"
  recipe_digest :: string

record recipe_env =
  serialize :: "recipe \<Rightarrow> string + byte list"
  recipe_blake3 :: "byte list \<Rightarrow> string"

definition zero :: ieee where
  "zero = Finite False 0"

definition default_recipe :: recipe where
  "default_recipe = \<lparr>crop = None, straighten_degrees = zero, exposure_ev = zero, wb = AsShot, contrast = zero,
     highlights = zero, shadows = zero, saturation = zero, vibrance = zero,
     sharpening = \<lparr>sharpen_amount = zero, radius_px = Finite False 1\<rparr>,
     noise_reduction = \<lparr>luminance = zero, chroma = zero\<rparr>\<rparr>"

section \<open>Validation\<close>

text \<open>A bound and the way it is shown; the constants are exact in single precision but \<open>0.1\<close>.\<close>

type_synonym bound = "rat \<times> string"

definition tenth :: rat where
  "tenth = 13421773 / 134217728"

definition checked :: "string \<Rightarrow> bound \<Rightarrow> bound \<Rightarrow> ieee \<Rightarrow> recipe_error + ieee" where
  "checked name lo hi v =
     (if \<not> is_finite v \<or> less_const v (fst lo) \<or> greater_const v (fst hi)
      then Inl (RecipeError (name @ '' must be finite in ['' @ snd lo @ '', '' @ snd hi @ '']''))
      else if is_zero v then Inr zero else Inr v)"

definition validate_wb :: "white_balance \<Rightarrow> recipe_error + white_balance" where
  "validate_wb w =
     (case w of
        AsShot \<Rightarrow> Inr AsShot
      | TemperatureTint kelvin tint \<Rightarrow>
          if \<not> (2000 \<le> kelvin \<and> kelvin \<le> 50000)
          then Inl (RecipeError ''white balance kelvin must be 2000..=50000'')
          else tryr (checked ''white_balance.tint'' (-150, ''-150'') (150, ''150'') tint) (\<lambda>t.
               Inr (TemperatureTint kelvin t)))"

definition validate_crop :: "normalized_rect option \<Rightarrow> recipe_error + normalized_rect option" where
  "validate_crop c =
     (case c of
        None \<Rightarrow> Inr None
      | Some r \<Rightarrow>
          tryr (checked ''crop.left'' (0, ''0'') (1, ''1'') (rect_left r)) (\<lambda>l.
          tryr (checked ''crop.top'' (0, ''0'') (1, ''1'') (rect_top r)) (\<lambda>t.
          tryr (checked ''crop.right'' (0, ''0'') (1, ''1'') (rect_right r)) (\<lambda>rt.
          tryr (checked ''crop.bottom'' (0, ''0'') (1, ''1'') (rect_bottom r)) (\<lambda>b.
          if ieee_ge l rt \<or> ieee_ge t b then Inl (RecipeError ''crop must have positive width and height'')
          else Inr (Some \<lparr>rect_left = l, rect_top = t, rect_right = rt, rect_bottom = b\<rparr>))))))"

definition normalize :: "recipe \<Rightarrow> recipe_error + recipe" where
  "normalize r =
     tryr (checked ''straighten_degrees'' (-45, ''-45'') (45, ''45'') (straighten_degrees r)) (\<lambda>sd.
     tryr (checked ''exposure_ev'' (-10, ''-10'') (10, ''10'') (exposure_ev r)) (\<lambda>ev.
     tryr (checked ''contrast'' (-1, ''-1'') (1, ''1'') (contrast r)) (\<lambda>co.
     tryr (checked ''highlights'' (-1, ''-1'') (1, ''1'') (highlights r)) (\<lambda>hi.
     tryr (checked ''shadows'' (-1, ''-1'') (1, ''1'') (shadows r)) (\<lambda>sh.
     tryr (checked ''saturation'' (-1, ''-1'') (1, ''1'') (saturation r)) (\<lambda>sa.
     tryr (checked ''vibrance'' (-1, ''-1'') (1, ''1'') (vibrance r)) (\<lambda>vi.
     tryr (checked ''sharpening.amount'' (0, ''0'') (2, ''2'') (sharpen_amount (sharpening r))) (\<lambda>am.
     tryr (checked ''sharpening.radius_px'' (tenth, ''0.1'') (10, ''10'') (radius_px (sharpening r))) (\<lambda>ra.
     tryr (checked ''noise_reduction.luminance'' (0, ''0'') (1, ''1'') (luminance (noise_reduction r))) (\<lambda>lu.
     tryr (checked ''noise_reduction.chroma'' (0, ''0'') (1, ''1'') (chroma (noise_reduction r))) (\<lambda>ch.
     tryr (validate_wb (wb r)) (\<lambda>w.
     tryr (validate_crop (crop r)) (\<lambda>c.
     Inr \<lparr>crop = c, straighten_degrees = sd, exposure_ev = ev, wb = w, contrast = co, highlights = hi, shadows = sh,
       saturation = sa, vibrance = vi, sharpening = \<lparr>sharpen_amount = am, radius_px = ra\<rparr>,
       noise_reduction = \<lparr>luminance = lu, chroma = ch\<rparr>\<rparr>)))))))))))))"

definition validate :: "recipe_env \<Rightarrow> recipe \<Rightarrow> recipe_error + validated_recipe" where
  "validate e r =
     tryr (normalize r) (\<lambda>n.
     tryr (map_err RecipeError (serialize e n)) (\<lambda>bytes.
     Inr \<lparr>vrecipe = n, canonical = bytes, recipe_digest = recipe_blake3 e bytes\<rparr>))"

section \<open>Pixels\<close>

text \<open>
  The edge of a crop in pixels. A single-precision fraction times a dimension of at most
  sixteen bits has at most forty significant bits, so the product is exact in double precision.
\<close>

definition pixel_edge :: "ieee \<Rightarrow> nat \<Rightarrow> nat" where
  "pixel_edge x n = round_nonneg (value_of x * of_nat n)"

definition pixel_span :: "ieee \<Rightarrow> ieee \<Rightarrow> nat \<Rightarrow> recipe_error + nat" where
  "pixel_span lo hi n =
     (case checked_sub (pixel_edge hi n) (pixel_edge lo n) of
        None \<Rightarrow> Inl RecipeOverflow
      | Some d \<Rightarrow> Inr d)"

definition validate_dimensions :: "validated_recipe \<Rightarrow> nat \<Rightarrow> nat \<Rightarrow> recipe_error + nat \<times> nat" where
  "validate_dimensions v w h =
     (if w = 0 \<or> h = 0 \<or> w > 40000 \<or> h > 40000 \<or> w * h > 100000000
      then Inl (RecipeError ''source dimensions must be nonzero and within 100 MP/40000 per edge'')
      else
        case crop (vrecipe v) of
          None \<Rightarrow> Inr (w, h)
        | Some c \<Rightarrow>
            tryr (pixel_span (rect_left c) (rect_right c) w) (\<lambda>cw.
            tryr (pixel_span (rect_top c) (rect_bottom c) h) (\<lambda>ch.
            if cw = 0 \<or> ch = 0 then Inl (RecipeError ''crop collapses at this source resolution'')
            else Inr (cw, ch))))"

section \<open>Copying groups\<close>

definition copy_group :: "recipe \<Rightarrow> adjustment_group \<Rightarrow> recipe \<Rightarrow> recipe" where
  "copy_group s g t =
     (case g of
        Geometry \<Rightarrow> t\<lparr>crop := crop s, straighten_degrees := straighten_degrees s\<rparr>
      | Exposure \<Rightarrow> t\<lparr>exposure_ev := exposure_ev s\<rparr>
      | WhiteBalance \<Rightarrow> t\<lparr>wb := wb s\<rparr>
      | Tone \<Rightarrow> t\<lparr>contrast := contrast s, highlights := highlights s, shadows := shadows s\<rparr>
      | Color \<Rightarrow> t\<lparr>saturation := saturation s, vibrance := vibrance s\<rparr>
      | Sharpening \<Rightarrow> t\<lparr>sharpening := sharpening s\<rparr>
      | NoiseReduction \<Rightarrow> t\<lparr>noise_reduction := noise_reduction s\<rparr>)"

definition copy_groups_from :: "recipe_env \<Rightarrow> recipe \<Rightarrow> recipe \<Rightarrow> adjustment_group list \<Rightarrow> recipe_error + validated_recipe" where
  "copy_groups_from e target source groups =
     tryr (validate e target) (\<lambda>t.
     tryr (validate e source) (\<lambda>s.
     validate e (fold (copy_group (vrecipe s)) groups (vrecipe t))))"

section \<open>Canonical recipes\<close>

text \<open>A value in its range, with one representation of zero.\<close>

definition in_range :: "rat \<Rightarrow> rat \<Rightarrow> ieee \<Rightarrow> bool" where
  "in_range lo hi v \<longleftrightarrow> is_finite v \<and> lo \<le> value_of v \<and> value_of v \<le> hi \<and> (is_zero v \<longrightarrow> v = zero)"

definition wb_ok :: "white_balance \<Rightarrow> bool" where
  "wb_ok w = (case w of AsShot \<Rightarrow> True | TemperatureTint k t \<Rightarrow> 2000 \<le> k \<and> k \<le> 50000 \<and> in_range (-150) 150 t)"

definition crop_ok :: "normalized_rect option \<Rightarrow> bool" where
  "crop_ok c = (case c of None \<Rightarrow> True
     | Some r \<Rightarrow> in_range 0 1 (rect_left r) \<and> in_range 0 1 (rect_top r) \<and> in_range 0 1 (rect_right r) \<and> in_range 0 1 (rect_bottom r)
         \<and> value_of (rect_left r) < value_of (rect_right r) \<and> value_of (rect_top r) < value_of (rect_bottom r))"

definition recipe_ok :: "recipe \<Rightarrow> bool" where
  "recipe_ok r \<longleftrightarrow>
     in_range (-45) 45 (straighten_degrees r) \<and> in_range (-10) 10 (exposure_ev r)
     \<and> in_range (-1) 1 (contrast r) \<and> in_range (-1) 1 (highlights r) \<and> in_range (-1) 1 (shadows r)
     \<and> in_range (-1) 1 (saturation r) \<and> in_range (-1) 1 (vibrance r)
     \<and> in_range 0 2 (sharpen_amount (sharpening r)) \<and> in_range tenth 10 (radius_px (sharpening r))
     \<and> in_range 0 1 (luminance (noise_reduction r)) \<and> in_range 0 1 (chroma (noise_reduction r))
     \<and> wb_ok (wb r) \<and> crop_ok (crop r)"

lemma checked_Inr_iff:
  "checked n (lo, lt) (hi, ht) v = Inr x \<longleftrightarrow>
     in_range lo hi x \<and> (x = v \<or> is_zero v \<and> x = zero)"
  by (cases v) (auto simp: checked_def in_range_def is_finite_def less_const_def greater_const_def is_zero_def value_of_def
      zero_def signed_def)

lemma checked_ok: "checked n (lo, lt) (hi, ht) v = Inr x \<Longrightarrow> in_range lo hi x"
  by (simp add: checked_Inr_iff)

lemma checked_same: "in_range lo hi x \<Longrightarrow> checked n (lo, lt) (hi, ht) x = Inr x"
  by (simp add: checked_Inr_iff)

lemma in_range_ge: "in_range a b l \<Longrightarrow> in_range c d r \<Longrightarrow> ieee_ge l r \<longleftrightarrow> value_of r \<le> value_of l"
  by (auto simp: in_range_def is_finite_def ieee_ge_def value_of_def split: ieee.splits)

lemma validate_wb_ok: "validate_wb w = Inr w' \<Longrightarrow> wb_ok w'"
  by (auto simp: validate_wb_def wb_ok_def tryr_Inr_iff dest: checked_ok split: white_balance.splits if_splits)

lemma validate_wb_same: "wb_ok w \<Longrightarrow> validate_wb w = Inr w"
  by (auto simp: validate_wb_def wb_ok_def checked_same split: white_balance.splits)

lemma validate_crop_ok: "validate_crop c = Inr c' \<Longrightarrow> crop_ok c'"
  by (auto simp: validate_crop_def crop_ok_def tryr_Inr_iff in_range_ge dest!: checked_ok split: option.splits if_splits)

lemma validate_crop_same: "crop_ok c \<Longrightarrow> validate_crop c = Inr c"
  by (auto simp: validate_crop_def crop_ok_def checked_same in_range_ge split: option.splits)

lemma normalize_ok: "normalize r = Inr n \<Longrightarrow> recipe_ok n"
  by (auto simp: normalize_def recipe_ok_def tryr_Inr_iff dest!: checked_ok validate_wb_ok validate_crop_ok)

lemma normalize_same: "recipe_ok r \<Longrightarrow> normalize r = Inr r"
  by (auto simp: normalize_def recipe_ok_def checked_same validate_wb_same validate_crop_same)

lemma validate_ok: "validate e r = Inr v \<Longrightarrow> recipe_ok (vrecipe v)"
  by (auto simp: validate_def tryr_Inr_iff dest: normalize_ok)

end
