(* ===== verification/Edit_Properties.thy ===== *)
theory Edit_Properties
  imports Edit_Recipe
begin

text \<open>
  The properties of recipes: validation reaches one canonical form and keeps it, copying
  groups is a choice field by field, and a validated crop always has its pixels.
\<close>

text \<open>A recipe environment that never fails, for the concrete instances.\<close>

definition plain_env :: recipe_env where
  "plain_env = \<lparr>serialize = (\<lambda>_. Inr [1]), recipe_blake3 = concat \<circ> map hex2\<rparr>"

lemma default_recipe_ok: "recipe_ok default_recipe"
  by (simp add: recipe_ok_def default_recipe_def in_range_def is_finite_def value_of_def zero_def signed_def is_zero_def
      wb_ok_def crop_ok_def tenth_def)

text \<open>
  C35: Validation reaches a canonical recipe in one step: what it returns has every setting in
  its range, only the positive zero, and a crop of positive extent, and validating it again
  gives back the same recipe, the same canonical bytes and the same digest.
\<close>

theorem validate_canonical:
  assumes "validate e r = Inr v"
  shows "recipe_ok (vrecipe v) \<and> validate e (vrecipe v) = Inr v"
  using assms normalize_same by (auto simp: validate_def tryr_Inr_iff dest: normalize_ok)

lemma validate_canonical_witness:
  "\<exists>v. validate plain_env (default_recipe\<lparr>contrast := Finite True 0\<rparr>) = Inr v \<and> recipe_ok (vrecipe v)"
proof -
  have "normalize (default_recipe\<lparr>contrast := Finite True 0\<rparr>) = Inr default_recipe"
    by (simp add: normalize_def default_recipe_def checked_def is_finite_def less_const_def greater_const_def signed_def
        is_zero_def zero_def validate_wb_def validate_crop_def tenth_def)
  then have "validate plain_env (default_recipe\<lparr>contrast := Finite True 0\<rparr>)
     = Inr \<lparr>vrecipe = default_recipe, canonical = [1], recipe_digest = hex2 1\<rparr>"
    by (simp add: validate_def plain_env_def map_err_def)
  then show ?thesis using validate_canonical by blast
qed

section \<open>Copying groups\<close>

definition picked :: "adjustment_group set \<Rightarrow> recipe \<Rightarrow> recipe \<Rightarrow> recipe" where
  "picked G s t = \<lparr>
     crop = crop (if Geometry \<in> G then s else t),
     straighten_degrees = straighten_degrees (if Geometry \<in> G then s else t),
     exposure_ev = exposure_ev (if Exposure \<in> G then s else t),
     wb = wb (if WhiteBalance \<in> G then s else t),
     contrast = contrast (if Tone \<in> G then s else t),
     highlights = highlights (if Tone \<in> G then s else t),
     shadows = shadows (if Tone \<in> G then s else t),
     saturation = saturation (if Color \<in> G then s else t),
     vibrance = vibrance (if Color \<in> G then s else t),
     sharpening = sharpening (if Sharpening \<in> G then s else t),
     noise_reduction = noise_reduction (if NoiseReduction \<in> G then s else t)\<rparr>"

lemma copy_group_picked: "copy_group s g (picked G s t) = picked (insert g G) s t"
  by (cases g) (simp_all add: copy_group_def picked_def)

lemma fold_copy_groups: "fold (copy_group s) gs (picked G s t) = picked (G \<union> set gs) s t"
  by (induction gs arbitrary: G) (simp_all add: copy_group_picked)

lemma picked_none [simp]: "picked {} s t = t"
  by (simp add: picked_def)

lemma picked_ok: "recipe_ok s \<Longrightarrow> recipe_ok t \<Longrightarrow> recipe_ok (picked G s t)"
  by (simp add: recipe_ok_def picked_def)

text \<open>
  Copying adjustment groups is a choice made field by field: once both recipes are valid,
  the result is the validation of the recipe that has each selected group from the source and
  every other setting from the target; order and repetition of the groups make no
  difference, and the combination is always valid, so copying fails only where the
  serializer does.
\<close>

theorem copy_groups_picks:
  assumes "validate e target = Inr t" "validate e source = Inr s"
  shows "copy_groups_from e target source groups = validate e (picked (set groups) (vrecipe s) (vrecipe t))
     \<and> normalize (picked (set groups) (vrecipe s) (vrecipe t)) = Inr (picked (set groups) (vrecipe s) (vrecipe t))"
  using assms fold_copy_groups [of "vrecipe s" groups "{}" "vrecipe t"]
    normalize_same [OF picked_ok [OF validate_ok [OF assms(2)] validate_ok [OF assms(1)]]]
  by (simp add: copy_groups_from_def)

lemma copy_groups_picks_witness:
  "\<exists>v. copy_groups_from plain_env default_recipe (default_recipe\<lparr>contrast := Finite False (1 / 2)\<rparr>) [Tone, Color, Tone] = Inr v
     \<and> contrast (vrecipe v) = Finite False (1 / 2)"
proof -
  let ?s = "default_recipe\<lparr>contrast := Finite False (1 / 2)\<rparr>"
  have "recipe_ok ?s"
    using default_recipe_ok by (simp add: recipe_ok_def default_recipe_def in_range_def is_finite_def value_of_def signed_def is_zero_def)
  then have s: "validate plain_env ?s = Inr \<lparr>vrecipe = ?s, canonical = [1], recipe_digest = hex2 1\<rparr>"
    by (simp add: validate_def plain_env_def map_err_def normalize_same)
  have t: "validate plain_env default_recipe = Inr \<lparr>vrecipe = default_recipe, canonical = [1], recipe_digest = hex2 1\<rparr>"
    by (simp add: validate_def plain_env_def map_err_def normalize_same default_recipe_ok)
  from copy_groups_picks [OF t s, of "[Tone, Color, Tone]"] show ?thesis
    by (simp add: validate_def plain_env_def map_err_def) (simp add: picked_def)
qed

section \<open>Pixels\<close>

lemma pixel_edge_mono: "0 \<le> value_of x \<Longrightarrow> value_of x \<le> value_of y \<Longrightarrow> pixel_edge x n \<le> pixel_edge y n"
  unfolding pixel_edge_def by (intro round_nonneg_mono mult_right_mono) auto

lemma pixel_edge_le: "value_of x \<le> 1 \<Longrightarrow> pixel_edge x n \<le> n"
proof -
  assume "value_of x \<le> 1"
  then have "value_of x * of_nat n \<le> of_nat n" using mult_right_mono [of "value_of x" 1 "of_nat n"] by simp
  then have "round_nonneg (value_of x * of_nat n) \<le> round_nonneg (of_nat n)" by (rule round_nonneg_mono)
  then show ?thesis by (simp add: pixel_edge_def)
qed

lemma pixel_span_ok:
  assumes "in_range 0 1 l" "in_range 0 1 r" "value_of l < value_of r"
  shows "pixel_span l r n = Inr (pixel_edge r n - pixel_edge l n)"
  using assms pixel_edge_mono [of l r n] by (simp add: pixel_span_def in_range_def)

text \<open>
  The pixels of a validated recipe are within the source and never underflow: for any
  dimensions the answer is either a crop of positive extent no larger than the source or one
  of the two reported errors, the collapse of the crop among them; the subtraction of the
  edges cannot overflow.
\<close>

theorem validated_dimensions:
  assumes "validate e r = Inr v"
  shows "(\<exists>cw ch. validate_dimensions v w h = Inr (cw, ch) \<and> 0 < cw \<and> cw \<le> w \<and> 0 < ch \<and> ch \<le> h)
     \<or> validate_dimensions v w h = Inl (RecipeError ''source dimensions must be nonzero and within 100 MP/40000 per edge'')
     \<or> validate_dimensions v w h = Inl (RecipeError ''crop collapses at this source resolution'')"
proof (cases "crop (vrecipe v)")
  case None
  let ?bad = "w = 0 \<or> h = 0 \<or> w > 40000 \<or> h > 40000 \<or> w * h > 100000000"
  have eq: "validate_dimensions v w h = (if ?bad
    then Inl (RecipeError ''source dimensions must be nonzero and within 100 MP/40000 per edge'') else Inr (w, h))"
    by (simp only: validate_dimensions_def None option.case)
  show ?thesis
  proof (cases ?bad)
    case True
    then show ?thesis by (simp only: eq if_True) simp
  next
    case False
    then show ?thesis by (simp only: eq if_False) simp
  qed
next
  case (Some c)
  have "crop_ok (Some c)" using validate_ok [OF assms] Some by (simp add: recipe_ok_def)
  then have "pixel_span (rect_left c) (rect_right c) w = Inr (pixel_edge (rect_right c) w - pixel_edge (rect_left c) w)"
    "pixel_span (rect_top c) (rect_bottom c) h = Inr (pixel_edge (rect_bottom c) h - pixel_edge (rect_top c) h)"
    "pixel_edge (rect_right c) w \<le> w" "pixel_edge (rect_bottom c) h \<le> h"
    by (auto simp: crop_ok_def pixel_span_ok in_range_def intro: pixel_edge_le)
  with Some show ?thesis by (auto simp: validate_dimensions_def)
qed

lemma validated_dimensions_witness:
  "\<exists>v. validate plain_env default_recipe = Inr v
     \<and> ((\<exists>cw ch. validate_dimensions v 10 20 = Inr (cw, ch) \<and> 0 < cw \<and> cw \<le> 10 \<and> 0 < ch \<and> ch \<le> 20)
       \<or> validate_dimensions v 10 20 = Inl (RecipeError ''source dimensions must be nonzero and within 100 MP/40000 per edge'')
       \<or> validate_dimensions v 10 20 = Inl (RecipeError ''crop collapses at this source resolution''))"
proof -
  have "validate plain_env default_recipe = Inr \<lparr>vrecipe = default_recipe, canonical = [1], recipe_digest = hex2 1\<rparr>"
    by (simp add: validate_def plain_env_def map_err_def normalize_same default_recipe_ok)
  with validated_dimensions [OF this, of 10 20] show ?thesis by blast
qed

end
