(* ===== verification/Adobe_Data.thy ===== *)
theory Adobe_Data
  imports Utf8 IEEE_Floats
begin

text \<open>
  The data grammar of catalog develop settings (\<open>lightroom/adobe_data.rs\<close>): a recursive
  descent over UTF-8 text that builds a flat list of properties and refuses everything that
  is not data. Text is its bytes; slicing off a character boundary is \<open>Panicked\<close>. Loops
  carry as fuel the bytes left, the recursion the nesting limit.
\<close>

section \<open>Data\<close>

record data_limits =
  limit_bytes :: nat
  limit_properties :: nat
  limit_tokens :: nat
  limit_depth :: nat
  limit_string_bytes :: nat
  limit_output_bytes :: nat

datatype data_key = KeyName "byte list" | KeyIndex nat | KeyXml "byte list" "byte list" nat

datatype data_value = Number ieee | Boolean bool | Text "byte list" | Null | Container

datatype disposition = MappedParameter | RetainedOnly | Invalid | Conflicting

record data_property =
  prop_path :: "data_key list"
  prop_namespace :: "byte list option"
  prop_name :: "byte list"
  prop_lexical :: "byte list"
  prop_start :: nat
  prop_end :: nat
  prop_value :: data_value
  prop_disposition :: disposition
  prop_reason :: string

datatype failure_kind = ResourceLimit | InvalidSyntax | ConflictFailure

record data_failure =
  failure_kind :: failure_kind
  failure_message :: string

definition syntax_failure :: "string \<Rightarrow> data_failure" where
  "syntax_failure m = \<lparr>failure_kind = InvalidSyntax, failure_message = m\<rparr>"

definition limit_failure :: "string \<Rightarrow> data_failure" where
  "limit_failure m = \<lparr>failure_kind = ResourceLimit, failure_message = m\<rparr>"

definition conflict_failure :: "string \<Rightarrow> data_failure" where
  "conflict_failure m = \<lparr>failure_kind = ConflictFailure, failure_message = m\<rparr>"

datatype data_error = DataFailed data_failure | DataPanicked | DataFuel

record data_parser =
  src_text :: "byte list"
  data_limits :: data_limits
  cur :: nat
  tokens :: nat
  out_props :: "data_property list"

type_synonym 'a dcomp = "(data_parser, data_error, 'a) comp"

definition refuse :: "data_failure \<Rightarrow> 'a dcomp" where
  "refuse f = fail (DataFailed f)"

section \<open>Characters\<close>

definition chr :: "char \<Rightarrow> byte" where
  "chr c = of_char c"

definition is_digit :: "byte \<Rightarrow> bool" where
  "is_digit b \<longleftrightarrow> 48 \<le> b \<and> b \<le> 57"

definition is_alphabetic :: "byte \<Rightarrow> bool" where
  "is_alphabetic b \<longleftrightarrow> 65 \<le> b \<and> b \<le> 90 \<or> 97 \<le> b \<and> b \<le> 122"

definition is_alphanumeric :: "byte \<Rightarrow> bool" where
  "is_alphanumeric b \<longleftrightarrow> is_alphabetic b \<or> is_digit b"

definition is_hexdigit :: "byte \<Rightarrow> bool" where
  "is_hexdigit b \<longleftrightarrow> is_digit b \<or> 65 \<le> b \<and> b \<le> 70 \<or> 97 \<le> b \<and> b \<le> 102"

definition is_whitespace :: "byte \<Rightarrow> bool" where
  "is_whitespace b \<longleftrightarrow> b \<in> {9, 10, 12, 13, 32}"

definition digit_value :: "byte \<Rightarrow> nat" where
  "digit_value b = unat b - 48"

definition hex_value :: "byte \<Rightarrow> nat" where
  "hex_value b = (if is_digit b then unat b - 48 else if 97 \<le> b then unat b - 87 else unat b - 55)"

definition decimal :: "byte list \<Rightarrow> nat" where
  "decimal ds = foldl (\<lambda>n d. n * 10 + digit_value d) 0 ds"

section \<open>Numbers\<close>

definition at_sign :: "byte list \<Rightarrow> bool" where
  "at_sign b = (case b of c # _ \<Rightarrow> c = 43 \<or> c = 45 | [] \<Rightarrow> False)"

definition skip_sign :: "byte list \<Rightarrow> byte list" where
  "skip_sign b = (if at_sign b then tl b else b)"

definition pow10 :: "int \<Rightarrow> rat" where
  "pow10 k = (if 0 \<le> k then 10 ^ nat k else 1 / 10 ^ nat (- k))"

text \<open>
  The decimal grammar, and \<open>parse::<f64>\<close> on what it admits: the nearest double of the
  decimal value, with its sign.
\<close>

definition number :: "byte list \<Rightarrow> data_failure + ieee" where
  "number b =
     (let unsigned = skip_sign b;
          whole = takeWhile is_digit unsigned;
          rest = dropWhile is_digit unsigned;
          dot = (case rest of c # _ \<Rightarrow> c = 46 | [] \<Rightarrow> False);
          fraction = (if dot then takeWhile is_digit (tl rest) else []);
          rest1 = (if dot then dropWhile is_digit (tl rest) else rest) in
      if whole @ fraction = [] then Inl (syntax_failure ''expected decimal number'')
      else
        let expo = (case rest1 of c # _ \<Rightarrow> c = 101 \<or> c = 69 | [] \<Rightarrow> False);
            after = (if expo then tl rest1 else rest1);
            edigits = (if expo then takeWhile is_digit (skip_sign after) else []);
            rest2 = (if expo then dropWhile is_digit (skip_sign after) else rest1) in
        if expo \<and> edigits = [] then Inl (syntax_failure ''incomplete decimal exponent'')
        else if rest2 \<noteq> [] then Inl (syntax_failure ''non-decimal numeric expression'')
        else
          let e = (if at_sign after \<and> hd after = 45 then - int (decimal edigits) else int (decimal edigits));
              magnitude = of_nat (decimal (whole @ fraction)) * pow10 (e - int (length fraction));
              n = to_f64 (at_sign b \<and> hd b = 45) magnitude in
          if \<not> is_finite n then Inl (syntax_failure ''nonfinite or overflowing number'')
          else if is_zero n \<and> list_ex (\<lambda>c. 49 \<le> c \<and> c \<le> 57) (takeWhile (\<lambda>c. c \<noteq> 101 \<and> c \<noteq> 69) b)
          then Inl (syntax_failure ''numeric underflow'')
          else Inr n)"

section \<open>The cursor\<close>

definition peek :: "byte option dcomp" where
  "peek = getc (\<lambda>s. if cur s < length (src_text s) then Some (src_text s ! cur s) else None)"

definition advance :: "nat \<Rightarrow> unit dcomp" where
  "advance n = modc (\<lambda>s. s\<lparr>cur := cur s + n\<rparr>)"

definition skip_while :: "(byte \<Rightarrow> bool) \<Rightarrow> unit dcomp" where
  "skip_while P = modc (\<lambda>s. s\<lparr>cur := cur s + length (takeWhile P (drop (cur s) (src_text s)))\<rparr>)"

text \<open>\<open>&text[i..j]\<close> and \<open>&text[i..]\<close>.\<close>

definition slice_text :: "nat \<Rightarrow> nat \<Rightarrow> byte list dcomp" where
  "slice_text i j =
     bindc (getc src_text) (\<lambda>t.
     if i \<le> j \<and> char_boundary t i \<and> char_boundary t j then ret (take (j - i) (drop i t)) else fail DataPanicked)"

definition text_from :: "nat \<Rightarrow> byte list dcomp" where
  "text_from i =
     bindc (getc src_text) (\<lambda>t. if char_boundary t i then ret (drop i t) else fail DataPanicked)"

definition token :: "unit dcomp" where
  "token =
     bindc (modc (tokens_update Suc)) (\<lambda>_.
     bindc (getc (\<lambda>s. tokens s > limit_tokens (data_limits s))) (\<lambda>over.
     if over then refuse (limit_failure ''catalog token limit'') else ret ()))"

text \<open>The level of a long bracket at the cursor.\<close>

definition bracket_level :: "byte list \<Rightarrow> nat option" where
  "bracket_level b =
     (case b of
        c # rest \<Rightarrow>
          if c \<noteq> 91 then None
          else if (case dropWhile (\<lambda>x. x = 61) rest of d # _ \<Rightarrow> d = 91 | [] \<Rightarrow> False)
          then Some (length (takeWhile (\<lambda>x. x = 61) rest)) else None
      | [] \<Rightarrow> None)"

definition long_level :: "nat option dcomp" where
  "long_level = getc (\<lambda>s. bracket_level (drop (cur s) (src_text s)))"

text \<open>\<open>str::find\<close> and the two replacements of line ends.\<close>

fun find_sub :: "byte list \<Rightarrow> byte list \<Rightarrow> nat option" where
  "find_sub p [] = (if p = [] then Some 0 else None)"
| "find_sub p (x # xs) = (if starts_with p (x # xs) then Some 0 else map_option Suc (find_sub p xs))"

fun replace_crlf :: "byte list \<Rightarrow> byte list" where
  "replace_crlf (a # b # xs) = (if a = 13 \<and> b = 10 then 10 # replace_crlf xs else a # replace_crlf (b # xs))"
| "replace_crlf xs = xs"

definition normalize_lines :: "byte list \<Rightarrow> byte list" where
  "normalize_lines b = map (\<lambda>c. if c = 13 then 10 else c) (replace_crlf b)"

definition long_string :: "byte list dcomp" where
  "long_string =
     bindc long_level (\<lambda>lvl.
     case lvl of
       None \<Rightarrow> refuse (syntax_failure ''invalid long string'')
     | Some level \<Rightarrow>
         if level > 8 then refuse (limit_failure ''long string delimiter limit'')
         else
           bindc (advance (level + 2)) (\<lambda>_.
           bindc (getc cur) (\<lambda>open'.
           bindc (text_from open') (\<lambda>body.
           let start = (if starts_with [13, 10] body then open' + 2
                        else if starts_with [13] body \<or> starts_with [10] body then open' + 1 else open');
               endmark = [93] @ replicate level 61 @ [93] in
           case find_sub endmark body of
             None \<Rightarrow> refuse (syntax_failure ''unterminated long string/comment'')
           | Some count \<Rightarrow>
               let end' = open' + count in
               bindc (getc (\<lambda>s. end' - start > limit_string_bytes (data_limits s))) (\<lambda>over.
               if over then refuse (limit_failure ''long string limit'')
               else
                 bindc (modc (cur_update (\<lambda>_. end' + length endmark))) (\<lambda>_.
                 bindc token (\<lambda>_.
                 bindc (slice_text (min start end') end') (\<lambda>v. ret (normalize_lines v)))))))))"

text \<open>One turn of \<open>space\<close>: whitespace, then a comment or the end of the gap.\<close>

definition space_step :: "unit \<Rightarrow> (unit + unit) dcomp" where
  "space_step _ =
     bindc (skip_while is_whitespace) (\<lambda>_.
     bindc (getc cur) (\<lambda>i.
     bindc (text_from i) (\<lambda>rest.
     if \<not> starts_with [45, 45] rest then ret (Inr ())
     else
       bindc (advance 2) (\<lambda>_.
       bindc token (\<lambda>_.
       bindc long_level (\<lambda>lvl.
       bindc (if lvl \<noteq> None then bindc long_string (\<lambda>_. ret ())
              else skip_while (\<lambda>b. b \<noteq> 10 \<and> b \<noteq> 13)) (\<lambda>_.
       ret (Inl ()))))))))"

definition space :: "unit dcomp" where
  "space = (\<lambda>s. loopc (Suc (length (src_text s) - cur s)) DataFuel space_step () s)"

definition take_char :: "byte \<Rightarrow> unit dcomp" where
  "take_char c =
     bindc space (\<lambda>_.
     bindc peek (\<lambda>p.
     if p \<noteq> Some c then refuse (syntax_failure ''unexpected catalog punctuation'')
     else bindc (advance 1) (\<lambda>_. token)))"

definition data_name :: "byte list dcomp" where
  "data_name =
     bindc space (\<lambda>_.
     bindc (getc cur) (\<lambda>start.
     bindc peek (\<lambda>p.
     if \<not> (case p of Some c \<Rightarrow> is_alphabetic c \<or> c = 95 | None \<Rightarrow> False)
     then refuse (syntax_failure ''expected data name'')
     else
       bindc (advance 1) (\<lambda>_.
       bindc (skip_while (\<lambda>c. is_alphanumeric c \<or> c = 95)) (\<lambda>_.
       bindc (getc (\<lambda>s. cur s - start > limit_string_bytes (data_limits s))) (\<lambda>over.
       if over then refuse (limit_failure ''identifier limit'')
       else
         bindc token (\<lambda>_.
         bindc (getc cur) (\<lambda>stop. slice_text start stop))))))))"

section \<open>Strings\<close>

text \<open>The decimal escape: up to two further digits.\<close>

definition decimal_escape :: "byte \<Rightarrow> nat dcomp" where
  "decimal_escape first =
     bindc (getc (\<lambda>s. take 2 (takeWhile is_digit (drop (cur s) (src_text s))))) (\<lambda>more.
     bindc (advance (length more)) (\<lambda>_.
     ret (decimal (first # more))))"

definition hex_escape :: "nat dcomp" where
  "hex_escape =
     bindc (getc cur) (\<lambda>i.
     bindc (getc src_text) (\<lambda>t.
     if \<not> (i + 2 \<le> length t \<and> char_boundary t i \<and> char_boundary t (i + 2))
     then refuse (syntax_failure ''short hex escape'')
     else
       let hex = take 2 (drop i t) in
       if \<not> list_all is_hexdigit hex then refuse (syntax_failure ''bad hex escape'')
       else
         bindc (modc (cur_update (\<lambda>_. i + 2))) (\<lambda>_.
         ret (hex_value (hex ! 0) * 16 + hex_value (hex ! 1)))))"

definition escape :: "byte list \<Rightarrow> byte list dcomp" where
  "escape value =
     bindc peek (\<lambda>p.
     case p of
       None \<Rightarrow> refuse (syntax_failure ''truncated escape'')
     | Some c \<Rightarrow>
         bindc (advance 1) (\<lambda>_.
         if c = chr (CHR ''a'') then ret (value @ [7])
         else if c = chr (CHR ''b'') then ret (value @ [8])
         else if c = chr (CHR ''f'') then ret (value @ [12])
         else if c = chr (CHR ''n'') then ret (value @ [10])
         else if c = chr (CHR ''r'') then ret (value @ [13])
         else if c = chr (CHR ''t'') then ret (value @ [9])
         else if c = chr (CHR ''v'') then ret (value @ [11])
         else if c = 92 \<or> c = 39 \<or> c = 34 then ret (value @ [c])
         else if c = 10 then ret (value @ [10])
         else if c = 13 then
           bindc peek (\<lambda>q.
           bindc (if q = Some 10 then advance 1 else ret ()) (\<lambda>_. ret (value @ [10])))
         else if is_digit c then
           bindc (decimal_escape c) (\<lambda>n.
           if n > 255 then refuse (syntax_failure ''decimal byte escape exceeds255'')
           else ret (value @ [word_of_nat n]))
         else if c = chr (CHR ''x'') then bindc hex_escape (\<lambda>n. ret (value @ [word_of_nat n]))
         else refuse (syntax_failure ''unsupported string escape'')))"

definition string_step :: "byte \<Rightarrow> byte list \<Rightarrow> (byte list + byte list) dcomp" where
  "string_step quote value =
     bindc peek (\<lambda>p.
     case p of
       None \<Rightarrow> refuse (syntax_failure ''unterminated string'')
     | Some c \<Rightarrow>
         bindc (advance 1) (\<lambda>_.
         if c = quote then ret (Inr value)
         else if c = 10 \<or> c = 13 \<or> c = 0 then refuse (syntax_failure ''unescaped newline or NUL in short string'')
         else
           bindc (if c \<noteq> 92 then ret (value @ [c]) else escape value) (\<lambda>value'.
           bindc (getc (\<lambda>s. length value' > limit_string_bytes (data_limits s))) (\<lambda>over.
           if over then refuse (limit_failure ''decoded string limit'') else ret (Inl value')))))"

definition quoted_string :: "byte list dcomp" where
  "quoted_string =
     bindc space (\<lambda>_.
     bindc long_level (\<lambda>lvl.
     if lvl \<noteq> None then long_string
     else
       bindc peek (\<lambda>p.
       case p of
         Some quote \<Rightarrow>
           if quote \<noteq> 39 \<and> quote \<noteq> 34 then refuse (syntax_failure ''expected quoted string'')
           else
             bindc (advance 1) (\<lambda>_.
             bindc (\<lambda>s. loopc (Suc (length (src_text s) - cur s)) DataFuel (string_step quote) [] s) (\<lambda>value.
             bindc token (\<lambda>_.
             if valid_utf8 value then ret value
             else refuse (syntax_failure ''escaped non-UTF8 data remains retained''))))
       | None \<Rightarrow> refuse (syntax_failure ''expected quoted string''))))"

section \<open>Values and tables\<close>

definition push_property :: "data_property \<Rightarrow> unit dcomp" where
  "push_property p =
     bindc (getc (\<lambda>s. length (out_props s) \<ge> limit_properties (data_limits s)
         \<or> length (prop_lexical p) > limit_bytes (data_limits s)
         \<or> (case prop_value p of Text t \<Rightarrow> length t > limit_string_bytes (data_limits s) | _ \<Rightarrow> False))) (\<lambda>over.
     if over then refuse (limit_failure ''property or string limit'')
     else modc (\<lambda>s. s\<lparr>out_props := out_props s @ [p]\<rparr>))"

definition key_name :: "data_key list \<Rightarrow> byte list" where
  "key_name path =
     (if path = [] then []
      else case last path of KeyName s \<Rightarrow> s | KeyIndex i \<Rightarrow> ascii (dec i) | KeyXml _ _ _ \<Rightarrow> [])"

definition numeric_char :: "byte \<Rightarrow> bool" where
  "numeric_char c \<longleftrightarrow> is_digit c \<or> c \<in> {43, 45, 46, 101, 69}"

definition scalar :: "nat \<Rightarrow> byte option \<Rightarrow> data_value dcomp" where
  "scalar start p =
     bindc long_level (\<lambda>lvl.
     case p of
       Some c \<Rightarrow>
         if c = 39 \<or> c = 34 then bindc quoted_string (\<lambda>t. ret (Text t))
         else if c = 91 \<and> lvl \<noteq> None then bindc long_string (\<lambda>t. ret (Text t))
         else if is_digit c \<or> c \<in> {43, 45, 46} then
           bindc (skip_while numeric_char) (\<lambda>_.
           bindc token (\<lambda>_.
           bindc (getc cur) (\<lambda>stop.
           bindc (slice_text start stop) (\<lambda>lexeme.
           case number lexeme of Inl f \<Rightarrow> refuse f | Inr n \<Rightarrow> ret (Number n)))))
         else if is_alphabetic c then
           bindc data_name (\<lambda>name.
           if name = ascii ''true'' then ret (Boolean True)
           else if name = ascii ''false'' then ret (Boolean False)
           else if name = ascii ''nil'' then ret Null
           else refuse (syntax_failure ''bare identifier/expression is not data''))
         else refuse (syntax_failure ''unsupported data value'')
     | None \<Rightarrow> refuse (syntax_failure ''unsupported data value''))"

text \<open>An explicit key in brackets.\<close>

definition bracket_key :: "data_key dcomp" where
  "bracket_key =
     bindc (take_char 91) (\<lambda>_.
     bindc space (\<lambda>_.
     bindc peek (\<lambda>p.
     bindc (if p = Some 39 \<or> p = Some 34 then bindc quoted_string (\<lambda>t. ret (KeyName t))
            else
              bindc (getc (\<lambda>s. takeWhile is_digit (drop (cur s) (src_text s)))) (\<lambda>digits.
              bindc (getc cur) (\<lambda>begin'.
              bindc (skip_while is_digit) (\<lambda>_.
              if digits = [] then refuse (syntax_failure ''table key must be string or positive integer'')
              else
                bindc (getc cur) (\<lambda>stop.
                bindc (slice_text begin' stop) (\<lambda>lexeme.
                if decimal lexeme \<ge> u64_limit then refuse (syntax_failure ''table index overflow'')
                else if decimal lexeme = 0 then refuse (syntax_failure ''zero table index unsupported'')
                else bindc token (\<lambda>_. ret (KeyIndex (decimal lexeme))))))))) (\<lambda>k.
     bindc (take_char 93) (\<lambda>_.
     bindc (take_char 61) (\<lambda>_.
     ret k))))))"

text \<open>The key of an entry: explicit, named, or none.\<close>

definition entry_key :: "data_key option dcomp" where
  "entry_key =
     bindc peek (\<lambda>p.
     bindc long_level (\<lambda>lvl.
     if p = Some 91 \<and> lvl = None then bindc bracket_key (\<lambda>k. ret (Some k))
     else if (case p of Some c \<Rightarrow> is_alphabetic c \<or> c = 95 | None \<Rightarrow> False) then
       bindc (getc cur) (\<lambda>before.
       bindc data_name (\<lambda>name.
       bindc space (\<lambda>_.
       bindc peek (\<lambda>q.
       if q = Some 61 then bindc (take_char 61) (\<lambda>_. ret (Some (KeyName name)))
       else bindc (modc (cur_update (\<lambda>_. before))) (\<lambda>_. ret None)))))
     else ret None))"

text \<open>One turn of the table loop; \<open>value\<close> is the recursive call on an entry's value.\<close>

definition table_step ::
  "(data_key list \<Rightarrow> nat \<Rightarrow> unit dcomp) \<Rightarrow> data_key list \<Rightarrow> nat \<Rightarrow> data_key list \<times> nat
    \<Rightarrow> (data_key list \<times> nat + unit) dcomp" where
  "table_step value path depth = (\<lambda>(keys, next).
     bindc space (\<lambda>_.
     bindc peek (\<lambda>p.
     if p = Some 125 then bindc (take_char 125) (\<lambda>_. ret (Inr ()))
     else
       bindc entry_key (\<lambda>key.
       let (k, next') = (case key of Some k \<Rightarrow> (k, next) | None \<Rightarrow> (KeyIndex next, next + 1)) in
       if k \<in> set keys then refuse (conflict_failure ''duplicate catalog table key; no last-value selection'')
       else
         bindc (value (path @ [k]) (depth + 1)) (\<lambda>_.
         bindc space (\<lambda>_.
         bindc peek (\<lambda>q.
         if q = Some 44 \<or> q = Some 59 then
           bindc (advance 1) (\<lambda>_. bindc token (\<lambda>_. ret (Inl (k # keys, next'))))
         else if q \<noteq> Some 125 then refuse (syntax_failure ''table separator required; expressions are forbidden'')
         else ret (Inl (k # keys, next')))))))))"

definition table :: "(data_key list \<Rightarrow> nat \<Rightarrow> unit dcomp) \<Rightarrow> data_key list \<Rightarrow> nat \<Rightarrow> unit dcomp" where
  "table value path depth =
     bindc (take_char 123) (\<lambda>_ s.
       loopc (Suc (Suc (length (src_text s) - cur s))) DataFuel (table_step value path depth) ([], 1) s)"

primrec parse_value :: "nat \<Rightarrow> data_key list \<Rightarrow> nat \<Rightarrow> unit dcomp" where
  "parse_value 0 path depth = fail DataFuel"
| "parse_value (Suc fuel) path depth =
     bindc (getc data_limits) (\<lambda>l.
     if depth > limit_depth l then refuse (limit_failure ''catalog nesting limit'')
     else
       bindc space (\<lambda>_.
       bindc (getc cur) (\<lambda>start.
       bindc peek (\<lambda>p.
       bindc (if p = Some 123 then bindc (table (parse_value fuel) path depth) (\<lambda>_. ret Container)
              else scalar start p) (\<lambda>value.
       bindc (getc cur) (\<lambda>stop.
       bindc (slice_text start stop) (\<lambda>lexeme.
       push_property \<lparr>prop_path = path, prop_namespace = None, prop_name = key_name path, prop_lexical = lexeme,
         prop_start = start, prop_end = stop, prop_value = value, prop_disposition = RetainedOnly,
         prop_reason = ''unknown or unqualified catalog data retained''\<rparr>)))))))"

section \<open>The document\<close>

datatype data_root = Bare | Return | Assignment "byte list"

definition parse_root :: "(data_key list \<times> data_root) dcomp" where
  "parse_root =
     bindc space (\<lambda>_.
     bindc peek (\<lambda>p.
     if p = Some 123 then ret ([], Bare)
     else
       bindc data_name (\<lambda>name.
       bindc space (\<lambda>_.
       if name \<noteq> ascii ''return'' then bindc (take_char 61) (\<lambda>_. ret ([KeyName name], Assignment name))
       else ret ([], Return)))))"

definition parse_body :: "nat \<Rightarrow> data_root dcomp" where
  "parse_body fuel =
     bindc parse_root (\<lambda>(path, rt).
     bindc space (\<lambda>_.
     bindc peek (\<lambda>p.
     if p \<noteq> Some 123 then refuse (syntax_failure ''expected data table, not executable expression'')
     else
       bindc (parse_value fuel path 0) (\<lambda>_.
       bindc space (\<lambda>_.
       bindc peek (\<lambda>q.
       bindc (if q = Some 59 then bindc (take_char 59) (\<lambda>_. space) else ret ()) (\<lambda>_.
       bindc (getc (\<lambda>s. cur s \<noteq> length (src_text s))) (\<lambda>trailing.
       if trailing then refuse (syntax_failure ''trailing executable or unsupported data'')
       else ret rt))))))))"

definition data_start :: "byte list \<Rightarrow> data_limits \<Rightarrow> data_parser" where
  "data_start b l = \<lparr>src_text = b, data_limits = l, cur = 0, tokens = 0, out_props = []\<rparr>"

definition parse_data :: "byte list \<Rightarrow> data_limits \<Rightarrow> data_error + data_property list \<times> data_root" where
  "parse_data b l =
     (if \<not> valid_utf8 b then Inl (DataFailed (syntax_failure ''catalog data must be UTF-8''))
      else
        case parse_body (limit_depth l + 2) (data_start b l) of
          (Inl e, _) \<Rightarrow> Inl e
        | (Inr rt, s) \<Rightarrow> Inr (out_props s, rt))"

end
