(* ===== verification/Adobe_Settings.thy ===== *)
theory Adobe_Settings
  imports Adobe_Data Edit_Recipe
begin

text \<open>
  The interpretation of retained develop settings (\<open>lightroom/adobe.rs\<close>): the contract of an
  input, the judgement of each known property, the conflicts, and the few parameters that are
  mapped to a recipe when the source qualifies. The XML reader, the digest, the JSON size and
  the white point of the native library are functions of the environment.
\<close>

section \<open>Data\<close>

datatype source_format = CrsXml | CatalogData
datatype source_kind = Raw | Raster | UnknownKind
datatype association = Current | Historical | Unresolved

record adobe_input =
  source_id :: "byte list"
  revision :: "byte list"
  locator :: "byte list"
  payload_blake3 :: "byte list"
  payload_bytes :: nat
  in_format :: source_format
  in_kind :: source_kind
  in_association :: association
  settings_path :: "data_key list"
  as_shot_available :: bool

record contribution =
  contrib_ev :: "ieee option"
  contrib_wb :: "white_balance option"
  white_point_xy :: "(ieee \<times> ieee) option"

definition no_contribution :: contribution where
  "no_contribution = \<lparr>contrib_ev = None, contrib_wb = None, white_point_xy = None\<rparr>"

record extraction =
  ext_input :: adobe_input
  coordinate_space :: string
  ext_properties :: "data_property list"
  missing :: "string list"
  ext_failure :: "data_failure option"
  contribution :: contribution
  rendering_equivalent :: bool

record adobe_env =
  read_xml :: "byte list \<Rightarrow> data_limits \<Rightarrow> data_error + data_property list"
  hex_digest :: "byte list \<Rightarrow> byte list"
  json_size :: "extraction \<Rightarrow> nat"
  native_white_point :: "white_balance \<Rightarrow> string + (ieee \<times> ieee) option"

datatype adobe_error = Contract string | Crashed

definition is_any :: "byte list \<Rightarrow> string list \<Rightarrow> bool" where
  "is_any n ss \<longleftrightarrow> list_ex (\<lambda>s. n = ascii s) ss"

lemma ascii_eq_iff [simp]: "ascii s = ascii t \<longleftrightarrow> s = t"
proof -
  have "inj (\<lambda>c. of_nat (of_char c) :: byte)"
  proof (rule injI)
    fix c d assume "(of_nat (of_char c) :: byte) = of_nat (of_char d)"
    then have "of_char c mod 256 = (of_char d mod 256 :: nat)"
      by (simp add: word_of_nat_eq_iff take_bit_eq_mod)
    then show "c = d" by simp
  qed
  then show ?thesis unfolding ascii_def by (rule inj_map_eq_map)
qed

lemma is_any_ascii [simp]: "is_any (ascii n) ss \<longleftrightarrow> list_ex (\<lambda>s. n = s) ss"
  by (simp add: is_any_def)

lemma starts_with_ascii [simp]: "starts_with (ascii p) (ascii s) \<longleftrightarrow> take (length p) s = p"
proof -
  have "take (length (ascii p)) (ascii s) = ascii (take (length p) s)" by (simp add: ascii_def take_map)
  then show ?thesis by (simp add: starts_with_def)
qed

definition basic_properties :: "string list" where
  "basic_properties =
     [''ProcessVersion'', ''Version'', ''HasSettings'', ''HasCrop'', ''CropLeft'', ''CropTop'', ''CropRight'',
      ''CropBottom'', ''CropAngle'', ''CropWidth'', ''CropHeight'', ''CropUnits'', ''Exposure'', ''Exposure2012'',
      ''AutoExposure'', ''WhiteBalance'', ''Temperature'', ''Tint'', ''IncrementalTemperature'', ''IncrementalTint'',
      ''Contrast'', ''Contrast2012'', ''AutoContrast'', ''Highlights2012'', ''Shadows'', ''Shadows2012'', ''FillLight'',
      ''HighlightRecovery'', ''Brightness'', ''AutoBrightness'', ''AutoShadows'', ''Whites2012'', ''Blacks2012'',
      ''Saturation'', ''Vibrance'', ''Sharpness'', ''SharpenRadius'', ''SharpenDetail'', ''SharpenEdgeMasking'',
      ''LuminanceSmoothing'', ''ColorNoiseReduction'', ''LuminanceNoiseReductionDetail'',
      ''LuminanceNoiseReductionContrast'', ''ColorNoiseReductionDetail'', ''ColorNoiseReductionSmoothness'']"

definition crs :: "byte list" where
  "crs = ascii ''http://ns.adobe.com/camera-raw-settings/1.0/''"

section \<open>The contract of the caller\<close>

definition default_limits :: data_limits where
  "default_limits = \<lparr>limit_bytes = 4 * 1024 * 1024, limit_properties = 10000, limit_tokens = 50000, limit_depth = 32,
     limit_string_bytes = 64 * 1024, limit_output_bytes = 8 * 1024 * 1024\<rparr>"

definition validate_limits :: "data_limits \<Rightarrow> adobe_error + unit" where
  "validate_limits l =
     (if 0 < limit_bytes l \<and> limit_bytes l \<le> limit_bytes default_limits
         \<and> 0 < limit_properties l \<and> limit_properties l \<le> limit_properties default_limits
         \<and> 0 < limit_tokens l \<and> limit_tokens l \<le> limit_tokens default_limits
         \<and> 0 < limit_depth l \<and> limit_depth l \<le> limit_depth default_limits
         \<and> 0 < limit_string_bytes l \<and> limit_string_bytes l \<le> limit_string_bytes default_limits
         \<and> 0 < limit_output_bytes l \<and> limit_output_bytes l \<le> limit_output_bytes default_limits
      then Inr () else Inl (Contract ''Adobe limits must be positive and within hard ceilings''))"

definition lower_hex :: "byte \<Rightarrow> bool" where
  "lower_hex b \<longleftrightarrow> is_hexdigit b \<and> \<not> (65 \<le> b \<and> b \<le> 90)"

definition path_key_ok :: "data_key \<Rightarrow> bool" where
  "path_key_ok k = (case k of KeyIndex _ \<Rightarrow> True | KeyName s \<Rightarrow> s \<noteq> [] \<and> length s \<le> 1024 | KeyXml _ _ _ \<Rightarrow> False)"

definition validate_input :: "adobe_input \<Rightarrow> adobe_error + unit" where
  "validate_input i =
     (if \<not> list_all (\<lambda>s. s \<noteq> [] \<and> length s \<le> 4096 \<and> 0 \<notin> set s) [source_id i, revision i, locator i]
      then Inl (Contract ''missing or oversized retained Adobe source identity'')
      else if \<not> (length (payload_blake3 i) = 64 \<and> list_all lower_hex (payload_blake3 i))
      then Inl (Contract ''invalid payload BLAKE3'')
      else if \<not> (length (settings_path i) \<le> 32 \<and> list_all path_key_ok (settings_path i))
      then Inl (Contract ''invalid catalog settings path'')
      else if in_format i = CrsXml \<and> settings_path i \<noteq> []
      then Inl (Contract ''XML has no catalog settings path'')
      else Inr ())"

definition catalog_settings_path :: "byte list \<Rightarrow> data_limits \<Rightarrow> adobe_error + data_failure + data_key list" where
  "catalog_settings_path b l =
     tryr (validate_limits l) (\<lambda>_.
     if length b > limit_bytes l then Inr (Inl (limit_failure ''catalog container byte limit''))
     else
       case parse_data b l of
         Inl (DataFailed f) \<Rightarrow> Inr (Inl f)
       | Inl _ \<Rightarrow> Inl Crashed
       | Inr (_, Assignment n) \<Rightarrow>
           if n = ascii ''s'' then Inr (Inr [KeyName n])
           else Inr (Inl (conflict_failure ''unqualified catalog outer assignment; original data retained''))
       | Inr (_, _) \<Rightarrow> Inr (Inr []))"

section \<open>Judgement of one property\<close>

definition eligible :: "adobe_input \<Rightarrow> data_property \<Rightarrow> bool" where
  "eligible i p =
     (case in_format i of
        CrsXml \<Rightarrow> prop_namespace p = Some crs \<and> length (prop_path p) = 1
      | CatalogData \<Rightarrow> prop_namespace p = None \<and> length (prop_path p) = length (settings_path i) + 1
          \<and> take (length (settings_path i)) (prop_path p) = settings_path i)"

definition f64_max :: rat where
  "f64_max = (2 ^ 53 - 1) * 2 ^ 971"

text \<open>The least and greatest value of a numeric property, and whether it must be whole.\<close>

definition numeric_spec :: "byte list \<Rightarrow> (rat \<times> rat \<times> bool) option" where
  "numeric_spec n =
     (if is_any n [''CropLeft'', ''CropTop'', ''CropRight'', ''CropBottom'', ''CropAngle''] then Some (- f64_max, f64_max, False)
      else if is_any n [''CropWidth'', ''CropHeight''] then Some (0, f64_max, False)
      else if is_any n [''CropUnits''] then Some (0, 2, True)
      else if is_any n [''Exposure''] then Some (-4, 4, False)
      else if is_any n [''Exposure2012''] then Some (-5, 5, False)
      else if is_any n [''Temperature''] then Some (2000, 50000, True)
      else if is_any n [''Tint''] then Some (-150, 150, False)
      else if is_any n [''Contrast''] then Some (-50, 100, False)
      else if is_any n [''Brightness''] then Some (0, 150, False)
      else if is_any n [''Contrast2012'', ''Highlights2012'', ''Shadows2012'', ''Whites2012'', ''Blacks2012'', ''Saturation'',
          ''Vibrance'', ''IncrementalTemperature'', ''IncrementalTint''] then Some (-100, 100, False)
      else if is_any n [''Sharpness''] then Some (0, 150, False)
      else if is_any n [''SharpenRadius''] then Some (1 / 2, 3, False)
      else if is_any n [''Shadows'', ''FillLight'', ''HighlightRecovery'', ''SharpenDetail'', ''SharpenEdgeMasking'',
          ''LuminanceSmoothing'', ''ColorNoiseReduction'', ''LuminanceNoiseReductionDetail'',
          ''LuminanceNoiseReductionContrast'', ''ColorNoiseReductionDetail'', ''ColorNoiseReductionSmoothness'']
      then Some (0, 100, False)
      else None)"

definition enable_name :: "byte list \<Rightarrow> bool" where
  "enable_name n = starts_with (ascii ''Enable'') n"

definition boolean_spec :: "byte list \<Rightarrow> bool" where
  "boolean_spec n \<longleftrightarrow> enable_name n
     \<or> is_any n [''HasCrop'', ''HasSettings'', ''AutoExposure'', ''AutoContrast'', ''AutoBrightness'', ''AutoShadows'']"

definition recipe_number :: "ieee \<Rightarrow> ieee option" where
  "recipe_number v =
     (let target = cast_f32 v in
      if is_finite target \<and> (is_zero v \<or> \<not> is_zero target) then Some target else None)"

definition whole :: "ieee \<Rightarrow> bool" where
  "whole n \<longleftrightarrow> of_int \<lfloor>value_of n\<rfloor> = value_of n"

definition invalid :: "string \<Rightarrow> data_property \<Rightarrow> data_property" where
  "invalid reason p = p\<lparr>prop_disposition := Invalid, prop_reason := reason\<rparr>"

definition read_number :: "adobe_input \<Rightarrow> data_value \<Rightarrow> ieee option" where
  "read_number i v =
     (case v of
        Number n \<Rightarrow> Some n
      | Text s \<Rightarrow> if in_format i = CrsXml then (case number s of Inr n \<Rightarrow> Some n | Inl _ \<Rightarrow> None) else None
      | _ \<Rightarrow> None)"

definition read_boolean :: "adobe_input \<Rightarrow> data_value \<Rightarrow> bool option" where
  "read_boolean i v =
     (case v of
        Boolean b \<Rightarrow> Some b
      | Text s \<Rightarrow>
          if in_format i \<noteq> CrsXml then None
          else if is_any s [''True'', ''true''] then Some True
          else if is_any s [''False'', ''false''] then Some False
          else None
      | _ \<Rightarrow> None)"

definition spec_for :: "adobe_input \<Rightarrow> byte list \<Rightarrow> (rat \<times> rat \<times> bool) option" where
  "spec_for i n =
     (case numeric_spec n of
        None \<Rightarrow> None
      | Some spec \<Rightarrow> if is_any n [''Temperature''] \<and> in_kind i \<noteq> Raw then Some (- f64_max, f64_max, False) else Some spec)"

definition judge :: "adobe_input \<Rightarrow> data_property \<Rightarrow> data_property" where
  "judge i p =
     (case spec_for i (prop_name p) of
        Some (lo, hi, integer) \<Rightarrow>
          (case read_number i (prop_value p) of
             Some n \<Rightarrow>
               if is_finite n \<and> ge_const n lo \<and> le_const n hi \<and> (\<not> integer \<or> whole n) then p\<lparr>prop_value := Number n\<rparr>
               else invalid ''invalid numeric type, unit domain or finite range; exact source retained'' p
           | None \<Rightarrow> invalid ''invalid numeric type, unit domain or finite range; exact source retained'' p)
      | None \<Rightarrow>
          if boolean_spec (prop_name p) then
            (case read_boolean i (prop_value p) of
               Some v \<Rightarrow> p\<lparr>prop_value := Boolean v\<rparr>
             | None \<Rightarrow> invalid ''expected an explicit boolean'' p)
          else if is_any (prop_name p) [''ProcessVersion'', ''Version'', ''WhiteBalance'']
              \<and> \<not> (case prop_value p of Text _ \<Rightarrow> True | _ \<Rightarrow> False)
          then invalid ''expected text'' p
          else p)"

section \<open>Translation\<close>

text \<open>The properties that the source's index of names lists for a name.\<close>

definition listed :: "adobe_input \<Rightarrow> data_property list \<Rightarrow> byte list \<Rightarrow> data_property list" where
  "listed i ps n = filter (\<lambda>p. eligible i p \<and> prop_name p = n) ps"

definition mark_conflict :: "adobe_input \<Rightarrow> data_property list \<Rightarrow> data_property \<Rightarrow> data_property" where
  "mark_conflict i ps p =
     (if eligible i p \<and> length (listed i ps (prop_name p)) > 1
      then p\<lparr>prop_disposition := Conflicting, prop_reason := ''duplicate source property; no value selected''\<rparr> else p)"

definition judged :: "adobe_input \<Rightarrow> data_property list \<Rightarrow> data_property list" where
  "judged i ps = map (mark_conflict i ps) (map (\<lambda>p. if eligible i p then judge i p else p) ps)"

definition value_named :: "adobe_input \<Rightarrow> data_property list \<Rightarrow> string \<Rightarrow> data_value option" where
  "value_named i ps n =
     (case listed i ps (ascii n) of
        [p] \<Rightarrow> if prop_disposition p = RetainedOnly then Some (prop_value p) else None
      | _ \<Rightarrow> None)"

definition present :: "adobe_input \<Rightarrow> data_property list \<Rightarrow> string \<Rightarrow> bool" where
  "present i ps n \<longleftrightarrow> listed i ps (ascii n) \<noteq> []"

text \<open>Every \<open>Enable\<close> switch is one property whose value is true.\<close>

definition switches_valid :: "adobe_input \<Rightarrow> data_property list \<Rightarrow> bool" where
  "switches_valid i ps \<longleftrightarrow>
     list_all (\<lambda>p. eligible i p \<and> enable_name (prop_name p) \<longrightarrow>
        length (listed i ps (prop_name p)) = 1 \<and> prop_disposition p = RetainedOnly \<and> prop_value p = Boolean True) ps
     \<and> (present i ps ''HasSettings'' \<longrightarrow> value_named i ps ''HasSettings'' = Some (Boolean True))"

definition qualifies :: "adobe_input \<Rightarrow> data_property list \<Rightarrow> bool" where
  "qualifies i ps \<longleftrightarrow>
     value_named i ps ''ProcessVersion'' = Some (Text (ascii ''11.0''))
     \<and> in_association i = Current \<and> in_kind i \<noteq> UnknownKind \<and> switches_valid i ps"

definition numeric :: "adobe_input \<Rightarrow> data_property list \<Rightarrow> string \<Rightarrow> ieee option" where
  "numeric i ps n = (case value_named i ps n of Some (Number x) \<Rightarrow> Some x | _ \<Rightarrow> None)"

definition mapped_exposure :: "adobe_input \<Rightarrow> data_property list \<Rightarrow> ieee option" where
  "mapped_exposure i ps =
     (let auto = value_named i ps ''AutoExposure'' in
      if (auto = None \<or> auto = Some (Boolean False)) \<and> \<not> present i ps ''Exposure''
          \<and> \<not> (present i ps ''AutoExposure'' \<and> auto = None)
      then Option.bind (numeric i ps ''Exposure2012'') recipe_number else None)"

text \<open>\<open>as u32\<close>.\<close>

definition as_u32 :: "ieee \<Rightarrow> nat" where
  "as_u32 x =
     (case x of
        NaN \<Rightarrow> 0
      | Infinite s \<Rightarrow> if s then 0 else 2 ^ 32 - 1
      | Finite _ _ \<Rightarrow> min (nat \<lfloor>value_of x\<rfloor>) (2 ^ 32 - 1))"

text \<open>The white balance, its white point and the names mapped for it.\<close>

definition mapped_white_balance ::
  "adobe_env \<Rightarrow> adobe_input \<Rightarrow> data_property list \<Rightarrow> (white_balance \<times> (ieee \<times> ieee) option \<times> string list) option" where
  "mapped_white_balance e i ps =
     (if in_kind i = Raw \<and> \<not> present i ps ''IncrementalTemperature'' \<and> \<not> present i ps ''IncrementalTint'' then
        case value_named i ps ''WhiteBalance'' of
          Some (Text mode) \<Rightarrow>
            if mode = ascii ''Custom'' then
              (case (numeric i ps ''Temperature'', Option.bind (numeric i ps ''Tint'') recipe_number) of
                 (Some k, Some tint) \<Rightarrow>
                   let w = TemperatureTint (as_u32 k) tint in
                   (case native_white_point e w of
                      Inr (Some xy) \<Rightarrow> Some (w, Some xy, [''WhiteBalance'', ''Temperature'', ''Tint''])
                    | _ \<Rightarrow> None)
               | _ \<Rightarrow> None)
            else if mode = ascii ''As Shot'' \<and> as_shot_available i \<and> \<not> present i ps ''Temperature'' \<and> \<not> present i ps ''Tint''
            then Some (AsShot, None, [''WhiteBalance''])
            else None
        | _ \<Rightarrow> None
      else None)"

definition explain :: "adobe_input \<Rightarrow> bool \<Rightarrow> string list \<Rightarrow> data_property \<Rightarrow> data_property" where
  "explain i qual mappings p =
     (if \<not> eligible i p \<or> prop_disposition p \<noteq> RetainedOnly then p
      else if is_any (prop_name p) mappings
      then p\<lparr>prop_disposition := MappedParameter,
             prop_reason := ''validated numeric parameter mapping; native rendering is not Adobe rendering equivalence''\<rparr>
      else if \<not> qual
      then p\<lparr>prop_reason := ''source version, kind, current-state association or enable switches not qualified; retained without applying''\<rparr>
      else if starts_with (ascii ''Crop'') (prop_name p) \<or> is_any (prop_name p) [''HasCrop'']
      then p\<lparr>prop_reason := ''crop orientation, center, angle and canvas convention require coordinate reference proof''\<rparr>
      else if is_any (prop_name p) basic_properties
      then p\<lparr>prop_reason := ''retained: control dependencies, units or processing semantics are not qualified for application''\<rparr>
      else p)"

definition translate :: "adobe_env \<Rightarrow> extraction \<Rightarrow> extraction" where
  "translate e r =
     (let i = ext_input r;
          ps = judged i (ext_properties r);
          qual = qualifies i ps;
          ev = (if qual then mapped_exposure i ps else None);
          wbal = (if qual then mapped_white_balance e i ps else None);
          mappings = (if ev \<noteq> None then [''Exposure2012''] else [])
            @ (case wbal of Some (_, _, names) \<Rightarrow> names | None \<Rightarrow> []);
          c = contribution r in
      r\<lparr>ext_properties := map (explain i qual mappings) ps,
        missing := filter (\<lambda>n. \<not> present i ps n) basic_properties,
        contribution :=
          \<lparr>contrib_ev = (case ev of Some x \<Rightarrow> Some x | None \<Rightarrow> contrib_ev c),
           contrib_wb = (case wbal of Some (w, _, _) \<Rightarrow> Some w | None \<Rightarrow> contrib_wb c),
           white_point_xy = (case wbal of Some (_, Some xy, _) \<Rightarrow> Some xy | _ \<Rightarrow> white_point_xy c)\<rparr>\<rparr>)"

section \<open>Extraction\<close>

definition retained_failure :: "adobe_input \<Rightarrow> data_failure \<Rightarrow> extraction" where
  "retained_failure i f =
     \<lparr>ext_input = i, coordinate_space = ''not_parsed'', ext_properties = [], missing = [], ext_failure = Some f,
      contribution = no_contribution, rendering_equivalent = False\<rparr>"

text \<open>The properties in the input's format, and the result they start.\<close>

definition read_settings :: "adobe_env \<Rightarrow> byte list \<Rightarrow> adobe_input \<Rightarrow> data_limits \<Rightarrow> data_error + data_property list" where
  "read_settings e b i l = (case in_format i of CatalogData \<Rightarrow> map_sum id fst (parse_data b l) | CrsXml \<Rightarrow> read_xml e b l)"

definition parsed_extraction :: "adobe_input \<Rightarrow> data_property list \<Rightarrow> extraction" where
  "parsed_extraction i ps =
     \<lparr>ext_input = i, coordinate_space = (if in_format i = CrsXml then ''decoded_xml_utf8'' else ''original_utf8''),
      ext_properties = ps, missing = [], ext_failure = None, contribution = no_contribution,
      rendering_equivalent = False\<rparr>"

definition adobe_extract :: "adobe_env \<Rightarrow> byte list \<Rightarrow> adobe_input \<Rightarrow> data_limits \<Rightarrow> adobe_error + extraction" where
  "adobe_extract e b i l =
     tryr (validate_limits l) (\<lambda>_.
     tryr (validate_input i) (\<lambda>_.
     if length b \<noteq> payload_bytes i then Inl (Contract ''Adobe payload length mismatch'')
     else if length b > limit_bytes l
     then Inr (retained_failure i (limit_failure
       ''payload exceeds extraction byte limit; external reference retained, digest not rechecked''))
     else if hex_digest e b \<noteq> payload_blake3 i then Inl (Contract ''Adobe payload digest mismatch'')
     else
       case read_settings e b i l of
         Inl (DataFailed f) \<Rightarrow> Inr (retained_failure i f)
       | Inl _ \<Rightarrow> Inl Crashed
       | Inr ps \<Rightarrow>
           let result = translate e (parsed_extraction i ps) in
           if json_size e result > limit_output_bytes l
           then Inr (retained_failure (ext_input result)
             (limit_failure ''extraction output exceeds limit; all original data remains externally retained''))
           else Inr result))"

definition apply_to :: "recipe_env \<Rightarrow> contribution \<Rightarrow> recipe \<Rightarrow> recipe_error + validated_recipe" where
  "apply_to e c target =
     tryr (validate e target) (\<lambda>_.
     let r = target\<lparr>exposure_ev := (case contrib_ev c of Some ev \<Rightarrow> ev | None \<Rightarrow> exposure_ev target)\<rparr>;
         r = r\<lparr>wb := (case contrib_wb c of Some w \<Rightarrow> w | None \<Rightarrow> wb r)\<rparr>
     in validate e r)"

end
