(* ===== verification/Run_Logic.thy ===== *)
theory Run_Logic
  imports PC_Prelude
begin

text \<open>
  A logic for single runs of computations: \<open>runs E r Q\<close> says that the run \<open>r\<close> ends in a
  value and state that satisfy \<open>Q\<close>, or in an error that satisfies \<open>E\<close>. The rules turn a run of a
  program into conditions on its parts; a loop needs an invariant and a measure below its fuel.
\<close>

named_theorems run_intros \<open>verification conditions of runs\<close>

definition runs :: "('e \<Rightarrow> bool) \<Rightarrow> ('e + 'a) \<times> 's \<Rightarrow> ('a \<Rightarrow> 's \<Rightarrow> bool) \<Rightarrow> bool" where
  "runs E r Q \<longleftrightarrow> (case r of (Inr x, t) \<Rightarrow> Q x t | (Inl e, t) \<Rightarrow> E e)"

lemma run_bind [run_intros]: "runs E (m s) (\<lambda>x t. runs E (f x t) Q) \<Longrightarrow> runs E (bindc m f s) Q"
  by (auto simp: runs_def bindc_def split: prod.splits sum.splits)

lemma run_ret [run_intros]: "Q x s \<Longrightarrow> runs E (ret x s) Q"
  by (simp add: runs_def ret_def)

lemma run_fail [run_intros]: "E e \<Longrightarrow> runs E (fail e s) Q"
  by (simp add: runs_def fail_def)

lemma run_getc [run_intros]: "Q (f s) s \<Longrightarrow> runs E (getc f s) Q"
  by (simp add: runs_def getc_def)

lemma run_modc [run_intros]: "Q () (f s) \<Longrightarrow> runs E (modc f s) Q"
  by (simp add: runs_def modc_def)

lemma run_ensure [run_intros]: "(b \<Longrightarrow> Q () s) \<Longrightarrow> (\<not> b \<Longrightarrow> E e) \<Longrightarrow> runs E (ensure b e s) Q"
  by (simp add: runs_def ensure_def)

lemma run_if [run_intros]:
  "(b \<Longrightarrow> runs E (m s) Q) \<Longrightarrow> (\<not> b \<Longrightarrow> runs E (n s) Q) \<Longrightarrow> runs E ((if b then m else n) s) Q"
  by simp

lemma run_let [run_intros]: "(\<And>x. x = a \<Longrightarrow> runs E (f x s) Q) \<Longrightarrow> runs E (Let a f s) Q"
  by simp

lemma run_option [run_intros]:
  "(v = None \<Longrightarrow> runs E (m s) Q) \<Longrightarrow> (\<And>x. v = Some x \<Longrightarrow> runs E (f x s) Q) \<Longrightarrow>
     runs E ((case v of None \<Rightarrow> m | Some x \<Rightarrow> f x) s) Q"
  by (cases v) auto

lemma run_sum [run_intros]:
  "(\<And>e. v = Inl e \<Longrightarrow> runs E (g e s) Q) \<Longrightarrow> (\<And>x. v = Inr x \<Longrightarrow> runs E (f x s) Q) \<Longrightarrow>
     runs E ((case v of Inl e \<Rightarrow> g e | Inr x \<Rightarrow> f x) s) Q"
  by (cases v) auto

lemma run_prod [run_intros]:
  "(\<And>a b. p = (a, b) \<Longrightarrow> runs E (f a b s) Q) \<Longrightarrow> runs E ((case p of (a, b) \<Rightarrow> f a b) s) Q"
  by (cases p) auto

lemma run_weaken: "runs E r Q \<Longrightarrow> (\<And>x t. Q x t \<Longrightarrow> R x t) \<Longrightarrow> runs E r R"
  by (auto simp: runs_def split: prod.splits sum.splits)

lemma run_conj: "runs E r Q \<Longrightarrow> runs F r R \<Longrightarrow> runs E r (\<lambda>x t. Q x t \<and> R x t)"
  by (auto simp: runs_def split: prod.splits sum.splits)

text \<open>The same as equations, for symbolic execution by simplification.\<close>

lemma run_simps:
  "runs E1 (bindc m f s1) Q1 = runs E1 (m s1) (\<lambda>x t. runs E1 (f x t) Q1)"
  "runs E2 (ret y2 s2) Q2 = Q2 y2 s2"
  "runs E3 (Inr y3, s3) Q3 = Q3 y3 s3"
  "runs E4 (fail e4 s4) Q4 = E4 e4"
  "runs E5 (Inl e5, s5) Q5 = E5 e5"
  "runs E6 (getc h6 s6) Q6 = Q6 (h6 s6) s6"
  "runs E7 (modc u7 s7) Q7 = Q7 () (u7 s7)"
  by (auto simp: runs_def bindc_def ret_def fail_def getc_def modc_def split: prod.splits sum.splits)

lemma run_if_eq: "runs E ((if b then k else n) s) Q = (if b then runs E (k s) Q else runs E (n s) Q)"
  by simp

lemma run_loop:
  assumes body: "\<And>i s. V i s \<Longrightarrow> runs E (body i s) (\<lambda>r t. case r of Inl j \<Rightarrow> V j t \<and> m j t < m i s | Inr x \<Rightarrow> Q x t)"
    and "V i s" "m i s < fuel"
  shows "runs E (loopc fuel e body i s) Q"
  using assms(2,3)
proof (induction fuel arbitrary: i s)
  case (Suc fuel)
  have "runs E (body i s) (\<lambda>r t. runs E ((case r of Inl j \<Rightarrow> loopc fuel e body j | Inr x \<Rightarrow> ret x) t) Q)"
    using body [OF Suc.prems(1)]
  proof (rule run_weaken)
    fix r t assume "case r of Inl j \<Rightarrow> V j t \<and> m j t < m i s | Inr x \<Rightarrow> Q x t"
    with Suc.IH Suc.prems show "runs E ((case r of Inl j \<Rightarrow> loopc fuel e body j | Inr x \<Rightarrow> ret x) t) Q"
      by (cases r) (auto simp: runs_def)
  qed
  then show ?case by (auto intro: run_bind)
qed simp

text \<open>Partial correctness of a loop: what exhausted fuel reports is an error like any other.\<close>

lemma run_loop_partial:
  assumes body: "\<And>i s. V i s \<Longrightarrow> runs E (body i s) (\<lambda>r t. case r of Inl j \<Rightarrow> V j t | Inr x \<Rightarrow> Q x t)"
    and "V i s" "E e"
  shows "runs E (loopc fuel e body i s) Q"
  using assms(2)
proof (induction fuel arbitrary: i s)
  case 0
  show ?case by (simp only: loopc.simps run_simps assms(3))
next
  case (Suc fuel)
  from body [OF Suc.prems]
  have "runs E (body i s) (\<lambda>r t. runs E ((case r of Inl j \<Rightarrow> loopc fuel e body j | Inr x \<Rightarrow> ret x) t) Q)"
    by (rule run_weaken) (auto simp: run_simps Suc.IH split: sum.splits)
  then show ?case by (simp add: run_simps)
qed

lemma run_forc:
  assumes body: "\<And>x a s. x \<in> set xs \<Longrightarrow> V a s \<Longrightarrow> runs E (body x a s) V"
    and "V a s"
  shows "runs E (forc xs body a s) V"
  using assms
proof (induction xs arbitrary: a s)
  case (Cons x xs)
  have rest: "runs E (forc xs body b t) V" if "V b t" for b t
    by (rule Cons.IH) (use Cons.prems(1) that in auto)
  have "runs E (body x a s) (\<lambda>b t. runs E (forc xs body b t) V)"
    by (rule run_weaken [OF Cons.prems(1) rest]) (use Cons.prems(2) in auto)
  then show ?case by (simp add: run_simps)
qed (simp add: run_simps)

section \<open>Runs with the state an error leaves\<close>

text \<open>
  \<open>ends r Q\<close>: the run ends with a result and a state that satisfy \<open>Q\<close>, the errors included.
  For computations whose callers go on after an error.
\<close>

named_theorems ends_intros \<open>verification conditions of runs that go on after errors\<close>

definition ends :: "('e + 'a) \<times> 's \<Rightarrow> ('e + 'a \<Rightarrow> 's \<Rightarrow> bool) \<Rightarrow> bool" where
  "ends r Q \<longleftrightarrow> Q (fst r) (snd r)"

lemma ends_bind [ends_intros]:
  "ends (m s) (\<lambda>r t. case r of Inl e \<Rightarrow> Q (Inl e) t | Inr x \<Rightarrow> ends (f x t) Q) \<Longrightarrow> ends (bindc m f s) Q"
  by (auto simp: ends_def bindc_def split: prod.splits sum.splits)

lemma ends_catch [ends_intros]: "ends (m s) (\<lambda>r t. ends (f r t) Q) \<Longrightarrow> ends (catchc m f s) Q"
  by (auto simp: ends_def catchc_def split: prod.splits)

lemma ends_pure [ends_intros]:
  "Q (Inr x) s \<Longrightarrow> ends (ret x s) Q"
  "Q (Inl e) s \<Longrightarrow> ends (fail e s) Q"
  "Q (Inr (g s)) s \<Longrightarrow> ends (getc g s) Q"
  "Q (Inr ()) (h s) \<Longrightarrow> ends (modc h s) Q"
  "(b \<Longrightarrow> Q (Inr ()) s) \<Longrightarrow> (\<not> b \<Longrightarrow> Q (Inl e) s) \<Longrightarrow> ends (ensure b e s) Q"
  "(v = None \<Longrightarrow> Q (Inl e) s) \<Longrightarrow> (\<And>y. v = Some y \<Longrightarrow> Q (Inr y) s) \<Longrightarrow> ends (lift_option e v s) Q"
  by (auto simp: ends_def split: option.splits)

lemma ends_split [ends_intros]:
  "(b \<Longrightarrow> ends (m s) Q) \<Longrightarrow> (\<not> b \<Longrightarrow> ends (n s) Q) \<Longrightarrow> ends ((if b then m else n) s) Q"
  "(v = None \<Longrightarrow> ends (m s) Q) \<Longrightarrow> (\<And>x. v = Some x \<Longrightarrow> ends (f x s) Q) \<Longrightarrow>
     ends ((case v of None \<Rightarrow> m | Some x \<Rightarrow> f x) s) Q"
  "(\<And>a b. p = (a, b) \<Longrightarrow> ends (k a b s) Q) \<Longrightarrow> ends ((case p of (a, b) \<Rightarrow> k a b) s) Q"
  by (cases b, auto) (cases v, auto, cases p, auto)

lemma ends_case [ends_intros]:
  "(\<And>e. r = Inl e \<Longrightarrow> ends (g e s) Q) \<Longrightarrow> (\<And>x. r = Inr x \<Longrightarrow> ends (f x s) Q) \<Longrightarrow>
     ends ((case r of Inl e \<Rightarrow> g e | Inr x \<Rightarrow> f x) s) Q"
  by (cases r) auto

lemma ends_pair [simp]: "ends (x, t) Q = Q x t"
  by (simp add: ends_def)

lemma ends_weaken: "ends r Q \<Longrightarrow> (\<And>x t. Q x t \<Longrightarrow> R x t) \<Longrightarrow> ends r R"
  by (simp add: ends_def)

lemma endsD: "ends r Q \<Longrightarrow> r = (x, t) \<Longrightarrow> Q x t"
  by (simp add: ends_def)

end
