(* ===== verification/Adobe_Safety.thy ===== *)
theory Adobe_Safety
  imports Adobe_Data Run_Logic
begin

text \<open>
  The data parser never panics and never runs out of fuel: the cursor stays on a character
  boundary wherever text is sliced, every loop consumes text, and the recursion ends at the
  nesting limit. The same proofs carry the budgets and the spans of the properties.
\<close>

section \<open>Runs that succeed or refuse\<close>

definition refused :: "data_error \<Rightarrow> bool" where
  "refused e \<longleftrightarrow> (\<exists>f. e = DataFailed f)"

abbreviation ok :: "(data_error + 'a) \<times> data_parser \<Rightarrow> ('a \<Rightarrow> data_parser \<Rightarrow> bool) \<Rightarrow> bool" where
  "ok \<equiv> runs refused"

lemma ok_refuse [run_intros]: "ok (refuse f s) Q"
  by (simp add: runs_def refuse_def refused_def fail_def)

lemmas ok_simps = run_simps run_if_eq ok_refuse

section \<open>Good states\<close>

text \<open>A property names the bytes it stands for; its number has a magnitude.\<close>

definition proper_value :: "data_value \<Rightarrow> bool" where
  "proper_value v = (case v of Number n \<Rightarrow> proper n | _ \<Rightarrow> True)"

lemma proper_value_simps [simp]:
  "proper_value (Text t)" "proper_value (Boolean b)" "proper_value Null" "proper_value Container"
  "proper_value (Number n) = proper n"
  by (simp_all add: proper_value_def)

lemma number_proper: "number b = Inr n \<Longrightarrow> proper n"
proof -
  have "proper (to_f64 s (of_nat k * pow10 j))" for s k j
    unfolding to_f64_def by (rule round_to_proper) (simp add: pow10_def)
  moreover have guard: "((if c then Inl x else r) = Inr y) \<longleftrightarrow> \<not> c \<and> r = Inr y" for c x r and y :: ieee
    by simp
  ultimately show "number b = Inr n \<Longrightarrow> proper n"
    unfolding number_def Let_def guard by (elim conjE) (simp only: sum.inject, elim subst)
qed

definition spans :: "byte list \<Rightarrow> data_property \<Rightarrow> bool" where
  "spans t p \<longleftrightarrow> prop_start p \<le> prop_end p \<and> prop_end p \<le> length t
     \<and> prop_lexical p = take (prop_end p - prop_start p) (drop (prop_start p) t)
     \<and> prop_disposition p = RetainedOnly \<and> prop_namespace p = None \<and> proper_value (prop_value p)"

definition budgeted :: "data_parser \<Rightarrow> bool" where
  "budgeted s \<longleftrightarrow> list_all (spans (src_text s)) (out_props s)
     \<and> length (out_props s) \<le> limit_properties (data_limits s) \<and> tokens s \<le> limit_tokens (data_limits s)"

definition loose :: "data_parser \<Rightarrow> bool" where
  "loose s \<longleftrightarrow> valid_utf8 (src_text s) \<and> cur s \<le> length (src_text s) \<and> budgeted s"

definition good :: "data_parser \<Rightarrow> bool" where
  "good s \<longleftrightarrow> loose s \<and> char_boundary (src_text s) (cur s)"

text \<open>The same text, at least \<open>n\<close> bytes further on.\<close>

definition onward :: "nat \<Rightarrow> data_parser \<Rightarrow> data_parser \<Rightarrow> bool" where
  "onward n s t \<longleftrightarrow> src_text t = src_text s \<and> data_limits t = data_limits s \<and> cur s + n \<le> cur t"

lemma onward_refl: "onward 0 s s"
  by (simp add: onward_def)

lemma onward_trans: "onward n s t \<Longrightarrow> onward m t u \<Longrightarrow> k \<le> n + m \<Longrightarrow> onward k s u"
  by (auto simp: onward_def)

lemma good_loose: "good s \<Longrightarrow> loose s"
  by (simp add: good_def)

lemma onward_len: "onward 1 s t \<Longrightarrow> loose t \<Longrightarrow> length (src_text t) - cur t < length (src_text s) - cur s"
  by (auto simp: onward_def loose_def)

lemma ok_token:
  "(\<And>t. t = tokens_update Suc s \<Longrightarrow> tokens t \<le> limit_tokens (data_limits t) \<Longrightarrow> Q () t) \<Longrightarrow> ok (token s) Q"
  unfolding token_def by (intro run_intros) auto

lemma ok_token_loose: "loose s \<Longrightarrow> (\<And>t. loose t \<Longrightarrow> onward 0 s t \<Longrightarrow> cur t = cur s \<Longrightarrow> Q () t) \<Longrightarrow> ok (token s) Q"
  by (intro ok_token) (auto simp: loose_def budgeted_def onward_def)

lemma ok_token_good: "good s \<Longrightarrow> (\<And>t. good t \<Longrightarrow> onward 0 s t \<Longrightarrow> cur t = cur s \<Longrightarrow> Q () t) \<Longrightarrow> ok (token s) Q"
  by (intro ok_token) (auto simp: good_def loose_def budgeted_def onward_def)

definition looking :: "data_parser \<Rightarrow> byte option" where
  "looking s = (if cur s < length (src_text s) then Some (src_text s ! cur s) else None)"

lemma ok_peek [run_intros]: "Q (looking s) s \<Longrightarrow> ok (peek s) Q"
  unfolding peek_def looking_def by (intro run_intros)

lemma ok_level [run_intros]: "Q (bracket_level (drop (cur s) (src_text s))) s \<Longrightarrow> ok (long_level s) Q"
  unfolding long_level_def by (intro run_intros)

lemma ok_slice:
  "i \<le> j \<Longrightarrow> char_boundary (src_text s) i \<Longrightarrow> char_boundary (src_text s) j \<Longrightarrow>
     Q (take (j - i) (drop i (src_text s))) s \<Longrightarrow> ok (slice_text i j s) Q"
  unfolding slice_text_def by (intro run_intros) auto

lemma ok_text_from: "char_boundary (src_text s) i \<Longrightarrow> Q (drop i (src_text s)) s \<Longrightarrow> ok (text_from i s) Q"
  unfolding text_from_def by (intro run_intros) auto

text \<open>Moving over bytes.\<close>

lemma loose_advance:
  "loose s \<Longrightarrow> cur s + n \<le> length (src_text s) \<Longrightarrow> loose (s\<lparr>cur := cur s + n\<rparr>)"
  by (simp add: loose_def budgeted_def)

lemma good_advance_ascii:
  assumes "loose s" "looking s = Some c" "c < 0x80"
  shows "good (s\<lparr>cur := cur s + 1\<rparr>)"
  using assms ascii_next_boundary [of "src_text s" "cur s"]
  by (auto simp: good_def loose_def budgeted_def looking_def split: if_splits)

lemma ok_advance_ascii:
  assumes "loose s" "looking s = Some c" "c < 0x80"
    and "\<And>t. good t \<Longrightarrow> onward 1 s t \<Longrightarrow> Q () t"
  shows "ok (advance 1 s) Q"
  unfolding advance_def
  by (intro run_intros assms(4) good_advance_ascii [OF assms(1-3)]) (simp add: onward_def)

lemma ok_advance_loose:
  assumes "loose s" "looking s = Some c" "\<And>t. loose t \<Longrightarrow> onward 1 s t \<Longrightarrow> Q () t"
  shows "ok (advance 1 s) Q"
  unfolding advance_def
  by (intro run_intros assms(3) loose_advance assms(1)) (use assms in \<open>auto simp: onward_def looking_def split: if_splits\<close>)

lemma boundary_after_ascii:
  assumes "valid_utf8 t" "char_boundary t i" "i \<le> length t" "k \<le> length (takeWhile P (drop i t))"
    and "\<And>b. P b \<Longrightarrow> b < 0x80"
  shows "char_boundary t (i + k)"
proof (cases k)
  case (Suc j)
  have j: "j < length (takeWhile P (drop i t))" using assms(4) Suc by simp
  then have "P (takeWhile P (drop i t) ! j)" by (meson nth_mem set_takeWhileD)
  moreover have len: "i + j < length t"
    using j length_takeWhile_le [of P "drop i t"] by simp
  ultimately have "P (t ! (i + j))" using takeWhile_nth [OF j] len by simp
  then show ?thesis using ascii_next_boundary [OF assms(1) len] assms(5) Suc by simp
qed (use assms in simp)

lemma ok_skip_ascii:
  assumes "good s" "\<And>b. P b \<Longrightarrow> b < 0x80"
    and "\<And>t. good t \<Longrightarrow> onward 0 s t \<Longrightarrow> (\<And>c. looking s = Some c \<Longrightarrow> P c \<Longrightarrow> onward 1 s t) \<Longrightarrow>
       cur t = cur s + length (takeWhile P (drop (cur s) (src_text s))) \<Longrightarrow> Q () t"
  shows "ok (skip_while P s) Q"
proof -
  let ?k = "length (takeWhile P (drop (cur s) (src_text s)))"
  have le: "cur s + ?k \<le> length (src_text s)"
    using assms(1) length_takeWhile_le [of P "drop (cur s) (src_text s)"] by (auto simp: good_def loose_def)
  have "char_boundary (src_text s) (cur s + ?k)"
    by (rule boundary_after_ascii [where P = P]) (use assms(1,2) in \<open>auto simp: good_def loose_def\<close>)
  moreover have "0 < ?k" if "looking s = Some c" "P c" for c
    using that by (auto simp: looking_def Cons_nth_drop_Suc [symmetric] split: if_splits)
  ultimately show ?thesis
    unfolding skip_while_def using assms(1) le
    by (intro run_intros assms(3)) (auto simp: good_def loose_def budgeted_def onward_def Suc_le_eq)
qed

lemma ok_skip_line:
  assumes "good s" "\<And>t. good t \<Longrightarrow> onward 0 s t \<Longrightarrow> Q () t"
  shows "ok (skip_while (\<lambda>b. b \<noteq> 10 \<and> b \<noteq> 13) s) Q"
proof -
  let ?P = "\<lambda>b :: byte. b \<noteq> 10 \<and> b \<noteq> 13"
  let ?d = "drop (cur s) (src_text s)"
  let ?k = "length (takeWhile ?P ?d)"
  have le: "cur s + ?k \<le> length (src_text s)"
    using assms(1) length_takeWhile_le [of ?P ?d] by (auto simp: good_def loose_def)
  have "\<not> continuation (src_text s ! (cur s + ?k))" if "cur s + ?k < length (src_text s)"
  proof -
    have "?k < length ?d" using that by simp
    then have "\<not> ?P (?d ! ?k)" by (rule nth_length_takeWhile)
    then have "src_text s ! (cur s + ?k) = 10 \<or> src_text s ! (cur s + ?k) = 13" using le by auto
    then show ?thesis by (auto simp: continuation_def word_le_nat_alt)
  qed
  then have "char_boundary (src_text s) (cur s + ?k)" using le by (auto simp: char_boundary_def)
  then show ?thesis
    unfolding skip_while_def using assms(1) le
    by (intro run_intros assms(2)) (auto simp: good_def loose_def budgeted_def onward_def)
qed

section \<open>The lexer\<close>

lemma drop_Cons_looking: "drop (cur s) (src_text s) = c # r \<Longrightarrow> looking s = Some c"
  by (cases "cur s < length (src_text s)") (auto simp: looking_def nth_via_drop)

lemma bracket_level_start:
  assumes "bracket_level b = Some n"
  shows "\<exists>rest. b = 91 # replicate n 61 @ 91 # rest"
proof -
  obtain r where b: "b = 91 # r" using assms by (auto simp: bracket_level_def split: list.splits if_splits)
  let ?w = "takeWhile (\<lambda>x. x = 61) r"
  obtain d r' where d: "dropWhile (\<lambda>x. x = 61) r = d # r'" "d = 91" "n = length ?w"
    using assms b by (auto simp: bracket_level_def split: list.splits if_splits)
  have "?w = replicate n 61" using d(3) by (intro replicate_eqI) (auto dest: set_takeWhileD)
  then have "r = replicate n 61 @ 91 # r'" using takeWhile_dropWhile_id [of "\<lambda>x. x = 61" r] d by metis
  with b show ?thesis by blast
qed

lemma drop_prefix_boundary:
  assumes "valid_utf8 t" "drop i t = p @ rest" "p \<noteq> []" "list_all (\<lambda>b. b < 0x80) p"
  shows "char_boundary t (i + length p) \<and> i + length p \<le> length t"
proof -
  have "length t - i = length p + length rest" using assms(2) by (metis length_append length_drop)
  moreover have "0 < length p" using assms(3) by simp
  ultimately have len: "i + length p \<le> length t" by arith
  obtain k where k: "length p = Suc k" using \<open>0 < length p\<close> gr0_conv_Suc by auto
  have "t ! (i + k) = drop i t ! k" using len k by simp
  also have "\<dots> = p ! k" using k by (simp add: assms(2) nth_append)
  also have "p ! k < 0x80" using assms(4) k by (simp add: list_all_length)
  finally have "char_boundary t (Suc (i + k))" using ascii_next_boundary [OF assms(1)] len k by simp
  with len k show ?thesis by simp
qed

lemma find_sub_Some: "find_sub p b = Some n \<Longrightarrow> n \<le> length b \<and> starts_with p (drop n b)"
proof (induction p b arbitrary: n rule: find_sub.induct)
  case (1 p)
  then show ?case by (simp add: starts_with_def split: if_splits)
next
  case (2 p x xs)
  show ?case
  proof (cases "starts_with p (x # xs)")
    case True
    with 2(2) show ?thesis by simp
  next
    case False
    then obtain m where "find_sub p xs = Some m" "n = Suc m" using 2(2) by auto
    with 2(1) False show ?thesis by simp
  qed
qed

text \<open>Text that begins with an ASCII byte begins on a character boundary.\<close>

lemma ascii_start_boundary:
  assumes "drop i t = c # r" "c < 0x80"
  shows "char_boundary t i"
proof -
  have "i < length t" using assms(1) by (metis drop_all leI list.distinct(1))
  moreover have "t ! i = c" using assms(1) by (simp add: nth_via_drop)
  ultimately show ?thesis
    using assms(2) by (auto simp: char_boundary_def continuation_def word_le_nat_alt word_less_nat_alt)
qed

lemma starts_with_drop: "starts_with p b \<Longrightarrow> b = p @ drop (length p) b"
  by (metis append_take_drop_id starts_with_def)

text \<open>Where the body of a long string starts, and where its closing bracket lies.\<close>

lemma body_start_boundary:
  fixes t o'
  defines "start \<equiv> (if starts_with [13, 10] (drop o' t) then o' + 2
                    else if starts_with [13] (drop o' t) \<or> starts_with [10] (drop o' t) then o' + 1 else o')"
  assumes "valid_utf8 t" "char_boundary t o'"
  shows "char_boundary t start"
proof -
  have *: "char_boundary t (o' + length p)" if "starts_with p (drop o' t)" "p \<noteq> []" "list_all (\<lambda>b. b < 0x80) p" for p
    using drop_prefix_boundary [OF assms(2) starts_with_drop [OF that(1)] that(2,3)] by simp
  show ?thesis
    unfolding start_def
    using assms(3) * [of "[13, 10]"] * [of "[13]"] * [of "[10]"] by (simp split: if_split)
qed

lemma long_end:
  assumes "valid_utf8 t" "o' \<le> length t" "find_sub ([93] @ replicate n 61 @ [93]) (drop o' t) = Some k"
  shows "char_boundary t (o' + k) \<and> char_boundary t (o' + k + (n + 2)) \<and> o' + k + (n + 2) \<le> length t"
proof -
  let ?p = "[93] @ replicate n 61 @ [93 :: byte]"
  obtain rest where b: "drop (o' + k) t = ?p @ rest"
    using starts_with_drop find_sub_Some [OF assms(3)] by (metis add.commute drop_drop)
  have "list_all (\<lambda>b. b < 0x80) ?p" by (auto simp: list_all_iff)
  from drop_prefix_boundary [OF assms(1) b _ this]
  have "char_boundary t (o' + k + (n + 2)) \<and> o' + k + (n + 2) \<le> length t" by (simp add: add.assoc)
  moreover have "char_boundary t (o' + k)"
    by (rule ascii_start_boundary [where c = 93]) (use b in simp, simp)
  ultimately show ?thesis by simp
qed

lemma char_boundary_min: "char_boundary t i \<Longrightarrow> char_boundary t j \<Longrightarrow> char_boundary t (min i j)"
  by (simp add: min_def)

lemma ok_long_string:
  assumes "good s" "\<And>v t. good t \<Longrightarrow> onward 2 s t \<Longrightarrow> Q v t"
  shows "ok (long_string s) Q"
proof (cases "bracket_level (drop (cur s) (src_text s))")
  case None
  then show ?thesis
    unfolding long_string_def by (intro run_intros) (simp add: ok_refuse)
next
  case (Some n)
  let ?t = "src_text s" and ?o = "cur s + (n + 2)"
  obtain rest where b: "drop (cur s) ?t = (91 # replicate n 61 @ [91]) @ rest"
    using bracket_level_start [OF Some] by auto
  have valid: "valid_utf8 ?t" using assms(1) by (simp add: good_def loose_def)
  have open': "char_boundary ?t ?o" "?o \<le> length ?t"
    using drop_prefix_boundary [OF valid b] by (auto simp: list_all_iff)
  note body = body_start_boundary [OF valid open'(1)]
  have fin: "ok (token (s\<lparr>cur := u\<rparr>)) (\<lambda>_ t. ok (slice_text (min x e) e t) (\<lambda>v. Q (normalize_lines v)))"
    if "char_boundary ?t x" "char_boundary ?t e" "char_boundary ?t u" "u \<le> length ?t" "cur s + 2 \<le> u" for x e u
    using assms(1) that char_boundary_min [OF that(1,2)]
    by (intro run_intros ok_token ok_slice assms(2)) (auto simp: good_def loose_def budgeted_def onward_def)
  show ?thesis
  proof (cases "find_sub (93 # replicate n 61 @ [93]) (drop ?o ?t)")
    case None
    with Some open' show ?thesis
      by (simp add: long_string_def long_level_def advance_def text_from_def ok_simps Let_def)
  next
    case k: (Some k)
    have "?thesis = (n \<le> 8 \<longrightarrow> (let start = (if starts_with [13, 10] (drop ?o ?t) then ?o + 2
                    else if starts_with [13] (drop ?o ?t) \<or> starts_with [10] (drop ?o ?t) then ?o + 1 else ?o) in
      \<not> limit_string_bytes (data_limits s) < ?o + k - start \<longrightarrow>
      ok (token (s\<lparr>cur := ?o + k + (n + 2)\<rparr>))
        (\<lambda>_ t. ok (slice_text (min start (?o + k)) (?o + k) t) (\<lambda>v. Q (normalize_lines v)))))"
      using Some open' k
      by (simp add: long_string_def long_level_def advance_def text_from_def ok_simps Let_def)
    then show ?thesis
      using fin [OF body, of "?o + k" "?o + k + (n + 2)"] long_end [OF valid open'(2)] k
      by (simp add: Let_def)
  qed
qed

end
