(* ===== verification/Adobe_Parse.thy ===== *)
theory Adobe_Parse
  imports Adobe_Safety
begin

text \<open>
  The grammar of catalog data, production by production: each keeps a good state, moves on,
  and refuses or returns.
\<close>

section \<open>Gaps and punctuation\<close>

lemma whitespace_ascii: "is_whitespace b \<Longrightarrow> b < 0x80"
  by (auto simp: is_whitespace_def word_less_nat_alt)

lemma ok_space_step:
  assumes "good s"
    and "\<And>t. good t \<Longrightarrow> onward 0 s t \<Longrightarrow> Q (Inr ()) t"
    and "\<And>t. good t \<Longrightarrow> onward 2 s t \<Longrightarrow> Q (Inl ()) t"
  shows "ok (space_step u s) Q"
proof -
  have comment: "ok (advance 2 t) (\<lambda>_ t'. good t' \<and> onward 2 t t')"
    if "good t" "starts_with [45, 45] (drop (cur t) (src_text t))" for t
  proof -
    have "list_all (\<lambda>b. b < 0x80) [45, 45 :: byte]" by simp
    with drop_prefix_boundary [OF _ starts_with_drop [OF that(2)]] that
    have "char_boundary (src_text t) (cur t + 2) \<and> cur t + 2 \<le> length (src_text t)"
      by (simp add: good_def loose_def)
    with that show ?thesis by (simp add: advance_def ok_simps good_def loose_def budgeted_def onward_def)
  qed
  show ?thesis
    unfolding space_step_def
    apply (intro run_intros)
    apply (rule ok_skip_ascii [OF assms(1) whitespace_ascii], assumption)
    apply (intro run_intros ok_text_from)
      apply (simp add: good_def)
     apply (erule assms(2), assumption)
    apply (rule run_weaken [OF comment], assumption, simp)
    apply (elim conjE)
    apply (rule run_bind, rule ok_token_good, assumption)
    apply (intro run_intros)
     apply (erule ok_long_string)
     apply (intro run_intros assms(3), assumption)
     apply (auto simp: onward_def) []
    apply (erule ok_skip_line)
    apply (intro run_intros assms(3), assumption)
    apply (auto simp: onward_def) []
    done
qed

lemma ok_space:
  assumes "good s" "\<And>t. good t \<Longrightarrow> onward 0 s t \<Longrightarrow> Q () t"
  shows "ok (space s) Q"
  unfolding space_def
proof (rule run_loop [where V = "\<lambda>_ t. good t \<and> onward 0 s t" and m = "\<lambda>_ t. length (src_text t) - cur t"])
  fix i t assume t: "good t \<and> onward 0 s t"
  show "ok (space_step i t) (\<lambda>r u. case r of
      Inl j \<Rightarrow> (good u \<and> onward 0 s u) \<and> length (src_text u) - cur u < length (src_text t) - cur t
    | Inr x \<Rightarrow> Q x u)"
    using t by (intro ok_space_step) (auto intro: assms(2) simp: onward_def good_def loose_def)
qed (use assms(1) in \<open>auto simp: onward_def\<close>)

lemma ok_take_char:
  assumes "good s" "c < 0x80" "\<And>t. good t \<Longrightarrow> onward 1 s t \<Longrightarrow> Q () t"
  shows "ok (take_char c s) Q"
  unfolding take_char_def
  apply (intro run_intros)
  apply (rule ok_space [OF assms(1)])
  apply (intro run_intros)
  apply (rule ok_advance_ascii [where c = c])
     apply (auto simp: good_loose assms(2)) [3]
  apply (rule ok_token_good, assumption)
  apply (rule assms(3), assumption)
  apply (auto simp: onward_def)
  done

lemma alphanumeric_ascii: "is_alphabetic b \<Longrightarrow> b < 0x80" "is_digit b \<Longrightarrow> b < 0x80"
  "is_alphanumeric b \<Longrightarrow> b < 0x80" "numeric_char b \<Longrightarrow> b < 0x80"
  by (auto simp: is_alphabetic_def is_digit_def is_alphanumeric_def numeric_char_def
      word_less_nat_alt word_le_nat_alt)

lemma ok_data_name:
  assumes "good s" "\<And>v t. good t \<Longrightarrow> onward 1 s t \<Longrightarrow> Q v t"
  shows "ok (data_name s) Q"
  unfolding data_name_def
  apply (intro run_intros)
  apply (rule ok_space [OF assms(1)])
  apply (intro run_intros)
  subgoal for t
    apply (rule ok_advance_ascii [where c = "the (looking t)"])
       apply (auto simp: good_loose dest: alphanumeric_ascii split: option.splits) [3]
    apply (intro run_intros)
    apply (rule ok_skip_ascii, assumption)
     apply (auto dest: alphanumeric_ascii) []
    apply (intro run_intros)
    apply (rule ok_token_good, assumption)
    apply (intro run_intros ok_slice assms(2))
        apply (auto simp: onward_def good_def)
    done
  done

section \<open>Quoted strings\<close>

lemma ok_decimal_escape:
  assumes "loose s" "\<And>n t. loose t \<Longrightarrow> onward 0 s t \<Longrightarrow> Q n t"
  shows "ok (decimal_escape c s) Q"
proof -
  have "length (take 2 (takeWhile is_digit (drop (cur s) (src_text s)))) \<le> length (src_text s) - cur s"
    by (metis length_drop length_take length_takeWhile_le min.coboundedI1)
  then have "cur s + length (take 2 (takeWhile is_digit (drop (cur s) (src_text s)))) \<le> length (src_text s)"
    using assms(1) by (auto simp: loose_def)
  with assms(1) show ?thesis
    unfolding decimal_escape_def advance_def
    by (intro run_intros assms(2) loose_advance) (auto simp: onward_def)
qed

lemma ok_hex_escape:
  assumes "loose s" "\<And>n t. loose t \<Longrightarrow> onward 0 s t \<Longrightarrow> Q n t"
  shows "ok (hex_escape s) Q"
  unfolding hex_escape_def
  by (intro run_intros assms(2)) (use assms(1) in \<open>auto simp: onward_def loose_def budgeted_def\<close>)

lemma ok_escape:
  assumes "loose s" "\<And>v t. loose t \<Longrightarrow> onward 1 s t \<Longrightarrow> Q v t"
  shows "ok (escape value s) Q"
  unfolding escape_def
  apply (intro run_intros)
  subgoal for c
    apply (rule ok_advance_loose [OF assms(1)], assumption)
    apply (intro run_intros; (erule (1) assms(2))?)
      apply (erule (1) ok_advance_loose)
      apply (intro run_intros assms(2), assumption)
      apply (auto simp: onward_def) []
     apply (erule ok_decimal_escape)
     apply (intro run_intros assms(2), assumption)
     apply (auto simp: onward_def) []
    apply (erule ok_hex_escape)
    apply (intro run_intros assms(2), assumption)
    apply (auto simp: onward_def) []
    done
  done

lemma ok_string_step:
  assumes "loose s" "quote < 0x80"
    and "\<And>v t. good t \<Longrightarrow> onward 1 s t \<Longrightarrow> Q (Inr v) t"
    and "\<And>v t. loose t \<Longrightarrow> onward 1 s t \<Longrightarrow> Q (Inl v) t"
  shows "ok (string_step quote value s) Q"
  unfolding string_step_def
  apply (intro run_intros)
  subgoal for c
    apply (cases "c = quote")
     apply (rule ok_advance_ascii [OF assms(1), where c = c], assumption)
      apply (simp add: assms(2))
     apply (simp add: ok_simps assms(3))
    apply (rule ok_advance_loose [OF assms(1)], assumption)
    apply (intro run_intros; (simp; fail)?)
     apply (erule (1) assms(4))
    apply (rule ok_escape, assumption)
    apply (intro run_intros assms(4), assumption)
    apply (auto simp: onward_def)
    done
  done

lemma ok_string_loop:
  assumes "loose s" "quote < 0x80" "\<And>v t. good t \<Longrightarrow> onward 1 s t \<Longrightarrow> Q v t"
  shows "ok (loopc (Suc (length (src_text s) - cur s)) DataFuel (string_step quote) v0 s) Q"
proof (rule run_loop [where V = "\<lambda>_ t. loose t \<and> onward 0 s t" and m = "\<lambda>_ t. length (src_text t) - cur t"])
  fix i t assume t: "loose t \<and> onward 0 s t"
  show "ok (string_step quote i t) (\<lambda>r u. case r of
      Inl j \<Rightarrow> (loose u \<and> onward 0 s u) \<and> length (src_text u) - cur u < length (src_text t) - cur t
    | Inr x \<Rightarrow> Q x u)"
    using t assms(2) by (intro ok_string_step) (auto intro: assms(3) simp: onward_def loose_def)
qed (use assms(1) in \<open>auto simp: onward_def\<close>)

lemma ok_quoted_string:
  assumes "good s" "\<And>v t. good t \<Longrightarrow> onward 1 s t \<Longrightarrow> Q v t"
  shows "ok (quoted_string s) Q"
  unfolding quoted_string_def
  apply (intro run_intros)
  apply (rule ok_space [OF assms(1)])
  apply (intro run_intros)
   apply (rule ok_long_string, assumption)
   apply (rule assms(2), assumption)
   apply (auto simp: onward_def) []
  subgoal for t quote
    apply (rule ok_advance_ascii [where c = quote])
       apply (auto simp: good_loose) [3]
    apply (intro run_intros)
    apply (rule ok_string_loop)
      apply (auto simp: good_loose) [2]
    apply (intro run_intros)
    apply (rule ok_token_good, assumption)
    apply (intro run_intros)
    apply (rule assms(2), assumption)
    apply (auto simp: onward_def)
    done
  done

section \<open>Values, keys and tables\<close>

lemma ok_push_property:
  assumes "good s" "spans (src_text s) p" "\<And>t. good t \<Longrightarrow> onward 0 s t \<Longrightarrow> Q () t"
  shows "ok (push_property p s) Q"
  unfolding push_property_def
  by (intro run_intros assms(3)) (use assms(1,2) in \<open>auto simp: good_def loose_def budgeted_def onward_def\<close>)

lemma ok_scalar:
  assumes "good s" "start = cur s" "p = looking s" "\<And>v t. good t \<Longrightarrow> onward 1 s t \<Longrightarrow> proper_value v \<Longrightarrow> Q v t"
  shows "ok (scalar start p s) Q"
  unfolding scalar_def
  apply (intro run_intros)
      apply (rule ok_quoted_string [OF assms(1)], intro run_intros assms(4); simp)
     apply (rule ok_long_string [OF assms(1)], intro run_intros assms(4), assumption)
      apply (auto simp: onward_def) [2]
    apply (rule ok_skip_ascii [OF assms(1)], erule alphanumeric_ascii)
    apply (intro run_intros)
    apply (rule ok_token_good, assumption)
    apply (intro run_intros ok_slice)
       apply (use assms(1-3) in \<open>auto simp: onward_def good_def\<close>) [3]
    apply (intro run_intros assms(4), assumption)
    subgoal for c t u
      using assms(3) by (auto simp: onward_def numeric_char_def)
    apply (simp add: number_proper)
   apply (rule ok_data_name [OF assms(1)], intro run_intros assms(4); simp)
  done

lemma ok_bracket_key:
  assumes "good s" "\<And>v t. good t \<Longrightarrow> onward 1 s t \<Longrightarrow> Q v t"
  shows "ok (bracket_key s) Q"
proof -
  have close: "ok (bindc (take_char 93) (\<lambda>_. bindc (take_char 61) (\<lambda>_. ret k)) t) Q"
    if "good t" "onward 1 s t" for k t
    using that(2)
    by (intro run_intros ok_take_char that(1) assms(2)) (auto simp: onward_def)
  show ?thesis
    unfolding bracket_key_def
    apply (intro run_intros ok_take_char assms(1))
     apply simp
    apply (erule ok_space)
    apply (intro run_intros)
     apply (erule ok_quoted_string)
     apply (rule run_ret, rule close, assumption)
     apply (auto simp: onward_def) []
    apply (rule ok_skip_ascii, assumption, erule alphanumeric_ascii)
    apply (intro run_intros ok_slice)
       apply (auto simp: onward_def good_def) [3]
    apply (rule ok_token_good, assumption)
    apply (rule run_ret, rule close, assumption)
    apply (auto simp: onward_def)
    done
qed

lemma ok_entry_key:
  assumes "good s" "\<And>v t. good t \<Longrightarrow> onward 0 s t \<Longrightarrow> Q v t"
  shows "ok (entry_key s) Q"
  unfolding entry_key_def
  apply (intro run_intros)
    apply (rule ok_bracket_key [OF assms(1)], intro run_intros assms(2), assumption)
    apply (auto simp: onward_def) []
   apply (rule ok_data_name [OF assms(1)], intro run_intros)
   apply (erule ok_space)
   apply (intro run_intros)
    apply (erule ok_take_char, simp)
    apply (intro run_intros assms(2), assumption)
    apply (auto simp: onward_def) []
   apply (intro assms(2))
    apply (use assms(1) in \<open>auto simp: onward_def good_def loose_def budgeted_def\<close>) [2]
  apply (rule assms(2) [OF assms(1)])
  apply (simp add: onward_def)
  done

lemma ok_advance_separator:
  assumes "good s" "looking s = Some 44 \<or> looking s = Some 59" "\<And>t. good t \<Longrightarrow> onward 1 s t \<Longrightarrow> Q () t"
  shows "ok (advance 1 s) Q"
  using assms ok_advance_ascii [OF good_loose, of s 44 Q] ok_advance_ascii [OF good_loose, of s 59 Q]
  by (auto simp: word_less_nat_alt)

lemma ok_table_step:
  assumes "good s" "onward 0 s0 s"
    and sub: "\<And>p t R. good t \<Longrightarrow> onward 0 s0 t \<Longrightarrow> (\<And>u. good u \<Longrightarrow> onward 1 t u \<Longrightarrow> R () u) \<Longrightarrow>
        ok (val p (depth + 1) t) R"
    and "\<And>v t. good t \<Longrightarrow> onward 1 s t \<Longrightarrow> Q (Inl v) t" "\<And>t. good t \<Longrightarrow> onward 1 s t \<Longrightarrow> Q (Inr ()) t"
  shows "ok (table_step val path depth (keys, next') s) Q"
proof -
  have step: "onward n s t \<Longrightarrow> onward n s0 t" for n t
    using assms(2) by (auto simp: onward_def)
  show ?thesis
    unfolding table_step_def prod.case
    apply (rule run_bind, rule ok_space [OF assms(1)])
    apply (intro run_intros)
     apply (erule ok_take_char, simp)
     apply (intro run_intros assms(5), assumption)
     apply (auto simp: onward_def) []
    apply (erule ok_entry_key)
    apply (intro run_intros)
    apply (erule sub)
     apply (use assms(2) in \<open>auto simp: onward_def\<close>) []
    apply (rule run_bind, erule ok_space)
    apply (intro run_intros)
     apply (erule (1) ok_advance_separator)
     apply (rule run_bind, erule ok_token_good)
     apply (intro run_intros assms(4), assumption)
     apply (auto simp: onward_def) []
    apply (intro assms(4), assumption)
    apply (auto simp: onward_def) []
    done
qed

lemma ok_table:
  assumes "good s"
    and sub: "\<And>p t R. good t \<Longrightarrow> onward 0 s t \<Longrightarrow> (\<And>u. good u \<Longrightarrow> onward 1 t u \<Longrightarrow> R () u) \<Longrightarrow>
        ok (val p (depth + 1) t) R"
    and "\<And>t. good t \<Longrightarrow> onward 1 s t \<Longrightarrow> Q () t"
  shows "ok (table val path depth s) Q"
proof -
  have loop: "ok (loopc (Suc (Suc (length (src_text t) - cur t))) DataFuel (table_step val path depth) ([], 1) t) Q"
    if t: "good t" "onward 1 s t" for t
  proof (rule run_loop [where V = "\<lambda>_ u. good u \<and> onward 1 s u" and m = "\<lambda>_ u. length (src_text u) - cur u"])
    fix i :: "data_key list \<times> nat" and u assume u: "good u \<and> onward 1 s u"
    obtain keys next' where i: "i = (keys, next')" by (cases i)
    show "ok (table_step val path depth i u) (\<lambda>r w. case r of
        Inl j \<Rightarrow> (good w \<and> onward 1 s w) \<and> length (src_text w) - cur w < length (src_text u) - cur u
      | Inr x \<Rightarrow> Q x w)"
      unfolding i
      by (rule ok_table_step [where ?s0.0 = s]; (rule sub)?)
        (use u in \<open>auto intro: assms(3) simp: onward_def good_def loose_def\<close>)
  qed (use t in auto)
  show ?thesis
    unfolding table_def
    by (rule run_bind, rule ok_take_char [OF assms(1)]) (simp, rule loop)
qed

text \<open>The recursion: fuel for every level the limit admits, and one to refuse the next.\<close>

lemma ok_parse_value:
  assumes "good s" "limit_depth (data_limits s) + 2 \<le> fuel + depth" "depth \<le> limit_depth (data_limits s) + 1"
    and "\<And>t. good t \<Longrightarrow> onward 1 s t \<Longrightarrow> Q () t"
  shows "ok (parse_value fuel path depth s) Q"
  using assms
proof (induction fuel arbitrary: path depth s Q)
  case 0
  then show ?case by simp
next
  case (Suc fuel)
  have item: "ok ((if looking t = Some 123 then bindc (table (parse_value fuel) path depth) (\<lambda>_. ret Container)
                    else scalar (cur t) (looking t)) t) R"
    if t: "good t" "onward 0 s t" "depth \<le> limit_depth (data_limits s)"
      and R: "\<And>v u. good u \<Longrightarrow> onward 1 t u \<Longrightarrow> proper_value v \<Longrightarrow> R v u" for t R
  proof (intro run_intros)
    show "ok (table (parse_value fuel) path depth t) (\<lambda>_ u. ok (ret Container u) R)"
    proof (rule ok_table [OF t(1)])
      fix p u R' assume "good u" "onward 0 t u" "\<And>w. good w \<Longrightarrow> onward 1 u w \<Longrightarrow> R' () w"
      then show "ok (parse_value fuel p (depth + 1) u) R'"
        using Suc.prems(2) t by (intro Suc.IH) (auto simp: onward_def)
    qed (intro run_intros R; simp)
  qed (intro ok_scalar t(1) R; simp)
  show ?case
    unfolding parse_value.simps
    apply (intro run_intros)
    apply (rule ok_space [OF Suc.prems(1)])
    apply (rule run_bind, rule run_getc, rule run_bind, rule ok_peek, rule run_bind)
    apply (rule item, assumption, assumption, simp)
    apply (intro run_intros ok_slice)
       apply (auto simp: onward_def good_def) [3]
    apply (rule ok_push_property, assumption)
     apply (auto simp: spans_def onward_def good_def loose_def) []
    apply (rule Suc.prems(4), assumption)
    apply (auto simp: onward_def)
    done
qed

section \<open>The document\<close>

lemma ok_parse_body:
  assumes "good s" "limit_depth (data_limits s) + 2 \<le> fuel"
    and "\<And>v t. good t \<Longrightarrow> onward 1 s t \<Longrightarrow> cur t = length (src_text t) \<Longrightarrow> Q v t"
  shows "ok (parse_body fuel s) Q"
proof -
  have rest: "ok ((if looking t = Some 59 then bindc (take_char 59) (\<lambda>_. space) else ret ()) t)
        (\<lambda>_ u. good u \<and> onward 0 t u)" if "good t" for t
    apply (intro run_intros)
     apply (rule ok_take_char [OF that], simp)
     apply (erule ok_space)
     apply (use that in \<open>auto simp: onward_def\<close>)
    done
  have head: "ok (parse_root s) (\<lambda>_ t. good t \<and> onward 0 s t)"
    unfolding parse_root_def
    apply (intro run_intros)
    apply (rule ok_space [OF assms(1)])
    apply (intro run_intros)
     apply simp
    apply (erule ok_data_name)
    apply (intro run_intros)
    apply (erule ok_space)
    apply (intro run_intros)
     apply (erule ok_take_char, simp)
     apply (intro run_intros)
     apply (auto simp: onward_def)
    done
  show ?thesis
    unfolding parse_body_def
    apply (rule run_bind, rule run_weaken [OF head], elim conjE)
    apply (intro run_intros)
    apply (erule ok_space)
    apply (intro run_intros)
    apply (erule ok_parse_value)
      apply (use assms(2) in \<open>auto simp: onward_def\<close>) [2]
    apply (intro run_intros)
    apply (erule ok_space)
    apply (rule run_bind, rule ok_peek, rule run_bind)
    apply (rule run_weaken [OF rest], assumption, elim conjE)
    apply (intro run_intros assms(3))
      apply (auto simp: onward_def)
    done
qed

end
