(* ===== verification/Adobe_Paths.thy ===== *)
theory Adobe_Paths
  imports Adobe_Parse
begin

text \<open>
  No two properties of a catalog stand at one path: the lexer adds no property, a table adds
  its entries below keys it has not met, and a value adds itself after what stands below it.
\<close>

named_theorems quiet_intros \<open>computations that add no property\<close>

definition quiet :: "'a dcomp \<Rightarrow> bool" where
  "quiet m \<longleftrightarrow> (\<forall>s. out_props (snd (m s)) = out_props s)"

lemma quiet_bind [quiet_intros]: "quiet m \<Longrightarrow> (\<And>x. quiet (f x)) \<Longrightarrow> quiet (bindc m f)"
  by (auto simp: quiet_def bindc_def split: prod.splits sum.splits) (metis snd_conv)+

lemma quiet_basic [quiet_intros]:
  "quiet (ret x)" "quiet (getc f)" "quiet (refuse g)" "quiet (fail e)"
  by (auto simp: quiet_def ret_def getc_def refuse_def fail_def)

lemma quiet_modc: "(\<And>s. out_props (f s) = out_props s) \<Longrightarrow> quiet (modc f)"
  by (auto simp: quiet_def modc_def)

lemma quiet_if [quiet_intros]: "quiet m \<Longrightarrow> quiet n \<Longrightarrow> quiet (if b then m else n)"
  by simp

lemma quiet_let [quiet_intros]: "(\<And>x. quiet (f x)) \<Longrightarrow> quiet (Let a f)"
  by simp

lemma quiet_option [quiet_intros]: "quiet m \<Longrightarrow> (\<And>x. quiet (f x)) \<Longrightarrow> quiet (case v of None \<Rightarrow> m | Some x \<Rightarrow> f x)"
  by (cases v) auto

lemma quiet_sum [quiet_intros]: "(\<And>x. quiet (g x)) \<Longrightarrow> (\<And>x. quiet (f x)) \<Longrightarrow> quiet (case v of Inl e \<Rightarrow> g e | Inr x \<Rightarrow> f x)"
  by (cases v) auto

lemma quiet_loop:
  assumes "\<And>i. quiet (body i)"
  shows "quiet (loopc fuel e body i)"
proof (induction fuel arbitrary: i)
  case 0
  show ?case by (simp only: loopc.simps quiet_basic)
next
  case (Suc fuel)
  show ?case by (simp only: loopc.simps) (intro quiet_intros assms Suc)
qed

lemma quiet_sized_loop: "(\<And>i. quiet (body i)) \<Longrightarrow> quiet (\<lambda>s. loopc (f s) e body i s)"
  using quiet_loop [of body] by (simp add: quiet_def)

lemma quiet_advance [quiet_intros]: "quiet (advance n)"
  by (simp add: advance_def quiet_modc)

lemma quiet_skip_while [quiet_intros]: "quiet (skip_while P)"
  by (simp add: skip_while_def quiet_modc)

lemma quiet_seek [quiet_intros]: "quiet (modc (cur_update f))"
  by (simp add: quiet_modc)

lemma quiet_token [quiet_intros]: "quiet token"
  unfolding token_def by (intro quiet_intros) (simp add: quiet_modc)

lemma quiet_cursor [quiet_intros]: "quiet peek" "quiet long_level" "quiet (slice_text i j)" "quiet (text_from i)"
  unfolding peek_def long_level_def slice_text_def text_from_def by (intro quiet_intros)+

lemma quiet_long_string [quiet_intros]: "quiet long_string"
  unfolding long_string_def by (intro quiet_intros)

lemma quiet_space [quiet_intros]: "quiet space"
  unfolding space_def space_step_def by (intro quiet_sized_loop quiet_intros)

lemma quiet_take_char [quiet_intros]: "quiet (take_char c)"
  unfolding take_char_def by (intro quiet_intros)

lemma quiet_data_name [quiet_intros]: "quiet data_name"
  unfolding data_name_def by (intro quiet_intros)

lemma quiet_escape [quiet_intros]: "quiet (escape v)"
  unfolding escape_def decimal_escape_def hex_escape_def by (intro quiet_intros)

lemma quiet_quoted_string [quiet_intros]: "quiet quoted_string"
  unfolding quoted_string_def string_step_def by (intro quiet_intros quiet_sized_loop)

lemma quiet_scalar [quiet_intros]: "quiet (scalar start p)"
  unfolding scalar_def by (intro quiet_intros)

lemma quiet_entry_key [quiet_intros]: "quiet entry_key"
  unfolding entry_key_def bracket_key_def by (intro quiet_intros)

lemma quiet_parse_root [quiet_intros]: "quiet parse_root"
  unfolding parse_root_def by (intro quiet_intros)

lemma quiet_run: "quiet m \<Longrightarrow> m s = (r, t) \<Longrightarrow> out_props t = out_props s"
  by (metis quiet_def snd_conv)

section \<open>Runs that return\<close>

text \<open>What holds when the parser returns.\<close>

abbreviation returns :: "(data_error + 'a) \<times> data_parser \<Rightarrow> ('a \<Rightarrow> data_parser \<Rightarrow> bool) \<Rightarrow> bool" where
  "returns \<equiv> runs (\<lambda>_. True)"

lemma returns_refuse: "returns (refuse f s) Q"
  by (simp add: runs_def refuse_def fail_def)

lemmas returns_steps = run_simps returns_refuse

lemmas returns_simps = returns_steps run_if_eq

lemma returns_quiet: "quiet m \<Longrightarrow> (\<And>x t. out_props t = out_props s \<Longrightarrow> Q x t) \<Longrightarrow> returns (m s) Q"
  by (auto simp: runs_def dest: quiet_run split: prod.splits sum.splits)

text \<open>The new properties: below a path, at distinct paths.\<close>

definition adds :: "(data_key list \<Rightarrow> bool) \<Rightarrow> data_parser \<Rightarrow> data_parser \<Rightarrow> bool" where
  "adds P s t \<longleftrightarrow> (\<exists>new. out_props t = out_props s @ new \<and> distinct (map prop_path new)
     \<and> (\<forall>p\<in>set new. P (prop_path p)))"

definition under :: "data_key list \<Rightarrow> data_key list \<Rightarrow> bool" where
  "under path q \<longleftrightarrow> take (length path) q = path"

lemma under_refl [simp]: "under p p"
  by (simp add: under_def)

lemma under_longer: "under (p @ [k]) q \<Longrightarrow> under p q \<and> length p < length q \<and> q ! length p = k"
proof -
  assume "under (p @ [k]) q"
  then obtain r where "q = (p @ [k]) @ r" by (metis append_take_drop_id under_def)
  then show ?thesis by (simp add: under_def)
qed

text \<open>Below a path, under one of the keys met so far.\<close>

definition below :: "data_key list \<Rightarrow> data_key list \<Rightarrow> data_key list \<Rightarrow> bool" where
  "below path keys q \<longleftrightarrow> under path q \<and> length path < length q \<and> q ! length path \<in> set keys"

lemma adds_step:
  assumes "adds (below path keys) s t" "adds (under (path @ [k])) t u" "k \<notin> set keys"
  shows "adds (below path (k # keys)) s u"
proof -
  obtain xs where xs: "out_props t = out_props s @ xs" "distinct (map prop_path xs)"
    "\<forall>p\<in>set xs. below path keys (prop_path p)"
    using assms(1) by (auto simp: adds_def)
  obtain ys where ys: "out_props u = out_props t @ ys" "distinct (map prop_path ys)"
    "\<forall>p\<in>set ys. under (path @ [k]) (prop_path p)"
    using assms(2) by (auto simp: adds_def)
  have "prop_path p \<noteq> prop_path q" if "p \<in> set xs" "q \<in> set ys" for p q
    using xs(3) ys(3) that assms(3) under_longer unfolding below_def by metis
  moreover have "below path (k # keys) (prop_path p)" if "p \<in> set (xs @ ys)" for p
    using xs(3) ys(3) that under_longer [of path k "prop_path p"] by (auto simp: below_def)
  ultimately show ?thesis
    using xs(1,2) ys(1,2) unfolding adds_def
    by (intro exI [of _ "xs @ ys"]) (auto simp: disjoint_iff)
qed

lemma adds_none: "out_props t = out_props s \<Longrightarrow> adds P s t"
  by (simp add: adds_def)

lemma adds_same: "adds P s t \<Longrightarrow> out_props s' = out_props s \<Longrightarrow> out_props t' = out_props t \<Longrightarrow> adds P s' t'"
  by (simp add: adds_def)

lemma adds_push:
  assumes "adds (below path keys) s t" "out_props u = out_props t @ [p]" "prop_path p = path"
  shows "adds (under path) s u"
proof -
  obtain new where new: "out_props t = out_props s @ new" "distinct (map prop_path new)"
    "\<forall>p\<in>set new. below path keys (prop_path p)"
    using assms(1) by (auto simp: adds_def)
  then show ?thesis
    using assms(2,3) unfolding adds_def below_def by (intro exI [of _ "new @ [p]"]) auto
qed

lemma returns_push: "(\<And>t. out_props t = out_props s @ [p] \<Longrightarrow> Q () t) \<Longrightarrow> returns (push_property p s) Q"
  by (simp add: push_property_def returns_simps)

lemma returns_table:
  assumes sub: "\<And>p t. returns (val p (depth + 1) t) (\<lambda>_ u. adds (under p) t u)"
  shows "returns (table val path depth s) (\<lambda>_ t. \<exists>keys. adds (below path keys) s t)"
proof -
  have step: "returns (table_step val path depth (keys, next') t)
      (\<lambda>r u. case r of Inl (keys', _) \<Rightarrow> adds (below path keys') s u | Inr _ \<Rightarrow> \<exists>keys. adds (below path keys) s u)"
    if t: "adds (below path keys) s t" for keys next' t
  proof -
    have same: "adds (below path keys) s u" if "out_props u = out_props t" for u
      using adds_same [OF t refl that] .
    have final: "returns (take_char 125 u) (\<lambda>_ v. \<exists>keys. adds (below path keys) s v)"
      if "out_props u = out_props t" for u
      by (rule returns_quiet [OF quiet_take_char]) (use same that in auto)
    have entry: "returns (val (path @ [k]) (depth + 1) u) (\<lambda>_ v. adds (below path (k # keys)) s v)"
      if "out_props u = out_props t" "k \<notin> set keys" for k u
      by (rule run_weaken [OF sub]) (rule adds_step [OF same [OF that(1)] _ that(2)])
    show ?thesis
      unfolding table_step_def prod.case Let_def
      apply (simp only: returns_simps)
      apply (rule returns_quiet [OF quiet_space], rule returns_quiet [OF quiet_cursor(1)])
      apply (simp only: returns_simps split: if_split, intro conjI impI)
       apply (rule run_weaken [OF final], simp, simp add: returns_simps)
      apply (rule returns_quiet [OF quiet_entry_key])
      apply (simp only: returns_simps split: prod.split if_split, intro conjI impI allI)
      apply simp
      apply (rule run_weaken [OF entry])
        apply simp
       apply simp
      apply (rule returns_quiet [OF quiet_space], rule returns_quiet [OF quiet_cursor(1)])
      apply (simp only: returns_simps split: if_split, intro conjI impI)
       apply (rule returns_quiet [OF quiet_advance], rule returns_quiet [OF quiet_token])
       apply (auto simp: returns_simps intro: adds_same [OF _ refl])
      done
  qed
  show ?thesis
    unfolding table_def
    apply (simp only: returns_simps)
    apply (rule returns_quiet [OF quiet_take_char])
    apply (rule run_loop_partial [where V = "\<lambda>(keys, _) t. adds (below path keys) s t"])
     apply (clarsimp simp del: split_paired_All)
     apply (rule run_weaken [OF step], assumption)
     apply (auto split: sum.splits) []
     apply (simp_all add: adds_none)
    done
qed

lemma returns_parse_value:
  "returns (parse_value fuel path depth s) (\<lambda>_ t. adds (under path) s t)"
proof (induction fuel arbitrary: path depth s)
  case 0
  show ?case by (simp only: parse_value.simps returns_simps)
next
  case (Suc fuel)
  have push: "returns (push_property p u) (\<lambda>_ v. adds (under path) s v)"
    if "adds (below path keys) s t" "out_props u = out_props t" "prop_path p = path" for keys p t u
    by (rule returns_push, rule adds_push [OF that(1) _ that(3)]) (simp add: that(2))
  have item: "returns ((if looking t = Some 123 then bindc (table (parse_value fuel) path depth) (\<lambda>_. ret Container)
                    else scalar (cur t) (looking t)) t) (\<lambda>_ u. \<exists>keys. adds (below path keys) s u)"
    if "out_props t = out_props s" for t
    apply (simp only: returns_simps split: if_split, intro conjI impI)
     apply (rule run_weaken [OF returns_table [OF Suc.IH]])
     apply (erule exE, rule exI, erule adds_same, (simp add: that)+)
    apply (rule returns_quiet [OF quiet_scalar])
    apply (intro exI adds_none)
    apply (simp add: that)
    done
  show ?case
    unfolding parse_value.simps
    apply (simp only: returns_steps, rule run_if)
     apply (simp only: returns_simps)
    apply (simp only: returns_steps)
    apply (rule returns_quiet [OF quiet_space])
    apply (simp only: peek_def returns_steps flip: looking_def)
    apply (rule run_weaken [OF item], assumption)
    apply (erule exE)
    apply (rule returns_quiet [OF quiet_cursor(3)])
    apply (erule push)
     apply simp_all
    done
qed

lemma returns_parse_body:
  "returns (parse_body fuel s) (\<lambda>_ t. \<exists>path. adds (under path) s t)"
  unfolding parse_body_def
  apply (simp only: returns_steps)
  apply (rule returns_quiet [OF quiet_parse_root])
  apply (simp only: returns_steps split: prod.split, intro allI impI)
  apply (rule returns_quiet [OF quiet_space], rule returns_quiet [OF quiet_cursor(1)])
  apply (rule run_if, simp only: returns_simps)
  apply (simp only: returns_steps)
  apply (rule run_weaken [OF returns_parse_value])
  apply (rule returns_quiet [OF quiet_space], rule returns_quiet [OF quiet_cursor(1)])
  apply (rule returns_quiet)
   apply (intro quiet_intros)
  apply (rule run_if, simp only: returns_simps)
  apply (simp only: returns_steps)
  apply (rule exI, erule adds_same)
   apply simp_all
  done

end
