(* ===== verification/Adobe_Properties.thy ===== *)
theory Adobe_Properties
  imports Adobe_Paths
begin

text \<open>
  The properties of the data grammar of catalog develop settings, on any bytes and under any
  limits: the parser answers, what it returns is the source's own text within the budgets,
  and no path has two values.
\<close>

section \<open>Runs of the parser\<close>

lemma ok_parse_data:
  assumes "valid_utf8 b"
  shows "ok (parse_body (limit_depth l + 2) (data_start b l)) (\<lambda>_ t. good t \<and> src_text t = b \<and> data_limits t = l
    \<and> cur t = length b)"
proof (rule ok_parse_body)
  have "char_boundary b 0"
    using assms valid_not_continuation by (cases b) (auto simp: char_boundary_def)
  then show "good (data_start b l)"
    using assms by (simp add: data_start_def good_def loose_def budgeted_def)
qed (auto simp: data_start_def onward_def)

lemma parse_data_run:
  assumes "parse_data b l = Inr (ps, rt)"
  obtains t where "parse_body (limit_depth l + 2) (data_start b l) = (Inr rt, t)" "out_props t = ps"
    "good t" "src_text t = b" "data_limits t = l"
proof -
  have b: "valid_utf8 b" using assms by (auto simp: parse_data_def split: if_splits)
  obtain r t where run: "parse_body (limit_depth l + 2) (data_start b l) = (r, t)"
    by (cases "parse_body (limit_depth l + 2) (data_start b l)")
  with assms b have "r = Inr rt" "out_props t = ps" by (auto simp: parse_data_def split: sum.splits)
  with run that ok_parse_data [OF b, of l] show ?thesis by (simp add: runs_def refused_def)
qed

section \<open>Properties\<close>

text \<open>
  C26: the catalog data parser answers on every input: it returns the properties or one refusal
  with its kind and message. No text makes it slice inside a character, and neither its loops nor
  its recursion outlast the fuel they are given, the bytes left and the nesting limit.
\<close>
theorem parse_data_total:
  "(\<exists>ps rt. parse_data b l = Inr (ps, rt)) \<or> (\<exists>f. parse_data b l = Inl (DataFailed f))"
proof (cases "valid_utf8 b")
  case True
  obtain r t where run: "parse_body (limit_depth l + 2) (data_start b l) = (r, t)"
    by (cases "parse_body (limit_depth l + 2) (data_start b l)")
  with True ok_parse_data [OF True, of l] show ?thesis
    by (cases r) (auto simp: runs_def refused_def parse_data_def)
qed (simp add: parse_data_def)

text \<open>
  Every property the catalog data parser returns is retained source text: it names a range of
  the input and carries exactly the bytes of that range, marked as retained only; there are at most
  as many as the property limit.
\<close>
theorem parse_data_spans:
  assumes "parse_data b l = Inr (ps, rt)"
  shows "length ps \<le> limit_properties l \<and> list_all (\<lambda>p. prop_start p \<le> prop_end p \<and> prop_end p \<le> length b
      \<and> prop_lexical p = take (prop_end p - prop_start p) (drop (prop_start p) b)
      \<and> prop_disposition p = RetainedOnly) ps"
  using parse_data_run [OF assms]
  by (auto simp: good_def loose_def budgeted_def spans_def list_all_iff)

text \<open>
  No two properties of a parsed catalog stand at the same path, at any depth: a table key met
  twice, named or counted, is refused and never settled by the last value.
\<close>
theorem parse_data_paths_distinct:
  assumes "parse_data b l = Inr (ps, rt)"
  shows "distinct (map prop_path ps)"
proof -
  obtain t where t: "parse_body (limit_depth l + 2) (data_start b l) = (Inr rt, t)" "out_props t = ps"
    using parse_data_run [OF assms] by metis
  have "returns (parse_body (limit_depth l + 2) (data_start b l)) (\<lambda>_ t. \<exists>path. adds (under path) (data_start b l) t)"
    by (rule returns_parse_body)
  with t show ?thesis by (auto simp: runs_def adds_def data_start_def)
qed

section \<open>Instances\<close>

definition sample_limits :: data_limits where
  "sample_limits = \<lparr>limit_bytes = 100, limit_properties = 10, limit_tokens = 40, limit_depth = 3,
     limit_string_bytes = 20, limit_output_bytes = 100\<rparr>"

definition sample_text :: "byte list" where
  "sample_text = ascii ''{{}}''"

definition sample_property :: "data_key list \<Rightarrow> string \<Rightarrow> string \<Rightarrow> nat \<Rightarrow> nat \<Rightarrow> data_property" where
  "sample_property path name lexical from until =
     \<lparr>prop_path = path, prop_namespace = None, prop_name = ascii name, prop_lexical = ascii lexical,
      prop_start = from, prop_end = until, prop_value = Container, prop_disposition = RetainedOnly,
      prop_reason = ''unknown or unqualified catalog data retained''\<rparr>"

definition sample_properties :: "data_property list" where
  "sample_properties =
     [sample_property [KeyIndex 1] ''1'' ''{}'' 1 3, sample_property [] '''' ''{{}}'' 0 4]"

lemma sample_parse: "parse_data sample_text sample_limits = Inr (sample_properties, Bare)"
  by code_simp

theorem parse_data_spans_witness:
  "length sample_properties \<le> limit_properties sample_limits \<and> list_all (\<lambda>p. prop_start p \<le> prop_end p
      \<and> prop_end p \<le> length sample_text \<and> prop_lexical p = take (prop_end p - prop_start p) (drop (prop_start p) sample_text)
      \<and> prop_disposition p = RetainedOnly) sample_properties"
  by (rule parse_data_spans [OF sample_parse])

theorem parse_data_paths_distinct_witness:
  "distinct (map prop_path sample_properties)"
  using parse_data_paths_distinct [OF sample_parse] by simp

end
