(* ===== verification/Adobe_Mapping.thy ===== *)
theory Adobe_Mapping
  imports Adobe_Settings Adobe_Properties Edit_Properties
begin

text \<open>
  What the interpretation of develop settings guarantees: it retains the source, it maps only
  what a qualified source says once and validly, and what it maps the recipe accepts.
\<close>

section \<open>Judged properties\<close>

lemma judge_frame [simp]:
  "prop_name (judge i p) = prop_name p" "prop_path (judge i p) = prop_path p"
  "prop_namespace (judge i p) = prop_namespace p" "prop_lexical (judge i p) = prop_lexical p"
  "prop_start (judge i p) = prop_start p" "prop_end (judge i p) = prop_end p"
  by (simp_all add: judge_def invalid_def split: option.split prod.split)

lemma mark_frame [simp]:
  "prop_name (mark_conflict i ps p) = prop_name p" "prop_path (mark_conflict i ps p) = prop_path p"
  "prop_namespace (mark_conflict i ps p) = prop_namespace p" "prop_lexical (mark_conflict i ps p) = prop_lexical p"
  "prop_start (mark_conflict i ps p) = prop_start p" "prop_end (mark_conflict i ps p) = prop_end p"
  by (simp_all add: mark_conflict_def)

lemma explain_frame [simp]:
  "prop_name (explain i q ms p) = prop_name p" "prop_path (explain i q ms p) = prop_path p"
  "prop_namespace (explain i q ms p) = prop_namespace p" "prop_lexical (explain i q ms p) = prop_lexical p"
  "prop_start (explain i q ms p) = prop_start p" "prop_end (explain i q ms p) = prop_end p"
  by (simp_all add: explain_def)

lemma eligible_frame:
  "prop_path p = prop_path q \<Longrightarrow> prop_namespace p = prop_namespace q \<Longrightarrow> eligible i p = eligible i q"
  by (simp add: eligible_def split: source_format.split)

definition judged1 :: "adobe_input \<Rightarrow> data_property list \<Rightarrow> data_property \<Rightarrow> data_property" where
  "judged1 i ps p = mark_conflict i ps (if eligible i p then judge i p else p)"

lemma judged_map: "judged i ps = map (judged1 i ps) ps"
  by (simp add: judged_def judged1_def)

lemma judged1_frame [simp]:
  "prop_name (judged1 i ps p) = prop_name p" "prop_path (judged1 i ps p) = prop_path p"
  "prop_namespace (judged1 i ps p) = prop_namespace p" "prop_lexical (judged1 i ps p) = prop_lexical p"
  "prop_start (judged1 i ps p) = prop_start p" "prop_end (judged1 i ps p) = prop_end p"
  by (simp_all add: judged1_def)

lemma judged1_eligible [simp]: "eligible i (judged1 i ps p) = eligible i p"
  by (rule eligible_frame) simp_all

lemma judge_eligible [simp]: "eligible i (judge i p) = eligible i p"
  by (rule eligible_frame) simp_all

lemma listed_judged: "listed i (judged i ps) n = map (judged1 i ps) (listed i ps n)"
  by (simp add: listed_def judged_map filter_map o_def)

lemma value_judged:
  assumes "value_named i (judged i ps) n = Some v"
  obtains p where "listed i ps (ascii n) = [p]" "p \<in> set ps" "eligible i p" "prop_name p = ascii n"
    "prop_value (judge i p) = v" "prop_disposition (judge i p) = RetainedOnly"
proof -
  obtain q where q: "listed i (judged i ps) (ascii n) = [q]" "prop_disposition q = RetainedOnly" "prop_value q = v"
    using assms by (auto simp: value_named_def split: list.splits if_splits)
  then obtain p where p: "listed i ps (ascii n) = [p]" "q = judged1 i ps p"
    by (auto simp: listed_judged map_eq_Cons_conv)
  then have "p \<in> set (listed i ps (ascii n))" by simp
  then have e: "p \<in> set ps" "eligible i p" "prop_name p = ascii n" by (auto simp: listed_def)
  then have "q = judge i p" using p q(2) by (auto simp: judged1_def mark_conflict_def split: if_splits)
  with e p(1) q that show ?thesis by blast
qed

lemma read_number_proper: "read_number i v = Some n \<Longrightarrow> proper_value v \<Longrightarrow> proper n"
  by (auto simp: read_number_def dest: number_proper split: data_value.splits if_splits sum.splits)

text \<open>A judged number is finite and within the bounds of its name.\<close>

lemma numeric_judged:
  assumes "numeric i (judged i ps) n = Some x" "spec_for i (ascii n) = Some (lo, hi, integer)"
    and "list_all (proper_value \<circ> prop_value) ps"
  shows "is_finite x \<and> proper x \<and> lo \<le> value_of x \<and> value_of x \<le> hi \<and> (integer \<longrightarrow> whole x)"
proof -
  have "value_named i (judged i ps) n = Some (Number x)"
    using assms(1) by (auto simp: numeric_def split: option.splits data_value.splits)
  then obtain p where p: "p \<in> set ps" "prop_name p = ascii n" "prop_value (judge i p) = Number x"
    "prop_disposition (judge i p) = RetainedOnly"
    using value_judged by metis
  then have "read_number i (prop_value p) = Some x" "is_finite x" "ge_const x lo" "le_const x hi" "integer \<longrightarrow> whole x"
    using assms(2) by (auto simp: judge_def invalid_def split: option.splits if_splits)
  moreover have "proper_value (prop_value p)" using assms(3) p(1) by (auto simp: list_all_iff)
  ultimately show ?thesis
    using read_number_proper
    by (cases x) (auto simp: is_finite_def ge_const_def le_const_def value_of_def)
qed

lemma recipe_number_bound:
  assumes "recipe_number x = Some y" "is_finite x" "proper x" "- of_nat c \<le> value_of x" "value_of x \<le> of_nat c" "c < 2 ^ 24"
  shows "is_finite y \<and> - of_nat c \<le> value_of y \<and> value_of y \<le> of_nat c"
  using cast_f32_le [OF assms(2-6)] assms(1) by (auto simp: recipe_number_def Let_def split: if_splits)

lemma specs:
  "spec_for i (ascii ''Exposure2012'') = Some (-5, 5, False)"
  "spec_for i (ascii ''Tint'') = Some (-150, 150, False)"
  "in_kind i = Raw \<Longrightarrow> spec_for i (ascii ''Temperature'') = Some (2000, 50000, True)"
proof -
  have "numeric_spec (ascii ''Exposure2012'') = Some (-5, 5, False)" "numeric_spec (ascii ''Tint'') = Some (-150, 150, False)"
    "numeric_spec (ascii ''Temperature'') = Some (2000, 50000, True)"
    "\<not> is_any (ascii ''Exposure2012'') [''Temperature'']" "\<not> is_any (ascii ''Tint'') [''Temperature'']"
    by (simp_all add: numeric_spec_def)
  then show "spec_for i (ascii ''Exposure2012'') = Some (-5, 5, False)"
    "spec_for i (ascii ''Tint'') = Some (-150, 150, False)"
    "in_kind i = Raw \<Longrightarrow> spec_for i (ascii ''Temperature'') = Some (2000, 50000, True)"
    by (simp_all add: spec_for_def)
qed

section \<open>What is mapped is accepted\<close>

lemma checked_inside:
  assumes "is_finite x" "lo \<le> value_of x" "value_of x \<le> hi"
  shows "\<exists>y. checked n (lo, a) (hi, b) x = Inr y"
  using assms by (cases x) (auto simp: checked_def is_finite_def less_const_def greater_const_def value_of_def)

lemma mapped_exposure_bound:
  assumes "mapped_exposure i (judged i ps) = Some ev" "list_all (proper_value \<circ> prop_value) ps"
  shows "is_finite ev \<and> -5 \<le> value_of ev \<and> value_of ev \<le> 5"
proof -
  obtain x where x: "numeric i (judged i ps) ''Exposure2012'' = Some x" "recipe_number x = Some ev"
    using assms(1) by (auto simp: mapped_exposure_def Let_def bind_eq_Some_conv split: if_splits)
  show ?thesis
    using recipe_number_bound [OF x(2), of 5] numeric_judged [OF x(1) specs(1) assms(2)] by simp
qed

lemma mapped_white_balance_ok:
  assumes "mapped_white_balance e i (judged i ps) = Some (w, xy, names)" "list_all (proper_value \<circ> prop_value) ps"
  shows "\<exists>w'. validate_wb w = Inr w'"
proof (cases w)
  case (TemperatureTint k t)
  have raw: "in_kind i = Raw" using assms(1) by (auto simp: mapped_white_balance_def split: if_splits)
  obtain x y where xy: "numeric i (judged i ps) ''Temperature'' = Some x" "k = as_u32 x"
    "numeric i (judged i ps) ''Tint'' = Some y" "recipe_number y = Some t"
    using assms(1) TemperatureTint
    by (auto simp: mapped_white_balance_def Let_def bind_eq_Some_conv split: if_splits option.splits data_value.splits sum.splits)
  have t: "is_finite t" "-150 \<le> value_of t" "value_of t \<le> 150"
    using recipe_number_bound [OF xy(4), of 150] numeric_judged [OF xy(3) specs(2) assms(2)] by simp_all
  have x: "is_finite x" "2000 \<le> value_of x" "value_of x \<le> 50000"
    using numeric_judged [OF xy(1) specs(3) [OF raw] assms(2)] by simp_all
  then have "2000 \<le> \<lfloor>value_of x\<rfloor>" "\<lfloor>value_of x\<rfloor> \<le> 50000"
    by (simp_all add: le_floor_iff floor_le_iff)
  then have "2000 \<le> k" "k \<le> 50000"
    using x(1) by (auto simp: xy(2) as_u32_def is_finite_def nat_le_iff le_nat_iff split: ieee.splits)
  with t show ?thesis
    using checked_inside [of t "-150" 150] by (simp add: TemperatureTint validate_wb_def) (metis tryr_simps(2))
qed (simp add: validate_wb_def)

lemma normalize_parts:
  assumes "normalize r = Inr n"
  shows "checked ''exposure_ev'' (-10, ''-10'') (10, ''10'') (exposure_ev r) = Inr (exposure_ev n)" "validate_wb (wb r) = Inr (wb n)"
  using assms by (auto simp: normalize_def tryr_Inr_iff)

lemma normalize_update:
  assumes "normalize r = Inr n" "checked ''exposure_ev'' (-10, ''-10'') (10, ''10'') ev = Inr ev'" "validate_wb w = Inr w'"
  shows "normalize (r\<lparr>exposure_ev := ev, wb := w\<rparr>) = Inr (n\<lparr>exposure_ev := ev', wb := w'\<rparr>)"
  using assms by (auto simp: normalize_def tryr_Inr_iff)

text \<open>A contribution that the recipe accepts, whatever else it holds.\<close>

definition acceptable :: "contribution \<Rightarrow> bool" where
  "acceptable c \<longleftrightarrow> (\<forall>ev. contrib_ev c = Some ev \<longrightarrow> is_finite ev \<and> -5 \<le> value_of ev \<and> value_of ev \<le> 5)
     \<and> (\<forall>w. contrib_wb c = Some w \<longrightarrow> (\<exists>w'. validate_wb w = Inr w'))"

lemma apply_acceptable:
  assumes "acceptable c" "validate re target = Inr v" "\<And>r. \<exists>bytes. serialize re r = Inr bytes"
  shows "\<exists>u. apply_to re c target = Inr u
    \<and> vrecipe u = (vrecipe v)\<lparr>exposure_ev := exposure_ev (vrecipe u), wb := wb (vrecipe u)\<rparr>
    \<and> (contrib_ev c = None \<longrightarrow> exposure_ev (vrecipe u) = exposure_ev (vrecipe v))
    \<and> (contrib_wb c = None \<longrightarrow> wb (vrecipe u) = wb (vrecipe v))"
proof -
  let ?ev = "case contrib_ev c of Some ev \<Rightarrow> ev | None \<Rightarrow> exposure_ev target"
  let ?w = "case contrib_wb c of Some w \<Rightarrow> w | None \<Rightarrow> wb target"
  have n: "normalize target = Inr (vrecipe v)" using assms(2) by (auto simp: validate_def tryr_Inr_iff)
  have ev: "checked ''exposure_ev'' (-10, ''-10'') (10, ''10'') (exposure_ev target) = Inr (exposure_ev (vrecipe v))"
    using normalize_parts [OF n] by simp
  have w: "validate_wb (wb target) = Inr (wb (vrecipe v))" using normalize_parts [OF n] by simp
  obtain ev' where ev': "checked ''exposure_ev'' (-10, ''-10'') (10, ''10'') ?ev = Inr ev'"
    "contrib_ev c = None \<longrightarrow> ev' = exposure_ev (vrecipe v)"
  proof (cases "contrib_ev c")
    case None
    with ev that show ?thesis by simp
  next
    case (Some x)
    then have "is_finite x" "-10 \<le> value_of x" "value_of x \<le> 10" using assms(1) by (auto simp: acceptable_def)
    with checked_inside [of x "-10" 10 "''exposure_ev''" "''-10''" "''10''"] Some that show ?thesis by auto
  qed
  obtain w' where w': "validate_wb ?w = Inr w'" "contrib_wb c = None \<longrightarrow> w' = wb (vrecipe v)"
  proof (cases "contrib_wb c")
    case None
    with w that show ?thesis by simp
  next
    case (Some x)
    then obtain y where "validate_wb x = Inr y" using assms(1) by (auto simp: acceptable_def)
    with Some that show ?thesis by simp
  qed
  obtain bytes where b: "serialize re ((vrecipe v)\<lparr>exposure_ev := ev', wb := w'\<rparr>) = Inr bytes" using assms(3) by blast
  define u where "u = \<lparr>vrecipe = (vrecipe v)\<lparr>exposure_ev := ev', wb := w'\<rparr>, canonical = bytes, recipe_digest = recipe_blake3 re bytes\<rparr>"
  have "target\<lparr>exposure_ev := ?ev\<rparr>\<lparr>wb := case contrib_wb c of Some w \<Rightarrow> w | None \<Rightarrow> wb (target\<lparr>exposure_ev := ?ev\<rparr>)\<rparr>
      = target\<lparr>exposure_ev := ?ev, wb := ?w\<rparr>" by (simp split: option.split)
  then have "apply_to re c target = Inr u"
    using normalize_update [OF n ev'(1) w'(1)] b assms(2) by (simp add: apply_to_def Let_def validate_def u_def map_err_def)
  then show ?thesis using ev'(2) w'(2) by (intro exI [of _ u]) (simp add: u_def)
qed

lemma no_contribution_acceptable: "acceptable no_contribution"
  by (simp add: acceptable_def no_contribution_def)

lemma translate_acceptable:
  assumes "list_all (proper_value \<circ> prop_value) (ext_properties r)" "contribution r = no_contribution"
  shows "acceptable (contribution (translate e r))"
  using mapped_exposure_bound [OF _ assms(1)] mapped_white_balance_ok [OF _ assms(1)]
  by (auto simp: translate_def Let_def assms(2) acceptable_def no_contribution_def split: option.splits if_splits)

section \<open>Extraction, case by case\<close>

lemma adobe_extract_cases:
  assumes "adobe_extract e b i l = Inr x"
  obtains (failed) f where "x = retained_failure i f"
  | (parsed) ps where "read_settings e b i l = Inr ps" "x = translate e (parsed_extraction i ps)"
      "hex_digest e b = payload_blake3 i" "length b = payload_bytes i"
proof -
  have keep: "ext_input (translate e r) = ext_input r" for r by (simp add: translate_def Let_def)
  have run: "hex_digest e b = payload_blake3 i" "length b = payload_bytes i" "(case read_settings e b i l of
         Inl (DataFailed f) \<Rightarrow> Inr (retained_failure i f)
       | Inl _ \<Rightarrow> Inl Crashed
       | Inr ps \<Rightarrow>
           let result = translate e (parsed_extraction i ps)
           in if json_size e result > limit_output_bytes l
           then Inr (retained_failure (ext_input result)
             (limit_failure ''extraction output exceeds limit; all original data remains externally retained''))
           else Inr result) = Inr x"
    if "\<nexists>f. x = retained_failure i f"
    using assms that by (auto simp: adobe_extract_def tryr_Inr_iff split: if_splits)
  show ?thesis
  proof (cases "\<exists>f. x = retained_failure i f")
    case True
    with failed show ?thesis by blast
  next
    case False
    obtain ps where ps: "read_settings e b i l = Inr ps"
      using run(3) [OF False] False by (cases "read_settings e b i l") (auto split: data_error.splits)
    have "ext_input (parsed_extraction i ps) = i" by (simp add: parsed_extraction_def)
    then have "x = translate e (parsed_extraction i ps)"
      using run(3) [OF False] False keep by (auto simp: ps Let_def split: if_splits)
    with parsed [OF ps] run(1,2) [OF False] show ?thesis by simp
  qed
qed

text \<open>The XML reader yields text and containers, marked as retained only.\<close>

definition reader_ok :: "adobe_env \<Rightarrow> bool" where
  "reader_ok e \<longleftrightarrow> (\<forall>b l ps. read_xml e b l = Inr ps \<longrightarrow>
     list_all (\<lambda>p. prop_disposition p = RetainedOnly \<and> (case prop_value p of Text _ \<Rightarrow> True | Container \<Rightarrow> True | _ \<Rightarrow> False)) ps)"

lemma read_settings_ok:
  assumes "read_settings e b i l = Inr ps" "reader_ok e"
  shows "list_all (proper_value \<circ> prop_value) ps \<and> list_all (\<lambda>p. prop_disposition p = RetainedOnly) ps"
proof (cases "in_format i")
  case CrsXml
  then have "list_all (\<lambda>p. prop_disposition p = RetainedOnly \<and> (case prop_value p of Text _ \<Rightarrow> True | Container \<Rightarrow> True | _ \<Rightarrow> False)) ps"
    using assms by (auto simp: read_settings_def reader_ok_def)
  then show ?thesis by (auto simp: list_all_iff proper_value_def split: data_value.splits)
next
  case CatalogData
  then obtain rt where "parse_data b l = Inr (ps, rt)"
    using assms(1) by (cases "parse_data b l") (auto simp: read_settings_def)
  then obtain t where "out_props t = ps" "good t" using parse_data_run by metis
  then have "list_all (spans (src_text t)) ps" by (auto simp: good_def loose_def budgeted_def)
  then show ?thesis by (auto simp: list_all_iff spans_def)
qed

definition mapped_names :: "adobe_env \<Rightarrow> extraction \<Rightarrow> string list" where
  "mapped_names e r =
     (let i = ext_input r; ps = judged i (ext_properties r); qual = qualifies i ps in
      (if qual \<and> mapped_exposure i ps \<noteq> None then [''Exposure2012''] else [])
      @ (case if qual then mapped_white_balance e i ps else None of Some (_, _, names) \<Rightarrow> names | None \<Rightarrow> []))"

lemma translate_properties:
  "ext_properties (translate e r) =
     map (\<lambda>p. explain (ext_input r) (qualifies (ext_input r) (judged (ext_input r) (ext_properties r))) (mapped_names e r)
       (judged1 (ext_input r) (ext_properties r) p)) (ext_properties r)"
  by (simp add: translate_def Let_def mapped_names_def judged_map o_def)

lemma explain_value [simp]: "prop_value (explain i q ms p) = prop_value p"
  by (simp add: explain_def)

lemma explain_eligible [simp]: "eligible i (explain i q ms p) = eligible i p"
  by (rule eligible_frame) simp_all

lemma listed_translate:
  "listed (ext_input r) (ext_properties (translate e r)) n =
     map (explain (ext_input r) (qualifies (ext_input r) (judged (ext_input r) (ext_properties r))) (mapped_names e r))
       (listed (ext_input r) (judged (ext_input r) (ext_properties r)) n)"
  by (simp add: listed_def judged_map translate_properties filter_map o_def)

lemma mapped_names_four:
  "is_any n (mapped_names e r) \<Longrightarrow> is_any n [''Exposure2012'', ''WhiteBalance'', ''Temperature'', ''Tint'']
     \<and> qualifies (ext_input r) (judged (ext_input r) (ext_properties r))"
  by (auto simp: mapped_names_def mapped_white_balance_def is_any_def Let_def
      split: if_splits option.splits data_value.splits sum.splits)

text \<open>A property the translation marks as mapped stands alone under its name.\<close>

lemma mapped_alone:
  assumes "list_all (\<lambda>p. prop_disposition p = RetainedOnly) (ext_properties r)"
    and "p \<in> set (ext_properties (translate e r))" "prop_disposition p = MappedParameter"
  shows "eligible (ext_input r) p \<and> listed (ext_input r) (ext_properties (translate e r)) (prop_name p) = [p]
    \<and> is_any (prop_name p) (mapped_names e r)"
proof -
  let ?i = "ext_input r" and ?ps = "ext_properties r"
  let ?ex = "explain ?i (qualifies ?i (judged ?i ?ps)) (mapped_names e r)"
  obtain q where q: "q \<in> set ?ps" "p = ?ex (judged1 ?i ?ps q)"
    using assms(2) by (auto simp: translate_properties)
  have "prop_disposition q = RetainedOnly" using q(1) assms(1) by (auto simp: list_all_iff)
  then have "prop_disposition (judged1 ?i ?ps q) \<noteq> MappedParameter"
    by (simp add: judged1_def mark_conflict_def judge_def invalid_def split: option.split prod.split)
  then have m: "eligible ?i q" "prop_disposition (judged1 ?i ?ps q) = RetainedOnly" "is_any (prop_name q) (mapped_names e r)"
    using assms(3) by (auto simp: q(2) explain_def split: if_splits)
  then have "length (listed ?i ?ps (prop_name q)) \<le> 1"
    by (auto simp: judged1_def mark_conflict_def split: if_splits)
  moreover have "q \<in> set (listed ?i ?ps (prop_name q))" using q(1) m(1) by (simp add: listed_def)
  ultimately have "listed ?i ?ps (prop_name q) = [q]"
    by (cases "listed ?i ?ps (prop_name q)") auto
  then have "listed ?i (ext_properties (translate e r)) (prop_name q) = [p]"
    by (simp add: listed_translate listed_judged q(2))
  with m show ?thesis by (simp add: q(2))
qed

text \<open>What a qualified source states.\<close>

definition qualified_source :: "adobe_input \<Rightarrow> data_property list \<Rightarrow> bool" where
  "qualified_source i ps \<longleftrightarrow> in_association i = Current \<and> in_kind i \<noteq> UnknownKind
     \<and> (\<exists>p. listed i ps (ascii ''ProcessVersion'') = [p] \<and> prop_value p = Text (ascii ''11.0''))
     \<and> list_all (\<lambda>p. eligible i p \<and> enable_name (prop_name p) \<longrightarrow> prop_value p = Boolean True) ps"

lemma qualified_translated:
  assumes "qualifies (ext_input r) (judged (ext_input r) (ext_properties r))"
  shows "qualified_source (ext_input r) (ext_properties (translate e r))"
proof -
  obtain p where "listed (ext_input r) (judged (ext_input r) (ext_properties r)) (ascii ''ProcessVersion'') = [p]"
    "prop_value p = Text (ascii ''11.0'')"
    using assms by (auto simp: qualifies_def value_named_def split: list.splits if_splits)
  then have "\<exists>q. listed (ext_input r) (ext_properties (translate e r)) (ascii ''ProcessVersion'') = [q]
      \<and> prop_value q = Text (ascii ''11.0'')"
    by (simp add: listed_translate)
  then show ?thesis
    using assms by (auto simp: qualified_source_def qualifies_def switches_valid_def
        translate_properties judged_map list_all_iff)
qed

lemma contribution_qualified:
  "contribution r = no_contribution \<Longrightarrow> contribution (translate e r) \<noteq> no_contribution \<Longrightarrow>
     qualifies (ext_input r) (judged (ext_input r) (ext_properties r))"
  by (auto simp: translate_def Let_def no_contribution_def split: if_splits)

end
