(* ===== verification/Settings_Properties.thy ===== *)
theory Settings_Properties
  imports Adobe_Mapping
begin

text \<open>The properties of the interpretation of develop settings, and concrete instances.\<close>

section \<open>Properties\<close>

text \<open>
  C18: what extraction maps, the recipe accepts. The contribution of any extraction applies to any
  recipe that validates: it is never refused, it sets the exposure and the white balance and no
  other setting, and it leaves alone what it does not carry. Every mapped number was finite and
  within its range in the source, and stays within the recipe's range in single precision.
\<close>
theorem extracted_settings_apply:
  assumes "adobe_extract e b i l = Inr x" "reader_ok e" "validate re target = Inr v"
    and "\<And>r. \<exists>bytes. serialize re r = Inr bytes"
  shows "\<exists>u. apply_to re (contribution x) target = Inr u
    \<and> vrecipe u = (vrecipe v)\<lparr>exposure_ev := exposure_ev (vrecipe u), wb := wb (vrecipe u)\<rparr>
    \<and> (contrib_ev (contribution x) = None \<longrightarrow> exposure_ev (vrecipe u) = exposure_ev (vrecipe v))
    \<and> (contrib_wb (contribution x) = None \<longrightarrow> wb (vrecipe u) = wb (vrecipe v))"
  using assms(1)
proof (cases rule: adobe_extract_cases)
  case (failed f)
  then show ?thesis
    using apply_acceptable [OF no_contribution_acceptable assms(3,4)] by (simp add: retained_failure_def)
next
  case (parsed ps)
  have "acceptable (contribution x)"
    using translate_acceptable read_settings_ok [OF parsed(1) assms(2)] by (simp add: parsed(2) parsed_extraction_def)
  from apply_acceptable [OF this assms(3,4)] show ?thesis .
qed


text \<open>
  C34: extraction is all or nothing and retains its source. It either reports one failure with no
  properties, no contribution and nothing claimed missing, or it has checked the length and the
  digest of the payload and returns every property that was read, in order, with its path, name and
  exact text; and of the known names it lists as missing exactly those that no eligible property has.
\<close>
theorem extraction_all_or_nothing:
  assumes "adobe_extract e b i l = Inr x"
  shows "ext_failure x \<noteq> None \<and> ext_properties x = [] \<and> missing x = [] \<and> contribution x = no_contribution
    \<or> ext_failure x = None \<and> hex_digest e b = payload_blake3 i \<and> length b = payload_bytes i
      \<and> (\<exists>ps. read_settings e b i l = Inr ps \<and> list_all2 (\<lambda>p q. prop_path p = prop_path q \<and> prop_name p = prop_name q
           \<and> prop_lexical p = prop_lexical q \<and> prop_start p = prop_start q \<and> prop_end p = prop_end q) ps (ext_properties x))
      \<and> (\<forall>n. n \<in> set (missing x) \<longleftrightarrow> n \<in> set basic_properties
           \<and> \<not> list_ex (\<lambda>p. eligible i p \<and> prop_name p = ascii n) (ext_properties x))"
  using assms
proof (cases rule: adobe_extract_cases)
  case (failed f)
  then show ?thesis by (simp add: retained_failure_def)
next
  case (parsed ps)
  let ?r = "parsed_extraction i ps"
  have r: "ext_input ?r = i" "ext_properties ?r = ps" "ext_failure ?r = None" by (simp_all add: parsed_extraction_def)
  have "ext_failure x = None" by (simp add: parsed(2) translate_def Let_def r)
  moreover have "list_all2 (\<lambda>p q. prop_path p = prop_path q \<and> prop_name p = prop_name q
      \<and> prop_lexical p = prop_lexical q \<and> prop_start p = prop_start q \<and> prop_end p = prop_end q) ps (ext_properties x)"
    by (simp add: parsed(2) translate_properties r list_all2_conv_all_nth)
  moreover have "missing x = filter (\<lambda>n. \<not> present i (judged i ps) n) basic_properties"
    by (simp add: parsed(2) translate_def Let_def r)
  moreover have "present i (judged i ps) n \<longleftrightarrow> list_ex (\<lambda>p. eligible i p \<and> prop_name p = ascii n) (ext_properties x)" for n
    by (auto simp: present_def listed_judged parsed(2) translate_properties r listed_def list_ex_iff filter_empty_conv judged_map)
  ultimately show ?thesis using parsed by auto
qed

section \<open>Instances\<close>

definition xml_text :: "string \<Rightarrow> string \<Rightarrow> data_property" where
  "xml_text name t =
     \<lparr>prop_path = [KeyXml crs (ascii name) 0], prop_namespace = Some crs, prop_name = ascii name, prop_lexical = ascii t,
      prop_start = 0, prop_end = length t, prop_value = Text (ascii t), prop_disposition = RetainedOnly,
      prop_reason = ''unknown or unqualified property retained''\<rparr>"

definition sample_env :: adobe_env where
  "sample_env = \<lparr>read_xml = \<lambda>_ _. Inr [xml_text ''ProcessVersion'' ''11.0'', xml_text ''Exposure2012'' ''1''],
     hex_digest = \<lambda>_. replicate 64 48, json_size = \<lambda>_. 0, native_white_point = \<lambda>_. Inl ''none''\<rparr>"

definition sample_input :: adobe_input where
  "sample_input = \<lparr>source_id = [97], revision = [98], locator = [99], payload_blake3 = replicate 64 48, payload_bytes = 0,
     in_format = CrsXml, in_kind = Raw, in_association = Current, settings_path = [], as_shot_available = True\<rparr>"

definition sample_settings :: extraction where
  "sample_settings = translate sample_env
     (parsed_extraction sample_input [xml_text ''ProcessVersion'' ''11.0'', xml_text ''Exposure2012'' ''1''])"

lemma sample_reader: "reader_ok sample_env"
  by (simp add: reader_ok_def sample_env_def xml_text_def)

lemma sample_number: "number (ascii ''1'') = Inr (Finite False 1)"
proof -
  have "to_f64 False 1 = Finite False 1"
    by (simp add: to_f64_def round_to_def ilog2_def pow2_def bit_length.simps round_half_even_def Let_def)
  then show ?thesis
    by (simp add: number_def ascii_def at_sign_def skip_sign_def is_digit_def decimal_def digit_value_def pow10_def
        is_finite_def is_zero_def Let_def)
qed

lemma sample_single: "recipe_number (Finite False 1) = Some (Finite False 1)"
proof -
  have "to_f32 False 1 = Finite False 1"
    by (simp add: to_f32_def round_to_def ilog2_def pow2_def bit_length.simps round_half_even_def Let_def)
  then show ?thesis by (simp add: recipe_number_def cast_f32_def is_finite_def is_zero_def Let_def)
qed

lemma sample_extract: "adobe_extract sample_env [] sample_input sample_limits = Inr sample_settings"
proof -
  have "validate_limits sample_limits = Inr ()"
    by (simp add: validate_limits_def sample_limits_def default_limits_def)
  moreover have "validate_input sample_input = Inr ()"
    by (simp add: validate_input_def sample_input_def lower_hex_def is_hexdigit_def is_digit_def list_all_iff)
  ultimately show ?thesis
    by (simp add: adobe_extract_def sample_settings_def Let_def read_settings_def)
      (simp add: sample_env_def sample_input_def)
qed

lemma xml_text_fields [simp]:
  "prop_name (xml_text n t) = ascii n" "prop_value (xml_text n t) = Text (ascii t)"
  "prop_disposition (xml_text n t) = RetainedOnly" "eligible sample_input (xml_text n t)"
  by (simp_all add: xml_text_def eligible_def sample_input_def)

lemma eligible_value [simp]: "eligible i (p\<lparr>prop_value := v\<rparr>) = eligible i p"
  by (rule eligible_frame) simp_all

lemma sample_fields [simp]:
  "in_format sample_input = CrsXml" "in_kind sample_input = Raw" "in_association sample_input = Current"
  by (simp_all add: sample_input_def)

definition sample_judged :: "data_property list" where
  "sample_judged = [xml_text ''ProcessVersion'' ''11.0'', (xml_text ''Exposure2012'' ''1'')\<lparr>prop_value := Number (Finite False 1)\<rparr>]"

lemma sample_judged: "judged sample_input [xml_text ''ProcessVersion'' ''11.0'', xml_text ''Exposure2012'' ''1''] = sample_judged"
proof -
  have one: "judge sample_input (xml_text ''ProcessVersion'' ''11.0'') = xml_text ''ProcessVersion'' ''11.0''"
    by (simp add: judge_def spec_for_def numeric_spec_def boolean_spec_def enable_name_def)
  have two: "judge sample_input (xml_text ''Exposure2012'' ''1'') = (xml_text ''Exposure2012'' ''1'')\<lparr>prop_value := Number (Finite False 1)\<rparr>"
    by (simp add: judge_def spec_for_def numeric_spec_def read_number_def sample_number is_finite_def ge_const_def le_const_def
        signed_def)
  show ?thesis
    by (simp add: judged_def one two mark_conflict_def listed_def sample_judged_def)
qed

lemma sample_listed:
  "listed sample_input sample_judged (ascii n) =
     (if n = ''ProcessVersion'' then [xml_text ''ProcessVersion'' ''11.0'']
      else if n = ''Exposure2012'' then [(xml_text ''Exposure2012'' ''1'')\<lparr>prop_value := Number (Finite False 1)\<rparr>] else [])"
  by (auto simp: listed_def sample_judged_def)

lemma sample_mapping:
  "qualifies sample_input sample_judged"
  "mapped_exposure sample_input sample_judged = Some (Finite False 1)"
  "mapped_white_balance sample_env sample_input sample_judged = None"
  by (simp_all add: qualifies_def value_named_def sample_listed switches_valid_def present_def mapped_exposure_def numeric_def
      sample_single mapped_white_balance_def Let_def)
    (simp add: sample_judged_def enable_name_def)


lemma sample_mapped: "map prop_disposition (ext_properties sample_settings) = [RetainedOnly, MappedParameter]"
  using sample_judged sample_mapping
  by (simp add: sample_settings_def translate_def parsed_extraction_def Let_def) (simp add: sample_judged_def explain_def)

lemma extracted_settings_apply_witness:
  "\<exists>u. apply_to plain_env (contribution sample_settings) default_recipe = Inr u"
proof -
  obtain v where "validate plain_env default_recipe = Inr v"
    using normalize_same [OF default_recipe_ok] by (simp add: validate_def plain_env_def map_err_def)
  moreover have "\<exists>bytes. serialize plain_env r = Inr bytes" for r by (simp add: plain_env_def)
  ultimately show ?thesis using extracted_settings_apply [OF sample_extract sample_reader] by blast
qed


lemma extraction_all_or_nothing_witness:
  "hex_digest sample_env [] = payload_blake3 sample_input \<and> length (ext_properties sample_settings) = 2"
proof -
  have "ext_properties sample_settings \<noteq> []" using sample_mapped by auto
  with extraction_all_or_nothing [OF sample_extract] have "hex_digest sample_env [] = payload_blake3 sample_input" by auto
  moreover have "length (ext_properties sample_settings) = 2" using arg_cong [OF sample_mapped, of length] by simp
  ultimately show ?thesis by simp
qed

end
