(* ===== verification/Psd_Composite.thy ===== *)
theory Psd_Composite
  imports IEEE_Floats
begin

text \<open>
  The reader of the merged composite of a PSD file (\<open>media/psd.rs\<close>): headers and resource
  limits, the image resources, the layer section as far as it decides on transparency, the
  planes raw, run-length coded or deflated, the predictors, and the pixels in single
  precision. Errors of the reader are values, indexing out of range is \<open>PsdPanicked\<close>;
  inflation is a function of the environment.
\<close>

section \<open>Reader\<close>

datatype psd_error = PsdFailed string | PsdPanicked | PsdFuel

record psd_reader =
  rd_bytes :: "byte list"
  rd_offset :: nat

type_synonym 'a pcomp = "(psd_reader, psd_error, 'a) comp"

record composite =
  comp_width :: nat
  comp_height :: nat
  comp_pixels :: "(ieee \<times> ieee \<times> ieee \<times> ieee) list"
  comp_bits :: nat
  comp_icc :: "byte list option"

record inflater =
  inflate_exact :: "byte list \<Rightarrow> nat \<Rightarrow> string + byte list"
  inflate_more :: "byte list \<Rightarrow> nat \<Rightarrow> string + nat"

definition psd_fail :: "string \<Rightarrow> 'a pcomp" where
  "psd_fail m = fail (PsdFailed m)"

definition psd_ensure :: "bool \<Rightarrow> string \<Rightarrow> unit pcomp" where
  "psd_ensure b m = ensure b (PsdFailed m)"

definition psd_take :: "nat \<Rightarrow> byte list pcomp" where
  "psd_take n =
     bindc (getc rd_offset) (\<lambda>i.
     bindc (getc rd_bytes) (\<lambda>b.
     bindc (psd_ensure (i + n < u64_limit) ''PSD offset overflow'') (\<lambda>_.
     bindc (psd_ensure (i + n \<le> length b) ''truncated PSD'') (\<lambda>_.
     bindc (modc (rd_offset_update (\<lambda>_. i + n))) (\<lambda>_.
     ret (take n (drop i b)))))))"

definition psd_u16 :: "nat pcomp" where
  "psd_u16 = bindc (psd_take 2) (\<lambda>b. ret (be_uint b))"

definition psd_u32 :: "nat pcomp" where
  "psd_u32 = bindc (psd_take 4) (\<lambda>b. ret (be_uint b))"

definition psd_block :: "byte list pcomp" where
  "psd_block = bindc psd_u32 psd_take"

text \<open>A reader of its own on a block that was read.\<close>

definition reader_at :: "nat \<Rightarrow> byte list \<Rightarrow> psd_reader" where
  "reader_at i b = \<lparr>rd_bytes = b, rd_offset = i\<rparr>"

definition sub_reader :: "byte list \<Rightarrow> 'a pcomp \<Rightarrow> 'a pcomp" where
  "sub_reader b m = (\<lambda>s. (fst (m (reader_at 0 b)), s))"

definition at_end :: "bool pcomp" where
  "at_end = getc (\<lambda>s. \<not> rd_offset s < length (rd_bytes s))"

text \<open>A loop over a reader's rest; every turn takes at least one byte.\<close>

definition reader_loop :: "('i \<Rightarrow> ('i + 'a) pcomp) \<Rightarrow> 'i \<Rightarrow> 'a pcomp" where
  "reader_loop body i = (\<lambda>s. loopc (Suc (length (rd_bytes s) - rd_offset s)) PsdFuel body i s)"

section \<open>Image resources\<close>

text \<open>One resource: its id and its data, the pad byte not yet taken.\<close>

definition psd_resource :: "string \<Rightarrow> (nat \<times> byte list) pcomp" where
  "psd_resource msg =
     bindc (psd_take 4) (\<lambda>sig.
     bindc (psd_ensure (sig = ascii ''8BIM'') msg) (\<lambda>_.
     bindc psd_u16 (\<lambda>rid.
     bindc (psd_take 1) (\<lambda>l.
     let n = unat (l ! 0) in
     bindc (psd_take n) (\<lambda>_.
     bindc (if odd (n + 1) then bindc (psd_take 1) (\<lambda>_. ret ()) else ret ()) (\<lambda>_.
     bindc psd_block (\<lambda>data. ret (rid, data))))))))"

definition psd_pad :: "byte list \<Rightarrow> unit pcomp" where
  "psd_pad data = (if odd (length data) then bindc (psd_take 1) (\<lambda>_. ret ()) else ret ())"

definition exif_step :: "unit \<Rightarrow> (unit + byte list option) pcomp" where
  "exif_step _ =
     bindc at_end (\<lambda>done'.
     if done' then ret (Inr None)
     else
       bindc (psd_resource ''invalid PSD resource signature'') (\<lambda>(rid, data).
       if rid = 1058 \<or> rid = 1059 then ret (Inr (Some data))
       else bindc (psd_pad data) (\<lambda>_. ret (Inl ()))))"

definition source_exif :: "byte list \<Rightarrow> psd_error + byte list option" where
  "source_exif b =
     fst (bindc psd_block (\<lambda>_.
          bindc psd_block (\<lambda>resources.
          sub_reader resources (reader_loop exif_step ()))) (reader_at 26 b))"

definition resource_step :: "byte list option \<Rightarrow> (byte list option + byte list option) pcomp" where
  "resource_step icc =
     bindc at_end (\<lambda>done'.
     if done' then ret (Inr icc)
     else
       bindc (psd_resource ''unsupported PSD resource signature'') (\<lambda>(rid, data).
       bindc (if rid = 1057
              then bindc (psd_ensure (length data \<ge> 5) ''truncated PSD VersionInfo'') (\<lambda>_.
                   psd_ensure (data ! 4 \<noteq> 0) ''unsupported PSD without real merged composite'')
              else ret ()) (\<lambda>_.
       bindc (if rid = 1039
              then bindc (psd_ensure (length data \<le> 16 * 1024 * 1024) ''ICC resource limit'') (\<lambda>_. ret (Some data))
              else ret icc) (\<lambda>icc'.
       bindc (psd_pad data) (\<lambda>_. ret (Inl icc'))))))"

section \<open>Layer section\<close>

text \<open>The sign of a sixteen-bit count at the start of a block.\<close>

definition negative_i16 :: "byte list \<Rightarrow> bool" where
  "negative_i16 b \<longleftrightarrow> be_uint (take 2 b) \<ge> 0x8000"

definition layer_step :: "bool \<Rightarrow> (bool + bool) pcomp" where
  "layer_step alpha =
     bindc (getc (\<lambda>s. drop (rd_offset s) (rd_bytes s))) (\<lambda>remaining.
     if remaining = [] \<or> length remaining \<le> 3 \<and> list_all (\<lambda>b. b = 0) remaining then ret (Inr alpha)
     else
       bindc (psd_take 4) (\<lambda>sig.
       bindc (psd_ensure (sig = ascii ''8BIM'' \<or> sig = ascii ''8B64'') ''invalid PSD layer tag signature'') (\<lambda>_.
       bindc (psd_take 4) (\<lambda>key.
       bindc psd_block (\<lambda>data.
       bindc (if key = ascii ''Mtrn'' \<or> key = ascii ''Mt16'' \<or> key = ascii ''Mt32''
              then bindc (psd_ensure (data = []) ''invalid PSD merged transparency tag'') (\<lambda>_. ret True)
              else ret alpha) (\<lambda>alpha1.
       bindc (if key = ascii ''Layr'' \<or> key = ascii ''Lr16'' \<or> key = ascii ''Lr32''
              then bindc (psd_ensure (length data \<ge> 2) ''truncated PSD additional layer count'') (\<lambda>_.
                   ret (alpha1 \<or> negative_i16 data))
              else ret alpha1) (\<lambda>alpha2.
       bindc (psd_pad data) (\<lambda>_. ret (Inl alpha2)))))))))"

definition layer_section :: "bool pcomp" where
  "layer_section =
     bindc psd_block (\<lambda>info.
     bindc (if info \<noteq> []
            then bindc (psd_ensure (length info \<ge> 2) ''truncated PSD layer count'') (\<lambda>_. ret (negative_i16 info))
            else ret False) (\<lambda>alpha.
     bindc at_end (\<lambda>done'.
     bindc (if done' then ret () else bindc psd_block (\<lambda>_. ret ())) (\<lambda>_.
     reader_loop layer_step alpha))))"

definition merged_transparency :: "byte list \<Rightarrow> bool pcomp" where
  "merged_transparency layers = (if layers = [] then ret False else sub_reader layers layer_section)"

section \<open>Header\<close>

record psd_header =
  hd_channels :: nat
  hd_height :: nat
  hd_width :: nat
  hd_depth :: nat
  hd_mode :: nat

definition psd_colors :: "psd_header \<Rightarrow> nat" where
  "psd_colors h = (if hd_mode h = 1 then 1 else 3)"

definition psd_pixels :: "psd_header \<Rightarrow> nat" where
  "psd_pixels h = hd_width h * hd_height h"

definition psd_bps :: "psd_header \<Rightarrow> nat" where
  "psd_bps h = hd_depth h div 8"

definition psd_plane :: "psd_header \<Rightarrow> nat" where
  "psd_plane h = psd_pixels h * psd_bps h"

definition psd_total :: "psd_header \<Rightarrow> nat" where
  "psd_total h = psd_plane h * hd_channels h"

definition row_bytes :: "psd_header \<Rightarrow> nat" where
  "row_bytes h = hd_width h * psd_bps h"

text \<open>\<open>checked_mul\<close> and its refusal.\<close>

definition psd_mul :: "nat \<Rightarrow> nat \<Rightarrow> string \<Rightarrow> unit pcomp" where
  "psd_mul a b msg = psd_ensure (checked_mul a b \<noteq> None) msg"

definition read_header :: "nat \<Rightarrow> nat \<Rightarrow> psd_header pcomp" where
  "read_header max_pixels max_allocation =
     bindc (psd_take 4) (\<lambda>sig.
     bindc (psd_ensure (sig = ascii ''8BPS'') ''invalid PSD signature'') (\<lambda>_.
     bindc psd_u16 (\<lambda>version.
     bindc (psd_ensure (version = 1) ''unsupported PSB version'') (\<lambda>_.
     bindc (psd_take 6) (\<lambda>_.
     bindc psd_u16 (\<lambda>channels.
     bindc psd_u32 (\<lambda>height.
     bindc psd_u32 (\<lambda>width.
     bindc psd_u16 (\<lambda>depth.
     bindc psd_u16 (\<lambda>mode.
     let h = \<lparr>hd_channels = channels, hd_height = height, hd_width = width, hd_depth = depth, hd_mode = mode\<rparr> in
     bindc (psd_ensure (depth \<in> {8, 16, 32}) ''unsupported PSD bit depth'') (\<lambda>_.
     bindc (psd_ensure (mode \<in> {1, 3}) (''unsupported PSD color mode '' @ dec mode)) (\<lambda>_.
     bindc (psd_ensure (psd_colors h \<le> channels \<and> channels \<le> 56) ''invalid PSD channel count'') (\<lambda>_.
     bindc (psd_mul width height ''PSD dimension overflow'') (\<lambda>_.
     bindc (psd_ensure (0 < width \<and> 0 < height \<and> width \<le> 40000 \<and> height \<le> 40000 \<and> psd_pixels h \<le> 100000000)
       ''PSD resource limit'') (\<lambda>_.
     bindc (psd_ensure (psd_pixels h \<le> max_pixels \<and> min (psd_pixels h * 16) u64_max \<le> max_allocation)
       ''PSD configured resource limit'') (\<lambda>_.
     bindc (psd_mul (psd_pixels h) (psd_bps h) ''PSD plane overflow'') (\<lambda>_.
     bindc (psd_mul (psd_plane h) channels ''PSD channel overflow'') (\<lambda>_.
     bindc (psd_ensure (psd_total h \<le> 1600 * 1024 * 1024 \<and> psd_total h \<le> max_allocation) ''PSD resource limit'') (\<lambda>_.
     ret h)))))))))))))))))))"

section \<open>Run lengths\<close>

text \<open>One row: the control byte as an \<open>i8\<close>, its literal bytes or its repeated byte.\<close>

function rle_row :: "nat \<Rightarrow> byte list \<Rightarrow> byte list \<Rightarrow> psd_error + byte list" where
  "rle_row rb out [] = (if length out = rb then Inr out else Inl (PsdFailed ''truncated PSD RLE row''))"
| "rle_row rb out (c # rest) =
     (let k = unat c in
      if k \<le> 127 then
        let n = k + 1 in
        if length out + n > rb then Inl (PsdFailed ''PSD RLE row overflow'')
        else if n > length rest then Inl (PsdFailed ''truncated PSD RLE literal'')
        else rle_row rb (out @ take n rest) (drop n rest)
      else if k \<ge> 129 then
        let n = 257 - k in
        if length out + n > rb then Inl (PsdFailed ''PSD RLE row overflow'')
        else (case rest of
            [] \<Rightarrow> Inl (PsdFailed ''truncated PSD RLE repeat'')
          | v # rest' \<Rightarrow> rle_row rb (out @ replicate n v) rest')
      else rle_row rb out rest)"
  by pat_completeness auto
termination by (relation "measure (\<lambda>(rb, out, row). length row)") auto

declare rle_row.simps(2) [simp del]

text \<open>The table of row sizes, a big-endian pair for each.\<close>

fun row_sizes :: "byte list \<Rightarrow> nat list" where
  "row_sizes (a # b # t) = be_uint [a, b] # row_sizes t"
| "row_sizes _ = []"

definition rle_step :: "nat \<Rightarrow> nat \<Rightarrow> byte list \<Rightarrow> byte list pcomp" where
  "rle_step rb n out =
     bindc (psd_take n) (\<lambda>row.
     case rle_row rb [] row of Inl e \<Rightarrow> fail e | Inr decoded \<Rightarrow> ret (out @ decoded))"

definition rle_planes :: "psd_header \<Rightarrow> byte list pcomp" where
  "rle_planes h =
     (let rows = hd_height h * hd_channels h in
      bindc (psd_mul (hd_height h) (hd_channels h) ''PSD row overflow'') (\<lambda>_.
      bindc (psd_mul rows 2 ''PSD row table overflow'') (\<lambda>_.
      bindc (psd_take (rows * 2)) (\<lambda>sizes.
      forc (row_sizes sizes) (rle_step (row_bytes h)) []))))"

definition zip_planes :: "inflater \<Rightarrow> psd_header \<Rightarrow> byte list pcomp" where
  "zip_planes z h =
     bindc (getc id) (\<lambda>s.
     if rd_offset s > length (rd_bytes s) then fail PsdPanicked
     else
       let encoded = drop (rd_offset s) (rd_bytes s) in
       case inflate_exact z encoded (psd_total h) of
         Inl m \<Rightarrow> psd_fail m
       | Inr out \<Rightarrow>
           (case inflate_more z encoded (psd_total h) of
              Inl m \<Rightarrow> psd_fail m
            | Inr n \<Rightarrow> bindc (psd_ensure (n = 0) ''PSD ZIP size mismatch'') (\<lambda>_. ret out)))"

section \<open>Predictors\<close>

text \<open>Checked indexing; \<open>None\<close> is a panic.\<close>

definition get_at :: "'a list \<Rightarrow> nat \<Rightarrow> 'a option" where
  "get_at xs i = (if i < length xs then Some (xs ! i) else None)"

definition put_at :: "nat \<Rightarrow> 'a \<Rightarrow> 'a list \<Rightarrow> 'a list option" where
  "put_at i v xs = (if i < length xs then Some (xs[i := v]) else None)"

primrec foldo :: "('x \<Rightarrow> 'a \<Rightarrow> 'a option) \<Rightarrow> 'x list \<Rightarrow> 'a \<Rightarrow> 'a option" where
  "foldo f [] a = Some a"
| "foldo f (x # xs) a = Option.bind (f x a) (foldo f xs)"

definition get_u16 :: "byte list \<Rightarrow> nat \<Rightarrow> 16 word option" where
  "get_u16 b i = (if i + 2 \<le> length b then Some (word_of_nat (be_uint (take 2 (drop i b)))) else None)"

definition u16_bytes :: "16 word \<Rightarrow> byte list" where
  "u16_bytes w = [word_of_nat (unat w div 256), word_of_nat (unat w mod 256)]"

definition put_u16 :: "nat \<Rightarrow> 16 word \<Rightarrow> byte list \<Rightarrow> byte list option" where
  "put_u16 i w b = Option.bind (put_at i (u16_bytes w ! 0) b) (put_at (i + 1) (u16_bytes w ! 1))"

definition sum16_step :: "nat \<Rightarrow> byte list \<Rightarrow> byte list option" where
  "sum16_step x row =
     Option.bind (get_u16 row ((x - 1) * 2)) (\<lambda>prior.
     Option.bind (get_u16 row (x * 2)) (\<lambda>v. put_u16 (x * 2) (v + prior) row))"

definition sum8_step :: "nat \<Rightarrow> byte list \<Rightarrow> byte list option" where
  "sum8_step x row =
     Option.bind (get_at row x) (\<lambda>v. Option.bind (get_at row (x - 1)) (\<lambda>prior. put_at x (v + prior) row))"

definition unplane_step :: "byte list \<Rightarrow> nat \<Rightarrow> nat \<Rightarrow> byte list \<Rightarrow> byte list option" where
  "unplane_step source width x row =
     foldo (\<lambda>b r. Option.bind (get_at source (b * width + x)) (\<lambda>v. put_at (x * 4 + b) v r)) [0..<4] row"

definition unpredict_row :: "psd_header \<Rightarrow> byte list \<Rightarrow> byte list option" where
  "unpredict_row h row =
     (if hd_depth h = 16 then foldo sum16_step [1..<hd_width h] row
      else
        Option.bind (foldo sum8_step [1..<length row] row) (\<lambda>summed.
        if hd_depth h = 32 then foldo (unplane_step summed (hd_width h)) [0..<hd_width h] summed
        else Some summed))"

text \<open>\<open>chunks_exact_mut\<close>: whole chunks are changed, a rest is left as it is.\<close>

function unpredict :: "psd_header \<Rightarrow> byte list \<Rightarrow> byte list option" where
  "unpredict h data =
     (let n = row_bytes h in
      if n = 0 then None
      else if length data < n then Some data
      else
        Option.bind (unpredict_row h (take n data)) (\<lambda>row.
        Option.bind (unpredict h (drop n data)) (\<lambda>rest. Some (row @ rest))))"
  by pat_completeness auto
termination by (relation "measure (\<lambda>(h, data). length data)") auto

declare unpredict.simps [simp del]

definition psd_planes :: "inflater \<Rightarrow> psd_header \<Rightarrow> byte list pcomp" where
  "psd_planes z h =
     bindc psd_u16 (\<lambda>compression.
     bindc (if compression = 0 then psd_take (psd_total h)
            else if compression = 1 then rle_planes h
            else if compression = 2 \<or> compression = 3 then zip_planes z h
            else psd_fail (''unsupported PSD compression '' @ dec compression)) (\<lambda>data.
     if compression = 3 then (case unpredict h data of None \<Rightarrow> fail PsdPanicked | Some d \<Rightarrow> ret d) else ret data))"

section \<open>Pixels\<close>

definition ieee_one :: ieee where
  "ieee_one = Finite False 1"

text \<open>The value a plane holds for a pixel.\<close>

definition psd_sample :: "psd_header \<Rightarrow> byte list \<Rightarrow> nat \<Rightarrow> nat \<Rightarrow> ieee option" where
  "psd_sample h data channel index =
     (let start = channel * psd_plane h + index * psd_bps h in
      if hd_depth h = 8 then map_option (\<lambda>v. to_f32 False (of_nat (unat v) / 255)) (get_at data start)
      else if hd_depth h = 16 then map_option (\<lambda>v. to_f32 False (of_nat (unat v) / 65535)) (get_u16 data start)
      else if start + 4 \<le> length data
      then Some (f32_of_bits (be_uint (take 4 (drop start data)))) else None)"

definition unmatte :: "ieee \<Rightarrow> ieee \<Rightarrow> ieee" where
  "unmatte a c = f32_div (f32_sub (f32_add c a) ieee_one) a"

definition psd_pixel :: "psd_header \<Rightarrow> bool \<Rightarrow> byte list \<Rightarrow> nat \<Rightarrow> psd_error + (ieee \<times> ieee \<times> ieee \<times> ieee)" where
  "psd_pixel h alpha data i =
     (let colors = psd_colors h;
          channel = (\<lambda>c. psd_sample h data (if colors = 1 then 0 else c) i);
          a = (if alpha \<and> hd_channels h > colors then psd_sample h data colors i else Some ieee_one) in
      case (channel 0, channel 1, channel 2, a) of
        (Some r, Some g, Some b, Some a) \<Rightarrow>
          if \<not> (is_finite a \<and> ge_const a 0 \<and> le_const a 1) then Inl (PsdFailed ''invalid PSD alpha'')
          else if alpha \<and> hd_mode h = 3 \<and> greater_const a 0
          then Inr (unmatte a r, unmatte a g, unmatte a b, a)
          else Inr (r, g, b, a)
      | _ \<Rightarrow> Inl PsdPanicked)"

text \<open>The first error stops.\<close>

primrec map_sums :: "('x \<Rightarrow> 'e + 'a) \<Rightarrow> 'x list \<Rightarrow> 'e + 'a list" where
  "map_sums f [] = Inr []"
| "map_sums f (x # xs) = tryr (f x) (\<lambda>y. tryr (map_sums f xs) (\<lambda>ys. Inr (y # ys)))"

definition psd_body :: "inflater \<Rightarrow> nat \<Rightarrow> nat \<Rightarrow> composite pcomp" where
  "psd_body z max_pixels max_allocation =
     bindc (read_header max_pixels max_allocation) (\<lambda>h.
     bindc psd_block (\<lambda>_.
     bindc psd_block (\<lambda>resources.
     bindc (sub_reader resources (reader_loop resource_step None)) (\<lambda>icc.
     bindc psd_block (\<lambda>layers.
     bindc (merged_transparency layers) (\<lambda>alpha.
     bindc (psd_ensure (\<not> alpha \<or> hd_channels h > psd_colors h) ''PSD merged transparency channel missing'') (\<lambda>_.
     bindc (psd_planes z h) (\<lambda>data.
     case map_sums (psd_pixel h alpha data) [0..<psd_pixels h] of
       Inl e \<Rightarrow> fail e
     | Inr pixels \<Rightarrow>
         ret \<lparr>comp_width = hd_width h, comp_height = hd_height h, comp_pixels = pixels,
              comp_bits = hd_depth h, comp_icc = icc\<rparr>))))))))"

definition psd_decode :: "inflater \<Rightarrow> byte list \<Rightarrow> nat \<Rightarrow> nat \<Rightarrow> psd_error + composite" where
  "psd_decode z b max_pixels max_allocation = fst (psd_body z max_pixels max_allocation (reader_at 0 b))"

end
