(* ===== verification/Psd_Safety.thy ===== *)
theory Psd_Safety
  imports Psd_Composite Run_Logic
begin

text \<open>
  The composite reader answers for any bytes: its loops advance, its indices stay inside the
  rows and planes, and the planes have the size the header promises.
\<close>

section \<open>Reads\<close>

definition psd_refused :: "psd_error \<Rightarrow> bool" where
  "psd_refused e \<longleftrightarrow> (\<exists>m. e = PsdFailed m)"

abbreviation fine :: "(psd_error + 'a) \<times> psd_reader \<Rightarrow> ('a \<Rightarrow> psd_reader \<Rightarrow> bool) \<Rightarrow> bool" where
  "fine \<equiv> runs psd_refused"

text \<open>The same bytes, at least \<open>n\<close> further and not beyond the end.\<close>

definition further :: "nat \<Rightarrow> psd_reader \<Rightarrow> psd_reader \<Rightarrow> bool" where
  "further n s t \<longleftrightarrow> rd_bytes t = rd_bytes s \<and> rd_offset s + n \<le> rd_offset t
     \<and> (rd_offset t \<le> length (rd_bytes t) \<or> t = s)"

lemma further_refl: "further 0 s s"
  by (simp add: further_def)

lemma further_trans: "further n s t \<Longrightarrow> further m t u \<Longrightarrow> k \<le> n + m \<Longrightarrow> further k s u"
  by (auto simp: further_def)

lemma psd_refused_Failed [simp]: "psd_refused (PsdFailed m)"
  by (simp add: psd_refused_def)

lemma fine_fail [run_intros]: "fine (psd_fail m s) Q"
  by (simp add: psd_fail_def runs_def)

lemma fine_ensure [run_intros]: "(b \<Longrightarrow> Q () s) \<Longrightarrow> fine (psd_ensure b m s) Q"
  unfolding psd_ensure_def by (intro run_intros) simp_all

lemma fine_take [run_intros]:
  assumes "\<And>b t. length b = n \<Longrightarrow> further n s t \<Longrightarrow> rd_offset t \<le> length (rd_bytes t) \<Longrightarrow> Q b t"
  shows "fine (psd_take n s) Q"
  unfolding psd_take_def by (intro run_intros assms) (auto simp: further_def)

lemma fine_u16 [run_intros]:
  assumes "\<And>v t. further 2 s t \<Longrightarrow> rd_offset t \<le> length (rd_bytes t) \<Longrightarrow> Q v t"
  shows "fine (psd_u16 s) Q"
  unfolding psd_u16_def by (intro run_intros fine_take assms) auto

lemma fine_u32 [run_intros]:
  assumes "\<And>v t. further 4 s t \<Longrightarrow> rd_offset t \<le> length (rd_bytes t) \<Longrightarrow> Q v t"
  shows "fine (psd_u32 s) Q"
  unfolding psd_u32_def by (intro run_intros fine_take assms) auto

lemma fine_block [run_intros]:
  assumes "\<And>b t. further 4 s t \<Longrightarrow> rd_offset t \<le> length (rd_bytes t) \<Longrightarrow> Q b t"
  shows "fine (psd_block s) Q"
  unfolding psd_block_def by (intro run_intros fine_u32 fine_take assms) (auto intro: further_trans)

lemma fine_sub_reader:
  assumes "fine (m (reader_at 0 b)) (\<lambda>x _. Q x s)"
  shows "fine (sub_reader b m s) Q"
  using assms by (auto simp: sub_reader_def runs_def split: prod.splits sum.splits)

lemma fine_at_end [run_intros]: "Q (\<not> rd_offset s < length (rd_bytes s)) s \<Longrightarrow> fine (at_end s) Q"
  unfolding at_end_def by (intro run_intros)

lemma fine_reader_loop:
  assumes body: "\<And>i s. fine (body i s) (\<lambda>r t. case r of Inl _ \<Rightarrow> further 1 s t \<and> rd_offset t \<le> length (rd_bytes t) | Inr x \<Rightarrow> Q x)"
  shows "fine (reader_loop body i s) (\<lambda>x _. Q x)"
  unfolding reader_loop_def
proof (rule run_loop [where V = "\<lambda>_ _. True" and m = "\<lambda>_ t. length (rd_bytes t) - rd_offset t"])
  fix i s
  show "fine (body i s) (\<lambda>r t. case r of
      Inl j \<Rightarrow> True \<and> length (rd_bytes t) - rd_offset t < length (rd_bytes s) - rd_offset s | Inr x \<Rightarrow> Q x)"
    by (rule run_weaken [OF body]) (auto simp: further_def split: sum.splits)
qed simp_all

lemma fine_pad [run_intros]:
  assumes "\<And>t. further 0 s t \<Longrightarrow> (rd_offset s \<le> length (rd_bytes s) \<Longrightarrow> rd_offset t \<le> length (rd_bytes t)) \<Longrightarrow> Q () t"
  shows "fine (psd_pad d s) Q"
  unfolding psd_pad_def by (intro run_intros fine_take assms) (auto simp: further_def)

lemma fine_resource [run_intros]:
  assumes "\<And>rid d t. further 4 s t \<Longrightarrow> rd_offset t \<le> length (rd_bytes t) \<Longrightarrow> Q (rid, d) t"
  shows "fine (psd_resource m s) Q"
  unfolding psd_resource_def by (intro run_intros assms) (auto simp: further_def)

section \<open>Resources and layers\<close>

lemma fine_exif_step:
  "fine (exif_step u s) (\<lambda>r t. case r of Inl _ \<Rightarrow> further 1 s t \<and> rd_offset t \<le> length (rd_bytes t) | Inr x \<Rightarrow> True)"
  unfolding exif_step_def by (intro run_intros) (auto simp: further_def)

lemma fine_resource_step:
  "fine (resource_step icc s) (\<lambda>r t. case r of Inl _ \<Rightarrow> further 1 s t \<and> rd_offset t \<le> length (rd_bytes t) | Inr x \<Rightarrow> True)"
  unfolding resource_step_def by (intro run_intros) (auto simp: further_def)

lemma fine_layer_step:
  "fine (layer_step a s) (\<lambda>r t. case r of Inl _ \<Rightarrow> further 1 s t \<and> rd_offset t \<le> length (rd_bytes t) | Inr x \<Rightarrow> True)"
  unfolding layer_step_def by (intro run_intros) (auto simp: further_def)

lemma fine_layer_section: "fine (layer_section s) (\<lambda>_ _. True)"
  unfolding layer_section_def
  by (intro run_intros fine_reader_loop [where Q = "\<lambda>_. True", THEN run_weaken] fine_layer_step) auto

lemma fine_transparency [run_intros]:
  assumes "\<And>a. Q a s"
  shows "fine (merged_transparency b s) Q"
  unfolding merged_transparency_def
  by (intro run_intros fine_sub_reader run_weaken [OF fine_layer_section] assms)

lemma fine_resources [run_intros]:
  assumes "\<And>icc. Q icc s"
  shows "fine (sub_reader b (reader_loop resource_step None) s) Q"
  by (intro fine_sub_reader run_weaken [OF fine_reader_loop [OF fine_resource_step]] assms)

section \<open>Planes\<close>

text \<open>What the header's checks establish.\<close>

definition header_ok :: "psd_header \<Rightarrow> bool" where
  "header_ok h \<longleftrightarrow> hd_depth h \<in> {8, 16, 32} \<and> 0 < hd_width h \<and> 0 < hd_height h \<and> psd_colors h \<le> hd_channels h
     \<and> psd_pixels h \<le> 100000000"

text \<open>The header as the file format lays it out: twenty-six bytes at fixed places.\<close>

definition file_header :: "byte list \<Rightarrow> psd_header" where
  "file_header b = \<lparr>hd_channels = be_uint (take 2 (drop 12 b)), hd_height = be_uint (take 4 (drop 14 b)),
     hd_width = be_uint (take 4 (drop 18 b)), hd_depth = be_uint (take 2 (drop 22 b)), hd_mode = be_uint (take 2 (drop 24 b))\<rparr>"

text \<open>Every limit an accepted header meets, the caller's and the reader's own.\<close>

definition header_admitted :: "nat \<Rightarrow> nat \<Rightarrow> psd_header \<Rightarrow> bool" where
  "header_admitted max_pixels max_allocation h \<longleftrightarrow>
     hd_depth h \<in> {8, 16, 32} \<and> hd_mode h \<in> {1, 3} \<and> psd_colors h \<le> hd_channels h \<and> hd_channels h \<le> 56
     \<and> 0 < hd_width h \<and> hd_width h \<le> 40000 \<and> 0 < hd_height h \<and> hd_height h \<le> 40000
     \<and> psd_pixels h \<le> min max_pixels 100000000 \<and> psd_pixels h * 16 \<le> max_allocation
     \<and> psd_total h \<le> min max_allocation (1600 * 1024 * 1024)"

lemma header_admitted_ok: "header_admitted mp ma h \<Longrightarrow> header_ok h"
  by (simp add: header_admitted_def header_ok_def)

lemma psd_take_Inr:
  "psd_take n s = (Inr x, t) \<longleftrightarrow> rd_offset s + n < u64_limit \<and> rd_offset s + n \<le> length (rd_bytes s)
     \<and> x = take n (drop (rd_offset s) (rd_bytes s)) \<and> t = s\<lparr>rd_offset := rd_offset s + n\<rparr>"
  by (auto simp: psd_take_def psd_ensure_def bindc_def ensure_def split: if_splits)

lemma psd_number_Inr:
  "psd_u16 s = (Inr v, t) \<longleftrightarrow> (\<exists>x. psd_take 2 s = (Inr x, t) \<and> v = be_uint x)"
  "psd_u32 s = (Inr v, t) \<longleftrightarrow> (\<exists>x. psd_take 4 s = (Inr x, t) \<and> v = be_uint x)"
  by (auto simp: psd_u16_def psd_u32_def bindc_Inr_iff)

lemma psd_ensure_Inr: "psd_ensure b m s = (Inr x, t) \<longleftrightarrow> b \<and> t = s"
  by (auto simp: psd_ensure_def ensure_def)

lemma psd_mul_Inr: "psd_mul x y m s = (Inr u, t) \<longleftrightarrow> checked_mul x y \<noteq> None \<and> t = s"
  by (auto simp: psd_mul_def psd_ensure_Inr)

lemmas header_reads = psd_take_Inr psd_number_Inr psd_ensure_Inr psd_mul_Inr

lemma run_InrE:
  assumes "bindc m f s = (Inr y, t)"
  obtains x u where "m s = (Inr x, u)" "f x u = (Inr y, t)"
  using assms by (auto simp: bindc_Inr_iff)

lemma read_header_Inr:
  assumes "read_header mp ma (reader_at 0 b) = (Inr h, t)"
  shows "take 4 b = ascii ''8BPS'' \<and> be_uint (take 2 (drop 4 b)) = 1 \<and> h = file_header b \<and> header_admitted mp ma h"
  using assms unfolding read_header_def Let_def
  apply -
  apply (erule run_InrE)+
  apply (simp only: header_reads reader_at_def psd_reader.simps psd_reader.update_convs ret_def prod.inject sum.inject
      ex_simps simp_thms add_0 numeral_plus_numeral add_num_simps)
  apply (elim exE conjE)
  apply (simp only: psd_reader.simps psd_reader.update_convs add_0 numeral_plus_numeral add_num_simps)
  subgoal premises p
  proof -
    have h: "file_header b = h"
      unfolding file_header_def by fact
    have fields: "hd_channels h = be_uint (take 2 (drop 12 b))" "hd_height h = be_uint (take 4 (drop 14 b))"
      "hd_width h = be_uint (take 4 (drop 18 b))" "hd_depth h = be_uint (take 2 (drop 22 b))"
      "hd_mode h = be_uint (take 2 (drop 24 b))" unfolding h [symmetric] by (simp_all add: file_header_def)
    have pixels: "psd_pixels h \<le> 100000000" "min (psd_pixels h * 16) u64_max \<le> ma" by fact+
    then have "psd_pixels h * 16 \<le> ma" by (simp add: min_def u64_max_def split: if_splits)
    then have "header_admitted mp ma h"
      unfolding header_admitted_def fields min.bounded_iff by (intro conjI p pixels)
    with h p(2) p(23) show ?thesis by simp
  qed
  done

lemma fine_header:
  assumes "\<And>t. take 4 b = ascii ''8BPS'' \<Longrightarrow> be_uint (take 2 (drop 4 b)) = 1 \<Longrightarrow> header_admitted mp ma (file_header b) \<Longrightarrow>
    rd_offset t \<le> length (rd_bytes t) \<Longrightarrow> Q (file_header b) t"
  shows "fine (read_header mp ma (reader_at 0 b)) Q"
proof -
  have "fine (read_header mp ma s) (\<lambda>h t. rd_offset t \<le> length (rd_bytes t))" for s
    unfolding read_header_def psd_mul_def by (intro run_intros) (auto simp: further_def)
  then show ?thesis
    using read_header_Inr [of mp ma b] assms
    by (fastforce simp: runs_def split: prod.splits sum.splits)
qed

lemma rle_row_length: "rle_row rb out row = Inr r \<Longrightarrow> length r = rb"
  by (induction rb out row rule: rle_row.induct)
    (auto simp: rle_row.simps(2) Let_def split: if_splits list.splits)

lemma rle_row_refused: "rle_row rb out row = Inl e \<Longrightarrow> psd_refused e"
  by (induction rb out row rule: rle_row.induct)
    (auto simp: rle_row.simps(2) Let_def split: if_splits list.splits)

lemma length_row_sizes: "length (row_sizes b) = length b div 2"
  by (induction b rule: row_sizes.induct) auto

lemma fine_rle_step:
  assumes "\<And>r t. length r = length out + rb \<Longrightarrow> Q r t"
  shows "fine (rle_step rb n out s) Q"
  unfolding rle_step_def by (intro run_intros assms) (auto dest: rle_row_length rle_row_refused)

lemma fine_rle_rows:
  "fine (forc ns (rle_step rb) out s) (\<lambda>r _. length r = length out + rb * length ns)"
proof (induction ns arbitrary: out s)
  case (Cons n ns)
  show ?case
    unfolding forc.simps
    by (rule run_bind, rule fine_rle_step, rule run_weaken [OF Cons]) simp
qed (simp add: run_simps)

lemma total_rows: "row_bytes h * (hd_height h * hd_channels h) = psd_total h"
  by (simp add: row_bytes_def psd_total_def psd_plane_def psd_pixels_def algebra_simps)

lemma fine_rle_planes:
  assumes "\<And>d t. length d = psd_total h \<Longrightarrow> Q d t"
  shows "fine (rle_planes h s) Q"
  unfolding rle_planes_def psd_mul_def Let_def
  by (intro run_intros run_weaken [OF fine_rle_rows] assms) (simp add: length_row_sizes total_rows)

text \<open>\<open>read_exact\<close> of the inflater fills its buffer.\<close>

definition fills_buffer :: "inflater \<Rightarrow> bool" where
  "fills_buffer z \<longleftrightarrow> (\<forall>b n out. inflate_exact z b n = Inr out \<longrightarrow> length out = n)"

lemma fine_zip_planes:
  assumes "rd_offset s \<le> length (rd_bytes s)" "fills_buffer z" "\<And>d t. length d = psd_total h \<Longrightarrow> Q d t"
  shows "fine (zip_planes z h s) Q"
  unfolding zip_planes_def Let_def
  by (intro run_intros assms(3)) (use assms(1,2) in \<open>auto simp: fills_buffer_def\<close>)

section \<open>Predictors\<close>

lemma foldo_total:
  assumes "\<And>x a. x \<in> set xs \<Longrightarrow> P a \<Longrightarrow> \<exists>b. f x a = Some b \<and> P b" "P a"
  shows "\<exists>b. foldo f xs a = Some b \<and> P b"
  using assms
proof (induction xs arbitrary: a)
  case (Cons x xs)
  obtain b where "f x a = Some b" "P b" using Cons.prems(1) [of x a] Cons.prems(2) by auto
  with Cons.IH [of b] Cons.prems(1) show ?case by simp
qed simp

lemma put_at_Some: "put_at i v xs = Some ys \<longleftrightarrow> i < length xs \<and> ys = xs[i := v]"
  by (auto simp: put_at_def)

lemma sum16_total: "0 < x \<Longrightarrow> x * 2 + 2 \<le> length row \<Longrightarrow> \<exists>r. sum16_step x row = Some r \<and> length r = length row"
  by (auto simp: sum16_step_def get_u16_def put_u16_def put_at_def)

lemma sum8_total: "0 < x \<Longrightarrow> x < length row \<Longrightarrow> \<exists>r. sum8_step x row = Some r \<and> length r = length row"
  by (auto simp: sum8_step_def get_at_def put_at_def)

lemma unplane_total:
  assumes "x < w" "length src = w * 4" "length row = w * 4"
  shows "\<exists>r. unplane_step src w x row = Some r \<and> length r = w * 4"
  unfolding unplane_step_def
proof (rule foldo_total)
  fix b and a :: "byte list" assume b: "b \<in> set [0..<4]" and a: "length a = w * 4"
  have "b * w + x < 4 * w"
  proof -
    have "b * w \<le> 3 * w" using b by (intro mult_le_mono1) simp
    then show ?thesis using assms(1) by linarith
  qed
  then show "\<exists>c. Option.bind (get_at src (b * w + x)) (\<lambda>v. put_at (x * 4 + b) v a) = Some c \<and> length c = w * 4"
    using b a assms by (auto simp: get_at_def put_at_def)
qed (rule assms(3))

lemma unpredict_row_total:
  assumes "hd_depth h \<in> {8, 16, 32}" "length row = row_bytes h"
  shows "\<exists>r. unpredict_row h row = Some r \<and> length r = length row"
proof (cases "hd_depth h = 16")
  case True
  have "\<exists>r. foldo sum16_step [1..<hd_width h] row = Some r \<and> length r = length row"
  proof (rule foldo_total)
    fix x and a :: "byte list" assume "x \<in> set [1..<hd_width h]" "length a = length row"
    then show "\<exists>b. sum16_step x a = Some b \<and> length b = length row"
      using sum16_total [of x a] True assms(2) by (auto simp: row_bytes_def psd_bps_def)
  qed simp
  then show ?thesis using True by (simp add: unpredict_row_def)
next
  case False
  have "\<exists>r. foldo sum8_step [1..<length row] row = Some r \<and> length r = length row"
  proof (rule foldo_total)
    fix x and a :: "byte list" assume "x \<in> set [1..<length row]" "length a = length row"
    then show "\<exists>b. sum8_step x a = Some b \<and> length b = length row" using sum8_total [of x a] by auto
  qed simp
  then obtain r where r: "foldo sum8_step [1..<length row] row = Some r" "length r = length row" by blast
  show ?thesis
  proof (cases "hd_depth h = 32")
    case True
    then have w: "length row = hd_width h * 4" using assms(2) by (simp add: row_bytes_def psd_bps_def)
    have "\<exists>q. foldo (unplane_step r (hd_width h)) [0..<hd_width h] r = Some q \<and> length q = hd_width h * 4"
      by (rule foldo_total) (use r w in \<open>auto intro!: unplane_total\<close>)
    with True r w show ?thesis by (auto simp: unpredict_row_def)
  next
    case narrow: False
    with False r show ?thesis by (simp add: unpredict_row_def)
  qed
qed

lemma unpredict_total:
  assumes "hd_depth h \<in> {8, 16, 32}" "0 < row_bytes h"
  shows "\<exists>r. unpredict h d = Some r \<and> length r = length d"
  using assms
proof (induction h d rule: unpredict.induct)
  case (1 h data)
  show ?case
  proof (cases "length data < row_bytes h")
    case True
    then show ?thesis using 1(3) by (simp add: unpredict.simps)
  next
    case False
    then have "length (take (row_bytes h) data) = row_bytes h" by simp
    from unpredict_row_total [OF 1(2) this]
    obtain r where r: "unpredict_row h (take (row_bytes h) data) = Some r" "length r = row_bytes h"
      using False by auto
    from 1(1) [OF refl _ False r(1) 1(2,3)] 1(3)
    obtain q where "unpredict h (drop (row_bytes h) data) = Some q" "length q = length data - row_bytes h" by auto
    with r False 1(3) show ?thesis by (simp add: unpredict.simps [of h data])
  qed
qed

lemma fine_planes:
  assumes "header_ok h" "fills_buffer z" "\<And>d t. length d = psd_total h \<Longrightarrow> Q d t"
  shows "fine (psd_planes z h s) Q"
proof -
  have rb: "0 < row_bytes h" "hd_depth h \<in> {8, 16, 32}" using assms(1) by (auto simp: header_ok_def row_bytes_def psd_bps_def)
  have encoded: "fine ((if c = 0 then psd_take (psd_total h)
            else if c = 1 then rle_planes h
            else if c = 2 \<or> c = 3 then zip_planes z h
            else psd_fail (''unsupported PSD compression '' @ dec c)) t) (\<lambda>d _. length d = psd_total h)"
    if "rd_offset t \<le> length (rd_bytes t)" for c t
    by (intro run_intros fine_rle_planes fine_zip_planes assms(2) that)
  have fin: "fine ((if c = 3 then (case unpredict h d of None \<Rightarrow> fail PsdPanicked | Some d \<Rightarrow> ret d) else ret d) t) Q"
    if "length d = psd_total h" for c d t
    using unpredict_total [OF rb(2,1), of d] that by (auto simp: run_simps intro!: assms(3))
  show ?thesis
    unfolding psd_planes_def
    by (rule run_bind, rule fine_u16, rule run_bind, rule run_weaken [OF encoded], assumption, rule fin)
qed

section \<open>Pixels\<close>

lemma psd_sample_total:
  assumes "header_ok h" "length data = psd_total h" "channel < hd_channels h" "index < psd_pixels h"
  shows "psd_sample h data channel index \<noteq> None"
proof -
  have "(channel + 1) * psd_plane h \<le> psd_total h"
    unfolding psd_total_def mult.commute [of "psd_plane h"] using assms(3) by (intro mult_le_mono1) simp
  moreover have "(index + 1) * psd_bps h \<le> psd_plane h"
    unfolding psd_plane_def using assms(4) by (intro mult_le_mono1) simp
  ultimately have "channel * psd_plane h + index * psd_bps h + psd_bps h \<le> length data"
    by (simp add: assms(2) algebra_simps)
  then show ?thesis
    using assms(1) by (auto simp: psd_sample_def Let_def get_at_def get_u16_def header_ok_def psd_bps_def)
qed

definition unit_alpha :: "ieee \<Rightarrow> bool" where
  "unit_alpha a \<longleftrightarrow> is_finite a \<and> 0 \<le> value_of a \<and> value_of a \<le> 1"

lemma psd_pixel_total:
  assumes "header_ok h" "length data = psd_total h" "i < psd_pixels h"
  shows "(\<exists>r g b a. psd_pixel h alpha data i = Inr (r, g, b, a) \<and> unit_alpha a)
    \<or> psd_pixel h alpha data i = Inl (PsdFailed ''invalid PSD alpha'')"
proof -
  have sample: "\<exists>v. psd_sample h data c i = Some v" if "c < hd_channels h" for c
    using psd_sample_total [OF assms(1,2) that assms(3)] by auto
  have colors: "psd_colors h \<le> hd_channels h" "psd_colors h = 1 \<or> psd_colors h = 3"
    using assms(1) by (auto simp: header_ok_def psd_colors_def)
  let ?c = "\<lambda>c. if psd_colors h = 1 then 0 else c"
  obtain r g b where rgb: "psd_sample h data (?c 0) i = Some r" "psd_sample h data (?c 1) i = Some g"
    "psd_sample h data (?c 2) i = Some b"
    using sample [of "?c 0"] sample [of "?c 1"] sample [of "?c 2"] colors by (auto split: if_splits)
  obtain a where a: "(if alpha \<and> hd_channels h > psd_colors h then psd_sample h data (psd_colors h) i else Some ieee_one) = Some a"
    using sample [of "psd_colors h"] by (cases "alpha \<and> hd_channels h > psd_colors h") auto
  have range: "is_finite a \<and> ge_const a 0 \<and> le_const a 1 \<longleftrightarrow> unit_alpha a"
    by (cases a) (auto simp: unit_alpha_def is_finite_def ge_const_def le_const_def value_of_def)
  show ?thesis
    unfolding psd_pixel_def Let_def a rgb prod.case option.case range by auto
qed

lemma map_sums_all:
  assumes "\<And>x. x \<in> set xs \<Longrightarrow> (\<exists>y. f x = Inr y \<and> P y) \<or> (\<exists>e. f x = Inl e \<and> E e)"
  shows "(\<exists>ys. map_sums f xs = Inr ys \<and> length ys = length xs \<and> list_all P ys) \<or> (\<exists>e. map_sums f xs = Inl e \<and> E e)"
  using assms
proof (induction xs)
  case (Cons x xs)
  then have "(\<exists>ys. map_sums f xs = Inr ys \<and> length ys = length xs \<and> list_all P ys) \<or> (\<exists>e. map_sums f xs = Inl e \<and> E e)"
    by simp
  with Cons.prems [of x] show ?case by auto
qed simp

section \<open>The whole reader\<close>

text \<open>
  What a composite owes to the bytes \<open>b\<close> it was read from and to the limits it was read under: its
  extent and depth are those the file's header declares, and these are within every limit.
\<close>

definition composite_ok :: "byte list \<Rightarrow> nat \<Rightarrow> nat \<Rightarrow> composite \<Rightarrow> bool" where
  "composite_ok b max_pixels max_allocation c \<longleftrightarrow>
     take 4 b = ascii ''8BPS'' \<and> be_uint (take 2 (drop 4 b)) = 1
     \<and> header_admitted max_pixels max_allocation (file_header b)
     \<and> comp_width c = be_uint (take 4 (drop 18 b)) \<and> comp_height c = be_uint (take 4 (drop 14 b))
     \<and> comp_bits c = be_uint (take 2 (drop 22 b))
     \<and> length (comp_pixels c) = comp_width c * comp_height c
     \<and> list_all (\<lambda>(r, g, b, a). unit_alpha a) (comp_pixels c)"

lemma fine_body:
  assumes "fills_buffer z"
  shows "fine (psd_body z mp ma (reader_at 0 b)) (\<lambda>c _. composite_ok b mp ma c)"
proof -
  let ?h = "file_header b"
  have pixels: "fine ((case map_sums (psd_pixel ?h alpha data) [0..<psd_pixels ?h] of
       Inl e \<Rightarrow> fail e
     | Inr pixels \<Rightarrow>
         ret \<lparr>comp_width = hd_width ?h, comp_height = hd_height ?h, comp_pixels = pixels,
              comp_bits = hd_depth ?h, comp_icc = icc\<rparr>) t) (\<lambda>c _. composite_ok b mp ma c)"
    if "take 4 b = ascii ''8BPS''" "be_uint (take 2 (drop 4 b)) = 1" "header_admitted mp ma ?h" "length data = psd_total ?h"
    for alpha data icc t
  proof -
    have "(\<exists>ys. map_sums (psd_pixel ?h alpha data) [0..<psd_pixels ?h] = Inr ys \<and> length ys = length [0..<psd_pixels ?h]
        \<and> list_all (\<lambda>(r, g, b, a). unit_alpha a) ys)
      \<or> (\<exists>e. map_sums (psd_pixel ?h alpha data) [0..<psd_pixels ?h] = Inl e \<and> psd_refused e)"
      using psd_pixel_total [OF header_admitted_ok [OF that(3)] that(4), of _ alpha] by (intro map_sums_all) fastforce
    then show ?thesis
      using that(1-3) by (auto simp: run_simps composite_ok_def psd_pixels_def file_header_def)
  qed
  show ?thesis
    unfolding psd_body_def
    by (rule run_bind, rule fine_header, intro run_intros fine_planes assms pixels header_admitted_ok)
qed

end
