(* ===== verification/Psd_Roundtrip.thy ===== *)
theory Psd_Roundtrip
  imports Psd_Safety
begin

text \<open>
  Planes come back from each way they are stored: run lengths in any division into literals
  and repeats, and the predictors of sixteen-bit, eight-bit and planar thirty-two-bit rows.
\<close>

section \<open>Run lengths\<close>

datatype packet = Literal "byte list" | Repeat nat byte | Skip

definition packet_ok :: "packet \<Rightarrow> bool" where
  "packet_ok p = (case p of Literal b \<Rightarrow> 1 \<le> length b \<and> length b \<le> 128 | Repeat n _ \<Rightarrow> 2 \<le> n \<and> n \<le> 128 | Skip \<Rightarrow> True)"

definition packet_bytes :: "packet \<Rightarrow> byte list" where
  "packet_bytes p = (case p of
      Literal b \<Rightarrow> word_of_nat (length b - 1) # b
    | Repeat n v \<Rightarrow> [word_of_nat (257 - n), v]
    | Skip \<Rightarrow> [128])"

definition packet_out :: "packet \<Rightarrow> byte list" where
  "packet_out p = (case p of Literal b \<Rightarrow> b | Repeat n v \<Rightarrow> replicate n v | Skip \<Rightarrow> [])"

definition packed :: "packet list \<Rightarrow> byte list" where
  "packed ps = concat (map packet_bytes ps)"

definition unpacked :: "packet list \<Rightarrow> byte list" where
  "unpacked ps = concat (map packet_out ps)"

lemma unat_byte_nat: "n < 256 \<Longrightarrow> unat (word_of_nat n :: byte) = n"
  by (simp add: unat_of_nat take_bit_eq_mod)

lemma unat_word16: "n < 65536 \<Longrightarrow> unat (word_of_nat n :: 16 word) = n"
  by (simp add: unat_of_nat take_bit_eq_mod)

lemma rle_row_packet:
  assumes "packet_ok p" "length out + length (packet_out p) \<le> rb"
  shows "rle_row rb out (packet_bytes p @ rest) = rle_row rb (out @ packet_out p) rest"
proof (cases p)
  case (Literal b)
  define c :: byte where "c = word_of_nat (length b - 1)"
  have bytes: "packet_bytes (Literal b) = c # b" by (simp add: packet_bytes_def c_def)
  have "1 \<le> length b" "length b \<le> 128" using assms(1) Literal by (auto simp: packet_ok_def)
  moreover from this have "unat c = length b - 1" unfolding c_def by (intro unat_byte_nat) simp
  ultimately have "length b = Suc (unat c)" "unat c \<le> 127" by simp_all
  then show ?thesis
    using assms(2) bytes by (simp add: Literal packet_out_def rle_row.simps(2) Let_def)
next
  case (Repeat n v)
  define c :: byte where "c = word_of_nat (257 - n)"
  have bytes: "packet_bytes (Repeat n v) = [c, v]" by (simp add: packet_bytes_def c_def)
  have n: "2 \<le> n" "n \<le> 128" "129 \<le> 257 - n" using assms(1) Repeat by (auto simp: packet_ok_def)
  then have "unat c = 257 - n" unfolding c_def by (intro unat_byte_nat) simp
  then show ?thesis
    using assms(2) bytes n by (simp add: Repeat packet_out_def rle_row.simps(2) Let_def)
next
  case Skip
  then show ?thesis by (simp add: packet_bytes_def packet_out_def rle_row.simps(2) Let_def)
qed

lemma rle_row_packed:
  "list_all packet_ok ps \<Longrightarrow> length out + length (unpacked ps) = rb \<Longrightarrow> rle_row rb out (packed ps) = Inr (out @ unpacked ps)"
proof (induction ps arbitrary: out)
  case (Cons p ps)
  then show ?case by (simp add: packed_def unpacked_def rle_row_packet)
qed (simp add: packed_def unpacked_def)

text \<open>The file: a table of the sizes of the encoded rows, then the rows.\<close>

definition size_pair :: "byte list \<Rightarrow> byte list" where
  "size_pair b = u16_bytes (word_of_nat (length b))"

lemma be_uint_u16: "be_uint (u16_bytes w) = unat w"
proof -
  have w: "unat w < 65536" using unsigned_less [of w] by simp
  then have "unat w div 256 < 256" by simp
  moreover from this have "unat w div 256 * 256 mod u64_limit = unat w div 256 * 256"
    by (intro mod_less) (simp add: u64_limit_def)
  ultimately show ?thesis by (simp add: u16_bytes_def be_uint_def push8_def unat_byte_nat)
qed

lemma row_sizes_pair: "row_sizes (size_pair b @ t) = be_uint (size_pair b) # row_sizes t"
  by (simp add: size_pair_def u16_bytes_def)

lemma row_sizes_table: "list_all (\<lambda>b. length b < 65536) bs \<Longrightarrow> row_sizes (concat (map size_pair bs)) = map length bs"
proof (induction bs)
  case (Cons b bs)
  have "be_uint (size_pair b) = length b"
    using Cons.prems by (simp add: size_pair_def be_uint_u16 unat_of_nat take_bit_eq_mod)
  with Cons show ?case by (simp add: row_sizes_pair)
qed simp

lemma psd_take_at:
  assumes "rd_offset s = length pre" "rd_bytes s = pre @ b @ rest" "length (pre @ b) < u64_limit"
  shows "psd_take (length b) s = (Inr b, s\<lparr>rd_offset := length (pre @ b)\<rparr>)"
  using assms by (simp add: psd_take_def psd_ensure_def)

lemma rle_rows_packed:
  assumes "list_all (\<lambda>ps. list_all packet_ok ps \<and> length (unpacked ps) = rb) rows"
    and "length (pre @ concat (map packed rows)) < u64_limit"
  shows "fst (forc (map (length \<circ> packed) rows) (rle_step rb) out
      \<lparr>rd_bytes = pre @ concat (map packed rows) @ rest, rd_offset = length pre\<rparr>) = Inr (out @ concat (map unpacked rows))"
  using assms
proof (induction rows arbitrary: out pre)
  case (Cons ps rows)
  have "psd_take (length (packed ps)) \<lparr>rd_bytes = pre @ concat (map packed (ps # rows)) @ rest, rd_offset = length pre\<rparr>
      = (Inr (packed ps), \<lparr>rd_bytes = pre @ concat (map packed (ps # rows)) @ rest, rd_offset = length (pre @ packed ps)\<rparr>)"
    using psd_take_at [of "\<lparr>rd_bytes = pre @ concat (map packed (ps # rows)) @ rest, rd_offset = length pre\<rparr>" pre "packed ps"
        "concat (map packed rows) @ rest"] Cons.prems(2) by simp
  moreover have "rle_row rb [] (packed ps) = Inr (unpacked ps)"
    using rle_row_packed [of ps "[]" rb] Cons.prems(1) by simp
  ultimately have "forc (map (length \<circ> packed) (ps # rows)) (rle_step rb) out
        \<lparr>rd_bytes = pre @ concat (map packed (ps # rows)) @ rest, rd_offset = length pre\<rparr>
      = forc (map (length \<circ> packed) rows) (rle_step rb) (out @ unpacked ps)
        \<lparr>rd_bytes = (pre @ packed ps) @ concat (map packed rows) @ rest, rd_offset = length (pre @ packed ps)\<rparr>"
    by (simp add: rle_step_def bindc_Inr)
  with Cons.IH [of "pre @ packed ps" "out @ unpacked ps"] Cons.prems show ?case by (simp add: o_def)
qed simp

section \<open>Predictors\<close>

text \<open>Differences of neighbours, and the running sums that undo them.\<close>

definition delta :: "'a::ab_group_add list \<Rightarrow> 'a list" where
  "delta xs = map (\<lambda>i. if i = 0 then xs ! 0 else xs ! i - xs ! (i - 1)) [0..<length xs]"

definition sum_at :: "nat \<Rightarrow> 'a::ab_group_add list \<Rightarrow> 'a list" where
  "sum_at x r = r[x := r ! x + r ! (x - 1)]"

lemma running_sums:
  assumes "0 < k" "k \<le> length xs"
  shows "fold sum_at [1..<k] (delta xs) = take k xs @ drop k (delta xs)"
  using assms
proof (induction k rule: nat_induct_non_zero)
  case 1
  then obtain y ys where xs: "xs = y # ys" by (cases xs) auto
  have "[0..<length xs] = 0 # [1..<length xs]" using upt_conv_Cons [of 0 "length xs"] xs by simp
  then have "delta xs = y # drop 1 (delta xs)" unfolding delta_def xs by simp
  then show ?case by (simp add: xs)
next
  case (Suc k)
  have "length (delta xs) = length xs" by (simp add: delta_def)
  moreover have "delta xs ! k = xs ! k - xs ! (k - 1)" using Suc by (simp add: delta_def)
  moreover have "drop k (delta xs) = delta xs ! k # drop (Suc k) (delta xs)"
    using Suc.prems by (intro Cons_nth_drop_Suc [symmetric]) (simp add: delta_def)
  ultimately show ?case
    using Suc by (simp add: sum_at_def nth_append list_update_append take_Suc_conv_app_nth)
qed

lemma foldo_fold:
  assumes "\<And>x a. x \<in> set xs \<Longrightarrow> P a \<Longrightarrow> f x (g a) = Some (g (h x a)) \<and> P (h x a)" "P a"
  shows "foldo f xs (g a) = Some (g (fold h xs a))"
  using assms
proof (induction xs arbitrary: a)
  case (Cons x xs)
  then show ?case using Cons.prems(1) [of x a] by simp
qed simp

lemma sums8: "row \<noteq> [] \<Longrightarrow> foldo sum8_step [1..<length row] (delta row) = Some row"
proof -
  assume row: "row \<noteq> []"
  have len: "length (delta row) = length row" by (simp add: delta_def)
  have "foldo sum8_step [1..<length row] (id (delta row)) = Some (id (fold sum_at [1..<length row] (delta row)))"
    by (rule foldo_fold [where P = "\<lambda>r. length r = length row"])
      (auto simp: sum8_step_def get_at_def put_at_def sum_at_def len)
  then show ?thesis using running_sums [of "length row" row] row len by simp
qed

text \<open>Sixteen-bit rows.\<close>

definition u16s :: "16 word list \<Rightarrow> byte list" where
  "u16s ws = concat (map u16_bytes ws)"

lemma length_u16_bytes: "length (u16_bytes w) = 2"
  by (simp add: u16_bytes_def)

lemma length_u16s: "length (u16s ws) = 2 * length ws"
  by (induction ws) (simp_all add: u16s_def length_u16_bytes)

lemma u16s_split: "i < length ws \<Longrightarrow> u16s ws = u16s (take i ws) @ u16_bytes (ws ! i) @ u16s (drop (Suc i) ws)"
  by (subst id_take_nth_drop [of i ws]) (simp_all add: u16s_def)

lemma get_u16s:
  assumes "i < length ws"
  shows "get_u16 (u16s ws) (i * 2) = Some (ws ! i)"
proof -
  have "take 2 (drop (i * 2) (u16s ws)) = u16_bytes (ws ! i)"
    using assms by (subst u16s_split [OF assms]) (simp add: length_u16s length_u16_bytes)
  then show ?thesis using assms by (simp add: get_u16_def length_u16s be_uint_u16)
qed

lemma put_u16s:
  assumes "i < length ws"
  shows "put_u16 (i * 2) w (u16s ws) = Some (u16s (ws[i := w]))"
proof -
  obtain a b where old: "u16_bytes (ws ! i) = [a, b]" by (simp add: u16_bytes_def)
  obtain c d where new: "u16_bytes w = [c, d]" by (simp add: u16_bytes_def)
  have n: "length (u16s (take i ws)) = i * 2" using assms by (simp add: length_u16s)
  have "put_u16 (i * 2) w (u16s ws) = Some (u16s (take i ws) @ [c, d] @ u16s (drop (Suc i) ws))"
    by (subst u16s_split [OF assms]) (simp add: put_u16_def put_at_def old new n list_update_append)
  also have "u16s (take i ws) @ [c, d] @ u16s (drop (Suc i) ws) = u16s (ws[i := w])"
    using assms by (simp add: upd_conv_take_nth_drop u16s_def flip: new)
  finally show ?thesis .
qed

lemma sums16: "ws \<noteq> [] \<Longrightarrow> foldo sum16_step [1..<length ws] (u16s (delta ws)) = Some (u16s ws)"
proof -
  assume ws: "ws \<noteq> []"
  have len: "length (delta ws) = length ws" by (simp add: delta_def)
  have "foldo sum16_step [1..<length ws] (u16s (delta ws)) = Some (u16s (fold sum_at [1..<length ws] (delta ws)))"
    by (rule foldo_fold [where P = "\<lambda>r. length r = length ws"])
      (auto simp: sum16_step_def get_u16s put_u16s sum_at_def len)
  then show ?thesis using running_sums [of "length ws" ws] ws len by simp
qed

text \<open>Thirty-two-bit rows are four planes of bytes, the highest first.\<close>

definition planar :: "nat \<Rightarrow> byte list \<Rightarrow> byte list" where
  "planar w row = map (\<lambda>i. row ! (i mod w * 4 + i div w)) [0..<4 * w]"

lemma nth_planar:
  assumes "x < w" "b < 4" "length row = w * 4"
  shows "planar w row ! (b * w + x) = row ! (x * 4 + b)"
proof -
  have "b * w + x < 4 * w"
  proof -
    have "b * w \<le> 3 * w" using assms(2) by (intro mult_le_mono1) simp
    then show ?thesis using assms(1) by linarith
  qed
  then show ?thesis using assms(1) by (simp add: planar_def)
qed

lemma unplane_one:
  assumes "x < w" "length src = w * 4" "length row = w * 4"
  shows "unplane_step src w x row =
    Some (row[x * 4 := src ! x, x * 4 + 1 := src ! (w + x), x * 4 + 2 := src ! (2 * w + x), x * 4 + 3 := src ! (3 * w + x)])"
proof -
  have "[0..<4] = [0, 1, 2, 3 :: nat]" by (simp add: upt_rec)
  then show ?thesis using assms by (simp add: unplane_step_def get_at_def put_at_def)
qed

lemma unplane_all:
  assumes "length row = w * 4" "n \<le> w"
  shows "foldo (unplane_step (planar w row) w) [0..<n] (planar w row) = Some (take (n * 4) row @ drop (n * 4) (planar w row))"
  using assms(2)
proof (induction n)
  case (Suc n)
  let ?p = "planar w row"
  have len: "length ?p = w * 4" by (simp add: planar_def)
  have split: "foldo f (xs @ [x]) a = Option.bind (foldo f xs a) (f x)" for f xs x and a :: "byte list"
  proof (induction xs arbitrary: a)
    case Nil
    show ?case by (cases "f x a") simp_all
  next
    case (Cons y ys)
    then show ?case by (cases "f y a") simp_all
  qed
  have nth: "?p ! n = row ! (n * 4)" "?p ! (w + n) = row ! (n * 4 + 1)" "?p ! (2 * w + n) = row ! (n * 4 + 2)"
    "?p ! (3 * w + n) = row ! (n * 4 + 3)"
    using nth_planar [of n w 0 row] nth_planar [of n w 1 row] nth_planar [of n w 2 row] nth_planar [of n w 3 row]
      Suc.prems assms(1) by simp_all
  have "(take (n * 4) row @ drop (n * 4) ?p)
      [n * 4 := row ! (n * 4), n * 4 + 1 := row ! (n * 4 + 1), n * 4 + 2 := row ! (n * 4 + 2), n * 4 + 3 := row ! (n * 4 + 3)]
    = take (Suc n * 4) row @ drop (Suc n * 4) ?p"
    (is "?l = ?r")
  proof (rule nth_equalityI)
    show "length ?l = length ?r" using Suc.prems assms(1) len by simp
    fix i assume "i < length ?l"
    then show "?l ! i = ?r ! i"
      using Suc.prems assms(1) len by (auto simp: nth_list_update nth_append)
  qed
  then show ?case
    using Suc len assms(1) by (simp add: split unplane_one nth)
qed simp

text \<open>The predicted form of a row, and of planes.\<close>

fun be_words :: "byte list \<Rightarrow> 16 word list" where
  "be_words (a # b # t) = word_of_nat (be_uint [a, b]) # be_words t"
| "be_words _ = []"

lemma u16s_words: "even (length b) \<Longrightarrow> u16s (be_words b) = b"
proof (induction b rule: be_words.induct)
  case (1 a b t)
  have small: "unat a < 256" "unat b < 256" using unsigned_less [of a] unsigned_less [of b] by simp_all
  have ab: "be_uint [a, b] = unat a * 256 + unat b"
  proof -
    have "unat a * 256 mod u64_limit = unat a * 256"
      using small by (intro mod_less) (simp add: u64_limit_def)
    then show ?thesis by (simp add: be_uint_def push8_def)
  qed
  from small have "be_uint [a, b] < 65536" by (simp add: ab)
  then have eq: "unat (word_of_nat (be_uint [a, b]) :: 16 word) = be_uint [a, b]" by (rule unat_word16)
  have "u16_bytes (word_of_nat (be_uint [a, b])) = [a, b]"
    unfolding u16_bytes_def eq using small by (simp add: ab)
  with 1 show ?case by (simp add: u16s_def)
qed (simp_all add: u16s_def)

lemma length_be_words: "length (be_words b) = length b div 2"
  by (induction b rule: be_words.induct) auto

definition predict_row :: "psd_header \<Rightarrow> byte list \<Rightarrow> byte list" where
  "predict_row h row =
     (if hd_depth h = 16 then u16s (delta (be_words row))
      else if hd_depth h = 32 then delta (planar (hd_width h) row)
      else delta row)"

lemma predict_row:
  assumes "header_ok h" "length row = row_bytes h"
  shows "unpredict_row h (predict_row h row) = Some row \<and> length (predict_row h row) = row_bytes h"
proof -
  have w: "0 < hd_width h" and d: "hd_depth h = 8 \<or> hd_depth h = 16 \<or> hd_depth h = 32"
    using assms(1) by (auto simp: header_ok_def)
  from d show ?thesis
  proof (elim disjE)
    assume d: "hd_depth h = 8"
    then have "row \<noteq> []" using w assms(2) by (auto simp: row_bytes_def psd_bps_def)
    then show ?thesis using sums8 [of row] d assms(2) by (simp add: unpredict_row_def predict_row_def delta_def)
  next
    assume d: "hd_depth h = 16"
    then have len: "length row = hd_width h * 2" using assms(2) by (simp add: row_bytes_def psd_bps_def)
    then have ws: "length (be_words row) = hd_width h" "u16s (be_words row) = row"
      by (simp_all add: length_be_words u16s_words)
    then have "be_words row \<noteq> []" using w by auto
    from sums16 [OF this] ws d len assms(2) show ?thesis
      by (simp add: unpredict_row_def predict_row_def length_u16s) (simp add: delta_def)
  next
    assume d: "hd_depth h = 32"
    then have len: "length row = hd_width h * 4" using assms(2) by (simp add: row_bytes_def psd_bps_def)
    have p: "length (planar (hd_width h) row) = hd_width h * 4" by (simp add: planar_def)
    then have "planar (hd_width h) row \<noteq> []" using w by auto
    from sums8 [OF this] unplane_all [OF len order_refl] d p len assms(2) show ?thesis
      by (simp add: unpredict_row_def predict_row_def) (simp add: delta_def)
  qed
qed

lemma unpredict_rows:
  assumes "header_ok h" "list_all (\<lambda>r. length r = row_bytes h) rows"
  shows "unpredict h (concat (map (predict_row h) rows)) = Some (concat rows)"
  using assms(2)
proof (induction rows)
  case Nil
  have "0 < row_bytes h" using assms(1) by (auto simp: header_ok_def row_bytes_def psd_bps_def)
  then show ?case by (simp add: unpredict.simps)
next
  case (Cons r rows)
  have "0 < row_bytes h" using assms(1) by (auto simp: header_ok_def row_bytes_def psd_bps_def)
  with Cons predict_row [OF assms(1), of r] show ?case by (simp add: unpredict.simps [of h "_ @ _"])
qed

end
