(* ===== verification/Psd_Properties.thy ===== *)
theory Psd_Properties
  imports Psd_Roundtrip
begin

text \<open>The properties of the composite reader, with concrete instances.\<close>

lemma psd_u16_at:
  assumes "rd_offset s = length pre" "rd_bytes s = pre @ [a, b] @ rest" "length pre + 2 < u64_limit"
  shows "psd_u16 s = (Inr (be_uint [a, b]), s\<lparr>rd_offset := length pre + 2\<rparr>)"
proof -
  have "psd_take 2 s = (Inr [a, b], s\<lparr>rd_offset := length pre + 2\<rparr>)"
    using psd_take_at [of s pre "[a, b]" rest] assms by (simp add: numeral_2_eq_2)
  then show ?thesis by (simp add: psd_u16_def bindc_def)
qed
lemma mul_fine: "a * b < u64_limit \<Longrightarrow> psd_mul a b m s = (Inr (), s)"
  by (simp add: psd_mul_def psd_ensure_def checked_mul_def)

text \<open>After the compression code, the planes of that code.\<close>

lemma planes_coded:
  assumes "psd_u16 s = (Inr c, t)"
  shows "c = 0 \<Longrightarrow> fst (psd_planes z h s) = fst (psd_take (psd_total h) t)"
    and "c = 1 \<Longrightarrow> fst (psd_planes z h s) = fst (rle_planes h t)"
    and "c = 3 \<Longrightarrow> fst (psd_planes z h s) = (case fst (zip_planes z h t) of
        Inl e \<Rightarrow> Inl e | Inr d \<Rightarrow> (case unpredict h d of None \<Rightarrow> Inl PsdPanicked | Some d \<Rightarrow> Inr d))"
  using assms by (auto simp: psd_planes_def bindc_def split: prod.splits sum.splits option.splits)

lemma rle_planes_at:
  assumes "hd_height h * hd_channels h * 2 < u64_limit" "psd_take (hd_height h * hd_channels h * 2) s = (Inr b, t)"
  shows "rle_planes h s = forc (row_sizes b) (rle_step (row_bytes h)) [] t"
  using assms by (simp add: rle_planes_def bindc_def mul_fine Let_def)

section \<open>Properties\<close>

text \<open>
  C23: the composite reader answers for any bytes and limits, if the inflater fills the buffer it
  is given: it refuses with a message, or the file begins with a PSD header and the composite has
  exactly the width, height and depth of its bytes 18 to 21, 14 to 17 and 22 to 23, one pixel for
  each place, every alpha between zero and one. A composite is returned only when the header is
  within the caller's limits of pixels and of allocation and the reader's own: 40,000 in each
  direction, 100 million pixels, 56 channels, 1,600 MiB of planes. The reader never indexes outside
  a row, a plane or the file, and none of its loops outlasts the bytes they read. So does the search
  for the EXIF resource.
\<close>
theorem psd_decode_total:
  assumes "fills_buffer z"
  shows "((\<exists>c. psd_decode z b mp ma = Inr c \<and> composite_ok b mp ma c) \<or> (\<exists>m. psd_decode z b mp ma = Inl (PsdFailed m)))
    \<and> ((\<exists>x. source_exif b = Inr x) \<or> (\<exists>m. source_exif b = Inl (PsdFailed m)))"
proof
  show "(\<exists>c. psd_decode z b mp ma = Inr c \<and> composite_ok b mp ma c) \<or> (\<exists>m. psd_decode z b mp ma = Inl (PsdFailed m))"
    using fine_body [OF assms, of mp ma b]
    by (auto simp: psd_decode_def runs_def psd_refused_def split: prod.splits sum.splits)
  have "fine (bindc psd_block (\<lambda>_. bindc psd_block (\<lambda>resources.
          sub_reader resources (reader_loop exif_step ()))) (reader_at 26 b)) (\<lambda>_ _. True)"
    by (intro run_intros fine_sub_reader fine_reader_loop [where Q = "\<lambda>_. True"] fine_exif_step)
  then show "(\<exists>x. source_exif b = Inr x) \<or> (\<exists>m. source_exif b = Inl (PsdFailed m))"
    by (auto simp: source_exif_def runs_def psd_refused_def split: prod.splits sum.splits)
qed

text \<open>
  C40: run-length coded planes equal raw ones. However the rows of the planes are divided into
  literals, repeats and no-ops, the reader gets from the size table and the coded rows exactly the
  bytes it gets from the same planes stored raw.
\<close>
theorem rle_planes_equal_raw:
  assumes "length rows = hd_height h * hd_channels h"
    and "list_all (\<lambda>ps. list_all packet_ok ps \<and> length (unpacked ps) = row_bytes h \<and> length (packed ps) < 65536) rows"
    and "length (pre @ [0, 1] @ concat (map (size_pair \<circ> packed) rows) @ concat (map packed rows) @ rest) < u64_limit"
    and "length (pre @ [0, 0] @ concat (map unpacked rows) @ rest) < u64_limit"
  shows "fst (psd_planes z h (reader_at (length pre)
        (pre @ [0, 1] @ concat (map (size_pair \<circ> packed) rows) @ concat (map packed rows) @ rest))) = Inr (concat (map unpacked rows))
    \<and> fst (psd_planes z h (reader_at (length pre) (pre @ [0, 0] @ concat (map unpacked rows) @ rest)))
      = Inr (concat (map unpacked rows))"
proof
  let ?table = "concat (map (size_pair \<circ> packed) rows)" and ?data = "concat (map packed rows)"
  let ?file = "pre @ [0, 1] @ ?table @ ?data @ rest"
  have table: "length ?table = length rows * 2"
    by (induction rows) (simp_all add: size_pair_def length_u16_bytes)
  have sizes: "row_sizes ?table = map (length \<circ> packed) rows"
    using row_sizes_table [of "map packed rows"] assms(2) by (simp add: list_all_iff)
  have one: "be_uint [0, 1] = 1" by (simp add: be_uint_def push8_def u64_limit_def)
  have u16: "psd_u16 (reader_at (length pre) ?file) = (Inr 1, \<lparr>rd_bytes = ?file, rd_offset = length (pre @ [0, 1])\<rparr>)"
    using psd_u16_at [of "reader_at (length pre) ?file" pre 0 1 "?table @ ?data @ rest"] assms(3)
    by (simp add: reader_at_def one)
  have tab: "psd_take (length rows * 2) \<lparr>rd_bytes = ?file, rd_offset = length (pre @ [0, 1])\<rparr>
      = (Inr ?table, \<lparr>rd_bytes = (pre @ [0, 1] @ ?table) @ ?data @ rest, rd_offset = length (pre @ [0, 1] @ ?table)\<rparr>)"
    using psd_take_at [of "\<lparr>rd_bytes = ?file, rd_offset = length (pre @ [0, 1])\<rparr>" "pre @ [0, 1]" ?table "?data @ rest"]
      assms(3) by (simp add: table)
  have rows: "fst (forc (map (length \<circ> packed) rows) (rle_step (row_bytes h)) []
      \<lparr>rd_bytes = (pre @ [0, 1] @ ?table) @ ?data @ rest, rd_offset = length (pre @ [0, 1] @ ?table)\<rparr>)
      = Inr (concat (map unpacked rows))"
    using rle_rows_packed [of "row_bytes h" rows "pre @ [0, 1] @ ?table" "[]" rest] assms(2,3) by (simp add: list_all_iff)
  have mul: "hd_height h * hd_channels h * 2 < u64_limit" using assms(1,3) table by simp
  show "fst (psd_planes z h (reader_at (length pre) ?file)) = Inr (concat (map unpacked rows))"
    using planes_coded(2) [OF u16 refl, of z h] rle_planes_at [OF mul tab [unfolded assms(1)]] rows by (simp only: sizes)
next
  let ?planes = "concat (map unpacked rows)"
  let ?file = "pre @ [0, 0] @ ?planes @ rest"
  have "length ?planes = length rows * row_bytes h"
    using assms(2) by (induction rows) simp_all
  then have len: "length ?planes = psd_total h" using assms(1) total_rows [of h] by (simp add: mult.commute)
  have u16: "psd_u16 (reader_at (length pre) ?file) = (Inr 0, \<lparr>rd_bytes = ?file, rd_offset = length (pre @ [0, 0])\<rparr>)"
    using psd_u16_at [of "reader_at (length pre) ?file" pre 0 0 "?planes @ rest"] assms(4)
    by (simp add: reader_at_def be_uint_def push8_def)
  have "psd_take (psd_total h) \<lparr>rd_bytes = ?file, rd_offset = length (pre @ [0, 0])\<rparr>
      = (Inr ?planes, \<lparr>rd_bytes = ?file, rd_offset = length (pre @ [0, 0] @ ?planes)\<rparr>)"
    using psd_take_at [of "\<lparr>rd_bytes = ?file, rd_offset = length (pre @ [0, 0])\<rparr>" "pre @ [0, 0]" ?planes rest]
      assms(4) by (simp add: len)
  then show "fst (psd_planes z h (reader_at (length pre) ?file)) = Inr ?planes"
    using planes_coded(1) [OF u16 refl, of z h] by simp
qed

text \<open>
  Predicted planes come back. For eight-, sixteen- and thirty-two-bit images, inflating planes
  whose rows were replaced by the differences of neighbouring samples (or, at thirty-two bits, of
  the bytes of four byte planes) and undoing the prediction yields the rows themselves; the sums wrap
  as the differences did.
\<close>
theorem predicted_planes_restored:
  assumes "header_ok h" "list_all (\<lambda>r. length r = row_bytes h) rows" "length pre + 2 < u64_limit"
    and "inflate_exact z encoded (psd_total h) = Inr (concat (map (predict_row h) rows))"
    and "inflate_more z encoded (psd_total h) = Inr 0"
  shows "fst (psd_planes z h (reader_at (length pre) (pre @ [0, 3] @ encoded))) = Inr (concat rows)"
proof -
  let ?file = "pre @ [0, 3] @ encoded"
  have u16: "psd_u16 (reader_at (length pre) ?file) = (Inr 3, \<lparr>rd_bytes = ?file, rd_offset = length pre + 2\<rparr>)"
    using psd_u16_at [of "reader_at (length pre) ?file" pre 0 3 encoded] assms(3)
    by (simp add: reader_at_def be_uint_def push8_def u64_limit_def)
  have "zip_planes z h \<lparr>rd_bytes = ?file, rd_offset = length pre + 2\<rparr>
      = (Inr (concat (map (predict_row h) rows)), \<lparr>rd_bytes = ?file, rd_offset = length pre + 2\<rparr>)"
    using assms(4,5) by (simp add: zip_planes_def psd_ensure_def Let_def)
  then show ?thesis
    using planes_coded(3) [OF u16 refl, of z h] unpredict_rows [OF assms(1,2)] by simp
qed

section \<open>Instances\<close>

definition sample_header :: "nat \<Rightarrow> psd_header" where
  "sample_header depth = \<lparr>hd_channels = 1, hd_height = 1, hd_width = 2, hd_depth = depth, hd_mode = 1\<rparr>"

definition sample_inflater :: "byte list \<Rightarrow> inflater" where
  "sample_inflater out = \<lparr>inflate_exact = \<lambda>_ n. if length out = n then Inr out else Inl ''short'', inflate_more = \<lambda>_ _. Inr 0\<rparr>"

lemma sample_fills: "fills_buffer (sample_inflater out)"
  by (simp add: fills_buffer_def sample_inflater_def)

text \<open>A grey image two pixels wide and one high, its plane stored raw, under limits it just meets.\<close>

definition sample_file :: "byte list" where
  "sample_file = ascii ''8BPS'' @ [0, 1] @ replicate 6 0 @ [0, 1] @ [0, 0, 0, 1] @ [0, 0, 0, 2] @ [0, 8] @ [0, 1]
     @ replicate 12 0 @ [0, 0] @ [7, 9]"

lemma sample_file_eq:
  "sample_file = [56, 66, 80, 83, 0, 1, 0, 0, 0, 0, 0, 0, 0, 1, 0, 0, 0, 1, 0, 0, 0, 2, 0, 8, 0, 1,
     0, 0, 0, 0, 0, 0, 0, 0, 0, 0, 0, 0, 0, 0, 7, 9]"
  by (simp add: sample_file_def ascii_def numeral_eq_Suc)

lemma sample_decoded: "\<exists>c. psd_decode (sample_inflater []) sample_file 2 32 = Inr c"
  by (simp add: psd_decode_def psd_body_def read_header_def psd_planes_def psd_block_def psd_u16_def psd_u32_def psd_take_def
      psd_ensure_def psd_mul_def sub_reader_def reader_loop_def resource_step_def at_end_def merged_transparency_def
      bindc_def reader_at_def Let_def be_uint_def push8_def u64_limit_def u64_max_def checked_mul_def ascii_def
      sample_file_eq psd_colors_def psd_pixels_def psd_plane_def psd_total_def psd_bps_def psd_pixel_def psd_sample_def
      get_at_def upt_rec ieee_one_def is_finite_def ge_const_def le_const_def
      signed_def)

theorem psd_decode_total_witness:
  "\<exists>c. psd_decode (sample_inflater []) sample_file 2 32 = Inr c
     \<and> comp_width c = 2 \<and> comp_height c = 1 \<and> comp_bits c = 8 \<and> length (comp_pixels c) = 2"
proof -
  obtain c where c: "psd_decode (sample_inflater []) sample_file 2 32 = Inr c" using sample_decoded by blast
  have "composite_ok sample_file 2 32 c" using psd_decode_total [OF sample_fills, of "[]" sample_file 2 32] c by auto
  then have "comp_width c = 2 \<and> comp_height c = 1 \<and> comp_bits c = 8 \<and> length (comp_pixels c) = 2"
    by (simp add: composite_ok_def sample_file_def be_uint_def push8_def u64_limit_def ascii_def)
  with c show ?thesis by blast
qed

lemma rle_planes_equal_raw_witness:
  "fst (psd_planes (sample_inflater []) (sample_header 8)
      (reader_at 1 [7, 0, 1, 0, 2, 255, 5])) = Inr [5, 5]"
proof -
  have "packed [Repeat 2 5] = [255, 5]" "unpacked [Repeat 2 5] = [5, 5]"
    by (simp_all add: packed_def packet_bytes_def unpacked_def packet_out_def numeral_2_eq_2)
  moreover from this have "(size_pair \<circ> packed) [Repeat 2 5] = [0, 2]"
    by (simp add: size_pair_def u16_bytes_def)
  ultimately show ?thesis
    using rle_planes_equal_raw [of "[[Repeat 2 5]]" "sample_header 8" "[7]" "[]" "sample_inflater []"]
    by (simp add: sample_header_def row_bytes_def psd_bps_def packet_ok_def u64_limit_def)
qed

lemma predicted_planes_restored_witness:
  "fst (psd_planes (sample_inflater [200, 100]) (sample_header 8) (reader_at 0 [0, 3, 9])) = Inr [200, 44]"
proof -
  have p: "predict_row (sample_header 8) [200, 44] = [200, 100]"
    by (simp add: predict_row_def sample_header_def delta_def upt_rec)
  have dims: "row_bytes (sample_header 8) = 2" "psd_total (sample_header 8) = 2"
    by (simp_all add: sample_header_def row_bytes_def psd_bps_def psd_total_def psd_plane_def psd_pixels_def)
  have "header_ok (sample_header 8)" by (simp add: header_ok_def sample_header_def psd_colors_def psd_pixels_def)
  then have "fst (psd_planes (sample_inflater [200, 100]) (sample_header 8) (reader_at (length ([] :: byte list)) ([] @ [0, 3] @ [9])))
      = Inr (concat [[200, 44]])"
    by (rule predicted_planes_restored) (simp_all add: p dims sample_inflater_def u64_limit_def)
  then show ?thesis by simp
qed

end
