(* ===== verification/Writer_Gate.thy ===== *)
theory Writer_Gate
  imports Transition_System
begin

text \<open>
  Admission to the one writer of a catalog (\<open>catalog_writer.rs\<close>): tickets per class, the
  ranges of tickets whose request was given up, the wait for the turn, the permit and the
  lease of an external admission. Each critical section of the mutex is one computation on
  its state; the threads around it take their turns in any order.
\<close>

section \<open>The guarded state\<close>

datatype priority = Foreground | Background

text \<open>\<open>State\<close>; the two-element arrays are indexed by the class, 0 for foreground.\<close>

record writer_state =
  owner :: "nat option"
  next_ticket :: "nat \<Rightarrow> nat"
  serving :: "nat \<Rightarrow> nat"
  retired :: "nat \<Rightarrow> (nat, nat) hmap"

datatype writer_error = Recursive | Canceled | Deadline | Exhausted | Overflow

type_synonym 'a gate_comp = "(writer_state, writer_error, 'a) comp"

definition writers_default :: writer_state where
  "writers_default = \<lparr>owner = None, next_ticket = (\<lambda>_. 0), serving = (\<lambda>_. 0), retired = (\<lambda>_. [])\<rparr>"

definition class_of :: "priority \<Rightarrow> nat" where
  "class_of p = (if p = Background then 1 else 0)"

text \<open>\<open>range(..=ticket).next_back()\<close>: the entry of the greatest key up to the ticket.\<close>

definition range_back :: "nat \<Rightarrow> (nat, nat) hmap \<Rightarrow> (nat \<times> nat) option" where
  "range_back t m =
     (case sort_key fst (filter (\<lambda>e. fst e \<le> t) m) of [] \<Rightarrow> None | e # es \<Rightarrow> Some (last (e # es)))"

definition set_serving :: "nat \<Rightarrow> nat \<Rightarrow> writer_state \<Rightarrow> writer_state" where
  "set_serving c n s = s\<lparr>serving := (serving s)(c := n)\<rparr>"

definition set_retired :: "nat \<Rightarrow> (nat, nat) hmap \<Rightarrow> writer_state \<Rightarrow> writer_state" where
  "set_retired c m s = s\<lparr>retired := (retired s)(c := m)\<rparr>"

text \<open>The loop of \<open>advance_retired\<close>, on the ticket served and the ranges; an overflow ends it.\<close>

function advance_ranges :: "nat \<Rightarrow> (nat, nat) hmap \<Rightarrow> (nat \<times> (nat, nat) hmap) option" where
  "advance_ranges n m =
     (case map_of m n of
        None \<Rightarrow> Some (n, m)
      | Some stop \<Rightarrow> Option.bind (checked_add stop 1) (\<lambda>k. advance_ranges k (hm_remove n m)))"
  by pat_completeness auto

lemma length_hm_remove_present: "map_of m k = Some v \<Longrightarrow> length (hm_remove k m) < length m"
  unfolding hm_remove_def
  by (rule length_filter_less [where x = "(k, v)"]) (auto dest: map_of_SomeD)

termination advance_ranges
  by (relation "measure (\<lambda>(n, m). length m)") (auto dest: length_hm_remove_present)

declare advance_ranges.simps [simp del]

definition advance_retired :: "nat \<Rightarrow> unit gate_comp" where
  "advance_retired c =
     bindc (getc (\<lambda>s. advance_ranges (serving s c) (retired s c))) (\<lambda>r.
     bindc (lift_option Overflow r) (\<lambda>(n, m).
     modc (\<lambda>s. set_retired c m (set_serving c n s))))"

text \<open>A ticket is given up: its range grows downwards, then upwards, to the ranges that meet it.\<close>

definition drop_range :: "nat \<Rightarrow> nat \<Rightarrow> unit gate_comp" where
  "drop_range c k = modc (\<lambda>s. set_retired c (hm_remove k (retired s c)) s)"

definition retire :: "nat \<Rightarrow> nat \<Rightarrow> unit gate_comp" where
  "retire c t =
     bindc (getc (\<lambda>s. range_back t (retired s c))) (\<lambda>below.
     if (case below of Some (_, b) \<Rightarrow> t \<le> b | None \<Rightarrow> False) then ret ()
     else
       bindc (case below of
           Some (a, b) \<Rightarrow> if b + 1 = t then bindc (drop_range c a) (\<lambda>_. ret a) else ret t
         | None \<Rightarrow> ret t) (\<lambda>start.
       bindc (lift_option Overflow (checked_add t 1)) (\<lambda>above.
       bindc (getc (\<lambda>s. map_of (retired s c) above)) (\<lambda>next_end.
       bindc (case next_end of
           Some e \<Rightarrow> bindc (drop_range c above) (\<lambda>_. ret e)
         | None \<Rightarrow> ret t) (\<lambda>stop.
       bindc (modc (\<lambda>s. set_retired c (hm_insert start stop (retired s c)) s)) (\<lambda>_.
       advance_retired c))))))"

section \<open>Admission\<close>

text \<open>What a request reads outside the state: its cancel flag and whether its deadline passed.\<close>

record observation =
  canceled :: bool
  expired :: bool

definition admission_checks :: "observation \<Rightarrow> unit gate_comp" where
  "admission_checks o' =
     bindc (ensure (\<not> canceled o') Canceled) (\<lambda>_. ensure (\<not> expired o') Deadline)"

text \<open>\<open>enter_checked\<close> up to its loop: the refusals, then a ticket.\<close>

definition take_ticket :: "nat \<Rightarrow> nat \<Rightarrow> observation \<Rightarrow> nat gate_comp" where
  "take_ticket thread c o' =
     bindc (getc (\<lambda>s. owner s \<noteq> Some thread)) (\<lambda>other.
     bindc (ensure other Recursive) (\<lambda>_.
     bindc (admission_checks o') (\<lambda>_.
     bindc (getc (\<lambda>s. next_ticket s c)) (\<lambda>ticket.
     bindc (lift_option Exhausted (checked_add ticket 1)) (\<lambda>n.
     bindc (modc (\<lambda>s. s\<lparr>next_ticket := (next_ticket s)(c := n)\<rparr>)) (\<lambda>_.
     ret ticket))))))"

text \<open>One turn of the loop, and what follows it on the same lock: true when admitted.\<close>

definition admission_turn :: "nat \<Rightarrow> nat \<Rightarrow> nat \<Rightarrow> observation \<Rightarrow> bool gate_comp" where
  "admission_turn thread c ticket o' =
     bindc (admission_checks o') (\<lambda>_.
     bindc (advance_retired 0) (\<lambda>_.
     bindc (advance_retired 1) (\<lambda>_.
     bindc (getc (\<lambda>s. owner s = None \<and> serving s c = ticket
         \<and> (c = 0 \<or> next_ticket s 0 = serving s 0))) (\<lambda>admitted.
     if \<not> admitted then ret False
     else
       bindc (getc (\<lambda>s. checked_add (serving s c) 1)) (\<lambda>n.
       bindc (lift_option Overflow n) (\<lambda>n.
       bindc (modc (set_serving c n)) (\<lambda>_.
       bindc (modc (\<lambda>s. s\<lparr>owner := Some thread\<rparr>)) (\<lambda>_.
       ret True))))))))"

definition release_owner :: "unit gate_comp" where
  "release_owner = modc (\<lambda>s. s\<lparr>owner := None\<rparr>)"

section \<open>The threads\<close>

text \<open>
  Where a thread is: outside, waiting for the turn of its ticket, on its way out with a
  ticket not yet given up, admitted but without the external lease, in possession of the
  permit (with a lease or not), or about to notify the others after it changed the state.
\<close>

datatype phase =
    Outside
  | Waiting nat nat
  | Leaving nat nat
  | Admitted
  | Holding bool
  | Notifying

text \<open>
  \<open>awake\<close> are the threads a notification has reached since they last waited; \<open>leases\<close> is
  the history of the external admission, \<open>(thread, True)\<close> for a lease taken.
\<close>

record gate =
  writers :: writer_state
  external :: bool
  threads :: "nat \<Rightarrow> phase"
  awake :: "nat \<Rightarrow> bool"
  leases :: "(nat \<times> bool) list"

definition put :: "nat \<Rightarrow> phase \<Rightarrow> gate \<Rightarrow> gate" where
  "put i p g = g\<lparr>threads := (threads g)(i := p)\<rparr>"

text \<open>The outcome of a turn: the permit, another wait, or an error with the ticket still taken.\<close>

definition settle :: "nat \<Rightarrow> nat \<Rightarrow> nat \<Rightarrow> (writer_error + bool) \<times> writer_state \<Rightarrow> gate \<Rightarrow> gate" where
  "settle i c t r g =
     put i (case fst r of Inr True \<Rightarrow> Admitted | Inr False \<Rightarrow> Waiting c t | Inl _ \<Rightarrow> Leaving c t)
       (g\<lparr>writers := snd r, awake := (awake g)(i := False)\<rparr>)"

text \<open>A new ticket wakes every waiting thread before the first turn of its own.\<close>

definition enter_checked :: "nat \<Rightarrow> priority \<Rightarrow> observation \<Rightarrow> observation \<Rightarrow> gate \<Rightarrow> writer_error option \<times> gate" where
  "enter_checked i p first second g =
     (case take_ticket i (class_of p) first (writers g) of
        (Inl e, s) \<Rightarrow> (Some e, g\<lparr>writers := s\<rparr>)
      | (Inr t, s) \<Rightarrow>
          (None, settle i (class_of p) t (admission_turn i (class_of p) t second s) (g\<lparr>awake := (\<lambda>_. True)\<rparr>)))"

definition resume :: "nat \<Rightarrow> observation \<Rightarrow> gate \<Rightarrow> gate" where
  "resume i o' g =
     (case threads g i of
        Waiting c t \<Rightarrow> settle i c t (admission_turn i c t o' (writers g)) g
      | _ \<Rightarrow> g)"

definition drop_ticket :: "nat \<Rightarrow> gate \<Rightarrow> gate" where
  "drop_ticket i g =
     (case threads g i of
        Leaving c t \<Rightarrow> put i Notifying (g\<lparr>writers := snd (retire c t (writers g))\<rparr>)
      | _ \<Rightarrow> g)"

text \<open>The external admission answers with a lease or an error; without one the permit is complete.\<close>

definition acquire_external :: "nat \<Rightarrow> gate \<Rightarrow> gate" where
  "acquire_external i g =
     (if threads g i \<noteq> Admitted then g
      else if external g then put i (Holding True) (g\<lparr>leases := leases g @ [(i, True)]\<rparr>)
      else put i (Holding False) g)"

text \<open>Dropping a permit: the lease goes first, then the ownership.\<close>

definition release_lease :: "nat \<Rightarrow> gate \<Rightarrow> gate" where
  "release_lease i g =
     (if threads g i = Holding True then put i (Holding False) (g\<lparr>leases := leases g @ [(i, False)]\<rparr>) else g)"

definition drop_permit :: "nat \<Rightarrow> gate \<Rightarrow> gate" where
  "drop_permit i g =
     (if threads g i = Holding False \<or> threads g i = Admitted \<and> external g
      then put i Notifying (g\<lparr>writers := snd (release_owner (writers g))\<rparr>) else g)"

definition notify_all :: "nat \<Rightarrow> gate \<Rightarrow> gate" where
  "notify_all i g = (if threads g i = Notifying then put i Outside (g\<lparr>awake := (\<lambda>_. True)\<rparr>) else g)"

text \<open>A request may be made outside the gate, or by the holder of the permit, which is refused.\<close>

definition may_enter :: "phase \<Rightarrow> bool" where
  "may_enter p \<longleftrightarrow> p = Outside \<or> (\<exists>l. p = Holding l)"

inductive gate_step :: "gate \<Rightarrow> gate \<Rightarrow> bool" where
  step_enter: "may_enter (threads g i) \<Longrightarrow> gate_step g (snd (enter_checked i p o1 o2 g))"
| step_resume: "gate_step g (resume i o' g)"
| step_drop_ticket: "gate_step g (drop_ticket i g)"
| step_acquire: "gate_step g (acquire_external i g)"
| step_release_lease: "gate_step g (release_lease i g)"
| step_drop_permit: "gate_step g (drop_permit i g)"
| step_notify: "gate_step g (notify_all i g)"
| step_wake: "gate_step g (g\<lparr>awake := (\<lambda>_. True)\<rparr>)"

definition gate_init :: "gate \<Rightarrow> bool" where
  "gate_init g \<longleftrightarrow> writers g = writers_default \<and> threads g = (\<lambda>_. Outside) \<and> awake g = (\<lambda>_. False) \<and> leases g = []"

section \<open>The registry of gates\<close>

text \<open>
  \<open>for_catalog\<close>: the gate of a canonical root, shared while anyone holds it. \<open>live\<close> tells
  which gates are still referred to, \<open>fresh\<close> is the address of a new one.
\<close>

definition for_catalog :: "(nat \<Rightarrow> bool) \<Rightarrow> 'p \<Rightarrow> nat \<Rightarrow> ('p, nat) hmap \<Rightarrow> nat \<times> ('p, nat) hmap" where
  "for_catalog live root fresh registry =
     (let kept = filter (\<lambda>e. live (snd e)) registry in
      case map_of kept root of
        Some w \<Rightarrow> (w, kept)
      | None \<Rightarrow> (fresh, hm_insert root fresh kept))"

end
