(* ===== verification/Writer_Ranges.thy ===== *)
theory Writer_Ranges
  imports Writer_Gate
begin

text \<open>
  The ranges of tickets given up, as the set of tickets they stand for: what \<open>retire\<close> and
  \<open>advance_retired\<close> do to the set, and that the ranges stay apart.
\<close>

section \<open>Ranges as sets\<close>

definition covered :: "(nat, nat) hmap \<Rightarrow> nat set" where
  "covered m = {t. \<exists>a b. map_of m a = Some b \<and> a \<le> t \<and> t \<le> b}"

definition ranges_ok :: "(nat, nat) hmap \<Rightarrow> bool" where
  "ranges_ok m \<longleftrightarrow> hm_wf m \<and> (\<forall>a b. map_of m a = Some b \<longrightarrow> a \<le> b)
     \<and> (\<forall>a b a' b'. map_of m a = Some b \<longrightarrow> map_of m a' = Some b' \<longrightarrow> a < a' \<longrightarrow> b + 1 < a')"

lemma ranges_okD:
  assumes "ranges_ok m" "map_of m a = Some b"
  shows "a \<le> b" "hm_wf m" "map_of m a' = Some b' \<Longrightarrow> a < a' \<Longrightarrow> b + 1 < a'"
    "map_of m a' = Some b' \<Longrightarrow> a' < a \<Longrightarrow> b' + 1 < a"
  using assms unfolding ranges_ok_def by blast+

lemma ranges_ok_Nil [simp]: "ranges_ok []" "covered [] = {}"
  by (simp_all add: ranges_ok_def covered_def)

lemma covered_start: "ranges_ok m \<Longrightarrow> map_of m a = Some b \<Longrightarrow> a \<in> covered m \<and> b \<in> covered m"
  unfolding covered_def using ranges_okD(1) by fastforce

lemma coveredE:
  assumes "t \<in> covered m"
  obtains a b where "map_of m a = Some b" "a \<le> t" "t \<le> b"
  using assms unfolding covered_def by blast

lemma range_covered: "map_of m a = Some b \<Longrightarrow> {a..b} \<subseteq> covered m"
  unfolding covered_def by fastforce

text \<open>No range starts right after another ends, nor inside it.\<close>

lemma ranges_gap:
  assumes "ranges_ok m" "map_of m a = Some b"
  shows "map_of m (Suc b) = None"
proof (cases "map_of m (Suc b)")
  case (Some e)
  have "a < Suc b" using ranges_okD(1) [OF assms] by simp
  with ranges_okD(3) [OF assms Some] show ?thesis by simp
qed simp

lemma ranges_ok_remove: "ranges_ok m \<Longrightarrow> ranges_ok (hm_remove k m)"
  unfolding ranges_ok_def by (simp add: hm_simps)

lemma covered_remove:
  assumes "ranges_ok m" "map_of m k = Some e"
  shows "covered (hm_remove k m) = covered m - {k..e}"
proof (rule set_eqI)
  fix t
  have "\<not> (a \<le> t \<and> t \<le> b \<and> k \<le> t \<and> t \<le> e)" if "map_of m a = Some b" "a \<noteq> k" for a b
    using that assms ranges_okD(3) [OF assms(1) that(1) assms(2)] ranges_okD(3) [OF assms(1,2) that(1)]
    by (cases a k rule: linorder_cases) auto
  then have "(\<exists>a b. a \<noteq> k \<and> map_of m a = Some b \<and> a \<le> t \<and> t \<le> b)
      \<longleftrightarrow> (\<exists>a b. map_of m a = Some b \<and> a \<le> t \<and> t \<le> b) \<and> \<not> (k \<le> t \<and> t \<le> e)"
    using assms(2) by (metis option.inject)
  moreover have "(map_of (hm_remove k m) a = Some b) \<longleftrightarrow> a \<noteq> k \<and> map_of m a = Some b" for a b
    by (simp add: hm_simps)
  ultimately show "t \<in> covered (hm_remove k m) \<longleftrightarrow> t \<in> covered m - {k..e}"
    unfolding covered_def by simp
qed

section \<open>Advancing\<close>

text \<open>The first ticket of a class that was not given up, and the ranges past it.\<close>

definition live_front :: "nat \<Rightarrow> (nat, nat) hmap \<Rightarrow> nat" where
  "live_front n m = (case map_of m n of None \<Rightarrow> n | Some e \<Rightarrow> Suc e)"

definition past_front :: "nat \<Rightarrow> (nat, nat) hmap \<Rightarrow> (nat, nat) hmap" where
  "past_front n m = (if map_of m n = None then m else hm_remove n m)"

lemma advance_ranges_eq:
  assumes "ranges_ok m" "\<And>t. t \<in> covered m \<Longrightarrow> Suc t < u64_limit"
  shows "advance_ranges n m = Some (live_front n m, past_front n m)"
proof (cases "map_of m n")
  case None
  then show ?thesis by (simp add: advance_ranges.simps live_front_def past_front_def)
next
  case (Some e)
  then have "Suc e < u64_limit" using assms covered_start by blast
  moreover have "map_of (hm_remove n m) (Suc e) = None"
    using ranges_gap [OF assms(1) Some] by (simp add: hm_simps)
  ultimately show ?thesis
    using Some by (subst advance_ranges.simps)
      (simp add: advance_ranges.simps [of "Suc e"] live_front_def past_front_def checked_add_def)
qed

lemma past_front_ok: "ranges_ok m \<Longrightarrow> ranges_ok (past_front n m)"
  by (simp add: past_front_def ranges_ok_remove)

lemma live_front_ge: "ranges_ok m \<Longrightarrow> n \<le> live_front n m"
  using ranges_okD(1) [of m n] by (cases "map_of m n") (auto simp: live_front_def intro: le_SucI)

lemma covered_below_front: "n \<le> t \<Longrightarrow> t < live_front n m \<Longrightarrow> t \<in> covered m"
  by (cases "map_of m n") (force simp: live_front_def covered_def)+

lemma covered_past_front:
  assumes "ranges_ok m" "\<And>t. t \<in> covered m \<Longrightarrow> n \<le> t"
  shows "covered (past_front n m) = covered m - {n..<live_front n m}"
    "live_front n m \<notin> covered m"
    "map_of (past_front n m) (live_front n m) = None"
proof -
  show c: "covered (past_front n m) = covered m - {n..<live_front n m}"
    using covered_remove [OF assms(1)]
    by (cases "map_of m n") (auto simp: past_front_def live_front_def)
  show l: "live_front n m \<notin> covered m"
  proof
    assume "live_front n m \<in> covered m"
    then obtain a b where ab: "map_of m a = Some b" "a \<le> live_front n m" "live_front n m \<le> b"
      unfolding covered_def by blast
    show False
    proof (cases "map_of m n")
      case None
      with ab have "a \<le> n" by (simp add: live_front_def)
      moreover have "n \<le> a" using covered_start [OF assms(1) ab(1)] assms(2) by blast
      ultimately show False using ab None by simp
    next
      case (Some e)
      have "n \<le> a" using covered_start [OF assms(1) ab(1)] assms(2) by blast
      then show False using Some ab ranges_okD(3) [OF assms(1) Some ab(1)]
        by (cases "a = n") (auto simp: live_front_def)
    qed
  qed
  show "map_of (past_front n m) (live_front n m) = None"
  proof (cases "map_of (past_front n m) (live_front n m)")
    case (Some e)
    then have "live_front n m \<in> covered (past_front n m)"
      using covered_start [OF past_front_ok [OF assms(1)]] by blast
    with c l show ?thesis by simp
  qed
qed

lemma live_front_past: "ranges_ok m \<Longrightarrow> (\<And>t. t \<in> covered m \<Longrightarrow> n \<le> t)
  \<Longrightarrow> live_front (live_front n m) (past_front n m) = live_front n m"
  using covered_past_front(3) [of m n] by (simp add: live_front_def [of "live_front n m"])

section \<open>Giving up a ticket\<close>

lemma sorted_le_last: "sorted xs \<Longrightarrow> x \<in> set xs \<Longrightarrow> (x :: 'b::linorder) \<le> last xs"
  by (induction xs) auto

lemma range_back_cases:
  obtains (none) "range_back t m = None" "\<And>a b. map_of m a = Some b \<Longrightarrow> t < a"
  | (some) a b where "range_back t m = Some (a, b)" "(a, b) \<in> set m" "a \<le> t"
      "\<And>a' b'. (a', b') \<in> set m \<Longrightarrow> a' \<le> t \<Longrightarrow> a' \<le> a"
proof (cases "sort_key fst (filter (\<lambda>e. fst e \<le> t) m)")
  case Nil
  then have "filter (\<lambda>e. fst e \<le> t) m = []" by (metis set_sort set_empty)
  then have "\<And>a b. map_of m a = Some b \<Longrightarrow> t < a"
    by (auto simp: filter_empty_conv not_le dest!: map_of_SomeD)
  with Nil show ?thesis by (intro none) (simp_all add: range_back_def)
next
  case (Cons e es)
  let ?s = "sort_key fst (filter (\<lambda>e. fst e \<le> t) m)"
  have set: "set ?s = {x \<in> set m. fst x \<le> t}" by simp
  have mem: "last ?s \<in> set ?s" using Cons by (metis last_in_set list.discI)
  have greatest: "fst x \<le> fst (last ?s)" if "x \<in> set ?s" for x
  proof -
    have "fst x \<in> set (map fst ?s)" using that by (metis imageI list.set_map)
    with sorted_sort_key have "fst x \<le> last (map fst ?s)" by (rule sorted_le_last)
    moreover have "?s \<noteq> []" using Cons by simp
    ultimately show ?thesis by (metis last_map)
  qed
  obtain a b where ab: "last ?s = (a, b)" by (cases "last ?s")
  have "range_back t m = Some (a, b)" using Cons ab by (simp add: range_back_def)
  moreover have "(a, b) \<in> set m" "a \<le> t" using mem set ab by auto
  moreover have "a' \<le> a" if "(a', b') \<in> set m" "a' \<le> t" for a' b'
    using greatest [of "(a', b')"] that set ab by simp
  ultimately show ?thesis by (rule some)
qed

text \<open>The range map after a ticket is added: extended below, then above.\<close>

definition join_below :: "nat \<Rightarrow> (nat, nat) hmap \<Rightarrow> nat \<times> (nat, nat) hmap" where
  "join_below t m =
     (case range_back t m of
        Some (a, b) \<Rightarrow> if b + 1 = t then (a, hm_remove a m) else (t, m)
      | None \<Rightarrow> (t, m))"

definition join_above :: "nat \<Rightarrow> nat \<Rightarrow> (nat, nat) hmap \<Rightarrow> (nat, nat) hmap" where
  "join_above start t m =
     (case map_of m (t + 1) of
        Some e \<Rightarrow> hm_insert start e (hm_remove (t + 1) m)
      | None \<Rightarrow> hm_insert start t m)"

definition joined :: "nat \<Rightarrow> (nat, nat) hmap \<Rightarrow> (nat, nat) hmap" where
  "joined t m = (case join_below t m of (start, n) \<Rightarrow> join_above start t n)"

text \<open>A new range that meets no other one.\<close>

lemma add_range:
  assumes "ranges_ok m" "a \<le> b" "\<And>t. a \<le> t + 1 \<Longrightarrow> t \<le> b + 1 \<Longrightarrow> t \<notin> covered m"
  shows "ranges_ok (hm_insert a b m)" "covered (hm_insert a b m) = covered m \<union> {a..b}"
proof -
  have free: "map_of m a = None"
  proof (cases "map_of m a")
    case (Some e)
    then have "a \<in> covered m" using covered_start [OF assms(1)] by blast
    with assms(2) assms(3) [of a] show ?thesis by simp
  qed
  have apart: "a' \<noteq> a \<and> (a < a' \<longrightarrow> b + 1 < a') \<and> (a' < a \<longrightarrow> b' + 1 < a)" if m: "map_of m a' = Some b'" for a' b'
  proof (intro conjI impI)
    have in': "a' \<in> covered m" "b' \<in> covered m" "a' \<le> b'"
      using covered_start [OF assms(1) m] ranges_okD(1) [OF assms(1) m] by auto
    show "a' \<noteq> a" using free m by auto
    show "b + 1 < a'" if "a < a'" using assms(3) [of a'] in' that by (cases "a' \<le> b + 1") auto
    show "b' + 1 < a" if "a' < a"
    proof (rule ccontr)
      assume "\<not> b' + 1 < a"
      then have "a - 1 \<in> covered m" using m that unfolding covered_def by fastforce
      moreover have "a \<le> (a - 1) + 1" "a - 1 \<le> b + 1" using that assms(2) by auto
      ultimately show False using assms(3) by blast
    qed
  qed
  show "ranges_ok (hm_insert a b m)"
    using assms(1,2) apart unfolding ranges_ok_def by (simp add: hm_simps split: if_splits) blast
  show "covered (hm_insert a b m) = covered m \<union> {a..b}"
    using free unfolding covered_def by (fastforce simp: hm_simps split: if_splits)
qed

lemma join_below_ok:
  assumes "ranges_ok m" "t \<notin> covered m" "join_below t m = (start, n)"
  shows "ranges_ok n" "start \<le> t" "covered n \<union> {start..t} = insert t (covered m)"
    "\<And>x. start \<le> x + 1 \<Longrightarrow> x \<le> t \<Longrightarrow> x \<notin> covered n" "map_of n (t + 1) = map_of m (t + 1)"
proof -
  have "ranges_ok n \<and> start \<le> t \<and> covered n \<union> {start..t} = insert t (covered m)
    \<and> (\<forall>x. start \<le> x + 1 \<longrightarrow> x \<le> t \<longrightarrow> x \<notin> covered n) \<and> map_of n (t + 1) = map_of m (t + 1)"
  proof (cases rule: range_back_cases [of t m])
    case none
    then have "x \<notin> covered m" if "x \<le> t" for x using that unfolding covered_def by fastforce
    then show ?thesis using assms none(1) by (auto simp: join_below_def)
  next
    case (some a b)
    have m: "map_of m a = Some b" using some(2) ranges_ok_def assms(1) hm_mem_iff by metis
    have le: "a \<le> b" by (rule ranges_okD(1) [OF assms(1) m])
    have above: "b < t" using assms(2) some(3) m unfolding covered_def by fastforce
    have last: "x \<le> b" if "x \<in> covered m" "x \<le> t" for x
    proof -
      from that(1) obtain a' b' where ab: "map_of m a' = Some b'" "a' \<le> x" "x \<le> b'" by (rule coveredE)
      then have "a' \<le> a" using some(4) [of a' b'] that(2) by (auto dest: map_of_SomeD)
      then show ?thesis using ab m ranges_okD(3) [OF assms(1) ab(1) m] le by (cases "a' = a") auto
    qed
    show ?thesis
    proof (cases "b + 1 = t")
      case True
      then have n: "start = a" "n = hm_remove a m" using assms(3) some(1) by (auto simp: join_below_def)
      have cov: "covered n = covered m - {a..b}" using covered_remove [OF assms(1) m] n by simp
      have sub: "{a..b} \<subseteq> covered m" using m by (rule range_covered)
      have "covered n \<union> {start..t} = insert t (covered m)"
      proof -
        have "{start..t} = insert t {a..b}" using n True some(3) le by auto
        with cov sub show ?thesis by auto
      qed
      moreover have "x \<notin> covered n" if "start \<le> x + 1" "x \<le> t" for x
      proof
        assume "x \<in> covered n"
        then have "x \<in> covered m" "\<not> (a \<le> x \<and> x \<le> b)" using cov by auto
        with last that n have "x < a" "a \<le> x + 1" by auto
        then have "a = Suc x" by simp
        from \<open>x \<in> covered m\<close> obtain a' b' where "map_of m a' = Some b'" "a' \<le> x" "x \<le> b'"
          by (rule coveredE)
        with ranges_okD(4) [OF assms(1) m, of a' b'] \<open>a = Suc x\<close> show False by simp
      qed
      ultimately show ?thesis
        using n assms(1) some(3) True le by (auto simp: ranges_ok_remove hm_simps)
    next
      case False
      then have n: "start = t" "n = m" using assms(3) some(1) by (auto simp: join_below_def)
      have "x \<notin> covered m" if "t \<le> x + 1" "x \<le> t" for x
        using last [of x] that False above assms(2) by (cases "x = t") auto
      then show ?thesis using n assms(1) by auto
    qed
  qed
  then show "ranges_ok n" "start \<le> t" "covered n \<union> {start..t} = insert t (covered m)"
    "\<And>x. start \<le> x + 1 \<Longrightarrow> x \<le> t \<Longrightarrow> x \<notin> covered n" "map_of n (t + 1) = map_of m (t + 1)"
    by blast+
qed

text \<open>Giving a ticket up adds it to the set, and leaves the ranges maximal.\<close>

lemma joined_ok:
  assumes "ranges_ok m" "t \<notin> covered m"
  shows "ranges_ok (joined t m)" "covered (joined t m) = insert t (covered m)"
proof -
  obtain start n where sn: "join_below t m = (start, n)" by (cases "join_below t m")
  note below = join_below_ok [OF assms sn]
  have "ranges_ok (joined t m) \<and> covered (joined t m) = insert t (covered m)"
  proof (cases "map_of n (t + 1)")
    case None
    have "t + 1 \<notin> covered n"
    proof
      assume "t + 1 \<in> covered n"
      then obtain a b where ab: "map_of n a = Some b" "a \<le> t + 1" "t + 1 \<le> b" by (rule coveredE)
      then have "a \<le> t" using None by (cases "a = t + 1") auto
      then have "t \<in> covered n" using ab unfolding covered_def by force
      with below(4) [of t] below(2) show False by simp
    qed
    with below(4) have gap: "x \<notin> covered n" if "start \<le> x + 1" "x \<le> t + 1" for x
      using that by (cases "x = t + 1") auto
    show ?thesis
      using add_range [OF below(1,2) gap] below(3) None sn by (simp add: joined_def join_above_def)
  next
    case (Some e)
    have le: "t + 1 \<le> e" by (rule ranges_okD(1) [OF below(1) Some])
    let ?n = "hm_remove (t + 1) n"
    have cov: "covered ?n = covered n - {t + 1..e}" by (rule covered_remove [OF below(1) Some])
    have gap: "x \<notin> covered ?n" if "start \<le> x + 1" "x \<le> e + 1" for x
    proof (cases "x \<le> t")
      case True
      then show ?thesis using below(4) that(1) cov by blast
    next
      case False
      show ?thesis
      proof
        assume x: "x \<in> covered ?n"
        then have "x = e + 1" "x \<in> covered n" using cov False that(2) by auto
        then have "e + 1 \<in> covered n" by simp
        then obtain a b where ab: "map_of n a = Some b" "a \<le> e + 1" "e + 1 \<le> b" by (rule coveredE)
        have "a \<noteq> t + 1" using ab Some by auto
        then show False
          using ranges_okD(3) [OF below(1) Some ab(1)] ranges_okD(3) [OF below(1) ab(1) Some] ab le
          by (cases a "t + 1" rule: linorder_cases) auto
      qed
    qed
    have "covered ?n \<union> {start..e} = insert t (covered m)"
    proof -
      have "{start..e} = {start..t} \<union> {t + 1..e}" using below(2) le by auto
      moreover have "{t + 1..e} \<subseteq> covered n" using Some by (rule range_covered)
      ultimately have "covered ?n \<union> {start..e} = covered n \<union> {start..t}" using cov by auto
      with below(3) show ?thesis by simp
    qed
    then show ?thesis
      using add_range [OF ranges_ok_remove [OF below(1)], of start e, OF _ gap] below(2) le Some sn
      by (simp add: joined_def join_above_def)
  qed
  then show "ranges_ok (joined t m)" "covered (joined t m) = insert t (covered m)" by simp_all
qed

end
