(* ===== verification/Writer_Correct.thy ===== *)
theory Writer_Correct
  imports Writer_Ranges
begin

text \<open>
  The critical sections of the gate on well-formed tickets, the invariant that ties the
  tickets to the threads, and that every step keeps it.
\<close>

section \<open>Tickets\<close>

definition class_ok :: "writer_state \<Rightarrow> nat \<Rightarrow> bool" where
  "class_ok w c \<longleftrightarrow> serving w c \<le> next_ticket w c \<and> next_ticket w c < u64_limit \<and> ranges_ok (retired w c)
     \<and> covered (retired w c) \<subseteq> {serving w c..<next_ticket w c}"

definition tickets_ok :: "writer_state \<Rightarrow> bool" where
  "tickets_ok w \<longleftrightarrow> (\<forall>c. class_ok w c)"

text \<open>A ticket that is neither served nor given up, and the least one of a class.\<close>

definition live :: "writer_state \<Rightarrow> nat \<Rightarrow> nat \<Rightarrow> bool" where
  "live w c t \<longleftrightarrow> serving w c \<le> t \<and> t < next_ticket w c \<and> t \<notin> covered (retired w c)"

definition front_ticket :: "writer_state \<Rightarrow> nat \<Rightarrow> nat" where
  "front_ticket w c = live_front (serving w c) (retired w c)"

definition advance_class :: "nat \<Rightarrow> writer_state \<Rightarrow> writer_state" where
  "advance_class c w = set_retired c (past_front (serving w c) (retired w c)) (set_serving c (front_ticket w c) w)"

lemmas class_defs = set_retired_def set_serving_def advance_class_def

lemma class_okD:
  assumes "class_ok w c"
  shows "serving w c \<le> next_ticket w c" "next_ticket w c < u64_limit" "ranges_ok (retired w c)"
    "\<And>t. t \<in> covered (retired w c) \<Longrightarrow> serving w c \<le> t" "\<And>t. t \<in> covered (retired w c) \<Longrightarrow> t < next_ticket w c"
  using assms unfolding class_ok_def by auto

lemma tickets_okD: "tickets_ok w \<Longrightarrow> class_ok w c"
  by (simp add: tickets_ok_def)

lemma front_facts:
  assumes "class_ok w c"
  shows "serving w c \<le> front_ticket w c" "front_ticket w c \<le> next_ticket w c"
    "live w c t \<Longrightarrow> front_ticket w c \<le> t" "front_ticket w c < next_ticket w c \<Longrightarrow> live w c (front_ticket w c)"
proof -
  note ok = class_okD [OF assms]
  show ge: "serving w c \<le> front_ticket w c"
    unfolding front_ticket_def by (rule live_front_ge [OF ok(3)])
  show "front_ticket w c \<le> next_ticket w c"
  proof (rule ccontr)
    assume "\<not> front_ticket w c \<le> next_ticket w c"
    then have "next_ticket w c \<in> covered (retired w c)"
      using covered_below_front [of "serving w c" "next_ticket w c" "retired w c"] ok(1)
      by (simp add: front_ticket_def)
    with ok(5) show False by blast
  qed
  show "front_ticket w c \<le> t" if "live w c t"
    using that covered_below_front [of "serving w c" t "retired w c"]
    unfolding live_def front_ticket_def by (meson not_less)
  show "live w c (front_ticket w c)" if "front_ticket w c < next_ticket w c"
    using that ge covered_past_front(2) [OF ok(3,4)] by (simp add: live_def front_ticket_def)
qed

lemma advance_retired_eq:
  assumes "class_ok w c"
  shows "advance_retired c w = (Inr (), advance_class c w)"
proof -
  have "Suc t < u64_limit" if "t \<in> covered (retired w c)" for t
    using class_okD(2,5) [OF assms] that by fastforce
  then have "advance_ranges (serving w c) (retired w c)
      = Some (front_ticket w c, past_front (serving w c) (retired w c))"
    using advance_ranges_eq [OF class_okD(3) [OF assms]] by (simp add: front_ticket_def)
  then show ?thesis by (simp add: advance_retired_def advance_class_def)
qed

lemma advance_class_facts:
  assumes "class_ok w c"
  shows "class_ok (advance_class c w) d \<longleftrightarrow> class_ok w d"
    "live (advance_class c w) d t \<longleftrightarrow> live w d t"
    "front_ticket (advance_class c w) d = front_ticket w d"
    "serving (advance_class c w) d = (if d = c then front_ticket w c else serving w d)"
    "owner (advance_class c w) = owner w" "next_ticket (advance_class c w) = next_ticket w"
proof -
  note ok = class_okD [OF assms]
  note past = covered_past_front [OF ok(3,4)]
  have cov: "covered (retired (advance_class c w) c) = covered (retired w c) - {serving w c..<front_ticket w c}"
    using past(1) by (simp add: class_defs front_ticket_def)
  show "serving (advance_class c w) d = (if d = c then front_ticket w c else serving w d)"
    "owner (advance_class c w) = owner w" "next_ticket (advance_class c w) = next_ticket w"
    by (simp_all add: class_defs)
  have self: "class_ok (advance_class c w) c"
    using cov ok(4,5) front_facts(2) [OF assms] past_front_ok [OF ok(3)]
      ok(2) unfolding class_ok_def by (auto simp: class_defs)
  show "class_ok (advance_class c w) d \<longleftrightarrow> class_ok w d"
    using self assms by (cases "d = c") (simp_all add: class_ok_def class_defs)
  show "live (advance_class c w) d t \<longleftrightarrow> live w d t"
  proof (cases "d = c")
    case True
    have "live (advance_class c w) c t \<longleftrightarrow> front_ticket w c \<le> t \<and> t < next_ticket w c
        \<and> t \<notin> covered (retired w c) - {serving w c..<front_ticket w c}"
      using cov by (simp add: live_def class_defs)
    also have "\<dots> \<longleftrightarrow> live w c t"
      using front_facts(1,3) [OF assms] unfolding live_def by auto
    finally show ?thesis using True by simp
  qed (simp add: live_def class_defs)
  show "front_ticket (advance_class c w) d = front_ticket w d"
    using live_front_past [OF ok(3,4)]
    by (cases "d = c") (simp_all add: front_ticket_def class_defs)
qed

section \<open>The critical sections\<close>

text \<open>The condition under which a turn admits: it reads the fronts of both classes.\<close>

definition turn_open :: "writer_state \<Rightarrow> nat \<Rightarrow> nat \<Rightarrow> bool" where
  "turn_open w c t \<longleftrightarrow> owner w = None \<and> front_ticket w c = t \<and> (c = 0 \<or> next_ticket w 0 = front_ticket w 0)"

definition settled :: "writer_state \<Rightarrow> writer_state" where
  "settled w = advance_class 1 (advance_class 0 w)"

definition admit :: "nat \<Rightarrow> nat \<Rightarrow> nat \<Rightarrow> writer_state \<Rightarrow> writer_state" where
  "admit i c t w = (set_serving c (Suc t) (settled w))\<lparr>owner := Some i\<rparr>"

lemma settled_facts:
  assumes "tickets_ok w"
  shows "tickets_ok (settled w)" "live (settled w) c t \<longleftrightarrow> live w c t"
    "front_ticket (settled w) c = front_ticket w c"
    "c \<le> 1 \<Longrightarrow> serving (settled w) c = front_ticket w c"
    "owner (settled w) = owner w" "next_ticket (settled w) = next_ticket w"
    "turn_open (settled w) c t \<longleftrightarrow> turn_open w c t"
proof -
  have zero: "class_ok w 0" and one: "class_ok (advance_class 0 w) 1"
    using assms advance_class_facts(1) [of w 0] by (simp_all add: tickets_okD)
  note facts = advance_class_facts [OF one] advance_class_facts [OF zero]
  show "tickets_ok (settled w)" using assms by (simp add: tickets_ok_def settled_def facts del: One_nat_def)
  show "live (settled w) c t \<longleftrightarrow> live w c t" "front_ticket (settled w) c = front_ticket w c"
    "owner (settled w) = owner w" "next_ticket (settled w) = next_ticket w"
    by (simp_all add: settled_def facts del: One_nat_def)
  then show "turn_open (settled w) c t \<longleftrightarrow> turn_open w c t"
    by (simp add: turn_open_def settled_def facts del: One_nat_def)
  show "serving (settled w) c = front_ticket w c" if "c \<le> 1"
    using that by (cases "c = 0") (auto simp: settled_def facts simp del: One_nat_def dest: le_neq_implies_less)
qed

lemma admission_turn_eq:
  assumes "tickets_ok w" "c \<le> 1" "live w c t"
  shows "admission_turn i c t o' w =
     (if canceled o' then (Inl Canceled, w)
      else if expired o' then (Inl Deadline, w)
      else if turn_open w c t then (Inr True, admit i c t w)
      else (Inr False, settled w))"
proof -
  have zero: "class_ok w 0" and one: "class_ok (advance_class 0 w) 1"
    using assms(1) advance_class_facts(1) [of w 0] by (simp_all add: tickets_okD)
  have "admission_turn i c t o' w = (if canceled o' then (Inl Canceled, w)
      else if expired o' then (Inl Deadline, w)
      else if turn_open w c t then
        (case checked_add (serving (settled w) c) 1 of
           None \<Rightarrow> (Inl Overflow, settled w)
         | Some n \<Rightarrow> (Inr True, (set_serving c n (settled w))\<lparr>owner := Some i\<rparr>))
      else (Inr False, settled w))"
    using settled_facts(3-6) [OF assms(1)] assms(2)
    by (simp add: admission_turn_def admission_checks_def bindc_assoc
        bindc_Inr [where m = "advance_retired 0", OF advance_retired_eq [OF zero]]
        bindc_Inr [where m = "advance_retired 1", OF advance_retired_eq [OF one]]
        flip: settled_def del: One_nat_def) (auto simp: turn_open_def split: option.splits)
  moreover have "checked_add (serving (settled w) c) 1 = Some (Suc t)" if "turn_open w c t"
  proof -
    have "serving (settled w) c = t"
      using that settled_facts(4) [OF assms(1,2)] by (simp add: turn_open_def)
    moreover have "Suc t < u64_limit"
      using assms(3) class_okD(2) [OF tickets_okD [OF assms(1)], of c] by (simp add: live_def)
    ultimately show ?thesis by (simp add: checked_add_def)
  qed
  ultimately show ?thesis by (simp add: admit_def)
qed

lemma admit_facts:
  assumes "tickets_ok w" "c \<le> 1" "live w c t" "turn_open w c t"
  shows "tickets_ok (admit i c t w)" "live (admit i c t w) d u \<longleftrightarrow> live w d u \<and> (d, u) \<noteq> (c, t)"
    "owner (admit i c t w) = Some i"
proof -
  note st = settled_facts [OF assms(1)]
  have sv: "serving (settled w) c = t" using assms(2,4) st(4) by (simp add: turn_open_def)
  have live: "live (settled w) c t" using st(2) assms(3) by simp
  have ok: "class_ok (settled w) c" using st(1) by (rule tickets_okD)
  have "class_ok (admit i c t w) c"
    using class_okD [OF ok] sv live unfolding class_ok_def admit_def live_def
    by (auto simp: set_serving_def Suc_le_eq intro: le_neq_trans) (metis le_neq_implies_less)
  moreover have "class_ok (admit i c t w) d" if "d \<noteq> c" for d
    using tickets_okD [OF st(1), of d] that by (simp add: class_ok_def admit_def set_serving_def)
  ultimately show "tickets_ok (admit i c t w)" unfolding tickets_ok_def by metis
  have "live (admit i c t w) d u \<longleftrightarrow> live (settled w) d u \<and> (d, u) \<noteq> (c, t)"
    using sv by (auto simp: live_def admit_def set_serving_def)
  then show "live (admit i c t w) d u \<longleftrightarrow> live w d u \<and> (d, u) \<noteq> (c, t)" by (simp add: st(2))
  show "owner (admit i c t w) = Some i" by (simp add: admit_def)
qed

text \<open>A ticket given up: the set of live tickets loses it, and nothing overflows.\<close>

definition give_up :: "nat \<Rightarrow> nat \<Rightarrow> writer_state \<Rightarrow> writer_state" where
  "give_up c t w = advance_class c (set_retired c (joined t (retired w c)) w)"

lemma set_retired_again [simp]: "set_retired c m (set_retired c n w) = set_retired c m w"
  by (simp add: set_retired_def)

lemma retired_set_retired [simp]: "retired (set_retired c m w) d = (if d = c then m else retired w d)"
  by (simp add: set_retired_def)

lemma set_retired_ok:
  assumes "class_ok w c" "live w c t"
  shows "class_ok (set_retired c (joined t (retired w c)) w) c"
  using joined_ok [OF class_okD(3) [OF assms(1)], of t] class_okD [OF assms(1)] assms(2)
  unfolding class_ok_def live_def by (auto simp: set_retired_def)

lemma retire_eq:
  assumes "class_ok w c" "live w c t"
  shows "retire c t w = (Inr (), give_up c t w)"
proof -
  let ?m = "retired w c"
  have t: "t \<notin> covered ?m" "Suc t < u64_limit"
    using assms(2) class_okD(2) [OF assms(1)] by (auto simp: live_def)
  have below: "\<not> (case range_back t ?m of Some (_, b) \<Rightarrow> t \<le> b | None \<Rightarrow> False)"
  proof (cases rule: range_back_cases [of t ?m])
    case (some a b)
    then have "map_of ?m a = Some b"
      using class_okD(3) [OF assms(1)] ranges_ok_def hm_mem_iff by metis
    with some(1,3) t(1) show ?thesis unfolding covered_def by auto
  qed simp
  obtain start n where sn: "join_below t ?m = (start, n)" by (cases "join_below t ?m")
  have "retire c t w = advance_retired c (set_retired c (joined t ?m) w)"
  proof (cases "range_back t ?m")
    case None
    with sn have "start = t" "n = ?m" by (auto simp: join_below_def)
    with None below sn t(2) show ?thesis
      by (auto simp: retire_def drop_range_def checked_add_def joined_def join_above_def bindc_assoc split: option.splits)
  next
    case (Some ab)
    then show ?thesis using below sn t(2)
      by (cases ab) (auto simp: retire_def drop_range_def checked_add_def joined_def join_below_def join_above_def
          bindc_assoc split: option.splits if_splits)
  qed
  with advance_retired_eq [OF set_retired_ok [OF assms]] show ?thesis by (simp add: give_up_def)
qed

lemma give_up_facts:
  assumes "tickets_ok w" "live w c t"
  shows "tickets_ok (give_up c t w)" "live (give_up c t w) d u \<longleftrightarrow> live w d u \<and> (d, u) \<noteq> (c, t)"
    "owner (give_up c t w) = owner w"
proof -
  let ?w = "set_retired c (joined t (retired w c)) w"
  have ok: "class_ok ?w c" by (rule set_retired_ok [OF tickets_okD [OF assms(1)] assms(2)])
  have other: "class_ok ?w d" for d
    using ok tickets_okD [OF assms(1), of d] by (cases "d = c") (simp_all add: class_ok_def set_retired_def)
  note facts = advance_class_facts [OF ok]
  show "tickets_ok (give_up c t w)" using other by (simp add: tickets_ok_def give_up_def facts)
  have "live ?w d u \<longleftrightarrow> live w d u \<and> (d, u) \<noteq> (c, t)"
    using joined_ok(2) [OF class_okD(3) [OF tickets_okD [OF assms(1)]], of t c] assms(2)
    by (auto simp: live_def set_retired_def)
  then show "live (give_up c t w) d u \<longleftrightarrow> live w d u \<and> (d, u) \<noteq> (c, t)" by (simp add: give_up_def facts)
  show "owner (give_up c t w) = owner w" using facts(5) by (simp add: give_up_def set_retired_def)
qed

end
