(* ===== verification/Writer_Properties.thy ===== *)
theory Writer_Properties
  imports Writer_Correct
begin

text \<open>
  The writer gate with its threads: the invariant over every interleaving, and the
  properties of admission - exclusion, order, what a ticket that was given up leaves behind,
  and that no turn and no wakeup is lost.
\<close>

section \<open>The invariant\<close>

definition holds :: "gate \<Rightarrow> nat \<Rightarrow> nat \<Rightarrow> nat \<Rightarrow> bool" where
  "holds g i c t \<longleftrightarrow> threads g i = Waiting c t \<or> threads g i = Leaving c t"

definition inside :: "gate \<Rightarrow> nat \<Rightarrow> bool" where
  "inside g i \<longleftrightarrow> threads g i = Admitted \<or> (\<exists>l. threads g i = Holding l)"

text \<open>Who holds the external lease after a history of takings and releases, if it was serial.\<close>

primrec leased :: "(nat \<times> bool) list \<Rightarrow> nat option \<Rightarrow> nat option option" where
  "leased [] h = Some h"
| "leased (e # es) h =
     (case (h, e) of
        (None, (i, True)) \<Rightarrow> leased es (Some i)
      | (Some j, (i, False)) \<Rightarrow> if i = j then leased es None else None
      | _ \<Rightarrow> None)"

definition lease_of :: "gate \<Rightarrow> nat option" where
  "lease_of g =
     (case owner (writers g) of
        Some i \<Rightarrow> if threads g i = Holding True then Some i else None
      | None \<Rightarrow> None)"

definition queue_ok :: "gate \<Rightarrow> bool" where
  "queue_ok g \<longleftrightarrow> tickets_ok (writers g)
     \<and> (\<forall>c t. live (writers g) c t \<longleftrightarrow> (\<exists>i. holds g i c t))
     \<and> (\<forall>i j c t. holds g i c t \<longrightarrow> holds g j c t \<longrightarrow> i = j)
     \<and> (\<forall>i c t. holds g i c t \<longrightarrow> c \<le> 1)"

definition permit_ok :: "gate \<Rightarrow> bool" where
  "permit_ok g \<longleftrightarrow> (\<forall>i. owner (writers g) = Some i \<longleftrightarrow> inside g i) \<and> leased (leases g) None = Some (lease_of g)"

definition wake_ok :: "gate \<Rightarrow> bool" where
  "wake_ok g \<longleftrightarrow> (\<forall>i c t. threads g i = Waiting c t \<and> turn_open (writers g) c t \<longrightarrow>
     awake g i \<or> (\<exists>j. threads g j = Notifying))"

definition gate_inv :: "gate \<Rightarrow> bool" where
  "gate_inv g \<longleftrightarrow> queue_ok g \<and> permit_ok g \<and> wake_ok g"

lemma leased_snoc:
  "leased (es @ [e]) h = Option.bind (leased es h) (\<lambda>h'. leased [e] h')"
  by (induction es arbitrary: h) (auto split: option.splits prod.splits bool.splits)

lemma queue_okD:
  assumes "queue_ok g"
  shows "tickets_ok (writers g)" "live (writers g) c t \<longleftrightarrow> (\<exists>i. holds g i c t)"
    "holds g i c t \<Longrightarrow> holds g j c t \<Longrightarrow> i = j" "holds g i c t \<Longrightarrow> c \<le> 1" "holds g i c t \<Longrightarrow> live (writers g) c t"
  using assms unfolding queue_ok_def by blast+

lemma queue_okI:
  assumes "tickets_ok (writers g)" "\<And>c t. live (writers g) c t \<longleftrightarrow> (\<exists>i. holds g i c t)"
    and "\<And>i j c t. holds g i c t \<Longrightarrow> holds g j c t \<Longrightarrow> i = j" "\<And>i c t. holds g i c t \<Longrightarrow> c \<le> 1"
  shows "queue_ok g"
  using assms unfolding queue_ok_def by blast

text \<open>A thread changes its phase but holds the same ticket, and the tickets live are the same.\<close>

lemma queue_ok_same:
  assumes "queue_ok g" "\<And>j c t. holds g' j c t \<longleftrightarrow> holds g j c t"
    and "tickets_ok (writers g')" "\<And>c t. live (writers g') c t \<longleftrightarrow> live (writers g) c t"
  shows "queue_ok g'"
  using assms unfolding queue_ok_def by simp

text \<open>A thread gives up the ticket it held.\<close>

lemma queue_ok_leave:
  assumes "queue_ok g" "holds g i c t" "tickets_ok (writers g')"
    and "\<And>j d u. holds g' j d u \<longleftrightarrow> holds g j d u \<and> j \<noteq> i"
    and "\<And>d u. live (writers g') d u \<longleftrightarrow> live (writers g) d u \<and> (d, u) \<noteq> (c, t)"
  shows "queue_ok g'"
proof (rule queue_okI)
  note ok = queue_okD [OF assms(1)]
  have ticket: "holds g i d u \<Longrightarrow> (d, u) = (c, t)" for d u
    using assms(2) by (auto simp: holds_def)
  show "live (writers g') d u \<longleftrightarrow> (\<exists>j. holds g' j d u)" for d u
    unfolding assms(4,5) using ok(2) [of d u] ok(3) assms(2) ticket by blast
  show "tickets_ok (writers g')" by fact
  show "j = k" if "holds g' j d u" "holds g' k d u" for j k d u
    using that ok(3) assms(4) by blast
  show "d \<le> 1" if "holds g' j d u" for j d u
    using that ok(4) assms(4) by blast
qed

text \<open>The permit and the wakeups, where neither the owner nor who waits changes.\<close>

lemma permit_ok_same:
  assumes "permit_ok g" "owner (writers g') = owner (writers g)" "leases g' = leases g"
    and "\<And>j l. threads g' j = Holding l \<longleftrightarrow> threads g j = Holding l" "\<And>j. threads g' j = Admitted \<longleftrightarrow> threads g j = Admitted"
  shows "permit_ok g'"
proof -
  have "inside g' j \<longleftrightarrow> inside g j" for j unfolding inside_def by (simp add: assms(4,5))
  moreover have "lease_of g' = lease_of g" unfolding lease_of_def by (simp add: assms(2,4) cong: option.case_cong)
  ultimately show ?thesis using assms(1) unfolding permit_ok_def by (simp add: assms(2,3))
qed

lemma wake_ok_same:
  assumes "wake_ok g" "\<And>j. threads g j = Notifying \<Longrightarrow> threads g' j = Notifying"
    and "\<And>j c t. threads g' j = Waiting c t \<Longrightarrow> turn_open (writers g') c t \<Longrightarrow>
      threads g j = Waiting c t \<and> turn_open (writers g) c t \<and> (awake g j \<longrightarrow> awake g' j)"
  shows "wake_ok g'"
  using assms unfolding wake_ok_def by blast

lemmas phase_simps = holds_def inside_def put_def fun_upd_apply

section \<open>Steps\<close>

lemma resume_inv:
  assumes inv: "gate_inv g" and w: "threads g i = Waiting c t"
  shows "gate_inv (resume i o' g)"
proof -
  have q: "queue_ok g" and p: "permit_ok g" and k: "wake_ok g" using inv by (simp_all add: gate_inv_def)
  note ok = queue_okD [OF q]
  have held: "holds g i c t" using w by (simp add: holds_def)
  have c: "c \<le> 1" and lv: "live (writers g) c t" using ok(4,5) held by auto
  note turn = admission_turn_eq [OF ok(1) c lv, of i o']
  note st = settled_facts [OF ok(1)]
  have out: "\<not> inside g i" using w by (simp add: inside_def)
  consider (err) e where "resume i o' g = settle i c t (Inl e, writers g) g"
    | (wait) "resume i o' g = settle i c t (Inr False, settled (writers g)) g" "\<not> turn_open (writers g) c t"
    | (go) "resume i o' g = settle i c t (Inr True, admit i c t (writers g)) g" "turn_open (writers g) c t"
    using turn w by (auto simp: resume_def split: if_splits)
  then show ?thesis
  proof cases
    case err
    have "queue_ok (resume i o' g)"
      by (rule queue_ok_same [OF q]) (use w ok(1) in \<open>auto simp: err settle_def phase_simps\<close>)
    moreover have "permit_ok (resume i o' g)"
      by (rule permit_ok_same [OF p]) (use w in \<open>auto simp: err settle_def put_def\<close>)
    moreover have "wake_ok (resume i o' g)"
      by (rule wake_ok_same [OF k]) (use w in \<open>auto simp: err settle_def put_def split: if_splits\<close>)
    ultimately show ?thesis by (simp add: gate_inv_def)
  next
    case wait
    have "queue_ok (resume i o' g)"
      by (rule queue_ok_same [OF q]) (use w st in \<open>auto simp: wait settle_def phase_simps\<close>)
    moreover have "permit_ok (resume i o' g)"
      by (rule permit_ok_same [OF p]) (use w st(5) in \<open>auto simp: wait(1) settle_def put_def\<close>)
    moreover have "wake_ok (resume i o' g)"
      by (rule wake_ok_same [OF k])
        (use w st(7) wait(2) in \<open>auto simp: wait(1) settle_def put_def split: if_splits\<close>)
    ultimately show ?thesis by (simp add: gate_inv_def)
  next
    case go
    note ad = admit_facts [OF ok(1) c lv go(2), where i = i]
    have none: "owner (writers g) = None" using go(2) by (simp add: turn_open_def)
    have "queue_ok (resume i o' g)"
      by (rule queue_ok_leave [OF q held]) (use w ad in \<open>auto simp: go(1) settle_def phase_simps\<close>)
    moreover have "permit_ok (resume i o' g)"
      using p none ad(3) unfolding permit_ok_def
      by (auto simp: go(1) settle_def phase_simps lease_of_def split: option.splits)
    moreover have "wake_ok (resume i o' g)"
      using ad(3) unfolding wake_ok_def by (auto simp: go(1) settle_def put_def turn_open_def)
    ultimately show ?thesis by (simp add: gate_inv_def)
  qed
qed

text \<open>Taking a ticket: refused without a change, or a new live ticket held by the thread.\<close>

definition with_ticket :: "nat \<Rightarrow> writer_state \<Rightarrow> writer_state" where
  "with_ticket c w = w\<lparr>next_ticket := (next_ticket w)(c := Suc (next_ticket w c))\<rparr>"

lemma with_ticket_facts:
  assumes "tickets_ok w" "Suc (next_ticket w c) < u64_limit"
  shows "tickets_ok (with_ticket c w)"
    "live (with_ticket c w) d u \<longleftrightarrow> live w d u \<or> (d, u) = (c, next_ticket w c)"
proof -
  have ok: "class_ok w d" for d using assms(1) by (rule tickets_okD)
  have "class_ok (with_ticket c w) d" for d
    using ok [of d] assms(2) unfolding class_ok_def with_ticket_def by auto
  then show "tickets_ok (with_ticket c w)" by (simp add: tickets_ok_def)
  show "live (with_ticket c w) d u \<longleftrightarrow> live w d u \<or> (d, u) = (c, next_ticket w c)"
    using class_okD(1) [OF ok, of c] class_okD(5) [OF ok, of "next_ticket w c" c]
    by (auto simp: live_def with_ticket_def less_Suc_eq)
qed

definition queued :: "nat \<Rightarrow> nat \<Rightarrow> gate \<Rightarrow> gate" where
  "queued i c g = put i (Waiting c (next_ticket (writers g) c))
     (g\<lparr>writers := with_ticket c (writers g), awake := (\<lambda>_. True)\<rparr>)"

lemma take_ticket_eq:
  "take_ticket i c o' w =
     (if owner w = Some i then (Inl Recursive, w)
      else if canceled o' then (Inl Canceled, w)
      else if expired o' then (Inl Deadline, w)
      else if u64_limit \<le> Suc (next_ticket w c) then (Inl Exhausted, w)
      else (Inr (next_ticket w c), with_ticket c w))"
  by (simp add: take_ticket_def admission_checks_def bindc_assoc checked_add_def with_ticket_def)

lemma enter_checked_eq:
  "snd (enter_checked i p o1 o2 g) = g
   \<or> owner (writers g) \<noteq> Some i \<and> Suc (next_ticket (writers g) (class_of p)) < u64_limit
     \<and> snd (enter_checked i p o1 o2 g) = resume i o2 (queued i (class_of p) g)"
proof (cases "fst (take_ticket i (class_of p) o1 (writers g))")
  case (Inl e)
  then show ?thesis by (auto simp: enter_checked_def take_ticket_eq split: if_splits)
next
  case (Inr t)
  then have "take_ticket i (class_of p) o1 (writers g)
      = (Inr (next_ticket (writers g) (class_of p)), with_ticket (class_of p) (writers g))"
    "owner (writers g) \<noteq> Some i" "Suc (next_ticket (writers g) (class_of p)) < u64_limit"
    by (auto simp: take_ticket_eq split: if_splits)
  then show ?thesis
    by (simp add: enter_checked_def resume_def queued_def settle_def put_def)
qed

lemma queued_inv:
  assumes inv: "gate_inv g" and out: "threads g i = Outside" and c: "c \<le> 1"
    and room: "Suc (next_ticket (writers g) c) < u64_limit"
  shows "gate_inv (queued i c g)"
proof -
  have q: "queue_ok g" and p: "permit_ok g" using inv by (simp_all add: gate_inv_def)
  note ok = queue_okD [OF q]
  note wt = with_ticket_facts [OF ok(1) room]
  let ?t = "next_ticket (writers g) c"
  have fresh: "\<not> holds g j c ?t" for j using ok(5) [of j c ?t] by (auto simp: live_def)
  have h: "holds (queued i c g) j d u \<longleftrightarrow> holds g j d u \<or> (j, d, u) = (i, c, ?t)" for j d u
    using out by (auto simp: queued_def phase_simps)
  have w: "writers (queued i c g) = with_ticket c (writers g)" by (simp add: queued_def put_def)
  have "queue_ok (queued i c g)"
  proof (rule queue_okI)
    show "tickets_ok (writers (queued i c g))" using wt(1) w by simp
    show "live (writers (queued i c g)) d u \<longleftrightarrow> (\<exists>j. holds (queued i c g) j d u)" for d u
      unfolding w wt(2) h using ok(2) by auto
    show "j = k" if "holds (queued i c g) j d u" "holds (queued i c g) k d u" for j k d u
      using that fresh ok(3) unfolding h by blast
    show "d \<le> 1" if "holds (queued i c g) j d u" for j d u
      using that ok(4) c unfolding h by blast
  qed
  moreover have "permit_ok (queued i c g)"
    by (rule permit_ok_same [OF p]) (use out in \<open>auto simp: queued_def with_ticket_def put_def\<close>)
  moreover have "wake_ok (queued i c g)" by (simp add: wake_ok_def queued_def put_def)
  ultimately show ?thesis by (simp add: gate_inv_def)
qed

lemma enter_inv:
  assumes inv: "gate_inv g" and may: "may_enter (threads g i)"
  shows "gate_inv (snd (enter_checked i p o1 o2 g))"
  using enter_checked_eq [of i p o1 o2 g]
proof
  assume r: "owner (writers g) \<noteq> Some i \<and> Suc (next_ticket (writers g) (class_of p)) < u64_limit
     \<and> snd (enter_checked i p o1 o2 g) = resume i o2 (queued i (class_of p) g)"
  then have "\<not> inside g i" using inv by (auto simp: gate_inv_def permit_ok_def)
  then have out: "threads g i = Outside" using may by (auto simp: may_enter_def inside_def)
  have "gate_inv (queued i (class_of p) g)"
    using r by (intro queued_inv [OF inv out]) (auto simp: class_of_def)
  then have "gate_inv (resume i o2 (queued i (class_of p) g))"
    by (rule resume_inv) (simp add: queued_def put_def)
  with r show ?thesis by simp
qed (use inv in simp)

lemma drop_ticket_inv:
  assumes inv: "gate_inv g"
  shows "gate_inv (drop_ticket i g)"
proof (cases "\<exists>c t. threads g i = Leaving c t")
  case True
  then obtain c t where l: "threads g i = Leaving c t" by blast
  have q: "queue_ok g" and p: "permit_ok g" using inv by (simp_all add: gate_inv_def)
  note ok = queue_okD [OF q]
  have held: "holds g i c t" using l by (simp add: holds_def)
  note gu = give_up_facts [OF ok(1) ok(5) [OF held]]
  have eq: "drop_ticket i g = put i Notifying (g\<lparr>writers := give_up c t (writers g)\<rparr>)"
    using l retire_eq [OF tickets_okD [OF ok(1)] ok(5) [OF held]] by (simp add: drop_ticket_def)
  have "queue_ok (drop_ticket i g)"
    by (rule queue_ok_leave [OF q held]) (use l gu in \<open>auto simp: eq phase_simps\<close>)
  moreover have "permit_ok (drop_ticket i g)"
    by (rule permit_ok_same [OF p]) (use l gu(3) in \<open>auto simp: eq put_def\<close>)
  moreover have "wake_ok (drop_ticket i g)" by (auto simp: wake_ok_def eq put_def)
  ultimately show ?thesis by (simp add: gate_inv_def)
next
  case False
  then show ?thesis using inv by (auto simp: drop_ticket_def split: phase.splits)
qed

text \<open>The steps of a thread that holds no ticket leave the queue as it is.\<close>

lemma inside_steps_inv:
  assumes inv: "gate_inv g"
  shows "gate_inv (acquire_external i g)" "gate_inv (release_lease i g)" "gate_inv (drop_permit i g)"
    "gate_inv (notify_all i g)" "gate_inv (g\<lparr>awake := (\<lambda>_. True)\<rparr>)"
proof -
  have q: "queue_ok g" and p: "permit_ok g" and k: "wake_ok g" using inv by (simp_all add: gate_inv_def)
  note ok = queue_okD [OF q]
  have own: "inside g i \<Longrightarrow> owner (writers g) = Some i" for i using p by (simp add: permit_ok_def)
  have log: "leased (leases g) None = Some (lease_of g)" using p by (simp add: permit_ok_def)
  show "gate_inv (acquire_external i g)"
  proof (cases "threads g i = Admitted")
    case True
    then have o: "owner (writers g) = Some i" by (intro own) (simp add: inside_def)
    have "queue_ok (acquire_external i g)"
      by (rule queue_ok_same [OF q]) (use True ok(1) in \<open>auto simp: acquire_external_def phase_simps\<close>)
    moreover have "permit_ok (acquire_external i g)"
      using p True o log unfolding permit_ok_def
      by (auto simp: acquire_external_def phase_simps lease_of_def leased_snoc)
    moreover have "wake_ok (acquire_external i g)"
      by (rule wake_ok_same [OF k])
        (use True in \<open>auto simp: acquire_external_def put_def split: if_splits\<close>)
    ultimately show ?thesis by (simp add: gate_inv_def)
  qed (use inv in \<open>simp add: acquire_external_def\<close>)
  show "gate_inv (release_lease i g)"
  proof (cases "threads g i = Holding True")
    case True
    then have o: "owner (writers g) = Some i" using own [of i] unfolding inside_def by blast
    have "queue_ok (release_lease i g)"
      by (rule queue_ok_same [OF q]) (use True ok(1) in \<open>auto simp: release_lease_def phase_simps\<close>)
    moreover have "permit_ok (release_lease i g)"
    proof -
      have "inside (release_lease i g) j \<longleftrightarrow> inside g j" for j
        using True by (auto simp: release_lease_def phase_simps)
      moreover have "leased (leases (release_lease i g)) None = Some (lease_of (release_lease i g))"
        using True o log by (simp add: release_lease_def put_def lease_of_def leased_snoc)
      moreover have "owner (writers (release_lease i g)) = owner (writers g)"
        by (simp add: release_lease_def put_def)
      ultimately show ?thesis using p unfolding permit_ok_def by simp
    qed
    moreover have "wake_ok (release_lease i g)"
      by (rule wake_ok_same [OF k])
        (use True in \<open>auto simp: release_lease_def put_def split: if_splits\<close>)
    ultimately show ?thesis by (simp add: gate_inv_def)
  qed (use inv in \<open>simp add: release_lease_def\<close>)
  show "gate_inv (drop_permit i g)"
  proof (cases "threads g i = Holding False \<or> threads g i = Admitted \<and> external g")
    case True
    then have o: "owner (writers g) = Some i" by (intro own) (auto simp: inside_def)
    have eq: "drop_permit i g = put i Notifying (g\<lparr>writers := (writers g)\<lparr>owner := None\<rparr>\<rparr>)"
      using True by (simp add: drop_permit_def release_owner_def)
    have "queue_ok (drop_permit i g)"
      by (rule queue_ok_same [OF q])
        (use True ok(1) in \<open>auto simp: eq phase_simps live_def tickets_ok_def class_ok_def\<close>)
    moreover have "permit_ok (drop_permit i g)"
      using p True o log unfolding permit_ok_def by (auto simp: eq phase_simps lease_of_def)
    moreover have "wake_ok (drop_permit i g)" by (auto simp: wake_ok_def eq put_def)
    ultimately show ?thesis by (simp add: gate_inv_def)
  qed (use inv in \<open>auto simp: drop_permit_def\<close>)
  show "gate_inv (notify_all i g)"
  proof (cases "threads g i = Notifying")
    case True
    have "queue_ok (notify_all i g)"
      by (rule queue_ok_same [OF q]) (use True ok(1) in \<open>auto simp: notify_all_def phase_simps\<close>)
    moreover have "permit_ok (notify_all i g)"
      by (rule permit_ok_same [OF p]) (use True in \<open>auto simp: notify_all_def put_def\<close>)
    moreover have "wake_ok (notify_all i g)" using True by (simp add: wake_ok_def notify_all_def put_def)
    ultimately show ?thesis by (simp add: gate_inv_def)
  qed (use inv in \<open>simp add: notify_all_def\<close>)
  show "gate_inv (g\<lparr>awake := (\<lambda>_. True)\<rparr>)"
  proof -
    have "queue_ok (g\<lparr>awake := (\<lambda>_. True)\<rparr>)"
      by (rule queue_ok_same [OF q]) (use ok(1) in \<open>auto simp: holds_def\<close>)
    moreover have "permit_ok (g\<lparr>awake := (\<lambda>_. True)\<rparr>)"
      by (rule permit_ok_same [OF p]) auto
    ultimately show ?thesis by (simp add: gate_inv_def wake_ok_def)
  qed
qed

lemma gate_init_inv: "gate_init g \<Longrightarrow> gate_inv g"
  unfolding gate_inv_def queue_ok_def permit_ok_def wake_ok_def gate_init_def
  by (simp add: tickets_ok_def class_ok_def writers_default_def live_def holds_def inside_def lease_of_def u64_limit_def)

lemma gate_step_inv:
  assumes inv: "gate_inv g" and step: "gate_step g h"
  shows "gate_inv h"
  using step
proof cases
  case (step_resume i o')
  then show ?thesis
    using inv resume_inv [OF inv] by (cases "threads g i") (auto simp: resume_def)
qed (use inv enter_inv drop_ticket_inv inside_steps_inv in auto)

interpretation gate: inductive_invariant gate_init gate_step gate_inv
  by unfold_locales (rule gate_init_inv gate_step_inv; assumption)+

text \<open>
  Every range but one at the ticket served next follows a ticket that a thread holds, so the
  ranges are no more than the threads that hold one, and one.
\<close>

lemma holds_one: "holds g i c t \<Longrightarrow> holds g i d u \<Longrightarrow> c = d \<and> t = u"
  by (auto simp: holds_def)

lemma holders_finite:
  assumes "queue_ok g"
  shows "finite {i. \<exists>t. holds g i c t}"
proof -
  note ok = queue_okD [OF assms]
  have "{i. \<exists>t. holds g i c t} \<subseteq> (\<lambda>t. THE i. holds g i c t) ` {..<next_ticket (writers g) c}"
  proof
    fix i assume "i \<in> {i. \<exists>t. holds g i c t}"
    then obtain t where t: "holds g i c t" by blast
    then have "(THE i. holds g i c t) = i" using ok(3) by blast
    moreover have "t < next_ticket (writers g) c" using ok(5) [OF t] by (simp add: live_def)
    ultimately show "i \<in> (\<lambda>t. THE i. holds g i c t) ` {..<next_ticket (writers g) c}" by (intro image_eqI [of _ _ t]) auto
  qed
  then show ?thesis by (rule finite_subset) simp
qed

lemma ranges_bound:
  assumes "queue_ok g"
  shows "length (retired (writers g) c) \<le> card {i. \<exists>t. holds g i c t} + 1"
proof -
  note ok = queue_okD [OF assms]
  note cls = class_okD [OF tickets_okD [OF ok(1), of c]]
  let ?m = "retired (writers g) c" and ?s = "serving (writers g) c"
  have before: "\<exists>i. holds g i c (k - 1)" if k: "k \<in> hm_keys ?m - {?s}" for k
  proof -
    from k have "k \<in> hm_keys ?m" by blast
    then obtain e where e: "map_of ?m k = Some e" unfolding hm_keys_iff ..
    have "k \<in> covered ?m" using covered_start [OF cls(3) e] by blast
    then have less: "?s < k" "k < next_ticket (writers g) c" using cls(4,5) k by (auto simp: le_neq_implies_less)
    have "k - 1 \<notin> covered ?m"
    proof
      assume "k - 1 \<in> covered ?m"
      then obtain a b where ab: "map_of ?m a = Some b" "a \<le> k - 1" "k - 1 \<le> b" by (rule coveredE)
      moreover have "a < k" using ab(2) less by linarith
      ultimately show False using ranges_okD(4) [OF cls(3) e ab(1)] less by linarith
    qed
    moreover have "?s \<le> k - 1" "k - 1 < next_ticket (writers g) c" using less by linarith+
    ultimately have "live (writers g) c (k - 1)" by (simp add: live_def)
    with ok(2) show ?thesis by blast
  qed
  have "inj_on (\<lambda>k. SOME i. holds g i c (k - 1)) (hm_keys ?m - {?s})"
  proof (rule inj_onI)
    fix k l assume k: "k \<in> hm_keys ?m - {?s}" and l: "l \<in> hm_keys ?m - {?s}"
      and eq: "(SOME i. holds g i c (k - 1)) = (SOME i. holds g i c (l - 1))"
    have "k - 1 = l - 1"
      using holds_one [OF someI_ex [OF before [OF k]]] someI_ex [OF before [OF l]] unfolding eq by blast
    moreover have "0 < n" if "n \<in> hm_keys ?m - {?s}" for n
    proof -
      from that have "n \<in> hm_keys ?m" by blast
      then obtain e where "map_of ?m n = Some e" unfolding hm_keys_iff ..
      with covered_start [OF cls(3)] cls(4) [of n] that show ?thesis by auto
    qed
    then have "0 < k" "0 < l" using k l by blast+
    ultimately show "k = l" by simp
  qed
  moreover have "(\<lambda>k. SOME i. holds g i c (k - 1)) ` (hm_keys ?m - {?s}) \<subseteq> {i. \<exists>t. holds g i c t}"
    using someI_ex [OF before] by blast
  ultimately have "card (hm_keys ?m - {?s}) \<le> card {i. \<exists>t. holds g i c t}"
    by (rule card_inj_on_le) (rule holders_finite [OF assms])
  moreover have "length ?m = card (hm_keys ?m)"
    using cls(3) by (metis distinct_card hm_keys_def hm_wf_def length_map list.set_map ranges_ok_def)
  moreover have "card (hm_keys ?m) \<le> card (hm_keys ?m - {?s}) + 1"
    unfolding card_Diff_singleton_if by (simp split: if_splits) linarith
  ultimately show ?thesis by simp
qed

section \<open>Properties\<close>

text \<open>A run to evaluate: thread 1 has the permit, 2 waits in the background, 3 and 4 in front of it.\<close>

definition ex_calm :: observation where
  "ex_calm = \<lparr>canceled = False, expired = False\<rparr>"

definition ex_gate :: gate where
  "ex_gate = \<lparr>writers = writers_default, external = False, threads = (\<lambda>_. Outside), awake = (\<lambda>_. False), leases = []\<rparr>"

definition ex_enter :: "nat \<Rightarrow> priority \<Rightarrow> gate \<Rightarrow> gate" where
  "ex_enter i p g = snd (enter_checked i p ex_calm ex_calm g)"

definition ex_held :: gate where
  "ex_held = acquire_external 1 (ex_enter 1 Background ex_gate)"

definition ex_queue :: gate where
  "ex_queue = ex_enter 4 Foreground (ex_enter 3 Foreground (ex_enter 2 Background ex_held))"

definition ex_given_up :: gate where
  "ex_given_up = notify_all 4 (drop_ticket 4 (resume 4 \<lparr>canceled = True, expired = False\<rparr> ex_queue))"

definition ex_free :: gate where
  "ex_free = notify_all 1 (drop_permit 1 ex_given_up)"

lemmas gate_eval = ex_calm_def ex_gate_def ex_enter_def ex_held_def ex_queue_def
  enter_checked_def take_ticket_def admission_turn_def admission_checks_def advance_retired_def advance_ranges.simps
  resume_def settle_def put_def acquire_external_def release_lease_def drop_permit_def notify_all_def drop_ticket_def
  retire_def drop_range_def range_back_def release_owner_def set_serving_def set_retired_def class_of_def
  writers_default_def bindc_def checked_add_def u64_limit_def hm_insert_def hm_remove_def

lemma ex_queue_phases:
  "threads ex_queue 1 = Holding False" "threads ex_queue 2 = Waiting 1 1"
  "threads ex_queue 3 = Waiting 0 0" "threads ex_queue 4 = Waiting 0 1"
  by (simp_all add: gate_eval)

lemma ex_free_phases:
  "threads ex_free i = (if i = 2 then Waiting 1 1 else if i = 3 then Waiting 0 0 else Outside)"
  by (simp add: ex_free_def ex_given_up_def gate_eval)

lemma gate_ex_reachable:
  "reachable gate_init gate_step ex_queue" "reachable gate_init gate_step ex_given_up"
  "reachable gate_init gate_step ex_free"
proof -
  have enter: "reachable gate_init gate_step (ex_enter i p g)"
    if "reachable gate_init gate_step g" "may_enter (threads g i)" for i p g
    unfolding ex_enter_def using that by (blast intro: reachable.move step_enter)
  have "gate_init ex_gate" by (simp add: gate_init_def ex_gate_def)
  then have "reachable gate_init gate_step ex_gate" by (rule reachable.start)
  then have "reachable gate_init gate_step (ex_enter 1 Background ex_gate)"
    by (rule enter) (simp add: may_enter_def ex_gate_def)
  then have one: "reachable gate_init gate_step ex_held"
    unfolding ex_held_def by (rule reachable.move) (rule step_acquire)
  show queue: "reachable gate_init gate_step ex_queue"
    unfolding ex_queue_def by (intro enter one) (simp_all add: may_enter_def gate_eval)
  let ?c = "resume 4 \<lparr>canceled = True, expired = False\<rparr> ex_queue"
  from queue have "reachable gate_init gate_step ?c" by (rule reachable.move) (rule step_resume)
  then have "reachable gate_init gate_step (drop_ticket 4 ?c)" by (rule reachable.move) (rule step_drop_ticket)
  then show given: "reachable gate_init gate_step ex_given_up"
    unfolding ex_given_up_def by (rule reachable.move) (rule step_notify)
  then have "reachable gate_init gate_step (drop_permit 1 ex_given_up)" by (rule reachable.move) (rule step_drop_permit)
  then show "reachable gate_init gate_step ex_free"
    unfolding ex_free_def by (rule reachable.move) (rule step_notify)
qed

text \<open>
  C5: whatever the interleaving of requests, cancellations, wakeups and releases, at most one
  thread is past the gate and it is the recorded owner; external leases are taken and
  released one at a time, and the one outstanding is the owner's; and no turn and no
  retirement of a ticket overflows.
\<close>

theorem writer_exclusion:
  assumes "reachable gate_init gate_step g"
  shows "(\<forall>i j. inside g i \<and> inside g j \<longrightarrow> i = j) \<and> (\<forall>i. inside g i \<longleftrightarrow> owner (writers g) = Some i)
    \<and> leased (leases g) None = Some (lease_of g)
    \<and> (\<forall>i c t o'. holds g i c t \<longrightarrow> fst (admission_turn i c t o' (writers g)) \<noteq> Inl Overflow
         \<and> fst (retire c t (writers g)) \<noteq> Inl Overflow)"
proof -
  have inv: "queue_ok g" "permit_ok g" using gate.reachable_inv [OF assms] by (simp_all add: gate_inv_def)
  note ok = queue_okD [OF inv(1)]
  have "fst (admission_turn i c t o' (writers g)) \<noteq> Inl Overflow" if "holds g i c t" for i c t o'
    using admission_turn_eq [OF ok(1) ok(4,5) [OF that], of i o'] by auto
  moreover have "fst (retire c t (writers g)) \<noteq> Inl Overflow" if "holds g i c t" for i c t
    using retire_eq [OF tickets_okD [OF ok(1)] ok(5) [OF that]] by simp
  moreover have "inside g i \<longleftrightarrow> owner (writers g) = Some i" for i using inv(2) by (simp add: permit_ok_def)
  ultimately show ?thesis using inv(2) by (auto simp: permit_ok_def)
qed

theorem writer_exclusion_witness: "owner (writers ex_queue) = Some 1 \<and> \<not> inside ex_queue 4"
  using writer_exclusion [OF gate_ex_reachable(1)] ex_queue_phases unfolding inside_def by fastforce

lemma other_threads:
  "i \<noteq> k \<Longrightarrow> threads (resume k o' g) i = threads g i"
  "i \<noteq> k \<Longrightarrow> threads (snd (enter_checked k p o1 o2 g)) i = threads g i"
  by (auto simp: resume_def enter_checked_def settle_def put_def split: phase.splits prod.splits sum.splits)

text \<open>What lets a ticket through: the state its turn found.\<close>

definition turn_earned :: "gate \<Rightarrow> nat \<Rightarrow> nat \<Rightarrow> nat \<Rightarrow> bool" where
  "turn_earned g i c t \<longleftrightarrow> (\<forall>j. \<not> inside g j)
     \<and> (\<forall>j u. holds g j c u \<and> j \<noteq> i \<longrightarrow> t < u \<and> u < next_ticket (writers g) c)
     \<and> (c = 0 \<or> (\<forall>j u. \<not> holds g j 0 u))"

lemma resume_earned:
  assumes "gate_inv g" "threads g i = Waiting c t" "threads (resume i o' g) i = Admitted"
  shows "turn_earned g i c t"
proof -
  have inv: "queue_ok g" "permit_ok g" using assms(1) by (simp_all add: gate_inv_def)
  note ok = queue_okD [OF inv(1)]
  have held: "holds g i c t" using assms(2) by (simp add: holds_def)
  have opn: "turn_open (writers g) c t"
    using assms(2,3) admission_turn_eq [OF ok(1) ok(4,5) [OF held], of i o']
    by (auto simp: resume_def settle_def put_def split: if_splits)
  have "\<not> inside g j" for j using opn inv(2) by (simp add: permit_ok_def turn_open_def)
  moreover have "t < u \<and> u < next_ticket (writers g) c" if "holds g j c u" "j \<noteq> i" for j u
  proof -
    have "t \<le> u" using front_facts(3) [OF tickets_okD [OF ok(1)] ok(5) [OF that(1)]] opn by (simp add: turn_open_def)
    moreover have "u \<noteq> t" using ok(3) [OF held, of j] that by auto
    ultimately show ?thesis using ok(5) [OF that(1)] by (simp add: live_def)
  qed
  moreover have "\<not> holds g j 0 u" if "c \<noteq> 0" for j u
  proof
    assume h: "holds g j 0 u"
    from front_facts(3) [OF tickets_okD [OF ok(1)] ok(5) [OF h]] ok(5) [OF h] opn that
    show False by (simp add: turn_open_def live_def)
  qed
  ultimately show ?thesis unfolding turn_earned_def by blast
qed

lemma enter_earned:
  assumes inv: "gate_inv g" and may: "may_enter (threads g i)" and out: "threads g i \<noteq> Admitted"
    and adm: "threads (snd (enter_checked i p o1 o2 g)) i = Admitted"
  shows "threads g i = Outside" "turn_earned g i (class_of p) (next_ticket (writers g) (class_of p))"
proof -
  let ?c = "class_of p" and ?h = "queued i (class_of p) g"
  have run: "owner (writers g) \<noteq> Some i" "Suc (next_ticket (writers g) ?c) < u64_limit"
    "snd (enter_checked i p o1 o2 g) = resume i o2 ?h"
    using enter_checked_eq [of i p o1 o2 g] adm out by auto
  then have "\<not> inside g i" using inv by (auto simp: gate_inv_def permit_ok_def)
  then show o: "threads g i = Outside" using may by (auto simp: may_enter_def inside_def)
  have "gate_inv ?h" using run by (intro queued_inv [OF inv o]) (auto simp: class_of_def)
  moreover have "threads ?h i = Waiting ?c (next_ticket (writers g) ?c)" by (simp add: queued_def put_def)
  ultimately have "turn_earned ?h i ?c (next_ticket (writers g) ?c)"
    using adm run(3) by (intro resume_earned) simp_all
  moreover have "inside ?h j \<longleftrightarrow> inside g j" "holds ?h j d u \<longleftrightarrow> holds g j d u \<or> (j, d, u) = (i, ?c, next_ticket (writers g) ?c)"
    for j d u using o by (auto simp: queued_def phase_simps)
  moreover have "next_ticket (writers ?h) ?c = Suc (next_ticket (writers g) ?c)"
    by (simp add: queued_def put_def with_ticket_def)
  ultimately show "turn_earned g i ?c (next_ticket (writers g) ?c)"
    unfolding turn_earned_def by (metis less_Suc_eq not_less_eq)
qed

text \<open>
  C19: whatever the step, a thread is admitted only when nobody is past the gate, every other
  request of its class holds a later ticket, and a background request only when no foreground
  request waits. The thread is admitted with the ticket it waited with, or, on the first turn of
  its request, with the ticket issued next: then no other request of its class waits at all.
\<close>

theorem writer_admission_order:
  assumes "reachable gate_init gate_step g" "gate_step g g'" "threads g i \<noteq> Admitted" "threads g' i = Admitted"
  shows "\<exists>c t. (threads g i = Waiting c t
        \<or> (\<exists>p o1 o2. g' = snd (enter_checked i p o1 o2 g) \<and> c = class_of p) \<and> threads g i = Outside
          \<and> t = next_ticket (writers g) c)
    \<and> (\<forall>j. \<not> inside g j)
    \<and> (\<forall>j u. holds g j c u \<and> j \<noteq> i \<longrightarrow> t < u \<and> u < next_ticket (writers g) c)
    \<and> (c = 0 \<or> (\<forall>j u. \<not> holds g j 0 u))"
proof -
  have inv: "gate_inv g" by (rule gate.reachable_inv [OF assms(1)])
  from assms(2) show ?thesis
  proof cases
    case (step_enter k p o1 o2)
    then have "i = k" using other_threads(2) assms(3,4) by metis
    with step_enter enter_earned [OF inv, of i p o1 o2] assms(3,4) show ?thesis unfolding turn_earned_def by blast
  next
    case (step_resume k o')
    then have "i = k" using other_threads(1) assms(3,4) by metis
    with step_resume assms(3,4) obtain c t where "threads g i = Waiting c t"
      by (auto simp: resume_def split: phase.splits)
    with resume_earned [OF inv] step_resume \<open>i = k\<close> assms(4) show ?thesis unfolding turn_earned_def by blast
  qed (use assms(3,4) in \<open>auto simp: drop_ticket_def acquire_external_def release_lease_def drop_permit_def notify_all_def
      put_def split: phase.splits if_splits\<close>)
qed

theorem writer_admission_order_witness:
  "threads (resume 3 ex_calm ex_free) 3 = Admitted \<and> (\<forall>j. \<not> inside ex_free j)
   \<and> {u. \<exists>j. j \<noteq> 3 \<and> holds ex_free j 0 u} \<subseteq> {1..<next_ticket (writers ex_free) 0}
   \<and> threads (ex_enter 1 Background ex_gate) 1 = Admitted \<and> (\<forall>j. \<not> inside ex_gate j)"
proof -
  have adm: "threads (resume 3 ex_calm ex_free) 3 = Admitted" by (simp add: ex_free_def ex_given_up_def gate_eval)
  have "gate_step ex_free (resume 3 ex_calm ex_free)" by (rule step_resume)
  note one = writer_admission_order [OF gate_ex_reachable(3) this _ adm]
  have first: "threads (ex_enter 1 Background ex_gate) 1 = Admitted" by (simp add: gate_eval)
  have start: "reachable gate_init gate_step ex_gate" by (rule reachable.start) (simp add: gate_init_def ex_gate_def)
  have "gate_step ex_gate (ex_enter 1 Background ex_gate)"
    unfolding ex_enter_def by (rule step_enter) (simp add: may_enter_def ex_gate_def)
  from writer_admission_order [OF start this _ first] have "\<forall>j. \<not> inside ex_gate j" by (auto simp: ex_gate_def)
  with one ex_free_phases [of 3] adm first show ?thesis by (auto simp: Suc_le_eq)
qed

text \<open>
  Tickets that were given up are accounted for exactly: the ranges stand for the
  tickets issued and not yet served that no thread holds, and there are at most as many
  ranges as requests waiting, and one more.
\<close>

theorem given_up_tickets:
  assumes "reachable gate_init gate_step g"
  shows "covered (retired (writers g) c)
      = {t. serving (writers g) c \<le> t \<and> t < next_ticket (writers g) c \<and> (\<forall>i. \<not> holds g i c t)}
    \<and> length (retired (writers g) c) \<le> card {i. \<exists>t. holds g i c t} + 1"
proof -
  have q: "queue_ok g" using gate.reachable_inv [OF assms] by (simp add: gate_inv_def)
  note ok = queue_okD [OF q]
  note cls = class_okD [OF tickets_okD [OF ok(1), of c]]
  have "covered (retired (writers g) c)
      = {t. serving (writers g) c \<le> t \<and> t < next_ticket (writers g) c \<and> (\<forall>i. \<not> holds g i c t)}"
  proof (rule set_eqI)
    fix t
    show "t \<in> covered (retired (writers g) c)
      \<longleftrightarrow> t \<in> {t. serving (writers g) c \<le> t \<and> t < next_ticket (writers g) c \<and> (\<forall>i. \<not> holds g i c t)}"
      using cls(4) [of t] cls(5) [of t] ok(2) [of c t] unfolding live_def by auto
  qed
  with ranges_bound [OF q] show ?thesis by simp
qed

theorem given_up_tickets_witness:
  "covered (retired (writers ex_given_up) 0) = {t. t < 2 \<and> (\<forall>i. \<not> holds ex_given_up i 0 t)}
   \<and> retired (writers ex_given_up) 0 = [(1, 1)]"
proof -
  have "serving (writers ex_given_up) 0 = 0" "next_ticket (writers ex_given_up) 0 = 2"
    "retired (writers ex_given_up) 0 = [(1, 1)]"
    by (simp_all add: ex_given_up_def gate_eval)
  with given_up_tickets [OF gate_ex_reachable(2), of 0] show ?thesis by simp
qed

text \<open>
  C6: no turn and no wakeup is lost. When nobody is past the gate and no thread is on its
  way out, some waiting thread has been notified, and it is admitted the next time it looks,
  unless its own request was canceled or has expired.
\<close>

theorem no_lost_turn:
  assumes "reachable gate_init gate_step g" "threads g k = Waiting c' t'"
    and "\<And>i. threads g i = Outside \<or> (\<exists>c t. threads g i = Waiting c t)"
  shows "\<exists>i c t. threads g i = Waiting c t \<and> awake g i
    \<and> (\<forall>o'. canceled o' \<or> expired o' \<or> threads (resume i o' g) i = Admitted)"
proof -
  have inv: "queue_ok g" "permit_ok g" "wake_ok g"
    using gate.reachable_inv [OF assms(1)] by (simp_all add: gate_inv_def)
  note ok = queue_okD [OF inv(1)]
  have free: "owner (writers g) = None"
  proof (cases "owner (writers g)")
    case (Some i)
    then have "inside g i" using inv(2) unfolding permit_ok_def by blast
    with assms(3) [of i] show ?thesis by (auto simp: inside_def)
  qed
  have wait: "\<exists>i. threads g i = Waiting c (front_ticket (writers g) c)"
    if "front_ticket (writers g) c < next_ticket (writers g) c" for c
  proof -
    from front_facts(4) [OF tickets_okD [OF ok(1)] that] obtain i where "holds g i c (front_ticket (writers g) c)"
      using ok(2) by blast
    then show ?thesis using assms(3) [of i] by (auto simp: holds_def)
  qed
  have "\<exists>c. front_ticket (writers g) c < next_ticket (writers g) c \<and> (c = 0 \<or> next_ticket (writers g) 0 = front_ticket (writers g) 0)"
  proof (cases "front_ticket (writers g) 0 < next_ticket (writers g) 0")
    case False
    have held: "holds g k c' t'" using assms(2) by (simp add: holds_def)
    from front_facts(3) [OF tickets_okD [OF ok(1)] ok(5) [OF held]] ok(5) [OF held]
    have "front_ticket (writers g) c' < next_ticket (writers g) c'" by (simp add: live_def)
    moreover have "next_ticket (writers g) 0 = front_ticket (writers g) 0"
      using False front_facts(2) [OF tickets_okD [OF ok(1)], of 0] by simp
    ultimately show ?thesis by blast
  qed blast
  then obtain c i where i: "threads g i = Waiting c (front_ticket (writers g) c)"
    and pre: "c = 0 \<or> next_ticket (writers g) 0 = front_ticket (writers g) 0"
    using wait by blast
  have opn: "turn_open (writers g) c (front_ticket (writers g) c)" using free pre by (simp add: turn_open_def)
  have held: "holds g i c (front_ticket (writers g) c)" using i by (simp add: holds_def)
  have "awake g i" using inv(3) i opn assms(3) unfolding wake_ok_def by (metis phase.distinct(9) phase.distinct(17))
  moreover have "canceled o' \<or> expired o' \<or> threads (resume i o' g) i = Admitted" for o'
    using admission_turn_eq [OF ok(1) ok(4,5) [OF held], of i o'] i opn
    by (simp add: resume_def settle_def put_def)
  ultimately show ?thesis using i by blast
qed

theorem no_lost_turn_witness:
  "\<exists>i c t. threads ex_free i = Waiting c t \<and> awake ex_free i \<and> threads (resume i ex_calm ex_free) i = Admitted"
proof -
  have "threads ex_free 3 = Waiting 0 0" by (simp add: ex_free_phases)
  moreover have "threads ex_free i = Outside \<or> (\<exists>c t. threads ex_free i = Waiting c t)" for i
    by (simp add: ex_free_phases)
  ultimately obtain i c t where "threads ex_free i = Waiting c t" "awake ex_free i"
    "\<forall>o'. canceled o' \<or> expired o' \<or> threads (resume i o' ex_free) i = Admitted"
    using no_lost_turn [OF gate_ex_reachable(3)] by blast
  then show ?thesis by (metis ex_calm_def observation.select_convs)
qed

text \<open>The registry: while a gate is in use, its root leads every caller to it.\<close>

lemma for_catalog_shared:
  assumes "for_catalog alive root fresh registry = (w, registry')" "alive w" "hm_wf registry"
  shows "fst (for_catalog alive root fresh' registry') = w"
proof -
  have wf: "hm_wf (filter (\<lambda>e. alive (snd e)) registry)"
    using assms(3) by (simp add: hm_wf_def distinct_map_filter)
  show ?thesis
  proof (cases "map_of (filter (\<lambda>e. alive (snd e)) registry) root")
    case (Some v)
    with assms(1) show ?thesis by (auto simp: for_catalog_def Let_def)
  next
    case None
    with assms(1) have w: "w = fresh" "registry' = hm_insert root fresh (filter (\<lambda>e. alive (snd e)) registry)"
      by (auto simp: for_catalog_def Let_def)
    have "filter (\<lambda>e. alive (snd e)) registry' = registry'"
      using w assms(2) by (auto simp: hm_insert_def hm_remove_def intro!: filter_cong)
    then show ?thesis using w by (simp add: for_catalog_def hm_simps)
  qed
qed

end
