(* ===== verification/Managed_Read.thy ===== *)
theory Managed_Read
  imports Preview_Scheduler Decoded_Cache
begin

text \<open>
  One managed read of a cached preview (\<open>preview/managed_reads.rs\<close>): the choice of the cached
  object, the transfer of its bytes, the native decode under a lease of the preview scheduler
  and under reservations of the byte budgets, and the release of what it holds on every exit.
  What the catalog, the store, the retained tasks and the native transport answer to one call
  is an argument of the definition that makes the call.
\<close>

section \<open>Identities and keys\<close>

datatype tier = Thumbnail | Large

record variant_key =
  vk_asset :: string
  vk_variant :: string

record render_identity =
  ri_asset :: string
  ri_generation :: int
  ri_fingerprint :: "string option"
  ri_state :: string
  ri_metadata_revision :: int

record image_identity =
  im_image :: string
  im_key :: variant_key
  im_metadata_revision :: int
  im_pixel_generation :: int
  im_shared_source_epoch :: int
  im_physical_generation :: int

record edit_identity =
  ei_image :: "image_identity option"
  ei_source :: render_identity
  ei_key :: variant_key
  ei_revision :: int
  ei_recipe_digest :: string

record preview_key =
  pk_asset :: string
  pk_variant :: string
  pk_generation :: nat
  pk_image_generation :: "nat option"
  pk_fingerprint :: string
  pk_edit_revision :: nat
  pk_renderer :: string
  pk_preparation :: string
  pk_tier :: tier
  pk_edge :: nat
  pk_encoding :: codec_settings

definition MASTER :: string where
  "MASTER = ''master''"

definition LEGACY_BYTES :: nat where
  "LEGACY_BYTES = 4 * 1024 * 1024"

definition same_pixels :: "render_identity \<Rightarrow> render_identity \<Rightarrow> bool" where
  "same_pixels a b \<longleftrightarrow>
     ri_asset a = ri_asset b \<and> ri_generation a = ri_generation b
     \<and> ri_fingerprint a = ri_fingerprint b \<and> ri_state a = ri_state b"

definition same_edit :: "edit_identity \<Rightarrow> edit_identity \<Rightarrow> bool" where
  "same_edit a b \<longleftrightarrow>
     same_pixels (ei_source a) (ei_source b)
     \<and> (case (ei_image a, ei_image b) of
          (Some i, Some j) \<Rightarrow>
            im_image i = im_image j \<and> im_key i = im_key j
            \<and> im_pixel_generation i = im_pixel_generation j
            \<and> im_shared_source_epoch i = im_shared_source_epoch j
            \<and> im_physical_generation i = im_physical_generation j
        | (None, None) \<Rightarrow> True
        | _ \<Rightarrow> False)
     \<and> ei_key a = ei_key b \<and> ei_revision a = ei_revision b \<and> ei_recipe_digest a = ei_recipe_digest b"

definition legacy_pixel_eligible :: "edit_identity \<Rightarrow> render_identity \<Rightarrow> bool" where
  "legacy_pixel_eligible identity legacy \<longleftrightarrow>
     (case ei_image identity of None \<Rightarrow> False | Some i \<Rightarrow> im_pixel_generation i = 0)
     \<and> ri_generation (ei_source identity) = ri_generation legacy"

section \<open>State\<close>

datatype failure_kind = WireResourceLimit | WireRejected | WireCanceled | WireUnknown

text \<open>
  The failures of what is outside, as far as the reads look at them, and the errors of the reads.
  \<open>ReadPanic\<close> stands for an \<open>unwrap\<close> of a missing value and for an underflow.
\<close>

datatype outside_error =
    WireFailure failure_kind
  | DecodeFailed decode_status
  | WorkerFailed "decode_status option"
  | StagingLimit
  | StoreLimit
  | OtherFailure string

datatype read_error =
    Outside outside_error
  | Scheduling sched_error
  | Memory preview_error
  | EncodedBudgetExceeded
  | SynchronousBusy
  | HeaderExceedsTier
  | PreemptedCostMissing
  | ReadPanic
  | Refused string

datatype integrity = Intact | Missing | CorruptObject

text \<open>A byte vector: its contents and the capacity it was allocated with.\<close>

record buffer =
  contents :: "byte list"
  capacity :: nat

record render_record =
  rr_width :: nat
  rr_height :: nat

record preview_view =
  pv_key :: "preview_key option"
  pv_legacy_hash :: "string option"
  pv_pixels :: nat
  pv_record :: "render_record option"
  pv_stale :: bool

text \<open>The header found by the native worker: the fields the owner reads.\<close>

record header =
  hd_input_bytes :: nat
  hd_codec :: codec
  hd_width :: nat
  hd_height :: nat

datatype event = Header header | Pixels prepared_rgb | Drained

record managed_read =
  mr_identity :: edit_identity
  mr_tier :: tier
  mr_allow_stale :: bool
  mr_key :: "preview_key option"
  mr_legacy_hash :: "string option"
  mr_record :: "render_record option"
  mr_stale :: bool
  mr_cache_key :: string
  mr_codec :: codec
  mr_expected :: "(nat \<times> nat) option"
  mr_encoded :: buffer
  mr_encoded_task :: bool
  mr_guard :: nat
  mr_encoded_allowance :: nat
  mr_preempting :: bool
  mr_cost :: "nat option"
  mr_request :: "native_read_request option"
  mr_lease :: "nat option"
  mr_transport_task :: bool
  mr_rgb :: "nat option"
  mr_header :: "header option"
  mr_requeue :: "(nat \<times> nat \<times> nat) option"
  mr_launched :: bool
  mr_cleanup_started :: bool
  mr_cancel :: bool
  mr_failure :: "read_error option"

datatype read_outcome = OutcomeReady preview_view | OutcomeMissing | OutcomeStale | OutcomeFailed bool

record pending_read =
  pr_expected :: edit_identity
  pr_native :: "native_read_request option"
  pr_interactive :: bool
  pr_tier :: tier
  pr_allow_stale :: bool
  pr_priority :: priority

record read_queue =
  rq_next :: nat
  rq_active :: "(nat \<times> pending_read \<times> managed_read \<times> bool) option"
  rq_pending :: "(nat, pending_read) hmap"
  rq_completed :: "(nat, read_outcome) hmap"

record service_limits =
  sl_requests :: nat
  sl_encoded_staging_bytes :: nat
  sl_header_scratch :: nat
  sl_codec_scratch :: nat

text \<open>
  The service as the reads see it. \<open>decoded\<close> holds the decoded cache and the byte pools, of
  which \<open>encoded\<close> is the staging pool; \<open>staged\<close> tells whether the store works through the
  filesystem worker; \<open>consumer_count\<close> counts the render consumers; the last four are the
  atomics other threads set.
\<close>

record preview_service =
  scheduler :: preview_scheduler
  decoded :: cache_world
  encoded :: nat
  service_limits :: service_limits
  staged :: bool
  consumer_count :: nat
  reads :: read_queue
  launch_pauses :: nat
  external_native :: bool
  delivery_io :: bool
  delivery_pending :: bool

type_synonym 'a service_comp = "(preview_service, read_error, 'a) comp"
type_synonym 'a read_comp = "(managed_read \<times> preview_service, read_error, 'a) comp"

text \<open>Calls into the components the service owns; the reads lift them to their own state.\<close>

definition scheduling :: "'a sched \<Rightarrow> 'a service_comp" where
  "scheduling m = (\<lambda>s. case m (scheduler s) of (r, c) \<Rightarrow> (map_err Scheduling r, s\<lparr>scheduler := c\<rparr>))"

definition caching :: "'a cache_comp \<Rightarrow> 'a service_comp" where
  "caching m = (\<lambda>s. case m (decoded s) of (r, c) \<Rightarrow> (map_err Memory r, s\<lparr>decoded := c\<rparr>))"

definition serving :: "'a service_comp \<Rightarrow> 'a read_comp" where
  "serving m = (\<lambda>(r, s). case m s of (x, t) \<Rightarrow> (x, (r, t)))"

definition fld :: "(managed_read \<Rightarrow> 'a) \<Rightarrow> 'a read_comp" where
  "fld f = getc (\<lambda>(r, s). f r)"

definition upd :: "(managed_read \<Rightarrow> managed_read) \<Rightarrow> unit read_comp" where
  "upd f = modc (\<lambda>(r, s). (f r, s))"

definition pure_read :: "read_error + 'a \<Rightarrow> ('s, read_error, 'a) comp" where
  "pure_read r = (case r of Inl e \<Rightarrow> fail e | Inr x \<Rightarrow> ret x)"

definition answer :: "outside_error + 'a \<Rightarrow> ('s, read_error, 'a) comp" where
  "answer r = pure_read (map_err Outside r)"

definition drop_bytes :: "nat \<Rightarrow> unit service_comp" where
  "drop_bytes r = caching (on_heap (drop_reservation r))"

definition drop_page :: "nat \<Rightarrow> unit service_comp" where
  "drop_page a = caching (arc_drop a)"

section \<open>Costs of native work\<close>

definition plane_bytes :: "codec \<Rightarrow> nat \<Rightarrow> nat \<Rightarrow> read_error + nat" where
  "plane_bytes c w h =
     tryr (map_err Memory (rgb_bytes w h)) (\<lambda>rgb.
       case Option.bind (checked_mul (rgb div 3) 8) (\<lambda>v. checked_add v (if c = Avif then 2 * rgb else rgb)) of
         None \<Rightarrow> Inl (Refused ''native plane overflow'')
       | Some v \<Rightarrow> Inr v)"

definition header_cost :: "nat \<Rightarrow> nat \<Rightarrow> read_error + nat" where
  "header_cost e scratch =
     (if scratch = 0 then Inl (Refused ''zero header scratch admission'')
      else case checked_add e scratch of
             None \<Rightarrow> Inl (Refused ''native header cost overflow'')
           | Some v \<Rightarrow> Inr v)"

definition decode_cost :: "codec \<Rightarrow> nat \<Rightarrow> nat \<Rightarrow> nat \<Rightarrow> nat \<Rightarrow> nat \<Rightarrow> read_error + nat" where
  "decode_cost c w h e header_scratch codec_scratch =
     (if codec_scratch = 0 then Inl (Refused ''zero codec scratch admission'')
      else tryr (plane_bytes c w h) (\<lambda>planes.
        case Option.bind (checked_add e planes) (\<lambda>v. checked_add v codec_scratch) of
          None \<Rightarrow> Inl (Refused ''native decode cost overflow'')
        | Some d \<Rightarrow> tryr (header_cost e header_scratch) (\<lambda>hc. Inr (max hc d))))"

end
