(* ===== verification/Managed_Poll.thy ===== *)
theory Managed_Poll
  imports Managed_Read
begin

text \<open>
  The two halves of a managed read: \<open>begin_managed_read\<close> chooses the object and starts the
  transfer of its bytes, \<open>poll_managed_read\<close> moves it one turn of the owner further.
\<close>

section \<open>Beginning\<close>

record cached_preview =
  cp_key :: preview_key
  cp_bytes :: buffer
  cp_stale :: bool
  cp_record :: "render_record option"

text \<open>
  What the catalog, the store and the tasks answer during one \<open>begin_managed_read\<close>. The two
  reads of the edit identity happen at different moments.
\<close>

record begin_answers =
  ba_identity :: "variant_key \<Rightarrow> outside_error + edit_identity"
  ba_identity_later :: "variant_key \<Rightarrow> outside_error + edit_identity"
  ba_source :: "string \<Rightarrow> outside_error + render_identity"
  ba_key :: "bool \<Rightarrow> edit_identity \<Rightarrow> tier \<Rightarrow> outside_error + preview_key"
  ba_select :: "preview_key \<Rightarrow> bool \<Rightarrow> nat \<Rightarrow> outside_error + cached_preview option"
  ba_digest :: "preview_key \<Rightarrow> outside_error + string"
  ba_legacy_reference :: "string \<Rightarrow> outside_error + string option"
  ba_legacy_key :: "string \<Rightarrow> string"
  ba_task_lane :: "outside_error + unit"
  ba_spawn :: "outside_error + unit"

datatype begun = Ready "preview_view option" | Pending managed_read

text \<open>The object a read is about: a cached preview, or a retained legacy file.\<close>

record chosen =
  ch_key :: "preview_key option"
  ch_legacy_hash :: "string option"
  ch_record :: "render_record option"
  ch_stale :: bool
  ch_cache_key :: string
  ch_codec :: codec
  ch_expected :: "(nat \<times> nat) option"
  ch_bytes :: buffer

definition no_bytes :: buffer where
  "no_bytes = \<lparr>contents = [], capacity = 0\<rparr>"

definition ensure_synchronous_read_available :: "unit service_comp" where
  "ensure_synchronous_read_available =
     bindc (getc (\<lambda>s. rq_active (reads s) = None \<and> \<not> delivery_io s \<and> \<not> delivery_pending s
         \<and> us_active (usage (scheduler s)) = 0 \<and> us_queued (usage (scheduler s)) = 0
         \<and> launch_pauses s = 0 \<and> \<not> external_native s)) (\<lambda>free.
     ensure free SynchronousBusy)"

text \<open>The three lookups: exact, under the legacy key, and, where allowed, stale.\<close>

definition select_cached ::
  "begin_answers \<Rightarrow> edit_identity \<Rightarrow> preview_key \<Rightarrow> variant_key \<Rightarrow> tier \<Rightarrow> bool \<Rightarrow> bool \<Rightarrow> nat \<Rightarrow>
     cached_preview option service_comp" where
  "select_cached b identity wanted variant tier allow_stale interactive allowance =
     bindc (answer (ba_select b wanted False allowance)) (\<lambda>cached.
     bindc (case cached of
         Some c \<Rightarrow> ret (Some c)
       | None \<Rightarrow>
           bindc (answer (ba_source b (vk_asset variant))) (\<lambda>source.
           if legacy_pixel_eligible identity source then
             bindc (answer (ba_key b interactive (identity\<lparr>ei_source := source, ei_image := None\<rparr>) tier)) (\<lambda>key.
             answer (ba_select b key False allowance))
           else ret None)) (\<lambda>cached.
     case cached of
       Some c \<Rightarrow> ret (Some c)
     | None \<Rightarrow> answer (ba_select b wanted allow_stale allowance)))"

definition choose_object ::
  "begin_answers \<Rightarrow> cached_preview option \<Rightarrow> variant_key \<Rightarrow> tier \<Rightarrow> bool \<Rightarrow> chosen option service_comp" where
  "choose_object b cached variant tier allow_stale =
     (case cached of
        Some c \<Rightarrow>
          bindc (answer (ba_digest b (cp_key c))) (\<lambda>digest.
          ret (Some \<lparr>ch_key = Some (cp_key c), ch_legacy_hash = None, ch_record = cp_record c,
                     ch_stale = cp_stale c, ch_cache_key = digest, ch_codec = codec (pk_encoding (cp_key c)),
                     ch_expected = map_option (\<lambda>r. (rr_width r, rr_height r)) (cp_record c),
                     ch_bytes = cp_bytes c\<rparr>))
      | None \<Rightarrow>
          if allow_stale \<and> vk_variant variant = MASTER \<and> tier = Thumbnail then
            bindc (answer (ba_legacy_reference b (vk_asset variant))) (\<lambda>reference.
            case reference of
              None \<Rightarrow> ret None
            | Some hash \<Rightarrow>
                ret (Some \<lparr>ch_key = None, ch_legacy_hash = Some hash, ch_record = None, ch_stale = True,
                           ch_cache_key = ba_legacy_key b hash, ch_codec = Jpeg, ch_expected = None,
                           ch_bytes = no_bytes\<rparr>))
          else ret None)"

text \<open>A view of pages that are too stale for the request is not delivered, and its page dropped.\<close>

definition deliver :: "edit_identity \<Rightarrow> edit_identity \<Rightarrow> tier \<Rightarrow> bool \<Rightarrow> preview_view \<Rightarrow> preview_view option service_comp" where
  "deliver identity current tier allow_stale v =
     (let stale = pv_stale v \<or> \<not> same_edit identity current \<or> ri_state (ei_source current) \<noteq> ''ready'' in
      if stale \<and> \<not> (allow_stale \<and> tier = Thumbnail)
      then bindc (drop_page (pv_pixels v)) (\<lambda>_. ret None)
      else ret (Some (v\<lparr>pv_stale := stale\<rparr>)))"

definition holding_page :: "nat \<Rightarrow> read_error + 'a \<Rightarrow> 'a service_comp" where
  "holding_page a r =
     (case r of Inl e \<Rightarrow> bindc (drop_page a) (\<lambda>_. fail e) | Inr x \<Rightarrow> ret x)"

definition begin_transfer ::
  "begin_answers \<Rightarrow> edit_identity \<Rightarrow> tier \<Rightarrow> bool \<Rightarrow> bool \<Rightarrow> nat \<Rightarrow> nat \<Rightarrow> bool \<Rightarrow> chosen \<Rightarrow> begun service_comp" where
  "begin_transfer b identity tier allow_stale synchronous allowance guard selected ch =
     bindc (if synchronous then ensure_synchronous_read_available else ret ()) (\<lambda>_.
     bindc (getc staged) (\<lambda>calls.
     bindc (ensure calls (Refused ''managed read filesystem missing'')) (\<lambda>_.
     bindc (answer (ba_task_lane b)) (\<lambda>_.
     let allowance = (if ch_legacy_hash ch \<noteq> None then min allowance LEGACY_BYTES else allowance) in
     bindc (caching (on_heap (shrink guard allowance))) (\<lambda>_.
     bindc (if selected \<or> ch_legacy_hash ch \<noteq> None then bindc (answer (ba_spawn b)) (\<lambda>_. ret True)
            else ret False) (\<lambda>task.
     ret (Pending \<lparr>mr_identity = identity, mr_tier = tier, mr_allow_stale = allow_stale, mr_key = ch_key ch,
       mr_legacy_hash = ch_legacy_hash ch, mr_record = ch_record ch, mr_stale = ch_stale ch,
       mr_cache_key = ch_cache_key ch, mr_codec = ch_codec ch, mr_expected = ch_expected ch,
       mr_encoded = ch_bytes ch, mr_encoded_task = task, mr_guard = guard, mr_encoded_allowance = allowance,
       mr_preempting = False, mr_cost = None, mr_request = None, mr_lease = None, mr_transport_task = False,
       mr_rgb = None, mr_header = None, mr_requeue = None, mr_launched = False, mr_cleanup_started = False,
       mr_cancel = False, mr_failure = None\<rparr>)))))))"

definition begin_guarded ::
  "begin_answers \<Rightarrow> variant_key \<Rightarrow> tier \<Rightarrow> bool \<Rightarrow> bool \<Rightarrow> bool \<Rightarrow> edit_identity \<Rightarrow> preview_key \<Rightarrow> nat \<Rightarrow> nat \<Rightarrow>
     begun service_comp" where
  "begin_guarded b variant tier allow_stale interactive synchronous identity wanted allowance guard =
     bindc (select_cached b identity wanted variant tier allow_stale interactive allowance) (\<lambda>cached.
     bindc (choose_object b cached variant tier allow_stale) (\<lambda>choice.
     case choice of
       None \<Rightarrow> ret (Ready None)
     | Some ch \<Rightarrow>
         bindc (if ch_legacy_hash ch = None then caching (managed_lookup (ch_cache_key ch)) else ret None) (\<lambda>hit.
         case hit of
           Some px \<Rightarrow>
             bindc (holding_page px (map_err Outside (ba_identity_later b variant))) (\<lambda>current.
             bindc (deliver identity current tier allow_stale
                 \<lparr>pv_key = ch_key ch, pv_legacy_hash = ch_legacy_hash ch, pv_pixels = px,
                  pv_record = ch_record ch, pv_stale = ch_stale ch\<rparr>) (\<lambda>v.
             ret (Ready v)))
         | None \<Rightarrow> begin_transfer b identity tier allow_stale synchronous allowance guard (cached \<noteq> None) ch)))"

text \<open>The staging reservation belongs to the pending read; every other exit drops it.\<close>

definition settle_begun :: "nat \<Rightarrow> read_error + begun \<Rightarrow> begun service_comp" where
  "settle_begun guard r =
     (case r of
        Inl e \<Rightarrow> bindc (drop_bytes guard) (\<lambda>_. fail e)
      | Inr (Ready v) \<Rightarrow> bindc (drop_bytes guard) (\<lambda>_. ret (Ready v))
      | Inr (Pending m) \<Rightarrow> ret (Pending m))"

definition begin_managed_read ::
  "begin_answers \<Rightarrow> variant_key \<Rightarrow> tier \<Rightarrow> bool \<Rightarrow> bool \<Rightarrow> bool \<Rightarrow> begun service_comp" where
  "begin_managed_read b variant tier allow_stale interactive synchronous =
     bindc (answer (ba_identity b variant)) (\<lambda>identity.
     bindc (answer (ba_key b interactive identity tier)) (\<lambda>wanted.
     bindc (getc encoded) (\<lambda>pool.
     bindc (caching (on_heap (budget_used pool))) (\<lambda>u.
     bindc (getc (\<lambda>s. checked_sub (sl_encoded_staging_bytes (service_limits s)) u)) (\<lambda>allowance.
     bindc (lift_option ReadPanic allowance) (\<lambda>allowance.
     bindc (caching (on_heap (try_reserve pool allowance))) (\<lambda>guard.
     bindc (lift_option EncodedBudgetExceeded guard) (\<lambda>guard.
     catchc (begin_guarded b variant tier allow_stale interactive synchronous identity wanted allowance guard)
       (settle_begun guard)))))))))"

section \<open>Releasing\<close>

text \<open>
  \<open>release_scheduler\<close>: a preempted read goes back to the queue and keeps its request; any
  other read gives its lease or its queued request up.
\<close>

definition release_scheduler :: "unit read_comp" where
  "release_scheduler =
     bindc (fld mr_preempting) (\<lambda>preempting.
     bindc (fld mr_lease) (\<lambda>lease.
     if preempting then
       (case lease of
          None \<Rightarrow> ret ()
        | Some l \<Rightarrow>
            bindc (upd (mr_lease_update (\<lambda>_. None))) (\<lambda>_.
            bindc (fld mr_cost) (\<lambda>cost.
            bindc (lift_option PreemptedCostMissing cost) (\<lambda>cost.
            serving (scheduling (requeue_native_read l cost))))))
     else
       bindc (case lease of
           Some l \<Rightarrow>
             bindc (upd (mr_lease_update (\<lambda>_. None))) (\<lambda>_.
             serving (scheduling (release_native_read l)))
         | None \<Rightarrow>
             bindc (fld mr_request) (\<lambda>request.
             case request of
               Some q \<Rightarrow> serving (scheduling (cancel_queued_native_read (nrr_id q)))
             | None \<Rightarrow> ret ())) (\<lambda>_.
       upd (mr_request_update (\<lambda>_. None)))))"

definition preempt :: "managed_read \<Rightarrow> managed_read" where
  "preempt r = r\<lparr>mr_preempting := True, mr_cancel := True\<rparr>"

text \<open>The reservations of a read that ends; what its tasks held ended with them.\<close>

definition drop_rgb :: "unit read_comp" where
  "drop_rgb =
     bindc (fld mr_rgb) (\<lambda>rgb.
     case rgb of
       None \<Rightarrow> ret ()
     | Some g \<Rightarrow> bindc (upd (mr_rgb_update (\<lambda>_. None))) (\<lambda>_. serving (drop_bytes g)))"

definition drop_managed_read :: "managed_read \<Rightarrow> preview_service \<Rightarrow> preview_service" where
  "drop_managed_read m s =
     (let s = snd (drop_bytes (mr_guard m) s) in
      case mr_rgb m of None \<Rightarrow> s | Some g \<Rightarrow> snd (drop_bytes g s))"

section \<open>Polling\<close>

datatype launch = LaunchLegacy | LaunchHeader | LaunchRearm | LaunchFinish | LaunchStop

text \<open>
  What the outside answers during one poll: the transfer task, the store, the catalog, the
  start of a thread, the transport's task, and the catalog again when pixels are committed.
\<close>

record poll_answers =
  pa_task :: "outside_error + (integrity \<times> buffer) option"
  pa_finish :: "preview_key \<Rightarrow> integrity \<Rightarrow> outside_error + bool"
  pa_legacy_reference :: "string \<Rightarrow> outside_error + string option"
  pa_legacy_key :: "string \<Rightarrow> string"
  pa_launch :: "launch \<Rightarrow> outside_error + unit"
  pa_transport :: "outside_error + (outside_error + event) option"
  pa_identity :: "variant_key \<Rightarrow> outside_error + edit_identity"

definition shrink_guard :: "nat \<Rightarrow> unit read_comp" where
  "shrink_guard n = bindc (fld mr_guard) (\<lambda>g. serving (caching (on_heap (shrink g n))))"

definition start_task :: "poll_answers \<Rightarrow> launch \<Rightarrow> unit read_comp" where
  "start_task a k =
     bindc (fld mr_transport_task) (\<lambda>busy.
     bindc (ensure (\<not> busy) (Refused ''native read transport already pending'')) (\<lambda>_.
     bindc (answer (pa_launch a k)) (\<lambda>_.
     upd (mr_transport_task_update (\<lambda>_. True)))))"

definition poll_transport :: "poll_answers \<Rightarrow> (outside_error + event) option read_comp" where
  "poll_transport a =
     bindc (fld mr_transport_task) (\<lambda>busy.
     if \<not> busy then ret None
     else
       case pa_transport a of
         Inr None \<Rightarrow> ret None
       | Inr (Some v) \<Rightarrow> bindc (upd (mr_transport_task_update (\<lambda>_. False))) (\<lambda>_. ret (Some v))
       | Inl e \<Rightarrow> bindc (upd (mr_transport_task_update (\<lambda>_. False))) (\<lambda>_. fail (Outside e)))"

text \<open>
  The result of one turn: \<open>None\<close> while the read goes on, \<open>Some v\<close> when it ended with the view
  \<open>v\<close>. The steps below return \<open>None\<close> to fall through to what follows them.
\<close>

type_synonym polled = "preview_view option option"

text \<open>A damaged or missing object whose request accepts the retained legacy file instead.\<close>

definition legacy_fallback :: "poll_answers \<Rightarrow> string option read_comp" where
  "legacy_fallback a =
     bindc (getc fst) (\<lambda>r.
     if mr_key r \<noteq> None \<and> \<not> mr_cancel r \<and> mr_allow_stale r
        \<and> vk_variant (ei_key (mr_identity r)) = MASTER \<and> mr_tier r = Thumbnail
     then answer (pa_legacy_reference a (vk_asset (ei_key (mr_identity r))))
     else ret None)"

definition start_legacy :: "poll_answers \<Rightarrow> string \<Rightarrow> unit read_comp" where
  "start_legacy a hash =
     bindc (upd (\<lambda>r. r\<lparr>mr_cache_key := pa_legacy_key a hash, mr_key := None, mr_record := None,
         mr_legacy_hash := Some hash, mr_codec := Jpeg, mr_expected := None, mr_stale := True,
         mr_encoded_allowance := min (mr_encoded_allowance r) LEGACY_BYTES\<rparr>)) (\<lambda>_.
     bindc (fld mr_encoded_allowance) (\<lambda>n.
     bindc (shrink_guard n) (\<lambda>_.
     bindc (answer (pa_launch a LaunchLegacy)) (\<lambda>_.
     upd (mr_encoded_task_update (\<lambda>_. True))))))"

text \<open>The bytes are there: keep what they need, and serve a legacy page that is still decoded.\<close>

definition transferred :: "poll_answers \<Rightarrow> polled option read_comp" where
  "transferred a =
     bindc (fld (capacity \<circ> mr_encoded)) (\<lambda>n.
     bindc (shrink_guard n) (\<lambda>_.
     bindc (getc fst) (\<lambda>r.
     if mr_legacy_hash r \<noteq> None \<and> \<not> mr_cancel r then
       bindc (serving (caching (managed_lookup (mr_cache_key r)))) (\<lambda>hit.
       case hit of
         None \<Rightarrow> ret None
       | Some px \<Rightarrow>
           ret (Some (Some (Some \<lparr>pv_key = None, pv_legacy_hash = mr_legacy_hash r, pv_pixels = px,
                                  pv_record = None, pv_stale = True\<rparr>))))
     else ret None)))"

definition received :: "poll_answers \<Rightarrow> buffer \<Rightarrow> bool \<Rightarrow> polled option read_comp" where
  "received a buf intact =
     (if intact then bindc (upd (mr_encoded_update (\<lambda>_. buf))) (\<lambda>_. transferred a)
      else
        bindc (legacy_fallback a) (\<lambda>fallback.
        case fallback of
          Some hash \<Rightarrow> bindc (start_legacy a hash) (\<lambda>_. ret (Some None))
        | None \<Rightarrow> bindc (upd (mr_cancel_update (\<lambda>_. True))) (\<lambda>_. transferred a)))"

definition transfer_step :: "poll_answers \<Rightarrow> polled option read_comp" where
  "transfer_step a =
     bindc (fld mr_encoded_task) (\<lambda>running.
     if \<not> running then ret None
     else
       case pa_task a of
         Inr None \<Rightarrow> ret (Some None)
       | Inl e \<Rightarrow> bindc (upd (mr_encoded_task_update (\<lambda>_. False))) (\<lambda>_. fail (Outside e))
       | Inr (Some (found, buf)) \<Rightarrow>
           bindc (upd (mr_encoded_task_update (\<lambda>_. False))) (\<lambda>_.
           bindc (fld mr_key) (\<lambda>key.
           bindc (case key of
               Some k \<Rightarrow> answer (pa_finish a k found)
             | None \<Rightarrow> ret (found = Intact)) (\<lambda>intact.
           received a buf intact))))"

text \<open>A canceled read waits for its transport, stops the worker once, and then lets go.\<close>

definition drain_transport :: "poll_answers \<Rightarrow> bool read_comp" where
  "drain_transport a =
     bindc (fld mr_transport_task) (\<lambda>busy.
     if \<not> busy then ret False
     else
       catchc (poll_transport a) (\<lambda>r.
         case r of
           Inr None \<Rightarrow> ret True
         | Inr (Some (Inl e)) \<Rightarrow> bindc (upd (mr_cleanup_started_update (\<lambda>_. False))) (\<lambda>_. fail (Outside e))
         | Inl e \<Rightarrow> bindc (upd (mr_cleanup_started_update (\<lambda>_. False))) (\<lambda>_. fail e)
         | Inr (Some (Inr _)) \<Rightarrow> ret False))"

definition let_go :: "polled read_comp" where
  "let_go =
     bindc drop_rgb (\<lambda>_.
     bindc (fld mr_failure) (\<lambda>failure.
     bindc (upd (mr_failure_update (\<lambda>_. None))) (\<lambda>_.
     case failure of Some e \<Rightarrow> fail e | None \<Rightarrow> ret (Some None))))"

definition cleanup_step :: "poll_answers \<Rightarrow> polled read_comp" where
  "cleanup_step a =
     bindc (drain_transport a) (\<lambda>wait.
     if wait then ret None
     else
       bindc (fld mr_cleanup_started) (\<lambda>started.
       if \<not> started then
         bindc (start_task a LaunchStop) (\<lambda>_.
         bindc (upd (mr_cleanup_started_update (\<lambda>_. True))) (\<lambda>_.
         ret None))
       else
         bindc (fld mr_transport_task) (\<lambda>busy.
         if busy then ret None
         else bindc release_scheduler (\<lambda>_. let_go))))"

text \<open>The request, the cost of the next attempt, and the lease that admits it.\<close>

definition ensure_request :: "unit read_comp" where
  "ensure_request =
     bindc (fld mr_request) (\<lambda>request.
     if request = None then
       bindc (serving (scheduling (queue_native_read Foreground))) (\<lambda>q.
       upd (mr_request_update (\<lambda>_. Some q)))
     else ret ())"

definition ensure_cost :: "unit read_comp" where
  "ensure_cost =
     bindc (getc id) (\<lambda>(r, s).
     if mr_cost r = None then
       bindc (pure_read (case mr_expected r of
           Some (w, h) \<Rightarrow>
             decode_cost (mr_codec r) w h (length (contents (mr_encoded r)))
               (sl_header_scratch (service_limits s)) (sl_codec_scratch (service_limits s))
         | None \<Rightarrow> header_cost (length (contents (mr_encoded r))) (sl_header_scratch (service_limits s)))) (\<lambda>cost.
       upd (mr_cost_update (\<lambda>_. Some cost)))
     else ret ())"

text \<open>A read that waited for a larger allowance arms the successor of its drained worker.\<close>

definition take_lease :: "poll_answers \<Rightarrow> nat \<Rightarrow> bool read_comp" where
  "take_lease a l =
     bindc (upd (mr_lease_update (\<lambda>_. Some l))) (\<lambda>_.
     bindc (fld mr_requeue) (\<lambda>requeue.
     case requeue of
       None \<Rightarrow> ret True
     | Some _ \<Rightarrow>
         bindc (upd (mr_requeue_update (\<lambda>_. None))) (\<lambda>_.
         bindc (start_task a LaunchRearm) (\<lambda>_.
         bindc (upd (mr_launched_update (\<lambda>_. True))) (\<lambda>_.
         ret True)))))"

text \<open>True when the read holds a lease and goes on in this turn.\<close>

definition ensure_lease :: "poll_answers \<Rightarrow> bool read_comp" where
  "ensure_lease a =
     bindc (getc id) (\<lambda>(r, s).
     if mr_lease r \<noteq> None then ret True
     else if 0 < launch_pauses s \<or> external_native s then ret False
     else
       bindc (lift_option ReadPanic (mr_request r)) (\<lambda>q.
       bindc (lift_option ReadPanic (mr_cost r)) (\<lambda>cost.
       bindc (serving (scheduling (admit_native_read (nrr_id q) cost))) (\<lambda>lease.
       case lease of
         None \<Rightarrow> ret False
       | Some l \<Rightarrow> take_lease a l))))"

text \<open>\<open>std::mem::take\<close> leaves an empty vector; the upload goes to the transport's thread.\<close>

definition ensure_launched :: "poll_answers \<Rightarrow> unit read_comp" where
  "ensure_launched a =
     bindc (fld mr_launched) (\<lambda>launched.
     if launched then ret ()
     else
       bindc (upd (mr_encoded_update (\<lambda>_. no_bytes))) (\<lambda>_.
       bindc (start_task a LaunchHeader) (\<lambda>_.
       upd (mr_launched_update (\<lambda>_. True)))))"

text \<open>The pixels' bytes are reserved before the worker may decode; an older reservation is dropped.\<close>

definition start_decode :: "poll_answers \<Rightarrow> header \<Rightarrow> unit read_comp" where
  "start_decode a h =
     bindc (serving (caching (reserve_rgb (hd_width h) (hd_height h)))) (\<lambda>g.
     bindc drop_rgb (\<lambda>_.
     bindc (upd (mr_rgb_update (\<lambda>_. Some g))) (\<lambda>_.
     bindc (upd (mr_header_update (\<lambda>_. Some h))) (\<lambda>_.
     start_task a LaunchFinish))))"

definition on_header :: "poll_answers \<Rightarrow> header \<Rightarrow> polled read_comp" where
  "on_header a h =
     bindc (getc id) (\<lambda>(r, s).
     bindc (ensure (case mr_key r of None \<Rightarrow> True | Some k \<Rightarrow> hd_width h \<le> pk_edge k \<and> hd_height h \<le> pk_edge k)
         HeaderExceedsTier) (\<lambda>_.
     bindc (pure_read (decode_cost (hd_codec h) (hd_width h) (hd_height h) (hd_input_bytes h)
         (sl_header_scratch (service_limits s)) (sl_codec_scratch (service_limits s)))) (\<lambda>cost.
     bindc (lift_option ReadPanic (mr_lease r)) (\<lambda>lease.
     bindc (serving (scheduling (upgrade_native_read lease cost))) (\<lambda>upgraded.
     if \<not> upgraded then
       bindc (upd (mr_requeue_update (\<lambda>_. Some (cost, hd_width h, hd_height h)))) (\<lambda>_.
       bindc (start_task a LaunchStop) (\<lambda>_.
       ret None))
     else
       bindc (upd (mr_cost_update (\<lambda>_. Some cost))) (\<lambda>_.
       bindc (start_decode a h) (\<lambda>_. ret None)))))))"

definition on_drained :: "polled read_comp" where
  "on_drained =
     bindc (getc fst) (\<lambda>r.
     case mr_requeue r of
       Some (cost, dimensions) \<Rightarrow>
         bindc (lift_option ReadPanic (mr_lease r)) (\<lambda>lease.
         bindc (upd (mr_lease_update (\<lambda>_. None))) (\<lambda>_.
         bindc (serving (scheduling (requeue_native_read lease cost))) (\<lambda>_.
         bindc (upd (\<lambda>r. r\<lparr>mr_cost := Some cost, mr_expected := Some dimensions, mr_header := None\<rparr>)) (\<lambda>_.
         bindc drop_rgb (\<lambda>_.
         ret None)))))
     | None \<Rightarrow> bindc release_scheduler (\<lambda>_. ret (Some None)))"

text \<open>The reservation moves into the committed page; the page is dropped with any later error.\<close>

definition on_pixels :: "poll_answers \<Rightarrow> prepared_rgb \<Rightarrow> polled read_comp" where
  "on_pixels a p =
     bindc (getc fst) (\<lambda>r.
     bindc (upd (mr_rgb_update (\<lambda>_. None))) (\<lambda>_.
     bindc (lift_option (Refused ''decoded RGB reservation missing'') (mr_rgb r)) (\<lambda>g.
     bindc (serving (caching (commit_rgb (mr_cache_key r) p g))) (\<lambda>px.
     bindc (catchc release_scheduler (\<lambda>x. serving (holding_page px x))) (\<lambda>_.
     bindc (serving (holding_page px (map_err Outside (pa_identity a (ei_key (mr_identity r)))))) (\<lambda>current.
     bindc (serving (deliver (mr_identity r) current (mr_tier r) (mr_allow_stale r)
         \<lparr>pv_key = mr_key r, pv_legacy_hash = mr_legacy_hash r, pv_pixels = px,
          pv_record = mr_record r, pv_stale = mr_stale r\<rparr>)) (\<lambda>v.
     ret (Some v))))))))"

definition native_turn :: "poll_answers \<Rightarrow> polled read_comp" where
  "native_turn a =
     bindc (ensure_launched a) (\<lambda>_.
     bindc (poll_transport a) (\<lambda>event.
     case event of
       None \<Rightarrow> ret None
     | Some (Inl e) \<Rightarrow> fail (Outside e)
     | Some (Inr (Header h)) \<Rightarrow> on_header a h
     | Some (Inr Drained) \<Rightarrow> on_drained
     | Some (Inr (Pixels p)) \<Rightarrow> on_pixels a p))"

definition native_step :: "poll_answers \<Rightarrow> polled read_comp" where
  "native_step a =
     bindc ensure_request (\<lambda>_.
     bindc ensure_cost (\<lambda>_.
     bindc (ensure_lease a) (\<lambda>admitted.
     if admitted then native_turn a else ret None)))"

definition advance_managed_read :: "poll_answers \<Rightarrow> polled read_comp" where
  "advance_managed_read a =
     bindc (transfer_step a) (\<lambda>early.
     case early of
       Some result \<Rightarrow> ret result
     | None \<Rightarrow>
         bindc (fld mr_cancel) (\<lambda>canceled.
         if canceled then cleanup_step a else native_step a))"

definition released :: "managed_read \<Rightarrow> bool" where
  "released r \<longleftrightarrow> mr_cleanup_started r \<and> \<not> mr_transport_task r \<and> mr_lease r = None \<and> mr_request r = None"

text \<open>
  An error ends the read only when everything is released; before that it is kept, and the
  read is canceled. (A corrupt object is reported to the store as well, which answers with
  nothing the read looks at.)
\<close>

definition poll_failed :: "read_error \<Rightarrow> polled read_comp" where
  "poll_failed e =
     bindc (fld mr_cancel) (\<lambda>canceled.
     if canceled \<and> e = Outside (WireFailure WireCanceled) then ret None
     else
       bindc (upd (mr_preempting_update (\<lambda>_. False))) (\<lambda>_.
       bindc (fld released) (\<lambda>over.
       if over then fail e
       else
         bindc (upd (\<lambda>r. r\<lparr>mr_failure := (if mr_failure r = None then Some e else mr_failure r), mr_cancel := True\<rparr>)) (\<lambda>_.
         ret None))))"

definition poll_managed_read :: "poll_answers \<Rightarrow> polled read_comp" where
  "poll_managed_read a =
     bindc (getc (\<lambda>(r, s). (case mr_request r of None \<Rightarrow> False | Some q \<Rightarrow> flag_load (scheduler s) (nrr_preempted q))
         \<and> \<not> mr_cancel r)) (\<lambda>preempted.
     bindc (upd (\<lambda>r. if preempted then preempt r else r)) (\<lambda>_.
     catchc (advance_managed_read a) (\<lambda>r.
       case r of Inr x \<Rightarrow> ret x | Inl e \<Rightarrow> poll_failed e)))"

end
