(* ===== verification/Read_Registry.thy ===== *)
theory Read_Registry
  imports Scheduler_Correct Run_Logic
begin

text \<open>
  The preview scheduler as the owner of native reads sees it: a registry of requests, each
  waiting or under a lease. The locale states what the operations promise of it to whoever holds
  a request; the scheduler keeps these promises in every state of its invariant.
\<close>

locale read_registry =
  fixes ok :: "'s \<Rightarrow> bool"
    and registry :: "'s \<Rightarrow> nat \<Rightarrow> nat option option"
    and fits :: "'s \<Rightarrow> nat \<Rightarrow> bool"
    and refusal :: "'e \<Rightarrow> bool"
    and number :: "'q \<Rightarrow> nat"
    and enroll :: "'p \<Rightarrow> ('s, 'e, 'q) comp"
    and admit :: "nat \<Rightarrow> nat \<Rightarrow> ('s, 'e, nat option) comp"
    and upgrade :: "nat \<Rightarrow> nat \<Rightarrow> ('s, 'e, bool) comp"
    and requeue :: "nat \<Rightarrow> nat \<Rightarrow> ('s, 'e, unit) comp"
    and withdraw :: "nat \<Rightarrow> ('s, 'e, unit) comp"
    and release :: "nat \<Rightarrow> ('s, 'e, unit) comp"
  assumes enroll_law: "ok s \<Longrightarrow> ends (enroll p s) (\<lambda>r t. ok t \<and> fits t = fits s
      \<and> (case r of Inl e \<Rightarrow> refusal e \<and> registry t = registry s
         | Inr q \<Rightarrow> registry s (number q) = None \<and> registry t = (registry s)(number q \<mapsto> None)))"
    and admit_law: "ok s \<Longrightarrow> registry s i = Some None \<Longrightarrow> ends (admit i c s) (\<lambda>r t. ok t \<and> fits t = fits s
      \<and> (case r of Inl e \<Rightarrow> refusal e \<and> registry t = registry s
         | Inr None \<Rightarrow> registry t = registry s
         | Inr (Some l) \<Rightarrow> fits s c \<and> registry t = (registry s)(i \<mapsto> Some l)))"
    and upgrade_law: "ok s \<Longrightarrow> registry s i = Some (Some l) \<Longrightarrow> ends (upgrade l c s) (\<lambda>r t. ok t \<and> fits t = fits s
      \<and> registry t = registry s \<and> (case r of Inl e \<Rightarrow> refusal e | Inr _ \<Rightarrow> fits s c))"
    and requeue_law: "ok s \<Longrightarrow> registry s i = Some (Some l) \<Longrightarrow> fits s c \<Longrightarrow> ends (requeue l c s) (\<lambda>r t. ok t \<and> fits t = fits s
      \<and> r = Inr () \<and> registry t = (registry s)(i \<mapsto> None))"
    and withdraw_law: "ok s \<Longrightarrow> registry s i = Some None \<Longrightarrow> ends (withdraw i s) (\<lambda>r t. ok t \<and> fits t = fits s
      \<and> r = Inr () \<and> registry t = (registry s)(i := None))"
    and release_law: "ok s \<Longrightarrow> registry s i = Some (Some l) \<Longrightarrow> ends (release l s) (\<lambda>r t. ok t \<and> fits t = fits s
      \<and> r = Inr () \<and> registry t = (registry s)(i := None))"
begin

text \<open>Over the requests \<open>F\<close> of everybody else, the holder of request \<open>i\<close> only ever changes its own place.\<close>

lemma hold_enrolled: "ok s \<Longrightarrow> registry s = F \<Longrightarrow> ends (enroll p s) (\<lambda>r t. ok t \<and> fits t = fits s
    \<and> (case r of Inl e \<Rightarrow> refusal e \<and> registry t = F
       | Inr q \<Rightarrow> F (number q) = None \<and> registry t = F(number q \<mapsto> None)))"
  by (rule ends_weaken [OF enroll_law]) auto

lemma hold_admitted: "ok s \<Longrightarrow> F i = None \<Longrightarrow> registry s = F(i \<mapsto> None) \<Longrightarrow> ends (admit i c s) (\<lambda>r t. ok t \<and> fits t = fits s
    \<and> (case r of Inl e \<Rightarrow> refusal e \<and> registry t = F(i \<mapsto> None)
       | Inr None \<Rightarrow> registry t = F(i \<mapsto> None)
       | Inr (Some l) \<Rightarrow> fits s c \<and> registry t = F(i \<mapsto> Some l)))"
  by (rule ends_weaken [OF admit_law [of s i]]) (auto split: sum.splits option.splits)

lemma hold_upgraded: "ok s \<Longrightarrow> registry s = F(i \<mapsto> Some l) \<Longrightarrow> ends (upgrade l c s) (\<lambda>r t. ok t \<and> fits t = fits s
    \<and> registry t = F(i \<mapsto> Some l) \<and> (case r of Inl e \<Rightarrow> refusal e | Inr _ \<Rightarrow> fits s c))"
  by (rule ends_weaken [OF upgrade_law [of s i]]) auto

lemma hold_requeued: "ok s \<Longrightarrow> registry s = F(i \<mapsto> Some l) \<Longrightarrow> fits s c \<Longrightarrow>
    ends (requeue l c s) (\<lambda>r t. ok t \<and> fits t = fits s \<and> r = Inr () \<and> registry t = F(i \<mapsto> None))"
  by (rule ends_weaken [OF requeue_law [of s i]]) auto

lemma hold_withdrawn: "ok s \<Longrightarrow> F i = None \<Longrightarrow> registry s = F(i \<mapsto> None) \<Longrightarrow>
    ends (withdraw i s) (\<lambda>r t. ok t \<and> fits t = fits s \<and> r = Inr () \<and> registry t = F)"
  by (rule ends_weaken [OF withdraw_law [of s i]]) (auto simp: fun_upd_idem)

lemma hold_released: "ok s \<Longrightarrow> F i = None \<Longrightarrow> registry s = F(i \<mapsto> Some l) \<Longrightarrow>
    ends (release l s) (\<lambda>r t. ok t \<and> fits t = fits s \<and> r = Inr () \<and> registry t = F)"
  by (rule ends_weaken [OF release_law [of s i]]) (auto simp: fun_upd_idem)

end

section \<open>The scheduler keeps the promises\<close>

definition read_leases :: "preview_scheduler \<Rightarrow> nat \<Rightarrow> nat option option" where
  "read_leases s i = map_option nr_lease (map_of (external s) i)"

definition cost_fits :: "preview_scheduler \<Rightarrow> nat \<Rightarrow> bool" where
  "cost_fits s c \<longleftrightarrow> 0 < c \<and> c \<le> lim_working_bytes (limits s)"

definition read_refusal :: "sched_error \<Rightarrow> bool" where
  "read_refusal e \<longleftrightarrow> e \<in> {PreviewRequestQueueFull, NativeWorkingAllowance, RequestIdentityOverflow}"

lemma leases_upd [simp]:
  "read_leases (s\<lparr>next_id := n\<rparr>) = read_leases s" "read_leases (s\<lparr>flags := f\<rparr>) = read_leases s"
  "read_leases (s\<lparr>reserved := b\<rparr>) = read_leases s" "read_leases (s\<lparr>jobs := j\<rparr>) = read_leases s"
  "read_leases (flag_store a v s) = read_leases s"
  by (simp_all add: read_leases_def flag_store_def fun_eq_iff)

lemma fits_upd [simp]:
  "cost_fits (s\<lparr>next_id := n\<rparr>) = cost_fits s" "cost_fits (s\<lparr>flags := f\<rparr>) = cost_fits s"
  "cost_fits (s\<lparr>reserved := b\<rparr>) = cost_fits s" "cost_fits (s\<lparr>external := x\<rparr>) = cost_fits s"
  "cost_fits (flag_store a v s) = cost_fits s"
  by (simp_all add: cost_fits_def flag_store_def fun_eq_iff)

lemma bindc_cost_fits:
  "bindc (read_cost c) g s = (if cost_fits s c then g () s else (Inl NativeWorkingAllowance, s))"
  by (simp add: bindc_read_cost cost_fits_def)

lemma leases_external:
  "read_leases (s\<lparr>external := hm_insert i r (external s)\<rparr>) = (read_leases s)(i \<mapsto> nr_lease r)"
  "read_leases (s\<lparr>external := hm_remove i (external s)\<rparr>) = (read_leases s)(i := None)"
  "map_of (external s) i = Some r \<Longrightarrow>
     read_leases (s\<lparr>external := hm_adjust i f (external s)\<rparr>) = (read_leases s)(i \<mapsto> nr_lease (f r))"
  by (auto simp: read_leases_def fun_eq_iff hm_simps)

lemma leases_some: "read_leases s i = Some l \<longleftrightarrow> (\<exists>r. map_of (external s) i = Some r \<and> nr_lease r = l)"
  by (auto simp: read_leases_def)

lemma leases_frame:
  "external t = external s \<Longrightarrow> read_leases t = read_leases s"
  "limits t = limits s \<Longrightarrow> cost_fits t = cost_fits s"
  by (auto simp: read_leases_def cost_fits_def fun_eq_iff)

lemma preempt_leases:
  assumes "sched_inv s"
  obtains t where "preempt_background s = (Inr (), t)" "sched_inv t" "preempt_frame s t"
    "read_leases t = read_leases s" "cost_fits t = cost_fits s"
proof -
  obtain t where t: "preempt_background s = (Inr (), t)" "sched_inv t" "preempt_frame s t"
    using preempt_background_ok [OF assms] by blast
  then have "external t = external s" "limits t = limits s" by (simp_all add: preempt_frame_def)
  from leases_frame(1) [OF this(1)] leases_frame(2) [OF this(2)] t show thesis by (intro that)
qed

lemma leased_request:
  assumes inv: "sched_inv s" and l: "read_leases s i = Some (Some l)"
  obtains r where "read_request l s = (Inr i, s)" "map_of (external s) i = Some r" "nr_lease r = Some l"
proof -
  from l obtain r where r: "map_of (external s) i = Some r" "nr_lease r = Some l" by (auto simp: leases_some)
  from inv show thesis
  proof (cases rule: read_request_cases [where l = l])
    case missing
    with r show ?thesis by blast
  next
    case (found j r')
    have "apart_reads (map_of (external s))" using inv by (simp add: sched_inv_def inv_apart_def)
    with found r have "j = i" unfolding apart_reads_def by (metis option.distinct(1))
    with found(1) r that show ?thesis by simp
  qed
qed

lemma enroll_ends:
  assumes inv: "sched_inv s"
  shows "ends (queue_native_read p s) (\<lambda>r t. sched_inv t \<and> cost_fits t = cost_fits s
      \<and> (case r of Inl e \<Rightarrow> read_refusal e \<and> read_leases t = read_leases s
         | Inr q \<Rightarrow> read_leases s (nrr_id q) = None \<and> read_leases t = (read_leases s)(nrr_id q \<mapsto> None)))"
proof (cases "length (consumers s) + length (external s) < lim_requests (limits s)")
  case room: True
  show ?thesis
  proof (cases rule: serial_cases [of s])
    case fail
    then show ?thesis using inv room
      by (simp add: ends_def queue_native_read_def bindc_Inl [where m = serial] read_refusal_def)
  next
    case ok
    let ?t = "s\<lparr>next_id := Suc (next_id s), flags := flags s @ [False],
           external := hm_insert (next_id s)
             \<lparr>nr_priority = p, nr_cost = 0, nr_lease = None, nr_preempted = length (flags s)\<rparr> (external s)\<rparr>"
    obtain u where u: "preempt_background ?t = (Inr (), u)" "sched_inv u" "read_leases u = read_leases ?t"
        "cost_fits u = cost_fits ?t"
      using preempt_leases [OF inv_read_insert [OF inv ok(2) room]] by metis
    have "map_of (external s) (next_id s) = None"
      using inv_read [OF inv, of "next_id s"] by (cases "map_of (external s) (next_id s)") (auto simp: nread_ok_def)
    moreover have "read_leases ?t = (read_leases s)(next_id s \<mapsto> None)"
      using leases_external(1) [where s = "s\<lparr>next_id := Suc (next_id s), flags := flags s @ [False]\<rparr>"] by simp
    moreover have "cost_fits ?t = cost_fits s" by simp
    ultimately show ?thesis using room u
      by (simp add: ends_def queue_native_read_def bindc_Inr [where m = serial, OF ok(1)]
          bindc_flag_new bindc_Inr [where m = preempt_background] read_leases_def)
  qed
qed (use inv in \<open>simp add: ends_def queue_native_read_def read_refusal_def\<close>)

lemma admit_ends:
  assumes inv: "sched_inv s" and l: "read_leases s i = Some None"
  shows "ends (admit_native_read i c s) (\<lambda>r t. sched_inv t \<and> cost_fits t = cost_fits s
      \<and> (case r of Inl e \<Rightarrow> read_refusal e \<and> read_leases t = read_leases s
         | Inr None \<Rightarrow> read_leases t = read_leases s
         | Inr (Some l) \<Rightarrow> cost_fits s c \<and> read_leases t = (read_leases s)(i \<mapsto> Some l)))"
proof (cases "cost_fits s c")
  case False
  then show ?thesis using inv by (simp add: ends_def admit_native_read_def bindc_cost_fits read_refusal_def)
next
  case cost: True
  from l obtain r where r: "map_of (external s) i = Some r" "nr_lease r = None" by (auto simp: leases_some)
  let ?u = "s\<lparr>external := hm_adjust i (\<lambda>r. r\<lparr>nr_cost := c\<rparr>) (external s)\<rparr>"
  obtain t where t: "preempt_background ?u = (Inr (), t)" "sched_inv t" "preempt_frame ?u t"
      "read_leases t = read_leases ?u" "cost_fits t = cost_fits ?u"
    using preempt_leases [OF inv_set_cost [OF inv r]] by metis
  have ext: "map_of (external t) i = Some (r\<lparr>nr_cost := c\<rparr>)"
    using t(3) r(1) by (simp add: preempt_frame_def hm_simps)
  have same: "read_leases t = read_leases s" "cost_fits t = cost_fits s"
    using r t(4,5) l by (simp_all add: leases_external fun_upd_idem)
  have inv': "sched_inv (snd (admit_native_read i c s))" using safe_opD [OF admit_native_read_safe [OF inv]] by blast
  have eq: "admit_native_read i c s = bindc (admission_blocked i c) (\<lambda>blocked.
        if blocked then ret None
        else bindc serial (\<lambda>lease.
          bindc (modc (\<lambda>s. s\<lparr>external := hm_adjust i (\<lambda>r. r\<lparr>nr_lease := Some lease\<rparr>) (external s),
                            reserved := reserved s + c\<rparr>)) (\<lambda>_. ret (Some lease)))) t"
    using r cost by (simp add: admit_native_read_def bindc_cost_fits bindc_Inr [where m = preempt_background, OF t(1)])
  obtain b where b: "admission_blocked i c t = (Inr b, t)" using admission_blocked_eq [OF t(2)] by blast
  show ?thesis
  proof (cases b)
    case True
    then show ?thesis using eq t(2) same by (simp add: ends_def bindc_Inr [where m = "admission_blocked i c", OF b])
  next
    case go: False
    show ?thesis
    proof (cases rule: serial_cases [of t])
      case fail
      then show ?thesis using eq t(2) same go
        by (simp add: ends_def bindc_Inr [where m = "admission_blocked i c", OF b] bindc_Inl [where m = serial] read_refusal_def)
    next
      case ok
      let ?v = "t\<lparr>next_id := Suc (next_id t)\<rparr>"
      have run: "admit_native_read i c s = (Inr (Some (next_id t)),
          ?v\<lparr>external := hm_adjust i (\<lambda>r. r\<lparr>nr_lease := Some (next_id t)\<rparr>) (external ?v), reserved := reserved ?v + c\<rparr>)"
        using eq go by (simp add: bindc_Inr [where m = "admission_blocked i c", OF b] bindc_Inr [where m = serial, OF ok(1)])
      show ?thesis using inv' cost ext same leases_external(3) [where s = ?v and r = "r\<lparr>nr_cost := c\<rparr>"]
        by (simp add: ends_def run)
    qed
  qed
qed

lemma upgrade_ends:
  assumes inv: "sched_inv s" and l: "read_leases s i = Some (Some l)"
  shows "ends (upgrade_native_read l c s) (\<lambda>r t. sched_inv t \<and> cost_fits t = cost_fits s
      \<and> read_leases t = read_leases s \<and> (case r of Inl e \<Rightarrow> read_refusal e | Inr _ \<Rightarrow> cost_fits s c))"
proof (cases "cost_fits s c")
  case False
  then show ?thesis using inv by (simp add: ends_def upgrade_native_read_def bindc_cost_fits read_refusal_def)
next
  case cost: True
  obtain r where r: "read_request l s = (Inr i, s)" "map_of (external s) i = Some r" "nr_lease r = Some l"
    using leased_request [OF inv l] .
  let ?others = "reserved s - nr_cost r"
  let ?t = "s\<lparr>reserved := ?others + c, external := hm_adjust i (\<lambda>r. r\<lparr>nr_cost := c\<rparr>) (external s)\<rparr>"
  have held: "nr_cost r \<le> reserved s" using read_charged [OF inv r(2)] r(3) by (simp add: read_charge_def)
  have le: "?others \<le> lim_working_bytes (limits s)" using reserved_le [OF inv] by simp
  have eq: "upgrade_native_read l c s =
      (if lim_working_bytes (limits s) - ?others < c then (Inr False, s) else (Inr True, ?t))"
    using cost r held le
    by (simp add: upgrade_native_read_def bindc_cost_fits bindc_Inr [where m = "read_request l"] bindc_candidate_cost)
  have "read_leases ?t = read_leases s"
    using leases_external(3) [where s = "s\<lparr>reserved := ?others + c\<rparr>" and f = "\<lambda>r. r\<lparr>nr_cost := c\<rparr>"] r l by (simp add: fun_upd_idem)
  moreover have "sched_inv (snd (upgrade_native_read l c s))" using safe_opD [OF upgrade_native_read_safe [OF inv]] by blast
  ultimately show ?thesis using eq cost by (simp add: ends_def split: if_splits)
qed

lemma requeue_ends:
  assumes inv: "sched_inv s" and l: "read_leases s i = Some (Some l)" and cost: "cost_fits s c"
  shows "ends (requeue_native_read l c s) (\<lambda>r t. sched_inv t \<and> cost_fits t = cost_fits s
      \<and> r = Inr () \<and> read_leases t = (read_leases s)(i \<mapsto> None))"
proof -
  obtain r where r: "read_request l s = (Inr i, s)" "map_of (external s) i = Some r" "nr_lease r = Some l"
    using leased_request [OF inv l] .
  let ?f = "\<lambda>r. r\<lparr>nr_lease := None, nr_cost := c\<rparr>"
  let ?u = "s\<lparr>reserved := reserved s - nr_cost r, external := hm_adjust i ?f (external s)\<rparr>"
  let ?v = "flag_store (nr_preempted r) False ?u"
  have held: "nr_cost r \<le> reserved s" using read_charged [OF inv r(2)] r(3) by (simp add: read_charge_def)
  have u: "sched_inv ?u"
    using inv_read_update [OF inv r(2), of ?f "next_id s" "reserved s - nr_cost r"]
      inv_read [OF inv r(2)] r(3) inv_next_id [OF inv] held reserved_le [OF inv]
    by (simp add: nread_ok_def read_charge_def upd_order)
  have "map_of (external ?u) i = Some (?f r)" using r(2) by (simp add: hm_simps)
  from inv_read_flag [OF u this, of False] have v: "sched_inv ?v" by simp
  obtain t where t: "preempt_background ?v = (Inr (), t)" "sched_inv t" "read_leases t = read_leases ?v"
      "cost_fits t = cost_fits ?v"
    using preempt_leases [OF v] by metis
  have "requeue_native_read l c s = preempt_background ?v"
    using r cost held
    by (simp add: requeue_native_read_def bindc_cost_fits bindc_Inr [where m = "read_request l"]
        bindc_def [of "unreserve _"] unreserve_def)
  moreover have "read_leases ?v = (read_leases s)(i \<mapsto> None)"
    using leases_external(3) [where s = "s\<lparr>reserved := reserved s - nr_cost r\<rparr>" and f = ?f] r(2) by simp
  moreover have "cost_fits ?v = cost_fits s" by simp
  ultimately show ?thesis using t by (simp add: ends_def)
qed

lemma withdraw_ends:
  assumes inv: "sched_inv s" and l: "read_leases s i = Some None"
  shows "ends (cancel_queued_native_read i s) (\<lambda>r t. sched_inv t \<and> cost_fits t = cost_fits s
      \<and> r = Inr () \<and> read_leases t = (read_leases s)(i := None))"
  using l safe_opD [OF cancel_queued_native_read_safe [OF inv], of i]
  by (auto simp: ends_def cancel_queued_native_read_def leases_some leases_external)

lemma release_ends:
  assumes inv: "sched_inv s" and l: "read_leases s i = Some (Some l)"
  shows "ends (release_native_read l s) (\<lambda>r t. sched_inv t \<and> cost_fits t = cost_fits s
      \<and> r = Inr () \<and> read_leases t = (read_leases s)(i := None))"
proof -
  obtain r where r: "read_request l s = (Inr i, s)" "map_of (external s) i = Some r" "nr_lease r = Some l"
    using leased_request [OF inv l] .
  have "nr_cost r \<le> reserved s" using read_charged [OF inv r(2)] r(3) by (simp add: read_charge_def)
  with r have "release_native_read l s
      = (Inr (), (s\<lparr>external := hm_remove i (external s)\<rparr>)\<lparr>reserved := reserved s - nr_cost r\<rparr>)"
    by (simp add: release_native_read_def bindc_Inr [where m = "read_request l"] unreserve_def)
  moreover have "sched_inv (snd (release_native_read l s))" using safe_opD [OF release_native_read_safe [OF inv]] by blast
  ultimately show ?thesis by (simp add: ends_def leases_external)
qed

interpretation native: read_registry sched_inv read_leases cost_fits read_refusal nrr_id queue_native_read
    admit_native_read upgrade_native_read requeue_native_read cancel_queued_native_read release_native_read
  by unfold_locales (fact enroll_ends admit_ends upgrade_ends requeue_ends withdraw_ends release_ends)+

end
