(* ===== verification/Read_Queue.thy ===== *)
theory Read_Queue
  imports Managed_Poll Read_Registry
begin

text \<open>
  The queue of retained-image reads (\<open>preview/read_queue.rs\<close>): tickets, the one active managed
  read, the pending reads with their places in the scheduler's queue, and the completions. The
  service also runs render jobs on the same scheduler; its steps interleave with these.
\<close>

section \<open>Tickets\<close>

definition queue_length :: "read_queue \<Rightarrow> nat" where
  "queue_length q = length (rq_pending q) + length (rq_completed q) + (if rq_active q = None then 0 else 1)"

definition available_request_slots :: "preview_service \<Rightarrow> nat" where
  "available_request_slots s = sl_requests (service_limits s) - (consumer_count s + queue_length (reads s))"

definition on_reads :: "(read_queue \<Rightarrow> read_queue) \<Rightarrow> preview_service \<Rightarrow> preview_service" where
  "on_reads f s = s\<lparr>reads := f (reads s)\<rparr>"

definition set_active :: "(nat \<times> pending_read \<times> managed_read \<times> bool) option \<Rightarrow> preview_service \<Rightarrow> preview_service" where
  "set_active x = on_reads (rq_active_update (\<lambda>_. x))"

definition insert_pending :: "nat \<Rightarrow> pending_read \<Rightarrow> preview_service \<Rightarrow> preview_service" where
  "insert_pending t p = on_reads (rq_pending_update (hm_insert t p))"

definition remove_pending :: "nat \<Rightarrow> preview_service \<Rightarrow> preview_service" where
  "remove_pending t = on_reads (rq_pending_update (hm_remove t))"

definition complete :: "nat \<Rightarrow> read_outcome \<Rightarrow> preview_service \<Rightarrow> preview_service" where
  "complete t out = on_reads (rq_completed_update (hm_insert t out))"

text \<open>\<open>let _ = scheduler.cancel_queued_native_read(..)\<close>.\<close>

definition give_up :: "native_read_request option \<Rightarrow> preview_service \<Rightarrow> preview_service" where
  "give_up native s =
     (case native of None \<Rightarrow> s | Some q \<Rightarrow> snd (scheduling (cancel_queued_native_read (nrr_id q)) s))"

text \<open>A view nobody takes is dropped with its reference to the page.\<close>

definition discard :: "read_error + preview_view option \<Rightarrow> preview_service \<Rightarrow> preview_service" where
  "discard r s = (case r of Inr (Some v) \<Rightarrow> snd (drop_page (pv_pixels v) s) | _ \<Rightarrow> s)"

section \<open>Requests\<close>

definition preempt_active :: "read_queue \<Rightarrow> read_queue" where
  "preempt_active q =
     (case rq_active q of
        Some (t, p, m, abandoned) \<Rightarrow>
          if pr_priority p = Background \<and> \<not> abandoned
          then q\<lparr>rq_active := Some (t, p, preempt m, abandoned)\<rparr>
          else q
      | None \<Rightarrow> q)"

definition queue_read_variant ::
  "(variant_key \<Rightarrow> outside_error + edit_identity) \<Rightarrow> (bool \<Rightarrow> edit_identity \<Rightarrow> tier \<Rightarrow> outside_error + preview_key) \<Rightarrow>
     variant_key \<Rightarrow> tier \<Rightarrow> bool \<Rightarrow> priority \<Rightarrow> bool \<Rightarrow> nat service_comp" where
  "queue_read_variant identities keys variant tier allow_stale p interactive =
     bindc (getc (\<lambda>s. 0 < available_request_slots s)) (\<lambda>room.
     bindc (ensure room (Refused ''preview request allowance exhausted'')) (\<lambda>_.
     bindc (answer (identities variant)) (\<lambda>expected.
     bindc (answer (keys interactive expected tier)) (\<lambda>_.
     bindc (getc (\<lambda>s. checked_add (rq_next (reads s)) 1)) (\<lambda>n.
     bindc (lift_option (Refused ''read ticket overflow'') n) (\<lambda>t.
     bindc (modc (on_reads (rq_next_update (\<lambda>_. t)))) (\<lambda>_.
     bindc (getc staged) (\<lambda>managed.
     bindc (if managed
            then bindc (scheduling (queue_native_read p)) (\<lambda>q. ret (Some q))
            else ret None) (\<lambda>native.
     bindc (modc (on_reads (if p = Foreground then preempt_active else id))) (\<lambda>_.
     bindc (modc (insert_pending t \<lparr>pr_expected = expected, pr_native = native, pr_interactive = interactive,
         pr_tier = tier, pr_allow_stale = allow_stale, pr_priority = p\<rparr>)) (\<lambda>_.
     ret t)))))))))))"

definition queue_read ::
  "(variant_key \<Rightarrow> outside_error + edit_identity) \<Rightarrow> (bool \<Rightarrow> edit_identity \<Rightarrow> tier \<Rightarrow> outside_error + preview_key) \<Rightarrow>
     string \<Rightarrow> tier \<Rightarrow> bool \<Rightarrow> priority \<Rightarrow> nat service_comp" where
  "queue_read identities keys asset tier allow_stale p =
     queue_read_variant identities keys \<lparr>vk_asset = asset, vk_variant = MASTER\<rparr> tier allow_stale p False"

definition abandon :: "managed_read \<Rightarrow> managed_read" where
  "abandon m = m\<lparr>mr_preempting := False, mr_cancel := True\<rparr>"

definition discard_completion :: "nat \<Rightarrow> preview_service \<Rightarrow> preview_service" where
  "discard_completion t s =
     (case map_of (rq_completed (reads s)) t of
        Some (OutcomeReady v) \<Rightarrow> discard (Inr (Some v)) s
      | _ \<Rightarrow> s)"

definition cancel_waiting :: "nat \<Rightarrow> preview_service \<Rightarrow> bool \<times> preview_service" where
  "cancel_waiting t s =
     (case map_of (rq_pending (reads s)) t of
        Some p \<Rightarrow> (True, give_up (pr_native p) (remove_pending t s))
      | None \<Rightarrow>
          (map_of (rq_completed (reads s)) t \<noteq> None,
           on_reads (rq_completed_update (hm_remove t)) (discard_completion t s)))"

definition cancel_read :: "nat \<Rightarrow> preview_service \<Rightarrow> bool \<times> preview_service" where
  "cancel_read t s =
     (case rq_active (reads s) of
        Some (u, p, m, abandoned) \<Rightarrow>
          if u = t then (True, set_active (Some (u, p, abandon m, True)) s) else cancel_waiting t s
      | None \<Rightarrow> cancel_waiting t s)"

definition take_read :: "nat \<Rightarrow> preview_service \<Rightarrow> read_outcome option \<times> preview_service" where
  "take_read t s =
     (map_of (rq_completed (reads s)) t, on_reads (rq_completed_update (hm_remove t)) s)"

section \<open>Turns of the owner\<close>

text \<open>Foreground first, then arrival.\<close>

definition pick_read :: "read_queue \<Rightarrow> (nat \<times> pending_read) option" where
  "pick_read q = min_by_key (\<lambda>(t, p). (reverse_rank (pr_priority p), t)) (rq_pending q)"

definition resource_limit :: "read_error \<Rightarrow> bool" where
  "resource_limit e \<longleftrightarrow>
     e \<in> {Memory DecodedBudgetExceeded, EncodedBudgetExceeded, Outside StagingLimit, Outside StoreLimit,
        Scheduling NativeWorkingAllowance}"

definition outcome_of :: "read_error + preview_view option \<Rightarrow> read_outcome" where
  "outcome_of r =
     (case r of
        Inr (Some v) \<Rightarrow> OutcomeReady v
      | Inr None \<Rightarrow> OutcomeMissing
      | Inl e \<Rightarrow> OutcomeFailed (resource_limit e))"

text \<open>The end of a turn in which a read ended: its queued request is canceled, its outcome kept.\<close>

definition finish_read ::
  "nat \<Rightarrow> native_read_request option \<Rightarrow> read_error + preview_view option \<Rightarrow> bool \<Rightarrow> preview_service \<Rightarrow>
     nat option \<times> preview_service" where
  "finish_read t native r abandoned s =
     (let s = give_up native s in
      if abandoned then (None, discard r s) else (Some t, complete t (outcome_of r) s))"

text \<open>The active read is taken out of the queue, polled, and put back unless it ended.\<close>

definition tick_active ::
  "poll_answers \<Rightarrow> nat \<Rightarrow> pending_read \<Rightarrow> managed_read \<Rightarrow> bool \<Rightarrow> preview_service \<Rightarrow> nat option \<times> preview_service" where
  "tick_active a t p m abandoned s =
     (case poll_managed_read a (m, set_active None s) of
        (r, (m, s)) \<Rightarrow>
          (case r of
             Inr None \<Rightarrow> (None, set_active (Some (t, p, m, abandoned)) s)
           | Inr (Some v) \<Rightarrow>
               if mr_preempting m \<and> \<not> abandoned
               then (None, insert_pending t (p\<lparr>pr_native := mr_request m\<rparr>) (drop_managed_read m (discard (Inr v) s)))
               else finish_read t (pr_native p) (Inr v) abandoned (drop_managed_read m s)
           | Inl e \<Rightarrow> finish_read t (pr_native p) (Inl e) abandoned (drop_managed_read m s)))"

definition begin_pending :: "begin_answers \<Rightarrow> (variant_key \<Rightarrow> outside_error + edit_identity) \<Rightarrow> pending_read \<Rightarrow> begun service_comp" where
  "begin_pending b identities p =
     bindc (answer (identities (ei_key (pr_expected p)))) (\<lambda>current.
     if \<not> same_edit current (pr_expected p) then ret (Ready None)
     else begin_managed_read b (ei_key (pr_expected p)) (pr_tier p) (pr_allow_stale p) (pr_interactive p) False)"

definition tick_pending ::
  "begin_answers \<Rightarrow> (variant_key \<Rightarrow> outside_error + edit_identity) \<Rightarrow> preview_service \<Rightarrow> nat option \<times> preview_service" where
  "tick_pending b identities s =
     (case pick_read (reads s) of
        None \<Rightarrow> (None, s)
      | Some (t, p) \<Rightarrow>
          (case begin_pending b identities p (remove_pending t s) of
             (Inr (Pending m), s) \<Rightarrow>
               (None, set_active (Some (t, p\<lparr>pr_native := None\<rparr>, m\<lparr>mr_request := pr_native p\<rparr>, False)) s)
           | (Inr (Ready v), s) \<Rightarrow> finish_read t (pr_native p) (Inr v) False s
           | (Inl e, s) \<Rightarrow> finish_read t (pr_native p) (Inl e) False s))"

definition tick_managed_read_queue ::
  "poll_answers \<Rightarrow> begin_answers \<Rightarrow> (variant_key \<Rightarrow> outside_error + edit_identity) \<Rightarrow> preview_service \<Rightarrow>
     nat option \<times> preview_service" where
  "tick_managed_read_queue a b identities s =
     (case rq_active (reads s) of
        Some (t, p, m, abandoned) \<Rightarrow> tick_active a t p m abandoned s
      | None \<Rightarrow> tick_pending b identities s)"

text \<open>
  \<open>tick_read\<close> of a service whose store works through the filesystem worker. (Without one, each
  read is a single synchronous call outside the scheduler.)
\<close>

definition tick_read ::
  "poll_answers \<Rightarrow> begin_answers \<Rightarrow> (variant_key \<Rightarrow> outside_error + edit_identity) \<Rightarrow> preview_service \<Rightarrow>
     nat option \<times> preview_service" where
  "tick_read a b identities s =
     (if delivery_io s \<or> delivery_pending s \<and> rq_active (reads s) = None then (None, s)
      else tick_managed_read_queue a b identities s)"

section \<open>Shutdown\<close>

definition drain_read :: "outside_error + unit \<Rightarrow> outside_error + unit \<Rightarrow> outside_error + unit \<Rightarrow> unit read_comp" where
  "drain_read task_end transport_end job_end =
     bindc (upd abandon) (\<lambda>_.
     bindc (fld mr_encoded_task) (\<lambda>running.
     bindc (if running then answer task_end else ret ()) (\<lambda>_.
     bindc (upd (mr_encoded_task_update (\<lambda>_. False))) (\<lambda>_.
     bindc (fld mr_transport_task) (\<lambda>busy.
     bindc (if busy then answer transport_end else ret ()) (\<lambda>_.
     bindc (upd (mr_transport_task_update (\<lambda>_. False))) (\<lambda>_.
     answer job_end)))))))"

definition with_active :: "'a read_comp \<Rightarrow> (managed_read \<Rightarrow> 'a \<Rightarrow> preview_service \<Rightarrow> preview_service) \<Rightarrow> unit service_comp" where
  "with_active f done s =
     (case rq_active (reads s) of
        None \<Rightarrow> (Inr (), s)
      | Some (t, p, m, abandoned) \<Rightarrow>
          (case f (m, s) of
             (Inl e, (m, s)) \<Rightarrow> (Inl e, set_active (Some (t, p, m, abandoned)) s)
           | (Inr x, (m, s)) \<Rightarrow> (Inr (), done m x (set_active (Some (t, p, m, abandoned)) s))))"

definition try_read_shutdown :: "outside_error + unit \<Rightarrow> outside_error + unit \<Rightarrow> outside_error + unit \<Rightarrow> unit service_comp" where
  "try_read_shutdown task_end transport_end job_end =
     with_active (drain_read task_end transport_end job_end) (\<lambda>_ _ s. s)"

definition finish_read_shutdown :: "unit service_comp" where
  "finish_read_shutdown = with_active release_scheduler (\<lambda>m _ s. drop_managed_read m (set_active None s))"

definition abandon_active :: "preview_service \<Rightarrow> preview_service" where
  "abandon_active s =
     (case rq_active (reads s) of
        None \<Rightarrow> s
      | Some (t, p, m, abandoned) \<Rightarrow> set_active (Some (t, p, abandon m, True)) s)"

definition signal_read_shutdown :: "preview_service \<Rightarrow> preview_service" where
  "signal_read_shutdown s =
     abandon_active
       (fold (\<lambda>(_, p). give_up (pr_native p)) (rq_pending (reads s)) (on_reads (rq_pending_update (\<lambda>_. [])) s))"

section \<open>The service\<close>

text \<open>Render work on the same scheduler, and what other threads and components change.\<close>

definition rendering :: "'a sched \<Rightarrow> preview_service \<Rightarrow> preview_service" where
  "rendering m s = snd (scheduling m s)"

definition service_init :: "preview_service \<Rightarrow> bool" where
  "service_init s \<longleftrightarrow>
     sched_init (scheduler s) \<and> reads s = \<lparr>rq_next = 0, rq_active = None, rq_pending = [], rq_completed = []\<rparr>
     \<and> staged s"

text \<open>The last step of the shutdown comes after the signal has abandoned the active read.\<close>

definition given_up :: "preview_service \<Rightarrow> bool" where
  "given_up s \<longleftrightarrow> (case rq_active (reads s) of None \<Rightarrow> True | Some (t, p, m, abandoned) \<Rightarrow> abandoned)"

inductive service_step :: "preview_service \<Rightarrow> preview_service \<Rightarrow> bool" where
  queue: "service_step s (snd (queue_read_variant identities keys variant tier allow_stale p interactive s))"
| cancel: "service_step s (snd (cancel_read t s))"
| take: "service_step s (snd (take_read t s))"
| tick: "service_step s (snd (tick_read a b identities s))"
| signal: "service_step s (signal_read_shutdown s)"
| drain: "service_step s (snd (try_read_shutdown task_end transport_end job_end s))"
| finish: "given_up s \<Longrightarrow> service_step s (snd (finish_read_shutdown s))"
| render_request: "service_step s (rendering (request key cost p) s)"
| render_cancel: "service_step s (rendering (cancel consumer) s)"
| render_ready: "service_step s (rendering next_ready s)"
| render_finished: "service_step s (rendering (finished lease outcome) s)"
| environment: "service_step s (s\<lparr>decoded := c, consumer_count := n, launch_pauses := k, external_native := x,
    delivery_io := io, delivery_pending := pending\<rparr>)"

inductive_simps service_step_simps: "service_step s t"

end
