(* ===== verification/Read_Correct.thy ===== *)
theory Read_Correct
  imports Read_Queue
begin

text \<open>
  What one poll does to the scheduler's registry of native reads: whatever the outside answers,
  the request of the read stays registered under exactly the lease the read holds, and it is
  gone when the read ends, with one exception that the statement names.
\<close>

section \<open>Steps that do not touch the scheduler\<close>

definition core :: "managed_read \<Rightarrow> _" where
  "core r = (mr_request r, mr_lease r, mr_cost r, mr_preempting r, mr_cancel r, mr_encoded_task r, mr_requeue r, mr_failure r)"

definition rest :: "preview_service \<Rightarrow> _" where
  "rest s = (reads s, staged s, service_limits s, consumer_count s)"

definition quiet :: "managed_read \<times> preview_service \<Rightarrow> managed_read \<times> preview_service \<Rightarrow> bool" where
  "quiet st t \<longleftrightarrow> core (fst t) = core (fst st) \<and> scheduler (snd t) = scheduler (snd st) \<and> rest (snd t) = rest (snd st)"

interpretation quiet: state_preorder quiet
  by unfold_locales (auto simp: quiet_def)

text \<open>The errors that would show the books of reads and scheduler to disagree.\<close>

definition bookkeeping :: "read_error \<Rightarrow> bool" where
  "bookkeeping e \<longleftrightarrow> e = ReadPanic \<or> e = PreemptedCostMissing \<or> (\<exists>d. e = Scheduling d \<and> \<not> read_refusal d)"

lemma bookkeeping_simps [simp]:
  "\<not> bookkeeping (Outside o')" "\<not> bookkeeping (Memory m)" "\<not> bookkeeping (Refused x)"
  "\<not> bookkeeping EncodedBudgetExceeded" "\<not> bookkeeping SynchronousBusy" "\<not> bookkeeping HeaderExceedsTier"
  "bookkeeping (Scheduling d) \<longleftrightarrow> \<not> read_refusal d"
  by (auto simp: bookkeeping_def)

definition sound :: "read_error + 'a \<Rightarrow> bool" where
  "sound r \<longleftrightarrow> (\<forall>e. r = Inl e \<longrightarrow> \<not> bookkeeping e)"

lemma sound_simps [simp]: "sound (Inr x)" "sound (Inl e) \<longleftrightarrow> \<not> bookkeeping e"
  by (auto simp: sound_def)

text \<open>A step that is quiet and does not end in an error of the books.\<close>

definition calm :: "(managed_read \<times> preview_service, read_error, 'a) comp \<Rightarrow> bool" where
  "calm m \<longleftrightarrow> (\<forall>st. quiet st (snd (m st)) \<and> sound (fst (m st)))"

lemma calmD: "calm m \<Longrightarrow> quiet st (snd (m st))" "calm m \<Longrightarrow> sound (fst (m st))"
  unfolding calm_def by blast+

lemma calm_pure:
  "calm (ret x)" "\<not> bookkeeping e2 \<Longrightarrow> calm (fail e2)" "calm (getc f)" "\<not> bookkeeping e5 \<Longrightarrow> calm (ensure b e5)"
  "\<not> bookkeeping e6 \<Longrightarrow> calm (lift_option e6 v)" "calm (fld g)" "(\<And>r. core (h r) = core r) \<Longrightarrow> calm (upd h)"
  by (auto simp: calm_def quiet_def fld_def upd_def split: option.splits)

lemma calm_bindc:
  assumes "calm m" "\<And>x. calm (g x)"
  shows "calm (bindc m g)"
proof -
  have "quiet st (snd (bindc m g st)) \<and> sound (fst (bindc m g st))" for st
  proof -
    obtain r t where Pair: "m st = (r, t)" by (rule prod.exhaust)
    with calmD [OF assms(1), of st] have q: "quiet st t" "sound r" by simp_all
    show ?thesis
    proof (cases r)
      case (Inr x)
      with Pair calmD [OF assms(2) [of x], of t] q(1) show ?thesis by (simp add: bindc_Inr quiet.R_trans)
    qed (use Pair q in \<open>simp add: bindc_Inl\<close>)
  qed
  then show ?thesis by (simp add: calm_def)
qed

lemma calm_catchc:
  assumes "calm m" "\<And>r. sound r \<Longrightarrow> calm (g r)"
  shows "calm (catchc m g)"
proof -
  have "quiet st (snd (catchc m g st)) \<and> sound (fst (catchc m g st))" for st
  proof -
    obtain r t where Pair: "m st = (r, t)" by (rule prod.exhaust)
    with calmD [OF assms(1), of st] have q: "quiet st t" "sound r" by simp_all
    with Pair calmD [OF assms(2) [OF q(2)], of t] show ?thesis by (simp add: catchc_eval quiet.R_trans)
  qed
  then show ?thesis by (simp add: calm_def)
qed

lemma calm_split:
  "calm m \<Longrightarrow> calm n \<Longrightarrow> calm (if b then m else n)"
  "calm m \<Longrightarrow> (\<And>x. calm (k x)) \<Longrightarrow> calm (case v of None \<Rightarrow> m | Some x \<Rightarrow> k x)"
  by (simp, cases v, auto)

lemma calm_caching: "calm (serving (caching m))"
  by (auto simp: calm_def serving_def caching_def quiet_def rest_def map_err_def split: prod.splits sum.splits)

lemma calm_answer: "calm (answer r)"
  by (cases r) (auto simp: answer_def pure_read_def map_err_def intro: calm_pure)

lemma decode_cost_sound: "sound (header_cost e s)" "sound (decode_cost c w h e hs cs)"
  unfolding decode_cost_def plane_bytes_def header_cost_def tryr_def map_err_def
  by (auto split: sum.splits option.splits)

lemma calm_pure_read: "sound r \<Longrightarrow> calm (pure_read r)"
  by (cases r) (auto simp: pure_read_def intro: calm_pure)

lemmas calm_intros = calm_pure calm_bindc calm_catchc calm_split calm_caching calm_answer calm_pure_read

lemma serving_bindc: "serving (bindc m g) = bindc (serving m) (\<lambda>x. serving (g x))"
  by (auto simp: serving_def bindc_def fun_eq_iff split: prod.splits sum.splits)

lemma serving_pure [simp]: "serving (ret x) = ret x" "serving (fail e) = fail e"
  by (auto simp: serving_def ret_def fail_def fun_eq_iff)

lemma calm_drop: "calm (serving (drop_bytes g))" "calm (serving (drop_page a))"
  by (simp_all add: drop_bytes_def drop_page_def calm_caching)

lemma calm_holding: "sound r \<Longrightarrow> calm (serving (holding_page a r))"
  by (cases r) (auto simp: holding_page_def serving_bindc intro!: calm_intros calm_drop)

lemma calm_deliver: "calm (serving (deliver i c t a v))"
  by (auto simp: deliver_def Let_def serving_bindc intro!: calm_intros calm_drop)

lemma core_upd [simp]:
  "core (mr_transport_task_update f r) = core r" "core (mr_rgb_update g r) = core r"
  "core (mr_cleanup_started_update h r) = core r" "core (mr_launched_update h r) = core r"
  "core (mr_encoded_update k r) = core r" "core (mr_header_update l r) = core r" "core (mr_expected_update d r) = core r"
  "core (mr_cache_key_update u r) = core r" "core (mr_key_update v r) = core r" "core (mr_record_update w r) = core r"
  "core (mr_legacy_hash_update x r) = core r" "core (mr_codec_update y r) = core r" "core (mr_stale_update h r) = core r"
  "core (mr_encoded_allowance_update z r) = core r"
  by (simp_all add: core_def)

lemma calm_parts:
  "calm drop_rgb" "calm (shrink_guard n)" "calm (start_task a k)" "calm (poll_transport a)" "calm (ensure_launched a)"
  unfolding drop_rgb_def shrink_guard_def start_task_def poll_transport_def ensure_launched_def
  by (auto intro!: calm_intros calm_drop split: sum.splits option.splits)

lemma calm_drain: "calm (drain_transport a)"
  unfolding drain_transport_def
  by (auto intro!: calm_intros calm_parts split: sum.splits option.splits)

lemma calm_legacy_fallback: "calm (legacy_fallback a)"
  unfolding legacy_fallback_def by (auto intro!: calm_bindc calm_pure calm_answer split: if_splits)

lemma ends_calm:
  assumes "calm m" "\<And>x t. quiet st t \<Longrightarrow> sound x \<Longrightarrow> Q x t"
  shows "ends (m st) Q"
  using assms unfolding ends_def calm_def by blast

section \<open>The books of one read\<close>

text \<open>Over the requests \<open>F\<close> of everybody else, the read's request stands under the read's lease.\<close>

definition owns :: "(nat \<Rightarrow> nat option option) \<Rightarrow> managed_read \<Rightarrow> preview_scheduler \<Rightarrow> bool" where
  "owns F r c \<longleftrightarrow> sched_inv c \<and>
     (case mr_request r of
        None \<Rightarrow> mr_lease r = None \<and> read_leases c = F
      | Some q \<Rightarrow> F (nrr_id q) = None \<and> read_leases c = F(nrr_id q \<mapsto> mr_lease r))"

definition shape :: "(nat \<Rightarrow> bool) \<Rightarrow> managed_read \<Rightarrow> bool" where
  "shape K r \<longleftrightarrow>
     (mr_lease r \<noteq> None \<longrightarrow> (\<exists>c. mr_cost r = Some c \<and> K c))
     \<and> (mr_preempting r \<longrightarrow> mr_cancel r)
     \<and> (mr_encoded_task r \<longrightarrow> mr_lease r = None)
     \<and> (\<forall>c d. mr_requeue r = Some (c, d) \<longrightarrow> K c)
     \<and> (\<forall>e. mr_failure r = Some e \<longrightarrow> \<not> bookkeeping e)"

definition reading ::
  "(nat \<Rightarrow> nat option option) \<Rightarrow> (nat \<Rightarrow> bool) \<Rightarrow> _ \<Rightarrow> managed_read \<times> preview_service \<Rightarrow> bool" where
  "reading F K z st \<longleftrightarrow>
     owns F (fst st) (scheduler (snd st)) \<and> cost_fits (scheduler (snd st)) = K \<and> shape K (fst st)
     \<and> rest (snd st) = z"

lemma shape_core: "core r = core r' \<Longrightarrow> shape K r = shape K r'"
  by (simp only: core_def shape_def prod.inject)

lemma owns_core: "core r = core r' \<Longrightarrow> owns F r c = owns F r' c"
  by (simp only: core_def owns_def prod.inject)

lemma reading_quiet: "quiet st t \<Longrightarrow> reading F K z st \<Longrightarrow> reading F K z t"
  using shape_core [of "fst t" "fst st"] owns_core [of "fst t" "fst st"] by (simp add: quiet_def reading_def)

lemma quiet_core:
  assumes "quiet st t"
  shows "mr_request (fst t) = mr_request (fst st)" "mr_lease (fst t) = mr_lease (fst st)"
    "mr_cost (fst t) = mr_cost (fst st)" "mr_preempting (fst t) = mr_preempting (fst st)"
    "mr_cancel (fst t) = mr_cancel (fst st)" "mr_encoded_task (fst t) = mr_encoded_task (fst st)"
    "mr_requeue (fst t) = mr_requeue (fst st)" "mr_failure (fst t) = mr_failure (fst st)"
  using assms by (simp_all add: quiet_def core_def)

text \<open>Evaluation of field access and of calls into the scheduler.\<close>

lemma ends_fld [ends_intros]: "Q (Inr (f (fst st))) st \<Longrightarrow> ends (fld f st) Q"
  by (cases st) (simp add: ends_def fld_def)

lemma ends_upd [ends_intros]: "Q (Inr ()) (f (fst st), snd st) \<Longrightarrow> ends (upd f st) Q"
  by (cases st) (simp add: ends_def upd_def)

lemma ends_scheduling:
  assumes "ends (m (scheduler (snd st))) (\<lambda>x c. Q (map_err Scheduling x) (fst st, (snd st)\<lparr>scheduler := c\<rparr>))"
  shows "ends (serving (scheduling m) st) Q"
  using assms by (cases st) (auto simp: ends_def serving_def scheduling_def split: prod.splits)

lemma rest_scheduler [simp]: "rest (s\<lparr>scheduler := c\<rparr>) = rest s"
  by (simp add: rest_def)

text \<open>Giving up what the read holds.\<close>

lemma release_scheduler_ends:
  assumes "reading F K z st"
  shows "ends (release_scheduler st) (\<lambda>x t. x = Inr () \<and> reading F K z t \<and> mr_lease (fst t) = None
    \<and> mr_preempting (fst t) = mr_preempting (fst st) \<and> mr_cancel (fst t) = mr_cancel (fst st)
    \<and> mr_failure (fst t) = mr_failure (fst st)
    \<and> (mr_preempting (fst st) \<or> mr_request (fst t) = None))"
proof -
  obtain r s where st: "st = (r, s)" by (rule prod.exhaust)
  have own: "owns F r (scheduler s)" and K: "cost_fits (scheduler s) = K" and shp: "shape K r" and z: "rest s = z"
    using assms by (simp_all add: reading_def st)
  have inv: "sched_inv (scheduler s)" using own by (simp add: owns_def)
  show ?thesis
  proof (cases "mr_lease r")
    case None
    show ?thesis
    proof (cases "\<not> mr_preempting r \<and> mr_request r \<noteq> None")
      case True
      then obtain q where q: "mr_request r = Some q" by auto
      from own q None have "F (nrr_id q) = None" "read_leases (scheduler s) = F(nrr_id q \<mapsto> None)"
        by (simp_all add: owns_def)
      from native.hold_withdrawn [OF inv this] True q None K shp z show ?thesis
        unfolding release_scheduler_def st
        by (auto simp: reading_def owns_def shape_def map_err_def elim!: ends_weaken
            intro!: ends_intros ends_scheduling)
    next
      case False
      with assms None show ?thesis
        unfolding release_scheduler_def st
        by (auto simp: reading_def owns_def shape_def intro!: ends_intros split: option.splits)
    qed
  next
    case (Some l)
    then obtain q where q: "mr_request r = Some q" using own by (cases "mr_request r") (auto simp: owns_def)
    from own q Some have reg: "F (nrr_id q) = None" "read_leases (scheduler s) = F(nrr_id q \<mapsto> Some l)"
      by (simp_all add: owns_def)
    obtain c where c: "mr_cost r = Some c" "cost_fits (scheduler s) c" using shp Some K by (auto simp: shape_def)
    show ?thesis
    proof (cases "mr_preempting r")
      case True
      from native.hold_requeued [OF inv reg(2) c(2)] True q Some K shp z c reg(1) show ?thesis
        unfolding release_scheduler_def st
        by (auto simp: reading_def owns_def shape_def map_err_def elim!: ends_weaken
            intro!: ends_intros ends_scheduling)
    next
      case False
      from native.hold_released [OF inv reg] False q Some K shp z show ?thesis
        unfolding release_scheduler_def st
        by (auto simp: reading_def owns_def shape_def map_err_def elim!: ends_weaken
            intro!: ends_intros ends_scheduling)
    qed
  qed
qed

text \<open>How a read may end: released, handed back to the queue, or as the served legacy page.\<close>

definition hit :: "preview_view option \<Rightarrow> managed_read \<Rightarrow> bool" where
  "hit v r \<longleftrightarrow> mr_lease r = None \<and> \<not> mr_cancel r
     \<and> (\<exists>w. v = Some w \<and> pv_key w = None \<and> pv_legacy_hash w \<noteq> None)"

definition over :: "preview_view option \<Rightarrow> managed_read \<Rightarrow> bool" where
  "over v r \<longleftrightarrow> mr_lease r = None \<and> (mr_request r = None \<or> mr_preempting r \<and> v = None)"

definition turned ::
  "(nat \<Rightarrow> nat option option) \<Rightarrow> (nat \<Rightarrow> bool) \<Rightarrow> _ \<Rightarrow> read_error + polled \<Rightarrow> managed_read \<times> preview_service \<Rightarrow> bool" where
  "turned F K z x t \<longleftrightarrow> reading F K z t \<and> sound x \<and> (\<forall>v. x = Inr (Some v) \<longrightarrow> over v (fst t))"

lemma turned_simps:
  "turned F K z (Inl e) t \<longleftrightarrow> reading F K z t \<and> \<not> bookkeeping e"
  "turned F K z (Inr None) t \<longleftrightarrow> reading F K z t"
  "turned F K z (Inr (Some v)) t \<longleftrightarrow> reading F K z t \<and> over v (fst t)"
  by (simp_all add: turned_def)

lemma bind_field [simp]:
  "bindc (fld f) g st = g (f (fst st)) st" "bindc (upd h) k st = k () (h (fst st), snd st)"
  "fld f st = (Inr (f (fst st)), st)" "upd h st = (Inr (), (h (fst st), snd st))"
  by (cases st; simp add: fld_def upd_def bindc_def getc_def modc_def)+

lemma ends_step:
  assumes "ends (m st) R" "\<And>e t. R (Inl e) t \<Longrightarrow> Q (Inl e) t" "\<And>x t. R (Inr x) t \<Longrightarrow> ends (f x t) Q"
  shows "ends (bindc m f st) Q"
  by (rule ends_bind, rule ends_weaken [OF assms(1)]) (use assms in \<open>auto split: sum.splits\<close>)

lemma ends_calm_step:
  assumes "calm m" "\<And>e t. quiet st t \<Longrightarrow> \<not> bookkeeping e \<Longrightarrow> Q (Inl e) t" "\<And>x t. quiet st t \<Longrightarrow> ends (f x t) Q"
  shows "ends (bindc m f st) Q"
proof (rule ends_step)
  show "ends (m st) (\<lambda>x t. quiet st t \<and> sound x)" by (rule ends_calm [OF assms(1)]) simp
qed (use assms in auto)

text \<open>Fields the books do not see.\<close>

lemma reading_core: "core r = core r' \<Longrightarrow> reading F K z (r, s) = reading F K z (r', s)"
  using shape_core [of r r'] owns_core [of r r'] by (simp add: reading_def)

lemma release_step:
  assumes "reading F K z st"
    "\<And>t. \<lbrakk>reading F K z t; mr_lease (fst t) = None; mr_preempting (fst t) = mr_preempting (fst st);
       mr_cancel (fst t) = mr_cancel (fst st); mr_preempting (fst st) \<or> mr_request (fst t) = None\<rbrakk> \<Longrightarrow> ends (f () t) Q"
  shows "ends (bindc release_scheduler f st) Q"
  by (rule ends_step, rule release_scheduler_ends [OF assms(1)]) (auto intro: assms(2))

lemma let_go_ends:
  assumes u: "reading F K z u" "mr_lease (fst u) = None" "mr_preempting (fst u) \<or> mr_request (fst u) = None"
  shows "ends (let_go u) (turned F K z)"
  unfolding let_go_def
proof (rule ends_calm_step [OF calm_parts(1)], goal_cases)
  case (2 x v)
  note rv = reading_quiet [OF 2 u(1)]
  have "reading F K z ((fst v)\<lparr>mr_failure := None\<rparr>, snd v)" "\<And>e. mr_failure (fst v) = Some e \<Longrightarrow> \<not> bookkeeping e"
    using rv by (auto simp: reading_def owns_def shape_def split: option.splits)
  then show ?case using u quiet_core [OF 2] by (auto simp: turned_simps over_def split: option.splits)
qed (simp add: turned_simps reading_quiet [OF _ u(1)])

lemma stop_ends:
  assumes "reading F K z st"
  shows "ends (bindc (start_task a LaunchStop) (\<lambda>_. bindc (upd (mr_cleanup_started_update (\<lambda>_. True))) (\<lambda>_. ret None)) st)
    (turned F K z)"
proof (rule ends_calm_step [OF calm_parts(3)], goal_cases)
  case (2 x u)
  from reading_quiet [OF 2 assms] show ?case
    by (cases u) (simp add: turned_simps reading_core [OF core_upd(3)])
qed (simp add: turned_simps reading_quiet [OF _ assms])

lemma cleanup_ends:
  assumes "reading F K z st"
  shows "ends (cleanup_step a st) (turned F K z)"
  unfolding cleanup_step_def
proof (rule ends_calm_step [OF calm_drain], goal_cases)
  case (2 wait t)
  note rt = reading_quiet [OF 2 assms]
  have "ends (bindc release_scheduler (\<lambda>_. let_go) t) (turned F K z)"
    by (rule release_step [OF rt]) (rule let_go_ends; simp)
  with stop_ends [OF rt, of a] rt show ?case by (simp add: turned_simps)
qed (simp add: turned_simps reading_quiet [OF _ assms])

text \<open>The transfer: whatever arrives, the read goes on without it or is served its legacy page.\<close>

definition moved ::
  "(nat \<Rightarrow> nat option option) \<Rightarrow> (nat \<Rightarrow> bool) \<Rightarrow> _ \<Rightarrow> read_error + polled option \<Rightarrow> managed_read \<times> preview_service \<Rightarrow> bool" where
  "moved F K z x t \<longleftrightarrow> reading F K z t \<and> sound x \<and> (x = Inr None \<longrightarrow> \<not> mr_encoded_task (fst t))
     \<and> (\<forall>v. x = Inr (Some (Some v)) \<longrightarrow> hit v (fst t))"

lemma moved_simps:
  "moved F K z (Inl e) t \<longleftrightarrow> reading F K z t \<and> \<not> bookkeeping e"
  "moved F K z (Inr None) t \<longleftrightarrow> reading F K z t \<and> \<not> mr_encoded_task (fst t)"
  "moved F K z (Inr (Some None)) t \<longleftrightarrow> reading F K z t"
  "moved F K z (Inr (Some (Some v))) t \<longleftrightarrow> reading F K z t \<and> hit v (fst t)"
  by (auto simp: moved_def)

lemma transferred_ends:
  assumes "reading F K z st" "\<not> mr_encoded_task (fst st)" "mr_lease (fst st) = None"
  shows "ends (transferred a st) (moved F K z)"
proof -
  have after: "ends (bindc (serving (caching (managed_lookup k))) (\<lambda>hit. case hit of None \<Rightarrow> ret None
      | Some px \<Rightarrow> ret (Some (Some (Some \<lparr>pv_key = None, pv_legacy_hash = h, pv_pixels = px, pv_record = None, pv_stale = True\<rparr>)))) t)
      (moved F K z)"
    if t: "quiet st t" "h \<noteq> None" "\<not> mr_cancel (fst t)" for t k h
  proof (rule ends_calm_step [OF calm_caching], goal_cases)
    case (2 x u)
    note ru = reading_quiet [OF 2 reading_quiet [OF t(1) assms(1)]]
    show ?case using ru assms(2,3) t(2,3) quiet_core [OF t(1)] quiet_core [OF 2]
      by (auto simp: moved_simps hit_def split: option.splits)
  qed (simp add: moved_simps reading_quiet [OF _ reading_quiet [OF t(1) assms(1)]])
  show ?thesis
    unfolding transferred_def bind_field
  proof (rule ends_calm_step [OF calm_parts(2)], goal_cases)
    case (2 x t)
    from after [OF 2, of "mr_legacy_hash (fst t)" "mr_cache_key (fst t)"] reading_quiet [OF 2 assms(1)] assms(2) quiet_core [OF 2]
    show ?case by (auto simp: moved_simps simp del: split_paired_All)
  qed (simp add: moved_simps reading_quiet [OF _ assms(1)])
qed

lemma start_legacy_ends:
  assumes "reading F K z st" "mr_lease (fst st) = None"
  shows "ends (start_legacy a hash st) (\<lambda>x t. reading F K z t \<and> sound x)"
proof -
  obtain r s where st: "st = (r, s)" by (rule prod.exhaust)
  let ?r = "r\<lparr>mr_cache_key := pa_legacy_key a hash, mr_key := None, mr_record := None,
         mr_legacy_hash := Some hash, mr_codec := Jpeg, mr_expected := None, mr_stale := True,
         mr_encoded_allowance := min (mr_encoded_allowance r) LEGACY_BYTES\<rparr>"
  have core: "core ?r = core r" by (simp add: core_def)
  have r': "reading F K z (?r, s)" using assms(1) reading_core [OF core] by (simp add: st)
  show ?thesis
    unfolding start_legacy_def st bind_field fst_conv snd_conv
  proof (rule ends_calm_step [OF calm_parts(2)], goal_cases)
    case (2 x t)
    note rt = reading_quiet [OF 2 r']
    show ?case
    proof (rule ends_calm_step [OF calm_answer], goal_cases)
      case (2 y u)
      note ru = reading_quiet [OF 2 rt]
      have "mr_lease (fst u) = None"
        using quiet_core [OF 2] quiet_core [OF \<open>quiet (?r, s) t\<close>] assms(2) by (simp add: st)
      with ru show ?case by (auto simp: reading_def owns_def shape_def split: option.splits)
    qed (simp add: reading_quiet [OF _ rt])
  qed (simp add: reading_quiet [OF _ r'])
qed

lemma received_ends:
  assumes rt: "reading F K z t" "mr_lease (fst t) = None" "\<not> mr_encoded_task (fst t)"
  shows "ends (received a buf intact t) (moved F K z)"
proof -
  have cancel: "reading F K z ((fst u)\<lparr>mr_cancel := True\<rparr>, snd u)" if "reading F K z u" for u
    using that by (auto simp: reading_def owns_def shape_def split: option.splits)
  have "ends (bindc (legacy_fallback a) (\<lambda>fallback. case fallback of
             Some hash \<Rightarrow> bindc (start_legacy a hash) (\<lambda>_. ret (Some None))
           | None \<Rightarrow> bindc (upd (mr_cancel_update (\<lambda>_. True))) (\<lambda>_. transferred a)) t) (moved F K z)"
  proof (rule ends_calm_step [OF calm_legacy_fallback], goal_cases)
    case (2 fallback u)
    note ru = reading_quiet [OF 2 rt(1)] and cu = quiet_core [OF 2]
    have "ends (bindc (start_legacy a hash) (\<lambda>_. ret (Some None)) u) (moved F K z)" for hash
      by (rule ends_step, rule start_legacy_ends [OF ru]) (use cu rt in \<open>auto simp: moved_simps\<close>)
    with transferred_ends [OF cancel [OF ru]] cu rt show ?case by (cases fallback) simp_all
  qed (simp add: moved_simps reading_quiet [OF _ rt(1)])
  moreover have "ends (transferred a ((fst t)\<lparr>mr_encoded := buf\<rparr>, snd t)) (moved F K z)"
    using transferred_ends [of F K z "((fst t)\<lparr>mr_encoded := buf\<rparr>, snd t)"] rt
      reading_core [of "(fst t)\<lparr>mr_encoded := buf\<rparr>" "fst t"] by simp
  ultimately show ?thesis by (simp add: received_def)
qed

lemma transfer_ends:
  assumes st: "reading F K z st"
  shows "ends (transfer_step a st) (moved F K z)"
proof (cases "mr_encoded_task (fst st)")
  case False
  with st show ?thesis by (simp add: transfer_step_def moved_simps)
next
  case running: True
  let ?st = "((fst st)\<lparr>mr_encoded_task := False\<rparr>, snd st)"
  have lease: "mr_lease (fst st) = None" using st running by (simp add: reading_def shape_def)
  have st': "reading F K z ?st" using st by (auto simp: reading_def owns_def shape_def split: option.splits)
  have arrival: "ends (bindc (case mr_key (fst st) of Some k \<Rightarrow> answer (pa_finish a k i) | None \<Rightarrow> ret (i = Intact))
      (received a buf) ?st) (moved F K z)" for i buf
  proof (rule ends_calm_step, goal_cases)
    case 1
    show ?case by (auto split: option.splits intro: calm_answer calm_pure)
  next
    case (3 intact t)
    from received_ends [OF reading_quiet [OF 3 st']] quiet_core [OF 3] lease show ?case by simp
  qed (simp add: moved_simps reading_quiet [OF _ st'])
  show ?thesis
  proof (cases "pa_task a")
    case (Inl e)
    with st' running show ?thesis by (simp add: transfer_step_def moved_simps)
  next
    case (Inr found)
    with st arrival running show ?thesis by (cases found) (auto simp: transfer_step_def moved_simps)
  qed
qed

text \<open>The native part: it runs when the transfer is over and nobody has canceled.\<close>

definition near :: "(nat \<Rightarrow> nat option option) \<Rightarrow> (nat \<Rightarrow> bool) \<Rightarrow> _ \<Rightarrow> managed_read \<times> preview_service \<Rightarrow> bool" where
  "near F K z st \<longleftrightarrow> reading F K z st \<and> \<not> mr_cancel (fst st) \<and> \<not> mr_encoded_task (fst st)"

lemma near_quiet: "quiet st t \<Longrightarrow> near F K z st \<Longrightarrow> near F K z t"
  using reading_quiet [of st t F K z] quiet_core [of st t] by (simp add: near_def)

lemma nearD:
  assumes "near F K z (r, s)"
  shows "sched_inv (scheduler s)" "cost_fits (scheduler s) = K" "shape K r" "rest s = z" "\<not> mr_cancel r"
    "\<not> mr_encoded_task r" "\<not> mr_preempting r"
    "mr_request r = None \<Longrightarrow> mr_lease r = None \<and> read_leases (scheduler s) = F"
    "mr_request r = Some q \<Longrightarrow> F (nrr_id q) = None \<and> read_leases (scheduler s) = F(nrr_id q \<mapsto> mr_lease r)"
  using assms by (auto simp: near_def reading_def owns_def shape_def)

lemma ensure_request_ends:
  assumes near: "near F K z st"
  shows "ends (ensure_request st) (\<lambda>x t. near F K z t \<and> sound x \<and> (x = Inr () \<longrightarrow> mr_request (fst t) \<noteq> None))"
proof -
  obtain r s where st: "st = (r, s)" by (rule prod.exhaust)
  note D = nearD [OF near [unfolded st]]
  show ?thesis
  proof (cases "mr_request r")
    case None
    from native.hold_enrolled [OF D(1), of F Foreground] D(8) [OF None] None near show ?thesis
      unfolding ensure_request_def st
      by (auto simp: near_def reading_def owns_def shape_def map_err_def split: sum.splits
          elim!: ends_weaken intro!: ends_bind ends_scheduling)
  next
    case (Some q)
    with near show ?thesis by (simp add: ensure_request_def st)
  qed
qed

lemma ensure_cost_ends:
  assumes near: "near F K z st" and req: "mr_request (fst st) \<noteq> None"
  shows "ends (ensure_cost st) (\<lambda>x t. near F K z t \<and> sound x \<and> mr_request (fst t) \<noteq> None
    \<and> (x = Inr () \<longrightarrow> mr_cost (fst t) \<noteq> None))"
proof -
  obtain r s where st: "st = (r, s)" by (rule prod.exhaust)
  show ?thesis
  proof (cases "mr_cost r")
    case None
    then have lease: "mr_lease r = None" using nearD(3) [OF near [unfolded st]] by (auto simp: shape_def)
    let ?c = "case mr_expected r of
        Some (w, h) \<Rightarrow> decode_cost (mr_codec r) w h (length (contents (mr_encoded r)))
               (sl_header_scratch (service_limits s)) (sl_codec_scratch (service_limits s))
      | None \<Rightarrow> header_cost (length (contents (mr_encoded r))) (sl_header_scratch (service_limits s))"
    have "sound ?c" using decode_cost_sound by (simp split: option.splits prod.splits)
    with near req None lease show ?thesis
      by (cases ?c) (auto simp: ensure_cost_def st pure_read_def near_def reading_def owns_def shape_def split: option.splits)
  next
    case (Some c)
    with near req show ?thesis by (simp add: ensure_cost_def st)
  qed
qed

lemma take_lease_ends:
  assumes near: "near F K z ((fst st)\<lparr>mr_lease := Some l\<rparr>, snd st)"
  shows "ends (take_lease a l st) (\<lambda>x t. near F K z t \<and> sound x \<and> (x = Inr True \<longrightarrow> mr_lease (fst t) \<noteq> None))"
proof (cases "mr_requeue (fst st)")
  case None
  with near show ?thesis by (simp add: take_lease_def)
next
  case (Some d)
  let ?u = "((fst st)\<lparr>mr_lease := Some l, mr_requeue := None\<rparr>, snd st)"
  have u: "near F K z ?u" using near by (auto simp: near_def reading_def owns_def shape_def split: option.splits)
  have "ends (bindc (start_task a LaunchRearm) (\<lambda>_. bindc (upd (mr_launched_update (\<lambda>_. True))) (\<lambda>_. ret True)) ?u)
    (\<lambda>x t. near F K z t \<and> sound x \<and> (x = Inr True \<longrightarrow> mr_lease (fst t) \<noteq> None))"
  proof (rule ends_calm_step [OF calm_parts(3)], goal_cases)
    case (2 x v)
    from near_quiet [OF 2 u] quiet_core [OF 2] show ?case
      by (cases v) (simp add: near_def reading_core [OF core_upd(4)])
  qed (simp add: near_quiet [OF _ u])
  with Some show ?thesis by (simp add: take_lease_def)
qed

lemma ensure_lease_ends:
  assumes near: "near F K z st" and req: "mr_request (fst st) \<noteq> None" and cost: "mr_cost (fst st) \<noteq> None"
  shows "ends (ensure_lease a st) (\<lambda>x t. near F K z t \<and> sound x \<and> (x = Inr True \<longrightarrow> mr_lease (fst t) \<noteq> None))"
proof -
  obtain r s where st: "st = (r, s)" by (rule prod.exhaust)
  note D = nearD [OF near [unfolded st]]
  from req cost obtain q c where q: "mr_request r = Some q" and c: "mr_cost r = Some c" by (auto simp: st)
  show ?thesis
  proof (cases "mr_lease r = None \<and> \<not> (0 < launch_pauses s \<or> external_native s)")
    case False
    with near show ?thesis by (auto simp: ensure_lease_def st)
  next
    case True
    have "ends (bindc (serving (scheduling (admit_native_read (nrr_id q) c))) (\<lambda>lease.
        case lease of None \<Rightarrow> ret False | Some l \<Rightarrow> take_lease a l) (r, s))
      (\<lambda>x t. near F K z t \<and> sound x \<and> (x = Inr True \<longrightarrow> mr_lease (fst t) \<noteq> None))"
    proof (rule ends_bind, rule ends_scheduling, simp only: fst_conv snd_conv,
        rule ends_weaken [OF native.hold_admitted [OF D(1), of F "nrr_id q"]], goal_cases)
      case (3 x d)
      have "near F K z (r, s\<lparr>scheduler := d\<rparr>)" if "read_leases d = F(nrr_id q \<mapsto> None)"
        using that 3 D True q c by (auto simp: near_def reading_def owns_def)
      moreover have "near F K z (r\<lparr>mr_lease := Some l\<rparr>, s\<lparr>scheduler := d\<rparr>)"
        if "read_leases d = F(nrr_id q \<mapsto> Some l)" "cost_fits (scheduler s) c" for l
        using that 3 D True q c by (auto simp: near_def reading_def owns_def shape_def)
      ultimately show ?case using 3 take_lease_ends [where st = "(r, s\<lparr>scheduler := d\<rparr>)"]
        by (auto simp: map_err_def split: sum.splits option.splits)
    qed (use D(9) [OF q] True in auto)
    with True q c show ?thesis by (auto simp: ensure_lease_def st)
  qed
qed

lemma wait_ends:
  assumes "calm m" and st: "reading F K z st"
  shows "ends (bindc m (\<lambda>_. ret None) st) (turned F K z)"
  by (rule ends_calm_step [OF assms(1)]) (simp_all add: turned_simps reading_quiet [OF _ st])

lemma calm_start_decode: "calm (start_decode a h)"
  unfolding start_decode_def by (auto intro!: calm_intros calm_parts)

lemma on_header_ends:
  assumes near: "near F K z st" and lease: "mr_lease (fst st) \<noteq> None"
  shows "ends (on_header a h st) (turned F K z)"
proof -
  obtain r s l where st: "st = (r, s)" and l: "mr_lease r = Some l" using lease by (cases st) auto
  note D = nearD [OF near [unfolded st]]
  from D(8) l obtain q where q: "mr_request r = Some q" by (cases "mr_request r") auto
  have run: "reading F K z st" using near by (simp add: near_def)
  show ?thesis
  proof (cases "decode_cost (hd_codec h) (hd_width h) (hd_height h) (hd_input_bytes h)
      (sl_header_scratch (service_limits s)) (sl_codec_scratch (service_limits s))")
    case (Inl e)
    with decode_cost_sound(2) have "\<not> bookkeeping e" by (metis sound_simps(2))
    with Inl run show ?thesis by (simp add: on_header_def st pure_read_def turned_simps)
  next
    case (Inr cost)
    have "ends (bindc (serving (scheduling (upgrade_native_read l cost))) (\<lambda>upgraded.
        if \<not> upgraded then
          bindc (upd (mr_requeue_update (\<lambda>_. Some (cost, hd_width h, hd_height h)))) (\<lambda>_.
          bindc (start_task a LaunchStop) (\<lambda>_. ret None))
        else
          bindc (upd (mr_cost_update (\<lambda>_. Some cost))) (\<lambda>_.
          bindc (start_decode a h) (\<lambda>_. ret None))) (r, s)) (turned F K z)"
    proof (rule ends_bind, rule ends_scheduling, simp only: fst_conv snd_conv,
        rule ends_weaken [OF native.hold_upgraded [OF D(1), of F "nrr_id q"]], goal_cases)
      case (2 x d)
      have "reading F K z (r, s\<lparr>scheduler := d\<rparr>)"
        using 2 D q l run by (auto simp: st reading_def owns_def)
      moreover have "reading F K z (r\<lparr>mr_requeue := Some (cost, w)\<rparr>, s\<lparr>scheduler := d\<rparr>)"
          "reading F K z (r\<lparr>mr_cost := Some cost\<rparr>, s\<lparr>scheduler := d\<rparr>)" if "cost_fits (scheduler s) cost" for w
        using that 2 D q l run by (auto simp: st reading_def owns_def shape_def)
      ultimately show ?case using 2
        by (auto simp: map_err_def turned_simps split: sum.splits intro!: wait_ends calm_parts calm_start_decode)
    qed (use D(9) [OF q] l in auto)
    with Inr l run show ?thesis by (simp add: on_header_def st pure_read_def turned_simps)
  qed
qed

lemma on_drained_ends:
  assumes near: "near F K z st" and lease: "mr_lease (fst st) \<noteq> None"
  shows "ends (on_drained st) (turned F K z)"
proof -
  obtain r s l where st: "st = (r, s)" and l: "mr_lease r = Some l" using lease by (cases st) auto
  note D = nearD [OF near [unfolded st]]
  from D(8) l obtain q where q: "mr_request r = Some q" by (cases "mr_request r") auto
  have run: "reading F K z st" using near by (simp add: near_def)
  show ?thesis
  proof (cases "mr_requeue r")
    case None
    have "ends (bindc release_scheduler (\<lambda>_. ret (Some None)) st) (turned F K z)"
      by (rule release_step [OF run]) (use D(7) in \<open>auto simp: turned_simps over_def st\<close>)
    with None show ?thesis by (simp add: on_drained_def st)
  next
    case (Some p)
    obtain cost dim where p: "p = (cost, dim)" by (rule prod.exhaust)
    have fits: "cost_fits (scheduler s) cost" using D(2,3) Some p by (cases dim) (auto simp: shape_def)
    have "ends (bindc (serving (scheduling (requeue_native_read l cost))) (\<lambda>_.
        bindc (upd (\<lambda>r. r\<lparr>mr_cost := Some cost, mr_expected := Some dim, mr_header := None\<rparr>)) (\<lambda>_.
        bindc drop_rgb (\<lambda>_. ret None))) (r\<lparr>mr_lease := None\<rparr>, s)) (turned F K z)"
    proof (rule ends_bind, rule ends_scheduling, simp only: fst_conv snd_conv,
        rule ends_weaken [OF native.hold_requeued [OF D(1), of F "nrr_id q"]], goal_cases)
      case (3 x d)
      have "reading F K z (r\<lparr>mr_lease := None, mr_cost := Some cost, mr_expected := Some dim, mr_header := None\<rparr>,
          s\<lparr>scheduler := d\<rparr>)"
        using 3 D q run by (auto simp: st reading_def owns_def shape_def)
      with 3 show ?case by (auto simp: map_err_def intro!: wait_ends calm_parts)
    qed (use D(9) [OF q] l fits in auto)
    with Some p l show ?thesis by (simp add: on_drained_def st)
  qed
qed

lemma deliver_ends:
  assumes st: "reading F K z st" and free: "mr_lease (fst st) = None" "mr_request (fst st) = None"
  shows "ends (bindc (serving (holding_page px c)) (\<lambda>current.
      bindc (serving (deliver i current t al v)) (\<lambda>v. ret (Some v))) st) (turned F K z) \<or> \<not> sound c"
proof (cases "sound c")
  case True
  have "ends (bindc (serving (holding_page px c)) (\<lambda>current.
      bindc (serving (deliver i current t al v)) (\<lambda>v. ret (Some v))) st) (turned F K z)"
  proof (rule ends_calm_step [OF calm_holding [OF True]], goal_cases)
    case (2 x u)
    note ru = reading_quiet [OF 2 st] and cu = quiet_core [OF 2]
    show ?case
    proof (rule ends_calm_step [OF calm_deliver], goal_cases)
      case (2 y w)
      from reading_quiet [OF 2 ru] quiet_core [OF 2] cu free show ?case by (simp add: turned_simps over_def)
    qed (simp add: turned_simps reading_quiet [OF _ ru])
  qed (simp add: turned_simps reading_quiet [OF _ st])
  then show ?thesis ..
qed simp

lemma on_pixels_ends:
  assumes near: "near F K z st"
  shows "ends (on_pixels a p st) (turned F K z)"
proof -
  let ?st = "((fst st)\<lparr>mr_rgb := None\<rparr>, snd st)"
  have run: "reading F K z ?st"
    using near reading_core [OF core_upd(2)] by (cases st) (simp add: near_def)
  have keep: "\<not> mr_preempting (fst st)" using near by (auto simp: near_def reading_def shape_def)
  show ?thesis
  proof (cases "mr_rgb (fst st)")
    case None
    with run show ?thesis by (simp add: on_pixels_def turned_simps)
  next
    case (Some g)
    have "ends (bindc (serving (caching (commit_rgb (mr_cache_key (fst st)) p g))) (\<lambda>px.
        bindc (catchc release_scheduler (\<lambda>x. serving (holding_page px x))) (\<lambda>_.
        bindc (serving (holding_page px (map_err Outside (pa_identity a (ei_key (mr_identity (fst st))))))) (\<lambda>current.
        bindc (serving (deliver (mr_identity (fst st)) current (mr_tier (fst st)) (mr_allow_stale (fst st))
          \<lparr>pv_key = mr_key (fst st), pv_legacy_hash = mr_legacy_hash (fst st), pv_pixels = px,
           pv_record = mr_record (fst st), pv_stale = mr_stale (fst st)\<rparr>)) (\<lambda>v.
        ret (Some v))))) ?st) (turned F K z)"
    proof (rule ends_calm_step [OF calm_caching], goal_cases)
      case (2 px t)
      note rt = reading_quiet [OF 2 run]
      obtain u where u: "release_scheduler t = (Inr (), u)" "reading F K z u" "mr_lease (fst u) = None"
          "mr_request (fst u) = None"
        using release_scheduler_ends [OF rt] quiet_core [OF 2] keep unfolding ends_def by (cases "release_scheduler t") auto
      have "catchc release_scheduler (\<lambda>x. serving (holding_page px x)) t = (Inr (), u)"
        by (simp add: catchc_def u(1) holding_page_def)
      moreover have "sound (map_err Outside (pa_identity a k))" for k
        by (cases "pa_identity a k") (simp_all add: map_err_def)
      ultimately show ?case using deliver_ends [OF u(2-4)] by (simp add: bindc_Inr) blast
    qed (simp add: turned_simps reading_quiet [OF _ run])
    with Some show ?thesis by (simp add: on_pixels_def)
  qed
qed

lemma native_turn_ends:
  assumes near: "near F K z st" and lease: "mr_lease (fst st) \<noteq> None"
  shows "ends (native_turn a st) (turned F K z)"
  unfolding native_turn_def
proof (rule ends_calm_step [OF calm_parts(5)], goal_cases)
  case (2 x w)
  note nw = near_quiet [OF 2 near] and cw = quiet_core [OF 2]
  show ?case
  proof (rule ends_calm_step [OF calm_parts(4)], goal_cases)
    case (2 ev y)
    note ny = near_quiet [OF 2 nw]
    have "mr_lease (fst y) \<noteq> None" "reading F K z y"
      using quiet_core [OF 2] cw lease ny by (simp_all add: near_def)
    then show ?case
      using on_header_ends [OF ny] on_drained_ends [OF ny] on_pixels_ends [OF ny]
      by (simp add: turned_simps split: option.splits sum.splits event.splits)
  qed (use nw in \<open>simp add: turned_simps near_def reading_quiet\<close>)
qed (use near in \<open>simp add: turned_simps near_def reading_quiet\<close>)

lemma native_ends:
  assumes near: "near F K z st"
  shows "ends (native_step a st) (turned F K z)"
proof -
  have request: "ends (bindc ensure_request f st) (turned F K z)"
    if "\<And>t. near F K z t \<Longrightarrow> mr_request (fst t) \<noteq> None \<Longrightarrow> ends (f () t) (turned F K z)" for f
    by (rule ends_step, rule ensure_request_ends [OF near]) (use that in \<open>auto simp: turned_simps near_def\<close>)
  have cost: "ends (bindc ensure_cost f t) (turned F K z)"
    if "near F K z t" "mr_request (fst t) \<noteq> None"
      "\<And>u. near F K z u \<Longrightarrow> mr_request (fst u) \<noteq> None \<Longrightarrow> mr_cost (fst u) \<noteq> None \<Longrightarrow> ends (f () u) (turned F K z)" for f t
    by (rule ends_step, rule ensure_cost_ends [OF that(1,2)]) (use that(3) in \<open>auto simp: turned_simps near_def\<close>)
  have lease: "ends (bindc (ensure_lease a) (\<lambda>admitted. if admitted then native_turn a else ret None) t) (turned F K z)"
    if "near F K z t" "mr_request (fst t) \<noteq> None" "mr_cost (fst t) \<noteq> None" for t
    by (rule ends_step, rule ensure_lease_ends [OF that])
      (use native_turn_ends in \<open>auto simp: turned_simps near_def\<close>)
  show ?thesis unfolding native_step_def by (intro request cost lease)
qed

section \<open>One poll\<close>

text \<open>
  What a poll leaves: the books in order, no error of the books; at the end of the read nothing
  held but what a preempted read takes back to the queue, or the request of a read that was
  served its legacy page.
\<close>

definition polled_ok ::
  "(nat \<Rightarrow> nat option option) \<Rightarrow> (nat \<Rightarrow> bool) \<Rightarrow> _ \<Rightarrow> read_error + polled \<Rightarrow> managed_read \<times> preview_service \<Rightarrow> bool" where
  "polled_ok F K z x t \<longleftrightarrow> reading F K z t \<and> sound x
     \<and> (\<forall>v. x = Inr (Some v) \<longrightarrow> over v (fst t) \<or> hit v (fst t))
     \<and> (\<forall>e. x = Inl e \<longrightarrow> mr_request (fst t) = None \<and> mr_lease (fst t) = None)"

lemma advance_ends:
  assumes st: "reading F K z st"
  shows "ends (advance_managed_read a st) (\<lambda>x t. reading F K z t \<and> sound x
    \<and> (\<forall>v. x = Inr (Some v) \<longrightarrow> over v (fst t) \<or> hit v (fst t)))"
  unfolding advance_managed_read_def
proof (rule ends_step, rule transfer_ends [OF st], goal_cases)
  case (2 early t)
  show ?case
  proof (cases early)
    case None
    with 2 have t: "reading F K z t" "\<not> mr_encoded_task (fst t)" by (simp_all add: moved_simps)
    have "ends (cleanup_step a t) (turned F K z)" "\<not> mr_cancel (fst t) \<Longrightarrow> ends (native_step a t) (turned F K z)"
      using cleanup_ends [OF t(1)] native_ends t by (simp_all add: near_def)
    with None show ?thesis by (auto elim!: ends_weaken simp: turned_def)
  next
    case (Some x)
    with 2 show ?thesis by (cases x) (auto simp: moved_simps)
  qed
qed (auto simp: moved_simps)

lemma poll_failed_ends:
  assumes st: "reading F K z st" and e: "\<not> bookkeeping e"
  shows "ends (poll_failed e st) (polled_ok F K z)"
proof -
  obtain r s where p: "st = (r, s)" by (rule prod.exhaust)
  have "reading F K z (r\<lparr>mr_preempting := False\<rparr>, s)"
    "reading F K z (r\<lparr>mr_preempting := False, mr_failure := Some e, mr_cancel := True\<rparr>, s)"
    "reading F K z (r\<lparr>mr_preempting := False, mr_cancel := True\<rparr>, s)"
    using st e by (auto simp: p reading_def owns_def shape_def split: option.splits)
  with st e show ?thesis by (simp add: poll_failed_def p polled_ok_def released_def)
qed

theorem poll_ends:
  assumes st: "reading F K z st"
  shows "ends (poll_managed_read a st) (polled_ok F K z)"
proof -
  have step: "ends (catchc (advance_managed_read a) (\<lambda>r. case r of Inr x \<Rightarrow> ret x | Inl e \<Rightarrow> poll_failed e) t) (polled_ok F K z)"
    if t: "reading F K z t" for t
  proof (rule ends_catch, rule ends_weaken [OF advance_ends [OF t]], goal_cases)
    case (1 x u)
    then show ?case using poll_failed_ends [of F K z u] by (cases x) (auto simp: polled_ok_def)
  qed
  obtain r s where p: "st = (r, s)" by (rule prod.exhaust)
  have "reading F K z (preempt r, s)" if "\<not> mr_cancel r"
    using st by (auto simp: p preempt_def reading_def owns_def shape_def split: option.splits)
  with step [of "(preempt r, s)"] step [OF st] show ?thesis by (auto simp: poll_managed_read_def p)
qed

end
