(* ===== verification/Read_Books.thy ===== *)
theory Read_Books
  imports Read_Correct
begin

text \<open>
  The books of the whole queue: which requests of the scheduler's registry belong to pending
  reads, which to the active one, and that every step of the service keeps them.
\<close>

section \<open>Owners\<close>

definition pending_ids :: "(nat, pending_read) hmap \<Rightarrow> nat list" where
  "pending_ids ps = concat (map (\<lambda>(t, p). case pr_native p of None \<Rightarrow> [] | Some q \<Rightarrow> [nrr_id q]) ps)"

text \<open>The registry without the active read's own request.\<close>

definition others :: "preview_scheduler \<Rightarrow> read_queue \<Rightarrow> nat \<Rightarrow> nat option option" where
  "others c q =
     (case rq_active q of
        Some (t, p, m, abandoned) \<Rightarrow>
          (case mr_request m of
             Some n \<Rightarrow> (read_leases c)(nrr_id n := None)
           | None \<Rightarrow> read_leases c)
      | None \<Rightarrow> read_leases c)"

definition waiting :: "(nat \<Rightarrow> nat option option) \<Rightarrow> (nat, pending_read) hmap \<Rightarrow> bool" where
  "waiting F ps \<longleftrightarrow>
     distinct (pending_ids ps) \<and> (\<forall>i \<in> set (pending_ids ps). F i = Some None) \<and> (\<forall>i l. F i \<noteq> Some (Some l))"

definition active_ok :: "preview_scheduler \<Rightarrow> read_queue \<Rightarrow> bool" where
  "active_ok c q \<longleftrightarrow>
     (case rq_active q of
        None \<Rightarrow> True
      | Some (t, p, m, abandoned) \<Rightarrow>
          owns (others c q) m c \<and> shape (cost_fits c) m \<and> pr_native p = None
          \<and> (abandoned \<longrightarrow> mr_cancel m \<and> \<not> mr_preempting m))"

definition tickets_placed :: "read_queue \<Rightarrow> bool" where
  "tickets_placed q \<longleftrightarrow>
     hm_wf (rq_pending q) \<and> hm_wf (rq_completed q) \<and> hm_keys (rq_pending q) \<inter> hm_keys (rq_completed q) = {}
     \<and> (\<forall>t \<in> hm_keys (rq_pending q) \<union> hm_keys (rq_completed q). t \<le> rq_next q)
     \<and> (\<forall>t p m abandoned. rq_active q = Some (t, p, m, abandoned) \<longrightarrow>
          t \<le> rq_next q \<and> t \<notin> hm_keys (rq_pending q) \<union> hm_keys (rq_completed q))"

definition books :: "preview_scheduler \<Rightarrow> read_queue \<Rightarrow> bool" where
  "books c q \<longleftrightarrow> sched_inv c \<and> waiting (others c q) (rq_pending q) \<and> active_ok c q \<and> tickets_placed q"

text \<open>Requests in the registry that nobody holds.\<close>

definition orphans :: "preview_scheduler \<Rightarrow> read_queue \<Rightarrow> nat set" where
  "orphans c q = {i. others c q i \<noteq> None} - set (pending_ids (rq_pending q))"

section \<open>Changes of the queue\<close>

lemma pending_ids_Nil [simp]: "pending_ids [] = []"
  by (simp add: pending_ids_def)

lemma pending_ids_append [simp]: "pending_ids (xs @ ys) = pending_ids xs @ pending_ids ys"
  by (simp add: pending_ids_def)

lemma pending_ids_Cons [simp]:
  "pending_ids ((t, p) # ps) = (case pr_native p of None \<Rightarrow> [] | Some q \<Rightarrow> [nrr_id q]) @ pending_ids ps"
  by (simp add: pending_ids_def)

lemma pending_ids_insert:
  "t \<notin> hm_keys ps \<Longrightarrow> pending_ids (hm_insert t p ps) = pending_ids ps @ (case pr_native p of None \<Rightarrow> [] | Some q \<Rightarrow> [nrr_id q])"
  by (simp add: hm_insert_fresh)

lemma pending_ids_remove:
  assumes "map_of ps t = Some p" "hm_wf ps" "distinct (pending_ids ps)"
  shows "distinct (pending_ids (hm_remove t ps))"
    "set (pending_ids ps) = set (pending_ids (hm_remove t ps)) \<union> (case pr_native p of None \<Rightarrow> {} | Some q \<Rightarrow> {nrr_id q})"
    "pr_native p = Some q \<Longrightarrow> nrr_id q \<notin> set (pending_ids (hm_remove t ps))"
proof -
  obtain xs ys where ps: "ps = xs @ (t, p) # ys" "t \<notin> fst ` set xs" "t \<notin> fst ` set ys"
    by (rule hm_split_key [OF assms(1,2)])
  have r: "hm_remove t ps = xs @ ys" using ps by simp
  show "distinct (pending_ids (hm_remove t ps))" using assms(3) r ps(1) by (auto split: option.splits)
  show "set (pending_ids ps) = set (pending_ids (hm_remove t ps)) \<union> (case pr_native p of None \<Rightarrow> {} | Some q \<Rightarrow> {nrr_id q})"
    using r ps(1) by (auto split: option.splits)
  show "pr_native p = Some q \<Longrightarrow> nrr_id q \<notin> set (pending_ids (hm_remove t ps))"
    using assms(3) r ps(1) by auto
qed

lemma others_owned:
  assumes "rq_active q = Some (t, p, m, abandoned)" "owns F m c"
  shows "others c q = F"
  using assms by (auto simp: others_def owns_def fun_eq_iff split: option.splits)

lemma others_idle: "rq_active q = None \<Longrightarrow> others c q = read_leases c"
  by (simp add: others_def)

text \<open>The books of a queue, for a given registry \<open>F\<close> of everybody but the active read.\<close>

lemma books_active:
  assumes "rq_active q = Some (t, p, m, abandoned)" "owns F m c" "shape (cost_fits c) m" "waiting F (rq_pending q)"
    "pr_native p = None" "abandoned \<longrightarrow> mr_cancel m \<and> \<not> mr_preempting m" "tickets_placed q"
  shows "books c q" "orphans c q = {i. F i \<noteq> None} - set (pending_ids (rq_pending q))"
  using assms others_owned [OF assms(1,2)] by (simp_all add: books_def active_ok_def orphans_def owns_def)

lemma books_idle:
  assumes "rq_active q = None" "sched_inv c" "waiting (read_leases c) (rq_pending q)" "tickets_placed q"
  shows "books c q" "orphans c q = {i. read_leases c i \<noteq> None} - set (pending_ids (rq_pending q))"
  using assms others_idle [OF assms(1)] by (simp_all add: books_def active_ok_def orphans_def)

lemma booksD:
  assumes "books c q"
  shows "sched_inv c" "waiting (others c q) (rq_pending q)" "tickets_placed q"
    "rq_active q = Some (t, p, m, abandoned) \<Longrightarrow> owns (others c q) m c \<and> shape (cost_fits c) m \<and> pr_native p = None
       \<and> (abandoned \<longrightarrow> mr_cancel m \<and> \<not> mr_preempting m)"
  using assms by (auto simp: books_def active_ok_def)

lemma waitingD:
  assumes "waiting F ps"
  shows "distinct (pending_ids ps)" "i \<in> set (pending_ids ps) \<Longrightarrow> F i = Some None" "F i \<noteq> Some (Some l)"
  using assms by (auto simp: waiting_def)

text \<open>The changes of pending reads: one leaves with its request, one arrives with one.\<close>

lemma waiting_remove: "waiting F ps \<Longrightarrow> hm_wf ps \<Longrightarrow> waiting F (hm_remove t ps)"
proof (cases "map_of ps t")
  case None
  then have "hm_remove t ps = ps" by (simp add: hm_remove_absent hm_keys_iff)
  then show "waiting F ps \<Longrightarrow> waiting F (hm_remove t ps)" by simp
next
  case (Some p)
  assume w: "waiting F ps" "hm_wf ps"
  note r = pending_ids_remove [OF Some w(2) waitingD(1) [OF w(1)]]
  from w(1) r(1,2) show ?thesis unfolding waiting_def by blast
qed

lemma waiting_withdraw:
  assumes "waiting F ps" "hm_wf ps" "map_of ps t = Some p" "pr_native p = Some n"
  shows "waiting (F(nrr_id n := None)) (hm_remove t ps)" "F (nrr_id n) = Some None"
    "{i. (F(nrr_id n := None)) i \<noteq> None} - set (pending_ids (hm_remove t ps)) = {i. F i \<noteq> None} - set (pending_ids ps)"
proof -
  note r = pending_ids_remove [OF assms(3,2) waitingD(1) [OF assms(1)]]
  note gone = r(3) [OF assms(4)]
  show "F (nrr_id n) = Some None" using waitingD(2) [OF assms(1), of "nrr_id n"] r(2) assms(4) by simp
  show "waiting (F(nrr_id n := None)) (hm_remove t ps)"
    using assms(1) r(1,2) gone unfolding waiting_def by auto
  show "{i. (F(nrr_id n := None)) i \<noteq> None} - set (pending_ids (hm_remove t ps)) = {i. F i \<noteq> None} - set (pending_ids ps)"
    using r(2) gone assms(4) by auto
qed

lemma waiting_insert:
  assumes "waiting F ps" "t \<notin> hm_keys ps" "F (nrr_id n) = None" "pr_native p = Some n"
  shows "waiting (F(nrr_id n \<mapsto> None)) (hm_insert t p ps)"
    "{i. (F(nrr_id n \<mapsto> None)) i \<noteq> None} - set (pending_ids (hm_insert t p ps)) = {i. F i \<noteq> None} - set (pending_ids ps)"
proof -
  have new: "nrr_id n \<notin> set (pending_ids ps)" using waitingD(2) [OF assms(1)] assms(3) by force
  have ids: "pending_ids (hm_insert t p ps) = pending_ids ps @ [nrr_id n]" using pending_ids_insert [OF assms(2)] assms(4) by simp
  show "waiting (F(nrr_id n \<mapsto> None)) (hm_insert t p ps)" using assms(1) new unfolding waiting_def ids by auto
  show "{i. (F(nrr_id n \<mapsto> None)) i \<noteq> None} - set (pending_ids (hm_insert t p ps)) = {i. F i \<noteq> None} - set (pending_ids ps)"
    unfolding ids using assms(3) new by auto
qed

lemma waiting_insert_none:
  assumes "waiting F ps" "t \<notin> hm_keys ps" "pr_native p = None"
  shows "waiting F (hm_insert t p ps)" "pending_ids (hm_insert t p ps) = pending_ids ps"
  using assms pending_ids_insert [OF assms(2), of p] by (simp_all add: waiting_def)

section \<open>Calls that leave scheduler and queue alone\<close>

definition config :: "preview_service \<Rightarrow> bool \<times> service_limits" where
  "config s = (staged s, service_limits s)"

lemma caching_frame [simp]:
  "scheduler (snd (caching m s)) = scheduler s" "reads (snd (caching m s)) = reads s" "config (snd (caching m s)) = config s"
  by (simp_all add: caching_def config_def split: prod.splits)

lemma drop_frame [simp]:
  "scheduler (snd (drop_bytes g s)) = scheduler s" "reads (snd (drop_bytes g s)) = reads s"
  "scheduler (snd (drop_page g s)) = scheduler s" "reads (snd (drop_page g s)) = reads s"
  "config (snd (drop_bytes g s)) = config s" "config (snd (drop_page g s)) = config s"
  by (simp_all add: drop_bytes_def drop_page_def)

lemma discard_frame [simp]:
  "scheduler (discard r s) = scheduler s" "reads (discard r s) = reads s"
  "scheduler (drop_managed_read m s) = scheduler s" "reads (drop_managed_read m s) = reads s"
  "config (discard r s) = config s" "config (drop_managed_read m s) = config s"
  by (auto simp: discard_def drop_managed_read_def Let_def split: sum.splits option.splits)

lemma on_reads_frame [simp]:
  "scheduler (on_reads f s) = scheduler s" "reads (on_reads f s) = f (reads s)" "config (on_reads f s) = config s"
  by (simp_all add: on_reads_def config_def)

lemma set_active_frame [simp]:
  "scheduler (set_active x s) = scheduler s" "reads (set_active x s) = (reads s)\<lparr>rq_active := x\<rparr>"
  "config (set_active x s) = config s"
  by (simp_all add: set_active_def)

lemma insert_pending_frame [simp]:
  "scheduler (insert_pending t p s) = scheduler s"
  "reads (insert_pending t p s) = (reads s)\<lparr>rq_pending := hm_insert t p (rq_pending (reads s))\<rparr>"
  "scheduler (remove_pending t s) = scheduler s"
  "reads (remove_pending t s) = (reads s)\<lparr>rq_pending := hm_remove t (rq_pending (reads s))\<rparr>"
  "scheduler (complete t out s) = scheduler s"
  "reads (complete t out s) = (reads s)\<lparr>rq_completed := hm_insert t out (rq_completed (reads s))\<rparr>"
  "config (insert_pending t p s) = config s" "config (remove_pending t s) = config s" "config (complete t out s) = config s"
  by (simp_all add: insert_pending_def remove_pending_def complete_def)

text \<open>Beginning a read moves bytes and pages only; the read it returns holds nothing of the scheduler.\<close>

definition apart :: "preview_service \<Rightarrow> preview_service \<Rightarrow> bool" where
  "apart s t \<longleftrightarrow> scheduler t = scheduler s \<and> reads t = reads s \<and> config t = config s"

interpretation apart: state_preorder apart
  by unfold_locales (auto simp: apart_def)

definition fresh_read :: "managed_read \<Rightarrow> bool" where
  "fresh_read m \<longleftrightarrow> mr_request m = None \<and> mr_lease m = None \<and> mr_preempting m = False \<and> mr_requeue m = None
     \<and> mr_failure m = None"

definition begun_ok :: "begun service_comp \<Rightarrow> bool" where
  "begun_ok f \<longleftrightarrow> (\<forall>s. apart s (snd (f s)) \<and> (\<forall>m. fst (f s) = Inr (Pending m) \<longrightarrow> fresh_read m))"

lemma advances_caching: "advances apart (caching m)" "advances apart (drop_page a)" "advances apart (drop_bytes g)"
  by (simp_all add: advances_def apart_def)

lemma advances_answer: "advances apart (answer r)"
  by (cases r) (simp_all add: answer_def pure_read_def map_err_def apart.advances_pure)

lemmas apart_intros = apart.advances_intros advances_caching advances_answer

lemma begun_bindc:
  assumes "advances apart f" "\<And>x. begun_ok (g x)"
  shows "begun_ok (bindc f g)"
proof -
  have "apart s (snd (bindc f g s)) \<and> (\<forall>m. fst (bindc f g s) = Inr (Pending m) \<longrightarrow> fresh_read m)" for s
  proof -
    obtain r t where p: "f s = (r, t)" by (rule prod.exhaust)
    with assms(1) have "apart s t" by (metis advances_def snd_conv)
    with p assms(2) show ?thesis by (cases r) (auto simp: bindc_def begun_ok_def intro: apart.R_trans)
  qed
  then show ?thesis by (simp add: begun_ok_def)
qed

lemma begun_pure: "begun_ok (ret (Ready v))" "begun_ok (fail e)" "fresh_read m \<Longrightarrow> begun_ok (ret (Pending m))"
  by (simp_all add: begun_ok_def apart_def)

lemma begun_split:
  "begun_ok f \<Longrightarrow> begun_ok g \<Longrightarrow> begun_ok (if b then f else g)"
  "begun_ok f \<Longrightarrow> (\<And>x. begun_ok (k x)) \<Longrightarrow> begun_ok (case v of None \<Rightarrow> f | Some x \<Rightarrow> k x)"
  by (simp, cases v, auto)

lemma begin_transfer_ok: "begun_ok (begin_transfer b i t al sy n g sel ch)"
  unfolding begin_transfer_def ensure_synchronous_read_available_def Let_def
  by (intro begun_bindc begun_pure(3) apart_intros) (simp add: fresh_read_def)

lemma holding_apart: "advances apart (holding_page a r)"
  by (cases r) (auto simp: holding_page_def intro!: apart_intros)

lemma deliver_apart: "advances apart (deliver i c t al v)"
  unfolding deliver_def Let_def by (intro apart_intros)

lemma select_apart: "advances apart (select_cached b i w v t al ia n)" "advances apart (choose_object b c v t al)"
  unfolding select_cached_def choose_object_def by (intro apart_intros)+

lemma begin_guarded_ok: "begun_ok (begin_guarded b v t al ia sy i w n g)"
  unfolding begin_guarded_def
  by (intro begun_bindc begun_split begun_pure begin_transfer_ok apart_intros select_apart holding_apart deliver_apart)

lemma settle_begun_ok:
  assumes "begun_ok f"
  shows "begun_ok (catchc f (settle_begun g))"
  unfolding begun_ok_def
proof
  fix s
  obtain r u where p: "f s = (r, u)" by (rule prod.exhaust)
  have drop: "begun_ok (bindc (drop_bytes g) (\<lambda>_. fail e))" "begun_ok (bindc (drop_bytes g) (\<lambda>_. ret (Ready v)))" for e v
    by (intro begun_bindc begun_pure apart_intros)+
  from assms p have "apart s u" "\<And>m. r = Inr (Pending m) \<Longrightarrow> fresh_read m" unfolding begun_ok_def by (metis fst_conv snd_conv)+
  with drop p show "apart s (snd (catchc f (settle_begun g) s))
     \<and> (\<forall>m. fst (catchc f (settle_begun g) s) = Inr (Pending m) \<longrightarrow> fresh_read m)"
    by (auto simp: settle_begun_def catchc_eval begun_ok_def intro: apart.R_trans split: sum.splits begun.splits)
qed

lemma begin_managed_ok: "begun_ok (begin_managed_read b v t al ia sy)"
  unfolding begin_managed_read_def
  by (intro begun_bindc settle_begun_ok begin_guarded_ok apart_intros)

lemma begin_pending_ok: "begun_ok (begin_pending b identities p)"
  unfolding begin_pending_def by (intro begun_bindc begun_split begun_pure begin_managed_ok apart_intros)

section \<open>An abandoned read stays abandoned\<close>

definition resigned :: "managed_read \<times> preview_service \<Rightarrow> managed_read \<times> preview_service \<Rightarrow> bool" where
  "resigned st t \<longleftrightarrow> mr_cancel (fst st) \<and> \<not> mr_preempting (fst st) \<longrightarrow> mr_cancel (fst t) \<and> \<not> mr_preempting (fst t)"

interpretation resigned: state_preorder resigned
  by unfold_locales (auto simp: resigned_def)

lemma calm_resigned: "calm m \<Longrightarrow> advances resigned m"
  unfolding advances_def resigned_def using quiet_core(4,5) calmD(1) by metis

lemma resigned_parts:
  "advances resigned (fld f)" "(\<And>r. mr_cancel r \<and> \<not> mr_preempting r \<Longrightarrow> mr_cancel (h r) \<and> \<not> mr_preempting (h r)) \<Longrightarrow> advances resigned (upd h)"
  "advances resigned (serving m)" "advances resigned (answer r)" "advances resigned (pure_read r')"
  by (auto simp: advances_def resigned_def serving_def answer_def pure_read_def map_err_def split: prod.splits sum.splits)

lemmas resigned_intros = resigned.advances_intros resigned_parts calm_resigned [OF calm_parts(1)] calm_resigned [OF calm_parts(2)]
  calm_resigned [OF calm_parts(3)] calm_resigned [OF calm_parts(4)] calm_resigned [OF calm_parts(5)]
  calm_resigned [OF calm_drain] calm_resigned [OF calm_legacy_fallback] calm_resigned [OF calm_start_decode]

lemma release_resigned: "advances resigned release_scheduler"
  unfolding release_scheduler_def by (intro resigned_intros; simp)

lemma transfer_resigned: "advances resigned (transfer_step a)"
  unfolding transfer_step_def received_def transferred_def start_legacy_def
  by (auto intro!: resigned_intros split: sum.splits option.splits)

lemma cleanup_resigned: "advances resigned (cleanup_step a)"
  unfolding cleanup_step_def let_go_def by (auto intro!: resigned_intros release_resigned)

lemma native_resigned: "advances resigned (native_step a)"
  unfolding native_step_def native_turn_def ensure_request_def ensure_cost_def ensure_lease_def take_lease_def
    on_header_def on_drained_def on_pixels_def
  by (auto intro!: resigned_intros release_resigned split: sum.splits option.splits event.splits)

lemma poll_resigned: "advances resigned (poll_managed_read a)"
proof -
  have body: "advances resigned (catchc (advance_managed_read a) (\<lambda>r. case r of Inr x \<Rightarrow> ret x | Inl e \<Rightarrow> poll_failed e))"
    unfolding advance_managed_read_def poll_failed_def
    by (auto intro!: resigned_intros transfer_resigned cleanup_resigned native_resigned split: sum.splits)
  have "resigned (r, s) (snd (poll_managed_read a (r, s)))" for r s
    using body by (auto simp: poll_managed_read_def advances_def resigned_def preempt_def)
  then show ?thesis unfolding advances_def by (metis prod.exhaust)
qed

section \<open>Steps of the queue\<close>

text \<open>A request given up leaves the registry; an absent one leaves it alone.\<close>

lemma give_up_reads [simp]: "reads (give_up n s) = reads s" "config (give_up n s) = config s"
  by (auto simp: give_up_def scheduling_def config_def split: option.splits prod.splits)

lemma give_up_ok:
  assumes "sched_inv (scheduler s)" "n = None \<or> (\<exists>q. n = Some q \<and> read_leases (scheduler s) (nrr_id q) = Some None)"
  shows "sched_inv (scheduler (give_up n s))" "cost_fits (scheduler (give_up n s)) = cost_fits (scheduler s)"
    "read_leases (scheduler (give_up n s))
       = (case n of None \<Rightarrow> read_leases (scheduler s) | Some q \<Rightarrow> (read_leases (scheduler s))(nrr_id q := None))"
proof -
  have "sched_inv (scheduler (give_up n s)) \<and> cost_fits (scheduler (give_up n s)) = cost_fits (scheduler s) \<and>
    read_leases (scheduler (give_up n s))
       = (case n of None \<Rightarrow> read_leases (scheduler s) | Some q \<Rightarrow> (read_leases (scheduler s))(nrr_id q := None))"
  proof (cases n)
    case (Some q)
    with assms have "read_leases (scheduler s) (nrr_id q) = Some None" by simp
    from native.withdraw_law [OF assms(1) this] Some show ?thesis
      by (auto simp: give_up_def scheduling_def ends_def split: prod.splits)
  qed (use assms(1) in \<open>simp add: give_up_def\<close>)
  then show "sched_inv (scheduler (give_up n s))" "cost_fits (scheduler (give_up n s)) = cost_fits (scheduler s)"
    "read_leases (scheduler (give_up n s))
       = (case n of None \<Rightarrow> read_leases (scheduler s) | Some q \<Rightarrow> (read_leases (scheduler s))(nrr_id q := None))"
    by blast+
qed

text \<open>The tickets: where one may go.\<close>

lemma tickets_placedD:
  assumes "tickets_placed q"
  shows "hm_wf (rq_pending q)" "hm_wf (rq_completed q)"
    "t \<in> hm_keys (rq_pending q) \<Longrightarrow> t \<notin> hm_keys (rq_completed q)"
    "t \<in> hm_keys (rq_pending q) \<union> hm_keys (rq_completed q) \<Longrightarrow> t \<le> rq_next q"
    "rq_active q = Some (t, p, m, abandoned) \<Longrightarrow>
       t \<le> rq_next q \<and> t \<notin> hm_keys (rq_pending q) \<and> t \<notin> hm_keys (rq_completed q)"
  using assms unfolding tickets_placed_def by blast+

lemma tickets_simps:
  assumes "tickets_placed q"
  shows "tickets_placed (q\<lparr>rq_active := None\<rparr>)"
    "tickets_placed (q\<lparr>rq_pending := hm_remove u (rq_pending q)\<rparr>)"
    "tickets_placed (q\<lparr>rq_completed := hm_remove u (rq_completed q)\<rparr>)"
  using assms by (auto simp: tickets_placed_def hm_simps)

lemma tickets_move:
  assumes "tickets_placed q" "rq_active q = None" "t \<le> rq_next q" "t \<notin> hm_keys (rq_pending q)" "t \<notin> hm_keys (rq_completed q)"
  shows "tickets_placed (q\<lparr>rq_active := Some (t, p, m, abandoned)\<rparr>)"
    "tickets_placed (q\<lparr>rq_pending := hm_insert t p (rq_pending q)\<rparr>)"
    "tickets_placed (q\<lparr>rq_completed := hm_insert t out (rq_completed q)\<rparr>)"
  using assms by (auto simp: tickets_placed_def hm_simps)

text \<open>The end of a read in a turn, with the request it still had in the queue.\<close>

lemma finish_ok:
  assumes books: "rq_active (reads s) = None" "sched_inv (scheduler s)" "waiting F (rq_pending (reads s))" "tickets_placed (reads s)"
    and t: "t \<le> rq_next (reads s)" "t \<notin> hm_keys (rq_pending (reads s))" "t \<notin> hm_keys (rq_completed (reads s))"
    and n: "case n of None \<Rightarrow> read_leases (scheduler s) = F
      | Some q \<Rightarrow> F (nrr_id q) = None \<and> read_leases (scheduler s) = F(nrr_id q \<mapsto> None)"
    and r: "finish_read t n r abandoned s = (out, s')"
  shows "books (scheduler s') (reads s')" "orphans (scheduler s') (reads s') = {i. F i \<noteq> None} - set (pending_ids (rq_pending (reads s)))"
proof -
  have n': "n = None \<or> (\<exists>q. n = Some q \<and> read_leases (scheduler s) (nrr_id q) = Some None)" using n by (cases n) auto
  note g = give_up_ok [OF books(2) n']
  have F: "read_leases (scheduler (give_up n s)) = F" using g(3) n by (cases n) (auto simp: fun_upd_idem)
  have s': "scheduler s' = scheduler (give_up n s)"
    "reads s' = (if abandoned then reads s else (reads s)\<lparr>rq_completed := hm_insert t (outcome_of r) (rq_completed (reads s))\<rparr>)"
    using r by (auto simp: finish_read_def Let_def split: if_splits)
  have q: "rq_active (reads s') = None" "rq_pending (reads s') = rq_pending (reads s)" "tickets_placed (reads s')"
    using books(1,4) tickets_move [OF books(4,1) t] by (auto simp: s')
  from books_idle [OF q(1) _ _ q(3)] q(2) g(1) F books(3) show "books (scheduler s') (reads s')"
    "orphans (scheduler s') (reads s') = {i. F i \<noteq> None} - set (pending_ids (rq_pending (reads s)))"
    by (simp_all add: s'(1))
qed

text \<open>
  The one exception: a read that was served its legacy page leaves its request in the registry.
  It is completed in the same turn.
\<close>

definition legacy_served :: "nat \<Rightarrow> read_queue \<Rightarrow> bool" where
  "legacy_served t q \<longleftrightarrow>
     (\<exists>w. map_of (rq_completed q) t = Some (OutcomeReady w) \<and> pv_key w = None \<and> pv_legacy_hash w \<noteq> None)"

definition kept :: "preview_scheduler \<Rightarrow> read_queue \<Rightarrow> preview_service \<Rightarrow> bool" where
  "kept c q s \<longleftrightarrow> books (scheduler s) (reads s) \<and> orphans (scheduler s) (reads s) = orphans c q"

text \<open>A preempted read goes back to the pending ones, with the request it kept.\<close>

lemma back_ok:
  assumes q: "rq_active q = None" "tickets_placed q" "t \<le> rq_next q" "t \<notin> hm_keys (rq_pending q)" "t \<notin> hm_keys (rq_completed q)"
    and own: "owns F m c" "mr_lease m = None" and w: "waiting F (rq_pending q)" and p: "pr_native p = mr_request m"
    and u: "reads u = q\<lparr>rq_pending := hm_insert t p (rq_pending q)\<rparr>" "scheduler u = c"
  shows "books (scheduler u) (reads u)" "orphans (scheduler u) (reads u) = {i. F i \<noteq> None} - set (pending_ids (rq_pending q))"
proof -
  have tk: "tickets_placed (reads u)" using tickets_move(2) [OF q(2,1,3-5)] u by simp
  have inv: "sched_inv c" using own by (simp add: owns_def)
  have "waiting (read_leases c) (hm_insert t p (rq_pending q))
    \<and> {i. read_leases c i \<noteq> None} - set (pending_ids (hm_insert t p (rq_pending q))) = {i. F i \<noteq> None} - set (pending_ids (rq_pending q))"
  proof (cases "mr_request m")
    case None
    with waiting_insert_none [OF w q(4), of p] own p show ?thesis by (simp add: owns_def)
  next
    case (Some n)
    with waiting_insert [OF w q(4), of n p] own p show ?thesis by (simp add: owns_def)
  qed
  with books_idle [of "reads u" "scheduler u"] inv tk q(1) u show "books (scheduler u) (reads u)"
    "orphans (scheduler u) (reads u) = {i. F i \<noteq> None} - set (pending_ids (rq_pending q))" by simp_all
qed

lemma finish_completed:
  "finish_read t n (Inr (Some w)) False s = (out, s') \<Longrightarrow> map_of (rq_completed (reads s')) t = Some (OutcomeReady w)"
  by (auto simp: finish_read_def outcome_of_def hm_simps)

lemma ended_ok:
  assumes q: "rq_active (reads u) = None" "tickets_placed (reads u)" "t \<le> rq_next (reads u)"
      "t \<notin> hm_keys (rq_pending (reads u))" "t \<notin> hm_keys (rq_completed (reads u))"
    and own: "owns F m (scheduler u)" and w: "waiting F (rq_pending (reads u))"
    and ends: "over v m \<or> hit v m" "\<not> mr_preempting m" and off: "abandoned \<longrightarrow> mr_cancel m"
    and fin: "finish_read t None (Inr v) abandoned u = (out, s')"
  shows "books (scheduler s') (reads s') \<and>
    (orphans (scheduler s') (reads s') = {i. F i \<noteq> None} - set (pending_ids (rq_pending (reads u)))
     \<or> \<not> abandoned \<and> legacy_served t (reads s'))"
proof -
  have inv: "sched_inv (scheduler u)" using own by (simp add: owns_def)
  have finish: "books (scheduler s') (reads s') \<and> orphans (scheduler s') (reads s') = {i. G i \<noteq> None} - set (pending_ids (rq_pending (reads u)))"
    if "read_leases (scheduler u) = G" "waiting G (rq_pending (reads u))" for G
    using finish_ok [OF q(1) inv that(2) q(2-5) _ fin] that by simp
  show ?thesis
  proof (cases "mr_request m")
    case None
    with own finish [of F] w show ?thesis by (simp add: owns_def)
  next
    case (Some n)
    then have h: "hit v m" using ends by (auto simp: over_def)
    then have l: "read_leases (scheduler u) = F(nrr_id n \<mapsto> None)" and na: "\<not> abandoned"
      using own Some off by (auto simp: owns_def hit_def)
    have "waiting (F(nrr_id n \<mapsto> None)) (rq_pending (reads u))" using w by (auto simp: waiting_def)
    from finish [OF l this] have "books (scheduler s') (reads s')" by blast
    moreover obtain x where "v = Some x" "pv_key x = None" "pv_legacy_hash x \<noteq> None" using h by (auto simp: hit_def)
    ultimately show ?thesis using fin na finish_completed [of t None x] by (auto simp: legacy_served_def)
  qed
qed

text \<open>What a poll leaves to the rest of the turn.\<close>

lemma poll_turn:
  assumes books: "books (scheduler s) (reads s)" and act: "rq_active (reads s) = Some (t, p, m, abandoned)"
    and run: "poll_managed_read a (m, set_active None s) = (x, (m', u))"
  shows "owns (others (scheduler s) (reads s)) m' (scheduler u)" "shape (cost_fits (scheduler u)) m'"
    "reads u = (reads s)\<lparr>rq_active := None\<rparr>" "abandoned \<longrightarrow> mr_cancel m' \<and> \<not> mr_preempting m'"
    "x = Inr (Some v) \<Longrightarrow> over v m' \<or> hit v m'" "x = Inl e \<Longrightarrow> mr_request m' = None" "sound x"
    "mr_preempting m' \<Longrightarrow> \<not> hit v m'" "config u = config s"
proof -
  note A = booksD(4) [OF books act]
  let ?F = "others (scheduler s) (reads s)" and ?K = "cost_fits (scheduler s)"
  have "reading ?F ?K (rest (set_active None s)) (m, set_active None s)" using A by (simp add: reading_def)
  from poll_ends [OF this, of a] have ok: "polled_ok ?F ?K (rest (set_active None s)) x (m', u)" by (simp add: run)
  then show "owns ?F m' (scheduler u)" "shape (cost_fits (scheduler u)) m'" "reads u = (reads s)\<lparr>rq_active := None\<rparr>"
    "x = Inr (Some v) \<Longrightarrow> over v m' \<or> hit v m'" "x = Inl e \<Longrightarrow> mr_request m' = None" "sound x"
    "mr_preempting m' \<Longrightarrow> \<not> hit v m'" "config u = config s"
    by (auto simp: polled_ok_def reading_def rest_def hit_def shape_def set_active_def on_reads_def config_def)
  show "abandoned \<longrightarrow> mr_cancel m' \<and> \<not> mr_preempting m'"
    using A poll_resigned [of a] run unfolding advances_def resigned_def by (metis fst_conv snd_conv)
qed

lemma tick_active_ok:
  assumes books: "books (scheduler s) (reads s)" and act: "rq_active (reads s) = Some (t, p, m, abandoned)"
    and tick: "tick_active a t p m abandoned s = (out, s')"
  shows "kept (scheduler s) (reads s) s'
    \<or> books (scheduler s') (reads s') \<and> \<not> abandoned \<and> legacy_served t (reads s')"
proof -
  let ?F = "others (scheduler s) (reads s)" and ?q = "(reads s)\<lparr>rq_active := None\<rparr>"
  obtain x m' u where run: "poll_managed_read a (m, set_active None s) = (x, (m', u))" by (metis prod.exhaust)
  note P = poll_turn [OF books act run] and B = booksD [OF books] and A = booksD(4) [OF books act]
  note T = tickets_placedD(5) [OF B(3) act] and q = tickets_simps(1) [OF B(3)]
  have orph: "orphans (scheduler s) (reads s) = {i. ?F i \<noteq> None} - set (pending_ids (rq_pending ?q))"
    by (simp add: orphans_def)
  have w: "waiting ?F (rq_pending ?q)" using B(2) by simp
  show ?thesis
  proof (cases x)
    case (Inl e)
    from P(1) P(6) [OF Inl] have own: "sched_inv (scheduler u)" "read_leases (scheduler u) = ?F" by (simp_all add: owns_def)
    have "finish_read t None (Inl e) abandoned (drop_managed_read m' u) = (out, s')"
      using tick run Inl A by (simp add: tick_active_def)
    from finish_ok [OF _ _ _ _ _ _ _ _ this, of ?F] own P(3) q T w orph show ?thesis by (simp add: kept_def)
  next
    case (Inr y)
    show ?thesis
    proof (cases y)
      case None
      have s': "s' = set_active (Some (t, p, m', abandoned)) u" using tick run Inr None by (simp add: tick_active_def)
      have tk: "tickets_placed (reads s')" using tickets_move(1) [OF q] T P(3) by (simp add: s')
      from books_active [of "reads s'" t p m' abandoned ?F "scheduler s'"] P A w orph tk show ?thesis
        by (simp add: s' kept_def)
    next
      case (Some v)
      show ?thesis
      proof (cases "mr_preempting m' \<and> \<not> abandoned")
        case True
        have s': "s' = insert_pending t (p\<lparr>pr_native := mr_request m'\<rparr>) (drop_managed_read m' (discard (Inr v) u))"
          using tick run Inr Some True by (simp add: tick_active_def)
        have lease: "mr_lease m' = None" using P(5) P(8) Inr Some True by (auto simp: over_def)
        from back_ok [of ?q t ?F m' "scheduler u" "p\<lparr>pr_native := mr_request m'\<rparr>" s'] P(1,3) q T lease w orph
        show ?thesis by (simp add: kept_def s')
      next
        case False
        then have "finish_read t None (Inr v) abandoned (drop_managed_read m' u) = (out, s')"
          using tick run Inr Some A by (auto simp: tick_active_def split: if_splits)
        from ended_ok [OF _ _ _ _ _ _ _ _ _ _ this, of ?F m'] P(1,3,4) P(5) [of v] False Inr Some q T w orph
        show ?thesis by (auto simp: kept_def)
      qed
    qed
  qed
qed

lemma books_frame:
  assumes "books c q" "sched_inv c'" "read_leases c' = read_leases c" "cost_fits c' = cost_fits c"
  shows "books c' q" "orphans c' q = orphans c q"
proof -
  have "others c' q = others c q" using assms(3) by (auto simp: others_def split: option.splits)
  then show "books c' q" "orphans c' q = orphans c q"
    using assms by (auto simp: books_def active_ok_def owns_def orphans_def split: option.splits)
qed

lemma pick_pending:
  assumes "tickets_placed q" "pick_read q = Some (t, p)"
  shows "map_of (rq_pending q) t = Some p"
  using min_by_key_mem [OF assms(2) [unfolded pick_read_def]] tickets_placedD(1) [OF assms(1)] by (simp add: hm_mem_iff)

text \<open>What the requests look like once a pending read has been taken out.\<close>

lemma taken_out:
  assumes books: "books c q" and idle: "rq_active q = None" and p: "map_of (rq_pending q) t = Some p"
  obtains F where "waiting F (hm_remove t (rq_pending q))"
    "{i. F i \<noteq> None} - set (pending_ids (hm_remove t (rq_pending q))) = orphans c q"
    "case pr_native p of None \<Rightarrow> read_leases c = F | Some n \<Rightarrow> F (nrr_id n) = None \<and> read_leases c = F(nrr_id n \<mapsto> None)"
proof (cases "pr_native p")
  note B = booksD [OF books] and o = others_idle [OF idle, of c]
  note wf = tickets_placedD(1) [OF B(3)]
  case None
  from pending_ids_remove(2) [OF p wf waitingD(1) [OF B(2)]] None
  have "set (pending_ids (hm_remove t (rq_pending q))) = set (pending_ids (rq_pending q))" by simp
  with that [of "read_leases c"] waiting_remove [OF B(2) wf] None o show thesis by (simp add: orphans_def)
next
  note B = booksD [OF books] and o = others_idle [OF idle, of c]
  note wf = tickets_placedD(1) [OF B(3)]
  case (Some n)
  from waiting_withdraw [OF B(2) wf p Some] Some o that [of "(read_leases c)(nrr_id n := None)"]
  show thesis by (simp add: orphans_def fun_upd_idem)
qed

lemma tick_pending_ok:
  assumes books: "books (scheduler s) (reads s)" and idle: "rq_active (reads s) = None"
    and tick: "tick_pending b identities s = (out, s')"
  shows "kept (scheduler s) (reads s) s'"
proof (cases "pick_read (reads s)")
  case None
  with tick books show ?thesis by (simp add: tick_pending_def kept_def)
next
  case (Some tp)
  obtain t p where tp: "pick_read (reads s) = Some (t, p)" using Some by (cases tp) auto
  note B = booksD [OF books]
  note mem = pick_pending [OF B(3) tp]
  obtain F where F: "waiting F (hm_remove t (rq_pending (reads s)))"
    "{i. F i \<noteq> None} - set (pending_ids (hm_remove t (rq_pending (reads s)))) = orphans (scheduler s) (reads s)"
    "case pr_native p of None \<Rightarrow> read_leases (scheduler s) = F
      | Some n \<Rightarrow> F (nrr_id n) = None \<and> read_leases (scheduler s) = F(nrr_id n \<mapsto> None)"
    by (rule taken_out [OF books idle mem])
  let ?s = "remove_pending t s" and ?q = "(reads s)\<lparr>rq_pending := hm_remove t (rq_pending (reads s))\<rparr>"
  obtain x u where run: "begin_pending b identities p ?s = (x, u)" by (rule prod.exhaust)
  have "apart ?s u" and fresh: "\<And>m. x = Inr (Pending m) \<Longrightarrow> fresh_read m"
    using begin_pending_ok [of b identities p] run unfolding begun_ok_def by (metis fst_conv snd_conv)+
  then have u: "scheduler u = scheduler s" "reads u = ?q" by (simp_all add: apart_def)
  have q: "tickets_placed ?q" "t \<le> rq_next ?q" "t \<notin> hm_keys (rq_pending ?q)" "t \<notin> hm_keys (rq_completed ?q)"
    using tickets_simps(2) [OF B(3)] tickets_placedD(3,4) [OF B(3), of t] hm_keys_Some [OF mem] by (auto simp: hm_simps)
  have fin: "kept (scheduler s) (reads s) s'" if "finish_read t (pr_native p) r False u = (out, s')" for r
    using finish_ok [OF _ _ _ _ _ _ _ F(3) [folded u(1)] that] u q F(1,2) B(1) idle by (simp add: kept_def)
  show ?thesis
  proof (cases "\<exists>m. x = Inr (Pending m)")
    case True
    then obtain m where m: "x = Inr (Pending m)" "fresh_read m" using fresh by blast
    have s': "s' = set_active (Some (t, p\<lparr>pr_native := None\<rparr>, m\<lparr>mr_request := pr_native p\<rparr>, False)) u"
      using tick tp run m by (simp add: tick_pending_def)
    have tk: "tickets_placed (reads s')" using tickets_move(1) [OF q(1) _ q(2-4)] u idle by (simp add: s')
    have "owns F (m\<lparr>mr_request := pr_native p\<rparr>) (scheduler s)" "shape K (m\<lparr>mr_request := pr_native p\<rparr>)" for K
      using F(3) B(1) m(2) by (auto simp: owns_def shape_def fresh_read_def split: option.splits)
    from books_active [OF _ this, of "reads s'" t "p\<lparr>pr_native := None\<rparr>" False] F(1,2) tk u
    show ?thesis by (simp add: kept_def s')
  next
    case False
    then obtain r where "finish_read t (pr_native p) r False u = (out, s')"
      using tick tp run by (cases x; cases "projr x") (auto simp: tick_pending_def)
    then show ?thesis by (rule fin)
  qed
qed

lemma tick_read_ok:
  assumes books: "books (scheduler s) (reads s)" and tick: "tick_read a b identities s = (out, s')"
  shows "kept (scheduler s) (reads s) s' \<or> books (scheduler s') (reads s') \<and>
    (\<exists>t p m. rq_active (reads s) = Some (t, p, m, False) \<and> legacy_served t (reads s'))"
proof (cases "delivery_io s \<or> delivery_pending s \<and> rq_active (reads s) = None")
  case True
  with tick books show ?thesis by (simp add: tick_read_def kept_def)
next
  case False
  show ?thesis
  proof (cases "rq_active (reads s)")
    case None
    with tick False tick_pending_ok [OF books None] show ?thesis by (simp add: tick_read_def tick_managed_read_queue_def)
  next
    case (Some x)
    obtain t p m abandoned where x: "rq_active (reads s) = Some (t, p, m, abandoned)" using Some by (cases x) auto
    with tick False tick_active_ok [OF books x] show ?thesis
      by (cases abandoned) (auto simp: tick_read_def tick_managed_read_queue_def)
  qed
qed

section \<open>Requests and cancellation\<close>

lemma owns_enrolled:
  assumes "owns F m c" "sched_inv c'" "read_leases c n = None" "read_leases c' = (read_leases c)(n \<mapsto> None)"
  shows "owns (F(n \<mapsto> None)) m c'" "F n = None"
  using assms by (auto simp: owns_def fun_upd_twist split: option.splits if_splits)

lemma books_enrolled:
  assumes books: "books c q" and c': "sched_inv c'" "cost_fits c' = cost_fits c" "read_leases c (nrr_id n) = None"
      "read_leases c' = (read_leases c)(nrr_id n \<mapsto> None)"
    and t: "t \<le> rq_next q" "t \<notin> hm_keys (rq_pending q)" "t \<notin> hm_keys (rq_completed q)"
      "\<And>u p m abandoned. rq_active q = Some (u, p, m, abandoned) \<Longrightarrow> u \<noteq> t"
    and p: "pr_native p = Some n"
  shows "books c' (q\<lparr>rq_pending := hm_insert t p (rq_pending q)\<rparr>)"
    "orphans c' (q\<lparr>rq_pending := hm_insert t p (rq_pending q)\<rparr>) = orphans c q"
proof -
  note B = booksD [OF books]
  let ?q = "q\<lparr>rq_pending := hm_insert t p (rq_pending q)\<rparr>"
  have tk: "tickets_placed ?q" using B(3) t by (auto simp: tickets_placed_def hm_simps)
  have "books c' ?q \<and> orphans c' ?q = orphans c q"
  proof (cases "rq_active q")
    case None
    note o = others_idle [OF None, of c]
    note W = waiting_insert [OF B(2) t(2) _ p]
    have "rq_active ?q = None" using None by simp
    from books_idle [OF this c'(1) _ tk] W o c'(3,4) show ?thesis by (simp add: orphans_def)
  next
    case (Some x)
    obtain u pa m abandoned where x: "rq_active q = Some (u, pa, m, abandoned)" using Some by (cases x) auto
    note A = B(4) [OF x]
    note E = owns_enrolled [OF conjunct1 [OF A] c'(1,3,4)]
    note W = waiting_insert [OF B(2) t(2) E(2) p]
    have "rq_active ?q = Some (u, pa, m, abandoned)" using x by simp
    from books_active [OF this E(1) _ _ _ _ tk] W A c'(2) show ?thesis by (simp add: orphans_def)
  qed
  then show "books c' ?q" "orphans c' ?q = orphans c q" by blast+
qed

lemma books_active_change:
  assumes "books c q" "rq_active q = Some (t, p, m, abandoned)" "\<And>F. owns F m c \<Longrightarrow> owns F m' c"
    "shape (cost_fits c) m \<Longrightarrow> shape (cost_fits c) m'" "abandoned' \<longrightarrow> mr_cancel m' \<and> \<not> mr_preempting m'"
  shows "books c (q\<lparr>rq_active := Some (t, p, m', abandoned')\<rparr>)"
    "orphans c (q\<lparr>rq_active := Some (t, p, m', abandoned')\<rparr>) = orphans c q"
proof -
  note B = booksD [OF assms(1)] and A = booksD(4) [OF assms(1,2)]
  let ?q = "q\<lparr>rq_active := Some (t, p, m', abandoned')\<rparr>"
  have tk: "tickets_placed ?q" using B(3) assms(2) by (auto simp: tickets_placed_def)
  have act: "rq_active ?q = Some (t, p, m', abandoned')" by simp
  from A assms(3,4) have "owns (others c q) m' c" "shape (cost_fits c) m'" "pr_native p = None" by blast+
  from books_active [OF act this(1,2) _ this(3) assms(5) tk] B(2)
  show "books c ?q" "orphans c ?q = orphans c q" by (simp_all add: orphans_def)
qed

lemma owns_flags: "owns F m c \<Longrightarrow> owns F (preempt m) c" "owns F m c \<Longrightarrow> owns F (abandon m) c"
  by (auto simp: owns_def preempt_def abandon_def split: option.splits)

lemma shape_flags: "shape K m \<Longrightarrow> shape K (preempt m)" "shape K m \<Longrightarrow> shape K (abandon m)"
  by (auto simp: shape_def preempt_def abandon_def)

lemma preempt_active_ok:
  assumes "books c q"
  shows "books c (preempt_active q)" "orphans c (preempt_active q) = orphans c q"
proof -
  have "books c (preempt_active q) \<and> orphans c (preempt_active q) = orphans c q"
  proof (cases "rq_active q")
    case None
    with assms show ?thesis by (simp add: preempt_active_def)
  next
    case (Some x)
    obtain t p m abandoned where x: "rq_active q = Some (t, p, m, abandoned)" using Some by (cases x) auto
    have "abandoned \<Longrightarrow> preempt_active q = q" by (simp add: preempt_active_def x)
    moreover have "books c (q\<lparr>rq_active := Some (t, p, preempt m, abandoned)\<rparr>)
        \<and> orphans c (q\<lparr>rq_active := Some (t, p, preempt m, abandoned)\<rparr>) = orphans c q" if "\<not> abandoned"
      using books_active_change [OF assms x owns_flags(1) shape_flags(1), where abandoned' = abandoned] that by simp
    ultimately show ?thesis using assms x by (auto simp: preempt_active_def)
  qed
  then show "books c (preempt_active q)" "orphans c (preempt_active q) = orphans c q" by blast+
qed

lemma preempt_active_fields [simp]:
  "rq_pending (preempt_active q) = rq_pending q" "rq_completed (preempt_active q) = rq_completed q"
  "rq_next (preempt_active q) = rq_next q"
  "preempt_active (q\<lparr>rq_pending := x\<rparr>) = (preempt_active q)\<lparr>rq_pending := x\<rparr>"
  by (auto simp: preempt_active_def split: option.splits)

lemma books_next:
  assumes "books c q" "rq_next q \<le> n"
  shows "books c (q\<lparr>rq_next := n\<rparr>)" "orphans c (q\<lparr>rq_next := n\<rparr>) = orphans c q"
proof -
  have "tickets_placed (q\<lparr>rq_next := n\<rparr>)"
    using booksD(3) [OF assms(1)] assms(2) unfolding tickets_placed_def by (auto intro: le_trans)
  moreover have "others c (q\<lparr>rq_next := n\<rparr>) = others c q" by (simp add: others_def)
  moreover from this have "active_ok c (q\<lparr>rq_next := n\<rparr>) = active_ok c q" by (simp only: active_ok_def) simp
  ultimately show "books c (q\<lparr>rq_next := n\<rparr>)" "orphans c (q\<lparr>rq_next := n\<rparr>) = orphans c q"
    using assms(1) by (simp_all add: books_def orphans_def)
qed

lemma bindc_answer: "bindc (answer r) g s = (case r of Inl e \<Rightarrow> (Inl (Outside e), s) | Inr x \<Rightarrow> g x s)"
  by (cases r) (simp_all add: answer_def pure_read_def map_err_def)

text \<open>The new ticket with its place in the scheduler's queue; a background read makes way.\<close>

lemma placed_ok:
  assumes books: "books c q" and c': "sched_inv c'" "cost_fits c' = cost_fits c" "read_leases c (nrr_id n) = None"
      "read_leases c' = (read_leases c)(nrr_id n \<mapsto> None)"
    and p: "pr_native p = Some n" and f: "f = preempt_active \<or> f = id"
  shows "books c' ((f (q\<lparr>rq_next := rq_next q + 1\<rparr>))\<lparr>rq_pending := hm_insert (rq_next q + 1) p (rq_pending q)\<rparr>)"
    "orphans c' ((f (q\<lparr>rq_next := rq_next q + 1\<rparr>))\<lparr>rq_pending := hm_insert (rq_next q + 1) p (rq_pending q)\<rparr>) = orphans c q"
proof -
  let ?t = "rq_next q + 1" and ?q = "q\<lparr>rq_next := rq_next q + 1\<rparr>"
  note T = tickets_placedD [OF booksD(3) [OF books]]
  note N = books_next [OF books, of ?t]
  have t: "?t \<notin> hm_keys (rq_pending ?q)" "?t \<notin> hm_keys (rq_completed ?q)"
    "\<And>u p m abandoned. rq_active ?q = Some (u, p, m, abandoned) \<Longrightarrow> u \<noteq> ?t"
    using T(4) [of ?t] T(5) by force+
  have E: "books c' (?q\<lparr>rq_pending := hm_insert ?t p (rq_pending ?q)\<rparr>)"
    "orphans c' (?q\<lparr>rq_pending := hm_insert ?t p (rq_pending ?q)\<rparr>) = orphans c q"
    using books_enrolled [OF N(1) c' _ t p] N(2) by simp_all
  from E preempt_active_ok [OF E(1)] f
  show "books c' ((f ?q)\<lparr>rq_pending := hm_insert ?t p (rq_pending q)\<rparr>)"
    "orphans c' ((f ?q)\<lparr>rq_pending := hm_insert ?t p (rq_pending q)\<rparr>) = orphans c q" by auto
qed

lemma queue_read_ok:
  assumes books: "books (scheduler s) (reads s)" and st: "staged s"
  shows "kept (scheduler s) (reads s) (snd (queue_read_variant identities keys v t al p ia s))"
proof -
  let ?q = "(reads s)\<lparr>rq_next := rq_next (reads s) + 1\<rparr>"
  obtain x c where run: "queue_native_read p (scheduler s) = (x, c)" by (rule prod.exhaust)
  note L = endsD [OF native.enroll_law [OF booksD(1) [OF books], of p] run]
  note N = books_next [OF books, of "rq_next (reads s) + 1"]
  have refused: "kept (scheduler s) (reads s) (s\<lparr>reads := ?q, scheduler := c\<rparr>)" if "x = Inl e" for e
    using books_frame [OF N(1)] N(2) L that by (simp add: kept_def)
  have placed: "kept (scheduler s) (reads s)
      (s\<lparr>scheduler := c, reads := (f ?q)\<lparr>rq_pending := hm_insert (rq_next (reads s) + 1) pend (rq_pending (reads s))\<rparr>\<rparr>)"
    if "x = Inr n" "pr_native pend = Some n" "f = preempt_active \<or> f = id" for n pend f
    using placed_ok [OF books _ _ _ _ that(2,3), of c] L that(1) by (simp add: kept_def)
  have call: "scheduling (queue_native_read p) (s\<lparr>reads := y\<rparr>) = (map_err Scheduling x, s\<lparr>reads := y, scheduler := c\<rparr>)" for y
    by (simp add: scheduling_def run)
  have early: "kept (scheduler s) (reads s) s" using books by (simp add: kept_def)
  define f where "f = (if p = Foreground then preempt_active else id)"
  have f: "f = preempt_active \<or> f = id" by (simp add: f_def)
  have arrive: "rq_pending_update (hm_insert u e) (f y) = (f y)\<lparr>rq_pending := hm_insert u e (rq_pending y)\<rparr>" for u e y
  proof -
    have "rq_pending (f y) = rq_pending y" using f by auto
    then show ?thesis by (cases "f y") simp
  qed
  note unfolded = queue_read_variant_def bindc_answer bindc_assoc checked_add_def on_reads_def insert_pending_def f_def [symmetric]
  show ?thesis
  proof (cases x)
    case (Inl e)
    from refused [OF Inl] early st show ?thesis
      by (simp add: unfolded bindc_Inl [where m = "scheduling _", OF call [unfolded Inl map_err_def sum.case]] split: sum.split)
  next
    case (Inr n)
    from placed [OF Inr _ f] early st show ?thesis
      by (simp add: unfolded arrive bindc_Inr [where m = "scheduling _", OF call [unfolded Inr map_err_def sum.case]] split: sum.split)
  qed
qed

lemma books_withdrawn:
  assumes books: "books c q" and p: "map_of (rq_pending q) t = Some p" "pr_native p = Some n"
    and c': "sched_inv c'" "cost_fits c' = cost_fits c" "read_leases c' = (read_leases c)(nrr_id n := None)"
  shows "books c' (q\<lparr>rq_pending := hm_remove t (rq_pending q)\<rparr>)"
    "orphans c' (q\<lparr>rq_pending := hm_remove t (rq_pending q)\<rparr>) = orphans c q"
proof -
  note B = booksD [OF books]
  note W = waiting_withdraw [OF B(2) tickets_placedD(1) [OF B(3)] p]
  let ?q = "q\<lparr>rq_pending := hm_remove t (rq_pending q)\<rparr>"
  have tk: "tickets_placed ?q" by (rule tickets_simps [OF B(3)])
  have "books c' ?q \<and> orphans c' ?q = orphans c q"
  proof (cases "rq_active q")
    case None
    have "rq_active ?q = None" using None by simp
    from books_idle [OF this c'(1) _ tk] W others_idle [OF None, of c] c'(3) show ?thesis by (simp add: orphans_def)
  next
    case (Some x)
    obtain u pa m abandoned where x: "rq_active q = Some (u, pa, m, abandoned)" using Some by (cases x) auto
    note A = B(4) [OF x]
    have own: "owns ((others c q)(nrr_id n := None)) m c'"
      using A W(2) c' by (auto simp: owns_def fun_upd_twist split: option.splits)
    have "rq_active ?q = Some (u, pa, m, abandoned)" using x by simp
    from books_active [OF this own _ _ _ _ tk] W A c'(2) show ?thesis by (simp add: orphans_def)
  qed
  then show "books c' ?q" "orphans c' ?q = orphans c q" by blast+
qed

lemma books_dismissed:
  assumes books: "books c q" and p: "map_of (rq_pending q) t = Some p" "pr_native p = None"
  shows "books c (q\<lparr>rq_pending := hm_remove t (rq_pending q)\<rparr>)"
    "orphans c (q\<lparr>rq_pending := hm_remove t (rq_pending q)\<rparr>) = orphans c q"
proof -
  note B = booksD [OF books] and wf = tickets_placedD(1) [OF booksD(3) [OF books]]
  let ?q = "q\<lparr>rq_pending := hm_remove t (rq_pending q)\<rparr>"
  have o: "others c ?q = others c q" by (simp add: others_def)
  have a: "active_ok c ?q = active_ok c q" by (simp only: active_ok_def o) simp
  from waiting_remove [OF B(2) wf] tickets_simps(2) [OF B(3)] books o a show "books c ?q" by (simp add: books_def)
  show "orphans c ?q = orphans c q"
    using pending_ids_remove(2) [OF p(1) wf waitingD(1) [OF B(2)]] p(2) o by (simp add: orphans_def)
qed

text \<open>A pending read leaves the queue with its request.\<close>

lemma leave_ok:
  assumes books: "books (scheduler s) q" and p: "map_of (rq_pending q) t = Some p"
  shows "books (scheduler (give_up (pr_native p) s)) (q\<lparr>rq_pending := hm_remove t (rq_pending q)\<rparr>)"
    "orphans (scheduler (give_up (pr_native p) s)) (q\<lparr>rq_pending := hm_remove t (rq_pending q)\<rparr>) = orphans (scheduler s) q"
proof -
  note B = booksD [OF books]
  let ?c = "scheduler (give_up (pr_native p) s)" and ?q = "q\<lparr>rq_pending := hm_remove t (rq_pending q)\<rparr>"
  have "books ?c ?q \<and> orphans ?c ?q = orphans (scheduler s) q"
  proof (cases "pr_native p")
    case None
    with books_dismissed [OF books p None] show ?thesis by (simp add: give_up_def)
  next
    case (Some n)
    have "others (scheduler s) q (nrr_id n) = Some None"
      using waiting_withdraw(2) [OF B(2) tickets_placedD(1) [OF B(3)] p Some] .
    then have "read_leases (scheduler s) (nrr_id n) = Some None"
      by (auto simp: others_def split: option.splits if_splits)
    from give_up_ok [OF B(1), of "pr_native p"] this Some books_withdrawn [OF books p Some, of ?c] show ?thesis by simp
  qed
  then show "books ?c ?q" "orphans ?c ?q = orphans (scheduler s) q" by blast+
qed

lemma books_completed:
  assumes "books c q" "tickets_placed (q\<lparr>rq_completed := x\<rparr>)"
  shows "books c (q\<lparr>rq_completed := x\<rparr>)" "orphans c (q\<lparr>rq_completed := x\<rparr>) = orphans c q"
proof -
  have o: "others c (q\<lparr>rq_completed := x\<rparr>) = others c q" by (simp add: others_def)
  have a: "active_ok c (q\<lparr>rq_completed := x\<rparr>) = active_ok c q" by (simp only: active_ok_def o) simp
  from assms o a show "books c (q\<lparr>rq_completed := x\<rparr>)" "orphans c (q\<lparr>rq_completed := x\<rparr>) = orphans c q"
    by (simp_all add: books_def orphans_def)
qed

lemma discard_completion_frame [simp]:
  "scheduler (discard_completion t s) = scheduler s" "reads (discard_completion t s) = reads s"
  "config (discard_completion t s) = config s"
  by (auto simp: discard_completion_def split: option.splits read_outcome.splits)

lemma remove_completed: "rq_completed_update (hm_remove t) q = q\<lparr>rq_completed := hm_remove t (rq_completed q)\<rparr>"
  by (cases q) simp

lemma take_read_ok:
  assumes "books (scheduler s) (reads s)"
  shows "kept (scheduler s) (reads s) (snd (take_read t s))"
  using books_completed [OF assms tickets_simps(3) [OF booksD(3) [OF assms]]] by (simp add: take_read_def kept_def remove_completed)

lemma cancel_read_ok:
  assumes books: "books (scheduler s) (reads s)"
  shows "kept (scheduler s) (reads s) (snd (cancel_read t s))"
proof -
  have wait: "kept (scheduler s) (reads s) (snd (cancel_waiting t s))"
  proof (cases "map_of (rq_pending (reads s)) t")
    case None
    with books_completed [OF books tickets_simps(3) [OF booksD(3) [OF books]]] show ?thesis
      by (simp add: cancel_waiting_def kept_def remove_completed)
  next
    case (Some p)
    have "scheduler (give_up (pr_native p) (remove_pending t s)) = scheduler (give_up (pr_native p) s)"
      by (auto simp: give_up_def scheduling_def split: option.splits prod.splits)
    with leave_ok [OF books Some] Some show ?thesis by (simp add: cancel_waiting_def kept_def)
  qed
  show ?thesis
  proof (cases "rq_active (reads s)")
    case None
    with wait show ?thesis by (simp add: cancel_read_def)
  next
    case (Some x)
    obtain u p m abandoned where x: "rq_active (reads s) = Some (u, p, m, abandoned)" using Some by (cases x) auto
    have "mr_cancel (abandon m) \<and> \<not> mr_preempting (abandon m)" by (simp add: abandon_def)
    with books_active_change [OF books x, where m' = "abandon m" and abandoned' = True] owns_flags(2) [of _ m] shape_flags(2) [of _ m] wait x
    show ?thesis by (auto simp: cancel_read_def kept_def)
  qed
qed

section \<open>Shutdown\<close>

lemma give_up_all:
  assumes "books (scheduler s) (q\<lparr>rq_pending := ps\<rparr>)"
  shows "books (scheduler (fold (\<lambda>(_, p). give_up (pr_native p)) ps s)) (q\<lparr>rq_pending := []\<rparr>)
    \<and> orphans (scheduler (fold (\<lambda>(_, p). give_up (pr_native p)) ps s)) (q\<lparr>rq_pending := []\<rparr>)
        = orphans (scheduler s) (q\<lparr>rq_pending := ps\<rparr>)
    \<and> reads (fold (\<lambda>(_, p). give_up (pr_native p)) ps s) = reads s"
  using assms
proof (induction ps arbitrary: s)
  case (Cons e ps)
  obtain t p where e: "e = (t, p)" by (rule prod.exhaust)
  have "hm_wf (e # ps)" using tickets_placedD(1) [OF booksD(3) [OF Cons.prems]] by simp
  then have "t \<notin> fst ` set ps" by (simp add: e hm_wf_def)
  then have rest: "hm_remove t (e # ps) = ps" by (auto simp: e hm_remove_def filter_id_conv)
  from leave_ok [OF Cons.prems, of t p] e rest
  have "books (scheduler (give_up (pr_native p) s)) (q\<lparr>rq_pending := ps\<rparr>)"
    "orphans (scheduler (give_up (pr_native p) s)) (q\<lparr>rq_pending := ps\<rparr>) = orphans (scheduler s) (q\<lparr>rq_pending := e # ps\<rparr>)"
    by simp_all
  with Cons.IH [of "give_up (pr_native p) s"] e show ?case by simp
qed simp

lemma signal_ok:
  assumes books: "books (scheduler s) (reads s)"
  shows "kept (scheduler s) (reads s) (signal_read_shutdown s)"
proof -
  let ?s = "on_reads (rq_pending_update (\<lambda>_. [])) s" and ?ps = "rq_pending (reads s)"
  let ?u = "fold (\<lambda>(_, p). give_up (pr_native p)) ?ps ?s"
  have u: "books (scheduler ?u) (reads ?u)" "orphans (scheduler ?u) (reads ?u) = orphans (scheduler s) (reads s)"
    using give_up_all [where s = ?s and q = "reads s" and ps = ?ps] books by simp_all
  show ?thesis
  proof (cases "rq_active (reads ?u)")
    case None
    with u show ?thesis by (simp add: signal_read_shutdown_def abandon_active_def kept_def)
  next
    case (Some x)
    obtain t p m abandoned where x: "rq_active (reads ?u) = Some (t, p, m, abandoned)" using Some by (cases x) auto
    have "mr_cancel (abandon m) \<and> \<not> mr_preempting (abandon m)" by (simp add: abandon_def)
    with books_active_change [OF u(1) x, where m' = "abandon m" and abandoned' = True] owns_flags(2) [of _ m] shape_flags(2) [of _ m] u x
    show ?thesis by (simp add: signal_read_shutdown_def abandon_active_def kept_def)
  qed
qed

text \<open>Draining ends tasks; nothing the books look at but the two flags changes.\<close>

definition drained :: "managed_read \<times> preview_service \<Rightarrow> managed_read \<times> preview_service \<Rightarrow> bool" where
  "drained st t \<longleftrightarrow> snd t = snd st \<and> (\<forall>F c. owns F (fst st) c \<longrightarrow> owns F (fst t) c)
     \<and> (\<forall>K. shape K (fst st) \<longrightarrow> shape K (fst t))
     \<and> (mr_cancel (fst st) \<and> \<not> mr_preempting (fst st) \<longrightarrow> mr_cancel (fst t) \<and> \<not> mr_preempting (fst t))"

interpretation drained: state_preorder drained
  by unfold_locales (auto simp: drained_def)

lemma drained_parts:
  "advances drained (fld f)" "advances drained (upd abandon)" "advances drained (upd (mr_encoded_task_update (\<lambda>_. False)))"
  "advances drained (upd (mr_transport_task_update (\<lambda>_. False)))" "advances drained (answer r)"
  by (auto simp: advances_def drained_def answer_def pure_read_def map_err_def owns_def shape_def abandon_def
      split: option.splits sum.splits)

lemma drain_read_drained: "advances drained (drain_read x y z)"
  unfolding drain_read_def by (intro drained.advances_intros drained_parts)

lemma try_shutdown_ok:
  assumes books: "books (scheduler s) (reads s)"
  shows "kept (scheduler s) (reads s) (snd (try_read_shutdown x y z s))"
proof (cases "rq_active (reads s)")
  case None
  with books show ?thesis by (simp add: try_read_shutdown_def with_active_def kept_def)
next
  case (Some e)
  obtain t p m abandoned where e: "rq_active (reads s) = Some (t, p, m, abandoned)" using Some by (cases e) auto
  obtain r m' u where run: "drain_read x y z (m, s) = (r, (m', u))" by (metis prod.exhaust)
  have "drained (m, s) (m', u)" using drain_read_drained [of x y z] run unfolding advances_def by (metis snd_conv)
  then have d: "u = s" "\<And>F c. owns F m c \<Longrightarrow> owns F m' c" "\<And>K. shape K m \<Longrightarrow> shape K m'"
    "mr_cancel m \<and> \<not> mr_preempting m \<longrightarrow> mr_cancel m' \<and> \<not> mr_preempting m'" by (simp_all add: drained_def)
  from books_active_change [OF books e d(2,3), where abandoned' = abandoned] booksD(4) [OF books e] d(1,4) run e show ?thesis
    by (cases r) (auto simp: try_read_shutdown_def with_active_def kept_def)
qed

lemma finish_shutdown_ok:
  assumes books: "books (scheduler s) (reads s)" and up: "given_up s"
  shows "kept (scheduler s) (reads s) (snd (finish_read_shutdown s)) \<and> fst (finish_read_shutdown s) = Inr ()"
proof (cases "rq_active (reads s)")
  case None
  with books show ?thesis by (simp add: finish_read_shutdown_def with_active_def kept_def)
next
  case (Some e)
  with up obtain t p m where e: "rq_active (reads s) = Some (t, p, m, True)" by (cases e) (auto simp: given_up_def)
  note A = booksD(4) [OF books e] and B = booksD [OF books]
  let ?F = "others (scheduler s) (reads s)"
  obtain r m' u where run: "release_scheduler (m, s) = (r, (m', u))" by (metis prod.exhaust)
  have "reading ?F (cost_fits (scheduler s)) (rest s) (m, s)" using A by (simp add: reading_def)
  from endsD [OF release_scheduler_ends [OF this] run] A have r: "r = Inr ()" "owns ?F m' (scheduler u)" "mr_request m' = None"
    "reads u = reads s" by (auto simp: reading_def rest_def)
  have inv: "sched_inv (scheduler u)" "read_leases (scheduler u) = ?F" using r by (simp_all add: owns_def)
  from books_idle [of "(reads s)\<lparr>rq_active := None\<rparr>" "scheduler u"] inv B(2) tickets_simps(1) [OF B(3)]
  have "books (scheduler u) ((reads s)\<lparr>rq_active := None\<rparr>)"
    "orphans (scheduler u) ((reads s)\<lparr>rq_active := None\<rparr>) = orphans (scheduler s) (reads s)"
    by (simp_all add: orphans_def)
  with r run e show ?thesis by (simp add: finish_read_shutdown_def with_active_def kept_def)
qed

section \<open>Render work on the same scheduler\<close>

definition same_registry :: "preview_scheduler \<Rightarrow> preview_scheduler \<Rightarrow> bool" where
  "same_registry c d \<longleftrightarrow> external d = external c \<and> limits d = limits c"

interpretation same_registry: state_preorder same_registry
  by unfold_locales (auto simp: same_registry_def)

lemma registry_prims:
  "advances same_registry serial" "advances same_registry flag_new" "advances same_registry free_bytes"
  "advances same_registry (unreserve b)" "advances same_registry (candidate_cost i n)"
  by (auto simp: advances_def same_registry_def serial_def flag_new_def free_bytes_def unreserve_def candidate_cost_def
      bindc_def lift_option_def getc_def ret_def fail_def split: option.splits)

lemma registry_modc: "(\<And>c. external (f c) = external c \<and> limits (f c) = limits c) \<Longrightarrow> advances same_registry (modc f)"
  by (simp add: advances_def same_registry_def)

lemmas registry_intros = same_registry.advances_intros registry_prims

lemma preempt_registry: "advances same_registry preempt_background"
  unfolding preempt_background_def preempt_read_def preempt_job_def pressed_def
  by (auto intro!: registry_intros registry_modc split: option.splits prod.splits priority.splits simp: flag_store_def)

lemma render_registry:
  "advances same_registry (request key cost p)" "advances same_registry (cancel consumer)"
  "advances same_registry next_ready" "advances same_registry (finished lease outcome)"
  unfolding request_def existing_job_def join_job_def start_job_def cancel_def remove_job_def next_ready_def finished_def
    requeue_job_def retire_job_def
  by (auto intro!: registry_intros registry_modc preempt_registry split: option.splits prod.splits if_splits bool.splits simp: flag_store_def)

lemma rendering_ok:
  assumes "books (scheduler s) (reads s)" "advances same_registry m" "safe_op m (scheduler s)"
  shows "kept (scheduler s) (reads s) (rendering m s)"
proof -
  let ?c = "snd (m (scheduler s))"
  have "same_registry (scheduler s) ?c" using assms(2) by (simp add: advances_def)
  then have "read_leases ?c = read_leases (scheduler s)" "cost_fits ?c = cost_fits (scheduler s)"
    by (auto simp: same_registry_def intro!: leases_frame)
  moreover have "scheduler (rendering m s) = ?c" "reads (rendering m s) = reads s"
    by (auto simp: rendering_def scheduling_def split: prod.splits)
  ultimately show ?thesis using books_frame [OF assms(1), of ?c] safe_opD [OF assms(3)] by (simp add: kept_def)
qed

end
