(* ===== verification/Read_Service.thy ===== *)
theory Read_Service
  imports Read_Books
begin

text \<open>
  The read queue as a transition system: the invariant of its reachable states, the life of a
  ticket, and the bound on the tickets the queue holds.
\<close>

section \<open>What a step does to the queue\<close>

lemma finish_reads:
  assumes "finish_read t n r abandoned s = (out, s')"
  shows "reads s' = (if abandoned then reads s else (reads s)\<lparr>rq_completed := hm_insert t (outcome_of r) (rq_completed (reads s))\<rparr>)"
    "config s' = config s"
  using assms by (auto simp: finish_read_def Let_def split: if_splits)

lemma tick_active_reads:
  assumes books: "books (scheduler s) (reads s)" and act: "rq_active (reads s) = Some (t, p, m, abandoned)"
    and tick: "tick_active a t p m abandoned s = (out, s')"
  obtains (stays) m' where "reads s' = (reads s)\<lparr>rq_active := Some (t, p, m', abandoned)\<rparr>"
  | (returns) p' where "\<not> abandoned" "reads s' = (reads s)\<lparr>rq_active := None, rq_pending := hm_insert t p' (rq_pending (reads s))\<rparr>"
  | (ends) r where "reads s' = (if abandoned then (reads s)\<lparr>rq_active := None\<rparr>
      else (reads s)\<lparr>rq_active := None, rq_completed := hm_insert t r (rq_completed (reads s))\<rparr>)"
proof -
  obtain x m' u where run: "poll_managed_read a (m, set_active None s) = (x, (m', u))" by (metis prod.exhaust)
  note u = poll_turn(3) [OF books act run]
  show thesis
  proof (cases x)
    case (Inl e)
    with tick run have "finish_read t (pr_native p) (Inl e) abandoned (drop_managed_read m' u) = (out, s')" by (simp add: tick_active_def)
    from finish_reads(1) [OF this] u show thesis by (intro ends [of "outcome_of (Inl e)"]) (auto split: if_splits)
  next
    case (Inr y)
    show thesis
    proof (cases y)
      case None
      with tick run Inr u show thesis by (intro stays [of m']) (auto simp: tick_active_def)
    next
      case (Some v)
      show thesis
      proof (cases "mr_preempting m' \<and> \<not> abandoned")
        case True
        with tick run Inr Some u show thesis
          by (intro returns [of "p\<lparr>pr_native := mr_request m'\<rparr>"]) (auto simp: tick_active_def)
      next
        case False
        with tick run Inr Some have "finish_read t (pr_native p) (Inr v) abandoned (drop_managed_read m' u) = (out, s')"
          by (auto simp: tick_active_def)
        from finish_reads(1) [OF this] u show thesis by (intro ends [of "outcome_of (Inr v)"]) (auto split: if_splits)
      qed
    qed
  qed
qed

lemma tick_pending_reads:
  assumes wf: "tickets_placed (reads s)" and tick: "tick_pending b identities s = (out, s')"
  obtains (idle) "s' = s"
  | (starts) t p p' m where "map_of (rq_pending (reads s)) t = Some p"
      "reads s' = (reads s)\<lparr>rq_pending := hm_remove t (rq_pending (reads s)), rq_active := Some (t, p', m, False)\<rparr>"
  | (ends) t p r where "map_of (rq_pending (reads s)) t = Some p"
      "reads s' = (reads s)\<lparr>rq_pending := hm_remove t (rq_pending (reads s)), rq_completed := hm_insert t r (rq_completed (reads s))\<rparr>"
proof (cases "pick_read (reads s)")
  case None
  with tick show thesis by (intro idle) (simp add: tick_pending_def)
next
  case (Some tp)
  obtain t p where tp: "pick_read (reads s) = Some (t, p)" using Some by (cases tp) auto
  note mem = pick_pending [OF wf tp]
  obtain x u where run: "begin_pending b identities p (remove_pending t s) = (x, u)" by (rule prod.exhaust)
  have u: "reads u = (reads s)\<lparr>rq_pending := hm_remove t (rq_pending (reads s))\<rparr>"
    using begin_pending_ok [of b identities p] run unfolding begun_ok_def apart_def by (metis insert_pending_frame(4) snd_conv)
  show thesis
  proof (cases "\<exists>m. x = Inr (Pending m)")
    case True
    then obtain m where "x = Inr (Pending m)" ..
    with tick tp run u show thesis
      by (intro starts [OF mem, of "p\<lparr>pr_native := None\<rparr>" "m\<lparr>mr_request := pr_native p\<rparr>"]) (auto simp: tick_pending_def)
  next
    case False
    then obtain r where "finish_read t (pr_native p) r False u = (out, s')"
      using tick tp run by (cases x; cases "projr x") (auto simp: tick_pending_def)
    from finish_reads(1) [OF this] u show thesis by (intro ends [OF mem, of "outcome_of r"]) auto
  qed
qed

lemma tick_config:
  assumes books: "books (scheduler s) (reads s)" and tick: "tick_read a b identities s = (out, s')"
  shows "config s' = config s"
proof -
  have active: "config u = config s" if x: "rq_active (reads s) = Some (t, p, m, abandoned)"
    and run: "tick_active a t p m abandoned s = (y, u)" for t p m abandoned y u
  proof -
    obtain x m' w where poll: "poll_managed_read a (m, set_active None s) = (x, (m', w))" by (metis prod.exhaust)
    from poll_turn(9) [OF books x poll] run poll show ?thesis
      by (auto simp: tick_active_def dest: finish_reads(2) split: sum.splits option.splits if_splits)
  qed
  have pending: "config u = config s" if run: "tick_pending b identities s = (y, u)" for y u
  proof (cases "pick_read (reads s)")
    case (Some tp)
    obtain t p where tp: "tp = (t, p)" by (rule prod.exhaust)
    obtain x w where started: "begin_pending b identities p (remove_pending t s) = (x, w)" by (rule prod.exhaust)
    have "config w = config s"
      using begin_pending_ok [of b identities p] started unfolding begun_ok_def apart_def by (metis insert_pending_frame(7,8,9) snd_conv)
    with run Some tp started show ?thesis
      by (auto simp: tick_pending_def dest: finish_reads(2) split: sum.splits begun.splits)
  qed (use run in \<open>simp add: tick_pending_def\<close>)
  from tick show ?thesis
    by (auto simp: tick_read_def tick_managed_read_queue_def intro: active pending split: if_splits option.splits)
qed

lemma answer_eval [simp]: "answer r s = (map_err Outside r, s)"
  by (cases r) (simp_all add: answer_def pure_read_def map_err_def)

lemma queue_read_reads:
  assumes run: "queue_read_variant identities keys v t al p ia s = (out, s')"
  obtains (early) "reads s' = reads s" | (skips) "reads s' = (reads s)\<lparr>rq_next := rq_next (reads s) + 1\<rparr>"
  | (queued) e f where "0 < available_request_slots s" "f = preempt_active \<or> f = id"
      "reads s' = (f ((reads s)\<lparr>rq_next := rq_next (reads s) + 1\<rparr>))\<lparr>rq_pending := hm_insert (rq_next (reads s) + 1) e (rq_pending (reads s))\<rparr>"
      "out = Inr (rq_next (reads s) + 1)"
proof -
  define f where "f = (if p = Foreground then preempt_active else id)"
  have f: "f = preempt_active \<or> f = id" by (simp add: f_def)
  have arrive: "rq_pending_update (hm_insert u e) (f y) = (f y)\<lparr>rq_pending := hm_insert u e (rq_pending y)\<rparr>" for u e y
  proof -
    have "rq_pending (f y) = rq_pending y" using f by auto
    then show ?thesis by (cases "f y") simp
  qed
  note unfolded = queue_read_variant_def checked_add_def on_reads_def insert_pending_def f_def [symmetric]
    bindc_def scheduling_def map_err_def arrive
  show thesis
    using run early skips queued [OF _ f]
    by (auto simp: unfolded split: if_splits sum.splits prod.splits)
qed


lemma queue_read_config: "config (snd (queue_read_variant identities keys v t al p ia s)) = config s"
  by (auto simp: queue_read_variant_def checked_add_def on_reads_def insert_pending_def bindc_def scheduling_def map_err_def
      config_def split: if_splits sum.splits prod.splits)

section \<open>The life of a ticket\<close>

datatype read_status = Unissued | Waiting | Running | Abandoned | Completed | Settled

definition parked :: "read_queue \<Rightarrow> nat \<Rightarrow> read_status" where
  "parked q t =
     (if map_of (rq_pending q) t \<noteq> None then Waiting
      else if map_of (rq_completed q) t \<noteq> None then Completed
      else if t \<le> rq_next q then Settled else Unissued)"

definition read_status :: "read_queue \<Rightarrow> nat \<Rightarrow> read_status" where
  "read_status q t =
     (case rq_active q of
        Some (u, p, m, abandoned) \<Rightarrow>
          if u = t then (if abandoned then Abandoned else Running) else parked q t
      | None \<Rightarrow> parked q t)"

text \<open>
  The transitions; the number 0 is never given out and counts as settled. A ticket number is skipped when the scheduler refuses the request; a running
  read returns to the waiting ones when it is preempted; nothing leaves \<open>Settled\<close>.
\<close>

definition successors :: "read_status \<Rightarrow> read_status list" where
  "successors a =
     (case a of
        Unissued \<Rightarrow> [Waiting, Settled]
      | Waiting \<Rightarrow> [Running, Completed, Settled]
      | Running \<Rightarrow> [Waiting, Completed, Abandoned]
      | Abandoned \<Rightarrow> [Settled]
      | Completed \<Rightarrow> [Settled]
      | Settled \<Rightarrow> [])"

definition lives :: "read_queue \<Rightarrow> read_queue \<Rightarrow> bool" where
  "lives q q' \<longleftrightarrow> (\<forall>t. read_status q' t = read_status q t \<or> read_status q' t \<in> set (successors (read_status q t)))"

lemma lives_refl [simp]: "lives q q"
  by (simp add: lives_def)

lemma livesI:
  "(\<And>t. read_status q' t = read_status q t \<or> read_status q' t \<in> set (successors (read_status q t))) \<Longrightarrow> lives q q'"
  by (simp add: lives_def)

lemma status_simps:
  "rq_active q = None \<Longrightarrow> read_status q t = parked q t"
  "rq_active q = Some (u, p, m, abandoned) \<Longrightarrow>
     read_status q t = (if u = t then (if abandoned then Abandoned else Running) else parked q t)"
  by (simp_all add: read_status_def)

lemma hm_absent: "map_of ps t = None \<longleftrightarrow> t \<notin> hm_keys ps"
  by (auto simp: hm_keys_iff)

lemma tickets_absent:
  assumes "tickets_placed q"
  shows "rq_active q = Some (t, p, m, abandoned) \<Longrightarrow> map_of (rq_pending q) t = None"
    "rq_active q = Some (t, p, m, abandoned) \<Longrightarrow> map_of (rq_completed q) t = None"
    "rq_active q = Some (t, p, m, abandoned) \<Longrightarrow> t \<le> rq_next q"
    "map_of (rq_pending q) t = Some e \<Longrightarrow> map_of (rq_completed q) t = None"
    "map_of (rq_pending q) t = Some e \<Longrightarrow> t \<le> rq_next q"
    "map_of (rq_completed q) t = Some r \<Longrightarrow> t \<le> rq_next q"
    "map_of (rq_pending q) (Suc (rq_next q)) = None" "map_of (rq_completed q) (Suc (rq_next q)) = None"
    "rq_active q = Some (u, p, m, abandoned) \<Longrightarrow> u \<noteq> Suc (rq_next q)"
  using tickets_placedD [OF assms] Suc_n_not_le_n unfolding hm_absent by (metis UnI1 UnI2 hm_keys_Some)+

lemma parked_simps:
  "rq_pending q' = rq_pending q \<Longrightarrow> rq_completed q' = rq_completed q \<Longrightarrow> rq_next q' = rq_next q \<Longrightarrow> parked q' t = parked q t"
  by (simp add: parked_def)

lemma status_active_change:
  "rq_active q = Some (t, p, m, abandoned) \<Longrightarrow> read_status (q\<lparr>rq_active := Some (t, p', m', abandoned)\<rparr>) u = read_status q u"
  by (simp add: read_status_def parked_def)

lemma lives_tick_active:
  assumes books: "books (scheduler s) (reads s)" and act: "rq_active (reads s) = Some (t, p, m, abandoned)"
    and tick: "tick_active a t p m abandoned s = (out, s')"
  shows "lives (reads s) (reads s')"
  using books act tick
proof (cases rule: tick_active_reads)
  case (stays m')
  then show ?thesis using act by (simp add: lives_def status_active_change)
next
  case (returns p')
  then show ?thesis using act by (auto simp: lives_def read_status_def parked_def successors_def hm_simps)
next
  case (ends r)
  note T = tickets_absent [OF booksD(3) [OF books]]
  note A = T(1-3) [OF act]
  show ?thesis
  proof (rule livesI)
    fix u
    show "read_status (reads s') u = read_status (reads s) u \<or> read_status (reads s') u \<in> set (successors (read_status (reads s) u))"
      using ends act A by (cases "u = t"; cases abandoned) (auto simp: read_status_def parked_def successors_def hm_simps)
  qed
qed

lemma lives_tick_pending:
  assumes tk: "tickets_placed (reads s)" and idle: "rq_active (reads s) = None" and tick: "tick_pending b identities s = (out, s')"
  shows "lives (reads s) (reads s')"
  using tk tick
proof (cases rule: tick_pending_reads)
  case (starts t p p' m)
  then show ?thesis using idle by (auto simp: lives_def read_status_def parked_def successors_def hm_simps)
next
  case (ends t p r)
  then show ?thesis using idle by (auto simp: lives_def read_status_def parked_def successors_def hm_simps)
qed simp

lemma lives_tick:
  assumes "books (scheduler s) (reads s)" "tick_read a b identities s = (out, s')"
  shows "lives (reads s) (reads s')"
  using assms lives_tick_active [OF assms(1)] lives_tick_pending [OF booksD(3) [OF assms(1)]]
  by (auto simp: tick_read_def tick_managed_read_queue_def split: if_splits option.splits)

lemma status_preempt [simp]: "read_status (preempt_active q) t = read_status q t"
  by (auto simp: preempt_active_def read_status_def parked_def split: option.splits)

lemma lives_preempt: "f = preempt_active \<or> f = id \<Longrightarrow> lives q q' \<Longrightarrow> lives q (f q')"
  by (auto simp: lives_def)

lemma lives_queue:
  assumes tk: "tickets_placed (reads s)"
  shows "lives (reads s) (reads (snd (queue_read_variant identities keys v t al p ia s)))"
proof -
  obtain out s' where run: "queue_read_variant identities keys v t al p ia s = (out, s')" by (rule prod.exhaust)
  let ?q = "reads s" and ?n = "rq_next (reads s) + 1"
  note T = tickets_absent [OF tk]
  from run show ?thesis
  proof (cases rule: queue_read_reads)
    case skips
    then show ?thesis using run T by (auto simp: lives_def read_status_def parked_def successors_def split: option.splits)
  next
    case (queued e f)
    have "lives ?q (?q\<lparr>rq_next := ?n, rq_pending := hm_insert ?n e (rq_pending ?q)\<rparr>)"
      using T by (auto simp: lives_def read_status_def parked_def successors_def hm_simps split: option.splits)
    from lives_preempt [OF queued(2) this] queued(2,3) run show ?thesis by auto
  qed (use run in simp)
qed

text \<open>Only what the queue holds under one ticket changes.\<close>

lemma lives_at:
  assumes "rq_active q' = rq_active q" "\<And>u. u \<noteq> t \<Longrightarrow> parked q' u = parked q u"
    "(\<exists>p m abandoned. rq_active q = Some (t, p, m, abandoned)) \<or> parked q' t = parked q t \<or> parked q' t \<in> set (successors (parked q t))"
  shows "lives q q'"
proof (rule livesI)
  fix u
  show "read_status q' u = read_status q u \<or> read_status q' u \<in> set (successors (read_status q u))"
    using assms by (cases "u = t") (auto simp: read_status_def split: option.splits)
qed

lemma lives_take:
  assumes "tickets_placed (reads s)"
  shows "lives (reads s) (reads (snd (take_read t s)))"
  by (rule lives_at [where t = t])
    (use tickets_absent(4,6) [OF assms, of t] in \<open>auto simp: take_read_def parked_def successors_def hm_simps\<close>)

lemma lives_waiting:
  assumes "tickets_placed (reads s)"
  shows "lives (reads s) (reads (snd (cancel_waiting t s)))"
  by (rule lives_at [where t = t])
    (use tickets_absent(4,5,6) [OF assms, of t] in \<open>auto simp: cancel_waiting_def parked_def successors_def hm_simps split: option.splits\<close>)

lemma lives_cancel:
  assumes tk: "tickets_placed (reads s)"
  shows "lives (reads s) (reads (snd (cancel_read t s)))"
proof (cases "\<exists>p m abandoned. rq_active (reads s) = Some (t, p, m, abandoned)")
  case True
  then obtain p m abandoned where a: "rq_active (reads s) = Some (t, p, m, abandoned)" by blast
  then have "reads (snd (cancel_read t s)) = (reads s)\<lparr>rq_active := Some (t, p, abandon m, True)\<rparr>" by (simp add: cancel_read_def)
  with a show ?thesis by (simp add: lives_def read_status_def parked_def successors_def)
next
  case False
  then have "cancel_read t s = cancel_waiting t s" by (auto simp: cancel_read_def split: option.splits)
  with lives_waiting [OF tk] show ?thesis by simp
qed

lemma give_up_all_reads [simp]:
  "reads (fold (\<lambda>(_, p). give_up (pr_native p)) ps s) = reads s" "config (fold (\<lambda>(_, p). give_up (pr_native p)) ps s) = config s"
  by (induction ps arbitrary: s) auto

lemma signal_reads:
  "reads (signal_read_shutdown s) = (reads s)\<lparr>rq_pending := [],
     rq_active := (case rq_active (reads s) of None \<Rightarrow> None | Some (t, p, m, abandoned) \<Rightarrow> Some (t, p, abandon m, True))\<rparr>"
  "config (signal_read_shutdown s) = config s"
  by (auto simp: signal_read_shutdown_def abandon_active_def split: option.splits)

lemma lives_signal:
  assumes "tickets_placed (reads s)"
  shows "lives (reads s) (reads (signal_read_shutdown s))"
  using tickets_absent(1,2,4,5) [OF assms]
  by (auto simp: signal_reads lives_def read_status_def parked_def successors_def split: option.splits)

lemma drained_run:
  assumes run: "try_read_shutdown x y z s = (out, s')"
  shows "config s' = config s \<and> (reads s' = reads s \<or>
    (\<exists>t p m m' abandoned. rq_active (reads s) = Some (t, p, m, abandoned) \<and> reads s' = (reads s)\<lparr>rq_active := Some (t, p, m', abandoned)\<rparr>))"
proof (cases "rq_active (reads s)")
  case (Some e)
  obtain t p m abandoned where e: "rq_active (reads s) = Some (t, p, m, abandoned)" using Some by (cases e) auto
  obtain r m' u where drain: "drain_read x y z (m, s) = (r, (m', u))" by (metis prod.exhaust)
  have "drained (m, s) (m', u)" using drain_read_drained [of x y z] drain unfolding advances_def by (metis snd_conv)
  with run drain e show ?thesis by (cases r) (auto simp: drained_def try_read_shutdown_def with_active_def)
qed (use run in \<open>simp add: try_read_shutdown_def with_active_def\<close>)

lemma lives_drain: "lives (reads s) (reads (snd (try_read_shutdown x y z s)))"
  using drained_run [of x y z s "fst (try_read_shutdown x y z s)" "snd (try_read_shutdown x y z s)"]
  by (auto simp: lives_def status_active_change)

lemma release_reads:
  assumes "release_scheduler (m, s) = (r, (m', u))"
  shows "reads u = reads s" "config u = config s"
  using assms
  by (auto simp: release_scheduler_def bindc_def fld_def upd_def serving_def scheduling_def lift_option_def config_def
      split: if_splits option.splits sum.splits prod.splits)

lemma finish_shutdown_reads:
  assumes "books (scheduler s) (reads s)" "given_up s"
  shows "reads (snd (finish_read_shutdown s)) = (reads s)\<lparr>rq_active := None\<rparr>" "config (snd (finish_read_shutdown s)) = config s"
proof -
  have "fst (finish_read_shutdown s) = Inr ()" using finish_shutdown_ok [OF assms] by blast
  then have "reads (snd (finish_read_shutdown s)) = (reads s)\<lparr>rq_active := None\<rparr> \<and> config (snd (finish_read_shutdown s)) = config s"
    by (auto simp: finish_read_shutdown_def with_active_def dest: release_reads split: option.splits sum.splits prod.splits)
  then show "reads (snd (finish_read_shutdown s)) = (reads s)\<lparr>rq_active := None\<rparr>" "config (snd (finish_read_shutdown s)) = config s"
    by blast+
qed

lemma lives_finish:
  assumes "books (scheduler s) (reads s)" "given_up s"
  shows "lives (reads s) (reads (snd (finish_read_shutdown s)))"
  using finish_shutdown_reads [OF assms] assms(2) tickets_absent(1,2,3) [OF booksD(3) [OF assms(1)]]
  by (auto simp: given_up_def lives_def read_status_def parked_def successors_def split: option.splits)

section \<open>The bound on the tickets held\<close>

lemma length_tick:
  assumes books: "books (scheduler s) (reads s)" and tick: "tick_read a b identities s = (out, s')"
  shows "queue_length (reads s') \<le> queue_length (reads s)"
proof -
  have active: "queue_length (reads u) \<le> queue_length (reads s)" if x: "rq_active (reads s) = Some (t, p, m, abandoned)"
    and run: "tick_active a t p m abandoned s = (y, u)" for t p m abandoned y u
    using books x run
    by (cases rule: tick_active_reads) (use x in \<open>auto simp: queue_length_def intro: le_trans [OF length_hm_insert_le]\<close>)
  have pending: "queue_length (reads u) \<le> queue_length (reads s)" if idle: "rq_active (reads s) = None"
    and run: "tick_pending b identities s = (y, u)" for y u
    using booksD(3) [OF books] run
  proof (cases rule: tick_pending_reads)
    case (starts t p p' m)
    with length_hm_remove [OF starts(1) tickets_placedD(1) [OF booksD(3) [OF books]]] idle show ?thesis by (simp add: queue_length_def)
  next
    case (ends t p r)
    with length_hm_remove [OF ends(1) tickets_placedD(1) [OF booksD(3) [OF books]]] idle
      length_hm_insert_le [of t r "rq_completed (reads s)"] show ?thesis by (simp add: queue_length_def)
  qed simp
  from tick show ?thesis
    by (auto simp: tick_read_def tick_managed_read_queue_def intro: active pending split: if_splits option.splits)
qed

lemma length_preempt [simp]: "queue_length (preempt_active q) = queue_length q"
  by (auto simp: queue_length_def preempt_active_def split: option.splits)

lemma length_next [simp]: "queue_length (q\<lparr>rq_next := n\<rparr>) = queue_length q"
  by (simp add: queue_length_def)

lemma length_pending_insert: "queue_length (q\<lparr>rq_pending := hm_insert t p (rq_pending q)\<rparr>) \<le> Suc (queue_length q)"
  using length_hm_insert_le [of t p "rq_pending q"] by (simp add: queue_length_def)

lemma length_queue:
  assumes "queue_length (reads s) \<le> sl_requests (service_limits s)"
  shows "queue_length (reads (snd (queue_read_variant identities keys v t al p ia s))) \<le> sl_requests (service_limits s)"
proof -
  obtain out s' where run: "queue_read_variant identities keys v t al p ia s = (out, s')" by (rule prod.exhaust)
  then show ?thesis
  proof (cases rule: queue_read_reads)
    case (queued e f)
    let ?q = "f ((reads s)\<lparr>rq_next := rq_next (reads s) + 1\<rparr>)"
    have "queue_length ?q = queue_length (reads s)" "rq_pending ?q = rq_pending (reads s)" using queued(2) by auto
    with length_pending_insert [where q = ?q and t = "rq_next (reads s) + 1" and p = e] queued(1,3) run show ?thesis
      by (simp add: available_request_slots_def)
  qed (use run assms in simp_all)
qed

lemma length_cancel: "queue_length (reads (snd (cancel_read t s))) \<le> queue_length (reads s)"
proof -
  have "queue_length (reads (snd (cancel_waiting t s))) \<le> queue_length (reads s)"
    using length_hm_remove_le [of t "rq_pending (reads s)"] length_hm_remove_le [of t "rq_completed (reads s)"]
    by (auto simp: cancel_waiting_def queue_length_def split: option.splits)
  then show ?thesis by (auto simp: cancel_read_def queue_length_def split: option.splits)
qed

lemma length_take: "queue_length (reads (snd (take_read t s))) \<le> queue_length (reads s)"
  using length_hm_remove_le [of t "rq_completed (reads s)"] by (simp add: take_read_def queue_length_def)

lemma length_shutdown:
  "queue_length (reads (signal_read_shutdown s)) \<le> queue_length (reads s)"
  "queue_length (reads (snd (try_read_shutdown x y z s))) \<le> queue_length (reads s)"
  "books (scheduler s) (reads s) \<Longrightarrow> given_up s \<Longrightarrow> queue_length (reads (snd (finish_read_shutdown s))) \<le> queue_length (reads s)"
  using drained_run [of x y z s "fst (try_read_shutdown x y z s)" "snd (try_read_shutdown x y z s)"] finish_shutdown_reads [of s]
  by (auto simp: signal_reads queue_length_def split: option.splits)

lemma cancel_read_config: "config (snd (cancel_read t s)) = config s"
  by (auto simp: cancel_read_def cancel_waiting_def split: option.splits)

section \<open>The service as a transition system\<close>

definition service_inv :: "preview_service \<Rightarrow> bool" where
  "service_inv s \<longleftrightarrow>
     books (scheduler s) (reads s) \<and> staged s \<and> queue_length (reads s) \<le> sl_requests (service_limits s)"

text \<open>What holds of every step: the books, the configuration, the life of the tickets, the bound.\<close>

definition follows :: "preview_service \<Rightarrow> preview_service \<Rightarrow> bool" where
  "follows s t \<longleftrightarrow>
     (kept (scheduler s) (reads s) t \<or> books (scheduler t) (reads t) \<and>
        (\<exists>u p m. rq_active (reads s) = Some (u, p, m, False) \<and> legacy_served u (reads t)))
     \<and> config t = config s \<and> lives (reads s) (reads t)
     \<and> (queue_length (reads s) \<le> sl_requests (service_limits s) \<longrightarrow> queue_length (reads t) \<le> sl_requests (service_limits s))"

lemma rendering_follows:
  assumes "books (scheduler s) (reads s)" "advances same_registry m" "safe_op m (scheduler s)"
  shows "follows s (rendering m s)"
proof -
  have "reads (rendering m s) = reads s" "config (rendering m s) = config s"
    by (auto simp: rendering_def scheduling_def config_def split: prod.splits)
  with rendering_ok [OF assms] show ?thesis by (simp add: follows_def)
qed

lemma tick_follows:
  assumes books: "books (scheduler s) (reads s)"
  shows "follows s (snd (tick_read a b identities s))"
proof -
  obtain out t where run: "tick_read a b identities s = (out, t)" by (rule prod.exhaust)
  from tick_read_ok [OF books run] tick_config [OF books run] lives_tick [OF books run] length_tick [OF books run] run
  show ?thesis by (auto simp: follows_def)
qed

lemma step_follows:
  assumes inv: "service_inv s" and step: "service_step s t"
  shows "follows s t"
proof -
  have books: "books (scheduler s) (reads s)" and st: "staged s" using inv by (simp_all add: service_inv_def)
  note tk = booksD(3) [OF books] and sched = booksD(1) [OF books]
  from step show ?thesis
  proof cases
    case queue
    then show ?thesis using queue_read_ok [OF books st] lives_queue [OF tk] length_queue queue_read_config
      by (simp add: follows_def)
  next
    case (cancel u)
    then show ?thesis using cancel_read_ok [OF books] lives_cancel [OF tk] length_cancel [of u s] cancel_read_config
      by (simp add: follows_def)
  next
    case (take u)
    then show ?thesis using take_read_ok [OF books] lives_take [OF tk] length_take [of u s]
      by (simp add: follows_def) (simp add: take_read_def)
  next
    case tick
    then show ?thesis using tick_follows [OF books] by simp
  next
    case signal
    then show ?thesis using signal_ok [OF books] lives_signal [OF tk] length_shutdown(1) [of s] signal_reads(2) [of s]
      by (simp add: follows_def)
  next
    case (drain x y z)
    then show ?thesis using try_shutdown_ok [OF books, of x y z] lives_drain [of s x y z] length_shutdown(2) [of x y z s]
        drained_run [of x y z s "fst (try_read_shutdown x y z s)" "snd (try_read_shutdown x y z s)"]
      by (simp add: follows_def)
  next
    case finish
    then show ?thesis using finish_shutdown_ok [OF books] lives_finish [OF books] length_shutdown(3) [OF books]
        finish_shutdown_reads(2) [OF books] by (simp add: follows_def)
  next
    case render_request
    then show ?thesis using rendering_follows [OF books render_registry(1) request_safe [OF sched]] by simp
  next
    case render_cancel
    then show ?thesis using rendering_follows [OF books render_registry(2) cancel_safe [OF sched]] by simp
  next
    case render_ready
    then show ?thesis using rendering_follows [OF books render_registry(3) next_ready_safe [OF sched]] by simp
  next
    case render_finished
    then show ?thesis using rendering_follows [OF books render_registry(4) finished_safe [OF sched]] by simp
  next
    case environment
    then show ?thesis using books by (simp add: follows_def kept_def config_def)
  qed
qed

lemma sched_init_leases: "sched_init c \<Longrightarrow> read_leases c = (\<lambda>_. None)"
  by (auto simp: sched_init_def new_scheduler_def read_leases_def split: if_splits)

lemma service_init_inv: "service_init s \<Longrightarrow> service_inv s"
  using books_idle(1) [of "reads s" "scheduler s"] sched_init_inv [of "scheduler s"] sched_init_leases [of "scheduler s"]
  by (simp add: service_init_def service_inv_def queue_length_def waiting_def tickets_placed_def)

lemma service_step_inv: "service_inv s \<Longrightarrow> service_step s t \<Longrightarrow> service_inv t"
  using step_follows [of s t] by (auto simp: service_inv_def follows_def kept_def config_def)

interpretation service: inductive_invariant service_init service_step service_inv
  by unfold_locales (auto intro: service_init_inv service_step_inv)

section \<open>The books, fact by fact\<close>

lemma books_facts:
  assumes "books c q"
  shows "map_of (rq_pending q) t = Some p \<Longrightarrow> pr_native p = Some n \<Longrightarrow> read_leases c (nrr_id n) = Some None"
    "distinct (pending_ids (rq_pending q))"
    "rq_active q = Some (t, p, m, abandoned) \<Longrightarrow> mr_request m = Some n \<Longrightarrow>
       read_leases c (nrr_id n) = Some (mr_lease m) \<and> nrr_id n \<notin> set (pending_ids (rq_pending q))"
    "read_leases c i = Some (Some l) \<Longrightarrow>
       \<exists>t p m abandoned n. rq_active q = Some (t, p, m, abandoned) \<and> mr_request m = Some n \<and> nrr_id n = i \<and> mr_lease m = Some l"
proof -
  note B = booksD [OF assms] and W = waitingD [OF booksD(2) [OF assms]]
  have le: "read_leases c i = others c q i" if "others c q i \<noteq> None" for i
    using that by (auto simp: others_def split: option.splits if_splits)
  show "distinct (pending_ids (rq_pending q))" by (rule W(1))
  show "read_leases c (nrr_id n) = Some None" if "map_of (rq_pending q) t = Some p" "pr_native p = Some n"
    using waiting_withdraw(2) [OF B(2) tickets_placedD(1) [OF B(3)] that] le by simp
  show "read_leases c (nrr_id n) = Some (mr_lease m) \<and> nrr_id n \<notin> set (pending_ids (rq_pending q))"
    if "rq_active q = Some (t, p, m, abandoned)" "mr_request m = Some n"
    using B(4) [OF that(1)] that(2) W(2) [of "nrr_id n"] by (auto simp: owns_def)
  show "\<exists>t p m abandoned n. rq_active q = Some (t, p, m, abandoned) \<and> mr_request m = Some n \<and> nrr_id n = i \<and> mr_lease m = Some l"
    if l: "read_leases c i = Some (Some l)"
  proof (cases "rq_active q")
    case None
    with l W(3) [of i l] show ?thesis by (simp add: others_idle)
  next
    case (Some x)
    obtain t p m abandoned where x: "rq_active q = Some (t, p, m, abandoned)" using Some by (cases x) auto
    with B(4) [OF x] l W(3) [of i l] show ?thesis by (auto simp: owns_def split: option.splits if_splits)
  qed
qed

section \<open>Tickets that are given up\<close>

definition given_up_ticket :: "nat \<Rightarrow> read_queue \<Rightarrow> bool" where
  "given_up_ticket t q \<longleftrightarrow> read_status q t \<in> {Abandoned, Settled}"

lemma given_up_lives: "lives q q' \<Longrightarrow> given_up_ticket t q \<Longrightarrow> given_up_ticket t q'"
  unfolding lives_def given_up_ticket_def by (drule spec [of _ t]) (auto simp: successors_def)

lemma given_up_completed:
  assumes "tickets_placed q" "given_up_ticket t q"
  shows "map_of (rq_completed q) t = None"
  using assms(2) tickets_absent(2) [OF assms(1)]
  by (auto simp: given_up_ticket_def read_status_def parked_def split: option.splits if_splits)

lemma cancel_gives_up:
  assumes tk: "tickets_placed (reads s)" and run: "cancel_read t s = (True, s')"
  shows "given_up_ticket t (reads s')"
proof (cases "\<exists>p m abandoned. rq_active (reads s) = Some (t, p, m, abandoned)")
  case True
  with run show ?thesis by (auto simp: cancel_read_def given_up_ticket_def read_status_def)
next
  case False
  then have wait: "cancel_waiting t s = (True, s')" using run by (auto simp: cancel_read_def split: option.splits)
  note T = tickets_absent(4-6) [OF tk, of t]
  have "rq_active (reads s') = rq_active (reads s)" "parked (reads s') t = Settled"
    using wait T by (auto simp: cancel_waiting_def parked_def hm_simps split: option.splits)
  with False show ?thesis by (auto simp: given_up_ticket_def read_status_def split: option.splits)
qed

end
