(* ===== verification/Read_Properties.thy ===== *)
theory Read_Properties
  imports Read_Service Scheduler_Properties Cache_Properties
begin

text \<open>The properties of the managed reads and of their queue, with a run they are applied to.\<close>

section \<open>A run\<close>

text \<open>
  A thumbnail whose preview is not cached, but which has a retained legacy file. The decoded page
  of the legacy file \<open>k\<close> is in the cache; the one of any other file is not.
\<close>

definition ex_source :: "string \<Rightarrow> render_identity" where
  "ex_source asset = \<lparr>ri_asset = asset, ri_generation = 1, ri_fingerprint = None, ri_state = ''ready'', ri_metadata_revision = 1\<rparr>"

definition ex_identity :: "variant_key \<Rightarrow> edit_identity" where
  "ex_identity v = \<lparr>ei_image = None, ei_source = ex_source (vk_asset v), ei_key = v, ei_revision = 0, ei_recipe_digest = ''''\<rparr>"

definition ex_preview_key :: preview_key where
  "ex_preview_key = \<lparr>pk_asset = ''a'', pk_variant = MASTER, pk_generation = 1, pk_image_generation = None, pk_fingerprint = '''',
     pk_edit_revision = 0, pk_renderer = '''', pk_preparation = '''', pk_tier = Thumbnail, pk_edge = 256,
     pk_encoding = \<lparr>codec = Jpeg, quality = 80\<rparr>\<rparr>"

definition ex_begin :: "string \<Rightarrow> begin_answers" where
  "ex_begin file = \<lparr>ba_identity = Inr \<circ> ex_identity, ba_identity_later = Inr \<circ> ex_identity,
     ba_source = (\<lambda>a. Inr (ex_source a)), ba_key = (\<lambda>_ _ _. Inr ex_preview_key), ba_select = (\<lambda>_ _ _. Inr None),
     ba_digest = (\<lambda>_. Inr ''d''), ba_legacy_reference = (\<lambda>_. Inr (Some ''h'')), ba_legacy_key = (\<lambda>_. file),
     ba_task_lane = Inr (), ba_spawn = Inr ()\<rparr>"

definition ex_poll :: poll_answers where
  "ex_poll = \<lparr>pa_task = Inr (Some (Intact, \<lparr>contents = [1, 2, 3, 4], capacity = 4\<rparr>)), pa_finish = (\<lambda>_ _. Inr True),
     pa_legacy_reference = (\<lambda>_. Inr None), pa_legacy_key = (\<lambda>_. ''''), pa_launch = (\<lambda>_. Inr ()),
     pa_transport = Inr None, pa_identity = Inr \<circ> ex_identity\<rparr>"

definition ex_memory :: cache_world where
  "ex_memory = \<lparr>pools = [(0, \<lparr>limit = 6, used = 3\<rparr>), (1, \<lparr>limit = 100, used = 0\<rparr>)],
     reservations = [(0, \<lparr>budget = 0, bytes = 3\<rparr>)], next_pool = 2, next_reservation = 1,
     retained = [(0, \<lparr>page = \<lparr>width = 1, height = 1, pixels = [1, 2, 3]\<rparr>, reservation = 0, strong = 1\<rparr>)], next_page = 1,
     hits = 0, misses = 0, cache_budget = 0, cache_limit = 3, max_entries = 2, cached_bytes = 3, clock = 1,
     entries = [(''k'', (0, 1))]\<rparr>"

definition ex_service :: preview_service where
  "ex_service = \<lparr>scheduler = ex_start, decoded = ex_memory, encoded = 1,
     service_limits = \<lparr>sl_requests = 3, sl_encoded_staging_bytes = 50, sl_header_scratch = 10, sl_codec_scratch = 10\<rparr>,
     staged = True, consumer_count = 0, reads = \<lparr>rq_next = 0, rq_active = None, rq_pending = [], rq_completed = []\<rparr>,
     launch_pauses = 0, external_native = False, delivery_io = False, delivery_pending = False\<rparr>"

definition ex_asked :: preview_service where
  "ex_asked = snd (queue_read (Inr \<circ> ex_identity) (\<lambda>_ _ _. Inr ex_preview_key) ''a'' Thumbnail True Foreground ex_service)"

definition ex_tick :: "string \<Rightarrow> preview_service \<Rightarrow> preview_service" where
  "ex_tick file s = snd (tick_read ex_poll (ex_begin file) (Inr \<circ> ex_identity) s)"

lemmas read_eval = queue_read_def queue_read_variant_def bindc_def catchc_def ret_def fail_def getc_def modc_def ensure_def
  lift_option_def map_err_def scheduling_def caching_def serving_def fld_def upd_def on_reads_def set_active_def insert_pending_def
  remove_pending_def complete_def available_request_slots_def queue_length_def queue_native_read_def pressed_def
  sched_eval

lemma same_edit_refl [simp]: "same_edit e e"
  by (auto simp: same_edit_def same_pixels_def split: option.splits)

definition ex_pending :: pending_read where
  "ex_pending = \<lparr>pr_expected = ex_identity \<lparr>vk_asset = ''a'', vk_variant = MASTER\<rparr>,
     pr_native = Some \<lparr>nrr_id = 1, nrr_preempted = 0\<rparr>, pr_interactive = False, pr_tier = Thumbnail,
     pr_allow_stale = True, pr_priority = Foreground\<rparr>"

lemma ex_asked_eq:
  "ex_asked = ex_service\<lparr>scheduler := \<lparr>limits = ex_limits, next_id = 2, jobs = [], job_keys = [], consumers = [], reserved = 0,
       external = [(1, \<lparr>nr_priority = Foreground, nr_cost = 0, nr_lease = None, nr_preempted = 0\<rparr>)], flags = [False]\<rparr>,
     reads := \<lparr>rq_next = 1, rq_active = None, rq_pending = [(1, ex_pending)], rq_completed = []\<rparr>\<rparr>"
  by (simp add: ex_asked_def read_eval ex_service_def ex_start_def ex_limits_def ex_pending_def preempt_active_def del: One_nat_def)

definition ex_read :: "string \<Rightarrow> managed_read" where
  "ex_read file = \<lparr>mr_identity = ex_identity \<lparr>vk_asset = ''a'', vk_variant = MASTER\<rparr>, mr_tier = Thumbnail, mr_allow_stale = True,
     mr_key = None, mr_legacy_hash = Some ''h'', mr_record = None, mr_stale = True, mr_cache_key = file, mr_codec = Jpeg,
     mr_expected = None, mr_encoded = no_bytes, mr_encoded_task = True, mr_guard = 1, mr_encoded_allowance = 50,
     mr_preempting = False, mr_cost = None, mr_request = Some \<lparr>nrr_id = 1, nrr_preempted = 0\<rparr>, mr_lease = None,
     mr_transport_task = False, mr_rgb = None, mr_header = None, mr_requeue = None, mr_launched = False,
     mr_cleanup_started = False, mr_cancel = False, mr_failure = None\<rparr>"

definition ex_reserved :: cache_world where
  "ex_reserved = ex_memory\<lparr>pools := [(0, \<lparr>limit = 6, used = 3\<rparr>), (1, \<lparr>limit = 100, used = 50\<rparr>)],
     reservations := [(0, \<lparr>budget = 0, bytes = 3\<rparr>), (1, \<lparr>budget = 1, bytes = 50\<rparr>)], next_reservation := 2\<rparr>"

lemmas begin_eval = tick_read_def tick_managed_read_queue_def tick_pending_def pick_read_def begin_pending_def begin_managed_read_def
  begin_guarded_def select_cached_def choose_object_def begin_transfer_def settle_begun_def legacy_pixel_eligible_def
  on_heap_def budget_used_def try_reserve_def reserve_exact_def shrink_def lock_pool_def store_used_def store_bytes_def
  load_reservation_def new_reservation_def LEGACY_BYTES_def hm_simps

lemma ex_begun_eq:
  "ex_tick file ex_asked = ex_asked\<lparr>decoded := ex_reserved,
     reads := \<lparr>rq_next = 1, rq_active = Some (1, ex_pending\<lparr>pr_native := None\<rparr>, ex_read file, False), rq_pending = [], rq_completed = []\<rparr>\<rparr>"
  by (simp add: ex_tick_def ex_asked_eq ex_reserved_def ex_service_def ex_memory_def ex_pending_def ex_read_def ex_begin_def ex_identity_def
      begin_eval read_eval del: One_nat_def)


lemmas poll_eval = tick_read_def tick_managed_read_queue_def tick_active_def poll_managed_read_def advance_managed_read_def
  transfer_step_def received_def transferred_def answer_eval shrink_guard_def managed_lookup_def get_def tick_def arc_clone_def
  poll_failed_def cleanup_step_def native_step_def native_turn_def ensure_request_def ensure_cost_def ensure_lease_def
  take_lease_def ensure_launched_def start_task_def poll_transport_def header_cost_def pure_read_def
  finish_read_def give_up_def drop_managed_read_def drop_bytes_def drop_reservation_def outcome_of_def Let_def
  read_cost_def admit_native_read_def read_request_def u64_max_def u64_limit_def admission_blocked_def saturating_add_def
  on_heap_def budget_used_def shrink_def lock_pool_def store_used_def store_bytes_def load_reservation_def

definition ex_served :: preview_service where
  "ex_served = ex_tick ''k'' (ex_tick ''k'' ex_asked)"

definition ex_leased :: preview_service where
  "ex_leased = ex_tick ''z'' (ex_tick ''z'' ex_asked)"

text \<open>The first ends with the cached page, and its request is still in the registry.\<close>

definition ex_view :: preview_view where
  "ex_view = \<lparr>pv_key = None, pv_legacy_hash = Some ''h'', pv_pixels = 0, pv_record = None, pv_stale = True\<rparr>"

lemma ex_served_eq:
  "scheduler ex_served = scheduler ex_asked"
  "reads ex_served = \<lparr>rq_next = 1, rq_active = None, rq_pending = [], rq_completed = [(1, OutcomeReady ex_view)]\<rparr>"
  unfolding ex_served_def ex_begun_eq
  by (simp_all add: ex_view_def ex_tick_def ex_read_def ex_poll_def ex_asked_eq ex_service_def ex_limits_def ex_reserved_def ex_memory_def poll_eval read_eval del: One_nat_def)

text \<open>The other is admitted and launched.\<close>

definition ex_launched :: managed_read where
  "ex_launched = (ex_read ''z'')\<lparr>mr_encoded_task := False,
     mr_cost := Some 14, mr_lease := Some 2, mr_transport_task := True, mr_launched := True\<rparr>"

lemma ex_leased_eq:
  "scheduler ex_leased = \<lparr>limits = ex_limits, next_id = 3, jobs = [], job_keys = [], consumers = [], reserved = 14,
     external = [(1, \<lparr>nr_priority = Foreground, nr_cost = 14, nr_lease = Some 2, nr_preempted = 0\<rparr>)], flags = [False]\<rparr>"
  "reads ex_leased = \<lparr>rq_next = 1, rq_active = Some (1, ex_pending\<lparr>pr_native := None\<rparr>, ex_launched, False), rq_pending = [], rq_completed = []\<rparr>"
  unfolding ex_leased_def ex_begun_eq
  by (simp_all add: ex_launched_def ex_tick_def ex_read_def ex_poll_def ex_asked_eq ex_service_def ex_limits_def ex_reserved_def ex_memory_def poll_eval read_eval del: One_nat_def)

lemma ex_reads_reachable:
  "reachable service_init service_step ex_asked" "reachable service_init service_step (ex_tick f ex_asked)"
  "reachable service_init service_step ex_served" "reachable service_init service_step ex_leased"
proof -
  have tick: "reachable service_init service_step (ex_tick g s)" if "reachable service_init service_step s" for g s
    unfolding ex_tick_def by (rule reachable.move [OF that service_step.tick])
  have "sched_init ex_start"
    unfolding sched_init_def by (rule exI [of _ ex_limits]) (simp add: new_scheduler_def ex_limits_def ex_start_def)
  then have "service_init ex_service" by (simp add: service_init_def ex_service_def)
  then have "reachable service_init service_step ex_service" by (rule reachable.start)
  then show q: "reachable service_init service_step ex_asked"
    unfolding ex_asked_def queue_read_def by (rule reachable.move) (rule service_step.queue)
  show "reachable service_init service_step (ex_tick f ex_asked)" "reachable service_init service_step ex_served"
    "reachable service_init service_step ex_leased"
    unfolding ex_served_def ex_leased_def by (intro tick q)+
qed

section \<open>Properties\<close>

text \<open>
  C4: in every state the service can reach, a pending read's native request is registered in the
  scheduler and waits there, no two pending reads share one, the active read's request stands in
  the scheduler under exactly the lease the read holds, and nobody but the active read holds a
  lease.
\<close>

theorem read_books:
  assumes "reachable service_init service_step s"
  shows "(\<forall>t p n. map_of (rq_pending (reads s)) t = Some p \<and> pr_native p = Some n \<longrightarrow>
        read_leases (scheduler s) (nrr_id n) = Some None)
    \<and> distinct (pending_ids (rq_pending (reads s)))
    \<and> (\<forall>t p m abandoned n. rq_active (reads s) = Some (t, p, m, abandoned) \<and> mr_request m = Some n \<longrightarrow>
        read_leases (scheduler s) (nrr_id n) = Some (mr_lease m) \<and> nrr_id n \<notin> set (pending_ids (rq_pending (reads s))))
    \<and> (\<forall>i l. read_leases (scheduler s) i = Some (Some l) \<longrightarrow>
        (\<exists>t p m abandoned n. rq_active (reads s) = Some (t, p, m, abandoned) \<and> mr_request m = Some n \<and> nrr_id n = i
          \<and> mr_lease m = Some l))"
proof -
  have "books (scheduler s) (reads s)" using service.reachable_inv [OF assms] by (simp add: service_inv_def)
  note F = books_facts [OF this]
  show ?thesis using F(2) F(1,3,4) by (intro conjI) blast+
qed

theorem read_books_witness: "read_leases (scheduler ex_leased) 1 = Some (Some 2)"
proof -
  have "rq_active (reads ex_leased) = Some (1, ex_pending\<lparr>pr_native := None\<rparr>, ex_launched, False)"
    "mr_request ex_launched = Some \<lparr>nrr_id = 1, nrr_preempted = 0\<rparr>" "mr_lease ex_launched = Some 2"
    by (simp_all add: ex_leased_eq ex_launched_def ex_read_def)
  with read_books [OF ex_reads_reachable(4)] show ?thesis by (metis native_read_request.select_convs(1))
qed

text \<open>
  C24: in every state the service can reach, neither a turn of the active read nor the part of it
  that works ends in an error that would show reads and scheduler to disagree: no missing value
  is unwrapped, and the scheduler never reports an unknown request, an unknown lease, an owner
  still active or a second admission.
\<close>

theorem reads_never_disagree:
  assumes "reachable service_init service_step s" "rq_active (reads s) = Some (t, p, m, abandoned)"
    "Inl e \<in> {fst (poll_managed_read a (m, set_active None s)), fst (advance_managed_read a (m, set_active None s))}"
  shows "e \<noteq> ReadPanic \<and> e \<noteq> PreemptedCostMissing \<and> (\<forall>d. e = Scheduling d \<longrightarrow> read_refusal d)"
proof -
  have B: "books (scheduler s) (reads s)" using service.reachable_inv [OF assms(1)] by (simp add: service_inv_def)
  obtain x m' u where run: "poll_managed_read a (m, set_active None s) = (x, (m', u))" by (metis prod.exhaust)
  have "sound x" by (rule poll_turn(7) [OF B assms(2) run])
  moreover have "reading (others (scheduler s) (reads s)) (cost_fits (scheduler s)) (rest (set_active None s)) (m, set_active None s)"
    using booksD(4) [OF B assms(2)] by (simp add: reading_def)
  from advance_ends [OF this, of a] have "sound (fst (advance_managed_read a (m, set_active None s)))"
    by (simp add: ends_def)
  moreover have "x = Inl e \<or> fst (advance_managed_read a (m, set_active None s)) = Inl e" using assms(3) run by auto
  ultimately have "\<not> bookkeeping e" by (auto simp: sound_def)
  then show ?thesis by (auto simp: bookkeeping_def)
qed

theorem reads_never_disagree_witness:
  "fst (advance_managed_read (ex_poll\<lparr>pa_transport := Inl StoreLimit\<rparr>) (ex_launched, set_active None ex_leased))
     = Inl (Outside StoreLimit) \<and> Outside StoreLimit \<noteq> ReadPanic"
proof -
  have run: "fst (advance_managed_read (ex_poll\<lparr>pa_transport := Inl StoreLimit\<rparr>) (ex_launched, set_active None ex_leased))
     = Inl (Outside StoreLimit)"
    by (simp add: ex_launched_def ex_read_def ex_poll_def poll_eval read_eval del: One_nat_def)
  have "rq_active (reads ex_leased) = Some (1, ex_pending\<lparr>pr_native := None\<rparr>, ex_launched, False)" by (simp add: ex_leased_eq)
  from reads_never_disagree [OF ex_reads_reachable(4) this, of "Outside StoreLimit" "ex_poll\<lparr>pa_transport := Inl StoreLimit\<rparr>"] run
  show ?thesis by simp
qed

text \<open>
  C7: a step of the service leaves no native request behind in the scheduler that no read holds,
  unless it completes a read with its legacy page.
\<close>

theorem requests_not_leaked:
  assumes "reachable service_init service_step s" "service_step s s'"
  shows "orphans (scheduler s') (reads s') = orphans (scheduler s) (reads s)
    \<or> (\<exists>t p m w. rq_active (reads s) = Some (t, p, m, False) \<and> map_of (rq_completed (reads s')) t = Some (OutcomeReady w)
         \<and> pv_key w = None \<and> pv_legacy_hash w \<noteq> None)"
  using step_follows [OF service.reachable_inv [OF assms(1)] assms(2)]
  by (auto simp: follows_def kept_def legacy_served_def)

lemma ex_step: "service_step (ex_tick f s) (ex_tick g (ex_tick f s))"
  unfolding ex_tick_def [of g] by (rule service_step.tick)

theorem requests_not_leaked_witness:
  "orphans (scheduler ex_leased) (reads ex_leased) = {}"
proof -
  have "orphans (scheduler ex_leased) (reads ex_leased) = orphans (scheduler (ex_tick ''z'' ex_asked)) (reads (ex_tick ''z'' ex_asked))"
    using requests_not_leaked [OF ex_reads_reachable(2) ex_step, of "''z''" "''z''"]
    by (simp add: ex_leased_def [symmetric] ex_leased_eq)
  also have "\<dots> = {}"
    unfolding ex_begun_eq by (auto simp: ex_asked_eq orphans_def others_def ex_read_def read_leases_def)
  finally show ?thesis .
qed

text \<open>The exception: the read is over, nobody waits, and its request blocks renders and reads.\<close>

theorem legacy_hit_leaks:
  "reachable service_init service_step ex_served \<and> rq_active (reads ex_served) = None \<and> rq_pending (reads ex_served) = []
   \<and> orphans (scheduler ex_served) (reads ex_served) = {1}
   \<and> fst (next_ready (snd (request (ex_key 1) 60 Foreground (scheduler ex_served)))) = Inr None
   \<and> fst (admit_native_read 2 14 (snd (queue_native_read Foreground (scheduler ex_served)))) = Inr None"
proof -
  have "orphans (scheduler ex_served) (reads ex_served) = {1}"
    by (auto simp: ex_served_eq ex_asked_eq orphans_def others_def read_leases_def)
  moreover have "fst (next_ready (snd (request (ex_key 1) 60 Foreground (scheduler ex_served)))) = Inr None"
    by (simp add: ex_served_eq ex_asked_eq ex_limits_def ex_key_ok sched_eval del: One_nat_def)
  moreover have "fst (admit_native_read 2 14 (snd (queue_native_read Foreground (scheduler ex_served)))) = Inr None"
    by (simp add: ex_served_eq ex_asked_eq ex_limits_def admit_native_read_def read_cost_def admission_blocked_def
        read_eval del: One_nat_def)
  ultimately show ?thesis using ex_reads_reachable(3) by (simp add: ex_served_eq)
qed

text \<open>
  C14: every step of the service moves every ticket along the life of a ticket: issued tickets wait,
  run, are abandoned or completed and end settled; a settled ticket never comes back.
\<close>

theorem ticket_lifecycle:
  assumes "reachable service_init service_step s" "service_step s s'"
  shows "read_status (reads s') t = read_status (reads s) t
    \<or> read_status (reads s') t \<in> set (successors (read_status (reads s) t))"
  using step_follows [OF service.reachable_inv [OF assms(1)] assms(2)] by (simp add: follows_def lives_def)

theorem ticket_lifecycle_witness:
  "read_status (reads (ex_tick ''k'' ex_asked)) 1 = Running \<and> read_status (reads ex_served) 1 = Completed
   \<and> Completed \<in> set (successors Running)"
proof -
  have "read_status (reads (ex_tick ''k'' ex_asked)) 1 = Running" by (simp add: ex_begun_eq read_status_def)
  moreover have "read_status (reads ex_served) 1 = Completed" by (simp add: ex_served_eq read_status_def parked_def)
  ultimately show ?thesis
    using ticket_lifecycle [OF ex_reads_reachable(2) ex_step, of "''k''" "''k''" 1] by (simp add: ex_served_def [symmetric])
qed

text \<open>
  C16: after \<open>cancel_read\<close> has accepted a ticket, no completion is ever stored under it again,
  whatever the service does afterwards, and \<open>take_read\<close> finds none.
\<close>

theorem canceled_read_never_completes:
  assumes "reachable service_init service_step s" "cancel_read t s = (True, s')" "service_step\<^sup>*\<^sup>* s' u"
  shows "map_of (rq_completed (reads u)) t = None \<and> fst (take_read t u) = None"
proof -
  note inv = service.reachable_inv [OF assms(1)]
  have tk: "tickets_placed (reads s)" using inv booksD(3) by (auto simp: service_inv_def)
  have inv': "service_inv s'" using service.inv_step [OF inv service_step.cancel, of t] assms(2) by simp
  from assms(3) have "service_inv u \<and> given_up_ticket t (reads u)"
  proof (induction rule: rtranclp_induct)
    case base
    with inv' cancel_gives_up [OF tk assms(2)] show ?case by blast
  next
    case (step v w)
    with service.inv_step [of v w] step_follows [of v w] given_up_lives [of "reads v" "reads w" t] show ?case
      by (auto simp: follows_def)
  qed
  then show ?thesis using given_up_completed [of "reads u" t] booksD(3) by (auto simp: service_inv_def take_read_def)
qed

theorem canceled_read_never_completes_witness:
  "fst (cancel_read 1 ex_leased) \<and> map_of (rq_completed (reads (ex_tick ''z'' (snd (cancel_read 1 ex_leased))))) 1 = None"
proof -
  have c: "cancel_read 1 ex_leased = (True, snd (cancel_read 1 ex_leased))" by (simp add: cancel_read_def ex_leased_eq)
  have "service_step\<^sup>*\<^sup>* (snd (cancel_read 1 ex_leased)) (ex_tick ''z'' (snd (cancel_read 1 ex_leased)))"
    unfolding ex_tick_def by (rule r_into_rtranclp) (rule service_step.tick)
  from canceled_read_never_completes [OF ex_reads_reachable(4) c this] c show ?thesis by (metis fst_conv)
qed

text \<open>
  In every state the service can reach, waiting, running and completed reads together stay
  within the request allowance.
\<close>

theorem read_queue_bounded:
  assumes "reachable service_init service_step s"
  shows "queue_length (reads s) \<le> sl_requests (service_limits s)"
  using service.reachable_inv [OF assms] by (simp add: service_inv_def)

theorem read_queue_bounded_witness: "queue_length (reads ex_served) = 1 \<and> 1 \<le> sl_requests (service_limits ex_served)"
proof -
  have "queue_length (reads ex_served) = 1" by (simp add: queue_length_def ex_served_eq)
  with read_queue_bounded [OF ex_reads_reachable(3)] show ?thesis by simp
qed

text \<open>
  C27: from every state the service can reach, the signal of the shutdown followed by its last step
  succeeds and leaves neither a waiting nor a running read, and every native request that no read
  had leaked before is gone from the scheduler.
\<close>

theorem shutdown_returns_requests:
  assumes "reachable service_init service_step s" "finish_read_shutdown (signal_read_shutdown s) = (r, u)"
  shows "r = Inr () \<and> rq_active (reads u) = None \<and> rq_pending (reads u) = []
    \<and> {i. read_leases (scheduler u) i \<noteq> None} = orphans (scheduler s) (reads s)"
proof -
  have B: "books (scheduler s) (reads s)" using service.reachable_inv [OF assms(1)] by (simp add: service_inv_def)
  let ?s = "signal_read_shutdown s"
  have up: "given_up ?s" by (auto simp: given_up_def signal_reads split: option.splits)
  have S: "books (scheduler ?s) (reads ?s)" "orphans (scheduler ?s) (reads ?s) = orphans (scheduler s) (reads s)"
    using signal_ok [OF B] by (simp_all add: kept_def)
  have u: "reads u = (reads ?s)\<lparr>rq_active := None\<rparr>" using finish_shutdown_reads(1) [OF S(1) up] assms(2) by simp
  have "r = Inr ()" "orphans (scheduler u) (reads u) = orphans (scheduler s) (reads s)"
    using finish_shutdown_ok [OF S(1) up] S(2) assms(2) by (simp_all add: kept_def)
  then show ?thesis by (simp add: u signal_reads orphans_def others_idle)
qed

theorem shutdown_returns_requests_witness:
  "read_leases (scheduler (snd (finish_read_shutdown (signal_read_shutdown ex_leased)))) 1 = None"
proof -
  have "orphans (scheduler ex_leased) (reads ex_leased) = {}"
    by (auto simp: ex_leased_eq orphans_def others_def ex_launched_def ex_read_def read_leases_def)
  with shutdown_returns_requests [OF ex_reads_reachable(4) prod.collapse [symmetric]] show ?thesis by blast
qed

end
