(* ===== verification/Role_Pool.thy ===== *)
theory Role_Pool
  imports Transition_System
begin

text \<open>
  The SQL roles of a catalog session (\<open>catalog_session/roles.rs\<close>): nine connections opened once,
  leased to one owner at a time, verified when they come back, reusable only after their thread
  was joined, and closed before the root of the catalog is released. A connection is its
  identity; what it and the filesystem answer is an argument of the call. What the filesystem
  saw is kept beside the pool's own fields: \<open>root_answers\<close> lists its answer to every call of
  \<open>release_root\<close> made so far, in order. No operation reads that list.
\<close>

section \<open>State\<close>

datatype slot =
    Idle nat
  | Leased
  | Returned nat
  | UnjoinedQuarantine nat
  | Quarantined nat
  | Closed

datatype opaque_owner = NoOwner | Preparing | Held nat

record role_pool =
  slots :: "slot list"
  opaque :: "opaque_owner list"
  unverifiable_hook_owner :: bool
  closing :: bool
  poisoned :: bool
  released :: bool
  root_answers :: "bool list"

datatype role_error =
    OwnerClosing
  | InvalidRole
  | RoleOwned
  | NeedsManifest
  | OwnerAdmitted
  | SnapshotsOpen
  | JoinedUnreturned
  | OwnerPoisoned
  | HookUnverifiable
  | RolesOwned
  | CloseFailed
  | RootFailed
  | RolePanic

type_synonym 'a role_comp = "(role_pool, role_error, 'a) comp"

definition DISCOVERY :: nat where
  "DISCOVERY = 8"

datatype sql_role = Actor | Relink | Export | Search0 | Search1 | Search2 | Search3 | Manifest

definition role_index :: "sql_role \<Rightarrow> nat" where
  "role_index r =
     (case r of
        Actor \<Rightarrow> 0 | Relink \<Rightarrow> 1 | Export \<Rightarrow> 2 | Search0 \<Rightarrow> 3 | Search1 \<Rightarrow> 4 | Search2 \<Rightarrow> 5 | Search3 \<Rightarrow> 6
      | Manifest \<Rightarrow> 7)"

text \<open>\<open>assert_eq!(connections.len(), 9)\<close> is the panic of the constructor.\<close>

definition new_pool :: "nat list \<Rightarrow> role_error + role_pool" where
  "new_pool connections =
     (if length connections = 9
      then Inr \<lparr>slots = map Idle connections, opaque = replicate 9 NoOwner, unverifiable_hook_owner = False,
                closing = False, poisoned = False, released = False, root_answers = []\<rparr>
      else Inl RolePanic)"

section \<open>Operations\<close>

definition put_slot :: "nat \<Rightarrow> slot \<Rightarrow> role_pool \<Rightarrow> role_pool" where
  "put_slot i x s = s\<lparr>slots := (slots s)[i := x]\<rparr>"

definition slot_at :: "nat \<Rightarrow> slot option role_comp" where
  "slot_at i = getc (\<lambda>s. if i < length (slots s) then Some (slots s ! i) else None)"

definition lease :: "nat \<Rightarrow> nat role_comp" where
  "lease i =
     bindc (getc (\<lambda>s. \<not> closing s \<and> \<not> poisoned s)) (\<lambda>open.
     bindc (ensure open OwnerClosing) (\<lambda>_.
     bindc (slot_at i) (\<lambda>slot.
     bindc (lift_option InvalidRole slot) (\<lambda>slot.
     case slot of
       Idle c \<Rightarrow> bindc (modc (put_slot i Leased)) (\<lambda>_. ret c)
     | _ \<Rightarrow> fail RoleOwned))))"

definition set_opaque :: "nat \<Rightarrow> opaque_owner \<Rightarrow> unit role_comp" where
  "set_opaque i x =
     bindc (getc (\<lambda>s. i < length (opaque s))) (\<lambda>present.
     bindc (ensure present RolePanic) (\<lambda>_.
     modc (\<lambda>s. s\<lparr>opaque := (opaque s)[i := x]\<rparr>)))"

definition reserve_owner :: "nat \<Rightarrow> unit role_comp" where
  "reserve_owner i =
     bindc (ensure (i = 7) NeedsManifest) (\<lambda>_.
     bindc (slot_at i) (\<lambda>slot.
     bindc (lift_option RolePanic slot) (\<lambda>slot.
     bindc (ensure (slot = Leased) NeedsManifest) (\<lambda>_.
     bindc (getc (\<lambda>s. if i < length (opaque s) then Some (opaque s ! i) else None)) (\<lambda>owner.
     bindc (lift_option RolePanic owner) (\<lambda>owner.
     bindc (ensure (owner = NoOwner) OwnerAdmitted) (\<lambda>_.
     set_opaque i Preparing)))))))"

text \<open>The reservation: \<open>retain\<close>, or the drop of an incomplete one.\<close>

definition retain_owner :: "nat \<Rightarrow> nat \<Rightarrow> unit role_comp" where
  "retain_owner i owner = set_opaque i (Held owner)"

definition drop_reservation_owner :: "nat \<Rightarrow> unit role_comp" where
  "drop_reservation_owner i = set_opaque i NoOwner"

text \<open>The first of the four browsing roles that can be leased.\<close>

fun lease_first :: "nat list \<Rightarrow> (nat \<times> nat) role_comp" where
  "lease_first [] = fail SnapshotsOpen"
| "lease_first (i # is) =
     catchc (lease i) (\<lambda>r. case r of Inr c \<Rightarrow> ret (i, c) | Inl _ \<Rightarrow> lease_first is)"

definition lease_search :: "(nat \<times> nat) role_comp" where
  "lease_search = lease_first [3, 4, 5, 6]"

text \<open>What a connection that comes back looks like: no panic, no open transaction, the same database.\<close>

record return_answers =
  ra_panicking :: bool
  ra_autocommit :: bool
  ra_same_database :: bool

definition poison :: "bool \<Rightarrow> role_pool \<Rightarrow> role_pool" where
  "poison healthy s = (if healthy then s else s\<lparr>poisoned := True\<rparr>)"

definition returned :: "nat \<Rightarrow> nat \<Rightarrow> return_answers \<Rightarrow> unit role_comp" where
  "returned i c a =
     bindc (getc (\<lambda>s. \<not> unverifiable_hook_owner s \<and> \<not> ra_panicking a \<and> ra_autocommit a
         \<and> (i = DISCOVERY \<or> ra_same_database a))) (\<lambda>healthy.
     bindc (modc (poison healthy)) (\<lambda>_.
     bindc (getc (\<lambda>s. i < length (slots s))) (\<lambda>present.
     bindc (ensure present RolePanic) (\<lambda>_.
     modc (put_slot i (if healthy then Returned c else UnjoinedQuarantine c))))))"

definition after_join :: "bool \<Rightarrow> slot \<Rightarrow> slot" where
  "after_join healthy x =
     (case x of
        Returned c \<Rightarrow> if healthy then Idle c else Quarantined c
      | UnjoinedQuarantine c \<Rightarrow> Quarantined c
      | _ \<Rightarrow> x)"

definition joined :: "nat \<Rightarrow> bool \<Rightarrow> unit role_comp" where
  "joined i healthy =
     bindc (modc (poison healthy)) (\<lambda>_.
     bindc (slot_at i) (\<lambda>slot.
     bindc (lift_option InvalidRole slot) (\<lambda>slot.
     bindc (modc (put_slot i (after_join healthy slot))) (\<lambda>_.
     bindc (ensure (slot \<noteq> Leased) JoinedUnreturned) (\<lambda>_.
     bindc (getc poisoned) (\<lambda>bad.
     ensure (\<not> bad) OwnerPoisoned))))))"

definition is_open :: "role_pool \<Rightarrow> bool" where
  "is_open s \<longleftrightarrow> \<not> closing s \<and> \<not> poisoned s"

definition begin_close :: "role_pool \<Rightarrow> role_pool" where
  "begin_close s = s\<lparr>closing := True\<rparr>"

text \<open>Which connections SQLite closes, and whether the filesystem releases the root.\<close>

record close_answers =
  ca_closes :: "nat \<Rightarrow> bool"
  ca_root :: bool

definition awaits_join :: "slot \<Rightarrow> bool" where
  "awaits_join x = (case x of Leased \<Rightarrow> True | Returned c \<Rightarrow> True | UnjoinedQuarantine c \<Rightarrow> True | _ \<Rightarrow> False)"

definition close_slot :: "close_answers \<Rightarrow> slot \<Rightarrow> slot" where
  "close_slot a x =
     (case x of
        Idle c \<Rightarrow> if ca_closes a c then Closed else Quarantined c
      | Quarantined c \<Rightarrow> if ca_closes a c then Closed else Quarantined c
      | _ \<Rightarrow> Closed)"

definition close_fails :: "close_answers \<Rightarrow> slot \<Rightarrow> bool" where
  "close_fails a x = (case x of Idle c \<Rightarrow> \<not> ca_closes a c | Quarantined c \<Rightarrow> \<not> ca_closes a c | _ \<Rightarrow> False)"

text \<open>\<open>filesystem.release_root\<close>, a call the filesystem sees whether or not it succeeds.\<close>

definition call_release_root :: "close_answers \<Rightarrow> unit role_comp" where
  "call_release_root a =
     bindc (modc (root_answers_update (\<lambda>xs. xs @ [ca_root a]))) (\<lambda>_.
     ensure (ca_root a) RootFailed)"

definition release_root :: "close_answers \<Rightarrow> unit role_comp" where
  "release_root a =
     bindc (getc released) (\<lambda>over.
     if over then ret ()
     else
       bindc (call_release_root a) (\<lambda>_.
       modc (released_update (\<lambda>_. True))))"

definition close_pool :: "close_answers \<Rightarrow> unit role_comp" where
  "close_pool a =
     bindc (modc begin_close) (\<lambda>_.
     bindc (getc unverifiable_hook_owner) (\<lambda>hook.
     bindc (ensure (\<not> hook) HookUnverifiable) (\<lambda>_.
     bindc (getc slots) (\<lambda>before.
     bindc (ensure (\<not> list_ex awaits_join before) RolesOwned) (\<lambda>_.
     bindc (modc (slots_update (map (close_slot a)))) (\<lambda>_.
     bindc (ensure (\<not> list_ex (close_fails a) before) CloseFailed) (\<lambda>_.
     bindc (release_root a) (\<lambda>_.
     modc (opaque_update (\<lambda>_. []))))))))))"

text \<open>A progress hook that could not be removed: nothing is closed any more.\<close>

definition progress_hook_result :: "bool \<Rightarrow> role_pool \<Rightarrow> role_pool" where
  "progress_hook_result fine s = (if fine then s else s\<lparr>unverifiable_hook_owner := True, poisoned := True\<rparr>)"

section \<open>The session\<close>

text \<open>
  The pool with the handles (\<open>SqlConnection\<close>) that own a role, the handle that is acquiring an
  opaque owner, and the fate of what was closed. A handle is borrowed while it acquires, so it
  does not come back during that time.
\<close>

record role_world =
  pool :: role_pool
  handles :: "(nat, nat \<times> nat) hmap"
  next_handle :: nat
  acquiring :: "nat option"
  closed_conns :: "nat list"

definition held :: "slot list \<Rightarrow> nat list" where
  "held xs = concat (map (\<lambda>x. case x of
      Idle c \<Rightarrow> [c] | Returned c \<Rightarrow> [c] | UnjoinedQuarantine c \<Rightarrow> [c] | Quarantined c \<Rightarrow> [c] | _ \<Rightarrow> []) xs)"

definition open_handle :: "nat \<Rightarrow> role_world \<Rightarrow> role_world" where
  "open_handle i w =
     (case lease i (pool w) of
        (Inl e, p) \<Rightarrow> w\<lparr>pool := p\<rparr>
      | (Inr c, p) \<Rightarrow>
          w\<lparr>pool := p, handles := hm_insert (next_handle w) (i, c) (handles w), next_handle := next_handle w + 1\<rparr>)"

definition open_search :: "role_world \<Rightarrow> role_world" where
  "open_search w =
     (case lease_search (pool w) of
        (Inl e, p) \<Rightarrow> w\<lparr>pool := p\<rparr>
      | (Inr (i, c), p) \<Rightarrow>
          w\<lparr>pool := p, handles := hm_insert (next_handle w) (i, c) (handles w), next_handle := next_handle w + 1\<rparr>)"

definition return_managed :: "nat \<Rightarrow> return_answers \<Rightarrow> role_world \<Rightarrow> role_world" where
  "return_managed h a w =
     (case map_of (handles w) h of
        None \<Rightarrow> w
      | Some (i, c) \<Rightarrow> w\<lparr>pool := snd (returned i c a (pool w)), handles := hm_remove h (handles w)\<rparr>)"

definition begin_acquire :: "nat \<Rightarrow> role_world \<Rightarrow> role_world" where
  "begin_acquire h w =
     (case map_of (handles w) h of
        None \<Rightarrow> w
      | Some (i, c) \<Rightarrow>
          (case reserve_owner i (pool w) of
             (Inl e, p) \<Rightarrow> w\<lparr>pool := p\<rparr>
           | (Inr _, p) \<Rightarrow> w\<lparr>pool := p, acquiring := Some h\<rparr>))"

text \<open>\<open>retain_opaque_owner\<close> ends: with the owner that was acquired, or by dropping the reservation.\<close>

definition end_acquire :: "nat option \<Rightarrow> role_world \<Rightarrow> role_world" where
  "end_acquire owner w =
     (case acquiring w of
        None \<Rightarrow> w
      | Some h \<Rightarrow>
          (case map_of (handles w) h of
             None \<Rightarrow> w
           | Some (i, c) \<Rightarrow>
               w\<lparr>pool := snd ((case owner of Some x \<Rightarrow> retain_owner i x | None \<Rightarrow> drop_reservation_owner i) (pool w)),
                 acquiring := None\<rparr>))"

definition close_world :: "close_answers \<Rightarrow> role_world \<Rightarrow> role_world" where
  "close_world a w =
     (let p = snd (close_pool a (pool w)) in
      w\<lparr>pool := p, closed_conns := closed_conns w @ filter (\<lambda>c. c \<notin> set (held (slots p))) (held (slots (pool w)))\<rparr>)"

inductive role_step :: "role_world \<Rightarrow> role_world \<Rightarrow> bool" where
  step_lease: "role_step w (open_handle i w)"
| step_search: "role_step w (open_search w)"
| step_return: "acquiring w \<noteq> Some h \<Longrightarrow> role_step w (return_managed h a w)"
| step_hook: "map_of (handles w) h = Some x \<Longrightarrow> role_step w (w\<lparr>pool := progress_hook_result fine (pool w)\<rparr>)"
| step_reserve: "role_step w (begin_acquire h w)"
| step_acquired: "role_step w (end_acquire owner w)"
| step_joined: "role_step w (w\<lparr>pool := snd (joined i healthy (pool w))\<rparr>)"
| step_begin_close: "role_step w (w\<lparr>pool := begin_close (pool w)\<rparr>)"
| step_close: "role_step w (close_world a w)"

inductive_simps role_step_simps: "role_step w w'"

text \<open>The session begins with the connections \<open>cs\<close>, none of them twice.\<close>

definition role_init :: "nat list \<Rightarrow> role_world \<Rightarrow> bool" where
  "role_init cs w \<longleftrightarrow>
     distinct cs \<and> (\<exists>p. new_pool cs = Inr p
        \<and> w = \<lparr>pool = p, handles = [], next_handle = 0, acquiring = None, closed_conns = []\<rparr>)"

end
