(* ===== verification/Role_Properties.thy ===== *)
theory Role_Properties
  imports Role_Pool "HOL-Library.Multiset"
begin

text \<open>
  The invariant of the SQL roles, over any sequence of calls and answers, and their properties:
  who owns a role, what happens to a connection, and when the root may go.
\<close>

section \<open>Slots\<close>

lemma held_simps [simp]:
  "held [] = []" "held (Idle c # xs) = c # held xs" "held (Returned c # xs) = c # held xs"
  "held (UnjoinedQuarantine c # xs) = c # held xs" "held (Quarantined c # xs) = c # held xs"
  "held (Leased # xs) = held xs" "held (Closed # xs) = held xs" "held (xs @ ys) = held xs @ held ys"
  by (simp_all add: held_def)

lemma held_Cons: "held (x # xs) = held [x] @ held xs"
  by (cases x) simp_all

lemma held_update:
  assumes "i < length xs"
  shows "mset (held (xs[i := x])) + mset (held [xs ! i]) = mset (held xs) + mset (held [x])"
proof -
  let ?a = "held (take i xs)" and ?b = "held (drop (Suc i) xs)"
  have around: "mset (held (a @ y # b)) = mset (held a) + mset (held [y]) + mset (held b)" for a y b
    using held_Cons [of y b] by simp
  have up: "mset (held (xs[i := x])) = mset ?a + mset (held [x]) + mset ?b"
    by (rule trans [OF arg_cong [where f = "\<lambda>l. mset (held l)", OF upd_conv_take_nth_drop [OF assms]] around])
  have old: "mset (held xs) = mset ?a + mset (held [xs ! i]) + mset ?b"
    by (rule trans [OF arg_cong [where f = "\<lambda>l. mset (held l)", OF id_take_nth_drop [OF assms]] around])
  show ?thesis by (simp only: up old ac_simps)
qed

lemma held_update_same: "i < length xs \<Longrightarrow> held [x] = held [xs ! i] \<Longrightarrow> mset (held (xs[i := x])) = mset (held xs)"
  using held_update [of i xs x] by simp

lemma held_closed: "\<forall>x \<in> set xs. x = Closed \<Longrightarrow> held xs = []"
  by (induction xs) auto

section \<open>Results of the operations\<close>

lemma slot_at_eval [simp]: "slot_at i s = (Inr (if i < length (slots s) then Some (slots s ! i) else None), s)"
  by (simp add: slot_at_def)

lemma lease_eval:
  "lease i s =
     (if closing s \<or> poisoned s then (Inl OwnerClosing, s)
      else if length (slots s) \<le> i then (Inl InvalidRole, s)
      else case slots s ! i of Idle c \<Rightarrow> (Inr c, put_slot i Leased s) | _ \<Rightarrow> (Inl RoleOwned, s))"
  by (simp add: lease_def bindc_def split: slot.split)

lemma lease_cases:
  assumes "lease i s = (r, s')"
  obtains (leased) c where "r = Inr c" "i < length (slots s)" "slots s ! i = Idle c" "\<not> closing s" "\<not> poisoned s" "s' = put_slot i Leased s"
  | (refused) e where "r = Inl e" "s' = s"
proof (cases r)
  case (Inl e)
  with assms have "s' = s" by (cases "slots s ! i") (simp_all add: lease_eval split: if_splits)
  with Inl show thesis by (rule refused)
next
  case (Inr c)
  with assms have "i < length (slots s) \<and> slots s ! i = Idle c \<and> \<not> closing s \<and> \<not> poisoned s \<and> s' = put_slot i Leased s"
    by (cases "slots s ! i") (simp_all add: lease_eval split: if_splits)
  with Inr show thesis by (elim conjE) (rule leased)
qed

lemma lease_first_run:
  assumes "lease_first is s = (r, s')"
  shows "(\<exists>i c. r = Inr (i, c) \<and> i \<in> set is \<and> lease i s = (Inr c, s')) \<or> (\<exists>e. r = Inl e \<and> s' = s)"
  using assms
proof (induction "is")
  case (Cons i "is")
  obtain x t where run: "lease i s = (x, t)" by (rule prod.exhaust)
  from run show ?case
  proof (cases rule: lease_cases)
    case (leased c)
    with Cons.prems run have "r = Inr (i, c)" "lease i s = (Inr c, s')" by (simp_all add: catchc_def)
    then show ?thesis by auto
  next
    case (refused e)
    with Cons.prems run have "lease_first is s = (r, s')" by (simp add: catchc_def)
    from Cons.IH [OF this] show ?thesis by auto
  qed
qed auto

lemma reserve_cases:
  assumes "reserve_owner i s = (r, s')"
  obtains (reserved) "r = Inr ()" "i = 7" "7 < length (slots s)" "slots s ! 7 = Leased" "7 < length (opaque s)" "opaque s ! 7 = NoOwner"
      "s' = s\<lparr>opaque := (opaque s)[7 := Preparing]\<rparr>"
  | (refused) e where "r = Inl e" "s' = s"
  using assms by (auto simp: reserve_owner_def set_opaque_def bindc_def split: if_splits)

lemma returned_run:
  assumes "i < length (slots s)"
  obtains healthy where "returned i c a s = (Inr (), put_slot i (if healthy then Returned c else UnjoinedQuarantine c) (poison healthy s))"
    "healthy \<Longrightarrow> ra_autocommit a \<and> \<not> ra_panicking a \<and> (i = DISCOVERY \<or> ra_same_database a)"
proof -
  let ?h = "\<not> unverifiable_hook_owner s \<and> \<not> ra_panicking a \<and> ra_autocommit a \<and> (i = DISCOVERY \<or> ra_same_database a)"
  have "slots (poison h s) = slots s" for h by (simp add: poison_def)
  with assms have "returned i c a s = (Inr (), put_slot i (if ?h then Returned c else UnjoinedQuarantine c) (poison ?h s))"
    by (simp add: returned_def bindc_def)
  with that [of ?h] show thesis by blast
qed

lemma joined_run:
  "snd (joined i healthy s) =
     (if i < length (slots s) then put_slot i (after_join healthy (slots s ! i)) (poison healthy s) else poison healthy s)"
  by (auto simp: joined_def bindc_def poison_def put_slot_def split: if_splits)

lemma poison_simps [simp]:
  "slots (poison h s) = slots s" "opaque (poison h s) = opaque s" "released (poison h s) = released s"
  "root_answers (poison h s) = root_answers s"
  "closing (poison h s) = closing s" "poisoned s \<Longrightarrow> poisoned (poison h s)"
  "unverifiable_hook_owner (poison h s) = unverifiable_hook_owner s"
  by (simp_all add: poison_def)

lemma put_slot_simps [simp]:
  "slots (put_slot i x s) = (slots s)[i := x]" "opaque (put_slot i x s) = opaque s" "released (put_slot i x s) = released s"
  "root_answers (put_slot i x s) = root_answers s"
  "closing (put_slot i x s) = closing s" "poisoned (put_slot i x s) = poisoned s"
  "unverifiable_hook_owner (put_slot i x s) = unverifiable_hook_owner s"
  by (simp_all add: put_slot_def)

lemma close_slot_ok:
  "\<not> awaits_join x \<Longrightarrow> \<not> close_fails a x \<Longrightarrow> close_slot a x = Closed"
  "\<not> awaits_join x \<Longrightarrow> held [close_slot a x] = filter (\<lambda>c. \<not> ca_closes a c) (held [x])"
  "close_slot a x \<noteq> Leased"
  by (auto simp: awaits_join_def close_fails_def close_slot_def split: slot.splits)

lemma held_close:
  "\<not> list_ex awaits_join xs \<Longrightarrow> held (map (close_slot a) xs) = filter (\<lambda>c. \<not> ca_closes a c) (held xs)"
proof (induction xs)
  case (Cons x xs)
  then show ?case using held_Cons [of x xs] held_Cons [of "close_slot a x"] close_slot_ok(2) [of x a] by simp
qed simp

lemma close_cases:
  assumes "close_pool a s = (r, s')"
  obtains (refused) e where "r = Inl e" "s' = begin_close s"
  | (partly) e where "r = Inl e" "\<not> list_ex awaits_join (slots s)"
      "s' = (begin_close s)\<lparr>slots := map (close_slot a) (slots s)\<rparr>"
  | (unreleased) e where "r = Inl e" "\<not> list_ex awaits_join (slots s)" "\<not> list_ex (close_fails a) (slots s)" "\<not> released s"
      "s' = (begin_close s)\<lparr>slots := map (close_slot a) (slots s), root_answers := root_answers s @ [False]\<rparr>"
  | (over) "r = Inr ()" "\<not> unverifiable_hook_owner s" "\<not> list_ex awaits_join (slots s)" "\<not> list_ex (close_fails a) (slots s)"
      "s' = (begin_close s)\<lparr>slots := map (close_slot a) (slots s), released := True, opaque := [],
         root_answers := root_answers s @ (if released s then [] else [True])\<rparr>"
proof -
  have same: "t\<lparr>released := True\<rparr> = t" if "released t" for t using that by (cases t) simp
  have plain: "t\<lparr>root_answers := root_answers t\<rparr> = t" for t :: role_pool by (cases t) simp
  show thesis
  proof (cases "unverifiable_hook_owner s \<or> list_ex awaits_join (slots s)")
    case True
    then show thesis using assms refused by (auto simp: close_pool_def bindc_def begin_close_def split: if_splits)
  next
    case False
    then show thesis
      using assms partly unreleased over
      by (cases s) (auto simp: close_pool_def release_root_def call_release_root_def bindc_def begin_close_def split: if_splits)
  qed
qed

section \<open>Invariant\<close>

definition roles :: "role_world \<Rightarrow> nat list" where
  "roles w = map (fst \<circ> snd) (handles w)"

definition out_conns :: "role_world \<Rightarrow> nat list" where
  "out_conns w = map (snd \<circ> snd) (handles w)"

definition role_inv :: "nat list \<Rightarrow> role_world \<Rightarrow> bool" where
  "role_inv cs w \<longleftrightarrow>
     distinct cs \<and> length (slots (pool w)) = 9
     \<and> mset (held (slots (pool w))) + mset (out_conns w) + mset (closed_conns w) = mset cs
     \<and> hm_wf (handles w) \<and> (\<forall>h \<in> hm_keys (handles w). h < next_handle w)
     \<and> distinct (roles w) \<and> set (roles w) = {i. i < 9 \<and> slots (pool w) ! i = Leased}
     \<and> (\<forall>h. acquiring w = Some h \<longrightarrow> (\<exists>c. map_of (handles w) h = Some (7, c)) \<and> opaque (pool w) ! 7 = Preparing)
     \<and> (root_answers (pool w) \<noteq> [] \<longrightarrow> held (slots (pool w)) = [] \<and> handles w = [] \<and> closing (pool w))
     \<and> (if released (pool w) then \<exists>n. root_answers (pool w) = replicate n False @ [True]
        else length (opaque (pool w)) = 9 \<and> True \<notin> set (root_answers (pool w)))"

lemma role_invD:
  assumes "role_inv cs w"
  shows "distinct cs" "length (slots (pool w)) = 9"
    "mset (held (slots (pool w))) + mset (out_conns w) + mset (closed_conns w) = mset cs"
    "hm_wf (handles w)" "h \<in> hm_keys (handles w) \<Longrightarrow> h < next_handle w"
    "distinct (roles w)" "set (roles w) = {i. i < 9 \<and> slots (pool w) ! i = Leased}"
    "acquiring w = Some h \<Longrightarrow> (\<exists>c. map_of (handles w) h = Some (7, c)) \<and> opaque (pool w) ! 7 = Preparing"
    "released (pool w) \<Longrightarrow> held (slots (pool w)) = [] \<and> handles w = [] \<and> closing (pool w)
       \<and> (\<exists>n. root_answers (pool w) = replicate n False @ [True])"
    "\<not> released (pool w) \<Longrightarrow> length (opaque (pool w)) = 9 \<and> True \<notin> set (root_answers (pool w))"
    "root_answers (pool w) \<noteq> [] \<Longrightarrow> held (slots (pool w)) = [] \<and> handles w = [] \<and> closing (pool w)"
  using assms unfolding role_inv_def by (auto split: if_splits)

lemma handle_role:
  assumes "role_inv cs w" "map_of (handles w) h = Some (i, c)"
  shows "i < 9" "slots (pool w) ! i = Leased" "\<not> released (pool w)" "root_answers (pool w) = []"
proof -
  have "i \<in> set (roles w)" using map_of_SomeD [OF assms(2)] by (force simp: roles_def)
  then show "i < 9" "slots (pool w) ! i = Leased" using role_invD(7) [OF assms(1)] by auto
  show "\<not> released (pool w)" using role_invD(9) [OF assms(1)] assms(2) by auto
  show "root_answers (pool w) = []" using role_invD(11) [OF assms(1)] assms(2) by (cases "root_answers (pool w)") simp_all
qed

text \<open>A pool whose slots hold the same connections under the same owners.\<close>

lemma role_inv_pool:
  assumes "role_inv cs w" "length (slots p) = 9" "mset (held (slots p)) = mset (held (slots (pool w)))"
    "\<And>i. i < 9 \<Longrightarrow> slots p ! i = Leased \<longleftrightarrow> slots (pool w) ! i = Leased"
    "opaque p = opaque (pool w)" "released p = released (pool w)" "closing (pool w) \<longrightarrow> closing p"
    "root_answers p = root_answers (pool w)"
  shows "role_inv cs (w\<lparr>pool := p\<rparr>)"
proof -
  have "{i. i < 9 \<and> slots p ! i = Leased} = {i. i < 9 \<and> slots (pool w) ! i = Leased}" using assms(4) by auto
  with assms show ?thesis by (auto simp: role_inv_def roles_def out_conns_def split: if_splits)
qed

lemma inv_opened:
  assumes inv: "role_inv cs w" and run: "lease i (pool w) = (Inr c, p)"
  shows "role_inv cs (w\<lparr>pool := p, handles := hm_insert (next_handle w) (i, c) (handles w), next_handle := next_handle w + 1\<rparr>)"
proof -
  note I = role_invD [OF inv]
  from run show ?thesis
  proof (cases rule: lease_cases)
    case (leased c')
    let ?s = "slots (pool w)"
    have c: "c' = c" and i: "i < 9" using leased I(2) by auto
    have open': "\<not> released (pool w)" "root_answers (pool w) = []" using I(9,11) leased(4) by auto
    have fresh: "next_handle w \<notin> hm_keys (handles w)" using I(5) by blast
    have new: "i \<notin> set (roles w)" using I(7) leased(3) by auto
    have conns: "mset (held (?s[i := Leased])) + {#c#} = mset (held ?s)"
      using held_update [of i ?s Leased] leased(2,3) c by simp
    have own: "{j. j < 9 \<and> ?s[i := Leased] ! j = Leased} = insert i {j. j < 9 \<and> ?s ! j = Leased}"
      using i I(2) by (auto simp: nth_list_update)
    have total: "mset (held (?s[i := Leased])) + mset (out_conns w @ [c]) + mset (closed_conns w) = mset cs"
      using I(3) conns [symmetric] by (simp add: ac_simps)
    let ?n = "next_handle w" and ?H = "hm_insert (next_handle w) (i, c) (handles w)"
    let ?w = "w\<lparr>pool := p, handles := ?H, next_handle := ?n + 1\<rparr>"
    have ins: "roles ?w = roles w @ [i]" "out_conns ?w = out_conns w @ [c]"
      using hm_insert_fresh [OF fresh] by (simp_all add: roles_def out_conns_def)
    have keys: "hm_wf ?H" "\<forall>h \<in> hm_keys ?H. h < ?n + 1" using I(4,5) by (auto simp: hm_simps intro: less_SucI)
    have acq: "\<forall>h. acquiring w = Some h \<longrightarrow> (\<exists>c'. map_of ?H h = Some (7, c')) \<and> opaque (pool w) ! 7 = Preparing"
      using I(8) fresh hm_keys_Some by (fastforce simp: hm_simps)
    show ?thesis
      unfolding role_inv_def ins using leased(6) I(1,2,6,7,10) total keys acq new own open' by simp
  qed simp
qed

lemma inv_returned:
  assumes inv: "role_inv cs w" and h: "map_of (handles w) h = Some (i, c)" and free: "acquiring w \<noteq> Some h"
  shows "role_inv cs (w\<lparr>pool := snd (returned i c a (pool w)), handles := hm_remove h (handles w)\<rparr>)"
proof -
  note I = role_invD [OF inv] and R = handle_role [OF inv h]
  let ?s = "slots (pool w)"
  obtain b where run: "returned i c a (pool w) = (Inr (), put_slot i (if b then Returned c else UnjoinedQuarantine c) (poison b (pool w)))"
    using returned_run [of i "pool w" c a] R(1) I(2) by metis
  let ?x = "if b then Returned c else UnjoinedQuarantine c"
  obtain xs ys where split: "handles w = xs @ (h, (i, c)) # ys" "h \<notin> fst ` set xs" "h \<notin> fst ` set ys"
    by (rule hm_split_key [OF h I(4)])
  have rest: "hm_remove h (handles w) = xs @ ys" using split by simp
  have conns: "mset (held (?s[i := ?x])) = mset (held ?s) + {#c#}"
    using held_update [of i ?s ?x] R(1,2) I(2) by (cases b) simp_all
  have own: "{j. j < 9 \<and> ?s[i := ?x] ! j = Leased} = {j. j < 9 \<and> ?s ! j = Leased} - {i}"
    using R(1) I(2) by (auto simp: nth_list_update)
  have roles: "set (map (fst \<circ> snd) (xs @ ys)) = set (roles w) - {i}" "distinct (map (fst \<circ> snd) (xs @ ys))"
    using I(6) split(1) by (auto simp: roles_def)
  have out: "mset (map (snd \<circ> snd) (xs @ ys)) + {#c#} = mset (out_conns w)" using split(1) by (simp add: out_conns_def)
  have "mset (held (?s[i := ?x])) + mset (map (snd \<circ> snd) (xs @ ys)) + mset (closed_conns w) = mset cs"
    using I(3) conns out [symmetric] by (simp add: ac_simps)
  moreover have "map_of (xs @ ys) g = map_of (handles w) g" if "g \<noteq> h" for g
    using that split(1) by (simp add: map_add_def split: option.splits)
  moreover have "hm_wf (xs @ ys)" "hm_keys (xs @ ys) \<subseteq> hm_keys (handles w)"
    using hm_wf_remove [OF I(4), of h] hm_keys_remove [of h "handles w"] rest by auto
  ultimately show ?thesis
    using I(1,2,5,8,10) R(3,4) own I(7) roles free run rest
    by (auto simp: role_inv_def roles_def out_conns_def)
qed

lemma inv_opaque:
  assumes "role_inv cs w" "\<not> released (pool w)" "length x = 9"
    "\<forall>h. z = Some h \<longrightarrow> (\<exists>c. map_of (handles w) h = Some (7, c)) \<and> x ! 7 = Preparing"
  shows "role_inv cs (w\<lparr>pool := (pool w)\<lparr>opaque := x\<rparr>, acquiring := z\<rparr>)"
  using assms by (simp add: role_inv_def roles_def out_conns_def)

lemma inv_reserved:
  assumes inv: "role_inv cs w"
  shows "role_inv cs (begin_acquire h w)"
proof (cases "map_of (handles w) h")
  case (Some x)
  obtain i c where h: "map_of (handles w) h = Some (i, c)" using Some by (cases x) auto
  obtain r p where run: "reserve_owner i (pool w) = (r, p)" by (rule prod.exhaust)
  note R = handle_role [OF inv h]
  from run show ?thesis
  proof (cases rule: reserve_cases)
    case reserved
    have "role_inv cs (w\<lparr>pool := (pool w)\<lparr>opaque := (opaque (pool w))[7 := Preparing]\<rparr>, acquiring := Some h\<rparr>)"
      using role_invD(10) [OF inv R(3)] h reserved(2) by (intro inv_opaque [OF inv R(3)]) auto
    with h run reserved show ?thesis by (simp add: begin_acquire_def)
  next
    case (refused e)
    with inv h run show ?thesis by (simp add: begin_acquire_def)
  qed
qed (use inv in \<open>simp add: begin_acquire_def\<close>)

lemma set_opaque_run:
  "i < length (opaque s) \<Longrightarrow> set_opaque i x s = (Inr (), s\<lparr>opaque := (opaque s)[i := x]\<rparr>)"
  by (simp add: set_opaque_def bindc_def)

lemma inv_acquired:
  assumes inv: "role_inv cs w"
  shows "role_inv cs (end_acquire owner w)"
proof (cases "acquiring w")
  case (Some h)
  obtain c where h: "map_of (handles w) h = Some (7, c)" using role_invD(8) [OF inv Some] by blast
  note R = handle_role [OF inv h]
  have len: "length (opaque (pool w)) = 9" using role_invD(10) [OF inv R(3)] by blast
  have run: "(case owner of Some x \<Rightarrow> retain_owner 7 x | None \<Rightarrow> drop_reservation_owner 7) (pool w)
      = (Inr (), (pool w)\<lparr>opaque := (opaque (pool w))[7 := (case owner of Some x \<Rightarrow> Held x | None \<Rightarrow> NoOwner)]\<rparr>)"
    using len by (cases owner) (simp_all add: retain_owner_def drop_reservation_owner_def set_opaque_run)
  have "role_inv cs (w\<lparr>pool := (pool w)\<lparr>opaque := (opaque (pool w))[7 := (case owner of Some x \<Rightarrow> Held x | None \<Rightarrow> NoOwner)]\<rparr>,
      acquiring := None\<rparr>)"
    using len by (intro inv_opaque [OF inv R(3)]) auto
  with Some h run show ?thesis by (simp add: end_acquire_def)
qed (use inv in \<open>simp add: end_acquire_def\<close>)

lemma after_join_slot: "held [after_join b x] = held [x]" "after_join b x = Leased \<longleftrightarrow> x = Leased"
  by (auto simp: after_join_def split: slot.splits)

lemma inv_joined:
  assumes inv: "role_inv cs w"
  shows "role_inv cs (w\<lparr>pool := snd (joined i b (pool w))\<rparr>)"
proof (rule role_inv_pool [OF inv])
  show "mset (held (slots (snd (joined i b (pool w))))) = mset (held (slots (pool w)))"
    using held_update_same [of i "slots (pool w)" "after_join b (slots (pool w) ! i)"] after_join_slot(1) by (auto simp: joined_run)
  fix j :: nat assume "j < 9"
  then show "slots (snd (joined i b (pool w))) ! j = Leased \<longleftrightarrow> slots (pool w) ! j = Leased"
    using after_join_slot(2) role_invD(2) [OF inv] by (cases "i = j") (auto simp: joined_run)
qed (use role_invD(2) [OF inv] in \<open>simp_all add: joined_run\<close>)

lemma no_owner_closing:
  assumes "role_inv cs w" "\<not> list_ex awaits_join (slots (pool w))"
  shows "handles w = []" "acquiring w = None"
proof -
  have "slots (pool w) ! i \<noteq> Leased" if "i < 9" for i
    using assms(2) nth_mem [of i "slots (pool w)"] that role_invD(2) [OF assms(1)]
    by (force simp: list_ex_iff awaits_join_def split: slot.splits)
  then have "set (roles w) = {}" using role_invD(7) [OF assms(1)] by auto
  then show none: "handles w = []" by (simp add: roles_def)
  show "acquiring w = None" using role_invD(8) [OF assms(1)] none by (cases "acquiring w") auto
qed

lemma held_all_closed: "\<not> list_ex awaits_join xs \<Longrightarrow> \<not> list_ex (close_fails a) xs \<Longrightarrow> held (map (close_slot a) xs) = []"
  using close_slot_ok(1) by (intro held_closed) (auto simp: list_ex_iff)

lemma closed_out:
  assumes "ys = filter (\<lambda>c. \<not> Q c) xs"
  shows "mset ys + mset (filter (\<lambda>c. c \<notin> set ys) xs) = mset xs"
proof -
  have "filter (\<lambda>c. c \<notin> set ys) xs = filter Q xs" using assms by (auto intro: filter_cong)
  with assms multiset_partition [of "mset xs" Q] show ?thesis by (simp add: ac_simps)
qed

lemma only_refusals: "True \<notin> set xs \<Longrightarrow> \<exists>n. xs @ [True] = replicate n False @ [True]"
  by (rule exI [of _ "length xs"]) (auto intro!: replicate_length_same [symmetric])

lemma inv_closed:
  assumes inv: "role_inv cs w"
  shows "role_inv cs (close_world a w)"
proof -
  note I = role_invD [OF inv]
  let ?s = "slots (pool w)" and ?t = "map (close_slot a) (slots (pool w))"
  obtain r p where run: "close_pool a (pool w) = (r, p)" by (rule prod.exhaust)
  let ?gone = "filter (\<lambda>c. c \<notin> set (held (slots p))) (held ?s)"
  have stays: "role_inv cs (w\<lparr>pool := p, closed_conns := closed_conns w @ ?gone\<rparr>)"
    if t: "\<not> list_ex awaits_join ?s" "slots p = ?t" "closing p" "root_answers p \<noteq> [] \<longrightarrow> held ?t = []"
      "if released p then \<exists>n. root_answers p = replicate n False @ [True]
       else length (opaque p) = 9 \<and> True \<notin> set (root_answers p)"
  proof -
    note none = no_owner_closing [OF inv t(1)]
    have total: "mset (held ?t) + mset (filter (\<lambda>c. c \<notin> set (held ?t)) (held ?s)) = mset (held ?s)"
      by (rule closed_out) (rule held_close [OF t(1)])
    have "\<not> (i < 9 \<and> ?t ! i = Leased)" for i using close_slot_ok(3) I(2) by auto
    then have own: "{i. i < 9 \<and> ?t ! i = Leased} = {}" by blast
    have empty: "roles w = []" "out_conns w = []" using none(1) by (simp_all add: roles_def out_conns_def)
    have conns: "mset (held (slots p)) + mset (closed_conns w @ ?gone) = mset cs"
      using I(3) total unfolding t(2) empty(2) by (simp add: ac_simps)
    have "length (slots p) = 9" "{i. i < 9 \<and> slots p ! i = Leased} = {}" using I(2) own t(2) by simp_all
    with I(1,4,5) none empty conns t(2-5) show ?thesis by (auto simp: role_inv_def roles_def out_conns_def)
  qed
  have emptied: "held ?t = []" if "root_answers (pool w) \<noteq> []" "\<not> list_ex awaits_join ?s"
    using I(11) [OF that(1)] held_close [OF that(2), of a] by simp
  have fate: "if released (pool w) then \<exists>n. root_answers (pool w) = replicate n False @ [True]
      else length (opaque (pool w)) = 9 \<and> True \<notin> set (root_answers (pool w))"
    using I(9,10) by (cases "released (pool w)") simp_all
  from run have "role_inv cs (w\<lparr>pool := p, closed_conns := closed_conns w @ ?gone\<rparr>)"
  proof (cases rule: close_cases)
    case (refused e)
    have none: "filter (\<lambda>c. c \<notin> set (held ?s)) (held ?s) = []" by (simp add: filter_empty_conv)
    have "role_inv cs (w\<lparr>pool := begin_close (pool w)\<rparr>)" by (rule role_inv_pool [OF inv]) (use I(2) in \<open>simp_all add: begin_close_def\<close>)
    moreover have "slots p = ?s" using refused by (simp add: begin_close_def)
    ultimately show ?thesis using refused none by simp
  next
    case (partly e)
    then show ?thesis using fate emptied by (intro stays) (simp_all add: begin_close_def)
  next
    case (unreleased e)
    then show ?thesis using fate held_all_closed [OF unreleased(2,3)] by (intro stays) (simp_all add: begin_close_def)
  next
    case over
    then show ?thesis
      using fate only_refusals held_all_closed [OF over(3,4)] by (intro stays) (simp_all add: begin_close_def split: if_splits)
  qed
  then show ?thesis using run by (simp add: close_world_def Let_def)
qed

lemma inv_hook: "role_inv cs w \<Longrightarrow> role_inv cs (w\<lparr>pool := progress_hook_result b (pool w)\<rparr>)"
  by (rule role_inv_pool) (auto simp: progress_hook_result_def dest: role_invD(2))

lemma inv_lease: "role_inv cs w \<Longrightarrow> role_inv cs (open_handle i w)"
proof -
  assume inv: "role_inv cs w"
  obtain r p where run: "lease i (pool w) = (r, p)" by (rule prod.exhaust)
  from run show ?thesis
    by (cases rule: lease_cases) (use inv inv_opened [OF inv, of i] run in \<open>auto simp: open_handle_def\<close>)
qed

lemma inv_search: "role_inv cs w \<Longrightarrow> role_inv cs (open_search w)"
proof -
  assume inv: "role_inv cs w"
  obtain r p where run: "lease_search (pool w) = (r, p)" by (rule prod.exhaust)
  then have "(\<exists>i c. r = Inr (i, c) \<and> lease i (pool w) = (Inr c, p)) \<or> (\<exists>e. r = Inl e \<and> p = pool w)"
    using lease_first_run [of "[3, 4, 5, 6]" "pool w" r p] by (auto simp: lease_search_def)
  then show ?thesis using inv inv_opened [OF inv] run by (auto simp: open_search_def)
qed

lemma role_step_inv: "role_inv cs w \<Longrightarrow> role_step w w' \<Longrightarrow> role_inv cs w'"
proof (erule role_step.cases)
  fix v h a assume inv: "role_inv cs w" and eq: "w = v" "w' = return_managed h a v" and free: "acquiring v \<noteq> Some h"
  show ?thesis
  proof (cases "map_of (handles v) h")
    case (Some x)
    then show ?thesis using inv inv_returned [of cs v h "fst x" "snd x" a] free eq by (cases x) (simp add: return_managed_def)
  qed (use inv eq in \<open>simp add: return_managed_def\<close>)
next
  fix v assume "role_inv cs w" "w = v" "w' = v\<lparr>pool := begin_close (pool v)\<rparr>"
  then show ?thesis using role_invD(2) by (auto intro!: role_inv_pool simp: begin_close_def)
qed (auto intro: inv_lease inv_search inv_reserved inv_acquired inv_joined inv_closed inv_hook)

lemma role_init_inv: "role_init cs w \<Longrightarrow> role_inv cs w"
proof -
  assume "role_init cs w"
  then obtain p where p: "distinct cs" "new_pool cs = Inr p"
    "w = \<lparr>pool = p, handles = [], next_handle = 0, acquiring = None, closed_conns = []\<rparr>"
    by (auto simp: role_init_def)
  have "held (map Idle xs) = xs" for xs by (induction xs) simp_all
  with p show ?thesis by (auto simp: role_inv_def new_pool_def roles_def out_conns_def split: if_splits)
qed

interpretation session: inductive_invariant "role_init cs" role_step "role_inv cs" for cs
  by unfold_locales (auto intro: role_init_inv role_step_inv)

section \<open>What a step does to one slot\<close>

definition slot_turn :: "role_world \<Rightarrow> role_world \<Rightarrow> nat \<Rightarrow> bool" where
  "slot_turn w w' i \<longleftrightarrow>
     (let x = slots (pool w) ! i; y = slots (pool w') ! i in
      y = x \<or> x = Leased \<or> (\<exists>c. x = Idle c \<and> y = Leased)
      \<or> (\<exists>b. w' = w\<lparr>pool := snd (joined i b (pool w))\<rparr> \<and> y = after_join b x)
      \<or> (\<exists>a. \<not> awaits_join x \<and> y = close_slot a x))"

lemma turn_same: "slots (pool w') = slots (pool w) \<Longrightarrow> slot_turn w w' i"
  by (simp add: slot_turn_def)

lemma turn_leased:
  assumes "lease j (pool w) = (Inr c, p)" "slots (pool w') = slots p"
  shows "slot_turn w w' i"
  using assms(1)
proof (cases rule: lease_cases)
  case (leased d)
  then show ?thesis using assms(2) by (cases "i = j") (simp_all add: slot_turn_def)
qed simp

lemma turn_lease: "slot_turn w (open_handle j w) i"
proof -
  obtain r p where run: "lease j (pool w) = (r, p)" by (rule prod.exhaust)
  from run show ?thesis
  proof (cases rule: lease_cases)
    case (leased d)
    with run show ?thesis by (intro turn_leased [of j w d p]) (simp_all add: open_handle_def)
  qed (use run in \<open>simp add: open_handle_def turn_same\<close>)
qed

lemma turn_search: "slot_turn w (open_search w) i"
proof -
  obtain r p where run: "lease_search (pool w) = (r, p)" by (rule prod.exhaust)
  then have "(\<exists>j c. r = Inr (j, c) \<and> lease j (pool w) = (Inr c, p)) \<or> (\<exists>e. r = Inl e \<and> p = pool w)"
    using lease_first_run [of "[3, 4, 5, 6]" "pool w" r p] by (auto simp: lease_search_def)
  then consider (leased) j c where "r = Inr (j, c)" "lease j (pool w) = (Inr c, p)" | (refused) e where "r = Inl e" "p = pool w" by blast
  then show ?thesis
  proof cases
    case leased
    with run show ?thesis by (intro turn_leased [of j w c p]) (simp_all add: open_search_def)
  qed (use run in \<open>simp add: open_search_def turn_same\<close>)
qed

lemma turn_return:
  assumes "role_inv cs w"
  shows "slot_turn w (return_managed h a w) i"
proof (cases "map_of (handles w) h")
  case (Some x)
  obtain j c where h: "map_of (handles w) h = Some (j, c)" using Some by (cases x) auto
  note R = handle_role [OF assms h]
  obtain b where "returned j c a (pool w) = (Inr (), put_slot j (if b then Returned c else UnjoinedQuarantine c) (poison b (pool w)))"
    using returned_run [of j "pool w" c a] R(1) role_invD(2) [OF assms] by metis
  with h R show ?thesis by (cases "i = j") (simp_all add: return_managed_def slot_turn_def)
qed (simp add: return_managed_def turn_same)

lemma turn_opaque:
  assumes "role_inv cs w"
  shows "slot_turn w (begin_acquire h w) i" "slot_turn w (end_acquire owner w) i"
proof -
  have "slots (snd (reserve_owner j p)) = slots p" for j p
  proof -
    obtain r q where run: "reserve_owner j p = (r, q)" by (rule prod.exhaust)
    then have "slots q = slots p" by (cases rule: reserve_cases) simp_all
    with run show ?thesis by simp
  qed
  then have "slots (pool (begin_acquire h w)) = slots (pool w)"
    by (auto simp: begin_acquire_def split: option.splits prod.splits sum.splits) (metis snd_conv)+
  then show "slot_turn w (begin_acquire h w) i" by (rule turn_same)
  have "slots (pool (end_acquire owner w)) = slots (pool w)"
    by (auto simp: end_acquire_def retain_owner_def drop_reservation_owner_def set_opaque_def bindc_def split: option.splits)
  then show "slot_turn w (end_acquire owner w) i" by (rule turn_same)
qed

lemma turn_joined: "i < length (slots (pool w)) \<Longrightarrow> slot_turn w (w\<lparr>pool := snd (joined j b (pool w))\<rparr>) i"
  by (cases "i = j") (auto simp: slot_turn_def joined_run Let_def)

lemma turn_close:
  assumes "i < length (slots (pool w))"
  shows "slot_turn w (close_world a w) i"
proof -
  obtain r p where run: "close_pool a (pool w) = (r, p)" by (rule prod.exhaust)
  have closed: "\<not> awaits_join (slots (pool w) ! i)" if "\<not> list_ex awaits_join (slots (pool w))"
    using that assms by (auto simp: list_ex_iff)
  from run show ?thesis
  proof (cases rule: close_cases)
    case (refused e)
    with run show ?thesis by (intro turn_same) (simp add: close_world_def Let_def begin_close_def)
  next
    case (partly e)
    with run closed assms show ?thesis by (auto simp: slot_turn_def close_world_def Let_def)
  next
    case (unreleased e)
    with run closed assms show ?thesis by (auto simp: slot_turn_def close_world_def Let_def)
  next
    case over
    with run closed assms show ?thesis by (auto simp: slot_turn_def close_world_def Let_def)
  qed
qed

lemma step_turn:
  assumes inv: "role_inv cs w" and step: "role_step w w'" and i: "i < 9"
  shows "slot_turn w w' i"
  using step
proof cases
  case step_lease
  then show ?thesis by (simp add: turn_lease)
next
  case step_search
  then show ?thesis by (simp add: turn_search)
next
  case step_return
  then show ?thesis using turn_return [OF inv] by simp
next
  case step_joined
  then show ?thesis using turn_joined role_invD(2) [OF inv] i by simp
next
  case step_close
  then show ?thesis using turn_close role_invD(2) [OF inv] i by simp
qed (use turn_opaque [OF inv] in \<open>auto intro: turn_same simp: progress_hook_result_def begin_close_def\<close>)

section \<open>The opaque owner\<close>

lemma lease_opaque:
  "lease i s = (r, p) \<Longrightarrow> opaque p = opaque s"
  by (erule lease_cases) simp_all

lemma search_opaque: "lease_search s = (r, p) \<Longrightarrow> opaque p = opaque s"
  using lease_first_run [of "[3, 4, 5, 6]" s r p] lease_opaque by (auto simp: lease_search_def)

lemma opaque_same:
  "opaque (pool (open_handle i w)) = opaque (pool w)" "opaque (pool (open_search w)) = opaque (pool w)"
  "opaque (pool (return_managed h a w)) = opaque (pool w)" "opaque (snd (joined i b p)) = opaque p"
  by (auto simp: open_handle_def open_search_def return_managed_def returned_def bindc_def joined_run poison_def put_slot_def
      dest: lease_opaque search_opaque split: option.splits prod.splits sum.splits)

lemma held_owner_stays:
  assumes inv: "role_inv cs w" and step: "role_step w w'" and x: "opaque (pool w) ! 7 = Held x"
  shows "opaque (pool w') = opaque (pool w) \<or> released (pool w')"
  using step
proof cases
  case (step_reserve h)
  show ?thesis
  proof (cases "map_of (handles w) h")
    case (Some e)
    obtain i c where h: "map_of (handles w) h = Some (i, c)" using Some by (cases e) auto
    obtain r p where run: "reserve_owner i (pool w) = (r, p)" by (rule prod.exhaust)
    then have "p = pool w" by (cases rule: reserve_cases) (use x in simp_all)
    with step_reserve h run show ?thesis by (auto simp: begin_acquire_def split: sum.splits)
  qed (use step_reserve in \<open>simp add: begin_acquire_def\<close>)
next
  case (step_acquired owner)
  have "acquiring w = None" using role_invD(8) [OF inv] x by (cases "acquiring w") auto
  with step_acquired show ?thesis by (simp add: end_acquire_def)
next
  case (step_close a)
  obtain r p where run: "close_pool a (pool w) = (r, p)" by (rule prod.exhaust)
  then have "opaque p = opaque (pool w) \<or> released p" by (cases rule: close_cases) (simp_all add: begin_close_def)
  with step_close run show ?thesis by (simp add: close_world_def Let_def)
qed (simp_all add: opaque_same progress_hook_result_def begin_close_def)

section \<open>A session\<close>

definition ex_conns :: "nat list" where
  "ex_conns = [10, 11, 12, 13, 14, 15, 16, 17, 18]"

definition ex_pool :: role_pool where
  "ex_pool = \<lparr>slots = map Idle ex_conns, opaque = replicate 9 NoOwner, unverifiable_hook_owner = False,
     closing = False, poisoned = False, released = False, root_answers = []\<rparr>"

definition ex_session :: role_world where
  "ex_session = \<lparr>pool = ex_pool, handles = [], next_handle = 0, acquiring = None, closed_conns = []\<rparr>"

text \<open>The manifest role is leased, comes back healthy, is joined, and the session is closed.\<close>

definition ex_lent :: role_world where
  "ex_lent = open_handle 7 ex_session"

definition ex_back :: role_world where
  "ex_back = return_managed 0 \<lparr>ra_panicking = False, ra_autocommit = True, ra_same_database = True\<rparr> ex_lent"

definition ex_joined :: role_world where
  "ex_joined = ex_back\<lparr>pool := snd (joined 7 True (pool ex_back))\<rparr>"

definition ex_fine :: close_answers where
  "ex_fine = \<lparr>ca_closes = (\<lambda>_. True), ca_root = True\<rparr>"

lemma ex_session_reachable:
  "reachable (role_init ex_conns) role_step ex_session" "reachable (role_init ex_conns) role_step ex_lent"
  "reachable (role_init ex_conns) role_step ex_back" "reachable (role_init ex_conns) role_step ex_joined"
proof -
  have "role_init ex_conns ex_session"
    by (simp add: role_init_def ex_session_def ex_pool_def new_pool_def ex_conns_def)
  then show 0: "reachable (role_init ex_conns) role_step ex_session" by (rule reachable.start)
  show 1: "reachable (role_init ex_conns) role_step ex_lent" unfolding ex_lent_def by (rule reachable.move [OF 0 step_lease])
  have "acquiring ex_lent \<noteq> Some 0" by (simp add: ex_lent_def open_handle_def ex_session_def split: sum.splits prod.splits)
  from reachable.move [OF 1 step_return [OF this]] show 2: "reachable (role_init ex_conns) role_step ex_back"
    unfolding ex_back_def .
  show 3: "reachable (role_init ex_conns) role_step ex_joined" unfolding ex_joined_def by (rule reachable.move [OF 2 step_joined])
qed

lemma ex_lent_eq:
  "pool ex_lent = ex_pool\<lparr>slots := [Idle 10, Idle 11, Idle 12, Idle 13, Idle 14, Idle 15, Idle 16, Leased, Idle 18]\<rparr>"
  "handles ex_lent = [(0, (7, 17))]" "acquiring ex_lent = None" "closed_conns ex_lent = []"
  by (simp_all add: ex_lent_def open_handle_def ex_session_def ex_pool_def ex_conns_def lease_eval put_slot_def hm_insert_def hm_remove_def)

lemma ex_back_eq:
  "pool ex_back = ex_pool\<lparr>slots := [Idle 10, Idle 11, Idle 12, Idle 13, Idle 14, Idle 15, Idle 16, Returned 17, Idle 18]\<rparr>"
  "handles ex_back = []"
  by (simp_all add: ex_back_def return_managed_def ex_lent_eq returned_def bindc_def poison_def put_slot_def hm_remove_def ex_pool_def
      list_update_code)

lemma ex_joined_eq: "pool ex_joined = ex_pool" "handles ex_joined = []"
  by (simp_all add: ex_joined_def ex_back_eq joined_run poison_def put_slot_def after_join_def ex_pool_def ex_conns_def)

section \<open>Properties\<close>

text \<open>
  C15: in every state a session can reach, no role has two owners, each handle's role is lent to
  it, every connection of the session is in exactly one place (a slot, a handle, or closed), and
  neither the return of a handle nor the end of an acquisition finds its slot missing.
\<close>

theorem role_ownership:
  assumes "reachable (role_init cs) role_step w"
  shows "distinct (map (fst \<circ> snd) (handles w))
    \<and> (\<forall>h i c. map_of (handles w) h = Some (i, c) \<longrightarrow> slots (pool w) ! i = Leased \<and> fst (returned i c a (pool w)) = Inr ())
    \<and> mset (held (slots (pool w))) + mset (map (snd \<circ> snd) (handles w)) + mset (closed_conns w) = mset cs
    \<and> (acquiring w \<noteq> None \<longrightarrow> fst (retain_owner 7 x (pool w)) = Inr () \<and> fst (drop_reservation_owner 7 (pool w)) = Inr ())"
proof -
  have inv: "role_inv cs w" by (rule session.reachable_inv [OF assms])
  note I = role_invD [OF inv]
  have "slots (pool w) ! i = Leased \<and> fst (returned i c a (pool w)) = Inr ()" if "map_of (handles w) h = Some (i, c)" for h i c
    using handle_role [OF inv that] returned_run [of i "pool w" c a] I(2) by (metis fst_conv)
  moreover have "fst (retain_owner 7 x (pool w)) = Inr () \<and> fst (drop_reservation_owner 7 (pool w)) = Inr ()"
    if "acquiring w \<noteq> None"
  proof -
    from that obtain h c where h: "map_of (handles w) h = Some (7, c)" using I(8) by blast
    have "length (opaque (pool w)) = 9" using I(10) [OF handle_role(3) [OF inv h]] by blast
    then show ?thesis by (simp add: retain_owner_def drop_reservation_owner_def set_opaque_run)
  qed
  ultimately show ?thesis using I(3,6) by (auto simp: roles_def out_conns_def)
qed

theorem role_ownership_witness:
  "slots (pool ex_lent) ! 7 = Leased \<and> fst (returned 7 17 \<lparr>ra_panicking = True, ra_autocommit = True, ra_same_database = True\<rparr> (pool ex_lent)) = Inr ()"
  using role_ownership [OF ex_session_reachable(2), of "\<lparr>ra_panicking = True, ra_autocommit = True, ra_same_database = True\<rparr>"]
  by (simp add: ex_lent_eq)





text \<open>
  A role that came back is not lent again before its thread was joined as healthy, and never
  when its connection failed the verification: no step leads from such a slot to a lent one, and
  the only step that makes it available is the join of exactly that role.
\<close>

theorem returned_role_waits:
  assumes "reachable (role_init cs) role_step w" "role_step w w'" "i < 9"
    "slots (pool w) ! i \<in> {Returned c, UnjoinedQuarantine c, Quarantined c}"
  shows "slots (pool w') ! i \<noteq> Leased
    \<and> (slots (pool w') ! i = Idle d \<longrightarrow> slots (pool w) ! i = Returned d \<and> w' = w\<lparr>pool := snd (joined i True (pool w))\<rparr>)"
proof -
  have "slot_turn w w' i" by (rule step_turn [OF session.reachable_inv [OF assms(1)] assms(2,3)])
  with assms(4) show ?thesis
    by (auto simp: slot_turn_def Let_def after_join_def close_slot_def split: if_splits)
qed

theorem returned_role_waits_witness:
  "slots (pool ex_joined) ! 7 = Idle 17 \<and> slots (pool ex_back) ! 7 = Returned 17
   \<and> ex_joined = ex_back\<lparr>pool := snd (joined 7 True (pool ex_back))\<rparr>"
proof -
  have "slots (pool ex_back) ! 7 = Returned 17" by (simp add: ex_back_eq)
  moreover have "slots (pool ex_joined) ! 7 = Idle 17" by (simp add: ex_joined_eq ex_pool_def ex_conns_def)
  moreover have "role_step ex_back ex_joined" unfolding ex_joined_def by (rule step_joined)
  ultimately show ?thesis
    using returned_role_waits [OF ex_session_reachable(3), of ex_joined 7 17 17] by simp
qed

text \<open>
  When no role is out or awaits its join and no progress hook is in doubt, closing the session
  succeeds as soon as SQLite and the filesystem let it, whatever failed in earlier attempts.
\<close>

theorem close_completes:
  assumes "reachable (role_init cs) role_step w" "\<not> unverifiable_hook_owner (pool w)" "\<not> list_ex awaits_join (slots (pool w))"
    "\<forall>c. ca_closes a c" "ca_root a"
  shows "\<exists>p. close_pool a (pool w) = (Inr (), p) \<and> released p \<and> held (slots p) = []"
proof -
  obtain r p where run: "close_pool a (pool w) = (r, p)" by (rule prod.exhaust)
  have fine: "\<not> list_ex (close_fails a) (slots (pool w))"
    using assms(4) by (auto simp: list_ex_iff close_fails_def split: slot.splits)
  have "r = Inr ()"
    using run assms(2,3,5) fine by (auto simp: close_pool_def release_root_def call_release_root_def bindc_def begin_close_def split: if_splits)
  from run show ?thesis
    by (cases rule: close_cases) (use \<open>r = Inr ()\<close> run held_all_closed in auto)
qed

theorem close_completes_witness: "\<exists>p. close_pool ex_fine (pool ex_joined) = (Inr (), p) \<and> released p"
proof -
  have "\<not> unverifiable_hook_owner (pool ex_joined)" "\<not> list_ex awaits_join (slots (pool ex_joined))"
    "\<forall>c. ca_closes ex_fine c" "ca_root ex_fine"
    by (simp_all add: ex_joined_eq ex_pool_def ex_conns_def awaits_join_def ex_fine_def)
  from close_completes [OF ex_session_reachable(4) this] show ?thesis by blast
qed

text \<open>
  The owner that a role retained (the filesystem's lease of the manifest) is given up only when
  the root has been released, that is after every connection was closed.
\<close>

theorem retained_owner_kept:
  assumes "reachable (role_init cs) role_step w" "role_step w w'" "opaque (pool w) ! 7 = Held x"
  shows "opaque (pool w') ! 7 = Held x \<or> released (pool w') \<and> mset (closed_conns w') = mset cs"
proof -
  have inv: "role_inv cs w" "role_inv cs w'"
    using session.reachable_inv [OF assms(1)] session.inv_step [OF _ assms(2)] by blast+
  have "opaque (pool w') = opaque (pool w) \<or> released (pool w')" by (rule held_owner_stays [OF inv(1) assms(2,3)])
  moreover have "mset (closed_conns w') = mset cs" if "released (pool w')"
    using role_invD(3) [OF inv(2)] role_invD(9) [OF inv(2) that] by (simp add: out_conns_def)
  ultimately show ?thesis using assms(3) by auto
qed

definition ex_owned :: role_world where
  "ex_owned = end_acquire (Some 5) (begin_acquire 0 ex_lent)"

theorem retained_owner_kept_witness: "opaque (pool (return_managed 0 \<lparr>ra_panicking = False, ra_autocommit = True, ra_same_database = True\<rparr> ex_owned)) ! 7 = Held 5"
proof -
  let ?w = "return_managed 0 \<lparr>ra_panicking = False, ra_autocommit = True, ra_same_database = True\<rparr> ex_owned"
  have "reserve_owner 7 (pool ex_lent) = (Inr (), (pool ex_lent)\<lparr>opaque := (replicate 9 NoOwner)[7 := Preparing]\<rparr>)"
    by (simp add: reserve_owner_def bindc_def set_opaque_def ex_lent_eq ex_pool_def)
  then have owned: "pool ex_owned = (pool ex_lent)\<lparr>opaque := (replicate 9 NoOwner)[7 := Held 5]\<rparr>" "acquiring ex_owned = None"
    by (simp_all add: ex_owned_def begin_acquire_def end_acquire_def ex_lent_eq retain_owner_def set_opaque_def bindc_def)
  have reach: "reachable (role_init ex_conns) role_step ex_owned"
    unfolding ex_owned_def by (rule reachable.move [OF reachable.move [OF ex_session_reachable(2) step_reserve] step_acquired])
  have step: "role_step ex_owned ?w" by (rule step_return) (simp add: owned)
  have "opaque (pool ex_owned) ! 7 = Held 5" "\<not> released (pool ?w)"
    by (simp_all add: owned return_managed_def returned_def bindc_def poison_def put_slot_def ex_lent_eq ex_pool_def split: option.split)
  with retained_owner_kept [OF reach step] show ?thesis by simp
qed

end
