(* ===== verification/Prepared_Cache.thy ===== *)
theory Prepared_Cache
  imports Preview_Scheduler Transition_System Edit_Recipe
begin

text \<open>
  The cache of prepared proxy files (\<open>preview/prepared_cache.rs\<close>): entries charged with the bytes
  of their files, evicted by recency, over the directory that holds the files. Hashes, the
  verification of a file and the answers of the file system, or of the worker that owns the
  directory, are arguments of the calls.
\<close>

section \<open>State\<close>

record proxy_identity =
  pi_source_fingerprint :: string
  pi_white_balance :: white_balance
  pi_renderer_identity :: string
  pi_original_dimensions :: "nat \<times> nat"
  pi_longest_edge :: nat
  pi_width :: nat
  pi_height :: nat

record proxy_receipt =
  rc_bytes :: nat
  rc_blake3 :: string
  rc_identity :: proxy_identity

text \<open>A source instance is compared as a whole; the model keeps its identity only.\<close>

record px_entry =
  px_receipt :: proxy_receipt
  px_source :: nat
  px_used :: nat

record prepared_cache =
  px_managed :: bool
  px_entries :: "(string, px_entry) hmap"
  px_clock :: nat
  px_bytes :: nat
  px_limit :: nat
  px_count :: nat

text \<open>With the files in the root of the cache and their sizes.\<close>

record prepared_world = prepared_cache +
  px_disk :: "(string, nat) hmap"

datatype px_error =
    PxConfiguration
  | PxRecoveryBound
  | PxUnknownArtifact
  | PxUnlink
  | PxIdentity
  | PxSource
  | PxVerify
  | PxEntryMissing
  | PxEviction
  | PxClockOverflow
  | PxStage
  | PxLink
  | PxPathMismatch
  | PxPanic

type_synonym 'a px_comp = "(prepared_world, px_error, 'a) comp"

section \<open>Opening\<close>

text \<open>An entry of the directory: its name, whether it is a regular file, whether it can be removed.\<close>

record dir_entry =
  de_name :: string
  de_file :: bool
  de_removable :: bool

definition strip_suffix :: "string \<Rightarrow> string \<Rightarrow> string option" where
  "strip_suffix suffix s =
     (if length suffix \<le> length s \<and> drop (length s - length suffix) s = suffix
      then Some (take (length s - length suffix) s) else None)"

definition px_artifact :: "dir_entry \<Rightarrow> bool" where
  "px_artifact d \<longleftrightarrow>
     (case strip_suffix ''.linear'' (de_name d) of
        None \<Rightarrow> False
      | Some stem \<Rightarrow> length stem = 64 \<and> list_all is_ascii_hexdigit stem \<and> de_file d)"

definition px_configured :: "nat \<Rightarrow> nat \<Rightarrow> bool" where
  "px_configured limit count \<longleftrightarrow> count \<le> 1024 \<and> limit \<le> 16 * 1024 * 1024 * 1024"

definition px_empty :: "bool \<Rightarrow> nat \<Rightarrow> nat \<Rightarrow> prepared_world" where
  "px_empty managed limit count =
     \<lparr>px_managed = managed, px_entries = [], px_clock = 0, px_bytes = 0, px_limit = limit, px_count = count, px_disk = []\<rparr>"

text \<open>Startup clears the directory, but only one that holds nothing but proxies.\<close>

definition px_open :: "nat \<Rightarrow> nat \<Rightarrow> dir_entry list \<Rightarrow> px_error + prepared_world" where
  "px_open limit count dir =
     (if \<not> px_configured limit count then Inl PxConfiguration
      else if \<not> length (take 1025 dir) \<le> 1024 then Inl PxRecoveryBound
      else if \<not> list_all px_artifact dir then Inl PxUnknownArtifact
      else if \<not> list_all de_removable dir then Inl PxUnlink
      else Inr (px_empty False limit count))"

definition px_open_managed :: "nat \<Rightarrow> nat \<Rightarrow> bool \<Rightarrow> px_error + prepared_world" where
  "px_open_managed limit count initialized =
     (if \<not> px_configured limit count then Inl PxConfiguration
      else if \<not> initialized then Inl PxUnlink
      else Inr (px_empty True limit count))"

section \<open>Lookup\<close>

definition px_touch :: "string \<Rightarrow> px_entry \<Rightarrow> proxy_receipt option px_comp" where
  "px_touch key e =
     bindc (getc (\<lambda>s. checked_add (px_clock s) 1)) (\<lambda>c.
     bindc (lift_option PxClockOverflow c) (\<lambda>c.
     bindc (modc (\<lambda>s. s\<lparr>px_clock := c, px_entries := hm_adjust key (px_used_update (\<lambda>_. c)) (px_entries s)\<rparr>)) (\<lambda>_.
     ret (Some (px_receipt e)))))"

text \<open>The managed candidate is chosen without looking at the source.\<close>

definition px_lookup :: "string option \<Rightarrow> nat option \<Rightarrow> proxy_receipt option px_comp" where
  "px_lookup key observed =
     bindc (lift_option PxIdentity key) (\<lambda>key.
     bindc (getc (\<lambda>s. map_of (px_entries s) key)) (\<lambda>found.
     case found of
       None \<Rightarrow> ret None
     | Some e \<Rightarrow>
         bindc (getc px_managed) (\<lambda>managed.
         if managed then px_touch key e
         else
           bindc (lift_option PxSource observed) (\<lambda>now.
           if px_source e \<noteq> now then ret None else px_touch key e))))"

section \<open>Removal and eviction\<close>

datatype unlink = Unlinked | NotFound | Refused

definition px_unlink :: "string \<Rightarrow> unlink \<Rightarrow> unit px_comp" where
  "px_unlink key answer =
     bindc (getc px_managed) (\<lambda>managed.
     if answer = Refused \<or> managed \<and> answer = NotFound then fail PxUnlink
     else modc (\<lambda>s. s\<lparr>px_disk := hm_remove key (px_disk s)\<rparr>))"

definition px_remove :: "string \<Rightarrow> (string \<Rightarrow> unlink) \<Rightarrow> unit px_comp" where
  "px_remove key answers =
     bindc (getc (\<lambda>s. map_of (px_entries s) key)) (\<lambda>old.
     bindc (lift_option PxEntryMissing old) (\<lambda>old.
     bindc (px_unlink key (answers key)) (\<lambda>_.
     bindc (modc (px_entries_update (hm_remove key))) (\<lambda>_.
     bindc (getc (\<lambda>s. checked_sub (px_bytes s) (rc_bytes (px_receipt old)))) (\<lambda>b.
     bindc (lift_option PxPanic b) (\<lambda>b.
     modc (px_bytes_update (\<lambda>_. b))))))))"

lemma px_remove_shrinks:
  assumes "px_remove key answers s = (Inr (), t)"
  shows "length (px_entries t) < length (px_entries s)"
proof -
  obtain e where e: "map_of (px_entries s) key = Some e" and t: "px_entries t = hm_remove key (px_entries s)"
    using assms by (cases "map_of (px_entries s) key") (auto simp: px_remove_def px_unlink_def bindc_def split: if_splits option.splits)
  have "length (hm_remove key (px_entries s)) < length (px_entries s)"
    unfolding hm_remove_def by (rule length_filter_less [OF map_of_SomeD [OF e]]) simp
  with t show ?thesis by simp
qed

text \<open>The oldest entries go until the file fits.\<close>

definition px_crowded :: "nat \<Rightarrow> prepared_world \<Rightarrow> bool option" where
  "px_crowded n s =
     (if length (px_entries s) \<ge> px_count s then Some True
      else map_option (\<lambda>b. b > px_limit s) (checked_add (px_bytes s) n))"

function px_evict :: "nat \<Rightarrow> (string \<Rightarrow> unlink) \<Rightarrow> unit px_comp" where
  "px_evict n answers s =
     (case px_crowded n s of
        None \<Rightarrow> (Inl PxPanic, s)
      | Some False \<Rightarrow> (Inr (), s)
      | Some True \<Rightarrow>
          (case min_by_key (\<lambda>(k, e). px_used e) (px_entries s) of
             None \<Rightarrow> (Inl PxEviction, s)
           | Some (k, e) \<Rightarrow>
               (case px_remove k answers s of
                  (Inl x, t) \<Rightarrow> (Inl x, t)
                | (Inr _, t) \<Rightarrow> px_evict n answers t)))"
  by pat_completeness auto

termination
  by (relation "measure (\<lambda>(n, a, s). length (px_entries s))") (auto dest!: px_remove_shrinks [OF sym])

declare px_evict.simps [simp del]

text \<open>An entry under the same key is replaced first.\<close>

definition px_make_room :: "string \<Rightarrow> nat \<Rightarrow> (string \<Rightarrow> unlink) \<Rightarrow> unit px_comp" where
  "px_make_room key n a =
     bindc (getc (\<lambda>s. map_of (px_entries s) key \<noteq> None)) (\<lambda>old.
     bindc (if old then px_remove key a else ret ()) (\<lambda>_.
     px_evict n a))"

section \<open>Adoption\<close>

text \<open>\<open>LinkedElsewhere\<close>: the worker adopted the file and answered with another path.\<close>

datatype link_answer = Linked | NotLinked | LinkedElsewhere

record adopt_answers =
  aa_verified :: bool
  aa_key :: "string option"
  aa_unlink :: "string \<Rightarrow> unlink"
  aa_stage :: bool
  aa_link :: link_answer

text \<open>A hard link is never made over an existing file.\<close>

definition px_link :: "adopt_answers \<Rightarrow> string \<Rightarrow> nat \<Rightarrow> unit px_comp" where
  "px_link a key n =
     bindc (getc px_managed) (\<lambda>managed.
     if managed then
       bindc (ensure (aa_stage a) PxStage) (\<lambda>_.
       bindc (ensure (aa_link a \<noteq> NotLinked) PxLink) (\<lambda>_.
       bindc (modc (\<lambda>s. s\<lparr>px_disk := hm_insert key n (px_disk s)\<rparr>)) (\<lambda>_.
       ensure (aa_link a = Linked) PxPathMismatch)))
     else
       bindc (getc (\<lambda>s. aa_link a = Linked \<and> map_of (px_disk s) key = None)) (\<lambda>linked.
       bindc (ensure linked PxLink) (\<lambda>_.
       modc (\<lambda>s. s\<lparr>px_disk := hm_insert key n (px_disk s)\<rparr>))))"

definition px_charge :: "string \<Rightarrow> proxy_receipt \<Rightarrow> nat \<Rightarrow> nat \<Rightarrow> unit px_comp" where
  "px_charge key r source c =
     bindc (getc (\<lambda>s. checked_add (px_bytes s) (rc_bytes r))) (\<lambda>b.
     bindc (lift_option PxPanic b) (\<lambda>b.
     modc (\<lambda>s. s\<lparr>px_clock := c, px_bytes := b,
       px_entries := hm_insert key \<lparr>px_receipt = r, px_source = source, px_used = c\<rparr> (px_entries s)\<rparr>)))"

definition px_adopt :: "adopt_answers \<Rightarrow> proxy_receipt \<Rightarrow> nat \<Rightarrow> unit px_comp" where
  "px_adopt a r source =
     bindc (getc (\<lambda>s. px_count s = 0 \<or> rc_bytes r > px_limit s)) (\<lambda>useless.
     if useless then ret ()
     else
       bindc (getc px_managed) (\<lambda>managed.
       bindc (ensure (managed \<or> aa_verified a) PxVerify) (\<lambda>_.
       bindc (lift_option PxIdentity (aa_key a)) (\<lambda>key.
       bindc (px_make_room key (rc_bytes r) (aa_unlink a)) (\<lambda>_.
       bindc (getc (\<lambda>s. checked_add (px_clock s) 1)) (\<lambda>c.
       bindc (lift_option PxClockOverflow c) (\<lambda>c.
       bindc (px_link a key (rc_bytes r)) (\<lambda>_.
       px_charge key r source c))))))))"

inductive px_step :: "prepared_world \<Rightarrow> prepared_world \<Rightarrow> bool" where
  step_lookup: "px_step s (snd (px_lookup key observed s))"
| step_adopt: "px_step s (snd (px_adopt a r source s))"

inductive_simps px_step_simps: "px_step s t"

definition px_init :: "prepared_world \<Rightarrow> bool" where
  "px_init s \<longleftrightarrow> (\<exists>limit count dir. px_open limit count dir = Inr s) \<or> (\<exists>limit count b. px_open_managed limit count b = Inr s)"

end
