(* ===== verification/Prepared_Properties.thy ===== *)
theory Prepared_Properties
  imports Prepared_Cache
begin

text \<open>
  The prepared cache: every file on disk is charged, what an adoption evicts and keeps, and the
  absence of panics.
\<close>

section \<open>Invariant\<close>

abbreviation (input) size_of :: "px_entry \<Rightarrow> nat" where
  "size_of e \<equiv> rc_bytes (px_receipt e)"

definition px_inv :: "prepared_world \<Rightarrow> bool" where
  "px_inv s \<longleftrightarrow>
     hm_wf (px_entries s) \<and> px_bytes s = hm_total (\<lambda>e. rc_bytes (px_receipt e)) (px_entries s)
     \<and> px_bytes s \<le> px_limit s \<and> px_limit s \<le> 16 * 1024 * 1024 * 1024 \<and> length (px_entries s) \<le> px_count s
     \<and> px_clock s < u64_limit
     \<and> (\<forall>k e. map_of (px_entries s) k = Some e \<longrightarrow> px_used e \<le> px_clock s)
     \<and> (\<forall>k e k' e'. map_of (px_entries s) k = Some e \<longrightarrow> map_of (px_entries s) k' = Some e' \<longrightarrow> px_used e = px_used e' \<longrightarrow> k = k')
     \<and> (\<not> px_managed s \<longrightarrow> hm_wf (px_disk s)
          \<and> (\<forall>k n. map_of (px_disk s) k = Some n \<longrightarrow> (\<exists>e. map_of (px_entries s) k = Some e \<and> rc_bytes (px_receipt e) = n)))"

lemma px_invD:
  assumes "px_inv s"
  shows "hm_wf (px_entries s)" "px_bytes s = hm_total (\<lambda>e. rc_bytes (px_receipt e)) (px_entries s)"
    "px_bytes s \<le> px_limit s" "px_limit s \<le> 16 * 1024 * 1024 * 1024" "length (px_entries s) \<le> px_count s"
    "px_clock s < u64_limit" "map_of (px_entries s) k = Some e \<Longrightarrow> px_used e \<le> px_clock s"
    "map_of (px_entries s) k = Some e \<Longrightarrow> map_of (px_entries s) k' = Some e' \<Longrightarrow> px_used e = px_used e' \<Longrightarrow> k = k'"
    "\<not> px_managed s \<Longrightarrow> hm_wf (px_disk s)"
    "\<not> px_managed s \<Longrightarrow> map_of (px_disk s) k = Some n \<Longrightarrow> \<exists>e. map_of (px_entries s) k = Some e \<and> rc_bytes (px_receipt e) = n"
  using assms unfolding px_inv_def by blast+

lemma px_empty_inv: "px_configured l c \<Longrightarrow> px_inv (px_empty m l c)"
  by (simp add: px_inv_def px_empty_def px_configured_def u64_limit_def)

section \<open>Removal\<close>

definition px_dropped :: "string \<Rightarrow> prepared_world \<Rightarrow> prepared_world" where
  "px_dropped k s = s\<lparr>px_disk := hm_remove k (px_disk s), px_entries := hm_remove k (px_entries s),
     px_bytes := px_bytes s - rc_bytes (px_receipt (the (map_of (px_entries s) k)))\<rparr>"

lemma px_remove_run:
  assumes inv: "px_inv s" and k: "map_of (px_entries s) k = Some e"
  shows "px_remove k a s = (if a k = Refused \<or> px_managed s \<and> a k = NotFound then (Inl PxUnlink, s) else (Inr (), px_dropped k s))"
proof -
  have "rc_bytes (px_receipt e) \<le> px_bytes s"
    using px_invD(2) [OF inv] hm_total_ge [OF k, of "\<lambda>e. rc_bytes (px_receipt e)"] by simp
  with k show ?thesis by (simp add: px_remove_def px_unlink_def bindc_def px_dropped_def checked_sub_def)
qed

lemma px_dropped_inv:
  assumes inv: "px_inv s" and k: "map_of (px_entries s) k = Some e"
  shows "px_inv (px_dropped k s)" "length (px_entries s) = Suc (length (px_entries (px_dropped k s)))"
proof -
  note I = px_invD [OF inv]
  show len: "length (px_entries s) = Suc (length (px_entries (px_dropped k s)))"
    using length_hm_remove [OF k I(1)] by (simp add: px_dropped_def)
  have "px_bytes s - rc_bytes (px_receipt e) = hm_total (\<lambda>e. rc_bytes (px_receipt e)) (hm_remove k (px_entries s))"
    using hm_total_remove [OF k I(1), of "\<lambda>e. rc_bytes (px_receipt e)"] I(2) by simp
  moreover have "\<exists>e. map_of (hm_remove k (px_entries s)) j = Some e \<and> rc_bytes (px_receipt e) = n"
    if "\<not> px_managed s" "map_of (hm_remove k (px_disk s)) j = Some n" for j n
    using I(10) [OF that(1), of j n] that(2) by (simp add: hm_simps split: if_splits)
  ultimately show "px_inv (px_dropped k s)"
    using I(1,3,4,5,6,9) I(7,8) k len
    by (simp add: px_inv_def px_dropped_def hm_simps)
qed

section \<open>Eviction\<close>

text \<open>Entries only leave, and the ones that leave were used before the ones that stay.\<close>

definition evicted :: "prepared_world \<Rightarrow> prepared_world \<Rightarrow> bool" where
  "evicted s t \<longleftrightarrow>
     px_managed t = px_managed s \<and> px_limit t = px_limit s \<and> px_count t = px_count s \<and> px_clock t = px_clock s
     \<and> (\<forall>k e. map_of (px_entries t) k = Some e \<longrightarrow> map_of (px_entries s) k = Some e)
     \<and> (\<forall>k e k' e'. map_of (px_entries s) k = Some e \<longrightarrow> map_of (px_entries t) k = None \<longrightarrow>
          map_of (px_entries t) k' = Some e' \<longrightarrow> px_used e < px_used e')"

lemma evicted_refl: "evicted s s"
  by (simp add: evicted_def)

lemma evicted_trans:
  assumes "evicted s t" "evicted t u"
  shows "evicted s u"
proof -
  have "px_used e < px_used e'" if "map_of (px_entries s) k = Some e" "map_of (px_entries u) k = None" "map_of (px_entries u) k' = Some e'"
    for k e k' e'
  proof (cases "map_of (px_entries t) k")
    case None
    with that assms show ?thesis unfolding evicted_def by blast
  next
    case (Some x)
    with that assms have "x = e" unfolding evicted_def by (metis option.inject)
    with Some that assms(2) show ?thesis unfolding evicted_def by blast
  qed
  with assms show ?thesis unfolding evicted_def by (metis (no_types))
qed

lemma evicted_oldest:
  assumes inv: "px_inv s" and oldest: "min_by_key (\<lambda>(k, e). px_used e) (px_entries s) = Some (k, e)"
  shows "map_of (px_entries s) k = Some e" "evicted s (px_dropped k s)"
proof -
  note I = px_invD [OF inv]
  show k: "map_of (px_entries s) k = Some e" using min_by_key_mem [OF oldest] hm_mem_iff [OF I(1)] by blast
  have "px_used e < px_used e'" if "map_of (px_entries s) k' = Some e'" "k' \<noteq> k" for k' e'
  proof -
    have "(k', e') \<in> set (px_entries s)" using that(1) hm_mem_iff [OF I(1)] by blast
    from min_by_key_le [OF oldest this] have "px_used e \<le> px_used e'" by simp
    moreover have "px_used e \<noteq> px_used e'" using I(8) [OF k that(1)] that(2) by blast
    ultimately show ?thesis by simp
  qed
  with k show "evicted s (px_dropped k s)" by (auto simp: evicted_def px_dropped_def hm_simps split: if_splits)
qed

lemma px_evict_run:
  assumes "px_inv s" "n \<le> px_limit s" "0 < px_count s"
  shows "\<exists>t. px_inv t \<and> evicted s t \<and>
    (px_evict n a s = (Inl PxUnlink, t) \<and> (\<exists>k. a k = Refused \<or> px_managed s \<and> a k = NotFound)
     \<or> px_evict n a s = (Inr (), t) \<and> length (px_entries t) < px_count t \<and> px_bytes t + n \<le> px_limit t)"
  using assms
proof (induction n a s rule: px_evict.induct)
  case (1 n a s)
  note I = px_invD [OF "1.prems"(1)]
  have sum: "px_bytes s + n < u64_limit" using I(3,4) "1.prems"(2) by (simp add: u64_limit_def)
  show ?case
  proof (cases "px_count s \<le> length (px_entries s) \<or> px_limit s < px_bytes s + n")
    case False
    with sum have "px_crowded n s = Some False" by (simp add: px_crowded_def checked_add_def)
    with False "1.prems"(1) show ?thesis by (intro exI [of _ s]) (simp add: px_evict.simps evicted_refl)
  next
    case True
    with sum have full: "px_crowded n s = Some True" by (auto simp: px_crowded_def checked_add_def)
    have "px_entries s \<noteq> []"
      using True "1.prems"(2,3) I(2) by auto
    then obtain k e where oldest: "min_by_key (\<lambda>(k, e). px_used e) (px_entries s) = Some (k, e)"
      by (metis min_by_key_None not_None_eq prod.exhaust)
    note E = evicted_oldest [OF "1.prems"(1) oldest]
    note run = px_remove_run [OF "1.prems"(1) E(1), of a]
    show ?thesis
    proof (cases "a k = Refused \<or> px_managed s \<and> a k = NotFound")
      case True
      with full oldest run "1.prems"(1) show ?thesis by (intro exI [of _ s]) (auto simp: px_evict.simps evicted_refl)
    next
      case False
      let ?t = "px_dropped k s"
      have rem: "px_remove k a s = (Inr (), ?t)" using run False by simp
      have step: "px_evict n a s = px_evict n a ?t" using full oldest rem by (simp add: px_evict.simps [of n a s])
      have "px_inv ?t" "n \<le> px_limit ?t" "0 < px_count ?t"
        using px_dropped_inv(1) [OF "1.prems"(1) E(1)] "1.prems"(2,3) by (simp_all add: px_dropped_def)
      from "1.IH" [OF full refl oldest refl rem [symmetric] refl this] obtain u where
        "px_inv u" "evicted ?t u"
        "px_evict n a ?t = (Inl PxUnlink, u) \<and> (\<exists>k. a k = Refused \<or> px_managed ?t \<and> a k = NotFound)
         \<or> px_evict n a ?t = (Inr (), u) \<and> length (px_entries u) < px_count u \<and> px_bytes u + n \<le> px_limit u"
        by auto
      with step evicted_trans [OF E(2)] show ?thesis by (intro exI [of _ u]) (auto simp: px_dropped_def)
    qed
  qed
qed

section \<open>Lookup and adoption\<close>

lemma px_touch_inv:
  assumes inv: "px_inv s" and k: "map_of (px_entries s) k = Some e"
  shows "px_inv (snd (px_touch k e s))"
proof (cases "px_clock s + 1 < u64_limit")
  case True
  note I = px_invD [OF inv]
  let ?c = "px_clock s + 1"
  let ?s = "s\<lparr>px_clock := ?c, px_entries := hm_adjust k (px_used_update (\<lambda>_. ?c)) (px_entries s)\<rparr>"
  have get: "map_of (px_entries ?s) j = (if j = k then Some (e\<lparr>px_used := ?c\<rparr>) else map_of (px_entries s) j)" for j
    using k by (simp add: hm_simps)
  have old: "px_used x < ?c" if "map_of (px_entries s) j = Some x" for j x using I(7) [OF that] by simp
  have total: "hm_total (\<lambda>e. rc_bytes (px_receipt e)) (px_entries ?s) = hm_total (\<lambda>e. rc_bytes (px_receipt e)) (px_entries s)"
    using hm_total_adjust [OF k I(1), of "\<lambda>e. rc_bytes (px_receipt e)" "px_used_update (\<lambda>_. ?c)"] by simp
  have len: "length (px_entries ?s) = length (px_entries s)" by (simp add: hm_adjust_def)
  have "px_inv ?s"
    unfolding px_inv_def get
  proof (intro conjI allI impI)
    fix j x j' x' assume a: "(if j = k then Some (e\<lparr>px_used := ?c\<rparr>) else map_of (px_entries s) j) = Some x"
      "(if j' = k then Some (e\<lparr>px_used := ?c\<rparr>) else map_of (px_entries s) j') = Some x'" "px_used x = px_used x'"
    then show "j = j'" using I(8) [of j x j' x'] old [of j x] old [of j' x'] by (auto split: if_splits)
  next
    fix j x assume "(if j = k then Some (e\<lparr>px_used := ?c\<rparr>) else map_of (px_entries s) j) = Some x"
    then show "px_used x \<le> px_clock ?s" using old [of j x] by (auto split: if_splits)
  next
    fix j n assume "\<not> px_managed ?s" "map_of (px_disk ?s) j = Some n"
    then show "\<exists>x. (if j = k then Some (e\<lparr>px_used := ?c\<rparr>) else map_of (px_entries s) j) = Some x \<and> rc_bytes (px_receipt x) = n"
      using I(10) [of j n] k by auto
  qed (use I(1,2,3,4,5,9) True total len in \<open>simp_all add: hm_simps\<close>)
  with True show ?thesis by (simp add: px_touch_def bindc_def checked_add_def)
next
  case False
  with inv show ?thesis by (simp add: px_touch_def bindc_def checked_add_def)
qed

lemma px_lookup_inv: "px_inv s \<Longrightarrow> px_inv (snd (px_lookup key observed s))"
  using px_touch_inv [of s] by (auto simp: px_lookup_def bindc_def split: option.splits)

definition px_entered :: "string \<Rightarrow> proxy_receipt \<Rightarrow> nat \<Rightarrow> prepared_world \<Rightarrow> prepared_world" where
  "px_entered key r source s = s\<lparr>px_disk := hm_insert key (rc_bytes r) (px_disk s), px_clock := px_clock s + 1,
     px_bytes := px_bytes s + rc_bytes r,
     px_entries := hm_insert key \<lparr>px_receipt = r, px_source = source, px_used = px_clock s + 1\<rparr> (px_entries s)\<rparr>"

lemma px_entered_inv:
  assumes inv: "px_inv s" and fresh: "map_of (px_entries s) key = None" and room: "length (px_entries s) < px_count s"
    "px_bytes s + rc_bytes r \<le> px_limit s" "px_clock s + 1 < u64_limit"
  shows "px_inv (px_entered key r source s)"
proof -
  note I = px_invD [OF inv]
  let ?e = "\<lparr>px_receipt = r, px_source = source, px_used = px_clock s + 1\<rparr>" and ?s = "px_entered key r source s"
  have absent: "key \<notin> hm_keys (px_entries s)" using fresh by (auto simp: hm_keys_iff)
  have get: "map_of (px_entries ?s) j = (if j = key then Some ?e else map_of (px_entries s) j)" for j
    by (simp add: px_entered_def hm_simps)
  have old: "px_used x < px_clock s + 1" if "map_of (px_entries s) j = Some x" for j x using I(7) [OF that] by simp
  have total: "px_bytes ?s = hm_total (\<lambda>e. rc_bytes (px_receipt e)) (px_entries ?s)"
    using hm_total_insert_fresh [OF absent, of "\<lambda>e. rc_bytes (px_receipt e)" ?e] I(2) by (simp add: px_entered_def)
  have len: "length (px_entries ?s) \<le> px_count ?s" using room(1) hm_insert_fresh [OF absent] by (simp add: px_entered_def)
  show ?thesis
    unfolding px_inv_def get
  proof (intro conjI allI impI)
    fix j x j' x' assume a: "(if j = key then Some ?e else map_of (px_entries s) j) = Some x"
      "(if j' = key then Some ?e else map_of (px_entries s) j') = Some x'" "px_used x = px_used x'"
    then show "j = j'" using I(8) [of j x j' x'] old [of j x] old [of j' x'] by (auto split: if_splits)
  next
    fix j x assume "(if j = key then Some ?e else map_of (px_entries s) j) = Some x"
    then show "px_used x \<le> px_clock ?s" using old [of j x] by (auto simp: px_entered_def split: if_splits)
  next
    fix j n assume "\<not> px_managed ?s" "map_of (px_disk ?s) j = Some n"
    then show "\<exists>x. (if j = key then Some ?e else map_of (px_entries s) j) = Some x \<and> rc_bytes (px_receipt x) = n"
      using I(10) [of j n] by (auto simp: px_entered_def hm_simps split: if_splits)
  qed (use I(1,4,9) room total len in \<open>simp_all add: px_entered_def hm_simps\<close>)
qed

text \<open>A refused managed adoption may leave a file; the entries are as before.\<close>

lemma px_disk_inv: "px_inv s \<Longrightarrow> px_managed s \<Longrightarrow> px_inv (s\<lparr>px_disk := d\<rparr>)"
  by (simp add: px_inv_def)

text \<open>The world an adoption evicts from: its key is replaced first.\<close>

definition px_replaced :: "string \<Rightarrow> prepared_world \<Rightarrow> prepared_world" where
  "px_replaced key s = (if map_of (px_entries s) key = None then s else px_dropped key s)"

definition px_obstructed :: "prepared_world \<Rightarrow> (string \<Rightarrow> unlink) \<Rightarrow> bool" where
  "px_obstructed s a \<longleftrightarrow> (\<exists>k. a k = Refused \<or> px_managed s \<and> a k = NotFound)"

lemma px_room_ok:
  assumes inv: "px_inv s" and n: "n \<le> px_limit s" "0 < px_count s"
  shows "\<exists>t. px_inv t \<and>
    (px_make_room key n a s = (Inl PxUnlink, t) \<and> px_obstructed s a
     \<or> px_make_room key n a s = (Inr (), t) \<and> length (px_entries t) < px_count t \<and> px_bytes t + n \<le> px_limit t
       \<and> evicted (px_replaced key s) t \<and> map_of (px_entries t) key = None)"
proof -
  have evict: "\<exists>t. px_inv t \<and>
      (px_evict n a u = (Inl PxUnlink, t) \<and> px_obstructed s a
       \<or> px_evict n a u = (Inr (), t) \<and> length (px_entries t) < px_count t \<and> px_bytes t + n \<le> px_limit t
         \<and> evicted u t \<and> map_of (px_entries t) key = None)"
    if u: "px_inv u" "n \<le> px_limit u" "0 < px_count u" "map_of (px_entries u) key = None" "px_managed u = px_managed s" for u
  proof -
    obtain t where t: "px_inv t" "evicted u t"
      "px_evict n a u = (Inl PxUnlink, t) \<and> (\<exists>k. a k = Refused \<or> px_managed u \<and> a k = NotFound)
       \<or> px_evict n a u = (Inr (), t) \<and> length (px_entries t) < px_count t \<and> px_bytes t + n \<le> px_limit t"
      using px_evict_run [OF u(1,2,3), of a] by blast
    moreover have "map_of (px_entries t) key = None"
      using t(2) u(4) unfolding evicted_def by (metis option.exhaust option.distinct(1))
    ultimately show ?thesis using u(5) by (auto simp: px_obstructed_def)
  qed
  show ?thesis
  proof (cases "map_of (px_entries s) key")
    case None
    with evict [OF inv n None refl] show ?thesis by (simp add: px_make_room_def bindc_def px_replaced_def)
  next
    case (Some e)
    note run = px_remove_run [OF inv Some, of a]
    show ?thesis
    proof (cases "a key = Refused \<or> px_managed s \<and> a key = NotFound")
      case True
      with run Some inv show ?thesis
        by (intro exI [of _ s]) (auto simp: px_make_room_def bindc_def px_obstructed_def)
    next
      case False
      let ?u = "px_dropped key s"
      have "px_inv ?u" "n \<le> px_limit ?u" "0 < px_count ?u" "map_of (px_entries ?u) key = None" "px_managed ?u = px_managed s"
        using px_dropped_inv(1) [OF inv Some] n by (simp_all add: px_dropped_def hm_simps)
      from evict [OF this] run False Some show ?thesis by (simp add: px_make_room_def bindc_def px_replaced_def)
    qed
  qed
qed

lemma px_adopt_eq:
  "px_adopt a r source s =
     (if px_count s = 0 \<or> rc_bytes r > px_limit s then (Inr (), s)
      else if \<not> px_managed s \<and> \<not> aa_verified a then (Inl PxVerify, s)
      else case aa_key a of None \<Rightarrow> (Inl PxIdentity, s)
        | Some key \<Rightarrow>
            bindc (px_make_room key (rc_bytes r) (aa_unlink a)) (\<lambda>_.
            bindc (getc (\<lambda>s. checked_add (px_clock s) 1)) (\<lambda>c.
            bindc (lift_option PxClockOverflow c) (\<lambda>c.
            bindc (px_link a key (rc_bytes r)) (\<lambda>_.
            px_charge key r source c)))) s)"
  by (simp add: px_adopt_def bindc_def split: option.split)

text \<open>How an adoption that is worth making can end.\<close>

definition px_fate :: "adopt_answers \<Rightarrow> proxy_receipt \<Rightarrow> nat \<Rightarrow> prepared_world \<Rightarrow> px_error + unit \<Rightarrow> prepared_world \<Rightarrow> bool" where
  "px_fate a r source s x t \<longleftrightarrow>
     px_inv t \<and>
     (case x of
        Inl e \<Rightarrow>
          e = PxVerify \<and> \<not> aa_verified a \<or> e = PxIdentity \<and> aa_key a = None \<or> e = PxUnlink \<and> px_obstructed s (aa_unlink a)
          \<or> e = PxClockOverflow \<and> u64_limit \<le> px_clock s + 1 \<or> e = PxStage \<and> \<not> aa_stage a \<and> px_managed s
          \<or> e \<in> {PxLink, PxPathMismatch} \<and> aa_link a \<noteq> Linked
      | Inr _ \<Rightarrow>
          \<exists>key u. aa_key a = Some key \<and> evicted (px_replaced key s) u \<and> map_of (px_entries u) key = None \<and> t = px_entered key r source u)"

lemma px_adopt_fate:
  assumes inv: "px_inv s" and n: "rc_bytes r \<le> px_limit s" "0 < px_count s"
  shows "px_fate a r source s (fst (px_adopt a r source s)) (snd (px_adopt a r source s))"
proof (cases "(px_managed s \<or> aa_verified a) \<and> aa_key a \<noteq> None")
  case False
  with inv n show ?thesis by (cases "aa_key a") (auto simp: px_adopt_eq px_fate_def)
next
  case True
  then obtain key where key: "aa_key a = Some key" "px_managed s \<or> aa_verified a" by auto
  obtain u where u: "px_inv u"
    "px_make_room key (rc_bytes r) (aa_unlink a) s = (Inl PxUnlink, u) \<and> px_obstructed s (aa_unlink a)
     \<or> px_make_room key (rc_bytes r) (aa_unlink a) s = (Inr (), u) \<and> length (px_entries u) < px_count u
       \<and> px_bytes u + rc_bytes r \<le> px_limit u \<and> evicted (px_replaced key s) u \<and> map_of (px_entries u) key = None"
    using px_room_ok [OF inv n, of key "aa_unlink a"] by blast
  have eq: "px_adopt a r source s =
            bindc (px_make_room key (rc_bytes r) (aa_unlink a)) (\<lambda>_.
            bindc (getc (\<lambda>s. checked_add (px_clock s) 1)) (\<lambda>c.
            bindc (lift_option PxClockOverflow c) (\<lambda>c.
            bindc (px_link a key (rc_bytes r)) (\<lambda>_.
            px_charge key r source c)))) s"
    using key n by (auto simp: px_adopt_eq)
  from u(2) show ?thesis
  proof (elim disjE conjE)
    assume "px_make_room key (rc_bytes r) (aa_unlink a) s = (Inl PxUnlink, u)" "px_obstructed s (aa_unlink a)"
    with u(1) eq show ?thesis by (simp add: bindc_def px_fate_def)
  next
    assume room: "px_make_room key (rc_bytes r) (aa_unlink a) s = (Inr (), u)" "length (px_entries u) < px_count u"
      "px_bytes u + rc_bytes r \<le> px_limit u" "evicted (px_replaced key s) u" "map_of (px_entries u) key = None"
    note I = px_invD [OF u(1)]
    have managed: "px_managed u = px_managed s" using room(4) by (auto simp: evicted_def px_replaced_def px_dropped_def)
    have clock: "px_clock u = px_clock s" using room(4) by (auto simp: evicted_def px_replaced_def px_dropped_def)
    have bytes: "px_bytes u + rc_bytes r < u64_limit" using room(3) I(4) by (simp add: u64_limit_def)
    have absent: "\<not> px_managed u \<Longrightarrow> map_of (px_disk u) key = None" using I(10) [of key] room(5) by (metis not_None_eq)
    have entered: "px_inv (px_entered key r source u)" if "px_clock u + 1 < u64_limit"
      by (rule px_entered_inv [OF u(1) room(5,2,3) that])
    show ?thesis
    proof (cases "px_clock u + 1 < u64_limit")
      case False
      with eq room(1) u(1) clock show ?thesis by (simp add: bindc_def checked_add_def px_fate_def)
    next
      case True
      note step = bindc_def checked_add_def px_link_def px_charge_def px_entered_def
      show ?thesis
      proof (cases "px_managed u")
        case m: True
        note disk = px_disk_inv [OF u(1) m]
        show ?thesis
          using eq room(1) True m bytes disk u(1) entered [OF True] key(1) room(4,5)
          by (cases "aa_link a"; cases "aa_stage a") (auto simp: step px_fate_def managed)
      next
        case m: False
        show ?thesis
          using eq room(1) True m bytes absent [OF m] u(1) entered [OF True] key(1) room(4,5)
          by (cases "aa_link a") (auto simp: step px_fate_def)
      qed
    qed
  qed
qed

lemma px_adopt_inv: "px_inv s \<Longrightarrow> px_inv (snd (px_adopt a r source s))"
  using px_adopt_fate [of s r a source] by (cases "px_count s = 0 \<or> rc_bytes r > px_limit s") (auto simp: px_fate_def px_adopt_eq)

lemma px_step_inv: "px_inv s \<Longrightarrow> px_step s t \<Longrightarrow> px_inv t"
  by (erule px_step.cases) (auto intro: px_lookup_inv px_adopt_inv)

lemma px_init_inv: "px_init s \<Longrightarrow> px_inv s"
  by (auto simp: px_init_def px_open_def px_open_managed_def intro: px_empty_inv split: if_splits)

interpretation prepared: inductive_invariant px_init px_step px_inv
  by unfold_locales (auto intro: px_init_inv px_step_inv)

section \<open>A run\<close>

definition ex_px_key :: "nat \<Rightarrow> string" where
  "ex_px_key n = (if n = 0 then ''a'' else if n = 1 then ''b'' else ''c'')"

definition ex_px_receipt :: "nat \<Rightarrow> proxy_receipt" where
  "ex_px_receipt n = \<lparr>rc_bytes = n, rc_blake3 = ''b'', rc_identity =
     \<lparr>pi_source_fingerprint = ''f'', pi_white_balance = AsShot, pi_renderer_identity = ''r'', pi_original_dimensions = (6, 4),
      pi_longest_edge = 1600, pi_width = 6, pi_height = 4\<rparr>\<rparr>"

definition ex_px_adopt :: "nat \<Rightarrow> adopt_answers" where
  "ex_px_adopt n = \<lparr>aa_verified = True, aa_key = Some (ex_px_key n), aa_unlink = (\<lambda>_. Unlinked), aa_stage = False, aa_link = Linked\<rparr>"

text \<open>Room for two files; the first is looked up before the third comes.\<close>

definition ex_px_start :: prepared_world where
  "ex_px_start = px_empty False 10 2"

definition ex_px_two :: prepared_world where
  "ex_px_two = snd (px_lookup (Some (ex_px_key 0)) (Some 5)
     (snd (px_adopt (ex_px_adopt 1) (ex_px_receipt 4) 6 (snd (px_adopt (ex_px_adopt 0) (ex_px_receipt 3) 5 ex_px_start)))))"

lemma ex_prepared_reachable: "reachable px_init px_step ex_px_start" "reachable px_init px_step ex_px_two"
proof -
  have "px_open 10 2 [] = Inr ex_px_start" by (simp add: px_open_def px_configured_def ex_px_start_def)
  then have "px_init ex_px_start" unfolding px_init_def by blast
  then show s: "reachable px_init px_step ex_px_start" by (rule reachable.start)
  show "reachable px_init px_step ex_px_two"
    unfolding ex_px_two_def
    by (rule reachable.move, rule reachable.move, rule reachable.move, rule s) (rule px_step.intros)+
qed

lemmas px_eval = px_adopt_def px_make_room_def px_evict.simps px_crowded_def px_remove_def px_unlink_def px_link_def px_charge_def
  px_lookup_def px_touch_def bindc_def checked_add_def checked_sub_def u64_limit_def hm_insert_def hm_remove_def hm_adjust_def

lemma ex_px_two_eq:
  "px_entries ex_px_two = [(''a'', \<lparr>px_receipt = ex_px_receipt 3, px_source = 5, px_used = 3\<rparr>),
     (''b'', \<lparr>px_receipt = ex_px_receipt 4, px_source = 6, px_used = 2\<rparr>)]"
  "px_clock ex_px_two = 3" "px_limit ex_px_two = 10" "px_count ex_px_two = 2" "px_managed ex_px_two = False"
  "px_disk ex_px_two = [(''a'', 3), (''b'', 4)]"
  by (simp_all add: ex_px_two_def ex_px_start_def px_empty_def ex_px_adopt_def ex_px_key_def ex_px_receipt_def px_eval)

section \<open>Properties\<close>

text \<open>
  C32: in every state the cache can reach, the recorded bytes are those of the entries and, like
  their number, within the configuration; without a worker every file in the directory is charged
  with its size, so the files stay within the allowance whatever unlinks fail; and no adoption
  meets a missing entry, an empty eviction or an arithmetic overflow.
\<close>

theorem prepared_disk_charged:
  assumes "reachable px_init px_step s"
  shows "px_bytes s = hm_total (\<lambda>e. rc_bytes (px_receipt e)) (px_entries s) \<and> px_bytes s \<le> px_limit s
    \<and> length (px_entries s) \<le> px_count s
    \<and> (px_managed s \<or> hm_total id (px_disk s) \<le> px_limit s \<and> hm_keys (px_disk s) \<subseteq> hm_keys (px_entries s))
    \<and> fst (px_adopt a r source s) \<notin> {Inl PxPanic, Inl PxEviction, Inl PxEntryMissing}"
proof -
  have inv: "px_inv s" by (rule prepared.reachable_inv [OF assms])
  note I = px_invD [OF inv]
  have disk: "hm_total id (px_disk s) \<le> px_limit s \<and> hm_keys (px_disk s) \<subseteq> hm_keys (px_entries s)" if m: "\<not> px_managed s"
  proof -
    let ?f = "\<lambda>k. rc_bytes (px_receipt (the (map_of (px_entries s) k)))"
    have sub: "hm_keys (px_disk s) \<subseteq> hm_keys (px_entries s)"
      and size: "\<And>k. k \<in> hm_keys (px_disk s) \<Longrightarrow> id (the (map_of (px_disk s) k)) = ?f k"
      using I(10) [OF m] by (fastforce simp: hm_keys_iff)+
    have "hm_total id (px_disk s) = (\<Sum>k\<in>hm_keys (px_disk s). ?f k)"
      unfolding hm_total_sum [OF I(9) [OF m]] by (rule sum.cong [OF refl size])
    also have "\<dots> \<le> (\<Sum>k\<in>hm_keys (px_entries s). ?f k)"
      by (rule sum_mono2 [OF _ sub]) (simp_all add: hm_keys_def)
    also have "\<dots> = px_bytes s" unfolding I(2) hm_total_sum [OF I(1)] ..
    finally show ?thesis using sub I(3) by simp
  qed
  have "fst (px_adopt a r source s) \<notin> {Inl PxPanic, Inl PxEviction, Inl PxEntryMissing}"
  proof (cases "px_count s = 0 \<or> rc_bytes r > px_limit s")
    case False
    then show ?thesis using px_adopt_fate [OF inv, of r a source] by (auto simp: px_fate_def)
  qed (auto simp: px_adopt_eq)
  with I(2,3,5) disk show ?thesis by blast
qed

theorem prepared_disk_charged_witness:
  "hm_total id (px_disk ex_px_two) \<le> 10 \<and> hm_total id (px_disk ex_px_two) = 7"
  using prepared_disk_charged [OF ex_prepared_reachable(2)] by (simp add: ex_px_two_eq hm_total_def)

text \<open>
  C36: an adoption that the file system and the worker permit succeeds whenever the file fits the
  configuration: its entry stands under its key as the most recent one, the entries that stay are
  unchanged, and every entry evicted for it was used before every entry that stays.
\<close>

theorem adoption_evicts_oldest:
  assumes "reachable px_init px_step s" "rc_bytes r \<le> px_limit s" "0 < px_count s" "px_clock s + 1 < u64_limit"
    "aa_verified a" "aa_stage a \<or> \<not> px_managed s" "aa_link a = Linked" "aa_key a = Some key" "range (aa_unlink a) \<subseteq> {Unlinked}"
  shows "\<exists>t. px_adopt a r source s = (Inr (), t)
    \<and> map_of (px_entries t) key = Some \<lparr>px_receipt = r, px_source = source, px_used = px_clock s + 1\<rparr>
    \<and> (\<forall>k e. k \<noteq> key \<and> map_of (px_entries t) k = Some e \<longrightarrow> map_of (px_entries s) k = Some e)
    \<and> (\<forall>k e k' e'. k \<noteq> key \<and> k' \<noteq> key \<and> map_of (px_entries s) k = Some e \<and> map_of (px_entries t) k = None
         \<and> map_of (px_entries t) k' = Some e' \<longrightarrow> px_used e < px_used e')"
proof -
  have inv: "px_inv s" by (rule prepared.reachable_inv [OF assms(1)])
  obtain x t where run: "px_adopt a r source s = (x, t)" by (rule prod.exhaust)
  have "aa_unlink a k = Unlinked" for k using assms(9) by blast
  then have free: "\<not> px_obstructed s (aa_unlink a)" by (simp add: px_obstructed_def)
  have fate: "px_fate a r source s x t" using px_adopt_fate [OF inv assms(2,3), of a source] run by simp
  then have ok: "x = Inr ()"
    using assms(4-8) free by (cases x) (auto simp: px_fate_def)
  then obtain u where u: "evicted (px_replaced key s) u" "map_of (px_entries u) key = None" "t = px_entered key r source u"
    using fate assms(8) by (auto simp: px_fate_def)
  have clock: "px_clock u = px_clock s" using u(1) by (auto simp: evicted_def px_replaced_def px_dropped_def)
  have before: "map_of (px_entries (px_replaced key s)) k = map_of (px_entries s) k" if "k \<noteq> key" for k
    using that by (simp add: px_replaced_def px_dropped_def hm_simps)
  have after: "map_of (px_entries t) k = (if k = key then Some \<lparr>px_receipt = r, px_source = source, px_used = px_clock s + 1\<rparr>
      else map_of (px_entries u) k)" for k
    using u(3) clock by (simp add: px_entered_def hm_simps)
  show ?thesis
  proof (intro exI [of _ t] conjI allI impI)
    show "px_adopt a r source s = (Inr (), t)" using run ok by simp
    show "map_of (px_entries t) key = Some \<lparr>px_receipt = r, px_source = source, px_used = px_clock s + 1\<rparr>" by (simp add: after)
  next
    fix k e assume "k \<noteq> key \<and> map_of (px_entries t) k = Some e"
    then have k: "k \<noteq> key" and "map_of (px_entries t) k = Some e" by blast+
    then have "map_of (px_entries u) k = Some e" using after [of k] by simp
    with u(1) have "map_of (px_entries (px_replaced key s)) k = Some e" unfolding evicted_def by blast
    with before [OF k] show "map_of (px_entries s) k = Some e" by simp
  next
    fix k e k' e'
    assume "k \<noteq> key \<and> k' \<noteq> key \<and> map_of (px_entries s) k = Some e \<and> map_of (px_entries t) k = None \<and> map_of (px_entries t) k' = Some e'"
    then have k: "k \<noteq> key" "k' \<noteq> key" and "map_of (px_entries s) k = Some e"
      "map_of (px_entries t) k = None" "map_of (px_entries t) k' = Some e'" by blast+
    then have "map_of (px_entries (px_replaced key s)) k = Some e" "map_of (px_entries u) k = None" "map_of (px_entries u) k' = Some e'"
      using before [OF k(1)] after [of k] after [of k'] by simp_all
    with u(1) show "px_used e < px_used e'" unfolding evicted_def by blast
  qed
qed

text \<open>The third file takes the place of the second, which was used least recently.\<close>

theorem adoption_evicts_oldest_witness:
  "\<exists>t. px_adopt (ex_px_adopt 2) (ex_px_receipt 5) 7 ex_px_two = (Inr (), t)
     \<and> map_of (px_entries t) ''c'' = Some \<lparr>px_receipt = ex_px_receipt 5, px_source = 7, px_used = 4\<rparr>"
proof -
  have "rc_bytes (ex_px_receipt 5) \<le> px_limit ex_px_two" "0 < px_count ex_px_two" "px_clock ex_px_two + 1 < u64_limit"
    "aa_verified (ex_px_adopt 2)" "aa_stage (ex_px_adopt 2) \<or> \<not> px_managed ex_px_two" "aa_link (ex_px_adopt 2) = Linked"
    "aa_key (ex_px_adopt 2) = Some ''c''" "range (aa_unlink (ex_px_adopt 2)) \<subseteq> {Unlinked}"
    by (auto simp: ex_px_two_eq ex_px_receipt_def ex_px_adopt_def ex_px_key_def u64_limit_def)
  from adoption_evicts_oldest [OF ex_prepared_reachable(2) this, of 7] show ?thesis by (auto simp: ex_px_two_eq)
qed

end
