(* ===== verification/RDF_Order.thy ===== *)
theory RDF_Order
  imports PC_Prelude "HOL-Library.List_Lexorder" "HOL-Library.Char_ord"
begin

text \<open>
  The values of an RDF model (\<open>xmp_rdf.rs\<close>, \<open>Value\<close>) with the order that the source derives for
  them, and ordered maps as the sorted lists of their entries.
\<close>

section \<open>Values\<close>

type_synonym rdf_name = "string \<times> string"

datatype rdf_value =
    Literal string
  | Uri string
  | Struct "(rdf_name \<times> rdf_value) list"
  | Array string "rdf_value list"
  | Qualified rdf_value "(rdf_name \<times> rdf_value) list"

type_synonym properties = "(rdf_name \<times> rdf_value) list"

section \<open>The derived order\<close>

datatype ordering = Less | Equal | Greater

definition ord_cmp :: "'a::linorder \<Rightarrow> 'a \<Rightarrow> ordering" where
  "ord_cmp a b = (if a < b then Less else if a = b then Equal else Greater)"

definition then_cmp :: "ordering \<Rightarrow> ordering \<Rightarrow> ordering" where
  "then_cmp a b = (if a = Equal then b else a)"

fun list_cmp :: "('a \<Rightarrow> 'a \<Rightarrow> ordering) \<Rightarrow> 'a list \<Rightarrow> 'a list \<Rightarrow> ordering" where
  "list_cmp c [] [] = Equal"
| "list_cmp c [] (y # ys) = Less"
| "list_cmp c (x # xs) [] = Greater"
| "list_cmp c (x # xs) (y # ys) = then_cmp (c x y) (list_cmp c xs ys)"

definition entry_cmp :: "('v \<Rightarrow> 'v \<Rightarrow> ordering) \<Rightarrow> 'k::linorder \<times> 'v \<Rightarrow> 'k \<times> 'v \<Rightarrow> ordering" where
  "entry_cmp c p q = then_cmp (ord_cmp (fst p) (fst q)) (c (snd p) (snd q))"

lemma list_cmp_cong [fundef_cong]:
  assumes "xs = xs'" "ys = ys'" "\<And>x y. x \<in> set xs' \<Longrightarrow> y \<in> set ys' \<Longrightarrow> c x y = d x y"
  shows "list_cmp c xs ys = list_cmp d xs' ys'"
  using assms(3) unfolding assms(1,2) by (induction c xs' ys' rule: list_cmp.induct) simp_all

lemma entry_cmp_cong [fundef_cong]:
  "p = p' \<Longrightarrow> q = q' \<Longrightarrow> c (snd p') (snd q') = d (snd p') (snd q') \<Longrightarrow> entry_cmp c p q = entry_cmp d p' q'"
  by (simp add: entry_cmp_def)

definition variant :: "rdf_value \<Rightarrow> nat" where
  "variant v = (case v of Literal a \<Rightarrow> 0 | Uri a \<Rightarrow> 1 | Struct ps \<Rightarrow> 2 | Array f vs \<Rightarrow> 3 | Qualified v qs \<Rightarrow> 4)"

text \<open>The order of the variants, then of their fields.\<close>

fun value_cmp :: "rdf_value \<Rightarrow> rdf_value \<Rightarrow> ordering" where
  "value_cmp (Literal a) (Literal b) = ord_cmp a b"
| "value_cmp (Uri a) (Uri b) = ord_cmp a b"
| "value_cmp (Struct ps) (Struct qs) = list_cmp (entry_cmp value_cmp) ps qs"
| "value_cmp (Array f vs) (Array g ws) = then_cmp (ord_cmp f g) (list_cmp value_cmp vs ws)"
| "value_cmp (Qualified v ps) (Qualified w qs) = then_cmp (value_cmp v w) (list_cmp (entry_cmp value_cmp) ps qs)"
| "value_cmp v w = ord_cmp (variant v) (variant w)"

text \<open>What makes a comparison a linear order, at one point, so that it can be shown by induction.\<close>

definition flip :: "ordering \<Rightarrow> ordering" where
  "flip x = (case x of Less \<Rightarrow> Greater | Equal \<Rightarrow> Equal | Greater \<Rightarrow> Less)"

definition lawful :: "('a \<Rightarrow> 'a \<Rightarrow> ordering) \<Rightarrow> 'a \<Rightarrow> bool" where
  "lawful c x \<longleftrightarrow>
     (\<forall>y. (c x y = Equal \<longleftrightarrow> x = y) \<and> c y x = flip (c x y))
     \<and> (\<forall>y z. c x y = Less \<longrightarrow> c y z \<noteq> Greater \<longrightarrow> c x z = Less)"

lemma lawfulD:
  assumes "lawful c x"
  shows "c x y = Equal \<longleftrightarrow> x = y" "c y x = flip (c x y)" "c x y = Less \<Longrightarrow> c y z \<noteq> Greater \<Longrightarrow> c x z = Less"
  using assms unfolding lawful_def by blast+

lemma flip_simps [simp]: "flip Less = Greater" "flip Equal = Equal" "flip Greater = Less"
  by (simp_all add: flip_def)

lemma flip_then: "flip (then_cmp a b) = then_cmp (flip a) (flip b)"
  by (cases a) (simp_all add: then_cmp_def)

lemma then_eq [simp]: "then_cmp a b = Equal \<longleftrightarrow> a = Equal \<and> b = Equal"
  by (simp add: then_cmp_def)

lemma lawful_ord: "lawful ord_cmp x"
  by (auto simp: lawful_def ord_cmp_def split: if_splits)

lemma lawful_then:
  assumes f: "lawful c (f x)" and g: "lawful d (g x)" and inj: "\<And>y. f x = f y \<Longrightarrow> g x = g y \<Longrightarrow> x = y"
  shows "lawful (\<lambda>x y. then_cmp (c (f x) (f y)) (d (g x) (g y))) x"
proof -
  have "then_cmp (c (f x) (f z)) (d (g x) (g z)) = Less"
    if less: "then_cmp (c (f x) (f y)) (d (g x) (g y)) = Less" and le: "then_cmp (c (f y) (f z)) (d (g y) (g z)) \<noteq> Greater" for y z
  proof (cases "c (f x) (f y) = Equal")
    case True
    then have xy: "f x = f y" using lawfulD(1) [OF f] by blast
    from less True have "d (g x) (g y) = Less" by (simp add: then_cmp_def)
    with le xy lawfulD(3) [OF g, of "g y" "g z"] show ?thesis by (cases "c (f y) (f z)") (simp_all add: then_cmp_def)
  next
    case False
    with less have "c (f x) (f y) = Less" by (simp add: then_cmp_def)
    moreover have "c (f y) (f z) \<noteq> Greater" using le by (auto simp: then_cmp_def split: if_splits)
    ultimately have "c (f x) (f z) = Less" by (rule lawfulD(3) [OF f])
    then show ?thesis by (simp add: then_cmp_def)
  qed
  moreover have "then_cmp (c (f x) (f y)) (d (g x) (g y)) = Equal \<longleftrightarrow> x = y" for y
    using lawfulD(1) [OF f] lawfulD(1) [OF g] inj by auto
  moreover have "then_cmp (c (f y) (f x)) (d (g y) (g x)) = flip (then_cmp (c (f x) (f y)) (d (g x) (g y)))" for y
    using lawfulD(2) [OF f, of "f y"] lawfulD(2) [OF g, of "g y"] by (simp add: flip_then)
  ultimately show ?thesis unfolding lawful_def by blast
qed

lemma lawful_entry: "lawful c (snd p) \<Longrightarrow> lawful (entry_cmp c) p"
  unfolding entry_cmp_def by (rule lawful_then [OF lawful_ord, where f = fst]) (simp_all add: prod_eq_iff)

lemma list_cmp_eq: "\<forall>x \<in> set xs. lawful c x \<Longrightarrow> list_cmp c xs ys = Equal \<longleftrightarrow> xs = ys"
  by (induction c xs ys rule: list_cmp.induct) (simp_all add: lawfulD(1))

lemma list_cmp_flip: "\<forall>x \<in> set xs. lawful c x \<Longrightarrow> list_cmp c ys xs = flip (list_cmp c xs ys)"
proof (induction c xs ys rule: list_cmp.induct)
  case (4 c x xs y ys)
  then show ?case using lawfulD(2) [of c x y] by (simp add: flip_then)
qed simp_all

lemma list_cmp_trans:
  assumes "\<forall>x \<in> set xs. lawful c x" "list_cmp c xs ys = Less" "list_cmp c ys zs \<noteq> Greater"
  shows "list_cmp c xs zs = Less"
  using assms
proof (induction xs arbitrary: ys zs)
  case Nil
  then obtain y ys' where "ys = y # ys'" by (cases ys) simp_all
  with Nil(3) show ?case by (cases zs) simp_all
next
  case (Cons x xs)
  note law = lawfulD [OF bspec [OF Cons.prems(1), of x, simplified]]
  from Cons.prems(2) obtain y ys' where y: "ys = y # ys'" by (cases ys) simp_all
  from Cons.prems(3) y obtain z zs' where z: "zs = z # zs'" by (cases zs) simp_all
  show ?case
  proof (cases "c x y = Equal")
    case True
    then have "x = y" using law(1) by blast
    with Cons.prems y z True Cons.IH [of ys' zs'] show ?thesis by (cases "c y z") (simp_all add: then_cmp_def)
  next
    case False
    with Cons.prems(2) y have "c x y = Less" by (simp add: then_cmp_def)
    moreover have "c y z \<noteq> Greater" using Cons.prems(3) y z by (auto simp: then_cmp_def split: if_splits)
    ultimately have "c x z = Less" by (rule law(3))
    with z show ?thesis by (simp add: then_cmp_def)
  qed
qed

lemma lawful_list:
  assumes "\<forall>x \<in> set xs. lawful c x"
  shows "lawful (list_cmp c) xs"
  unfolding lawful_def [of "list_cmp c"]
  by (intro conjI allI impI list_cmp_eq [OF assms] list_cmp_flip [OF assms]) (rule list_cmp_trans [OF assms])

text \<open>A variant with lawful fields.\<close>

lemma lawful_variant:
  assumes law: "lawful d x" and same: "\<And>y. variant y = variant v \<longleftrightarrow> (\<exists>b. y = C b)" and v: "v = C x"
    and inside: "\<And>a b. value_cmp (C a) (C b) = d a b" and inj: "\<And>a b. C a = C b \<Longrightarrow> a = b"
    and outside: "\<And>y z. variant y \<noteq> variant z \<Longrightarrow> value_cmp y z = ord_cmp (variant y) (variant z)"
  shows "lawful value_cmp v"
proof -
  have "(value_cmp v y = Equal \<longleftrightarrow> v = y) \<and> value_cmp y v = flip (value_cmp v y)" for y
  proof (cases "variant y = variant v")
    case True
    then obtain b where "y = C b" using same by blast
    with v inside lawfulD(1,2) [OF law, of b] inj show ?thesis by auto
  next
    case False
    then show ?thesis using outside [of y v] outside [of v y] by (auto simp: ord_cmp_def)
  qed
  moreover have "value_cmp v z = Less" if less: "value_cmp v y = Less" and le: "value_cmp y z \<noteq> Greater" for y z
  proof (cases "variant y = variant v")
    case y: True
    then obtain b where b: "y = C b" using same by blast
    show ?thesis
    proof (cases "variant z = variant v")
      case True
      then obtain e where "z = C e" using same by blast
      with less le b v inside lawfulD(3) [OF law, of b e] show ?thesis by simp
    next
      case False
      with y outside [of y z] outside [of v z] le show ?thesis by (auto simp: ord_cmp_def split: if_splits)
    qed
  next
    case y: False
    with less outside [of v y] have "variant v < variant y" by (auto simp: ord_cmp_def split: if_splits)
    moreover have "variant y \<le> variant z"
      using le outside [of y z] by (cases "variant y = variant z") (auto simp: ord_cmp_def split: if_splits)
    ultimately show ?thesis using outside [of v z] by (simp add: ord_cmp_def)
  qed
  ultimately show ?thesis unfolding lawful_def by blast
qed

lemma value_cmp_outside: "variant y \<noteq> variant z \<Longrightarrow> value_cmp y z = ord_cmp (variant y) (variant z)"
  by (cases y; cases z) (simp_all add: variant_def)

lemma value_cmp_lawful: "lawful value_cmp v"
proof (induction v)
  case (Literal a)
  show ?case
    by (rule lawful_variant [where C = Literal, OF lawful_ord]) (auto simp: variant_def value_cmp_outside split: rdf_value.splits)
next
  case (Uri a)
  show ?case
    by (rule lawful_variant [where C = Uri, OF lawful_ord]) (auto simp: variant_def value_cmp_outside split: rdf_value.splits)
next
  case (Struct ps)
  have "\<forall>p \<in> set ps. lawful (entry_cmp value_cmp) p"
    using Struct by (auto intro!: lawful_entry simp: snds.simps)
  then show ?case
    by (intro lawful_variant [where C = Struct, OF lawful_list]) (auto simp: variant_def value_cmp_outside split: rdf_value.splits)
next
  case (Array f vs)
  have "lawful (\<lambda>p q. then_cmp (ord_cmp (fst p) (fst q)) (list_cmp value_cmp (snd p) (snd q))) (f, vs)"
    using Array by (intro lawful_then [OF lawful_ord, where f = fst] lawful_list) (simp_all add: prod_eq_iff)
  then show ?case
    by (rule lawful_variant [where C = "\<lambda>p. Array (fst p) (snd p)"])
      (auto simp: variant_def value_cmp_outside split: rdf_value.splits)
next
  case (Qualified v qs)
  have "\<forall>p \<in> set qs. lawful (entry_cmp value_cmp) p"
    using Qualified(2) by (auto intro!: lawful_entry simp: snds.simps)
  then have "lawful (\<lambda>p q. then_cmp (value_cmp (fst p) (fst q)) (list_cmp (entry_cmp value_cmp) (snd p) (snd q))) (v, qs)"
    using Qualified(1) by (intro lawful_then [where f = fst] lawful_list) (simp_all add: prod_eq_iff)
  then show ?case
    by (rule lawful_variant [where C = "\<lambda>p. Qualified (fst p) (snd p)"])
      (auto simp: variant_def value_cmp_outside split: rdf_value.splits)
qed

instantiation rdf_value :: linorder
begin

definition less_eq_rdf_value :: "rdf_value \<Rightarrow> rdf_value \<Rightarrow> bool" where
  "v \<le> w \<longleftrightarrow> value_cmp v w \<noteq> Greater"

definition less_rdf_value :: "rdf_value \<Rightarrow> rdf_value \<Rightarrow> bool" where
  "v < w \<longleftrightarrow> value_cmp v w = Less"

instance
proof
  fix u v w :: rdf_value
  note law = lawfulD [OF value_cmp_lawful]
  show "u < v \<longleftrightarrow> u \<le> v \<and> \<not> v \<le> u"
    using law(2) [where x = u and y = v] by (cases "value_cmp u v") (simp_all add: less_eq_rdf_value_def less_rdf_value_def)
  show "u \<le> u" using law(1) [where x = u and y = u] by (simp add: less_eq_rdf_value_def)
  show "u \<le> w" if "u \<le> v" "v \<le> w"
    using that law(1) [where x = u and y = v] law(3) [where x = u and y = v and z = w]
    by (cases "value_cmp u v") (auto simp: less_eq_rdf_value_def)
  show "u = v" if "u \<le> v" "v \<le> u"
    using that law(1) [where x = u and y = v] law(2) [where x = u and y = v]
    by (cases "value_cmp u v") (simp_all add: less_eq_rdf_value_def)
  show "u \<le> v \<or> v \<le> u"
    using law(2) [where x = u and y = v] by (cases "value_cmp u v") (simp_all add: less_eq_rdf_value_def)
qed

end

section \<open>Ordered maps\<close>

definition bt_wf :: "('k::linorder \<times> 'v) list \<Rightarrow> bool" where
  "bt_wf m \<longleftrightarrow> sorted_wrt (<) (map fst m)"

fun bt_insert :: "'k::linorder \<Rightarrow> 'v \<Rightarrow> ('k \<times> 'v) list \<Rightarrow> ('k \<times> 'v) list" where
  "bt_insert k v [] = [(k, v)]"
| "bt_insert k v ((l, w) # m) =
     (if k < l then (k, v) # (l, w) # m else if k = l then (k, v) # m else (l, w) # bt_insert k v m)"

definition bt_remove :: "'k \<Rightarrow> ('k \<times> 'v) list \<Rightarrow> ('k \<times> 'v) list" where
  "bt_remove k m = filter (\<lambda>p. fst p \<noteq> k) m"

lemma bt_wf_Nil [simp]: "bt_wf []"
  by (simp add: bt_wf_def)

lemma bt_wf_Cons: "bt_wf (p # m) \<longleftrightarrow> (\<forall>q \<in> set m. fst p < fst q) \<and> bt_wf m"
  by (simp add: bt_wf_def)

lemma set_bt_insert: "k \<notin> fst ` set m \<Longrightarrow> set (bt_insert k v m) = insert (k, v) (set m)"
  by (induction k v m rule: bt_insert.induct) (auto split: if_splits)

lemma keys_bt_insert: "fst ` set (bt_insert k v m) = insert k (fst ` set m)"
  by (induction k v m rule: bt_insert.induct) auto

lemma bt_wf_insert: "bt_wf m \<Longrightarrow> bt_wf (bt_insert k v m)"
proof (induction k v m rule: bt_insert.induct)
  case (2 k v l w m)
  have "\<forall>q \<in> set (bt_insert k v m). l < fst q" if "l < k" "\<forall>q \<in> set m. l < fst q"
    using that keys_bt_insert [of k v m] by (metis (no_types, lifting) imageE image_eqI insert_iff)
  with 2 show ?case by (fastforce simp: bt_wf_Cons)
qed (simp add: bt_wf_def)

lemma bt_wf_remove: "bt_wf m \<Longrightarrow> bt_wf (bt_remove k m)"
  by (induction m) (simp_all add: bt_remove_def bt_wf_Cons)

lemma bt_wf_distinct: "bt_wf m \<Longrightarrow> distinct (map fst m)"
  by (simp add: bt_wf_def strict_sorted_iff)

lemma map_of_bt_insert: "map_of (bt_insert k v m) = (map_of m)(k \<mapsto> v)"
  by (induction k v m rule: bt_insert.induct) auto

text \<open>A sorted list is determined by its entries.\<close>

lemma bt_eqI:
  assumes "bt_wf m" "bt_wf n" "set m = set n"
  shows "m = n"
  using assms
proof (induction m arbitrary: n)
  case (Cons p m)
  then obtain q n' where n: "n = q # n'" by (cases n) auto
  have pq: "p = q"
  proof (rule ccontr)
    assume "p \<noteq> q"
    moreover have "p \<in> set (q # n')" "q \<in> set (p # m)" using Cons.prems(3) n by (metis list.set_intros(1))+
    ultimately have "p \<in> set n'" "q \<in> set m" by simp_all
    with Cons.prems(1,2) n have "fst q < fst p" "fst p < fst q" by (simp_all add: bt_wf_Cons)
    then show False by simp
  qed
  have "p \<notin> set m" "p \<notin> set n'" using Cons.prems(1,2) n pq by (auto simp: bt_wf_Cons)
  with Cons.prems(3) n pq have "set m = set n'" by (metis insert_ident list.simps(15))
  with Cons.IH [of n'] Cons.prems(1,2) n pq show ?case by (simp add: bt_wf_Cons)
qed simp

lemma bt_insert_last: "\<forall>q \<in> set m. fst q < k \<Longrightarrow> bt_insert k v m = m @ [(k, v)]"
  by (induction m) auto

end
