(* ===== verification/RDF_Compare.thy ===== *)
theory RDF_Compare
  imports RDF_Order
begin

text \<open>
  The independent comparison of an XMP packet with its serialization (\<open>xmp_rdf.rs\<close>): the reading
  of an XML tree as an RDF model, the comparison of two models, and the account of the storage
  they need (\<open>lightroom_migration_worker/memory/requested.rs\<close>). The XML parser is a function of
  the environment; its result is the tree that the methods of a \<open>roxmltree\<close> node present.
\<close>

section \<open>The tree\<close>

record xml_attr =
  at_ns :: "string option"
  at_name :: string
  at_value :: string

text \<open>A child that is neither an element nor text is a comment or a processing instruction.\<close>

datatype xnode =
    Element (el_ns: "string option") (el_name: string) (el_attrs: "xml_attr list") (el_children: "xnode list")
  | TextNode string
  | OtherNode
where
  "el_ns (TextNode s) = None" | "el_name (TextNode s) = []" | "el_attrs (TextNode s) = []" | "el_children (TextNode s) = []"
| "el_ns OtherNode = None" | "el_name OtherNode = []" | "el_attrs OtherNode = []" | "el_children OtherNode = []"

definition is_element :: "xnode \<Rightarrow> bool" where
  "is_element n = (case n of Element a b c d \<Rightarrow> True | _ \<Rightarrow> False)"

definition RDF :: string where
  "RDF = ''http://www.w3.org/1999/02/22-rdf-syntax-ns#''"

definition XML :: string where
  "XML = ''http://www.w3.org/XML/1998/namespace''"

definition MAX_BYTES :: nat where
  "MAX_BYTES = 16 * 1024 * 1024"

definition child_elements :: "xnode \<Rightarrow> xnode list" where
  "child_elements n = filter is_element (el_children n)"

definition child_texts :: "xnode \<Rightarrow> string list" where
  "child_texts n = concat (map (\<lambda>c. case c of TextNode s \<Rightarrow> [s] | _ \<Rightarrow> []) (el_children n))"

definition has_tag :: "string \<Rightarrow> string \<Rightarrow> xnode \<Rightarrow> bool" where
  "has_tag ns t n \<longleftrightarrow> is_element n \<and> el_ns n = Some ns \<and> el_name n = t"

definition attribute :: "string \<Rightarrow> string \<Rightarrow> xnode \<Rightarrow> string option" where
  "attribute ns t n = map_option at_value (find (\<lambda>a. at_ns a = Some ns \<and> at_name a = t) (el_attrs n))"

section \<open>Reading a value\<close>

datatype rdf_error =
    Refusal string
  | NotAdmitted
  | StorageOverflow
  | ScopeImbalance

definition guard :: "bool \<Rightarrow> string \<Rightarrow> rdf_error + unit" where
  "guard b message = (if b then Inr () else Inl (Refusal message))"

lemma guard_simps [simp]: "guard True m = Inr ()" "guard False m = Inl (Refusal m)"
  by (simp_all add: guard_def)

lemma guard_Inr_iff [simp]: "guard b m = Inr u \<longleftrightarrow> b"
  by (simp add: guard_def)

lemma tryr_cong [fundef_cong]: "r = r' \<Longrightarrow> (\<And>x. r' = Inr x \<Longrightarrow> f x = g x) \<Longrightarrow> tryr r f = tryr r' g"
  by (cases r') simp_all

definition rdf_name :: "string option \<Rightarrow> string \<Rightarrow> rdf_error + rdf_name" where
  "rdf_name namespace local =
     (case namespace of None \<Rightarrow> Inl (Refusal ''RDF names require a namespace'') | Some ns \<Rightarrow> Inr (ns, local))"

definition rdf_insert :: "properties \<Rightarrow> rdf_name \<Rightarrow> rdf_value \<Rightarrow> rdf_error + properties" where
  "rdf_insert m k v = tryr (guard (map_of m k = None) ''duplicate RDF property or qualifier'') (\<lambda>_. Inr (bt_insert k v m))"

text \<open>A loop over entries that inserts each.\<close>

fun insert_all :: "properties \<Rightarrow> properties \<Rightarrow> rdf_error + properties" where
  "insert_all [] m = Inr m"
| "insert_all ((k, v) # ps) m = tryr (rdf_insert m k v) (insert_all ps)"

definition is_space :: "char \<Rightarrow> bool" where
  "is_space c \<longleftrightarrow> c \<in> {CHR '' '', CHR 0x09, CHR 0x0D, CHR 0x0A}"

definition elements :: "xnode \<Rightarrow> rdf_error + xnode list" where
  "elements n =
     tryr (guard (list_all (list_all is_space) (child_texts n)) ''mixed RDF text and element content'') (\<lambda>_. Inr (child_elements n))"

definition qualified_value :: "rdf_value \<Rightarrow> properties \<Rightarrow> rdf_error + rdf_value" where
  "qualified_value v qualifiers =
     tryr (case v of
             Qualified inner prior \<Rightarrow> tryr (insert_all prior qualifiers) (\<lambda>qs. Inr (inner, qs))
           | _ \<Rightarrow> Inr (v, qualifiers)) (\<lambda>(v, qs).
     Inr (if qs = [] then v else Qualified v qs))"

text \<open>The attributes of a property element.\<close>

record property_attrs =
  pa_fields :: properties
  pa_language :: properties
  pa_resource :: "string option"
  pa_scalar :: "string option"
  pa_structure :: bool

definition ascii_lower :: "char \<Rightarrow> char" where
  "ascii_lower c = (let n = of_char c :: nat in if 65 \<le> n \<and> n \<le> 90 then char_of (n + 32) else c)"

definition property_attr :: "xml_attr \<Rightarrow> property_attrs \<Rightarrow> rdf_error + property_attrs" where
  "property_attr a p =
     (if at_ns a = Some RDF \<and> at_name a = ''parseType'' then
        tryr (guard (at_value a = ''Resource'') ''unsupported RDF parseType'') (\<lambda>_. Inr (p\<lparr>pa_structure := True\<rparr>))
      else if at_ns a = Some RDF \<and> at_name a = ''resource'' then Inr (p\<lparr>pa_resource := Some (at_value a)\<rparr>)
      else if at_ns a = Some RDF \<and> at_name a = ''value'' then Inr (p\<lparr>pa_scalar := Some (at_value a)\<rparr>)
      else if at_ns a = Some XML \<and> at_name a = ''lang'' then
        tryr (rdf_insert (pa_language p) (XML, ''lang'') (Literal (map ascii_lower (at_value a)))) (\<lambda>m. Inr (p\<lparr>pa_language := m\<rparr>))
      else if at_ns a = Some RDF \<or> at_ns a = Some XML then Inl (Refusal ''unsupported RDF property attribute'')
      else
        tryr (rdf_name (at_ns a) (at_name a)) (\<lambda>k.
        tryr (rdf_insert (pa_fields p) k (Literal (at_value a))) (\<lambda>m. Inr (p\<lparr>pa_fields := m\<rparr>))))"

fun property_attrs_from :: "xml_attr list \<Rightarrow> property_attrs \<Rightarrow> rdf_error + property_attrs" where
  "property_attrs_from [] p = Inr p"
| "property_attrs_from (a # as) p = tryr (property_attr a p) (property_attrs_from as)"

definition property_attrs :: "xnode \<Rightarrow> rdf_error + property_attrs" where
  "property_attrs n = property_attrs_from (el_attrs n)
     \<lparr>pa_fields = [], pa_language = [], pa_resource = None, pa_scalar = None, pa_structure = False\<rparr>"

text \<open>A property with \<open>rdf:resource\<close> or \<open>rdf:value\<close> as an attribute.\<close>

definition leaf_property :: "xnode \<Rightarrow> property_attrs \<Rightarrow> rdf_error + rdf_value" where
  "leaf_property n p =
     tryr (guard (child_elements n = [] \<and> \<not> pa_structure p \<and> list_all (\<lambda>t. t = []) (child_texts n))
       ''content on RDF resource/value property'') (\<lambda>_.
     tryr (insert_all (pa_language p) (pa_fields p)) (\<lambda>qs.
     qualified_value (case pa_resource p of Some u \<Rightarrow> Uri u | None \<Rightarrow> Literal (case pa_scalar p of Some s \<Rightarrow> s | None \<Rightarrow> [])) qs))"

text \<open>A property without attributes that give its value and without child elements.\<close>

definition text_property :: "xnode \<Rightarrow> property_attrs \<Rightarrow> rdf_error + rdf_value" where
  "text_property n p =
     tryr (if pa_fields p \<noteq> [] then
             tryr (guard (list_all (\<lambda>t. t = []) (child_texts n)) ''text on compact RDF structure'') (\<lambda>_. Inr (Struct (pa_fields p)))
           else Inr (Literal (concat (child_texts n)))) (\<lambda>v.
     qualified_value v (pa_language p))"

text \<open>Fields with \<open>rdf:value\<close> are a value and its qualifiers.\<close>

definition valued :: "properties \<Rightarrow> rdf_error + rdf_value" where
  "valued m =
     (case map_of m (RDF, ''value'') of
        Some v \<Rightarrow> qualified_value v (bt_remove (RDF, ''value'') m)
      | None \<Rightarrow> Inr (Struct m))"

text \<open>The attributes of a description are fields.\<close>

fun field_attrs :: "bool \<Rightarrow> xml_attr list \<Rightarrow> properties \<Rightarrow> rdf_error + properties" where
  "field_attrs toplevel [] m = Inr m"
| "field_attrs toplevel (a # as) m =
     (if at_ns a = Some RDF \<and> at_name a = ''about'' \<and> toplevel then field_attrs toplevel as m
      else
        tryr (guard (at_ns a \<noteq> Some RDF \<and> at_ns a \<noteq> Some XML) ''unsupported RDF structure attribute'') (\<lambda>_.
        tryr (rdf_name (at_ns a) (at_name a)) (\<lambda>k.
        tryr (rdf_insert m k (Literal (at_value a))) (field_attrs toplevel as))))"

fun alternatives :: "rdf_value list \<Rightarrow> string set \<Rightarrow> bool \<Rightarrow> rdf_error + bool" where
  "alternatives [] languages all = Inr all"
| "alternatives (item # items) languages all =
     (case item of
        Qualified v qs \<Rightarrow>
          (case map_of qs (XML, ''lang'') of
             Some (Literal language) \<Rightarrow>
               tryr (guard (language \<notin> languages) ''ambiguous duplicate normalized RDF language alternative'') (\<lambda>_.
               alternatives items (insert language languages)
                 (all \<and> language \<noteq> [] \<and> (case v of Literal t \<Rightarrow> True | _ \<Rightarrow> False)))
           | _ \<Rightarrow> alternatives items languages False)
      | _ \<Rightarrow> alternatives items languages False)"

definition language_alternatives :: "rdf_value list \<Rightarrow> rdf_error + bool" where
  "language_alternatives items = alternatives items {} (items \<noteq> [])"

definition array_value :: "string \<Rightarrow> rdf_value list \<Rightarrow> rdf_error + rdf_value" where
  "array_value form items =
     tryr (if form = ''Bag'' then Inr True
           else if form = ''Alt'' then language_alternatives items
           else Inr False) (\<lambda>unordered.
     Inr (Array form (if unordered then sort items else items)))"

definition is_array :: "xnode \<Rightarrow> bool" where
  "is_array n \<longleftrightarrow> el_ns n = Some RDF \<and> el_name n \<in> {''Bag'', ''Seq'', ''Alt''}"

text \<open>What a node element that is not an array gives: a typed node is qualified with its type.\<close>

definition node_value :: "xnode \<Rightarrow> properties \<Rightarrow> rdf_error + rdf_value" where
  "node_value n m =
     tryr (valued m) (\<lambda>v.
     if has_tag RDF ''Description'' n then Inr v
     else
       tryr (guard (el_ns n \<noteq> Some RDF) ''unsupported typed RDF node'') (\<lambda>_.
       case el_ns n of
         None \<Rightarrow> Inl (Refusal ''typed RDF node lacks namespace'')
       | Some ns \<Rightarrow> qualified_value v [((RDF, ''type''), Uri (ns @ el_name n))]))"

lemma size_list_filter_le: "size_list f (filter P xs) \<le> size_list f xs"
  by (induction xs) auto

lemma elements_size:
  assumes "elements n = Inr es"
  shows "size_list size es \<le> size n \<and> (length es = Suc 0 \<longrightarrow> size (hd es) < size n)"
proof -
  have "size_list size es \<le> size n"
    using assms by (cases n) (auto simp: elements_def tryr_Inr_iff child_elements_def intro: le_trans [OF size_list_filter_le])
  then show ?thesis by (cases es) auto
qed

text \<open>
  \<open>property\<close> and \<open>fields\<close>, with the loops over the children that call them: \<open>members\<close> inserts
  properties (with the check of \<open>fields\<close> or without), \<open>items\<close> collects the members of an array.
\<close>

function rdf_property :: "xnode \<Rightarrow> rdf_error + rdf_value"
  and rdf_fields :: "xnode \<Rightarrow> bool \<Rightarrow> rdf_error + properties"
  and members :: "bool \<Rightarrow> xnode list \<Rightarrow> properties \<Rightarrow> rdf_error + properties"
  and items :: "xnode list \<Rightarrow> rdf_error + rdf_value list" where
  "rdf_property n =
     tryr (property_attrs n) (\<lambda>p.
     tryr (guard (pa_resource p = None \<or> pa_scalar p = None) ''conflicting RDF resource/value attributes'') (\<lambda>_.
     if pa_resource p \<noteq> None \<or> pa_scalar p \<noteq> None then leaf_property n p
     else if pa_structure p then
       tryr (guard (pa_fields p = []) ''unexpected fields as parseType attributes'') (\<lambda>_.
       tryr (elements n) (\<lambda>es.
       tryr (members False es []) (\<lambda>m.
       tryr (valued m) (\<lambda>v.
       qualified_value v (pa_language p)))))
     else if child_elements n \<noteq> [] then
       tryr (elements n) (\<lambda>es.
       tryr (guard (pa_fields p = [] \<and> length es = 1) ''unsupported RDF resource property content'') (\<lambda>_.
       tryr (if is_array (hd es) then
               tryr (guard (el_attrs (hd es) = []) ''unsupported RDF array attributes'') (\<lambda>_.
               tryr (elements (hd es)) (\<lambda>cs.
               tryr (items cs) (\<lambda>vs.
               array_value (el_name (hd es)) vs)))
             else
               tryr (rdf_fields (hd es) False) (node_value (hd es))) (\<lambda>v.
       qualified_value v (pa_language p))))
     else text_property n p))"
| "rdf_fields n toplevel =
     tryr (field_attrs toplevel (el_attrs n) []) (\<lambda>m.
     tryr (elements n) (\<lambda>es.
     members True es m))"
| "members checked [] m = Inr m"
| "members checked (e # es) m =
     tryr (guard (checked \<longrightarrow> el_ns e \<noteq> Some RDF \<or> el_name e \<in> {''value'', ''type''}) ''unsupported RDF property'') (\<lambda>_.
     tryr (rdf_name (el_ns e) (el_name e)) (\<lambda>k.
     tryr (rdf_property e) (\<lambda>v.
     tryr (rdf_insert m k v) (\<lambda>m.
     members checked es m))))"
| "items [] = Inr []"
| "items (e # es) =
     tryr (guard (has_tag RDF ''li'' e) ''unsupported numbered or named RDF array member'') (\<lambda>_.
     tryr (rdf_property e) (\<lambda>v.
     tryr (items es) (\<lambda>vs. Inr (v # vs))))"
  by pat_completeness auto

termination
proof (relation "measure (\<lambda>x. case x of
      Inl (Inl n) \<Rightarrow> 2 * size n + 1
    | Inl (Inr (n, toplevel)) \<Rightarrow> 2 * size n + 1
    | Inr (Inl (checked, es, m)) \<Rightarrow> 2 * size_list size es
    | Inr (Inr es) \<Rightarrow> 2 * size_list size es)", goal_cases)
qed (auto dest!: elements_size)

declare rdf_property.simps [simp del]

declare rdf_fields.simps [simp del]
section \<open>Reading a model\<close>

text \<open>The elements of a document in its order, each below the elements that contain it.\<close>

fun located :: "xnode list \<Rightarrow> xnode \<Rightarrow> (xnode list \<times> xnode) list" where
  "located up (Element ns t as cs) = (up, Element ns t as cs) # concat (map (located (Element ns t as cs # up)) cs)"
| "located up (TextNode s) = []"
| "located up OtherNode = []"

definition document_elements :: "xnode list \<Rightarrow> (xnode list \<times> xnode) list" where
  "document_elements doc = concat (map (located []) doc)"

text \<open>The ancestors of a node are itself, the elements above it and the root of the document.\<close>

definition ancestor_count :: "xnode list \<Rightarrow> nat" where
  "ancestor_count up = length up + 2"

definition plain_attr :: "xml_attr \<Rightarrow> bool" where
  "plain_attr a \<longleftrightarrow> \<not> (at_ns a = Some RDF \<and> at_name a \<in> {''ID'', ''nodeID'', ''datatype''})"

fun check_elements :: "(xnode list \<times> xnode) list \<Rightarrow> rdf_error + unit" where
  "check_elements [] = Inr ()"
| "check_elements ((up, n) # es) =
     tryr (guard (min 66 (ancestor_count up) \<le> 65) ''RDF comparison exceeds nesting limit'') (\<lambda>_.
     tryr (guard (list_all plain_attr (el_attrs n)) ''unsupported RDF identity/datatype attribute'') (\<lambda>_.
     check_elements es))"

record rdf_model =
  md_subject :: string
  md_properties :: properties

fun descriptions :: "xnode list \<Rightarrow> string option \<Rightarrow> properties \<Rightarrow> rdf_error + rdf_model" where
  "descriptions [] subject m = Inr \<lparr>md_subject = (case subject of None \<Rightarrow> [] | Some s \<Rightarrow> s), md_properties = m\<rparr>"
| "descriptions (d # ds) subject m =
     tryr (guard (has_tag RDF ''Description'' d) ''unsupported top-level RDF node'') (\<lambda>_.
     let current = (case attribute RDF ''about'' d of None \<Rightarrow> [] | Some s \<Rightarrow> s) in
     tryr (guard (subject = None \<or> subject = Some current) ''multiple RDF subjects'') (\<lambda>_.
     tryr (rdf_fields d True) (\<lambda>ps.
     tryr (insert_all ps m) (\<lambda>m.
     descriptions ds (Some current) m))))"

definition inherits_context :: "xnode \<Rightarrow> bool" where
  "inherits_context n \<longleftrightarrow> attribute XML ''base'' n \<noteq> None \<or> attribute XML ''lang'' n \<noteq> None"

definition read_model :: "xnode list \<Rightarrow> rdf_error + rdf_model" where
  "read_model doc =
     (case filter (\<lambda>(up, n). has_tag RDF ''RDF'' n) (document_elements doc) of
        [] \<Rightarrow> Inl (Refusal ''missing RDF model'')
      | (up, root) # others \<Rightarrow>
          tryr (guard (others = []) ''multiple RDF models'') (\<lambda>_.
          tryr (guard (\<not> list_ex inherits_context up) ''unsupported inherited XML base/language on RDF model'') (\<lambda>_.
          tryr (guard (el_attrs root = []) ''unsupported attributes on rdf:RDF'') (\<lambda>_.
          tryr (elements root) (\<lambda>ds.
          descriptions ds None [])))))"

definition same_model :: "rdf_model \<Rightarrow> rdf_model \<Rightarrow> rdf_error + unit" where
  "same_model a b =
     tryr (guard (md_subject a = md_subject b) ''XMP serialization changed RDF subject'') (\<lambda>_.
     tryr (guard (length (md_properties a) = length (md_properties b)) ''XMP serialization changed property count'') (\<lambda>_.
     guard (list_all (\<lambda>(k, v). map_of (md_properties b) k = Some v) (md_properties a)) ''XMP serialization changed property''))"

section \<open>Requested storage\<close>

text \<open>Sizes and alignments that the compiler chooses are arguments; a word has eight bytes.\<close>

definition addr :: "nat \<Rightarrow> nat \<Rightarrow> rdf_error + nat" where
  "addr a b = (case checked_add a b of None \<Rightarrow> Inl StorageOverflow | Some c \<Rightarrow> Inr c)"

definition mulr :: "nat \<Rightarrow> nat \<Rightarrow> rdf_error + nat" where
  "mulr a b = (case checked_mul a b of None \<Rightarrow> Inl StorageOverflow | Some c \<Rightarrow> Inr c)"

fun sum_storage :: "nat \<Rightarrow> nat list \<Rightarrow> rdf_error + nat" where
  "sum_storage n [] = Inr n"
| "sum_storage n (k # ks) = tryr (addr n k) (\<lambda>n. sum_storage n ks)"

record layout =
  name_size :: nat
  name_align :: nat
  value_size :: nat
  value_align :: nat

definition tree_node_layout :: "layout \<Rightarrow> rdf_error + nat" where
  "tree_node_layout l =
     (let alignment = max (max (max 8 2) (name_align l)) (value_align l) in
     tryr (addr (name_size l) (value_size l)) (\<lambda>pair.
     tryr (mulr 11 pair) (\<lambda>pairs.
     tryr (mulr 5 (alignment - 1)) (\<lambda>padding.
     tryr (addr pairs padding) (\<lambda>body.
     tryr (addr (8 + 4) body) (\<lambda>leaf.
     tryr (mulr 2 (alignment - 1)) (\<lambda>padding.
     tryr (addr (12 * 8) padding) (\<lambda>edges.
     addr leaf edges))))))))"

record storage =
  st_strings :: nat
  st_entries :: nat
  st_elements :: nat
  st_arrays :: nat
  st_boxes :: nat
  st_depth :: nat

definition name_length :: "string option \<Rightarrow> nat" where
  "name_length ns = (case ns of None \<Rightarrow> 0 | Some s \<Rightarrow> length s)"

definition attr_storage :: "xml_attr \<Rightarrow> storage \<Rightarrow> rdf_error + storage" where
  "attr_storage a s =
     tryr (addr (st_entries s) 1) (\<lambda>entries.
     tryr (sum_storage (st_strings s) [name_length (at_ns a), length (at_name a), length (at_value a)]) (\<lambda>strings.
     tryr (if at_ns a = Some XML \<and> at_name a = ''lang'' \<or> at_ns a = Some RDF \<and> at_name a \<in> {''resource'', ''value''}
           then addr strings (length (at_value a)) else Inr strings) (\<lambda>strings.
     Inr (s\<lparr>st_entries := entries, st_strings := strings\<rparr>))))"

fun attrs_storage :: "xml_attr list \<Rightarrow> storage \<Rightarrow> rdf_error + storage" where
  "attrs_storage [] s = Inr s"
| "attrs_storage (a # as) s = tryr (attr_storage a s) (attrs_storage as)"

definition element_storage :: "xnode list \<Rightarrow> xnode \<Rightarrow> storage \<Rightarrow> rdf_error + storage" where
  "element_storage up n s =
     tryr (addr (st_elements s) 1) (\<lambda>elements.
     tryr (sum_storage (st_strings s) [name_length (el_ns n), length (el_name n)]) (\<lambda>strings.
     tryr (if is_array n then addr (st_arrays s) 1 else Inr (st_arrays s)) (\<lambda>arrays.
     tryr (attrs_storage (el_attrs n) (s\<lparr>st_elements := elements, st_strings := strings, st_arrays := arrays,
       st_depth := max (st_depth s) (min 66 (ancestor_count up))\<rparr>)) (\<lambda>s.
     tryr (sum_storage (st_strings s) (map length (child_texts n))) (\<lambda>strings.
     tryr (if up \<noteq> [] then addr (st_entries s) 1 else Inr (st_entries s)) (\<lambda>entries.
     tryr (if el_attrs n \<noteq> [] then addr (st_boxes s) 1 else Inr (st_boxes s)) (\<lambda>boxes.
     Inr (s\<lparr>st_strings := strings, st_entries := entries, st_boxes := boxes\<rparr>))))))))"

fun elements_storage :: "(xnode list \<times> xnode) list \<Rightarrow> storage \<Rightarrow> rdf_error + storage" where
  "elements_storage [] s = Inr s"
| "elements_storage ((up, n) # es) s = tryr (element_storage up n s) (elements_storage es)"

definition rdf_model_storage :: "layout \<Rightarrow> xnode list \<Rightarrow> rdf_error + nat" where
  "rdf_model_storage l doc =
     tryr (elements_storage (document_elements doc)
       \<lparr>st_strings = 0, st_entries = 0, st_elements = 0, st_arrays = 0, st_boxes = 0, st_depth = 0\<rparr>) (\<lambda>s.
     tryr (sum_storage (st_entries s) [st_elements s, st_depth s]) (\<lambda>tree_nodes.
     tryr (tree_node_layout l) (\<lambda>node.
     tryr (mulr tree_nodes node) (\<lambda>trees.
     tryr (mulr 2 (st_elements s)) (\<lambda>twice.
     tryr (mulr 8 (st_arrays s)) (\<lambda>eight.
     tryr (addr twice eight) (\<lambda>vector_entries.
     tryr (mulr vector_entries (value_size l)) (\<lambda>vectors.
     tryr (mulr (st_boxes s) (value_size l)) (\<lambda>boxes.
     tryr (addr vectors boxes) (\<lambda>n.
     tryr (addr trees n) (\<lambda>n.
     addr (st_strings s) n)))))))))))"

fun xmlns_count :: "string \<Rightarrow> nat" where
  "xmlns_count [] = 0"
| "xmlns_count (c # cs) = (if take 5 (c # cs) = ''xmlns'' then 1 + xmlns_count (drop 4 cs) else xmlns_count cs)"

definition overlapping_vector :: "nat \<Rightarrow> nat \<Rightarrow> nat \<Rightarrow> rdf_error + nat" where
  "overlapping_vector entries minimum item =
     tryr (mulr 3 (max entries minimum)) (\<lambda>n. tryr (addr n 8) (\<lambda>n. mulr n item))"

text \<open>The backing of the XML parser.\<close>

definition xml_document :: "string \<Rightarrow> rdf_error + nat" where
  "xml_document text =
     (let tags = count_list text (CHR ''<''); attrs = count_list text (CHR ''='') in
     tryr (addr (xmlns_count text) 1) (\<lambda>namespaces.
     tryr (mulr 2 tags) (\<lambda>n.
     tryr (addr n 2) (\<lambda>nodes.
     tryr (overlapping_vector nodes tags (16 * 8)) (\<lambda>node_backing.
     tryr (overlapping_vector attrs attrs (8 * 8)) (\<lambda>attribute_backing.
     tryr (overlapping_vector namespaces 0 (4 * 8)) (\<lambda>namespace_backing.
     tryr (addr namespaces 1) (\<lambda>n.
     tryr (mulr namespaces n) (\<lambda>tree_order.
     tryr (overlapping_vector tree_order 0 2) (\<lambda>n.
     tryr (overlapping_vector namespaces 0 2) (\<lambda>k.
     tryr (addr n k) (\<lambda>namespace_indices.
     tryr (overlapping_vector attrs 16 (10 * 8)) (\<lambda>temporary.
     tryr (overlapping_vector tags 0 8) (\<lambda>n.
     tryr (addr tags 1) (\<lambda>k.
     tryr (overlapping_vector k 1 (2 * 8)) (\<lambda>k.
     tryr (overlapping_vector nodes 1 (3 * 8)) (\<lambda>j.
     tryr (addr k j) (\<lambda>k.
     tryr (addr n k) (\<lambda>parser_vectors.
     tryr (mulr 4 (length text)) (\<lambda>n.
     tryr (addr attrs nodes) (\<lambda>k.
     tryr (mulr k (2 * 8)) (\<lambda>k.
     tryr (addr n k) (\<lambda>owners.
     tryr (addr node_backing attribute_backing) (\<lambda>n.
     tryr (addr namespace_backing namespace_indices) (\<lambda>k.
     tryr (addr parser_vectors owners) (\<lambda>j.
     tryr (addr temporary j) (\<lambda>j.
     tryr (addr k j) (\<lambda>k.
     addr n k))))))))))))))))))))))))))))"

section \<open>The comparison under admission\<close>

record requested =
  rs_live :: nat
  rs_high :: nat

type_synonym 'a storing = "(requested, rdf_error, 'a) comp"

text \<open>The XML parser, the layouts, and what the caller's account admits.\<close>

record rdf_env =
  parse_xml :: "string \<Rightarrow> xnode list option"
  layouts :: layout
  admits :: "nat \<Rightarrow> bool"

definition requested_new :: requested where
  "requested_new = \<lparr>rs_live = 0, rs_high = 0\<rparr>"

definition scope :: "rdf_env \<Rightarrow> nat \<Rightarrow> unit storing" where
  "scope e bytes =
     bindc (getc (\<lambda>s. checked_add (rs_live s) bytes)) (\<lambda>n.
     bindc (lift_option StorageOverflow n) (\<lambda>n.
     bindc (getc (\<lambda>s. n > rs_high s)) (\<lambda>higher.
     bindc (if higher then bindc (ensure (admits e n) NotAdmitted) (\<lambda>_. modc (rs_high_update (\<lambda>_. n))) else ret ()) (\<lambda>_.
     modc (rs_live_update (\<lambda>_. n))))))"

text \<open>The drop of a scope: its \<open>expect\<close> is the panic \<open>ScopeImbalance\<close>.\<close>

definition drop_scope :: "nat \<Rightarrow> unit storing" where
  "drop_scope bytes =
     bindc (getc (\<lambda>s. checked_sub (rs_live s) bytes)) (\<lambda>n.
     bindc (lift_option ScopeImbalance n) (\<lambda>n.
     modc (rs_live_update (\<lambda>_. n))))"

definition lift_sum :: "rdf_error + 'a \<Rightarrow> 'a storing" where
  "lift_sum r = (case r of Inl e \<Rightarrow> fail e | Inr x \<Rightarrow> ret x)"

text \<open>A block that owns a scope: dropped however the block ends, or only when it fails.\<close>

definition owning :: "nat \<Rightarrow> 'a storing \<Rightarrow> 'a storing" where
  "owning bytes body = catchc body (\<lambda>r. bindc (drop_scope bytes) (\<lambda>_. lift_sum r))"

definition passing :: "nat \<Rightarrow> 'a storing \<Rightarrow> 'a storing" where
  "passing bytes body = catchc body (\<lambda>r. case r of Inl e \<Rightarrow> bindc (drop_scope bytes) (\<lambda>_. fail e) | Inr x \<Rightarrow> ret x)"

definition model_admitted :: "rdf_env \<Rightarrow> string \<Rightarrow> (rdf_model \<times> nat) storing" where
  "model_admitted e text =
     bindc (ensure (length text \<le> MAX_BYTES) (Refusal ''RDF comparison exceeds byte limit'')) (\<lambda>_.
     bindc (lift_sum (xml_document text)) (\<lambda>d.
     bindc (scope e d) (\<lambda>_.
     owning d
      (bindc (lift_option (Refusal ''XML'') (parse_xml e text)) (\<lambda>doc.
       bindc (lift_sum (check_elements (document_elements doc))) (\<lambda>_.
       bindc (lift_sum (rdf_model_storage (layouts e) doc)) (\<lambda>n.
       bindc (scope e n) (\<lambda>_.
       bindc (passing n (lift_sum (read_model doc))) (\<lambda>m.
       ret (m, n))))))))))"

definition assert_equivalent_admitted :: "rdf_env \<Rightarrow> string \<Rightarrow> string \<Rightarrow> unit storing" where
  "assert_equivalent_admitted e source_xml serialized_xml =
     bindc (model_admitted e source_xml) (\<lambda>(source, n).
     owning n
      (bindc (model_admitted e serialized_xml) (\<lambda>(serialized, k).
       owning k (lift_sum (same_model source serialized)))))"

end
