(* ===== verification/RDF_Correct.thy ===== *)
theory RDF_Correct
  imports RDF_Compare "HOL-Library.Multiset"
begin

text \<open>
  What the reading of an RDF tree returns: canonical values, independent of the order in which
  fields, qualifiers and the members of bags stand.
\<close>

section \<open>Insertion\<close>

lemma bt_map_of_None: "map_of m k = None \<longleftrightarrow> k \<notin> fst ` set m"
  by (rule map_of_eq_None_iff)

lemma rdf_insert_Inr: "rdf_insert m k v = Inr m' \<longleftrightarrow> k \<notin> fst ` set m \<and> m' = bt_insert k v m"
  by (auto simp: rdf_insert_def tryr_Inr_iff bt_map_of_None)

text \<open>A loop of insertions succeeds when no key is met twice, and the map it gives has no memory of the order.\<close>

lemma insert_all_iff:
  assumes "bt_wf m"
  shows "insert_all ps m = Inr m' \<longleftrightarrow>
    distinct (map fst ps) \<and> fst ` set ps \<inter> fst ` set m = {} \<and> bt_wf m' \<and> set m' = set m \<union> set ps"
  using assms
proof (induction ps arbitrary: m)
  case Nil
  then show ?case by (auto intro: bt_eqI)
next
  case (Cons p ps)
  obtain k v where p: "p = (k, v)" by (rule prod.exhaust)
  show ?case
  proof (cases "k \<in> fst ` set m")
    case True
    then show ?thesis by (auto simp: p rdf_insert_Inr tryr_Inr_iff)
  next
    case False
    have "insert_all (p # ps) m = Inr m' \<longleftrightarrow> insert_all ps (bt_insert k v m) = Inr m'"
      using False by (simp add: p rdf_insert_Inr tryr_Inr_iff)
    also have "\<dots> \<longleftrightarrow> distinct (map fst ps) \<and> fst ` set ps \<inter> insert k (fst ` set m) = {} \<and> bt_wf m'
        \<and> set m' = insert (k, v) (set m) \<union> set ps"
      using Cons.IH [OF bt_wf_insert [OF Cons.prems]] by (simp add: keys_bt_insert set_bt_insert [OF False])
    finally show ?thesis using False by (auto simp: p)
  qed
qed

lemma insert_all_same:
  assumes "bt_wf m" "mset ps = mset qs" "insert_all ps m = Inr m'"
  shows "insert_all qs m = Inr m'"
proof -
  have "set ps = set qs" using assms(2) by (rule mset_eq_setD)
  moreover have "mset (map fst ps) = mset (map fst qs)" using assms(2) by simp
  then have "distinct (map fst ps) \<longleftrightarrow> distinct (map fst qs)" by (rule mset_eq_imp_distinct_iff)
  ultimately show ?thesis using assms(3) unfolding insert_all_iff [OF assms(1)] by simp
qed

section \<open>Loops over children\<close>

definition member_of :: "bool \<Rightarrow> xnode \<Rightarrow> rdf_name \<times> rdf_value \<Rightarrow> bool" where
  "member_of checked e p \<longleftrightarrow>
     (checked \<longrightarrow> el_ns e \<noteq> Some RDF \<or> el_name e \<in> {''value'', ''type''})
     \<and> el_ns e = Some (fst (fst p)) \<and> el_name e = snd (fst p) \<and> rdf_property e = Inr (snd p)"

lemma rdf_name_Inr: "rdf_name ns t = Inr k \<longleftrightarrow> ns = Some (fst k) \<and> t = snd k"
  by (cases k) (auto simp: rdf_name_def split: option.splits)

lemma members_iff: "members checked es m = Inr m' \<longleftrightarrow> (\<exists>ps. list_all2 (member_of checked) es ps \<and> insert_all ps m = Inr m')"
proof (induction es arbitrary: m)
  case (Cons e es)
  show ?case (is "?lhs \<longleftrightarrow> ?rhs")
  proof
    assume ?lhs
    then obtain k v u where 1: "member_of checked e (k, v)" "rdf_insert m k v = Inr u" "members checked es u = Inr m'"
      by (auto simp: tryr_Inr_iff member_of_def rdf_name_Inr)
    from 1(3) obtain ps where "list_all2 (member_of checked) es ps" "insert_all ps u = Inr m'" using Cons.IH by blast
    with 1 show ?rhs by (intro exI [of _ "(k, v) # ps"]) simp
  next
    assume ?rhs
    then obtain p ps where 1: "member_of checked e p" "list_all2 (member_of checked) es ps" "insert_all (p # ps) m = Inr m'"
      by (auto simp: list_all2_Cons1)
    then obtain u where "rdf_insert m (fst p) (snd p) = Inr u" "insert_all ps u = Inr m'"
      by (cases p) (auto simp: tryr_Inr_iff)
    moreover from this 1(2) have "members checked es u = Inr m'" using Cons.IH by blast
    ultimately show ?lhs using 1(1) by (auto simp: tryr_Inr_iff member_of_def rdf_name_Inr)
  qed
qed simp

lemma items_iff: "items es = Inr vs \<longleftrightarrow> list_all2 (\<lambda>e v. has_tag RDF ''li'' e \<and> rdf_property e = Inr v) es vs"
  by (induction es arbitrary: vs) (auto simp: tryr_Inr_iff list_all2_Cons1)

section \<open>Language alternatives\<close>

definition lang_of :: "rdf_value \<Rightarrow> string option" where
  "lang_of v =
     (case v of
        Qualified w qs \<Rightarrow> (case map_of qs (XML, ''lang'') of Some (Literal l) \<Rightarrow> Some l | _ \<Rightarrow> None)
      | _ \<Rightarrow> None)"

definition tagged :: "rdf_value \<Rightarrow> bool" where
  "tagged v \<longleftrightarrow> (\<exists>l. lang_of v = Some l \<and> l \<noteq> []) \<and> (\<exists>t qs. v = Qualified (Literal t) qs)"

definition langs :: "rdf_value list \<Rightarrow> string list" where
  "langs vs = concat (map (\<lambda>v. case lang_of v of Some l \<Rightarrow> [l] | None \<Rightarrow> []) vs)"

lemma alternatives_iff:
  "alternatives vs L a = Inr u \<longleftrightarrow> distinct (langs vs) \<and> set (langs vs) \<inter> L = {} \<and> (u \<longleftrightarrow> a \<and> (\<forall>v \<in> set vs. tagged v))"
proof (induction vs arbitrary: L a)
  case (Cons v vs)
  have step: "alternatives (v # vs) L a =
      (case lang_of v of
         None \<Rightarrow> alternatives vs L False
       | Some l \<Rightarrow> if l \<in> L then Inl (Refusal ''ambiguous duplicate normalized RDF language alternative'')
                  else alternatives vs (insert l L) (a \<and> tagged v))"
    by (cases v) (auto simp: lang_of_def tagged_def split: option.splits rdf_value.splits)
  show ?case
  proof (cases "lang_of v")
    case None
    then have "\<not> tagged v" by (simp add: tagged_def)
    with None Cons.IH show ?thesis unfolding step by (simp add: langs_def)
  next
    case (Some l)
    with Cons.IH [of "insert l L"] show ?thesis unfolding step by (auto simp: langs_def)
  qed
qed (simp add: langs_def eq_commute)

lemma language_alternatives_iff:
  "language_alternatives vs = Inr u \<longleftrightarrow> distinct (langs vs) \<and> (u \<longleftrightarrow> vs \<noteq> [] \<and> (\<forall>v \<in> set vs. tagged v))"
  by (simp add: language_alternatives_def alternatives_iff)

lemma mset_langs: "mset vs = mset ws \<Longrightarrow> mset (langs vs) = mset (langs ws)"
proof -
  have "mset (langs xs) = \<Sum>\<^sub># (image_mset (\<lambda>v. mset (case lang_of v of Some l \<Rightarrow> [l] | None \<Rightarrow> [])) (mset xs))" for xs
    by (induction xs) (simp_all add: langs_def)
  then show "mset vs = mset ws \<Longrightarrow> mset (langs vs) = mset (langs ws)" by simp
qed

lemma language_alternatives_perm:
  assumes "mset vs = mset ws"
  shows "language_alternatives vs = Inr u \<longleftrightarrow> language_alternatives ws = Inr u"
proof -
  have "distinct (langs vs) \<longleftrightarrow> distinct (langs ws)" by (rule mset_eq_imp_distinct_iff [OF mset_langs [OF assms]])
  moreover have "set vs = set ws" using assms by (rule mset_eq_setD)
  moreover have "vs \<noteq> [] \<longleftrightarrow> ws \<noteq> []" using assms by auto
  ultimately show ?thesis unfolding language_alternatives_iff by simp
qed

section \<open>Canonical values\<close>

fun canon :: "rdf_value \<Rightarrow> bool" where
  "canon (Literal s) = True"
| "canon (Uri s) = True"
| "canon (Struct m) \<longleftrightarrow> bt_wf m \<and> (\<forall>p \<in> set m. fst p \<noteq> (RDF, ''value'') \<and> canon (snd p))"
| "canon (Array f vs) \<longleftrightarrow> f \<in> {''Bag'', ''Seq'', ''Alt''} \<and> (\<forall>v \<in> set vs. canon v)
     \<and> (f = ''Bag'' \<longrightarrow> sorted vs)
     \<and> (f = ''Alt'' \<longrightarrow> distinct (langs vs) \<and> (vs \<noteq> [] \<and> (\<forall>v \<in> set vs. tagged v) \<longrightarrow> sorted vs))"
| "canon (Qualified v qs) \<longleftrightarrow> canon v \<and> (\<forall>w ps. v \<noteq> Qualified w ps) \<and> qs \<noteq> [] \<and> bt_wf qs
     \<and> (\<forall>p \<in> set qs. fst p \<noteq> (RDF, ''value'') \<and> canon (snd p))"

definition canon_map :: "properties \<Rightarrow> bool" where
  "canon_map m \<longleftrightarrow> bt_wf m \<and> (\<forall>p \<in> set m. canon (snd p))"

definition no_value :: "properties \<Rightarrow> bool" where
  "no_value m \<longleftrightarrow> (\<forall>p \<in> set m. fst p \<noteq> (RDF, ''value''))"

lemma canon_map_Nil [simp]: "canon_map []"
  by (simp add: canon_map_def)

lemma no_value_Nil [simp]: "no_value []"
  by (simp add: no_value_def)

lemma no_value_iff: "no_value m \<longleftrightarrow> (RDF, ''value'') \<notin> fst ` set m"
  by (force simp: no_value_def)

lemma rdf_insert_canon: "rdf_insert m k v = Inr m' \<Longrightarrow> canon_map m \<Longrightarrow> canon v \<Longrightarrow> canon_map m'"
  by (auto simp: rdf_insert_Inr canon_map_def bt_wf_insert set_bt_insert)

lemma insert_all_canon: "insert_all ps m = Inr m' \<Longrightarrow> canon_map m \<Longrightarrow> \<forall>p \<in> set ps. canon (snd p) \<Longrightarrow> canon_map m'"
  by (auto simp: canon_map_def insert_all_iff)

lemma insert_all_no_value: "insert_all ps m = Inr m' \<Longrightarrow> bt_wf m \<Longrightarrow> no_value m \<Longrightarrow> no_value ps \<Longrightarrow> no_value m'"
  by (auto simp: insert_all_iff no_value_def)

lemma qualified_canon:
  assumes "qualified_value v qs = Inr w" "canon v" "canon_map qs" "no_value qs"
  shows "canon w"
proof -
  have build: "canon (if ps = [] then u else Qualified u ps)"
    if "canon u" "\<forall>w ps. u \<noteq> Qualified w ps" "canon_map ps" "no_value ps" for u ps
    using that by (auto simp: canon_map_def no_value_def)
  show ?thesis
  proof (cases "\<exists>u ps. v = Qualified u ps")
    case True
    then obtain u ps where v: "v = Qualified u ps" by blast
    with assms(1) obtain rs where rs: "insert_all ps qs = Inr rs" "w = (if rs = [] then u else Qualified u rs)"
      by (auto simp: qualified_value_def tryr_Inr_iff)
    have "canon_map rs" by (rule insert_all_canon [OF rs(1) assms(3)]) (use assms(2) v in simp)
    moreover have "no_value rs"
      by (rule insert_all_no_value [OF rs(1) _ assms(4)]) (use assms(2,3) v in \<open>auto simp: canon_map_def no_value_def\<close>)
    ultimately show ?thesis using rs(2) build [of u rs] assms(2) v by simp
  next
    case False
    with assms(1) have "w = (if qs = [] then v else Qualified v qs)"
      by (cases v) (auto simp: qualified_value_def)
    with False build [of v qs] assms show ?thesis by simp
  qed
qed

lemma canon_map_remove: "canon_map m \<Longrightarrow> canon_map (bt_remove k m) \<and> k \<notin> fst ` set (bt_remove k m)"
  by (auto simp: canon_map_def bt_wf_remove) (auto simp: bt_remove_def)

lemma valued_canon: "valued m = Inr v \<Longrightarrow> canon_map m \<Longrightarrow> canon v"
proof (cases "map_of m (RDF, ''value'')")
  case None
  then show "valued m = Inr v \<Longrightarrow> canon_map m \<Longrightarrow> canon v"
    by (auto simp: valued_def canon_map_def map_of_eq_None_iff rev_image_eqI)
next
  case (Some w)
  assume v: "valued m = Inr v" and m: "canon_map m"
  have "canon w" using m map_of_SomeD [OF Some] by (force simp: canon_map_def)
  moreover have "canon_map (bt_remove (RDF, ''value'') m)" "no_value (bt_remove (RDF, ''value'') m)"
    using canon_map_remove [OF m] by (simp_all add: no_value_iff)
  ultimately show "canon v" using v Some by (auto simp: valued_def intro: qualified_canon)
qed

lemma array_canon:
  assumes "array_value f vs = Inr v" "f \<in> {''Bag'', ''Seq'', ''Alt''}" "\<forall>v \<in> set vs. canon v"
  shows "canon v"
proof -
  have "distinct (langs (sort vs)) \<longleftrightarrow> distinct (langs vs)"
    by (rule mset_eq_imp_distinct_iff, rule mset_langs) simp
  with assms show ?thesis
    by (auto simp: array_value_def tryr_Inr_iff language_alternatives_iff)
qed

text \<open>The attributes of a property.\<close>

definition pa_ok :: "property_attrs \<Rightarrow> bool" where
  "pa_ok p \<longleftrightarrow> canon_map (pa_fields p) \<and> no_value (pa_fields p) \<and> canon_map (pa_language p) \<and> no_value (pa_language p)"

lemma RDF_XML [simp]: "RDF \<noteq> XML" "XML \<noteq> RDF"
  by (simp_all add: RDF_def XML_def)

lemma no_value_bt_insert: "no_value (bt_insert k v m) \<longleftrightarrow> k \<noteq> (RDF, ''value'') \<and> no_value m"
  by (auto simp: no_value_iff keys_bt_insert)

lemma property_attr_ok: "property_attr a p = Inr q \<Longrightarrow> pa_ok p \<Longrightarrow> pa_ok q"
  by (auto simp: property_attr_def pa_ok_def tryr_Inr_iff rdf_insert_Inr rdf_name_Inr no_value_bt_insert
      canon_map_def bt_wf_insert set_bt_insert split: if_splits)

lemma property_attrs_from_ok: "property_attrs_from as p = Inr q \<Longrightarrow> pa_ok p \<Longrightarrow> pa_ok q"
  by (induction as arbitrary: p) (auto simp: tryr_Inr_iff dest: property_attr_ok)

lemma property_attrs_ok: "property_attrs n = Inr p \<Longrightarrow> pa_ok p"
  unfolding property_attrs_def by (erule property_attrs_from_ok) (simp add: pa_ok_def)

lemma leaf_canon: "leaf_property n p = Inr v \<Longrightarrow> pa_ok p \<Longrightarrow> canon v"
  by (auto simp: leaf_property_def pa_ok_def tryr_Inr_iff split: option.splits
      elim!: qualified_canon intro: insert_all_canon insert_all_no_value simp: canon_map_def)

lemma text_canon: "text_property n p = Inr v \<Longrightarrow> pa_ok p \<Longrightarrow> canon v"
  by (auto simp: text_property_def pa_ok_def tryr_Inr_iff canon_map_def no_value_def
      split: if_splits elim!: qualified_canon)

lemma field_attrs_canon: "field_attrs toplevel as m = Inr m' \<Longrightarrow> canon_map m \<Longrightarrow> canon_map m'"
  by (induction as arbitrary: m) (auto simp: tryr_Inr_iff dest: rdf_insert_canon split: if_splits)

lemma node_canon: "node_value n m = Inr v \<Longrightarrow> canon_map m \<Longrightarrow> canon v"
  by (auto simp: node_value_def tryr_Inr_iff canon_map_def no_value_def bt_wf_def
      dest!: valued_canon split: if_splits option.splits elim!: qualified_canon)

text \<open>How the reading of a property can succeed.\<close>

lemma elements_Inr: "elements n = Inr es \<longleftrightarrow> list_all (list_all is_space) (child_texts n) \<and> es = child_elements n"
  by (auto simp: elements_def tryr_Inr_iff)

lemma child_elements_size: "e \<in> set (child_elements n) \<Longrightarrow> size e < size n"
  by (cases n) (auto simp: child_elements_def dest: size_list_estimation' [where f = size, OF _ order_refl])

definition given :: "property_attrs \<Rightarrow> bool" where
  "given p \<longleftrightarrow> pa_resource p \<noteq> None \<or> pa_scalar p \<noteq> None"

definition spaced :: "xnode \<Rightarrow> bool" where
  "spaced n \<longleftrightarrow> list_all (list_all is_space) (child_texts n)"

text \<open>A property whose value is in one node element.\<close>

definition child_value :: "xnode \<Rightarrow> rdf_error + rdf_value" where
  "child_value c =
     (if is_array c then
        tryr (guard (el_attrs c = []) ''unsupported RDF array attributes'') (\<lambda>_.
        tryr (elements c) (\<lambda>cs.
        tryr (items cs) (\<lambda>vs.
        array_value (el_name c) vs)))
      else tryr (rdf_fields c False) (node_value c))"

lemma child_value_Inr:
  "child_value c = Inr w \<longleftrightarrow>
     is_array c \<and> el_attrs c = [] \<and> spaced c \<and> (\<exists>vs. items (child_elements c) = Inr vs \<and> array_value (el_name c) vs = Inr w)
     \<or> \<not> is_array c \<and> (\<exists>m. rdf_fields c False = Inr m \<and> node_value c m = Inr w)"
  by (auto simp: child_value_def tryr_Inr_iff elements_Inr spaced_def)

lemma rdf_property_Inr:
  assumes p: "property_attrs n = Inr p"
  shows "rdf_property n = Inr v \<longleftrightarrow>
     (pa_resource p = None \<or> pa_scalar p = None)
     \<and> (if given p then leaf_property n p = Inr v
        else if pa_structure p then
          pa_fields p = [] \<and> spaced n \<and> (\<exists>m w. members False (child_elements n) [] = Inr m \<and> valued m = Inr w
            \<and> qualified_value w (pa_language p) = Inr v)
        else if child_elements n \<noteq> [] then
          spaced n \<and> pa_fields p = [] \<and> (\<exists>c w. child_elements n = [c] \<and> child_value c = Inr w
            \<and> qualified_value w (pa_language p) = Inr v)
        else text_property n p = Inr v)"
proof -
  consider "given p" | "\<not> given p" "pa_structure p" | "\<not> given p" "\<not> pa_structure p" "child_elements n \<noteq> []"
    | "\<not> given p" "\<not> pa_structure p" "child_elements n = []" by blast
  then show ?thesis
  proof cases
    case 3
    have "(\<exists>w. length (child_elements n) = 1 \<and> child_value (hd (child_elements n)) = Inr w \<and> qualified_value w q = Inr v) \<longleftrightarrow>
        (\<exists>c w. child_elements n = [c] \<and> child_value c = Inr w \<and> qualified_value w q = Inr v)" for q
      by (cases "child_elements n") auto
    with 3 p show ?thesis
      unfolding rdf_property.simps [of n] child_value_def [symmetric] given_def by (simp add: tryr_Inr_iff elements_Inr spaced_def)
  qed (simp_all add: rdf_property.simps [of n] p given_def tryr_Inr_iff elements_Inr spaced_def)
qed

lemma rdf_property_attrs:
  assumes "rdf_property n = Inr v"
  obtains p where "property_attrs n = Inr p"
  using assms by (auto simp: rdf_property.simps [of n] tryr_Inr_iff)

lemma rdf_property_cases:
  assumes "rdf_property n = Inr v"
  obtains (leaf) p where "property_attrs n = Inr p" "leaf_property n p = Inr v"
  | (struct) p m w where "property_attrs n = Inr p" "members False (child_elements n) [] = Inr m"
      "valued m = Inr w" "qualified_value w (pa_language p) = Inr v"
  | (child) p c w where "property_attrs n = Inr p" "child_elements n = [c]" "child_value c = Inr w"
      "qualified_value w (pa_language p) = Inr v"
  | (plain) p where "property_attrs n = Inr p" "text_property n p = Inr v"
proof -
  obtain p where "property_attrs n = Inr p" using assms by (rule rdf_property_attrs)
  with assms show thesis by (auto simp: rdf_property_Inr split: if_splits intro: that)
qed

text \<open>Whatever the tree, a value that is read is canonical.\<close>

lemma list_all2_right: "list_all2 P xs ys \<Longrightarrow> y \<in> set ys \<Longrightarrow> \<exists>x \<in> set xs. P x y"
  by (induction rule: list_all2_induct) auto

lemma members_canon:
  assumes "members checked es m = Inr m'" "canon_map m" "\<And>e v. e \<in> set es \<Longrightarrow> rdf_property e = Inr v \<Longrightarrow> canon v"
  shows "canon_map m'"
proof -
  obtain ps where ps: "list_all2 (member_of checked) es ps" "insert_all ps m = Inr m'" using assms(1) members_iff by blast
  have "\<forall>p \<in> set ps. canon (snd p)"
  proof
    fix p assume "p \<in> set ps"
    then obtain e where "e \<in> set es" "member_of checked e p" using list_all2_right [OF ps(1)] by blast
    with assms(3) show "canon (snd p)" by (simp add: member_of_def)
  qed
  with ps(2) assms(2) show ?thesis by (rule insert_all_canon)
qed

lemma items_canon:
  assumes "items es = Inr vs" "\<And>e v. e \<in> set es \<Longrightarrow> rdf_property e = Inr v \<Longrightarrow> canon v"
  shows "\<forall>v \<in> set vs. canon v"
  using list_all2_right [OF assms(1) [unfolded items_iff]] assms(2) by blast

lemma fields_canon:
  assumes "rdf_fields n toplevel = Inr m" "\<And>e v. e \<in> set (child_elements n) \<Longrightarrow> rdf_property e = Inr v \<Longrightarrow> canon v"
  shows "canon_map m"
proof -
  obtain m0 where m0: "field_attrs toplevel (el_attrs n) [] = Inr m0" "members True (child_elements n) m0 = Inr m"
    using assms(1) by (auto simp: rdf_fields.simps [of n] tryr_Inr_iff elements_Inr)
  show ?thesis by (rule members_canon [OF m0(2) field_attrs_canon [OF m0(1) canon_map_Nil] assms(2)])
qed

lemma property_canon: "rdf_property n = Inr v \<Longrightarrow> canon v"
proof (induction n arbitrary: v rule: measure_induct_rule [where f = size])
  case (less n)
  note inner = less.IH [OF child_elements_size]
  have lang: "canon_map (pa_language p)" "no_value (pa_language p)" if "property_attrs n = Inr p" for p
    using property_attrs_ok [OF that] by (simp_all add: pa_ok_def)
  from less.prems show ?case
  proof (cases rule: rdf_property_cases)
    case leaf
    then show ?thesis by (auto intro: leaf_canon property_attrs_ok)
  next
    case (struct p m w)
    have "canon_map m" by (rule members_canon [OF struct(2) canon_map_Nil inner])
    then have "canon w" by (rule valued_canon [OF struct(3)])
    then show ?thesis using qualified_canon [OF struct(4)] lang [OF struct(1)] by blast
  next
    case (child p c w)
    have c: "size c < size n" using child(2) by (intro child_elements_size) simp
    note inner = less.IH [OF less_trans [OF child_elements_size c]]
    have "canon w"
    proof (cases "is_array c")
      case True
      with child(3) obtain vs where vs: "items (child_elements c) = Inr vs" "array_value (el_name c) vs = Inr w"
        by (auto simp: child_value_Inr)
      have "\<forall>v \<in> set vs. canon v" by (rule items_canon [OF vs(1) inner])
      with True show ?thesis using array_canon [OF vs(2)] by (simp add: is_array_def)
    next
      case False
      with child(3) obtain m where m: "rdf_fields c False = Inr m" "node_value c m = Inr w" by (auto simp: child_value_Inr)
      show ?thesis by (rule node_canon [OF m(2) fields_canon [OF m(1) inner]])
    qed
    then show ?thesis using qualified_canon [OF child(4)] lang [OF child(1)] by blast
  next
    case plain
    then show ?thesis by (auto intro: text_canon property_attrs_ok)
  qed
qed

section \<open>Order\<close>

text \<open>A loop over attributes whose steps commute does not depend on their order.\<close>

fun tfold :: "('a \<Rightarrow> 's \<Rightarrow> 'e + 's) \<Rightarrow> 'a list \<Rightarrow> 's \<Rightarrow> 'e + 's" where
  "tfold f [] p = Inr p"
| "tfold f (a # as) p = tryr (f a p) (tfold f as)"

lemma tfold_append: "tfold f (xs @ ys) p = tryr (tfold f xs p) (tfold f ys)"
  by (induction xs arbitrary: p) (simp_all add: tryr_def split: sum.splits)

locale commuting =
  fixes f :: "'a \<Rightarrow> 's \<Rightarrow> 'e + 's" and key :: "'a \<Rightarrow> 'k" and ok :: "'s \<Rightarrow> bool"
  assumes keep: "ok p \<Longrightarrow> f a p = Inr q \<Longrightarrow> ok q"
    and commute: "ok p \<Longrightarrow> key a \<noteq> key b \<Longrightarrow> f a p = Inr q \<Longrightarrow> f b q = Inr r \<Longrightarrow> \<exists>u. f b p = Inr u \<and> f a u = Inr r"
begin

lemma to_front:
  assumes "ok p" "key b \<notin> key ` set xs" "tfold f (xs @ b # ys) p = Inr r"
  shows "tfold f (b # xs @ ys) p = Inr r"
  using assms
proof (induction xs arbitrary: p)
  case (Cons a xs)
  then obtain q where q: "f a p = Inr q" "tfold f (xs @ b # ys) q = Inr r" by (auto simp: tryr_Inr_iff)
  have "tfold f (b # xs @ ys) q = Inr r" by (rule Cons.IH) (use Cons.prems q keep in auto)
  then obtain u where u: "f b q = Inr u" "tfold f (xs @ ys) u = Inr r" by (auto simp: tryr_Inr_iff)
  obtain w where "f b p = Inr w" "f a w = Inr u" using commute [OF Cons.prems(1) _ q(1) u(1)] Cons.prems(2) by auto
  with u(2) show ?case by simp
qed simp

lemma perm:
  assumes "mset as = mset bs" "distinct (map key as)" "ok p" "tfold f as p = Inr r"
  shows "tfold f bs p = Inr r"
  using assms
proof (induction bs arbitrary: as p)
  case (Cons b bs)
  have "b \<in> set as" using Cons.prems(1) by (metis list.set_intros(1) mset_eq_setD)
  then obtain xs ys where as: "as = xs @ b # ys" by (meson split_list)
  have "tfold f (b # xs @ ys) p = Inr r"
    by (rule to_front) (use Cons.prems as in auto)
  then obtain q where q: "f b p = Inr q" "tfold f (xs @ ys) q = Inr r" by (auto simp: tryr_Inr_iff)
  have "tfold f bs q = Inr r"
    by (rule Cons.IH [OF _ _ _ q(2)]) (use Cons.prems as q(1) keep in auto)
  with q(1) show ?case by simp
qed simp

end

definition attr_key :: "xml_attr \<Rightarrow> string option \<times> string" where
  "attr_key a = (at_ns a, at_name a)"

lemma bt_insert_commute:
  assumes "bt_wf m" "k \<noteq> l" "k \<notin> fst ` set m" "l \<notin> fst ` set m"
  shows "bt_insert k v (bt_insert l w m) = bt_insert l w (bt_insert k v m)"
  by (rule bt_eqI) (use assms in \<open>auto simp: bt_wf_insert set_bt_insert keys_bt_insert\<close>)

lemma property_attrs_tfold: "property_attrs_from as p = tfold property_attr as p"
  by (induction as arbitrary: p) (auto simp: tryr_def split: sum.splits)

definition field_attr :: "bool \<Rightarrow> xml_attr \<Rightarrow> properties \<Rightarrow> rdf_error + properties" where
  "field_attr toplevel a m =
     (if at_ns a = Some RDF \<and> at_name a = ''about'' \<and> toplevel then Inr m
      else
        tryr (guard (at_ns a \<noteq> Some RDF \<and> at_ns a \<noteq> Some XML) ''unsupported RDF structure attribute'') (\<lambda>_.
        tryr (rdf_name (at_ns a) (at_name a)) (\<lambda>k.
        rdf_insert m k (Literal (at_value a)))))"

lemma field_attrs_tfold: "field_attrs toplevel as m = tfold (field_attr toplevel) as m"
  by (induction as arbitrary: m) (auto simp: field_attr_def tryr_def split: sum.splits)

interpretation field_attrs: commuting "field_attr toplevel" attr_key bt_wf
proof
  fix p q a assume "bt_wf p" "field_attr toplevel a p = Inr q"
  then show "bt_wf q" by (auto simp: field_attr_def tryr_Inr_iff rdf_insert_Inr bt_wf_insert split: if_splits)
next
  fix p q r :: properties and a b
  assume "bt_wf p" "attr_key a \<noteq> attr_key b" "field_attr toplevel a p = Inr q" "field_attr toplevel b q = Inr r"
  then show "\<exists>u. field_attr toplevel b p = Inr u \<and> field_attr toplevel a u = Inr r"
    by (auto simp: field_attr_def tryr_Inr_iff rdf_insert_Inr rdf_name_Inr keys_bt_insert attr_key_def prod_eq_iff
        bt_insert_commute split: if_splits)
qed

interpretation property_attrs: commuting property_attr attr_key pa_ok
proof
  fix p q a assume "pa_ok p" "property_attr a p = Inr q"
  then show "pa_ok q" using property_attr_ok by blast
next
  fix p q r :: property_attrs and a b
  assume "pa_ok p" "attr_key a \<noteq> attr_key b" "property_attr a p = Inr q" "property_attr b q = Inr r"
  then show "\<exists>u. property_attr b p = Inr u \<and> property_attr a u = Inr r"
    by (auto simp: property_attr_def tryr_Inr_iff rdf_insert_Inr rdf_name_Inr keys_bt_insert attr_key_def prod_eq_iff
        bt_insert_commute pa_ok_def canon_map_def split: if_splits)
qed

end
