(* ===== verification/RDF_Writer.thy ===== *)
theory RDF_Writer
  imports RDF_Correct
begin

text \<open>
  A writer of RDF, as the specification of the reading: every canonical model has a document, and
  the reading of that document is the model.
\<close>

section \<open>The writer\<close>

definition attr :: "string \<Rightarrow> string \<Rightarrow> string \<Rightarrow> xml_attr" where
  "attr ns t v = \<lparr>at_ns = Some ns, at_name = t, at_value = v\<rparr>"

definition lang_attr :: "string \<Rightarrow> xml_attr" where
  "lang_attr l = attr XML ''lang'' l"

text \<open>A language that can be an attribute is a literal in lower case.\<close>

definition language_of :: "properties \<Rightarrow> string option" where
  "language_of qs =
     (case map_of qs (XML, ''lang'') of
        Some (Literal l) \<Rightarrow> if map ascii_lower l = l then Some l else None
      | _ \<Rightarrow> None)"

definition other_qualifiers :: "properties \<Rightarrow> properties" where
  "other_qualifiers qs = (if language_of qs = None then qs else bt_remove (XML, ''lang'') qs)"

lemma other_qualifiers_subset: "p \<in> set (other_qualifiers qs) \<Longrightarrow> p \<in> set qs"
  by (auto simp: other_qualifiers_def bt_remove_def split: if_splits)

definition language_attrs :: "properties \<Rightarrow> xml_attr list" where
  "language_attrs qs = (case language_of qs of None \<Rightarrow> [] | Some l \<Rightarrow> [lang_attr l])"

definition resource_attrs :: "xml_attr list" where
  "resource_attrs = [attr RDF ''parseType'' ''Resource'']"

lemma size_entry: "(k, v) \<in> set m \<Longrightarrow> size v \<le> size_list (size_prod (\<lambda>x. 0) size) m"
proof (induction m)
  case (Cons p m)
  then show ?case by (cases p) auto
qed simp

lemma size_member: "v \<in> set vs \<Longrightarrow> size v \<le> size_list size vs"
  by (induction vs) auto

lemma size_other: "(k, v) \<in> set (other_qualifiers qs) \<Longrightarrow> size v \<le> size_list (size_prod (\<lambda>x. 0) size) qs"
  by (rule size_entry, erule other_qualifiers_subset)

function write_property :: "xml_attr list \<Rightarrow> rdf_name \<Rightarrow> rdf_value \<Rightarrow> xnode" where
  "write_property as k (Literal s) = Element (Some (fst k)) (snd k) as [TextNode s]"
| "write_property as k (Uri u) = Element (Some (fst k)) (snd k) (attr RDF ''resource'' u # as) []"
| "write_property as k (Struct m) = Element (Some (fst k)) (snd k) (resource_attrs @ as) (map (\<lambda>(j, v). write_property [] j v) m)"
| "write_property as k (Array f vs) = Element (Some (fst k)) (snd k) as [Element (Some RDF) f [] (map (write_property [] (RDF, ''li'')) vs)]"
| "write_property as k (Qualified v qs) =
     (if other_qualifiers qs = [] then write_property (language_attrs qs @ as) k v
      else Element (Some (fst k)) (snd k) (resource_attrs @ language_attrs qs @ as)
        (write_property [] (RDF, ''value'') v # map (\<lambda>(j, w). write_property [] j w) (other_qualifiers qs)))"
  by pat_completeness auto

termination
  by (relation "measure (\<lambda>(as, k, v). size v)")
    (auto intro!: le_imp_less_Suc size_member trans_le_add1 elim: size_entry size_other)

declare write_property.simps [simp del]

section \<open>The reading of what was written\<close>

lemma write_tag [simp]:
  "el_ns (write_property as k v) = Some (fst k)" "el_name (write_property as k v) = snd k" "is_element (write_property as k v)"
  by (induction as k v rule: write_property.induct) (simp_all add: write_property.simps is_element_def)

abbreviation written :: "properties \<Rightarrow> xnode list" where
  "written m \<equiv> map (\<lambda>(k, v). write_property [] k v) m"

lemma child_simps:
  "child_elements (Element ns t as cs) = filter is_element cs"
  "child_texts (Element ns t as cs) = concat (map (\<lambda>c. case c of TextNode s \<Rightarrow> [s] | _ \<Rightarrow> []) cs)"
  by (simp_all add: child_elements_def child_texts_def)

lemma no_texts: "\<forall>c \<in> set cs. is_element c \<Longrightarrow> child_texts (Element ns t as cs) = [] \<and> child_elements (Element ns t as cs) = cs"
  by (induction cs) (auto simp: child_simps is_element_def split: xnode.splits)

lemma all_written: "\<forall>c \<in> set (written m). is_element c"
  by auto

lemma members_written:
  assumes "\<forall>p \<in> set ps. rdf_property (write_property [] (fst p) (snd p)) = Inr (snd p)"
    and "checked \<longrightarrow> (\<forall>p \<in> set ps. fst (fst p) \<noteq> RDF \<or> snd (fst p) \<in> {''value'', ''type''})"
  shows "members checked (written ps) m = insert_all ps m"
  using assms
proof (induction ps arbitrary: m)
  case (Cons p ps)
  obtain k v where p: "p = (k, v)" by (rule prod.exhaust)
  have "members checked (written ps) = insert_all ps" by (rule ext, rule Cons.IH) (use Cons.prems in auto)
  with Cons.prems show ?case by (auto simp: p rdf_name_def)
qed simp

lemma insert_all_wf: "bt_wf ps \<Longrightarrow> insert_all ps [] = Inr ps"
  by (simp add: insert_all_iff bt_wf_distinct)

lemma items_written:
  "\<forall>v \<in> set vs. rdf_property (write_property [] (RDF, ''li'') v) = Inr v \<Longrightarrow> items (map (write_property [] (RDF, ''li'')) vs) = Inr vs"
  by (induction vs) (simp_all add: has_tag_def)

text \<open>The attributes that the writer makes.\<close>

definition lang_map :: "string \<Rightarrow> properties" where
  "lang_map l = [((XML, ''lang''), Literal l)]"

definition attrs_record :: "properties \<Rightarrow> string option \<Rightarrow> bool \<Rightarrow> property_attrs" where
  "attrs_record m u b = \<lparr>pa_fields = [], pa_language = m, pa_resource = u, pa_scalar = None, pa_structure = b\<rparr>"

lemma written_attrs:
  "property_attrs (Element ns t [] cs) = Inr (attrs_record [] None False)"
  "property_attrs (Element ns t resource_attrs cs) = Inr (attrs_record [] None True)"
  "property_attrs (Element ns t [attr RDF ''resource'' u] cs) = Inr (attrs_record [] (Some u) False)"
  "map ascii_lower l = l \<Longrightarrow> property_attrs (Element ns t [lang_attr l] cs) = Inr (attrs_record (lang_map l) None False)"
  "map ascii_lower l = l \<Longrightarrow> property_attrs (Element ns t (resource_attrs @ [lang_attr l]) cs) = Inr (attrs_record (lang_map l) None True)"
  "map ascii_lower l = l \<Longrightarrow> property_attrs (Element ns t [attr RDF ''resource'' u, lang_attr l] cs) = Inr (attrs_record (lang_map l) (Some u) False)"
  by (simp_all add: property_attrs_def property_attr_def attr_def lang_attr_def resource_attrs_def rdf_insert_def lang_map_def attrs_record_def)

lemma attrs_record_simps [simp]:
  "pa_fields (attrs_record m u b) = []" "pa_language (attrs_record m u b) = m" "pa_resource (attrs_record m u b) = u"
  "pa_scalar (attrs_record m u b) = None" "pa_structure (attrs_record m u b) = b" "given (attrs_record m u b) \<longleftrightarrow> u \<noteq> None"
  by (simp_all add: attrs_record_def given_def)

lemma qualified_plain: "\<forall>u ps. v \<noteq> Qualified u ps \<Longrightarrow> qualified_value v qs = Inr (if qs = [] then v else Qualified v qs)"
  by (cases v) (simp_all add: qualified_value_def)

lemma array_written:
  assumes "canon (Array f vs)"
  shows "array_value f vs = Inr (Array f vs)"
proof -
  have "language_alternatives vs = Inr (vs \<noteq> [] \<and> (\<forall>v \<in> set vs. tagged v))" if "f = ''Alt''"
    using assms that by (simp add: language_alternatives_iff)
  with assms show ?thesis by (auto simp: array_value_def sorted_sort_id)
qed

text \<open>Two ways to write the language: none, or as an attribute that qualifies the value.\<close>

definition read_back :: "rdf_name \<Rightarrow> rdf_value \<Rightarrow> bool" where
  "read_back k v \<longleftrightarrow>
     rdf_property (write_property [] k v) = Inr v
     \<and> (\<forall>l. map ascii_lower l = l \<longrightarrow> (\<forall>w qs. v \<noteq> Qualified w qs)
          \<longrightarrow> rdf_property (write_property [lang_attr l] k v) = Inr (Qualified v (lang_map l)))"

lemma lang_map_nonempty [simp]: "lang_map l \<noteq> []"
  by (simp add: lang_map_def)

lemma literal_back: "read_back k (Literal s)"
  by (auto simp: read_back_def write_property.simps rdf_property_Inr [OF written_attrs(1)] rdf_property_Inr [OF written_attrs(4)]
      child_simps is_element_def text_property_def qualified_plain)

lemma uri_back: "read_back k (Uri u)"
  by (auto simp: read_back_def write_property.simps rdf_property_Inr [OF written_attrs(3)] rdf_property_Inr [OF written_attrs(6)]
      child_simps is_element_def leaf_property_def qualified_plain rdf_insert_def lang_map_def)

lemma struct_back:
  assumes "canon (Struct m)" "\<And>j v. (j, v) \<in> set m \<Longrightarrow> read_back j v"
  shows "read_back k (Struct m)"
proof -
  have "members False (written m) [] = insert_all m []"
    by (rule members_written) (use assms(2) in \<open>auto simp: read_back_def\<close>)
  then have m: "members False (written m) [] = Inr m" using insert_all_wf assms(1) by simp
  have "valued m = Inr (Struct m)"
    using assms(1) by (auto simp: valued_def split: option.splits dest!: map_of_SomeD)
  with m show ?thesis
    by (auto simp: read_back_def write_property.simps rdf_property_Inr [OF written_attrs(2)]
        rdf_property_Inr [OF written_attrs(5)] no_texts all_written spaced_def qualified_plain)
qed

lemma array_back:
  assumes "canon (Array f vs)" "\<And>v. v \<in> set vs \<Longrightarrow> read_back (RDF, ''li'') v"
  shows "read_back k (Array f vs)"
proof -
  let ?c = "Element (Some RDF) f [] (map (write_property [] (RDF, ''li'')) vs)"
  have "items (map (write_property [] (RDF, ''li'')) vs) = Inr vs"
    by (rule items_written) (use assms(2) in \<open>auto simp: read_back_def\<close>)
  then have "child_value ?c = Inr (Array f vs)"
    using array_written [OF assms(1)] assms(1) no_texts [of "map (write_property [] (RDF, ''li'')) vs"]
    by (auto simp: child_value_Inr is_array_def spaced_def)
  moreover have "child_elements (Element ns t as [?c]) = [?c]" "spaced (Element ns t as [?c])" for ns t as
    by (simp_all add: child_simps is_element_def spaced_def)
  ultimately show ?thesis
    by (auto simp: read_back_def write_property.simps rdf_property_Inr [OF written_attrs(1)]
        rdf_property_Inr [OF written_attrs(4)] qualified_plain)
qed

lemma other_none: "language_of qs = None \<Longrightarrow> other_qualifiers qs = qs"
  by (simp add: other_qualifiers_def)

lemma language_Some:
  assumes "language_of qs = Some l"
  shows "map_of qs (XML, ''lang'') = Some (Literal l)" "map ascii_lower l = l"
  using assms by (auto simp: language_of_def split: option.splits rdf_value.splits if_splits)

lemma language_put_back:
  assumes "bt_wf qs" "language_of qs = Some l"
  shows "insert_all (other_qualifiers qs) (lang_map l) = Inr qs"
proof -
  have rest: "other_qualifiers qs = bt_remove (XML, ''lang'') qs" using assms(2) by (simp add: other_qualifiers_def)
  have "set qs = insert ((XML, ''lang''), Literal l) (set (bt_remove (XML, ''lang'') qs))"
    using map_of_SomeD [OF language_Some(1) [OF assms(2)]] eq_key_imp_eq_value [OF bt_wf_distinct [OF assms(1)]]
    by (auto simp: bt_remove_def)
  moreover have "distinct (map fst (bt_remove (XML, ''lang'') qs))" by (rule bt_wf_distinct [OF bt_wf_remove [OF assms(1)]])
  moreover have "bt_wf (lang_map l)" by (simp add: bt_wf_def lang_map_def)
  ultimately show ?thesis using assms(1) by (auto simp: rest insert_all_iff lang_map_def bt_remove_def)
qed

lemma qualifiers_back:
  assumes "bt_wf qs" "\<forall>u ps. v \<noteq> Qualified u ps" "other_qualifiers qs \<noteq> []"
  shows "qualified_value (Qualified v (other_qualifiers qs)) (case language_of qs of None \<Rightarrow> [] | Some l \<Rightarrow> lang_map l) = Inr (Qualified v qs)"
proof (cases "language_of qs")
  case None
  with assms show ?thesis by (simp add: qualified_value_def other_none insert_all_wf)
next
  case (Some l)
  have "qs \<noteq> []" using assms(3) Some by (auto simp: other_qualifiers_def bt_remove_def)
  with language_put_back [OF assms(1) Some] Some show ?thesis by (simp add: qualified_value_def)
qed

lemma valued_back:
  assumes "bt_wf qs" "no_value qs" "qs \<noteq> []" "\<forall>u ps. v \<noteq> Qualified u ps"
  shows "\<exists>m. insert_all (((RDF, ''value''), v) # qs) [] = Inr m \<and> valued m = Inr (Qualified v qs)"
proof -
  let ?m = "bt_insert (RDF, ''value'') v qs"
  have fresh: "(RDF, ''value'') \<notin> fst ` set qs" using assms(2) by (simp add: no_value_iff)
  have set: "set ?m = insert ((RDF, ''value''), v) (set qs)" by (rule set_bt_insert [OF fresh])
  have wf: "bt_wf ?m" by (rule bt_wf_insert [OF assms(1)])
  have "distinct (map fst (((RDF, ''value''), v) # qs))" using fresh bt_wf_distinct [OF assms(1)] by simp
  then have ins: "insert_all (((RDF, ''value''), v) # qs) [] = Inr ?m"
    unfolding insert_all_iff [OF bt_wf_Nil] set using wf by simp
  have "set (bt_remove (RDF, ''value'') ?m) = set qs"
    unfolding bt_remove_def set_filter set using fresh by force
  then have "bt_remove (RDF, ''value'') ?m = qs"
    by (rule bt_eqI [OF bt_wf_remove [OF wf] assms(1)])
  then have "valued ?m = Inr (Qualified v qs)"
    using assms(3,4) by (simp add: valued_def map_of_bt_insert qualified_plain)
  with ins show ?thesis by blast
qed

lemma bt_wf_other: "bt_wf qs \<Longrightarrow> bt_wf (other_qualifiers qs)"
  by (simp add: other_qualifiers_def bt_wf_remove)

lemma only_language:
  assumes "bt_wf qs" "qs \<noteq> []" "other_qualifiers qs = []"
  shows "\<exists>l. language_of qs = Some l \<and> qs = lang_map l"
proof (cases "language_of qs")
  case None
  with assms show ?thesis by (simp add: other_none)
next
  case (Some l)
  have "insert_all [] (lang_map l) = Inr qs" using language_put_back [OF assms(1) Some] assms(3) by simp
  with Some show ?thesis by simp
qed

lemma qualified_back:
  assumes "canon (Qualified v qs)" "\<And>k. read_back k v" "\<And>j w. (j, w) \<in> set qs \<Longrightarrow> read_back j w"
  shows "read_back k (Qualified v qs)"
proof -
  have wf: "bt_wf qs" and plain: "\<forall>u ps. v \<noteq> Qualified u ps" and qs: "qs \<noteq> []" "no_value qs"
    using assms(1) by (auto simp: no_value_def)
  let ?rest = "other_qualifiers qs"
  have "rdf_property (write_property [] k (Qualified v qs)) = Inr (Qualified v qs)"
  proof (cases "?rest = []")
    case True
    then obtain l where l: "language_of qs = Some l" "qs = lang_map l" using only_language [OF wf qs(1)] by blast
    with True assms(2) plain language_Some(2) [OF l(1)] show ?thesis
      by (simp add: read_back_def write_property.simps language_attrs_def)
  next
    case False
    have rest: "no_value ?rest" using qs(2) other_qualifiers_subset by (auto simp: no_value_def)
    obtain m where m: "insert_all (((RDF, ''value''), v) # ?rest) [] = Inr m" "valued m = Inr (Qualified v ?rest)"
      using valued_back [OF bt_wf_other [OF wf] rest False plain] by blast
    have "members False (written (((RDF, ''value''), v) # ?rest)) [] = insert_all (((RDF, ''value''), v) # ?rest) []"
    proof (rule members_written)
      show "\<forall>p \<in> set (((RDF, ''value''), v) # ?rest). rdf_property (write_property [] (fst p) (snd p)) = Inr (snd p)"
        using assms(2,3) other_qualifiers_subset by (force simp: read_back_def)
    qed simp
    then have m: "members False (written (((RDF, ''value''), v) # ?rest)) [] = Inr m" "valued m = Inr (Qualified v ?rest)"
      using m by simp_all
    have inner: "child_elements (Element ns t bs (written (((RDF, ''value''), v) # ?rest))) = written (((RDF, ''value''), v) # ?rest)"
      "spaced (Element ns t bs (written (((RDF, ''value''), v) # ?rest)))" for ns t bs
      using no_texts [OF all_written, of ns t bs "((RDF, ''value''), v) # ?rest"] unfolding spaced_def by (simp_all del: list.map)
    have shape: "write_property [] k (Qualified v qs) =
        Element (Some (fst k)) (snd k) (resource_attrs @ language_attrs qs) (written (((RDF, ''value''), v) # ?rest))"
      using False by (simp add: write_property.simps)
    have restored: "qualified_value (Qualified v ?rest) (case language_of qs of None \<Rightarrow> [] | Some l \<Rightarrow> lang_map l) = Inr (Qualified v qs)"
      by (rule qualifiers_back [OF wf plain False])
    show ?thesis
    proof (cases "language_of qs")
      case None
      with m restored inner show ?thesis
        unfolding shape language_attrs_def by (simp add: rdf_property_Inr [OF written_attrs(2)] del: list.map)
    next
      case (Some l)
      with m restored inner show ?thesis
        unfolding shape language_attrs_def
        by (simp add: rdf_property_Inr [OF written_attrs(5) [OF language_Some(2) [OF Some], unfolded append_Cons append_Nil]] del: list.map append.simps)
    qed
  qed
  with plain show ?thesis by (simp add: read_back_def)
qed

lemma write_back: "canon v \<Longrightarrow> read_back k v"
proof (induction v arbitrary: k)
  case (Literal s)
  show ?case by (rule literal_back)
next
  case (Uri u)
  show ?case by (rule uri_back)
next
  case (Struct m)
  show ?case
    by (rule struct_back [OF Struct.prems]) (use Struct in \<open>force simp: snds.simps\<close>)
next
  case (Array f vs)
  show ?case by (rule array_back [OF Array.prems]) (use Array in auto)
next
  case (Qualified v qs)
  show ?case
    by (rule qualified_back [OF Qualified.prems]) (use Qualified in \<open>force simp: snds.simps\<close>)+
qed

end
