(* ===== verification/RDF_Properties.thy ===== *)
theory RDF_Properties
  imports RDF_Writer
begin

text \<open>
  Properties of the RDF comparison: it decides equality of the models, under an account of storage
  that always balances; every canonical model survives being written and read; neither the order
  of attributes, fields and members of bags nor the compact forms of a structure matter.
\<close>

section \<open>Errors\<close>

text \<open>The reading itself fails with refusals only.\<close>

definition refuses :: "rdf_error + 'a \<Rightarrow> bool" where
  "refuses r \<longleftrightarrow> (case r of Inl e \<Rightarrow> (\<exists>message. e = Refusal message) | Inr x \<Rightarrow> True)"

lemma refuses_simps [simp]: "refuses (Inr x)" "refuses (Inl (Refusal m))" "refuses (guard b m)"
  by (simp_all add: refuses_def guard_def)

lemma refuses_tryr [intro!]: "refuses r \<Longrightarrow> (\<And>x. r = Inr x \<Longrightarrow> refuses (f x)) \<Longrightarrow> refuses (tryr r f)"
  by (cases r) (simp_all add: refuses_def)

lemma refuses_name [simp]: "refuses (rdf_name ns t)"
  by (simp add: rdf_name_def split: option.split)

lemma refuses_insert [simp]: "refuses (rdf_insert m k v)"
  unfolding rdf_insert_def by (rule refuses_tryr) simp_all

lemma refuses_insert_all [simp]: "refuses (insert_all ps m)"
  by (induction ps arbitrary: m) auto

lemma refuses_elements [simp]: "refuses (elements n)"
  unfolding elements_def by (rule refuses_tryr) simp_all

lemma refuses_qualified [simp]: "refuses (qualified_value v qs)"
  unfolding qualified_value_def by (intro refuses_tryr) (auto split: rdf_value.split)

lemma refuses_property_attr [simp]: "refuses (property_attr a p)"
  by (auto simp: property_attr_def)

lemma refuses_property_attrs_from: "refuses (property_attrs_from as p)"
  by (induction as arbitrary: p) auto

lemma refuses_property_attrs [simp]: "refuses (property_attrs n)"
  unfolding property_attrs_def by (rule refuses_property_attrs_from)

lemma refuses_leaf [simp]: "refuses (leaf_property n p)"
  unfolding leaf_property_def by (intro refuses_tryr) simp_all

lemma refuses_text [simp]: "refuses (text_property n p)"
  unfolding text_property_def by (intro refuses_tryr) auto

lemma refuses_valued [simp]: "refuses (valued m)"
  by (simp add: valued_def split: option.split)

lemma refuses_field_attrs [simp]: "refuses (field_attrs toplevel as m)"
  by (induction as arbitrary: m) auto

lemma refuses_alternatives: "refuses (alternatives vs L a)"
  by (induction vs arbitrary: L a) (auto split: rdf_value.split option.split)

lemma refuses_array [simp]: "refuses (array_value f vs)"
  unfolding array_value_def language_alternatives_def by (intro refuses_tryr) (auto simp: refuses_alternatives)

lemma refuses_node [simp]: "refuses (node_value n m)"
  unfolding node_value_def by (intro refuses_tryr) (auto split: option.split)

lemma refuses_reading [simp]:
  "refuses (rdf_property n)" "refuses (rdf_fields n toplevel)" "refuses (members checked es m)" "refuses (items es)"
proof (induction n and n toplevel and checked es m and es rule: rdf_property_rdf_fields_members_items.induct)
  case (1 n)
  then show ?case unfolding rdf_property.simps [of n] by (intro refuses_tryr) auto
next
  case (2 n toplevel)
  then show ?case unfolding rdf_fields.simps [of n] by (intro refuses_tryr) auto
next
  case (4 checked e es m)
  then show ?case unfolding members.simps by (intro refuses_tryr) auto
next
  case (6 e es)
  then show ?case unfolding items.simps by (intro refuses_tryr) auto
qed simp_all

lemma refuses_descriptions [simp]: "refuses (descriptions ds subject m)"
  by (induction ds subject m rule: descriptions.induct) (auto simp: Let_def)

lemma refuses_check [simp]: "refuses (check_elements es)"
  by (induction es rule: check_elements.induct) auto

lemma refuses_model [simp]: "refuses (read_model doc)"
  by (auto simp: read_model_def split: list.split)

lemma refuses_same [simp]: "refuses (same_model a b)"
  by (auto simp: same_model_def)

section \<open>Models\<close>

lemma descriptions_canon:
  "descriptions ds subject m = Inr r \<Longrightarrow> canon_map m \<Longrightarrow> canon_map (md_properties r)"
proof (induction ds subject m rule: descriptions.induct)
  case (2 d ds subject m)
  then obtain ps u where ps: "rdf_fields d True = Inr ps" "insert_all ps m = Inr u"
    "descriptions ds (Some (case attribute RDF ''about'' d of None \<Rightarrow> [] | Some s \<Rightarrow> s)) u = Inr r"
    by (auto simp: tryr_Inr_iff Let_def)
  have "canon_map ps" by (rule fields_canon [OF ps(1) property_canon])
  then have "canon_map u" using insert_all_canon [OF ps(2) "2.prems"(2)] by (simp add: canon_map_def)
  with "2.IH" ps "2.prems"(1) show ?case by (auto simp: tryr_Inr_iff Let_def)
qed auto

lemma read_model_canon: "read_model doc = Inr r \<Longrightarrow> canon_map (md_properties r)"
  by (auto simp: read_model_def tryr_Inr_iff split: list.splits dest: descriptions_canon [OF _ canon_map_Nil])

lemma same_model_iff:
  assumes "bt_wf (md_properties a)" "bt_wf (md_properties b)"
  shows "same_model a b = Inr () \<longleftrightarrow> a = b"
proof
  assume "same_model a b = Inr ()"
  then have s: "md_subject a = md_subject b" "length (md_properties a) = length (md_properties b)"
    "\<And>k v. (k, v) \<in> set (md_properties a) \<Longrightarrow> map_of (md_properties b) k = Some v"
    by (auto simp: same_model_def tryr_Inr_iff list_all_iff)
  have sub: "set (md_properties a) \<subseteq> set (md_properties b)" using s(3) by (auto dest: map_of_SomeD)
  have "distinct (md_properties a)" "distinct (md_properties b)"
    using assms bt_wf_distinct distinct_map by blast+
  with s(2) have "card (set (md_properties a)) = card (set (md_properties b))" by (simp add: distinct_card)
  with sub have "set (md_properties a) = set (md_properties b)" by (intro card_subset_eq) simp_all
  with s(1) bt_eqI [OF assms] show "a = b" by simp
next
  assume "a = b"
  have "map_of (md_properties b) k = Some v" if "(k, v) \<in> set (md_properties b)" for k v
    using that bt_wf_distinct [OF assms(2)] by simp
  with \<open>a = b\<close> show "same_model a b = Inr ()" by (auto simp: same_model_def list_all_iff guard_def)
qed

section \<open>The account of storage\<close>

definition grown :: "nat \<Rightarrow> requested \<Rightarrow> requested \<Rightarrow> bool" where
  "grown n s t \<longleftrightarrow> rs_live t = rs_live s + n \<and> rs_high s \<le> rs_high t"

text \<open>What an error says: of the caller's account, or of the texts (\<open>P\<close>).\<close>

definition explained :: "rdf_env \<Rightarrow> bool \<Rightarrow> rdf_error \<Rightarrow> bool" where
  "explained e P x \<longleftrightarrow>
     (case x of
        Refusal message \<Rightarrow> P
      | NotAdmitted \<Rightarrow> \<exists>n. \<not> admits e n
      | StorageOverflow \<Rightarrow> True
      | ScopeImbalance \<Rightarrow> False)"

lemma scope_run:
  "scope e n s = (Inr (), t) \<and> grown n s t \<or> (\<exists>x. scope e n s = (Inl x, s) \<and> x \<noteq> ScopeImbalance \<and> explained e False x)"
  if "t = snd (scope e n s)" for t
  using that by (auto simp: scope_def bindc_def grown_def explained_def checked_add_def)

lemma drop_run: "rs_live t = live + n \<Longrightarrow> drop_scope n t = (Inr (), t\<lparr>rs_live := live\<rparr>)"
  by (simp add: drop_scope_def)

definition readable :: "rdf_env \<Rightarrow> string \<Rightarrow> rdf_model \<Rightarrow> bool" where
  "readable e text m \<longleftrightarrow>
     length text \<le> MAX_BYTES
     \<and> (\<exists>doc. parse_xml e text = Some doc \<and> check_elements (document_elements doc) = Inr () \<and> read_model doc = Inr m)"

lemma explained_refusal: "refuses r \<Longrightarrow> r = Inl x \<Longrightarrow> P \<Longrightarrow> explained e P x"
  by (auto simp: refuses_def explained_def)

lemma storage_overflow:
  "addr a b = Inl x \<Longrightarrow> x = StorageOverflow" "mulr a b = Inl x \<Longrightarrow> x = StorageOverflow"
  by (auto simp: addr_def mulr_def split: option.splits)

text \<open>Computations of storage fail by overflow only.\<close>

definition overflows :: "rdf_error + 'a \<Rightarrow> bool" where
  "overflows r \<longleftrightarrow> (\<forall>x. r = Inl x \<longrightarrow> x = StorageOverflow)"

lemma overflows_simps [simp]: "overflows (Inr x)" "overflows (addr a b)" "overflows (mulr a b)"
  by (auto simp: overflows_def dest: storage_overflow)

lemma overflows_tryr [intro!]: "overflows r \<Longrightarrow> (\<And>x. r = Inr x \<Longrightarrow> overflows (f x)) \<Longrightarrow> overflows (tryr r f)"
  by (cases r) (simp_all add: overflows_def)

lemma overflows_sum [simp]: "overflows (sum_storage n ks)"
  by (induction ks arbitrary: n) auto

lemma overflows_vector [simp]: "overflows (overlapping_vector a b c)"
  by (auto simp: overlapping_vector_def)

lemma overflows_document: "overflows (xml_document text)"
  unfolding xml_document_def Let_def by (intro overflows_tryr) simp_all

lemma overflows_attrs [simp]: "overflows (attrs_storage as s)"
  by (induction as arbitrary: s) (auto simp: attr_storage_def)

lemma overflows_elements [simp]: "overflows (elements_storage es s)"
  by (induction es s rule: elements_storage.induct) (auto simp: element_storage_def)

lemma overflows_node [simp]: "overflows (tree_node_layout l)"
  unfolding tree_node_layout_def Let_def by (intro overflows_tryr) simp_all

lemma overflows_model: "overflows (rdf_model_storage l doc)"
  unfolding rdf_model_storage_def by (intro overflows_tryr) (simp_all del: sum_storage.simps)

lemma explained_overflow: "overflows r \<Longrightarrow> r = Inl x \<Longrightarrow> explained e P x"
  by (auto simp: overflows_def explained_def)

lemma explained_weaken: "explained e False x \<Longrightarrow> explained e P x"
  by (auto simp: explained_def split: rdf_error.splits)

text \<open>How a computation under the account ends: balanced after an error, holding \<open>h x\<close> after a value.\<close>

definition accounted :: "rdf_env \<Rightarrow> bool \<Rightarrow> requested \<Rightarrow> ('a \<Rightarrow> nat) \<Rightarrow> ('a \<Rightarrow> bool) \<Rightarrow> (rdf_error + 'a) \<times> requested \<Rightarrow> bool" where
  "accounted e P s h Q out \<longleftrightarrow>
     (case fst out of
        Inl x \<Rightarrow> grown 0 s (snd out) \<and> explained e P x
      | Inr x \<Rightarrow> grown (h x) s (snd out) \<and> Q x)"

lemma grown_refl: "grown 0 s s"
  by (simp add: grown_def)

lemma accounted_owning:
  assumes "grown n s u" "accounted e P u h Q (m u)"
  shows "accounted e P s h Q (owning n m u)"
proof -
  obtain r t where run: "m u = (r, t)" by (rule prod.exhaust)
  show ?thesis
  proof (cases r)
    case (Inl x)
    with assms run have live: "rs_live t = rs_live s + n" "rs_high s \<le> rs_high t" by (auto simp: accounted_def grown_def)
    from Inl run assms(2) live(2) show ?thesis
      by (simp add: owning_def catchc_def bindc_def lift_sum_def accounted_def grown_def drop_run [OF live(1)])
  next
    case (Inr x)
    with assms run have live: "rs_live t = (rs_live s + h x) + n" "rs_high s \<le> rs_high t" by (auto simp: accounted_def grown_def)
    from Inr run assms(2) live(2) show ?thesis
      by (simp add: owning_def catchc_def bindc_def lift_sum_def accounted_def grown_def drop_run [OF live(1)])
  qed
qed

lemma scope_cases:
  obtains (entered) t where "scope e n s = (Inr (), t)" "grown n s t"
  | (shut) x where "scope e n s = (Inl x, s)" "\<And>P. explained e P x"
  using scope_run [of "snd (scope e n s)" e n s] explained_weaken [where e = e] by metis

lemma accounted_model:
  "accounted e (\<nexists>m. readable e text m) s snd (\<lambda>p. readable e text (fst p)) (model_admitted e text s)"
  (is "accounted e ?P s snd ?Q _")
proof (cases "length text \<le> MAX_BYTES")
  case False
  then show ?thesis by (simp add: model_admitted_def accounted_def grown_refl explained_def readable_def)
next
  case len: True
  let ?body = "\<lambda>doc. bindc (lift_sum (check_elements (document_elements doc))) (\<lambda>_.
       bindc (lift_sum (rdf_model_storage (layouts e) doc)) (\<lambda>n.
       bindc (scope e n) (\<lambda>_.
       bindc (passing n (lift_sum (read_model doc))) (\<lambda>m.
       ret (m, n)))))"
  have body: "accounted e ?P u snd ?Q (?body doc u)" if doc: "parse_xml e text = Some doc" for doc u
  proof (cases "check_elements (document_elements doc)")
    case (Inl x)
    with doc have ?P by (auto simp: readable_def)
    with Inl show ?thesis
      using explained_refusal [OF refuses_check Inl, of ?P e] by (simp add: lift_sum_def accounted_def grown_refl)
  next
    case check: (Inr y)
    show ?thesis
    proof (cases "rdf_model_storage (layouts e) doc")
      case (Inl x)
      with check show ?thesis
        using explained_overflow [OF overflows_model Inl, of e ?P] by (simp add: lift_sum_def accounted_def grown_refl)
    next
      case storage: (Inr n)
      show ?thesis
      proof (cases rule: scope_cases [where e = e and n = n and s = u])
        case (shut x)
        with check storage show ?thesis by (simp add: lift_sum_def accounted_def grown_refl bindc_Inl)
      next
        case (entered t)
        have step: "bindc (scope e n) g u = g () t" for g :: "unit \<Rightarrow> (rdf_model \<times> nat) storing"
          using entered(1) by (simp add: bindc_def)
        have live: "rs_live t = rs_live u + n" "rs_high u \<le> rs_high t" using entered(2) by (simp_all add: grown_def)
        show ?thesis
        proof (cases "read_model doc")
          case (Inl x)
          with doc have ?P by (auto simp: readable_def)
          then have "explained e ?P x" using explained_refusal [OF refuses_model Inl] by blast
          with Inl check storage live(2) show ?thesis
            by (simp add: lift_sum_def step) (simp add: passing_def catchc_def bindc_def drop_run [OF live(1)] accounted_def grown_def)
        next
          case (Inr m)
          with doc len check have "readable e text m" by (auto simp: readable_def)
          with Inr check storage entered(2) show ?thesis
            by (simp add: lift_sum_def step) (simp add: passing_def catchc_def bindc_def accounted_def)
        qed
      qed
    qed
  qed
  show ?thesis
  proof (cases "xml_document text")
    case (Inl x)
    with len show ?thesis
      using explained_overflow [OF overflows_document Inl, of e ?P] by (simp add: model_admitted_def lift_sum_def accounted_def grown_refl)
  next
    case document: (Inr d)
    show ?thesis
    proof (cases rule: scope_cases [where e = e and n = d and s = s])
      case (shut x)
      with len document show ?thesis by (simp add: model_admitted_def lift_sum_def accounted_def grown_refl bindc_Inl)
    next
      case (entered t)
      have "accounted e ?P t snd ?Q (bindc (lift_option (Refusal ''XML'') (parse_xml e text)) ?body t)"
      proof (cases "parse_xml e text")
        case None
        then show ?thesis by (simp add: accounted_def grown_refl explained_def readable_def)
      next
        case (Some doc)
        with body show ?thesis by simp
      qed
      then have "accounted e ?P s snd ?Q (owning d (bindc (lift_option (Refusal ''XML'') (parse_xml e text)) ?body) t)"
        by (rule accounted_owning [OF entered(2)])
      then show ?thesis
        using len document entered(1) by (simp add: model_admitted_def lift_sum_def bindc_Inr)
    qed
  qed
qed

lemma readable_fun: "readable e text m \<Longrightarrow> readable e text n \<Longrightarrow> m = n"
  by (auto simp: readable_def)

lemma readable_canon: "readable e text m \<Longrightarrow> bt_wf (md_properties m)"
  by (auto simp: readable_def canon_map_def dest: read_model_canon)

lemma accounted_comparison:
  "accounted e (\<nexists>m. readable e a m \<and> readable e b m) s (\<lambda>_. 0) (\<lambda>_. \<exists>m. readable e a m \<and> readable e b m)
     (assert_equivalent_admitted e a b s)"
  (is "accounted e ?P s _ ?Q _")
proof -
  obtain r t where run: "model_admitted e a s = (r, t)" by (rule prod.exhaust)
  show ?thesis
  proof (cases r)
    case (Inl x)
    have "explained e (\<nexists>m. readable e a m) x" "grown 0 s t"
      using accounted_model [of e a s] Inl run by (simp_all add: accounted_def)
    moreover from this(1) have "explained e ?P x" by (auto simp: explained_def split: rdf_error.splits)
    ultimately show ?thesis using Inl run by (simp add: assert_equivalent_admitted_def bindc_def accounted_def)
  next
    case (Inr p)
    obtain m n where p: "p = (m, n)" by (rule prod.exhaust)
    have m: "readable e a m" "grown n s t" using accounted_model [of e a s] Inr p run by (simp_all add: accounted_def)
    let ?rest = "bindc (model_admitted e b) (\<lambda>(serialized, k). owning k (lift_sum (same_model m serialized)))"
    have "accounted e ?P t (\<lambda>_. 0) ?Q (?rest t)"
    proof -
      obtain r' u where run': "model_admitted e b t = (r', u)" by (rule prod.exhaust)
      show ?thesis
      proof (cases r')
        case (Inl x)
        have "explained e (\<nexists>m. readable e b m) x" "grown 0 t u"
          using accounted_model [of e b t] Inl run' by (simp_all add: accounted_def)
        moreover from this(1) have "explained e ?P x" by (auto simp: explained_def split: rdf_error.splits)
        ultimately show ?thesis using Inl run' by (simp add: bindc_def accounted_def)
      next
        case (Inr q)
        obtain m' k where q: "q = (m', k)" by (rule prod.exhaust)
        have m': "readable e b m'" "grown k t u" using accounted_model [of e b t] Inr q run' by (simp_all add: accounted_def)
        have same: "same_model m m' = Inr () \<longleftrightarrow> m = m'" by (rule same_model_iff) (use m(1) m'(1) readable_canon in auto)
        have "accounted e ?P u (\<lambda>_. 0) ?Q (lift_sum (same_model m m') u)"
        proof (cases "same_model m m'")
          case (Inl x)
          with same have "m \<noteq> m'" by auto
          then have ?P using m(1) m'(1) readable_fun by blast
          then show ?thesis using explained_refusal [OF refuses_same Inl] Inl
            by (simp add: lift_sum_def accounted_def grown_refl)
        next
          case (Inr y)
          with same m(1) m'(1) show ?thesis by (auto simp: lift_sum_def accounted_def grown_refl)
        qed
        have "accounted e ?P t (\<lambda>_. 0) ?Q (owning k (lift_sum (same_model m m')) u)"
          by (rule accounted_owning) fact+
        with Inr q run' show ?thesis by (simp add: bindc_def)
      qed
    qed
    have "accounted e ?P s (\<lambda>_. 0) ?Q (owning n ?rest t)" by (rule accounted_owning) fact+
    with Inr p run show ?thesis by (simp add: assert_equivalent_admitted_def bindc_def)
  qed
qed

section \<open>Order\<close>

text \<open>
  The same tree with its attributes, its fields and the members of its bags in another order, at
  any depth. The parser gives an element no attribute twice.
\<close>

inductive alike :: "xnode \<Rightarrow> xnode \<Rightarrow> bool" where
  rearranged: "mset bs = mset as \<Longrightarrow> distinct (map attr_key as)
    \<Longrightarrow> child_texts (Element ns t bs ds) = child_texts (Element ns t as cs)
    \<Longrightarrow> list_all2 alike (child_elements (Element ns t as cs)) es
    \<Longrightarrow> mset (child_elements (Element ns t bs ds)) = mset es
    \<Longrightarrow> (ns = Some RDF \<and> t \<in> {''Seq'', ''Alt''} \<longrightarrow> child_elements (Element ns t bs ds) = es)
    \<Longrightarrow> alike (Element ns t as cs) (Element ns t bs ds)"

definition reads_as :: "xnode \<Rightarrow> xnode \<Rightarrow> bool" where
  "reads_as x y \<longleftrightarrow>
     el_ns y = el_ns x \<and> el_name y = el_name x \<and> is_element y = is_element x
     \<and> (\<forall>v. rdf_property x = Inr v \<longrightarrow> rdf_property y = Inr v)
     \<and> (\<forall>v. child_value x = Inr v \<longrightarrow> child_value y = Inr v)
     \<and> (\<forall>b m. rdf_fields x b = Inr m \<longrightarrow> rdf_fields y b = Inr m)"

lemma members_reorder:
  assumes "list_all2 reads_as xs es" "mset ys = mset es" "bt_wf m" "members checked xs m = Inr m'"
  shows "members checked ys m = Inr m'"
proof -
  obtain ps where ps: "list_all2 (member_of checked) xs ps" "insert_all ps m = Inr m'" using assms(4) members_iff by blast
  have "list_all2 (member_of checked) es ps"
    using assms(1) ps(1) by (auto simp: list_all2_conv_all_nth reads_as_def member_of_def)
  then obtain qs where qs: "list_all2 (member_of checked) ys qs" "mset qs = mset ps"
    using list_all2_reorder_left_invariance assms(2) by metis
  moreover have "insert_all qs m = Inr m'" by (rule insert_all_same [OF assms(3) _ ps(2)]) (simp add: qs(2))
  ultimately show ?thesis using members_iff by blast
qed

lemma items_reads_as: "list_all2 reads_as xs es \<Longrightarrow> items xs = Inr vs \<Longrightarrow> items es = Inr vs"
  by (auto simp: items_iff list_all2_conv_all_nth reads_as_def has_tag_def)

lemma items_reorder:
  assumes "items es = Inr vs" "mset ys = mset es"
  shows "\<exists>ws. items ys = Inr ws \<and> mset ws = mset vs"
  using list_all2_reorder_left_invariance [OF assms(1) [unfolded items_iff] assms(2)] by (simp add: items_iff)

lemma array_reorder:
  assumes "array_value f vs = Inr v" "mset ws = mset vs" "f \<in> {''Seq'', ''Alt''} \<longrightarrow> ws = vs" "f \<in> {''Bag'', ''Seq'', ''Alt''}"
  shows "array_value f ws = Inr v"
proof (cases "f = ''Bag''")
  case True
  have "sort ws = sort vs" using assms(2) by (metis sorted_list_of_multiset_mset)
  with True assms(1) show ?thesis by (simp add: array_value_def)
qed (use assms in auto)

lemma node_value_cong:
  assumes "el_ns x = el_ns y" "el_name x = el_name y" "is_element x = is_element y"
  shows "node_value x m = node_value y m"
  unfolding node_value_def has_tag_def assms ..

lemma alike_reads_as: "alike n n' \<Longrightarrow> reads_as n n'"
proof (induction rule: alike.induct)
  case (rearranged bs as ns t ds cs es)
  let ?n = "Element ns t as cs" and ?n' = "Element ns t bs ds"
  have es: "list_all2 reads_as (child_elements ?n) es" using rearranged.IH by (auto elim: list.rel_mono_strong)
  have ms: "mset (child_elements ?n') = mset es" by (rule rearranged.hyps(4))
  have texts: "child_texts ?n' = child_texts ?n" by (rule rearranged.hyps(3))
  have len: "length (child_elements ?n') = length (child_elements ?n)"
    using mset_eq_length [OF ms] list_all2_lengthD [OF es] by simp
  have attrs: "property_attrs ?n' = Inr p" if "property_attrs ?n = Inr p" for p
  proof -
    have "tfold property_attr as \<lparr>pa_fields = [], pa_language = [], pa_resource = None, pa_scalar = None, pa_structure = False\<rparr> = Inr p"
      using that by (simp add: property_attrs_def property_attrs_tfold)
    from property_attrs.perm [OF rearranged.hyps(1) [symmetric] rearranged.hyps(2) _ this] show ?thesis
      by (simp add: property_attrs_def property_attrs_tfold pa_ok_def)
  qed
  have fields: "rdf_fields ?n' b = Inr m" if run: "rdf_fields ?n b = Inr m" for b m
  proof -
    obtain m0 where m0: "tfold (field_attr b) as [] = Inr m0" "spaced ?n" "members True (child_elements ?n) m0 = Inr m"
      using run by (auto simp: rdf_fields.simps [of ?n] tryr_Inr_iff elements_Inr field_attrs_tfold spaced_def)
    have "tfold (field_attr b) bs [] = Inr m0"
      by (rule field_attrs.perm [OF rearranged.hyps(1) [symmetric] rearranged.hyps(2) bt_wf_Nil m0(1)])
    moreover have "bt_wf m0"
      using field_attrs_canon [of b as "[]" m0] m0(1) by (simp add: field_attrs_tfold canon_map_def)
    then have "members True (child_elements ?n') m0 = Inr m" by (rule members_reorder [OF es ms _ m0(3)])
    ultimately show ?thesis
      using m0(2) texts by (simp add: rdf_fields.simps [of ?n'] elements_def field_attrs_tfold spaced_def)
  qed
  have inner: "child_value ?n' = Inr v" if run: "child_value ?n = Inr v" for v
  proof (cases "is_array ?n")
    case True
    with run obtain vs where vs: "as = []" "spaced ?n" "items (child_elements ?n) = Inr vs" "array_value t vs = Inr v"
      by (auto simp: child_value_Inr)
    have "bs = []" using rearranged.hyps(1) vs(1) by simp
    have "items es = Inr vs" by (rule items_reads_as [OF es vs(3)])
    then obtain ws where ws: "items (child_elements ?n') = Inr ws" "mset ws = mset vs" using items_reorder [OF _ ms] by blast
    have "ws = vs" if "t \<in> {''Seq'', ''Alt''}"
      using rearranged.hyps(5) that True ws(1) \<open>items es = Inr vs\<close> by (auto simp: is_array_def)
    then have "array_value t ws = Inr v"
      by (intro array_reorder [OF vs(4) ws(2)]) (use True in \<open>auto simp: is_array_def\<close>)
    with True ws(1) vs(2) texts \<open>bs = []\<close> show ?thesis by (simp add: child_value_Inr is_array_def spaced_def)
  next
    case False
    with run obtain m where m: "rdf_fields ?n False = Inr m" "node_value ?n m = Inr v" by (auto simp: child_value_Inr)
    have "node_value ?n' m = Inr v" using m(2) node_value_cong [of ?n' ?n] by (simp add: is_element_def)
    moreover have "\<not> is_array ?n'" using False by (simp add: is_array_def)
    ultimately show ?thesis using fields [OF m(1)] unfolding child_value_Inr by blast
  qed
  have "rdf_property ?n' = Inr v" if run: "rdf_property ?n = Inr v" for v
  proof -
    obtain p where p: "property_attrs ?n = Inr p" using run by (rule rdf_property_attrs)
    have nonempty: "child_elements ?n' = [] \<longleftrightarrow> child_elements ?n = []" using len by (metis length_0_conv)
    have leaf: "leaf_property ?n' p = leaf_property ?n p" "text_property ?n' p = text_property ?n p"
      by (simp_all only: leaf_property_def text_property_def texts nonempty)
    have single: "\<exists>d. child_elements ?n' = [d] \<and> child_value d = Inr w" if "child_elements ?n = [c]" "child_value c = Inr w" for c w
    proof -
      from es that(1) obtain d where d: "es = [d]" "reads_as c d" by (auto simp: list_all2_Cons1)
      with ms have "child_elements ?n' = [d]" by simp
      with d(2) that(2) show ?thesis by (auto simp: reads_as_def)
    qed
    have spaced: "spaced ?n' = spaced ?n" using texts by (simp add: spaced_def)
    note run = run [unfolded rdf_property_Inr [OF p]]
    note goal = rdf_property_Inr [OF attrs [OF p], unfolded leaf nonempty spaced]
    consider "given p" | "\<not> given p" "pa_structure p" | "\<not> given p" "\<not> pa_structure p" "child_elements ?n \<noteq> []"
      | "\<not> given p" "\<not> pa_structure p" "child_elements ?n = []" by blast
    then show ?thesis
    proof cases
      case 2
      with run obtain m w where "pa_fields p = []" "spaced ?n" "members False (child_elements ?n) [] = Inr m" "valued m = Inr w"
        "qualified_value w (pa_language p) = Inr v" by auto
      with 2 run members_reorder [OF es ms bt_wf_Nil] show ?thesis unfolding goal by auto
    next
      case 3
      with run obtain c w where c: "child_elements ?n = [c]" "child_value c = Inr w" "qualified_value w (pa_language p) = Inr v"
        and rest: "spaced ?n" "pa_fields p = []" "pa_resource p = None \<or> pa_scalar p = None" by auto
      from single [OF c(1,2)] obtain d where "child_elements ?n' = [d]" "child_value d = Inr w" by blast
      with 3 c(3) rest show ?thesis unfolding goal by simp
    qed (use run in \<open>simp_all add: goal\<close>)
  qed
  with fields inner show ?case by (simp add: reads_as_def is_element_def)
qed

section \<open>Documents\<close>

definition write_document :: "string \<Rightarrow> properties \<Rightarrow> xnode list" where
  "write_document subject m =
     [Element (Some RDF) ''RDF'' [] [Element (Some RDF) ''Description'' [attr RDF ''about'' subject] (written m)]]"

lemma located_up: "(up, n) \<in> set (located u x) \<Longrightarrow> length u \<le> length up"
proof (induction u x rule: located.induct)
  case (1 u ns t as cs)
  then show ?case by force
qed simp_all

definition located_ok :: "xnode \<Rightarrow> bool" where
  "located_ok x \<longleftrightarrow> (\<forall>u up n. (up, n) \<in> set (located u x) \<longrightarrow> list_all plain_attr (el_attrs n))"

lemma located_ok_Element:
  "list_all plain_attr as \<Longrightarrow> \<forall>c \<in> set cs. located_ok c \<Longrightarrow> located_ok (Element ns t as cs)"
  by (auto simp: located_ok_def)

lemma plain_written [simp]:
  "plain_attr (attr RDF ''parseType'' v)" "plain_attr (attr RDF ''resource'' v)" "plain_attr (attr RDF ''about'' v)" "plain_attr (lang_attr l)"
  by (simp_all add: plain_attr_def attr_def lang_attr_def)

lemma plain_lists [simp]: "list_all plain_attr resource_attrs" "list_all plain_attr (language_attrs qs)"
  by (auto simp: resource_attrs_def language_attrs_def split: option.split)

lemma located_write: "list_all plain_attr as \<Longrightarrow> located_ok (write_property as k v)"
proof (induction as k v rule: write_property.induct)
  case (1 as k s)
  then show ?case by (auto simp: write_property.simps located_ok_def)
next
  case (2 as k u)
  then show ?case by (auto simp: write_property.simps located_ok_def)
next
  case (3 as k m)
  then show ?case unfolding write_property.simps by (intro located_ok_Element) auto
next
  case (4 as k f vs)
  then show ?case unfolding write_property.simps by (auto intro!: located_ok_Element)
next
  case (5 as k v qs)
  then show ?case unfolding write_property.simps by (auto intro!: located_ok_Element)
qed

lemma check_elements_iff:
  "check_elements es = Inr () \<longleftrightarrow> (\<forall>(up, n) \<in> set es. ancestor_count up \<le> 65 \<and> list_all plain_attr (el_attrs n))"
  by (induction es rule: check_elements.induct) (auto simp: tryr_Inr_iff min_def)

text \<open>The one \<open>rdf:RDF\<close> of a written document is its root.\<close>

definition one_root :: "xnode list \<Rightarrow> bool" where
  "one_root doc \<longleftrightarrow> (\<forall>(up, n) \<in> set (document_elements doc). has_tag RDF ''RDF'' n \<longrightarrow> up = [])"

definition within_depth :: "xnode list \<Rightarrow> bool" where
  "within_depth doc \<longleftrightarrow> (\<forall>(up, n) \<in> set (document_elements doc). ancestor_count up \<le> 65)"

lemma document_roots:
  assumes "one_root [Element (Some RDF) ''RDF'' [] ds]"
  shows "filter (\<lambda>(up, n). has_tag RDF ''RDF'' n) (document_elements [Element (Some RDF) ''RDF'' [] ds])
    = [([], Element (Some RDF) ''RDF'' [] ds)]"
proof -
  let ?root = "Element (Some RDF) ''RDF'' [] ds"
  have "\<not> has_tag RDF ''RDF'' n" if "(up, n) \<in> set (concat (map (located [?root]) ds))" for up n
  proof
    assume "has_tag RDF ''RDF'' n"
    then have "up = []" using assms that by (force simp: one_root_def document_elements_def)
    moreover have "length [?root] \<le> length up" using that located_up by force
    ultimately show False by simp
  qed
  then have "filter (\<lambda>(up, n). has_tag RDF ''RDF'' n) (concat (map (located [?root]) ds)) = []"
    by (simp only: filter_empty_conv) auto
  then show ?thesis by (simp add: document_elements_def has_tag_def is_element_def)
qed

section \<open>Compact forms\<close>

definition field_attr_ok :: "xml_attr \<Rightarrow> bool" where
  "field_attr_ok a \<longleftrightarrow> at_ns a \<notin> {None, Some RDF, Some XML}"

definition entries :: "xml_attr list \<Rightarrow> properties" where
  "entries as = map (\<lambda>a. ((the (at_ns a), at_name a), Literal (at_value a))) as"

lemma property_attrs_entries:
  "list_all field_attr_ok as \<Longrightarrow> property_attrs_from as p = tryr (insert_all (entries as) (pa_fields p)) (\<lambda>m. Inr (p\<lparr>pa_fields := m\<rparr>))"
proof (induction as arbitrary: p)
  case (Cons a as)
  then show ?case
    by (auto simp: entries_def property_attr_def field_attr_ok_def rdf_name_def tryr_def split: sum.splits)
qed (simp add: entries_def)

lemma field_attrs_entries: "list_all field_attr_ok as \<Longrightarrow> field_attrs toplevel as m = insert_all (entries as) m"
  by (induction as arbitrary: m) (auto simp: entries_def field_attr_ok_def rdf_name_def tryr_def split: sum.splits)

lemma insert_all_total:
  "bt_wf m \<Longrightarrow> distinct (map fst ps) \<Longrightarrow> fst ` set ps \<inter> fst ` set m = {} \<Longrightarrow> \<exists>m'. insert_all ps m = Inr m'"
proof (induction ps arbitrary: m)
  case (Cons p ps)
  obtain k v where p: "p = (k, v)" by (rule prod.exhaust)
  have k: "k \<notin> fst ` set m" using Cons.prems(3) p by auto
  have "\<exists>m'. insert_all ps (bt_insert k v m) = Inr m'"
    by (rule Cons.IH) (use Cons.prems p in \<open>auto simp: bt_wf_insert keys_bt_insert\<close>)
  with k show ?case by (auto simp: p rdf_insert_def bt_map_of_None guard_def)
qed simp

section \<open>Properties\<close>

text \<open>
  C20: the comparison decides whether the two texts are readable with one and the same model. It
  succeeds only then; when it refuses they are not; its only other errors are the caller's
  refusal of storage and an overflow of the account. However it ends, every scope of storage was
  given back exactly, so no drop finds an imbalance.
\<close>

theorem comparison_decides:
  "case assert_equivalent_admitted e a b s of (r, t) \<Rightarrow>
     rs_live t = rs_live s \<and> rs_high s \<le> rs_high t
     \<and> (case r of
          Inr _ \<Rightarrow> \<exists>m. readable e a m \<and> readable e b m
        | Inl (Refusal _) \<Rightarrow> \<nexists>m. readable e a m \<and> readable e b m
        | Inl NotAdmitted \<Rightarrow> \<exists>n. \<not> admits e n
        | Inl StorageOverflow \<Rightarrow> True
        | Inl ScopeImbalance \<Rightarrow> False)"
  using accounted_comparison [of e a b s]
  by (auto simp: accounted_def grown_def explained_def split: prod.split sum.splits rdf_error.splits)

text \<open>
  C37: every canonical model whose properties are not RDF's own (other than \<open>value\<close> and \<open>type\<close>)
  survives serialization, if its document keeps within the limit of nesting and has one RDF root:
  the document written for it passes the checks and is read as exactly that subject and those
  properties, arrays, structures, languages and nested qualifiers included, so two different
  models never compare as equal.
\<close>

theorem document_roundtrip:
  assumes "canon_map m" "\<forall>p \<in> set m. fst (fst p) \<noteq> RDF \<or> snd (fst p) \<in> {''value'', ''type''}"
    "within_depth (write_document subject m)" "one_root (write_document subject m)"
  shows "check_elements (document_elements (write_document subject m)) = Inr ()
    \<and> read_model (write_document subject m) = Inr \<lparr>md_subject = subject, md_properties = m\<rparr>"
proof -
  let ?d = "Element (Some RDF) ''Description'' [attr RDF ''about'' subject] (written m)"
  have restored: "rdf_property (write_property [] (fst p) (snd p)) = Inr (snd p)" if "p \<in> set m" for p
    using write_back [of "snd p" "fst p"] assms(1) that by (simp add: read_back_def canon_map_def)
  have "located_ok (Element (Some RDF) ''RDF'' [] [?d])"
    by (auto intro!: located_ok_Element located_write)
  then have "\<forall>(up, n) \<in> set (document_elements (write_document subject m)). list_all plain_attr (el_attrs n)"
    unfolding located_ok_def write_document_def document_elements_def by (auto simp del: located.simps)
  then have check: "check_elements (document_elements (write_document subject m)) = Inr ()"
    using assms(3) unfolding check_elements_iff within_depth_def by blast
  have "members True (written m) [] = insert_all m []" by (rule members_written) (use restored assms(2) in auto)
  then have "members True (written m) [] = Inr m" using insert_all_wf assms(1) by (simp add: canon_map_def)
  then have "rdf_fields ?d True = Inr m"
    unfolding rdf_fields.simps [of ?d] by (simp add: elements_def no_texts all_written attr_def)
  moreover have "attribute RDF ''about'' ?d = Some subject" by (simp add: attribute_def attr_def)
  ultimately have "descriptions [?d] None [] = Inr \<lparr>md_subject = subject, md_properties = m\<rparr>"
    using insert_all_wf assms(1) by (simp add: has_tag_def is_element_def canon_map_def)
  with document_roots [OF assms(4) [unfolded write_document_def]] check show ?thesis
    by (simp add: read_model_def write_document_def elements_def child_simps is_element_def)
qed

text \<open>A literal and a link with a language, which is written as the \<open>xml:lang\<close> attribute.\<close>

theorem document_roundtrip_witness:
  "read_model (write_document ''photo'' [((''dc'', ''title''), Array ''Seq'' [Literal ''Snow'', Qualified (Uri ''u'') [((XML, ''lang''), Literal ''en'')]])])
   = Inr \<lparr>md_subject = ''photo'',
       md_properties = [((''dc'', ''title''), Array ''Seq'' [Literal ''Snow'', Qualified (Uri ''u'') [((XML, ''lang''), Literal ''en'')]])]\<rparr>"
proof -
  let ?m = "[((''dc'', ''title''), Array ''Seq'' [Literal ''Snow'', Qualified (Uri ''u'') [((XML, ''lang''), Literal ''en'')]])]"
  have lang: "language_of [((XML, ''lang''), Literal ''en'')] = Some ''en''"
    by (simp add: language_of_def ascii_lower_def)
  have doc: "write_document ''photo'' ?m =
      [Element (Some RDF) ''RDF'' [] [Element (Some RDF) ''Description'' [attr RDF ''about'' ''photo'']
        [Element (Some ''dc'') ''title'' [] [Element (Some RDF) ''Seq'' []
          [Element (Some RDF) ''li'' [] [TextNode ''Snow''], Element (Some RDF) ''li'' [attr RDF ''resource'' ''u'', lang_attr ''en''] []]]]]]"
    by (simp add: write_document_def write_property.simps other_qualifiers_def language_attrs_def lang bt_remove_def)
  have "canon_map ?m" "\<forall>p \<in> set ?m. fst (fst p) \<noteq> RDF \<or> snd (fst p) \<in> {''value'', ''type''}"
    by (simp_all add: canon_map_def bt_wf_def RDF_def XML_def)
  moreover have "within_depth (write_document ''photo'' ?m)" "one_root (write_document ''photo'' ?m)"
    unfolding doc by (simp_all add: within_depth_def one_root_def document_elements_def ancestor_count_def has_tag_def)
  ultimately show ?thesis using document_roundtrip by blast
qed

text \<open>
  C39: the order of attributes, of fields and qualifiers and of the members of bags, at any depth,
  does not matter: a tree that is read as a value or as the fields of a description is read the
  same after any rearrangement of them.
\<close>

theorem order_irrelevant:
  assumes "alike n n'"
  shows "(rdf_property n = Inr v \<longrightarrow> rdf_property n' = Inr v)
    \<and> (rdf_fields n toplevel = Inr m \<longrightarrow> rdf_fields n' toplevel = Inr m)"
  using alike_reads_as [OF assms] unfolding reads_as_def by blast

definition ex_li :: "string \<Rightarrow> xnode" where
  "ex_li s = Element (Some RDF) ''li'' [] [TextNode s]"

definition ex_bag :: "string list \<Rightarrow> xnode" where
  "ex_bag ss = Element (Some ''dc'') ''subject'' [] [Element (Some RDF) ''Bag'' [] (map ex_li ss)]"

theorem order_irrelevant_witness:
  "\<exists>v. rdf_property (ex_bag [''snow'', ''ice'']) = Inr v \<and> rdf_property (ex_bag [''ice'', ''snow'']) = Inr v"
proof -
  have li: "alike (ex_li s) (ex_li s)" for s
    unfolding ex_li_def by (rule rearranged [where es = "[]"]) (simp_all add: child_simps is_element_def)
  have inner: "alike (Element (Some RDF) ''Bag'' [] (map ex_li [''snow'', ''ice''])) (Element (Some RDF) ''Bag'' [] (map ex_li [''ice'', ''snow'']))"
    by (rule rearranged [where es = "map ex_li [''snow'', ''ice'']"]) (use li in \<open>simp_all add: child_simps is_element_def ex_li_def\<close>)
  have "alike (ex_bag [''snow'', ''ice'']) (ex_bag [''ice'', ''snow''])"
    unfolding ex_bag_def
    by (rule rearranged [where es = "[Element (Some RDF) ''Bag'' [] (map ex_li [''ice'', ''snow''])]"])
      (use inner in \<open>simp_all add: child_simps is_element_def\<close>)
  moreover obtain v where "rdf_property (ex_bag [''snow'', ''ice'']) = Inr v"
  proof -
    have "rdf_property (ex_li s) = Inr (Literal s)" for s
      unfolding ex_li_def by (simp add: rdf_property_Inr [OF written_attrs(1)] child_simps is_element_def text_property_def qualified_plain)
    then have "items (map ex_li [''snow'', ''ice'']) = Inr [Literal ''snow'', Literal ''ice'']"
      by (simp add: has_tag_def) (simp add: ex_li_def is_element_def)
    then have "child_value (Element (Some RDF) ''Bag'' [] (map ex_li [''snow'', ''ice'']))
        = Inr (Array ''Bag'' (sort [Literal ''snow'', Literal ''ice'']))"
      by (simp add: child_value_Inr is_array_def spaced_def child_simps array_value_def) (simp add: ex_li_def is_element_def)
    then have "rdf_property (ex_bag [''snow'', ''ice'']) = Inr (Array ''Bag'' (sort [Literal ''snow'', Literal ''ice'']))"
      unfolding ex_bag_def
      by (simp add: rdf_property_Inr [OF written_attrs(1)] child_simps(1) is_element_def qualified_plain spaced_def)
        (simp add: child_simps)
    then show thesis by (rule that)
  qed
  ultimately show ?thesis using order_irrelevant by blast
qed

text \<open>
  The compact forms of a structure agree: fields as attributes of the property, as
  children of a \<open>parseType="Resource"\<close> property, or as attributes or children of a nested
  description.
\<close>

theorem compact_forms_agree:
  assumes "as \<noteq> []" "list_all field_attr_ok as" "distinct (map attr_key as)"
  shows "\<exists>m. set m = set (entries as)
    \<and> rdf_property (Element ns t as []) = Inr (Struct m)
    \<and> rdf_property (Element ns t resource_attrs (written (entries as))) = Inr (Struct m)
    \<and> rdf_property (Element ns t [] [Element (Some RDF) ''Description'' as []]) = Inr (Struct m)
    \<and> rdf_property (Element ns t [] [Element (Some RDF) ''Description'' [] (written (entries as))]) = Inr (Struct m)"
proof -
  have some: "at_ns a = Some (the (at_ns a))" if "a \<in> set as" for a
    using assms(2) that by (auto simp: list_all_iff field_attr_ok_def)
  have "map fst (entries as) = map (\<lambda>k. (the (fst k), snd k)) (map attr_key as)"
    by (simp add: entries_def attr_key_def)
  moreover have "inj_on (\<lambda>k. (the (fst k), snd k)) (set (map attr_key as))"
    using some by (auto simp: inj_on_def attr_key_def) metis
  ultimately have "distinct (map fst (entries as))" using assms(3) by (simp only: distinct_map)
  then obtain m where m: "insert_all (entries as) [] = Inr m" using insert_all_total [OF bt_wf_Nil] by auto
  then have mset: "bt_wf m" "set m = set (entries as)" by (simp_all add: insert_all_iff)
  have foreign: "fst (fst p) \<noteq> RDF" if "p \<in> set (entries as)" for p
    using that assms(2) by (auto simp: entries_def field_attr_ok_def list_all_iff)
  have "map_of m (RDF, ''value'') = None" using mset(2) foreign by (force simp: map_of_eq_None_iff)
  then have valued: "valued m = Inr (Struct m)" by (simp add: valued_def)
  have "m \<noteq> []" using mset(2) assms(1) by (auto simp: entries_def)
  have lits: "\<forall>p \<in> set (entries as). rdf_property (write_property [] (fst p) (snd p)) = Inr (snd p)"
    using literal_back by (auto simp: entries_def read_back_def)
  have mem: "members c (written (entries as)) [] = Inr m" for c
    using members_written [OF lits, of c "[]"] foreign m by auto
  have attrs: "field_attrs toplevel as [] = Inr m" for toplevel
    using field_attrs_entries [OF assms(2)] m by simp
  let ?p = "\<lparr>pa_fields = m, pa_language = [], pa_resource = None, pa_scalar = None, pa_structure = False\<rparr>"
  have "property_attrs (Element ns t as []) = Inr ?p"
    unfolding property_attrs_def by (simp add: property_attrs_entries [OF assms(2)] m)
  then have 1: "rdf_property (Element ns t as []) = Inr (Struct m)"
    using \<open>m \<noteq> []\<close> by (simp add: rdf_property_Inr given_def child_simps text_property_def qualified_plain)
  have 2: "rdf_property (Element ns t resource_attrs (written (entries as))) = Inr (Struct m)"
    using mem valued no_texts [OF all_written]
    by (simp add: rdf_property_Inr [OF written_attrs(2)] spaced_def qualified_plain)
  have node: "rdf_property (Element ns t [] [c]) = Inr (Struct m)"
    if "rdf_fields c False = Inr m" "has_tag RDF ''Description'' c" for c
  proof -
    have "child_value c = Inr (Struct m)"
      using that valued by (auto simp: child_value_Inr is_array_def has_tag_def node_value_def)
    with that(2) show ?thesis
      by (simp add: rdf_property_Inr [OF written_attrs(1)] child_simps has_tag_def spaced_def is_element_def qualified_plain split: xnode.splits)
  qed
  have 3: "rdf_fields (Element (Some RDF) ''Description'' as []) False = Inr m"
    using attrs by (simp add: rdf_fields.simps [of "Element _ _ _ _"] elements_def child_simps)
  have 4: "rdf_fields (Element (Some RDF) ''Description'' [] (written (entries as))) False = Inr m"
    using mem no_texts [OF all_written] by (simp add: rdf_fields.simps [of "Element _ _ _ _"] elements_def)
  from 1 2 node [OF 3] node [OF 4] mset(2) show ?thesis by (auto simp: has_tag_def is_element_def)
qed

end
