(* ===== verification/Spec2Isabelle.thy ===== *)
theory Spec2Isabelle
  imports Scheduler_Properties Budget_Refinement Cache_Properties XMP_Properties
    XMP_Inspect_Properties WAL_Correct Edit_Properties Settings_Properties Psd_Properties
    Writer_Properties Read_Properties Role_Properties Prepared_Properties
    RDF_Properties
begin

text \<open>
  A verification library for PhotoCatalog (LensWorks), a photo catalog and non-destructive
  editor written in Rust (\<open>src/src\<close>).

  \<^bold>\<open>The program.\<close> One owner thread keeps the catalog in SQLite and answers bounded requests of a
  desktop front end. It never decodes an image itself: previews are rendered, and cached
  previews decoded, by child processes that a scheduler admits against a byte and a worker
  allowance; decoded pages live in a cache under a shared byte budget. Originals are only
  read: metadata is extracted from photo containers by a bounded parser between two
  observations of the file, settings of an Adobe catalog are read as data and translated to
  edit recipes, and every write to the catalog passes one admission gate per catalog. The
  library models the parts that carry this logic themselves; the database, the operating
  system, the codecs and the digests are arguments of the definitions that use them.

  \<^bold>\<open>Theories and the code they model.\<close>

  \<^item> \<open>PC_Prelude\<close>: checked and saturating arithmetic of \<open>u64\<close>, hash maps as association
    lists, byte strings, state-and-error computations (\<open>comp\<close>) with their rules
    (\<open>triple\<close>, \<open>keeps\<close>); \<open>Transition_System\<close>: reachability, invariants, quantities and
    relations that steps respect, as locales; \<open>Run_Logic\<close>: total correctness of a
    computation from one state (\<open>runs\<close>) with rules for loops, and runs whose callers go on
    after an error (\<open>ends\<close>).
  \<^item> \<open>Preview_Scheduler\<close> (\<open>preview/scheduler.rs\<close>): \<open>PreviewScheduler\<close> is the record
    \<open>preview_scheduler\<close>; each method is a computation on it, cancellation flags are an
    explicit store. \<open>Scheduler_Invariant\<close>, \<open>Scheduler_Correct\<close>: the invariant (allowances,
    links between jobs, keys, consumers and leases) and what each operation does;
    \<open>Scheduler_Properties\<close>: the claims.
  \<^item> \<open>Writer_Gate\<close> (\<open>catalog_writer.rs\<close>): \<open>State\<close> is \<open>writer_state\<close>; each critical section of
    its mutex is a computation (\<open>take_ticket\<close>, \<open>admission_turn\<close>, \<open>retire\<close>,
    \<open>release_owner\<close>), the threads around them are the phases of a \<open>gate\<close> and
    \<open>gate_step\<close> interleaves them; \<open>awake\<close> models the condition variable. \<open>Writer_Ranges\<close>: the
    ranges of tickets given up as a set; \<open>Writer_Correct\<close>: the critical sections on
    well-formed tickets; \<open>Writer_Properties\<close>: invariant and claims.
  \<^item> \<open>Byte_Budget\<close> (\<open>preview/memory.rs\<close>, budgets): pools and reservations with identities;
    \<open>Budget_Refinement\<close>: an account of grants they refine. \<open>Preview_Codec\<close>
    (\<open>preview/codec.rs\<close>): checks, dispatch and error classification around the codec
    backends. \<open>Decoded_Cache\<close> (\<open>preview/memory.rs\<close>, \<open>DecodedCache\<close>): the cache with
    shared pages; \<open>Cache_Correct\<close>, \<open>Cache_Properties\<close>.
  \<^item> \<open>Managed_Read\<close>, \<open>Managed_Poll\<close> (\<open>preview/managed_reads.rs\<close>): \<open>ManagedRead\<close> and the part of
    \<open>PreviewService\<close> it works on, \<open>begin_managed_read\<close>, one turn \<open>poll_managed_read\<close> (transfer,
    admission, header, decode, pixels, cleanup) and \<open>release_scheduler\<close>, over the scheduler and the
    decoded cache above. \<open>Read_Queue\<close> (\<open>preview/read_queue.rs\<close>): tickets, \<open>queue_read\<close>, \<open>cancel_read\<close>,
    \<open>tick_read\<close>, \<open>take_read\<close> and the shutdown, and \<open>service_step\<close>, which interleaves them with
    render calls on the scheduler. \<open>Read_Registry\<close>: the contract of the scheduler towards its reads, as
    a locale; \<open>Read_Correct\<close>: one turn keeps it; \<open>Read_Books\<close>: every step of the queue does;
    \<open>Read_Service\<close>: the invariant and the life of a ticket; \<open>Read_Properties\<close>: the claims.
  \<^item> \<open>Prepared_Cache\<close> (\<open>preview/prepared_cache.rs\<close>): \<open>PreparedCache\<close> over the files of its
    directory, with \<open>adopt\<close>, \<open>lookup\<close>, eviction and \<open>remove_entry\<close>, for a store with and without the
    filesystem worker; \<open>Prepared_Properties\<close>.
  \<^item> \<open>Role_Pool\<close> (\<open>catalog_session/roles.rs\<close>): \<open>State\<close> of \<open>RolePool\<close> is \<open>role_pool\<close>, each method
    under its mutex a computation; \<open>role_world\<close> adds the \<open>SqlConnection\<close> handles and \<open>role_step\<close>
    interleaves them. \<open>Role_Properties\<close>: invariant and claims.
  \<^item> \<open>XMP_Parser\<close>, \<open>XMP_Containers\<close> (\<open>xmp_packets.rs\<close>): the \<open>Parser\<close> with its budgets and a
    definition per container method, composed by \<open>photo\<close> and \<open>sidecar\<close>. \<open>XMP_Contract\<close>: the
    interface between the two (what a parser state must keep so that every container
    method does), \<open>XMP_Safety\<close>, \<open>XMP_Roundtrip\<close>, \<open>XMP_Properties\<close>. \<open>XMP_Inspect\<close>
    (\<open>inspect_controlled\<close>): observations of the file around hash and parse;
    \<open>XMP_Inspect_Properties\<close>. \<open>Utf8\<close>: the validity test of byte strings.
  \<^item> \<open>RDF_Order\<close>, \<open>RDF_Compare\<close> (\<open>xmp_rdf.rs\<close>, and \<open>requested.rs\<close> of the migration worker's memory):
    \<open>Value\<close> with its derived order, ordered maps as sorted lists, \<open>property\<close> and \<open>fields\<close> as
    mutually recursive functions on the XML tree, \<open>assert_equivalent_admitted\<close> under the account of
    requested storage. \<open>RDF_Correct\<close>: values read are canonical, and attribute loops commute;
    \<open>RDF_Writer\<close>: a writer as the specification; \<open>RDF_Properties\<close>: the claims.
  \<^item> \<open>Lightroom_WAL\<close> (\<open>lightroom/wal.rs\<close>) and \<open>WAL_Correct\<close>: the validator of a write-ahead
    log against a writer of such logs.
  \<^item> \<open>IEEE_Floats\<close>: floating-point values as rationals with signed zero, infinities and NaN,
    rounding to nearest even, the operations the sources use. \<open>Edit_Recipe\<close>
    (\<open>edit/recipe.rs\<close>), \<open>Edit_Properties\<close>: validation, pixel dimensions, copying of groups.
  \<^item> \<open>Adobe_Data\<close> (\<open>lightroom/adobe_data.rs\<close>): the parser of catalog data, one definition per
    method; \<open>Adobe_Safety\<close>, \<open>Adobe_Parse\<close>, \<open>Adobe_Paths\<close>, \<open>Adobe_Properties\<close>.
    \<open>Adobe_Settings\<close> (\<open>lightroom/adobe.rs\<close>): judgement of the properties and translation to a
    contribution; \<open>Adobe_Mapping\<close>, \<open>Settings_Properties\<close>, which rest on \<open>Adobe_Data\<close> for the
    values and on \<open>Edit_Recipe\<close> for the recipe a contribution is applied to.
  \<^item> \<open>Psd_Composite\<close> (\<open>media/psd.rs\<close>): the merged-composite reader down to its pixels;
    \<open>Psd_Safety\<close>, \<open>Psd_Roundtrip\<close>, \<open>Psd_Properties\<close>.

  \<^bold>\<open>How the state corresponds.\<close> A Rust struct is a record with a field per field, an enum a
  datatype; \<open>u64\<close> and \<open>usize\<close> (64 bit) are naturals below \<open>u64_limit\<close> with the checked
  operations of the source written out, and a plain \<open>+\<close> or \<open>-\<close> that could overflow, an index
  out of range or an \<open>unwrap\<close> is a panic value of the component's error type, so that a proof of
  absence of panics is a statement about results. Wrapping arithmetic (checksums, the PSD
  predictors, CRC) is on machine words. A \<open>HashMap\<close> is an association list in the order of
  insertion; no claim depends on the order.

  \<^bold>\<open>Loops and fuel.\<close> Loops over data are structural or have a termination proof. The parsers'
  loops and recursions run on fuel: the cursor loops get one or two units more than the bytes
  that remain, of which each turn consumes one at least, and the directory, box and table
  recursions get two units more than the depth limit of the configuration, which the
  code itself checks; running out is a value of its own (\<open>OutOfFuel\<close>, \<open>DataFuel\<close>, \<open>PsdFuel\<close>) and the
  totality claims of the XMP, Adobe and PSD parsers show that it is never the result. In
  \<open>XMP_Inspect\<close> and the hash passes the number of reads is bounded by the length.

  \<^bold>\<open>What the claims show.\<close> Scheduler: the reserved bytes are the bytes in use and within the
  allowance, no panic, leases are never valid twice, the front of the queue is served,
  completion and cancellation release exactly what was held, a completed job returns to the
  queue exactly if it was preempted and is still wanted, preemption picks the oldest
  background work, an idle scheduler makes progress. Writer gate: exclusion, the order of every
  admission (on the first turn of a request or a later one), exact account of cancelled tickets, no lost turn or wakeup, over all interleavings. Budgets and
  cache: exact accounts within their limits, refusals only when consumers hold the bytes,
  lookups return what was committed. Managed reads: requests and leases of the scheduler belong to
  exactly one read, whatever catalog, store, tasks and workers answer; turns never run into an
  inconsistency; tickets follow their life, a canceled one never completes; the shutdown returns
  every request; a request is left behind only by a read that ends with its cached legacy page
  (\<open>legacy_hit_leaks\<close> is such a run). Prepared cache: every file is charged and within the
  allowance, eviction takes the least recently used. SQL roles: one owner per role, no connection
  lost, reuse only after a healthy join, the root released last and once, counted by the filesystem's own
  answers (\<open>root_answers\<close>). RDF comparison: it decides equality
  of models and balances its storage, round trip with the writer, no dependence on order. XMP: totality, budgets and provenance of every packet on
  arbitrary input, round trips with writers of the formats, and that an accepted revision was
  bracketed by agreeing observations: first path and file, then the reads of the hash, the parser,
  the second hash or equal stamps, and file and path again, in the order of the system calls. Adobe: totality, spans and distinct paths of the parsed
  properties; mapped settings are qualified, all or nothing, and apply to any valid recipe.
  WAL: exact reports for written logs. Recipe: canonical validation, safe dimensions. PSD:
  totality, composites of the extent the file's header declares and within every limit, equality of compressed and raw planes, predictor round trip.

  \<^bold>\<open>Not modelled.\<close> Everything whose behaviour is that of SQLite (catalog storage, metadata,
  organization, search, Lightroom plans, migration), of the operating system (the filesystem
  worker, process supervision, publication of exports, volume identities) or of native and
  third-party libraries (codecs, colour management, raw development, the XMP SDK); the
  floating-point image pipeline of \<open>edit/render.rs\<close> and its neighbours; the message types of
  the desktop bridge; the command line. Within the modelled files: resizing and colour
  preparation in \<open>preview/codec.rs\<close>, the synchronous branch of \<open>tick_read\<close> (a store without the
  filesystem worker), the render jobs of \<open>preview/service.rs\<close>, the XML reader of \<open>lightroom/adobe.rs\<close>,
  the branches compiled for Windows, how the prepared cache reads and hashes files, time
  measurements and type layouts.
\<close>

end
